(* ===== verification/OVC_Prelude.thy ===== *)
theory OVC_Prelude
  imports Complex_Main
    "HOL-Library.AList"
    "HOL-Library.Multiset"
    "HOL-Library.Sublist"
    "HOL-Library.List_Lexorder"
    "HOL-Library.Char_ord"
    "HOL-Library.Product_Lexorder"
begin

text \<open>
  The shared vocabulary of the development.

  JavaScript data: a \<^verbatim>\<open>number\<close> is a \<^verbatim>\<open>jsnum\<close> where NaN, an infinity
  or a fraction can reach the code, and a plain \<^verbatim>\<open>int\<close> where the code only ever
  holds safe integers (epoch milliseconds, counters). A member of type
  \<^verbatim>\<open>T | undefined\<close> is an \<^verbatim>\<open>option\<close>; a member of type
  \<^verbatim>\<open>T | null | undefined\<close> is a \<^verbatim>\<open>nullable option\<close>. A JavaScript \<^verbatim>\<open>Map\<close> and a
  plain object iterate in insertion order and keep the position of a key that is
  set again, which is what \<^verbatim>\<open>AList.update\<close> does to an association list.

  Strings are lists of characters. The repository compares timestamps
  (\<^verbatim>\<open>toISOString()\<close>, fixed width) and ULIDs (fixed width, digits and upper case
  letters) with \<^verbatim>\<open>localeCompare\<close>; on such strings this is the lexicographic order
  of \<^verbatim>\<open>List_Lexorder\<close>.

  Lemmas used across the components are collected here.
\<close>

named_theorems ovc_defs \<open>definitions of operations unfolded together\<close>
named_theorems ovc_frame \<open>what an operation leaves untouched\<close>

section \<open>Numbers and values of the language\<close>

datatype jsnum = NaN | PInf | NInf | Fin rat

datatype 'a nullable = Null | Val 'a

datatype json = JNull | JBool bool | JNum jsnum | JStr string | JArr "json list"
  | JObj "(string \<times> json) list"

type_synonym ('k, 'v) jsmap = "('k \<times> 'v) list"

fun js_lt :: "jsnum \<Rightarrow> jsnum \<Rightarrow> bool" where
  "js_lt NaN y = False"
| "js_lt x NaN = False"
| "js_lt PInf y = False"
| "js_lt x NInf = False"
| "js_lt NInf y = True"
| "js_lt x PInf = True"
| "js_lt (Fin a) (Fin b) = (a < b)"

fun js_floor :: "jsnum \<Rightarrow> jsnum" where
  "js_floor (Fin a) = Fin (of_int \<lfloor>a\<rfloor>)"
| "js_floor x = x"

fun js_round :: "jsnum \<Rightarrow> jsnum" where
  "js_round (Fin a) = Fin (of_int \<lfloor>a + 1 / 2\<rfloor>)"
| "js_round x = x"

fun js_max :: "jsnum \<Rightarrow> jsnum \<Rightarrow> jsnum" where
  "js_max NaN y = NaN"
| "js_max x NaN = NaN"
| "js_max x y = (if js_lt x y then y else x)"

fun js_min :: "jsnum \<Rightarrow> jsnum \<Rightarrow> jsnum" where
  "js_min NaN y = NaN"
| "js_min x NaN = NaN"
| "js_min x y = (if js_lt y x then y else x)"

fun js_add :: "jsnum \<Rightarrow> jsnum \<Rightarrow> jsnum" where
  "js_add (Fin a) (Fin b) = Fin (a + b)"
| "js_add NaN y = NaN"
| "js_add x NaN = NaN"
| "js_add PInf NInf = NaN"
| "js_add NInf PInf = NaN"
| "js_add PInf y = PInf"
| "js_add NInf y = NInf"
| "js_add x PInf = PInf"
| "js_add x NInf = NInf"

fun js_neg :: "jsnum \<Rightarrow> jsnum" where
  "js_neg (Fin a) = Fin (- a)"
| "js_neg PInf = NInf"
| "js_neg NInf = PInf"
| "js_neg NaN = NaN"

definition js_sub :: "jsnum \<Rightarrow> jsnum \<Rightarrow> jsnum" where
  "js_sub x y = js_add x (js_neg y)"

definition js_of_int :: "int \<Rightarrow> jsnum" where
  "js_of_int i = Fin (of_int i)"

fun js_finite :: "jsnum \<Rightarrow> bool" where
  "js_finite (Fin a) = True"
| "js_finite x = False"

lemma js_floor_int [simp]: "js_floor (js_of_int i) = js_of_int i"
  by (simp add: js_of_int_def)

lemma js_round_int [simp]: "js_round (js_of_int i) = js_of_int i"
proof -
  have "\<lfloor>(of_int i :: rat) + 1 / 2\<rfloor> = i" by linarith
  then show ?thesis by (simp add: js_of_int_def)
qed

lemma js_of_int_inject [simp]: "js_of_int i = js_of_int j \<longleftrightarrow> i = j"
  by (simp add: js_of_int_def)

lemma js_lt_int [simp]: "js_lt (js_of_int i) (js_of_int j) \<longleftrightarrow> i < j"
  by (simp add: js_of_int_def)

lemma js_max_int [simp]: "js_max (js_of_int i) (js_of_int j) = js_of_int (max i j)"
  by (simp add: js_of_int_def max_def)

lemma js_min_int [simp]: "js_min (js_of_int i) (js_of_int j) = js_of_int (min i j)"
  by (simp add: js_of_int_def min_def)

text \<open>\<^verbatim>\<open>x ?? d\<close>, and the truthiness of an optional string.\<close>

definition coalesce :: "'a option \<Rightarrow> 'a \<Rightarrow> 'a" where
  "coalesce x d = (case x of None \<Rightarrow> d | Some v \<Rightarrow> v)"

lemma coalesce_simps [simp]:
  "coalesce None d = d" "coalesce (Some v) d = v"
  by (simp_all add: coalesce_def)

definition truthy :: "string option \<Rightarrow> bool" where
  "truthy s = (s \<noteq> None \<and> s \<noteq> Some [])"

lemma truthy_simps [simp]:
  "\<not> truthy None" "truthy (Some s) \<longleftrightarrow> s \<noteq> []"
  by (simp_all add: truthy_def)

section \<open>Maps in insertion order\<close>

text \<open>\<^verbatim>\<open>{ ...a, ...b }\<close> on objects with string keys.\<close>

definition obj_spread :: "('k, 'v) jsmap \<Rightarrow> ('k, 'v) jsmap \<Rightarrow> ('k, 'v) jsmap" where
  "obj_spread a b = fold (\<lambda>(k, v). AList.update k v) b a"

lemma map_of_obj_spread [simp]:
  "map_of (obj_spread a b) = map_of a ++ map_of (rev b)"
  unfolding obj_spread_def
proof (induction b arbitrary: a)
  case (Cons p b)
  then show ?case
    by (cases p) (simp add: AList.update_conv' map_add_def fun_eq_iff split: option.splits)
qed simp

lemma obj_spread_Nil [simp]: "obj_spread a [] = a"
  by (simp add: obj_spread_def)

lemma distinct_obj_spread [simp]:
  "distinct (map fst a) \<Longrightarrow> distinct (map fst (obj_spread a b))"
  unfolding obj_spread_def
  by (induction b arbitrary: a) (auto intro: distinct_update)

text \<open>The values of a map, in iteration order, and how one write changes them.\<close>

definition vals :: "('k, 'v) jsmap \<Rightarrow> 'v list" where
  "vals m = map snd m"

definition keys :: "('k, 'v) jsmap \<Rightarrow> 'k list" where
  "keys m = map fst m"

lemma vals_simps [simp]: "vals [] = []" "vals ((k, v) # m) = v # vals m"
  by (simp_all add: vals_def)

lemma keys_simps [simp]: "keys [] = []" "keys ((k, v) # m) = k # keys m"
  by (simp_all add: keys_def)

lemma map_of_update [simp]: "map_of (AList.update k v m) = (map_of m)(k \<mapsto> v)"
  by (simp add: AList.update_conv')

lemma map_of_delete [simp]: "map_of (AList.delete k m) = (map_of m)(k := None)"
  by (simp add: AList.delete_conv')

lemma distinct_keys_update [simp]:
  "distinct (keys m) \<Longrightarrow> distinct (keys (AList.update k v m))"
  by (simp add: keys_def distinct_update)

lemma distinct_keys_delete [simp]:
  "distinct (keys m) \<Longrightarrow> distinct (keys (AList.delete k m))"
  by (simp add: keys_def distinct_delete)

lemma set_keys_update [simp]: "set (keys (AList.update k v m)) = insert k (set (keys m))"
  by (simp add: keys_def dom_update)

lemma set_keys_delete [simp]: "set (keys (AList.delete k m)) = set (keys m) - {k}"
  by (auto simp: keys_def AList.delete_eq image_iff)

lemma map_of_None_iff_keys: "map_of m k = None \<longleftrightarrow> k \<notin> set (keys m)"
  by (simp add: keys_def map_of_eq_None_iff)

lemma set_vals_eq:
  "distinct (keys m) \<Longrightarrow> set (vals m) = {v. \<exists>k. map_of m k = Some v}"
  by (auto simp: vals_def keys_def intro: map_of_is_SomeI dest: map_of_SomeD simp: image_iff) force

lemma in_vals_lookup:
  assumes "distinct (keys m)"
  shows "v \<in> set (vals m) \<longleftrightarrow> (\<exists>k. map_of m k = Some v)"
  by (simp add: set_vals_eq [OF assms])

text \<open>Setting a present key replaces its value in place; a new key goes to the end.\<close>

lemma update_present:
  "k \<in> set (keys m) \<Longrightarrow> keys (AList.update k v m) = keys m"
  by (induction m) (auto simp: keys_def)

lemma update_absent:
  "k \<notin> set (keys m) \<Longrightarrow> AList.update k v m = m @ [(k, v)]"
  by (induction m) (auto simp: keys_def)

section \<open>Strings\<close>

definition char_le :: "char \<Rightarrow> char \<Rightarrow> bool" where
  "char_le a b = ((of_char a :: nat) \<le> of_char b)"

definition is_lower :: "char \<Rightarrow> bool" where
  "is_lower c = (char_le (CHR ''a'') c \<and> char_le c (CHR ''z''))"

definition is_upper :: "char \<Rightarrow> bool" where
  "is_upper c = (char_le (CHR ''A'') c \<and> char_le c (CHR ''Z''))"

definition is_digit :: "char \<Rightarrow> bool" where
  "is_digit c = (char_le (CHR ''0'') c \<and> char_le c (CHR ''9''))"

text \<open>\<^verbatim>\<open>toLowerCase\<close> and \<^verbatim>\<open>toUpperCase\<close> on the ASCII letters.\<close>

definition to_lower :: "string \<Rightarrow> string" where
  "to_lower s = map (\<lambda>c. if is_upper c then char_of ((of_char c :: nat) + 32) else c) s"

definition to_upper :: "string \<Rightarrow> string" where
  "to_upper s = map (\<lambda>c. if is_lower c then char_of ((of_char c :: nat) - 32) else c) s"

text \<open>\<^verbatim>\<open>s.includes(p)\<close>.\<close>

fun str_includes :: "string \<Rightarrow> string \<Rightarrow> bool" where
  "str_includes [] p = (p = [])"
| "str_includes (c # s) p = (prefix p (c # s) \<or> str_includes s p)"

lemma str_includes_iff: "str_includes s p \<longleftrightarrow> sublist p s"
  by (induction s) (auto simp: sublist_Cons_right)

text \<open>\<^verbatim>\<open>s.indexOf(p)\<close>, with \<^verbatim>\<open>None\<close> for -1.\<close>

fun index_of :: "string \<Rightarrow> string \<Rightarrow> nat option" where
  "index_of [] p = (if p = [] then Some 0 else None)"
| "index_of (c # s) p = (if prefix p (c # s) then Some 0 else map_option Suc (index_of s p))"

lemma index_of_None_iff: "index_of s p = None \<longleftrightarrow> \<not> str_includes s p"
  by (induction s) auto

lemma index_of_Some:
  "index_of s p = Some i \<Longrightarrow> prefix p (drop i s) \<and> (\<forall>k<i. \<not> prefix p (drop k s)) \<and> i \<le> length s"
proof (induction s arbitrary: i)
  case (Cons c s)
  show ?case
  proof (cases "prefix p (c # s)")
    case False
    with Cons.prems obtain j where j: "index_of s p = Some j" "i = Suc j" by auto
    have "\<not> prefix p (drop k (c # s))" if "k < i" for k
      using Cons.IH [OF j(1)] False that j(2) by (cases k) auto
    then show ?thesis using Cons.IH [OF j(1)] j(2) by auto
  qed (use Cons.prems in auto)
qed (auto split: if_splits)

lemma index_of_unique:
  assumes "prefix p (drop i s)" "i \<le> length s" "\<forall>k<i. \<not> prefix p (drop k s)"
  shows "index_of s p = Some i"
  using assms
proof (induction s arbitrary: i)
  case (Cons c s)
  show ?case
  proof (cases i)
    case (Suc j)
    have "\<not> prefix p (c # s)" using Cons.prems(3) Suc by (metis drop0 zero_less_Suc)
    moreover have "index_of s p = Some j"
    proof (rule Cons.IH)
      show "\<forall>k<j. \<not> prefix p (drop k s)" using Cons.prems(3) Suc by fastforce
    qed (use Cons.prems Suc in auto)
    ultimately show ?thesis using Suc by simp
  qed (use Cons.prems in auto)
qed simp

text \<open>\<^verbatim>\<open>String(n)\<close> of a natural number.\<close>

definition digit_char :: "nat \<Rightarrow> char" where
  "digit_char d = char_of (48 + d)"

lemma of_digit: "d < 10 \<Longrightarrow> (of_char (digit_char d) :: nat) = 48 + d"
  by (simp add: digit_char_def)
lemma digit_char_inj: "a < 10 \<Longrightarrow> b < 10 \<Longrightarrow> digit_char a = digit_char b \<longleftrightarrow> a = b"
  by (metis of_digit add_left_cancel)
fun dec :: "nat \<Rightarrow> string" where
  "dec n = (if n < 10 then [digit_char n] else dec (n div 10) @ [digit_char (n mod 10)])"
declare dec.simps [simp del]
lemma dec_nonempty [simp]: "dec n \<noteq> []"
  by (subst dec.simps) simp
lemma Nil_neq_dec [simp]: "[] \<noteq> dec n"
  using dec_nonempty [of n] by metis

lemma dec_inject [simp]: "dec m = dec n \<longleftrightarrow> m = n"
proof
  show "dec m = dec n \<Longrightarrow> m = n"
  proof (induction m arbitrary: n rule: dec.induct)
    case (1 m)
    consider "m < 10" "n < 10" | "m < 10" "\<not> n < 10" | "\<not> m < 10" "n < 10"
      | "\<not> m < 10" "\<not> n < 10" by blast
    then show ?case
    proof cases
      case 4
      from 1(2) 4 have "dec (m div 10) @ [digit_char (m mod 10)] = dec (n div 10) @ [digit_char (n mod 10)]"
        by (simp add: dec.simps [of m] dec.simps [of n])
      with 1(1) 4 have "m div 10 = n div 10" "m mod 10 = n mod 10"
        by (simp_all add: digit_char_inj)
      then show ?thesis by (metis div_mult_mod_eq)
    qed (use 1(2) in \<open>simp_all add: dec.simps [of m] dec.simps [of n] digit_char_inj\<close>)
  qed
qed simp
lemma dec_digits: "c \<in> set (dec n) \<Longrightarrow> 48 \<le> (of_char c :: nat) \<and> (of_char c :: nat) \<le> 57"
proof (induction n rule: dec.induct)
  case (1 n)
  have "n mod 10 < 10" by simp
  with 1 show ?case by (subst (asm) (2) dec.simps) (auto simp: of_digit split: if_splits)
qed

section \<open>Pages of a list\<close>

lemma concat_pages:
  "concat (map (\<lambda>k. take n (drop (k * n) xs)) [0..<m]) = take (m * n) xs"
proof (induction m)
  case (Suc m)
  have "take (m * n) xs @ take n (drop (m * n) xs) = take (m * n + n) xs"
    by (simp add: take_add)
  with Suc show ?case by (simp add: add.commute)
qed simp

end
