(* ===== verification/Asset_Model.thy ===== *)
theory Asset_Model
  imports OVC_Prelude
begin

text \<open>
  The asset data model and its pure transition functions
  (\<^verbatim>\<open>src/src/data/asset-repo.ts\<close>, \<^verbatim>\<open>src/src/types/drm.ts\<close>): the lifecycle and
  review state machines, the storage-tier axis with its in-flight restores, the
  append-only status history and provenance logs, the delete lock, the metadata
  merge and the version chain. Every function that throws in the source returns
  a sum with an \<^verbatim>\<open>asset_error\<close> on the left.
\<close>

section \<open>Lifecycle and review state machines\<close>

datatype asset_status = Uploading | Processing | Ready | Failed | Archived

instantiation asset_status :: enum
begin
definition "enum_asset_status = [Uploading, Processing, Ready, Failed, Archived]"
definition "enum_all_asset_status P = list_all P [Uploading, Processing, Ready, Failed, Archived]"
definition "enum_ex_asset_status P = list_ex P [Uploading, Processing, Ready, Failed, Archived]"
instance
proof
  show "(UNIV :: asset_status set) = set enum_class.enum"
    by (auto simp: enum_asset_status_def intro: asset_status.exhaust)
  show "distinct (enum_class.enum :: asset_status list)"
    by (simp add: enum_asset_status_def)
  show "enum_class.enum_all P = Ball UNIV P" for P :: "asset_status \<Rightarrow> bool"
    by (auto simp: enum_all_asset_status_def) (metis asset_status.exhaust)
  show "enum_class.enum_ex P = Bex UNIV P" for P :: "asset_status \<Rightarrow> bool"
    by (auto simp: enum_ex_asset_status_def) (metis asset_status.exhaust)
qed
end

fun asset_status_text :: "asset_status \<Rightarrow> string" where
  "asset_status_text Uploading = ''uploading''"
| "asset_status_text Processing = ''processing''"
| "asset_status_text Ready = ''ready''"
| "asset_status_text Failed = ''failed''"
| "asset_status_text Archived = ''archived''"

fun ALLOWED_TRANSITIONS :: "asset_status \<Rightarrow> asset_status list" where
  "ALLOWED_TRANSITIONS Uploading = [Processing, Failed, Archived]"
| "ALLOWED_TRANSITIONS Processing = [Ready, Failed, Archived]"
| "ALLOWED_TRANSITIONS Ready = [Processing, Archived]"
| "ALLOWED_TRANSITIONS Failed = [Uploading, Processing, Archived]"
| "ALLOWED_TRANSITIONS Archived = []"

definition isValidTransition :: "asset_status \<Rightarrow> asset_status \<Rightarrow> bool" where
  "isValidTransition src dst = (src = dst \<or> dst \<in> set (ALLOWED_TRANSITIONS src))"

datatype review_state = Draft | InReview | Approved | Rejected

fun ALLOWED_REVIEW_TRANSITIONS :: "review_state \<Rightarrow> review_state list" where
  "ALLOWED_REVIEW_TRANSITIONS Draft = [InReview]"
| "ALLOWED_REVIEW_TRANSITIONS InReview = [Approved, Rejected]"
| "ALLOWED_REVIEW_TRANSITIONS Approved = [InReview]"
| "ALLOWED_REVIEW_TRANSITIONS Rejected = [InReview]"

definition isValidReviewTransition :: "review_state \<Rightarrow> review_state \<Rightarrow> bool" where
  "isValidReviewTransition src dst =
     (src = dst \<or> dst \<in> set (ALLOWED_REVIEW_TRANSITIONS src))"

definition allowedReviewTransitions :: "review_state option \<Rightarrow> review_state list" where
  "allowedReviewTransitions src = ALLOWED_REVIEW_TRANSITIONS (coalesce src Draft)"

text \<open>
  Both machines are tables of moves with an idempotent stay. What follows from
  that shape alone is proved once, and both tables (and the job table of
  \<^verbatim>\<open>job-repo.ts\<close>) are interpretations.
\<close>

locale lifecycle_table =
  fixes moves :: "'s \<Rightarrow> 's list" and valid :: "'s \<Rightarrow> 's \<Rightarrow> bool"
  assumes valid_iff: "valid a b \<longleftrightarrow> a = b \<or> b \<in> set (moves a)"
begin

inductive run :: "'s \<Rightarrow> 's list \<Rightarrow> 's \<Rightarrow> bool" where
  stop: "run a [] a"
| move: "valid a b \<Longrightarrow> run b ts c \<Longrightarrow> run a (b # ts) c"

lemma valid_refl: "valid a a"
  by (simp add: valid_iff)

lemma terminal_run: "run a ts c \<Longrightarrow> moves a = [] \<Longrightarrow> c = a \<and> set ts \<subseteq> {a}"
proof (induction rule: run.induct)
  case (move a b ts c)
  then show ?case by (auto simp: valid_iff)
qed simp

lemma closed_run:
  assumes closed: "\<And>x y. P x \<Longrightarrow> y \<in> set (moves x) \<Longrightarrow> P y"
  shows "run a ts c \<Longrightarrow> P a \<Longrightarrow> P c \<and> (\<forall>t\<in>set ts. P t)"
proof (induction rule: run.induct)
  case (move a b ts c)
  have "P b" using move.hyps(1) move.prems closed [of a b] by (auto simp: valid_iff)
  with move.IH show ?case by simp
qed simp

end

interpretation asset_life: lifecycle_table ALLOWED_TRANSITIONS isValidTransition
  by unfold_locales (simp add: isValidTransition_def)

interpretation review_life: lifecycle_table ALLOWED_REVIEW_TRANSITIONS isValidReviewTransition
  by unfold_locales (simp add: isValidReviewTransition_def)

record status_transition =
  st_at :: string
  st_from :: "asset_status option"
  st_to :: asset_status
  st_reason :: "string option"

section \<open>Storage tier\<close>

datatype storage_tier = Hot | Archive

datatype byte_class = Source | Renditions | Packaged | Subtitles | Thumbnails

record rehydrate_state =
  rh_byteClass :: byte_class
  rh_startedAt :: string

datatype rehydrate_phase = Begin | Complete

record storage_tiering =
  tiers :: "(byte_class, storage_tier) jsmap"
  rehydrating :: "rehydrate_state list"

definition defaultStorageTiering :: storage_tiering where
  "defaultStorageTiering = \<lparr> tiers = [(Source, Hot), (Renditions, Hot), (Packaged, Hot),
     (Subtitles, Hot), (Thumbnails, Hot)], rehydrating = [] \<rparr>"

definition applyStorageTier ::
  "storage_tiering option \<Rightarrow> (byte_class, storage_tier) jsmap \<Rightarrow> storage_tiering" where
  "applyStorageTier existing overrides =
     (let base = coalesce existing defaultStorageTiering
      in \<lparr> tiers = obj_spread (tiers base) overrides, rehydrating = rehydrating base \<rparr>)"

definition beginRehydrate ::
  "storage_tiering option \<Rightarrow> byte_class \<Rightarrow> string \<Rightarrow> storage_tiering" where
  "beginRehydrate existing byteClass startedAt =
     (let base = coalesce existing defaultStorageTiering;
          already = list_ex (\<lambda>r. rh_byteClass r = byteClass) (rehydrating base)
      in \<lparr> tiers = tiers base,
           rehydrating = (if already then rehydrating base
             else rehydrating base @ [\<lparr> rh_byteClass = byteClass, rh_startedAt = startedAt \<rparr>]) \<rparr>)"

definition completeRehydrate :: "storage_tiering option \<Rightarrow> byte_class \<Rightarrow> storage_tiering" where
  "completeRehydrate existing byteClass =
     (let base = coalesce existing defaultStorageTiering
      in \<lparr> tiers = obj_spread (tiers base) [(byteClass, Hot)],
           rehydrating = filter (\<lambda>r. rh_byteClass r \<noteq> byteClass) (rehydrating base) \<rparr>)"

section \<open>The asset\<close>

datatype provenance_actor = User | System | Ai

record provenance_entry =
  pv_at :: string
  pv_by :: provenance_actor
  pv_op :: string
  pv_detail :: "string option"

record external_identifier =
  xi_namespace :: string
  xi_id :: string

datatype source_method = Upload | UrlPull | WatchFolder

fun source_method_text :: "source_method \<Rightarrow> string" where
  "source_method_text Upload = ''upload''"
| "source_method_text UrlPull = ''url-pull''"
| "source_method_text WatchFolder = ''watch-folder''"

record audio_track =
  at_index :: jsnum
  at_codec :: string
  at_channels :: jsnum
  at_sampleRateHz :: jsnum

record video_track =
  vt_index :: "jsnum option"
  vt_codec :: string
  vt_width :: jsnum
  vt_height :: jsnum
  vt_bitrateBps :: "jsnum option"
  vt_frameRate :: "jsnum option"

record technical_metadata =
  tm_codec :: string
  tm_width :: jsnum
  tm_height :: jsnum
  tm_durationSeconds :: jsnum
  tm_bitrateBps :: jsnum
  tm_containerFormat :: string
  tm_audioTracks :: "audio_track list"
  tm_extractedAt :: string
  tm_frameRate :: "jsnum option"
  tm_startTimecode :: "string option"

record scene_boundary =
  sb_startSeconds :: "jsnum option"
  sb_endSeconds :: "jsnum option"
  sb_keyframeSeconds :: "jsnum option"

record scene_metadata =
  sm_boundaries :: "scene_boundary list"
  sm_sceneCount :: jsnum
  sm_detectedAt :: string

record manifest_urls =
  mu_hls :: "string option"
  mu_dash :: "string option"

record packaged_output =
  po_bucket :: "string option"
  po_prefix :: "string option"
  po_masterHlsKey :: "string option"
  po_masterDashKey :: "string option"

datatype drm_status = DrmPending | DrmProtected | DrmFailed | DrmUnsupported
datatype protection_scheme = Cenc | Cbcs
datatype track_type_group = AUDIO | SD | HD | UHD1
datatype drm_error_code = DrmUnsupportedCode | KeyProviderUnreachable | KeyProviderRejected
  | KeyProviderInvalidResponse | DrmNotConfigured | PackagingFailed

record asset_drm =
  drm_status :: drm_status
  drm_providerId :: string
  drm_scheme :: protection_scheme
  drm_systems :: "string list"
  drm_keyIds :: "(track_type_group \<times> string) list"
  drm_licenceUrls :: "(string, string) jsmap option"
  drm_certificateUrl :: "string option"
  drm_requestedAt :: string
  drm_protectedAt :: "string option"
  drm_error :: "string option"
  drm_errorCode :: "drm_error_code option"
  drm_packageJobId :: "string option"

datatype thumbnail_variant = Small | Medium

record thumbnail_size =
  ts_fullObjectKey :: string
  ts_variant :: thumbnail_variant
  ts_width :: jsnum
  ts_objectKey :: string

record rendition =
  rn_id :: string
  rn_label :: string
  rn_width :: jsnum
  rn_height :: jsnum
  rn_objectKey :: string
  rn_codec :: "string option"
  rn_bitrateBps :: "jsnum option"

record asset_audio_track =
  aat_id :: string
  aat_language :: string
  aat_codec :: "string option"
  aat_channels :: "jsnum option"
  aat_label :: "string option"
  aat_default :: "bool option"

datatype subtitle_format = Vtt | Srt | Ttml

record subtitle_track =
  sub_id :: string
  sub_language :: string
  sub_format :: subtitle_format
  sub_objectKey :: "string option"
  sub_label :: "string option"
  sub_default :: "bool option"

record delete_lock =
  dl_locked :: bool
  dl_reason :: "string option"
  dl_lockedAt :: string
  dl_lockedBy :: "string option"

record asset =
  a_id :: string
  a_name :: string
  a_slug :: "string option"
  a_description :: "string option"
  a_status :: asset_status
  a_reviewState :: "review_state option"
  a_deleteLock :: "delete_lock option"
  a_storageTiering :: "storage_tiering option"
  a_parentId :: "string option"
  a_versionOfAssetId :: "string option"
  a_versionGroupId :: "string option"
  a_objectKey :: "string option"
  a_sourceSizeBytes :: "jsnum option"
  a_statusHistory :: "status_transition list"
  a_technicalMetadata :: "technical_metadata nullable option"
  a_technicalMetadataError :: "string option"
  a_videoTracks :: "video_track list option"
  a_manifestUrls :: "manifest_urls option"
  a_packagingError :: "string option"
  a_packagedOutput :: "packaged_output option"
  a_packagedOutputStale :: "bool option"
  a_drm :: "asset_drm option"
  a_preservedDrm :: "asset_drm option"
  a_renditions :: "rendition list option"
  a_thumbnails :: "string list option"
  a_thumbnailSizes :: "thumbnail_size list option"
  a_metadata :: "(string, json) jsmap option"
  a_tags :: "string list option"
  a_audioTracks :: "asset_audio_track list option"
  a_subtitleTracks :: "subtitle_track list option"
  a_subtitlesError :: "string option"
  a_sceneMetadata :: "scene_metadata nullable option"
  a_sceneDetectionError :: "string option"
  a_sourceMethod :: "source_method option"
  a_originUri :: "string option"
  a_provenance :: "provenance_entry list option"
  a_externalIdentifiers :: "external_identifier list option"
  a_collections :: "string list option"
  a_tamsFlowIds :: "string list option"
  a_tamsTimerange :: "string option"
  a_stackName :: "string option"
  a_createdAt :: string
  a_updatedAt :: string

record create_asset_input =
  ci_name :: string
  ci_slug :: "string option"
  ci_description :: "string option"
  ci_parentId :: "string option"
  ci_versionOfAssetId :: "string option"
  ci_versionGroupId :: "string option"
  ci_objectKey :: "string option"
  ci_metadata :: "(string, json) jsmap option"
  ci_tags :: "string list option"
  ci_sourceMethod :: "source_method option"
  ci_originUri :: "string option"
  ci_stackName :: "string option"

record update_asset_input =
  u_name :: "string option"
  u_description :: "string option"
  u_objectKey :: "string option"
  u_sourceSizeBytes :: "jsnum option"
  u_status :: "asset_status option"
  u_statusReason :: "string option"
  u_versionGroupId :: "string option"
  u_technicalMetadata :: "technical_metadata nullable option"
  u_technicalMetadataError :: "string option"
  u_manifestUrls :: "manifest_urls option"
  u_packagingError :: "string option"
  u_packagedOutput :: "packaged_output option"
  u_packagedOutputStale :: "bool option"
  u_renditions :: "rendition list option"
  u_thumbnails :: "string list option"
  u_thumbnailSizes :: "thumbnail_size list option"
  u_metadata :: "(string, json) jsmap option"
  u_replaceMetadata :: "bool option"
  u_tags :: "string list option"
  u_audioTracks :: "asset_audio_track list option"
  u_subtitleTracks :: "subtitle_track list option"
  u_subtitlesError :: "string nullable option"
  u_sceneMetadata :: "scene_metadata nullable option"
  u_sceneDetectionError :: "string option"
  u_drm :: "asset_drm option"

datatype asset_error =
    InvalidStateTransition asset_status asset_status
  | InvalidReviewTransition review_state review_state
  | ParentNotFound string
  | ExternalIdConflict string string string

section \<open>Packaged output\<close>

text \<open>The id a packaging job runs under, and where its output goes (\<^verbatim>\<open>src/src/pipeline/packaging.ts\<close>).\<close>

definition packagingId :: "string \<Rightarrow> string" where "packagingId assetId = assetId"
definition outputPrefix :: "string \<Rightarrow> string" where "outputPrefix assetId = ''packaged/'' @ assetId"

end
