(* ===== verification/Asset_Apply.thy ===== *)
theory Asset_Apply
  imports Asset_Model
begin

text \<open>
  The pure functions both asset repositories share (\<^verbatim>\<open>asset-repo.ts\<close>: restore,
  status, review, metadata, delete lock, provenance, version linkage, current
  version, tags), and the field rules of \<^verbatim>\<open>update()\<close> in the order the code
  applies them. \<^verbatim>\<open>lifecycle\<close> is the abstract specification of a status history:
  what the audit trail of an asset may look like.
\<close>

section \<open>Status history\<close>

definition initialHistory :: "string \<Rightarrow> status_transition list" where
  "initialHistory now =
     [\<lparr> st_at = now, st_from = None, st_to = Uploading, st_reason = None \<rparr>]"

definition initialProvenance :: "string \<Rightarrow> source_method \<Rightarrow> provenance_entry list" where
  "initialProvenance now method =
     [\<lparr> pv_at = now, pv_by = User, pv_op = ''create'',
        pv_detail = Some (''source='' @ source_method_text method) \<rparr>]"

definition applyStatus ::
  "asset_status \<Rightarrow> asset_status \<Rightarrow> status_transition list \<Rightarrow> string \<Rightarrow> string option
   \<Rightarrow> asset_error + (asset_status \<times> status_transition list)" where
  "applyStatus current next history now reason =
     (if \<not> isValidTransition current next then Inl (InvalidStateTransition current next)
      else if current = next then Inr (current, history)
      else Inr (next, history @ [\<lparr> st_at = now, st_from = Some current, st_to = next,
             st_reason = (if truthy reason then reason else None) \<rparr>]))"

text \<open>The loop from the last entry to the first.\<close>

fun restore_scan :: "status_transition list \<Rightarrow> asset_status" where
  "restore_scan [] = Failed"
| "restore_scan (e # es) =
     (if st_to e = Archived then (if st_from e = Some Ready then Ready else Failed)
      else restore_scan es)"

definition restoreTargetStatus :: "status_transition list \<Rightarrow> asset_status" where
  "restoreTargetStatus history = restore_scan (rev history)"

definition applyRestore ::
  "status_transition list \<Rightarrow> string \<Rightarrow> asset_status \<times> status_transition list" where
  "applyRestore history now =
     (let target = restoreTargetStatus history
      in (target, history @ [\<lparr> st_at = now, st_from = Some Archived, st_to = target,
            st_reason = None \<rparr>]))"

definition applyReviewState ::
  "review_state option \<Rightarrow> review_state \<Rightarrow> asset_error + review_state" where
  "applyReviewState current next =
     (let src = coalesce current Draft
      in if \<not> isValidReviewTransition src next then Inl (InvalidReviewTransition src next)
         else Inr next)"

text \<open>
  The specification of the trail: it starts with the creation entry, every
  later entry leaves the status the previous one reached, by a move of the
  machine, or is the one sanctioned way out of \<^verbatim>\<open>archived\<close>.
\<close>

inductive lifecycle :: "status_transition list \<Rightarrow> asset_status \<Rightarrow> bool" where
  created: "lifecycle (initialHistory now) Uploading"
| moved: "lifecycle h s \<Longrightarrow> t \<in> set (ALLOWED_TRANSITIONS s) \<Longrightarrow>
    st_from e = Some s \<Longrightarrow> st_to e = t \<Longrightarrow> lifecycle (h @ [e]) t"
| restored: "lifecycle h Archived \<Longrightarrow> st_from e = Some Archived \<Longrightarrow>
    st_to e = restoreTargetStatus h \<Longrightarrow> t = st_to e \<Longrightarrow> lifecycle (h @ [e]) t"

inductive_cases lifecycle_snocE: "lifecycle (h @ [e]) s"

lemma restoreTargetStatus_range: "restoreTargetStatus h \<in> {Ready, Failed}"
proof -
  have "restore_scan es \<in> {Ready, Failed}" for es
    by (induction es) auto
  then show ?thesis by (simp add: restoreTargetStatus_def)
qed

lemma restoreTargetStatus_snoc [simp]:
  "restoreTargetStatus (h @ [e]) =
     (if st_to e = Archived then (if st_from e = Some Ready then Ready else Failed)
      else restoreTargetStatus h)"
  by (simp add: restoreTargetStatus_def)

lemma lifecycle_nonempty: "lifecycle h s \<Longrightarrow> h \<noteq> []"
  by (induction rule: lifecycle.induct) (auto simp: initialHistory_def)

lemma lifecycle_last: "lifecycle h s \<Longrightarrow> st_to (last h) = s"
  by (induction rule: lifecycle.induct) (auto simp: initialHistory_def)

lemma lifecycle_hd: "lifecycle h s \<Longrightarrow> st_from (hd h) = None \<and> st_to (hd h) = Uploading"
proof (induction rule: lifecycle.induct)
  case (moved h s t e)
  with lifecycle_nonempty [OF this(1)] show ?case by (simp add: hd_append2)
next
  case (restored h e t)
  with lifecycle_nonempty [OF this(1)] show ?case by (simp add: hd_append2)
qed (simp add: initialHistory_def)

lemma last_at: "Suc i = length xs \<Longrightarrow> last xs = xs ! i"
  by (cases xs rule: rev_cases) (auto simp: nth_append)

lemma lifecycle_linked:
  "lifecycle h s \<Longrightarrow> Suc i < length h \<Longrightarrow> st_from (h ! Suc i) = Some (st_to (h ! i))"
proof (induction rule: lifecycle.induct)
  case (moved h s t e)
  then show ?case
    using lifecycle_last [OF moved.hyps(1)] last_at [of i h]
    by (cases "Suc i = length h") (auto simp: nth_append)
next
  case (restored h e t)
  then show ?case
    using lifecycle_last [OF restored.hyps(1)] last_at [of i h]
    by (cases "Suc i = length h") (auto simp: nth_append)
qed (simp add: initialHistory_def)

lemma lifecycle_archived_exit:
  "lifecycle h s \<Longrightarrow> i < length h \<Longrightarrow> st_from (h ! i) = Some Archived \<Longrightarrow>
   st_to (h ! i) \<in> {Ready, Failed} \<and> restoreTargetStatus (take i h) = st_to (h ! i)"
proof (induction rule: lifecycle.induct)
  case (moved h s t e)
  then show ?case by (cases "i = length h") (auto simp: nth_append)
next
  case (restored h e t)
  then show ?case using restoreTargetStatus_range [of h]
    by (cases "i = length h") (auto simp: nth_append)
qed (simp add: initialHistory_def)

lemma lifecycle_applyStatus:
  assumes "lifecycle h s" "applyStatus s t h now reason = Inr (s', h')"
  shows "lifecycle h' s'"
  using assms by (auto simp: applyStatus_def isValidTransition_def split: if_splits
      intro: lifecycle.moved)

lemma lifecycle_applyRestore:
  assumes "lifecycle h Archived"
  shows "lifecycle (snd (applyRestore h now)) (fst (applyRestore h now))"
  using assms by (auto simp: applyRestore_def Let_def intro: lifecycle.restored)

lemma applyStatus_target:
  "applyStatus s t h now r = Inr (s', h') \<Longrightarrow> s' = t \<and> prefix h h'"
  by (auto simp: applyStatus_def split: if_splits)

lemma applyStatus_Inl_iff:
  "(\<exists>e. applyStatus s t h now r = Inl e) \<longleftrightarrow> \<not> isValidTransition s t"
  by (auto simp: applyStatus_def)

text \<open>Archiving an asset and restoring it: ready comes back ready, the rest as failed.\<close>

lemma restore_after_archive:
  assumes "applyStatus s Archived h now r = Inr (Archived, h')" "s \<noteq> Archived"
  shows "fst (applyRestore h' now') = (if s = Ready then Ready else Failed)"
  using assms by (auto simp: applyStatus_def applyRestore_def Let_def split: if_splits)

section \<open>Metadata, tags, locks and provenance\<close>

definition applyMetadata ::
  "(string, json) jsmap option \<Rightarrow> (string, json) jsmap \<Rightarrow> bool \<Rightarrow> (string, json) jsmap" where
  "applyMetadata existing patch replace =
     (if replace then obj_spread [] patch else obj_spread (coalesce existing []) patch)"

fun normalize_loop :: "string list \<Rightarrow> string list \<Rightarrow> string list" where
  "normalize_loop out [] = out"
| "normalize_loop out (t # ts) =
     (if t \<in> set out then normalize_loop out ts else normalize_loop (out @ [t]) ts)"

definition normalizeTags :: "string list \<Rightarrow> string list" where
  "normalizeTags tags = normalize_loop [] tags"

record set_delete_lock_input =
  li_locked :: bool
  li_reason :: "string option"
  li_lockedBy :: "string option"

definition applyDeleteLock ::
  "asset \<Rightarrow> set_delete_lock_input \<Rightarrow> string \<Rightarrow> delete_lock option \<times> provenance_entry list" where
  "applyDeleteLock existing input now =
     (let provenance = coalesce (a_provenance existing) []
      in if li_locked input then
           (Some \<lparr> dl_locked = True, dl_reason = li_reason input, dl_lockedAt = now,
              dl_lockedBy = li_lockedBy input \<rparr>,
            provenance @ [\<lparr> pv_at = now, pv_by = User, pv_op = ''lock'',
              pv_detail = li_reason input \<rparr>])
         else (None,
            provenance @ [\<lparr> pv_at = now, pv_by = User, pv_op = ''unlock'',
              pv_detail = None \<rparr>]))"

definition pv_entry ::
  "bool \<Rightarrow> string \<Rightarrow> provenance_actor \<Rightarrow> string \<Rightarrow> string option \<Rightarrow> provenance_entry list" where
  "pv_entry c now actor op detail =
     (if c then [\<lparr> pv_at = now, pv_by = actor, pv_op = op, pv_detail = detail \<rparr>] else [])"

definition provenanceForPatch :: "update_asset_input \<Rightarrow> string \<Rightarrow> provenance_entry list" where
  "provenanceForPatch patch now =
     pv_entry (u_status patch \<noteq> None) now System ''state''
       (map_option asset_status_text (u_status patch))
     @ pv_entry (u_technicalMetadata patch \<noteq> None \<or> u_technicalMetadataError patch \<noteq> None)
         now System ''technical'' None
     @ pv_entry (u_sceneMetadata patch \<noteq> None \<or> u_sceneDetectionError patch \<noteq> None)
         now System ''scenes'' None
     @ pv_entry (u_renditions patch \<noteq> None) now System ''rendition'' None
     @ pv_entry (u_manifestUrls patch \<noteq> None \<or> u_packagingError patch \<noteq> None)
         now System ''manifest'' None
     @ pv_entry (u_thumbnails patch \<noteq> None) now System ''thumbnail'' None
     @ pv_entry (u_name patch \<noteq> None \<or> u_description patch \<noteq> None \<or> u_metadata patch \<noteq> None
         \<or> u_tags patch \<noteq> None \<or> u_audioTracks patch \<noteq> None \<or> u_subtitleTracks patch \<noteq> None)
         now User ''descriptive'' None"

lemma normalize_loop_spec:
  "distinct out \<Longrightarrow> distinct (normalize_loop out ts)
     \<and> set (normalize_loop out ts) = set out \<union> set ts \<and> prefix out (normalize_loop out ts)"
proof (induction ts arbitrary: out)
  case (Cons t ts)
  show ?case
  proof (cases "t \<in> set out")
    case False
    then have "distinct (out @ [t])" using Cons.prems by simp
    from Cons.IH [OF this] False show ?thesis by (auto simp: prefix_def)
  qed (use Cons in auto)
qed simp

lemma normalize_loop_fixed:
  "distinct (out @ ts) \<Longrightarrow> normalize_loop out ts = out @ ts"
  by (induction ts arbitrary: out) auto

lemma normalizeTags_distinct [simp]: "distinct (normalizeTags ts)"
  using normalize_loop_spec [of "[]" ts] by (simp add: normalizeTags_def)

lemma normalizeTags_set [simp]: "set (normalizeTags ts) = set ts"
  using normalize_loop_spec [of "[]" ts] by (simp add: normalizeTags_def)

lemma normalizeTags_idem: "normalizeTags (normalizeTags ts) = normalizeTags ts"
  using normalize_loop_fixed [of "[]" "normalizeTags ts"]
  by (simp add: normalizeTags_def [of "normalizeTags ts"])

section \<open>Version chain\<close>

definition resolveVersionLinkage :: "asset \<Rightarrow> string \<times> string \<times> bool" where
  "resolveVersionLinkage source =
     (a_id source, coalesce (a_versionGroupId source) (a_id source),
      a_versionGroupId source = None)"

definition version_key :: "asset \<Rightarrow> string \<times> string" where
  "version_key a = (a_createdAt a, a_id a)"

definition version_sort :: "asset list \<Rightarrow> asset list" where
  "version_sort = sort_key version_key"

fun first_tier :: "(asset \<Rightarrow> bool) list \<Rightarrow> asset list \<Rightarrow> string option" where
  "first_tier [] ordered = None"
| "first_tier (inTier # rest) ordered =
     (let members = filter inTier ordered
      in if members \<noteq> [] then Some (a_id (last members)) else first_tier rest ordered)"

definition currentVersionId :: "asset list \<Rightarrow> string option" where
  "currentVersionId versions =
     (if versions = [] then None
      else let ordered = version_sort versions
        in case first_tier [\<lambda>a. a_status a = Ready,
                 \<lambda>a. a_status a = Uploading \<or> a_status a = Processing,
                 \<lambda>a. a_status a = Failed] ordered of
             Some i \<Rightarrow> Some i
           | None \<Rightarrow> Some (a_id (last ordered)))"

lemma set_version_sort [simp]: "set (version_sort vs) = set vs"
  by (simp add: version_sort_def)

lemma last_filter_newest:
  assumes "filter P (version_sort vs) \<noteq> []"
  defines "m \<equiv> last (filter P (version_sort vs))"
  shows "m \<in> set vs \<and> P m \<and> (\<forall>a\<in>set vs. P a \<longrightarrow> version_key a \<le> version_key m)"
proof -
  let ?f = "filter P (version_sort vs)"
  have m: "m \<in> set ?f" unfolding m_def using assms(1) by (rule last_in_set)
  have sorted: "sorted (map version_key ?f)"
    by (simp add: version_sort_def sorted_filter)
  have "version_key a \<le> version_key m" if "a \<in> set ?f" for a
  proof -
    from that obtain i where i: "i < length ?f" "a = ?f ! i"
      unfolding in_set_conv_nth by blast
    have "map version_key ?f ! i \<le> map version_key ?f ! (length ?f - 1)"
      using i by (intro sorted_nth_mono [OF sorted]) auto
    then show ?thesis using i assms(1) by (simp add: m_def last_conv_nth)
  qed
  with m show ?thesis by auto
qed

text \<open>The tier of a status: the rank the selection prefers, lowest first.\<close>

fun version_rank :: "asset_status \<Rightarrow> nat" where
  "version_rank Ready = 0"
| "version_rank Uploading = 1"
| "version_rank Processing = 1"
| "version_rank Failed = 2"
| "version_rank Archived = 3"

lemma first_tier_hit:
  assumes "first_tier ts ordered = Some i"
  shows "\<exists>T\<in>set ts. filter T ordered \<noteq> [] \<and> i = a_id (last (filter T ordered))"
  using assms by (induction ts) (auto simp: Let_def split: if_splits)

lemma currentVersionId_best:
  assumes "versions \<noteq> []"
  shows "\<exists>m\<in>set versions. currentVersionId versions = Some (a_id m)
    \<and> (\<forall>a\<in>set versions. version_rank (a_status m) \<le> version_rank (a_status a)
        \<and> (version_rank (a_status a) = version_rank (a_status m)
             \<longrightarrow> version_key a \<le> version_key m))"
proof -
  define T where "T r = (\<lambda>a :: asset. version_rank (a_status a) = r)" for r :: nat
  have tiers: "(\<lambda>a. a_status a = Ready) = T 0"
    "(\<lambda>a. a_status a = Uploading \<or> a_status a = Processing) = T 1"
    "(\<lambda>a. a_status a = Failed) = T 2"
    by (auto simp: T_def fun_eq_iff elim: version_rank.elims)
  define R where "R = (LEAST r. filter (T r) (version_sort versions) \<noteq> [])"
  obtain a0 where a0: "a0 \<in> set versions" using assms by (cases versions) auto
  have ex: "filter (T (version_rank (a_status a0))) (version_sort versions) \<noteq> []"
    using a0 by (auto simp: filter_empty_conv T_def)
  have R: "filter (T R) (version_sort versions) \<noteq> []"
    unfolding R_def by (rule LeastI) (rule ex)
  have low: "filter (T r) (version_sort versions) = []" if "r < R" for r
    using not_less_Least [of r] that unfolding R_def by auto
  have rank3: "version_rank s \<le> 3" for s by (cases s) auto
  define m where "m = last (filter (T R) (version_sort versions))"
  have m: "m \<in> set versions" "T R m"
    "\<And>a. a \<in> set versions \<Longrightarrow> T R a \<Longrightarrow> version_key a \<le> version_key m"
    using last_filter_newest [OF R] by (auto simp: m_def)
  have "R \<le> 3" using m(2) rank3 [of "a_status m"] by (simp add: T_def)
  then consider "R = 0" | "R = 1" | "R = 2" | "R = 3" by linarith
  then have sel: "currentVersionId versions = Some (a_id m)"
  proof cases
    case 4
    have "filter (T 3) (version_sort versions) = version_sort versions"
    proof (rule filter_True, rule ballI)
      fix x assume x: "x \<in> set (version_sort versions)"
      have "\<not> T 0 x" "\<not> T 1 x" "\<not> T 2 x"
        using low [of 0] low [of 1] low [of 2] 4 x by (auto simp: filter_empty_conv)
      then show "T 3 x" using rank3 [of "a_status x"] by (auto simp: T_def)
    qed
    then show ?thesis using 4 low [of 0] low [of 1] low [of 2] assms
      by (simp add: currentVersionId_def tiers m_def Let_def)
  qed (use R low [of 0] low [of 1] assms in
      \<open>simp_all add: currentVersionId_def tiers m_def Let_def\<close>)
  have "version_rank (a_status m) \<le> version_rank (a_status a)" if "a \<in> set versions" for a
  proof (rule ccontr)
    assume "\<not> ?thesis"
    then have "filter (T (version_rank (a_status a))) (version_sort versions) = []"
      using m(2) by (intro low) (simp add: T_def)
    with that show False by (auto simp: filter_empty_conv T_def)
  qed
  with m sel show ?thesis by (auto simp: T_def)
qed

end
