(* ===== verification/Asset_Slug.thy ===== *)
theory Asset_Slug
  imports OVC_Prelude
begin

text \<open>
  Public slugs (\<^verbatim>\<open>asset-repo.ts\<close>: \<^verbatim>\<open>slugify\<close>, \<^verbatim>\<open>randomSlug\<close>, \<^verbatim>\<open>generateUniqueSlug\<close>,
  \<^verbatim>\<open>isUlid\<close>). \<^verbatim>\<open>Math.random()\<close> is a stream \<^verbatim>\<open>rnd\<close> of numbers, read in the order
  the code calls it; \<^verbatim>\<open>nfkd\<close> stands for the Unicode step
  \<^verbatim>\<open>normalize('NFKD')\<close> with the combining marks removed, which is the identity on
  ASCII text, and \<^verbatim>\<open>base36\<close> for \<^verbatim>\<open>toString(36)\<close> of a fraction.
\<close>

section \<open>slugify\<close>

definition slug_char :: "char \<Rightarrow> bool" where
  "slug_char c = (is_lower c \<or> is_digit c)"

text \<open>\<^verbatim>\<open>replace(/[^a-z0-9]+/g, '-')\<close>: the flag says a run has already produced its dash.\<close>

fun dash_runs :: "bool \<Rightarrow> string \<Rightarrow> string" where
  "dash_runs r [] = []"
| "dash_runs r (c # cs) =
     (if slug_char c then c # dash_runs False cs
      else if r then dash_runs True cs else CHR ''-'' # dash_runs True cs)"

text \<open>\<^verbatim>\<open>replace(/^-+|-+$/g, '')\<close>.\<close>

definition strip_dashes :: "string \<Rightarrow> string" where
  "strip_dashes s =
     rev (dropWhile (\<lambda>c. c = CHR ''-'') (rev (dropWhile (\<lambda>c. c = CHR ''-'') s)))"

definition slugify :: "(string \<Rightarrow> string) \<Rightarrow> string \<Rightarrow> string" where
  "slugify nfkd input = strip_dashes (dash_runs False (nfkd (to_lower input)))"

text \<open>What a slug may look like: words of letters and digits joined by single dashes.\<close>

definition slug_shape :: "string \<Rightarrow> bool" where
  "slug_shape s = ((\<forall>c\<in>set s. slug_char c \<or> c = CHR ''-'')
     \<and> (s \<noteq> [] \<longrightarrow> hd s \<noteq> CHR ''-'' \<and> last s \<noteq> CHR ''-'')
     \<and> \<not> sublist ''--'' s)"

lemma dash_not_slug_char [simp]: "\<not> slug_char (CHR ''-'')"
  by code_simp

lemma dash_runs_chars: "c \<in> set (dash_runs r s) \<Longrightarrow> slug_char c \<or> c = CHR ''-''"
  by (induction r s rule: dash_runs.induct) (auto split: if_splits)

lemma dash_runs_True_hd: "dash_runs True s \<noteq> [] \<Longrightarrow> hd (dash_runs True s) \<noteq> CHR ''-''"
  by (induction s) (auto split: if_splits)

lemma dash_runs_no_double: "\<not> sublist ''--'' (dash_runs r s)"
proof (induction r s rule: dash_runs.induct)
  case (2 r c cs)
  have "\<not> prefix ''-'' (dash_runs True cs)"
    using dash_runs_True_hd [of cs] by (cases "dash_runs True cs") auto
  with 2 show ?case by (auto simp: sublist_Cons_right)
qed simp

lemma sublist_dropWhile: "sublist (dropWhile P s) s"
  by (metis suffix_dropWhile suffix_imp_sublist)

lemma sublist_strip: "sublist (strip_dashes s) s"
proof -
  let ?d = "dropWhile (\<lambda>c. c = CHR ''-'')"
  have "sublist (rev (?d (rev (?d s)))) (rev (rev (?d s)))"
    by (simp only: sublist_rev sublist_dropWhile)
  then show ?thesis
    using sublist_dropWhile [of _ s] unfolding strip_dashes_def
    by (metis rev_rev_ident sublist_order.order_trans)
qed

lemma strip_ends:
  assumes "strip_dashes s \<noteq> []"
  shows "hd (strip_dashes s) \<noteq> CHR ''-'' \<and> last (strip_dashes s) \<noteq> CHR ''-''"
proof -
  let ?P = "\<lambda>c. c = CHR ''-''"
  define t where "t = dropWhile ?P s"
  have ne: "dropWhile ?P (rev t) \<noteq> []" using assms by (simp add: strip_dashes_def t_def)
  have l: "last (strip_dashes s) \<noteq> CHR ''-''"
    using hd_dropWhile [OF ne] ne by (simp add: strip_dashes_def t_def [symmetric] last_rev)
  have "t \<noteq> []" using ne by auto
  then have ht: "hd t \<noteq> CHR ''-''" unfolding t_def by (rule hd_dropWhile)
  obtain zs where "rev t = zs @ dropWhile ?P (rev t)"
    by (metis takeWhile_dropWhile_id)
  then have "t = rev (dropWhile ?P (rev t)) @ rev zs" by (metis rev_append rev_rev_ident)
  then have "hd t = hd (rev (dropWhile ?P (rev t)))" using ne by (metis hd_append2 rev_is_Nil_conv)
  with ht l show ?thesis by (simp add: strip_dashes_def t_def [symmetric])
qed

lemma slugify_shape: "slug_shape (slugify nfkd input)"
proof -
  let ?d = "dash_runs False (nfkd (to_lower input))"
  have sub: "sublist (slugify nfkd input) ?d" by (simp add: slugify_def sublist_strip)
  have "set (slugify nfkd input) \<subseteq> set ?d" using sub by (rule set_mono_sublist)
  moreover have "\<not> sublist ''--'' (slugify nfkd input)"
    using sub dash_runs_no_double sublist_order.order_trans by blast
  ultimately show ?thesis
    using dash_runs_chars strip_ends by (auto simp: slug_shape_def slugify_def)
qed

lemma dash_runs_shaped:
  assumes "\<forall>c\<in>set s. slug_char c \<or> c = CHR ''-''" "\<not> sublist ''--'' s"
    "r \<longrightarrow> s = [] \<or> hd s \<noteq> CHR ''-''"
  shows "dash_runs r s = s"
  using assms
proof (induction r s rule: dash_runs.induct)
  case (2 r c cs)
  show ?case
  proof (cases "slug_char c")
    case True
    then show ?thesis using 2 by (auto simp: sublist_Cons_right)
  next
    case False
    with 2 have c: "c = CHR ''-''" "\<not> r" by auto
    have "cs = [] \<or> hd cs \<noteq> CHR ''-''"
      using 2(5) c by (cases cs) (auto simp: sublist_Cons_right)
    with 2 c show ?thesis by (auto simp: sublist_Cons_right)
  qed
qed simp

lemma dropWhile_hd: "xs = [] \<or> \<not> P (hd xs) \<Longrightarrow> dropWhile P xs = xs"
  by (cases xs) auto

lemma strip_shaped: "s = [] \<or> hd s \<noteq> CHR ''-'' \<and> last s \<noteq> CHR ''-'' \<Longrightarrow> strip_dashes s = s"
  by (auto simp: strip_dashes_def dropWhile_hd hd_rev)

lemma slug_char_not_upper: "slug_char c \<Longrightarrow> \<not> is_upper c"
  by (auto simp: slug_char_def is_lower_def is_digit_def is_upper_def char_le_def)

lemma to_lower_shaped:
  assumes "slug_shape s"
  shows "to_lower s = s"
  unfolding to_lower_def
proof (rule map_idI)
  fix c assume "c \<in> set s"
  then have "slug_char c \<or> c = CHR ''-''" using assms by (auto simp: slug_shape_def)
  moreover have "\<not> is_upper (CHR ''-'')" by code_simp
  ultimately show "(if is_upper c then char_of ((of_char c :: nat) + 32) else c) = c"
    using slug_char_not_upper by auto
qed

lemma slugify_fixed: "slug_shape s \<Longrightarrow> slugify id s = s"
  using dash_runs_shaped [of s False] strip_shaped [of s]
  by (auto simp: slugify_def to_lower_shaped) (auto simp: slug_shape_def)

section \<open>Unique slugs\<close>

definition SLUG_ADJECTIVES :: "string list" where
  "SLUG_ADJECTIVES = [
     ''brave'', ''calm'', ''clever'', ''bright'', ''bold'', ''gentle'', ''happy'', ''keen'',
     ''lively'', ''lucky'', ''merry'', ''noble'', ''proud'', ''quiet'', ''swift'', ''warm'',
     ''wise'', ''zesty'', ''amber'', ''azure'', ''cosmic'', ''crisp'', ''daring'', ''eager'',
     ''fancy'', ''golden'', ''humble'', ''jolly'', ''mellow'', ''nimble'', ''placid'', ''rapid'']"

definition SLUG_NOUNS :: "string list" where
  "SLUG_NOUNS = [
     ''river'', ''forest'', ''meadow'', ''canyon'', ''harbor'', ''summit'', ''valley'', ''island'',
     ''comet'', ''nebula'', ''falcon'', ''otter'', ''badger'', ''lynx'', ''heron'', ''willow'',
     ''cedar'', ''maple'', ''ember'', ''pebble'', ''ripple'', ''breeze'', ''boulder'', ''lagoon'',
     ''glacier'', ''prairie'', ''tundra'', ''orchard'', ''thicket'', ''delta'', ''fjord'', ''reef'']"

definition SLUG_MAX_ATTEMPTS :: nat where
  "SLUG_MAX_ATTEMPTS = 25"

definition pick :: "string list \<Rightarrow> rat \<Rightarrow> string" where
  "pick list r = list ! nat \<lfloor>r * of_nat (length list)\<rfloor>"

definition padStart3 :: "string \<Rightarrow> string" where
  "padStart3 s = replicate (3 - length s) (CHR ''0'') @ s"

text \<open>The suffix is drawn first, then the adjective, then the noun.\<close>

definition randomSlug :: "(nat \<Rightarrow> rat) \<Rightarrow> nat \<Rightarrow> string" where
  "randomSlug rnd k =
     (let suffix = padStart3 (dec (nat \<lfloor>rnd k * 1000\<rfloor>))
      in pick SLUG_ADJECTIVES (rnd (k + 1)) @ ''-'' @ pick SLUG_NOUNS (rnd (k + 2)) @ ''-'' @ suffix)"

definition slug_candidate :: "string \<Rightarrow> (nat \<Rightarrow> rat) \<Rightarrow> nat \<Rightarrow> string" where
  "slug_candidate stem rnd attempt =
     (if stem \<noteq> [] then (if attempt = 0 then stem else stem @ ''-'' @ dec (attempt + 1))
      else randomSlug rnd (3 * attempt))"

text \<open>The loop over the attempts, and what follows it.\<close>

fun slug_attempts :: "(string \<Rightarrow> bool) \<Rightarrow> string \<Rightarrow> (nat \<Rightarrow> rat) \<Rightarrow> nat list \<Rightarrow> string option" where
  "slug_attempts isTaken stem rnd [] = None"
| "slug_attempts isTaken stem rnd (attempt # more) =
     (let candidate = slug_candidate stem rnd attempt
      in if \<not> isTaken candidate then Some candidate
         else slug_attempts isTaken stem rnd more)"

definition generateUniqueSlug ::
  "(string \<Rightarrow> string) \<Rightarrow> (rat \<Rightarrow> string) \<Rightarrow> (nat \<Rightarrow> rat) \<Rightarrow> (string \<Rightarrow> bool)
   \<Rightarrow> string option \<Rightarrow> string" where
  "generateUniqueSlug nfkd base36 rnd isTaken base =
     (let stem = (if truthy base then slugify nfkd (the base) else []);
          drawn = (if stem \<noteq> [] then 0 else 3 * SLUG_MAX_ATTEMPTS)
      in case slug_attempts isTaken stem rnd [0..<SLUG_MAX_ATTEMPTS] of
           Some candidate \<Rightarrow> candidate
         | None \<Rightarrow>
             (let tail = take 6 (drop 2 (base36 (rnd drawn)));
                  fallbackStem = (if stem \<noteq> [] then stem else randomSlug rnd (drawn + 1))
              in fallbackStem @ ''-'' @ tail))"

lemma slug_attempts_Some:
  "slug_attempts isTaken stem rnd as = Some s \<Longrightarrow>
     \<not> isTaken s \<and> (\<exists>a\<in>set as. s = slug_candidate stem rnd a)"
  by (induction as) (auto simp: Let_def split: if_splits)

lemma slug_attempts_None:
  "slug_attempts isTaken stem rnd as = None \<longleftrightarrow> (\<forall>a\<in>set as. isTaken (slug_candidate stem rnd a))"
  by (induction as) (auto simp: Let_def)

lemma slug_candidate_inj:
  "stem \<noteq> [] \<Longrightarrow> inj (slug_candidate stem rnd)"
  by (rule injI) (auto simp: slug_candidate_def split: if_splits)

text \<open>With fewer taken slugs than attempts, a named slug is always fresh.\<close>

lemma slug_attempts_fresh:
  assumes "stem \<noteq> []" "finite {s. isTaken s}" "card {s. isTaken s} < n"
  shows "slug_attempts isTaken stem rnd [0..<n] \<noteq> None"
proof
  have inj: "inj_on (slug_candidate stem rnd) {0..<n}"
    by (rule inj_on_subset [OF slug_candidate_inj [OF assms(1)] subset_UNIV])
  assume "slug_attempts isTaken stem rnd [0..<n] = None"
  then have "slug_candidate stem rnd ` {0..<n} \<subseteq> {s. isTaken s}"
    by (auto simp: slug_attempts_None)
  then have "card (slug_candidate stem rnd ` {0..<n}) \<le> card {s. isTaken s}"
    by (rule card_mono [OF assms(2)])
  also have "card (slug_candidate stem rnd ` {0..<n}) = n"
    by (simp add: card_image [OF inj])
  finally show False using assms(3) by simp
qed

lemma generateUniqueSlug_fresh:
  assumes "truthy base" "slugify nfkd (the base) \<noteq> []"
    "finite {s. isTaken s}" "card {s. isTaken s} < SLUG_MAX_ATTEMPTS"
  shows "\<not> isTaken (generateUniqueSlug nfkd base36 rnd isTaken base)"
proof -
  obtain c where c: "slug_attempts isTaken (slugify nfkd (the base)) rnd [0..<SLUG_MAX_ATTEMPTS] = Some c"
    using slug_attempts_fresh [OF assms(2,3,4), of rnd] by blast
  with slug_attempts_Some [OF this] assms(1,2) show ?thesis
    by (simp add: generateUniqueSlug_def)
qed

lemma generateUniqueSlug_free_stem:
  assumes "truthy base" "slugify nfkd (the base) \<noteq> []" "\<not> isTaken (slugify nfkd (the base))"
  shows "generateUniqueSlug nfkd base36 rnd isTaken base = slugify nfkd (the base)"
  using assms
  by (simp add: generateUniqueSlug_def SLUG_MAX_ATTEMPTS_def upt_conv_Cons slug_candidate_def)

section \<open>Ids and slugs do not overlap\<close>

definition ulid_char :: "char \<Rightarrow> bool" where
  "ulid_char c = (is_digit c \<or> char_le (CHR ''A'') c \<and> char_le c (CHR ''H'')
     \<or> c = CHR ''J'' \<or> c = CHR ''K'' \<or> c = CHR ''M'' \<or> c = CHR ''N''
     \<or> char_le (CHR ''P'') c \<and> char_le c (CHR ''T'')
     \<or> char_le (CHR ''V'') c \<and> char_le c (CHR ''Z''))"

definition isUlid :: "string \<Rightarrow> bool" where
  "isUlid value = (length value = 26 \<and> list_all ulid_char value)"

lemma slug_ulid_overlap:
  assumes "isUlid s" "slug_shape s"
  shows "list_all is_digit s"
proof -
  have "is_digit c" if c: "c \<in> set s" for c
  proof -
    have "ulid_char c" "slug_char c \<or> c = CHR ''-''"
      using assms c by (auto simp: isUlid_def slug_shape_def list_all_iff)
    moreover have "\<not> ulid_char (CHR ''-'')" by code_simp
    ultimately have u: "ulid_char c" "slug_char c" by auto
    show ?thesis
    proof (rule ccontr)
      assume n: "\<not> is_digit c"
      then have "(97::nat) \<le> of_char c" using u by (simp add: slug_char_def is_lower_def char_le_def)
      moreover have "(of_char c :: nat) \<le> 90"
        using u n by (auto simp: ulid_char_def char_le_def)
      ultimately show False by simp
    qed
  qed
  then show ?thesis by (simp add: list_all_iff)
qed

end
