(* ===== verification/Asset_Repo.thy ===== *)
theory Asset_Repo
  imports Asset_Apply Asset_Slug
begin

text \<open>
  \<^verbatim>\<open>InMemoryAssetRepository\<close> (\<^verbatim>\<open>asset-repo.ts\<close>): the store of assets in insertion
  order and the set of purged ids, and one definition per method. A method that
  rejects returns its \<^verbatim>\<open>asset_error\<close> on the left and leaves the state as it was;
  \<^verbatim>\<open>undefined\<close> is \<^verbatim>\<open>None\<close>. The clock (\<^verbatim>\<open>now\<close>) and the id generator (\<^verbatim>\<open>ulid\<close>) are
  arguments.

  \<^verbatim>\<open>asset_ok\<close> is the well-formedness of one stored asset and \<^verbatim>\<open>repo_ok\<close> that of
  the repository; every method keeps them.
\<close>

section \<open>State and reads\<close>

record asset_repo =
  store :: "(string, asset) jsmap"
  tombstones :: "string list"

definition empty_repo :: asset_repo where
  "empty_repo = \<lparr> store = [], tombstones = [] \<rparr>"

definition put :: "string \<Rightarrow> asset \<Rightarrow> asset_repo \<Rightarrow> asset_repo" where
  "put i a r = r\<lparr> store := AList.update i a (store r) \<rparr>"

definition get :: "asset_repo \<Rightarrow> string \<Rightarrow> asset option" where
  "get r i = map_of (store r) i"

datatype asset_read_state = IsAsset asset | IsTombstone | NotFound

definition getState :: "asset_repo \<Rightarrow> string \<Rightarrow> asset_read_state" where
  "getState r i = (case map_of (store r) i of
       Some a \<Rightarrow> IsAsset a
     | None \<Rightarrow> if i \<in> set (tombstones r) then IsTombstone else NotFound)"

definition purgeToTombstone :: "string \<Rightarrow> asset_repo \<Rightarrow> asset_repo \<times> bool" where
  "purgeToTombstone i r =
     (if map_of (store r) i = None then (r, False)
      else (\<lparr> store = AList.delete i (store r), tombstones = List.insert i (tombstones r) \<rparr>, True))"

definition slugTaken :: "asset_repo \<Rightarrow> string \<Rightarrow> bool" where
  "slugTaken r slug = list_ex (\<lambda>a. a_slug a = Some slug) (vals (store r))"

definition getBySlug :: "asset_repo \<Rightarrow> string \<Rightarrow> asset option" where
  "getBySlug r slug = find (\<lambda>a. a_slug a = Some slug) (vals (store r))"

definition has_xid :: "string \<Rightarrow> string \<Rightarrow> asset \<Rightarrow> bool" where
  "has_xid ns i a = list_ex (\<lambda>e. xi_namespace e = ns \<and> xi_id e = i)
     (coalesce (a_externalIdentifiers a) [])"

definition getByExternalId :: "asset_repo \<Rightarrow> string \<Rightarrow> string \<Rightarrow> asset option" where
  "getByExternalId r ns i = find (has_xid ns i) (vals (store r))"

definition DEFAULT_LIMIT :: jsnum where "DEFAULT_LIMIT = Fin 50"
definition MAX_LIMIT :: jsnum where "MAX_LIMIT = Fin 200"

definition clampLimit :: "jsnum option \<Rightarrow> jsnum" where
  "clampLimit limit = (if limit = None \<or> limit = Some NaN then DEFAULT_LIMIT
     else js_min MAX_LIMIT (js_max (Fin 1) (js_floor (the limit))))"

text \<open>The integer a number is, for \<^verbatim>\<open>slice\<close>.\<close>

definition js_nat :: "jsnum \<Rightarrow> nat" where
  "js_nat x = (case x of Fin r \<Rightarrow> nat \<lfloor>r\<rfloor> | _ \<Rightarrow> 0)"

record created_range =
  createdFrom :: "string option"
  createdTo :: "string option"

text \<open>\<^verbatim>\<open>created-range.ts\<close>: \<^verbatim>\<open>parse\<close> is \<^verbatim>\<open>Date.parse\<close>.\<close>

definition withinCreatedRange :: "(string \<Rightarrow> jsnum) \<Rightarrow> string \<Rightarrow> created_range \<Rightarrow> bool" where
  "withinCreatedRange parse created rng =
     (if createdFrom rng = None \<and> createdTo rng = None then True
      else let t0 = parse created
        in t0 \<noteq> NaN
          \<and> (case createdFrom rng of Some f \<Rightarrow> \<not> js_lt t0 (parse f) | None \<Rightarrow> True)
          \<and> (case createdTo rng of Some t \<Rightarrow> \<not> js_lt (parse t) t0 | None \<Rightarrow> True))"

definition isInvertedRange :: "(string \<Rightarrow> jsnum) \<Rightarrow> created_range \<Rightarrow> bool" where
  "isInvertedRange parse rng = (case (createdFrom rng, createdTo rng) of
       (Some f, Some t) \<Rightarrow> js_lt (parse t) (parse f)
     | _ \<Rightarrow> False)"

record list_options =
  lo_limit :: "jsnum option"
  lo_offset :: "int option"
  lo_status :: "asset_status option"
  lo_parentId :: "string option"
  lo_versionGroupId :: "string option"
  lo_range :: created_range

record list_result =
  lr_items :: "asset list"
  lr_limit :: jsnum
  lr_offset :: int
  lr_total :: nat

definition list_matches :: "(string \<Rightarrow> jsnum) \<Rightarrow> list_options \<Rightarrow> asset \<Rightarrow> bool" where
  "list_matches parse opts a =
     ((lo_status opts \<noteq> None \<longrightarrow> a_status a = the (lo_status opts))
      \<and> (lo_parentId opts \<noteq> None \<longrightarrow> a_parentId a = lo_parentId opts)
      \<and> (lo_versionGroupId opts \<noteq> None \<longrightarrow> a_versionGroupId a = lo_versionGroupId opts)
      \<and> withinCreatedRange parse (a_createdAt a) (lo_range opts))"

definition list_assets :: "(string \<Rightarrow> jsnum) \<Rightarrow> asset_repo \<Rightarrow> list_options \<Rightarrow> list_result" where
  "list_assets parse r opts =
     (let limit = clampLimit (lo_limit opts);
          offset = max 0 (coalesce (lo_offset opts) 0);
          matching = version_sort (filter (list_matches parse opts) (vals (store r)))
      in \<lparr> lr_items = take (js_nat limit) (drop (nat offset) matching),
           lr_limit = limit, lr_offset = offset, lr_total = length matching \<rparr>)"

definition no_options :: list_options where
  "no_options = \<lparr> lo_limit = None, lo_offset = None, lo_status = None, lo_parentId = None,
     lo_versionGroupId = None, lo_range = \<lparr> createdFrom = None, createdTo = None \<rparr> \<rparr>"

definition search :: "(string \<Rightarrow> jsnum) \<Rightarrow> asset_repo \<Rightarrow> string \<Rightarrow> asset list" where
  "search parse r query =
     (let q = to_lower query
      in filter (\<lambda>a. str_includes (to_lower (a_name a)) q
             \<or> (case a_description a of Some d \<Rightarrow> str_includes (to_lower d) q | None \<Rightarrow> False))
           (lr_items (list_assets parse r (no_options\<lparr> lo_limit := Some MAX_LIMIT \<rparr>))))"

definition countChildren :: "asset_repo \<Rightarrow> string \<Rightarrow> nat" where
  "countChildren r i =
     length (filter (\<lambda>a. a_parentId a = Some i \<and> a_status a \<noteq> Archived) (vals (store r)))"

definition listVersions :: "asset_repo \<Rightarrow> string \<Rightarrow> asset list option" where
  "listVersions r i = (case map_of (store r) i of
       None \<Rightarrow> None
     | Some asset \<Rightarrow>
         if \<not> truthy (a_versionGroupId asset) then Some [asset]
         else Some (version_sort
           (filter (\<lambda>a. a_versionGroupId a = a_versionGroupId asset) (vals (store r)))))"

section \<open>create\<close>

record create_env =
  ce_now :: string
  ce_ulid :: string
  ce_rnd :: "nat \<Rightarrow> rat"
  ce_stack :: "string option"
  ce_nfkd :: "string \<Rightarrow> string"
  ce_base36 :: "rat \<Rightarrow> string"

definition new_asset :: "create_env \<Rightarrow> string \<Rightarrow> create_asset_input \<Rightarrow> asset" where
  "new_asset env slug input =
     (let now = ce_now env; method = coalesce (ci_sourceMethod input) Upload
      in \<lparr> a_id = ce_ulid env, a_name = ci_name input, a_slug = Some slug,
        a_description = ci_description input, a_status = Uploading, a_reviewState = None,
        a_deleteLock = None, a_storageTiering = None, a_parentId = ci_parentId input,
        a_versionOfAssetId = ci_versionOfAssetId input,
        a_versionGroupId = ci_versionGroupId input, a_objectKey = ci_objectKey input,
        a_sourceSizeBytes = None, a_statusHistory = initialHistory now,
        a_technicalMetadata = None, a_technicalMetadataError = None, a_videoTracks = None,
        a_manifestUrls = None, a_packagingError = None, a_packagedOutput = None,
        a_packagedOutputStale = None, a_drm = None, a_preservedDrm = None,
        a_renditions = None, a_thumbnails = None, a_thumbnailSizes = None,
        a_metadata = ci_metadata input, a_tags = map_option normalizeTags (ci_tags input),
        a_audioTracks = None, a_subtitleTracks = None, a_subtitlesError = None,
        a_sceneMetadata = None, a_sceneDetectionError = None, a_sourceMethod = Some method,
        a_originUri = ci_originUri input, a_provenance = Some (initialProvenance now method),
        a_externalIdentifiers = None, a_collections = None, a_tamsFlowIds = None,
        a_tamsTimerange = None,
        a_stackName = (if ci_stackName input \<noteq> None then ci_stackName input else ce_stack env),
        a_createdAt = now, a_updatedAt = now \<rparr>)"

definition create :: "create_env \<Rightarrow> create_asset_input \<Rightarrow> asset_repo
    \<Rightarrow> asset_error + (asset_repo \<times> asset)" where
  "create env input r =
     (if truthy (ci_parentId input) \<and> get r (the (ci_parentId input)) = None
      then Inl (ParentNotFound (the (ci_parentId input)))
      else
        let slug = generateUniqueSlug (ce_nfkd env) (ce_base36 env) (ce_rnd env)
                     (slugTaken r) (ci_slug input);
            asset = new_asset env slug input
        in Inr (put (ce_ulid env) asset r, asset))"

section \<open>update\<close>

definition opt_set :: "'v option \<Rightarrow> ('v \<Rightarrow> 'r \<Rightarrow> 'r) \<Rightarrow> 'r \<Rightarrow> 'r" where
  "opt_set p f r = (case p of None \<Rightarrow> r | Some v \<Rightarrow> f v r)"

definition patch_identity :: "update_asset_input \<Rightarrow> asset \<Rightarrow> asset" where
  "patch_identity p n =
     (let n1 = opt_set (u_name p) (\<lambda>v n. n\<lparr> a_name := v \<rparr>) n;
          n2 = opt_set (u_description p) (\<lambda>v n. n\<lparr> a_description := Some v \<rparr>) n1
      in opt_set (u_objectKey p) (\<lambda>v n. n\<lparr> a_objectKey := Some v \<rparr>) n2)"

text \<open>The recorded size belongs to the object key it was measured for.\<close>

definition patch_source :: "asset \<Rightarrow> update_asset_input \<Rightarrow> asset \<Rightarrow> asset" where
  "patch_source existing p n = (case u_sourceSizeBytes p of
       Some v \<Rightarrow> n\<lparr> a_sourceSizeBytes := (if js_lt (Fin 0) v then Some v else None) \<rparr>
     | None \<Rightarrow>
         if u_objectKey p \<noteq> None \<and> u_objectKey p \<noteq> a_objectKey existing
         then n\<lparr> a_sourceSizeBytes := None \<rparr> else n)"

definition patch_technical :: "update_asset_input \<Rightarrow> asset \<Rightarrow> asset" where
  "patch_technical p n =
     (let n1 = opt_set (u_technicalMetadata p) (\<lambda>v n.
            (let n' = n\<lparr> a_technicalMetadata := Some v \<rparr>
             in if v \<noteq> Null then n'\<lparr> a_technicalMetadataError := None \<rparr> else n')) n
      in opt_set (u_technicalMetadataError p)
           (\<lambda>v n. n\<lparr> a_technicalMetadataError := Some v \<rparr>) n1)"

definition patch_packaging :: "update_asset_input \<Rightarrow> asset \<Rightarrow> asset" where
  "patch_packaging p n =
     (let n1 = opt_set (u_manifestUrls p) (\<lambda>v n. n\<lparr> a_manifestUrls := Some v,
                 a_packagingError := None, a_packagedOutputStale := None \<rparr>) n;
          n2 = opt_set (u_packagingError p) (\<lambda>v n. n\<lparr> a_packagingError := Some v \<rparr>) n1;
          n3 = opt_set (u_packagedOutput p) (\<lambda>v n. n\<lparr> a_packagedOutput := Some v \<rparr>) n2
      in opt_set (u_packagedOutputStale p)
           (\<lambda>v n. n\<lparr> a_packagedOutputStale := (if v then Some True else None) \<rparr>) n3)"

definition patch_media :: "update_asset_input \<Rightarrow> asset \<Rightarrow> asset" where
  "patch_media p n =
     (let n1 = opt_set (u_renditions p) (\<lambda>v n. n\<lparr> a_renditions := Some v \<rparr>) n;
          n2 = opt_set (u_thumbnails p) (\<lambda>v n. n\<lparr> a_thumbnails := Some v \<rparr>) n1
      in opt_set (u_thumbnailSizes p)
           (\<lambda>v n. n\<lparr> a_thumbnailSizes := (if v \<noteq> [] then Some v else None) \<rparr>) n2)"

definition patch_descriptive :: "asset \<Rightarrow> update_asset_input \<Rightarrow> asset \<Rightarrow> asset" where
  "patch_descriptive existing p n =
     (let n1 = opt_set (u_metadata p) (\<lambda>v n. n\<lparr> a_metadata :=
                 Some (applyMetadata (a_metadata existing) v
                   (coalesce (u_replaceMetadata p) False)) \<rparr>) n;
          n2 = opt_set (u_tags p) (\<lambda>v n. n\<lparr> a_tags := Some (normalizeTags v) \<rparr>) n1;
          n3 = opt_set (u_audioTracks p) (\<lambda>v n. n\<lparr> a_audioTracks := Some v \<rparr>) n2;
          n4 = opt_set (u_subtitleTracks p) (\<lambda>v n. n\<lparr> a_subtitleTracks := Some v \<rparr>) n3
      in opt_set (u_subtitlesError p) (\<lambda>v n. n\<lparr> a_subtitlesError :=
           (case v of Null \<Rightarrow> None | Val e \<Rightarrow> Some e) \<rparr>) n4)"

definition patch_scenes :: "update_asset_input \<Rightarrow> asset \<Rightarrow> asset" where
  "patch_scenes p n =
     (let n1 = opt_set (u_sceneMetadata p) (\<lambda>v n.
            (let n' = n\<lparr> a_sceneMetadata := Some v \<rparr>
             in if v \<noteq> Null then n'\<lparr> a_sceneDetectionError := None \<rparr> else n')) n
      in opt_set (u_sceneDetectionError p)
           (\<lambda>v n. n\<lparr> a_sceneDetectionError := Some v \<rparr>) n1)"

definition patch_links :: "update_asset_input \<Rightarrow> asset \<Rightarrow> asset" where
  "patch_links p n =
     opt_set (u_versionGroupId p) (\<lambda>v n. n\<lparr> a_versionGroupId := Some v \<rparr>)
       (opt_set (u_drm p) (\<lambda>v n. n\<lparr> a_drm := Some v \<rparr>) n)"

text \<open>All the field rules before the status rule, in the order of the code.\<close>

definition patch_fields :: "asset \<Rightarrow> update_asset_input \<Rightarrow> asset \<Rightarrow> asset" where
  "patch_fields existing p n =
     patch_links p (patch_scenes p (patch_descriptive existing p (patch_media p
       (patch_packaging p (patch_technical p (patch_source existing p
         (patch_identity p n)))))))"

definition patch_provenance :: "asset \<Rightarrow> update_asset_input \<Rightarrow> string \<Rightarrow> asset \<Rightarrow> asset" where
  "patch_provenance existing p now n =
     (let entries = provenanceForPatch p now
      in if entries \<noteq> [] then n\<lparr> a_provenance := Some (coalesce (a_provenance existing) [] @ entries) \<rparr>
         else n)"

definition patch_asset ::
  "asset \<Rightarrow> update_asset_input \<Rightarrow> string \<Rightarrow> asset_error + asset" where
  "patch_asset existing p now =
     (let n = patch_fields existing p (existing\<lparr> a_updatedAt := now \<rparr>)
      in case u_status p of
           None \<Rightarrow> Inr (patch_provenance existing p now n)
         | Some s \<Rightarrow>
             (case applyStatus (a_status existing) s (a_statusHistory existing) now
                     (u_statusReason p) of
                Inl e \<Rightarrow> Inl e
              | Inr (s', h') \<Rightarrow> Inr (patch_provenance existing p now
                  (n\<lparr> a_status := s', a_statusHistory := h' \<rparr>))))"

definition update_asset :: "string \<Rightarrow> update_asset_input \<Rightarrow> string \<Rightarrow> asset_repo
    \<Rightarrow> asset_error + (asset_repo \<times> asset option)" where
  "update_asset i p now r = (case map_of (store r) i of
       None \<Rightarrow> Inr (r, None)
     | Some existing \<Rightarrow>
         (case patch_asset existing p now of
            Inl e \<Rightarrow> Inl e
          | Inr next \<Rightarrow> Inr (put i next r, Some next)))"

definition empty_patch :: update_asset_input where
  "empty_patch = \<lparr> u_name = None, u_description = None, u_objectKey = None,
     u_sourceSizeBytes = None, u_status = None, u_statusReason = None,
     u_versionGroupId = None, u_technicalMetadata = None, u_technicalMetadataError = None,
     u_manifestUrls = None, u_packagingError = None, u_packagedOutput = None,
     u_packagedOutputStale = None, u_renditions = None, u_thumbnails = None,
     u_thumbnailSizes = None, u_metadata = None, u_replaceMetadata = None, u_tags = None,
     u_audioTracks = None, u_subtitleTracks = None, u_subtitlesError = None,
     u_sceneMetadata = None, u_sceneDetectionError = None, u_drm = None \<rparr>"

definition remove_asset :: "string \<Rightarrow> string \<Rightarrow> asset_repo
    \<Rightarrow> asset_error + (asset_repo \<times> asset option)" where
  "remove_asset i now r = update_asset i (empty_patch\<lparr> u_status := Some Archived \<rparr>) now r"

definition restore :: "string \<Rightarrow> string \<Rightarrow> asset_repo \<Rightarrow> asset_repo \<times> asset option" where
  "restore i now r = (case map_of (store r) i of
       None \<Rightarrow> (r, None)
     | Some existing \<Rightarrow>
         if a_status existing \<noteq> Archived then (r, None)
         else let applied = applyRestore (a_statusHistory existing) now;
              next = existing\<lparr> a_status := fst applied, a_statusHistory := snd applied,
                a_updatedAt := now,
                a_provenance := Some (coalesce (a_provenance existing) [] @
                  [\<lparr> pv_at = now, pv_by = User, pv_op = ''restore'',
                     pv_detail = Some (asset_status_text (fst applied)) \<rparr>]) \<rparr>
           in (put i next r, Some next))"

section \<open>The single-purpose writes\<close>

definition attachExternalId :: "string \<Rightarrow> string \<Rightarrow> string \<Rightarrow> bool \<Rightarrow> string \<Rightarrow> asset_repo
    \<Rightarrow> asset_error + (asset_repo \<times> asset option)" where
  "attachExternalId i ns xid enforceUniqueness now r = (case map_of (store r) i of
       None \<Rightarrow> Inr (r, None)
     | Some existing \<Rightarrow>
         if i \<in> set (tombstones r) then Inr (r, None)
         else if has_xid ns xid existing then Inr (r, Some existing)
         else
           let attach = (let next = existing\<lparr> a_externalIdentifiers :=
                   Some (coalesce (a_externalIdentifiers existing) [] @
                     [\<lparr> xi_namespace = ns, xi_id = xid \<rparr>]), a_updatedAt := now \<rparr>
                 in Inr (put i next r, Some next))
           in case (if enforceUniqueness then getByExternalId r ns xid else None) of
                Some owner \<Rightarrow> if a_id owner \<noteq> i then Inl (ExternalIdConflict ns xid (a_id owner))
                  else attach
              | None \<Rightarrow> attach)"

definition detachExternalId :: "string \<Rightarrow> external_identifier \<Rightarrow> string \<Rightarrow> asset_repo
    \<Rightarrow> asset_repo \<times> asset option" where
  "detachExternalId i ref now r = (case map_of (store r) i of
       None \<Rightarrow> (r, None)
     | Some existing \<Rightarrow>
         if i \<in> set (tombstones r) then (r, None)
         else
           let before = coalesce (a_externalIdentifiers existing) [];
               remaining = filter (\<lambda>e. \<not> (xi_namespace e = xi_namespace ref \<and> xi_id e = xi_id ref))
                 before
           in if length remaining = length before then (r, Some existing)
              else let next = existing\<lparr> a_externalIdentifiers :=
                     (if remaining \<noteq> [] then Some remaining else None), a_updatedAt := now \<rparr>
                in (put i next r, Some next))"

definition touchUploadProgress :: "string \<Rightarrow> string \<Rightarrow> asset_repo \<Rightarrow> asset_repo \<times> asset option" where
  "touchUploadProgress i now r = (case map_of (store r) i of
       None \<Rightarrow> (r, None)
     | Some existing \<Rightarrow>
         if a_status existing \<noteq> Uploading then (r, Some existing)
         else let next = existing\<lparr> a_updatedAt := now \<rparr> in (put i next r, Some next))"

definition transitionReviewState :: "string \<Rightarrow> review_state \<Rightarrow> string \<Rightarrow> asset_repo
    \<Rightarrow> asset_error + (asset_repo \<times> asset option)" where
  "transitionReviewState i to now r = (case map_of (store r) i of
       None \<Rightarrow> Inr (r, None)
     | Some existing \<Rightarrow>
         (case applyReviewState (a_reviewState existing) to of
            Inl e \<Rightarrow> Inl e
          | Inr s \<Rightarrow> let next = existing\<lparr> a_reviewState := Some s, a_updatedAt := now \<rparr>
              in Inr (put i next r, Some next)))"

definition setDeleteLock :: "string \<Rightarrow> set_delete_lock_input \<Rightarrow> string \<Rightarrow> asset_repo
    \<Rightarrow> asset_repo \<times> asset option" where
  "setDeleteLock i input now r = (case map_of (store r) i of
       None \<Rightarrow> (r, None)
     | Some existing \<Rightarrow>
         let applied = applyDeleteLock existing input now;
             next = existing\<lparr> a_deleteLock := fst applied, a_provenance := Some (snd applied),
               a_updatedAt := now \<rparr>
         in (put i next r, Some next))"

definition setStorageTier :: "string \<Rightarrow> (byte_class, storage_tier) jsmap \<Rightarrow> string \<Rightarrow> asset_repo
    \<Rightarrow> asset_repo \<times> asset option" where
  "setStorageTier i overrides now r = (case map_of (store r) i of
       None \<Rightarrow> (r, None)
     | Some existing \<Rightarrow>
         let next = existing\<lparr> a_storageTiering :=
               Some (applyStorageTier (a_storageTiering existing) overrides), a_updatedAt := now \<rparr>
         in (put i next r, Some next))"

definition setRehydrateState :: "string \<Rightarrow> byte_class \<Rightarrow> rehydrate_phase \<Rightarrow> string \<Rightarrow> asset_repo
    \<Rightarrow> asset_repo \<times> asset option" where
  "setRehydrateState i byteClass phase now r = (case map_of (store r) i of
       None \<Rightarrow> (r, None)
     | Some existing \<Rightarrow>
         let tiering = (if phase = Begin
               then beginRehydrate (a_storageTiering existing) byteClass now
               else completeRehydrate (a_storageTiering existing) byteClass);
             next = existing\<lparr> a_storageTiering := Some tiering, a_updatedAt := now \<rparr>
         in (put i next r, Some next))"

end
