(* ===== verification/Asset_Repo_Inv.thy ===== *)
theory Asset_Repo_Inv
  imports Asset_Repo
begin

text \<open>
  The invariants of the asset repository. \<^verbatim>\<open>asset_ok\<close> is what every stored asset
  satisfies; \<^verbatim>\<open>repo_ok\<close> adds the shape of the store. An \<^verbatim>\<open>asset_op\<close> is one method
  call, \<^verbatim>\<open>run_op\<close> its effect on the state, and the lemmas say that every call keeps
  the invariant, only appends to a status history, and never moves the lifecycle
  when it writes another axis of the asset.
\<close>

section \<open>The write methods as one operation type\<close>

datatype asset_op =
    OpCreate create_env create_asset_input
  | OpUpdate string update_asset_input string
  | OpRemove string string
  | OpRestore string string
  | OpAttach string string string bool string
  | OpDetach string external_identifier string
  | OpTouch string string
  | OpReview string review_state string
  | OpLock string set_delete_lock_input string
  | OpTier string "(byte_class, storage_tier) jsmap" string
  | OpRehydrate string byte_class rehydrate_phase string
  | OpPurge string

text \<open>The state after a call; a rejected call leaves the state as it was.\<close>

definition state_of :: "asset_repo \<Rightarrow> asset_error + (asset_repo \<times> 'b) \<Rightarrow> asset_repo" where
  "state_of r res = (case res of Inl e \<Rightarrow> r | Inr (r', b) \<Rightarrow> r')"

fun run_op :: "asset_op \<Rightarrow> asset_repo \<Rightarrow> asset_repo" where
  "run_op (OpCreate env input) r = state_of r (create env input r)"
| "run_op (OpUpdate i p now) r = state_of r (update_asset i p now r)"
| "run_op (OpRemove i now) r = state_of r (remove_asset i now r)"
| "run_op (OpRestore i now) r = fst (restore i now r)"
| "run_op (OpAttach i ns x enf now) r = state_of r (attachExternalId i ns x enf now r)"
| "run_op (OpDetach i ref now) r = fst (detachExternalId i ref now r)"
| "run_op (OpTouch i now) r = fst (touchUploadProgress i now r)"
| "run_op (OpReview i to now) r = state_of r (transitionReviewState i to now r)"
| "run_op (OpLock i input now) r = fst (setDeleteLock i input now r)"
| "run_op (OpTier i ov now) r = fst (setStorageTier i ov now r)"
| "run_op (OpRehydrate i bc ph now) r = fst (setRehydrateState i bc ph now r)"
| "run_op (OpPurge i) r = fst (purgeToTombstone i r)"

text \<open>\<^verbatim>\<open>ulid()\<close> never repeats an id: the hypothesis on a \<^verbatim>\<open>create\<close>.\<close>

fun fresh_id :: "asset_op \<Rightarrow> asset_repo \<Rightarrow> bool" where
  "fresh_id (OpCreate env input) r =
     (ce_ulid env \<notin> set (keys (store r)) \<and> ce_ulid env \<notin> set (tombstones r))"
| "fresh_id op r = True"

fun run_ops :: "asset_op list \<Rightarrow> asset_repo \<Rightarrow> asset_repo" where
  "run_ops [] r = r"
| "run_ops (op # ops) r = run_ops ops (run_op op r)"

fun fresh_ids :: "asset_op list \<Rightarrow> asset_repo \<Rightarrow> bool" where
  "fresh_ids [] r = True"
| "fresh_ids (op # ops) r = (fresh_id op r \<and> fresh_ids ops (run_op op r))"

section \<open>Invariants\<close>

definition asset_ok :: "asset \<Rightarrow> bool" where
  "asset_ok a = (lifecycle (a_statusHistory a) (a_status a)
     \<and> (\<forall>x. a_sourceSizeBytes a = Some x \<longrightarrow> js_lt (Fin 0) x)
     \<and> a_packagedOutputStale a \<noteq> Some False
     \<and> a_thumbnailSizes a \<noteq> Some []
     \<and> (\<forall>ts. a_tags a = Some ts \<longrightarrow> distinct ts)
     \<and> distinct (coalesce (a_externalIdentifiers a) [])
     \<and> (\<forall>l. a_deleteLock a = Some l \<longrightarrow> dl_locked l)
     \<and> (\<forall>t. a_storageTiering a = Some t \<longrightarrow> distinct (map rh_byteClass (rehydrating t))))"

definition repo_ok :: "asset_repo \<Rightarrow> bool" where
  "repo_ok r = (distinct (keys (store r))
     \<and> (\<forall>i a. map_of (store r) i = Some a \<longrightarrow> a_id a = i \<and> asset_ok a)
     \<and> set (keys (store r)) \<inter> set (tombstones r) = {})"

lemma asset_okD: "repo_ok r \<Longrightarrow> map_of (store r) i = Some a \<Longrightarrow> asset_ok a \<and> a_id a = i"
  by (simp add: repo_ok_def)

lemma repo_ok_empty: "repo_ok empty_repo"
  by (simp add: repo_ok_def empty_repo_def)

lemma repo_ok_put:
  assumes "repo_ok r" "asset_ok a" "a_id a = i" "i \<notin> set (tombstones r)"
  shows "repo_ok (put i a r)"
  using assms by (auto simp: repo_ok_def put_def)

lemma repo_ok_put_existing:
  assumes "repo_ok r" "map_of (store r) i = Some b" "asset_ok a" "a_id a = a_id b"
  shows "repo_ok (put i a r)"
proof (rule repo_ok_put [OF assms(1,3)])
  show "a_id a = i" using asset_okD [OF assms(1,2)] assms(4) by simp
  have "i \<in> set (keys (store r))" using assms(2) map_of_None_iff_keys [of "store r" i] by auto
  then show "i \<notin> set (tombstones r)" using assms(1) by (auto simp: repo_ok_def)
qed

section \<open>Frames of the field rules\<close>

lemmas patch_defs = patch_identity_def patch_source_def patch_technical_def
  patch_packaging_def patch_media_def patch_descriptive_def patch_scenes_def patch_links_def
  opt_set_def Let_def

lemma patch_identity_frame [simp]:
  "a_status (patch_identity p n) = a_status n" "a_statusHistory (patch_identity p n) = a_statusHistory n"
  "a_id (patch_identity p n) = a_id n" "a_externalIdentifiers (patch_identity p n) = a_externalIdentifiers n"
  "a_deleteLock (patch_identity p n) = a_deleteLock n"
  "a_storageTiering (patch_identity p n) = a_storageTiering n"
  "a_reviewState (patch_identity p n) = a_reviewState n"
  "a_sourceSizeBytes (patch_identity p n) = a_sourceSizeBytes n"
  "a_packagedOutputStale (patch_identity p n) = a_packagedOutputStale n"
  "a_packagingError (patch_identity p n) = a_packagingError n"
  "a_thumbnailSizes (patch_identity p n) = a_thumbnailSizes n" "a_tags (patch_identity p n) = a_tags n"
  "a_parentId (patch_identity p n) = a_parentId n"
  "a_objectKey (patch_identity p n) = (case u_objectKey p of None \<Rightarrow> a_objectKey n | k \<Rightarrow> k)"
  by (simp_all add: patch_defs split: option.splits)

lemma patch_source_frame [simp]:
  "a_status (patch_source e p n) = a_status n" "a_statusHistory (patch_source e p n) = a_statusHistory n"
  "a_id (patch_source e p n) = a_id n" "a_externalIdentifiers (patch_source e p n) = a_externalIdentifiers n"
  "a_deleteLock (patch_source e p n) = a_deleteLock n"
  "a_storageTiering (patch_source e p n) = a_storageTiering n"
  "a_reviewState (patch_source e p n) = a_reviewState n"
  "a_packagedOutputStale (patch_source e p n) = a_packagedOutputStale n"
  "a_packagingError (patch_source e p n) = a_packagingError n"
  "a_thumbnailSizes (patch_source e p n) = a_thumbnailSizes n" "a_tags (patch_source e p n) = a_tags n"
  "a_parentId (patch_source e p n) = a_parentId n" "a_objectKey (patch_source e p n) = a_objectKey n"
  by (simp_all add: patch_defs split: option.splits)

lemma patch_technical_frame [simp]:
  "a_status (patch_technical p n) = a_status n" "a_statusHistory (patch_technical p n) = a_statusHistory n"
  "a_id (patch_technical p n) = a_id n" "a_externalIdentifiers (patch_technical p n) = a_externalIdentifiers n"
  "a_deleteLock (patch_technical p n) = a_deleteLock n"
  "a_storageTiering (patch_technical p n) = a_storageTiering n"
  "a_reviewState (patch_technical p n) = a_reviewState n"
  "a_sourceSizeBytes (patch_technical p n) = a_sourceSizeBytes n"
  "a_packagedOutputStale (patch_technical p n) = a_packagedOutputStale n"
  "a_packagingError (patch_technical p n) = a_packagingError n"
  "a_thumbnailSizes (patch_technical p n) = a_thumbnailSizes n" "a_tags (patch_technical p n) = a_tags n"
  "a_parentId (patch_technical p n) = a_parentId n" "a_objectKey (patch_technical p n) = a_objectKey n"
  by (simp_all add: patch_defs split: option.splits)

lemma patch_packaging_frame [simp]:
  "a_status (patch_packaging p n) = a_status n" "a_statusHistory (patch_packaging p n) = a_statusHistory n"
  "a_id (patch_packaging p n) = a_id n" "a_externalIdentifiers (patch_packaging p n) = a_externalIdentifiers n"
  "a_deleteLock (patch_packaging p n) = a_deleteLock n"
  "a_storageTiering (patch_packaging p n) = a_storageTiering n"
  "a_reviewState (patch_packaging p n) = a_reviewState n"
  "a_sourceSizeBytes (patch_packaging p n) = a_sourceSizeBytes n"
  "a_thumbnailSizes (patch_packaging p n) = a_thumbnailSizes n" "a_tags (patch_packaging p n) = a_tags n"
  "a_parentId (patch_packaging p n) = a_parentId n" "a_objectKey (patch_packaging p n) = a_objectKey n"
  by (simp_all add: patch_defs split: option.splits)

lemma patch_media_frame [simp]:
  "a_status (patch_media p n) = a_status n" "a_statusHistory (patch_media p n) = a_statusHistory n"
  "a_id (patch_media p n) = a_id n" "a_externalIdentifiers (patch_media p n) = a_externalIdentifiers n"
  "a_deleteLock (patch_media p n) = a_deleteLock n"
  "a_storageTiering (patch_media p n) = a_storageTiering n"
  "a_reviewState (patch_media p n) = a_reviewState n"
  "a_sourceSizeBytes (patch_media p n) = a_sourceSizeBytes n"
  "a_packagedOutputStale (patch_media p n) = a_packagedOutputStale n"
  "a_packagingError (patch_media p n) = a_packagingError n" "a_tags (patch_media p n) = a_tags n"
  "a_parentId (patch_media p n) = a_parentId n" "a_objectKey (patch_media p n) = a_objectKey n"
  by (simp_all add: patch_defs split: option.splits)

lemma patch_descriptive_frame [simp]:
  "a_status (patch_descriptive e p n) = a_status n"
  "a_statusHistory (patch_descriptive e p n) = a_statusHistory n"
  "a_id (patch_descriptive e p n) = a_id n"
  "a_externalIdentifiers (patch_descriptive e p n) = a_externalIdentifiers n"
  "a_deleteLock (patch_descriptive e p n) = a_deleteLock n"
  "a_storageTiering (patch_descriptive e p n) = a_storageTiering n"
  "a_reviewState (patch_descriptive e p n) = a_reviewState n"
  "a_sourceSizeBytes (patch_descriptive e p n) = a_sourceSizeBytes n"
  "a_packagedOutputStale (patch_descriptive e p n) = a_packagedOutputStale n"
  "a_packagingError (patch_descriptive e p n) = a_packagingError n"
  "a_thumbnailSizes (patch_descriptive e p n) = a_thumbnailSizes n"
  "a_parentId (patch_descriptive e p n) = a_parentId n"
  "a_objectKey (patch_descriptive e p n) = a_objectKey n"
  by (simp_all add: patch_defs split: option.splits)

lemma patch_scenes_frame [simp]:
  "a_status (patch_scenes p n) = a_status n" "a_statusHistory (patch_scenes p n) = a_statusHistory n"
  "a_id (patch_scenes p n) = a_id n" "a_externalIdentifiers (patch_scenes p n) = a_externalIdentifiers n"
  "a_deleteLock (patch_scenes p n) = a_deleteLock n"
  "a_storageTiering (patch_scenes p n) = a_storageTiering n"
  "a_reviewState (patch_scenes p n) = a_reviewState n"
  "a_sourceSizeBytes (patch_scenes p n) = a_sourceSizeBytes n"
  "a_packagedOutputStale (patch_scenes p n) = a_packagedOutputStale n"
  "a_packagingError (patch_scenes p n) = a_packagingError n"
  "a_thumbnailSizes (patch_scenes p n) = a_thumbnailSizes n" "a_tags (patch_scenes p n) = a_tags n"
  "a_parentId (patch_scenes p n) = a_parentId n" "a_objectKey (patch_scenes p n) = a_objectKey n"
  by (simp_all add: patch_defs split: option.splits)

lemma patch_links_frame [simp]:
  "a_status (patch_links p n) = a_status n" "a_statusHistory (patch_links p n) = a_statusHistory n"
  "a_id (patch_links p n) = a_id n" "a_externalIdentifiers (patch_links p n) = a_externalIdentifiers n"
  "a_deleteLock (patch_links p n) = a_deleteLock n"
  "a_storageTiering (patch_links p n) = a_storageTiering n"
  "a_reviewState (patch_links p n) = a_reviewState n"
  "a_sourceSizeBytes (patch_links p n) = a_sourceSizeBytes n"
  "a_packagedOutputStale (patch_links p n) = a_packagedOutputStale n"
  "a_packagingError (patch_links p n) = a_packagingError n"
  "a_thumbnailSizes (patch_links p n) = a_thumbnailSizes n" "a_tags (patch_links p n) = a_tags n"
  "a_parentId (patch_links p n) = a_parentId n" "a_objectKey (patch_links p n) = a_objectKey n"
  by (simp_all add: patch_defs split: option.splits)

lemma patch_provenance_frame [simp]:
  "a_status (patch_provenance e p now n) = a_status n"
  "a_statusHistory (patch_provenance e p now n) = a_statusHistory n"
  "a_id (patch_provenance e p now n) = a_id n"
  "a_externalIdentifiers (patch_provenance e p now n) = a_externalIdentifiers n"
  "a_deleteLock (patch_provenance e p now n) = a_deleteLock n"
  "a_storageTiering (patch_provenance e p now n) = a_storageTiering n"
  "a_reviewState (patch_provenance e p now n) = a_reviewState n"
  "a_sourceSizeBytes (patch_provenance e p now n) = a_sourceSizeBytes n"
  "a_packagedOutputStale (patch_provenance e p now n) = a_packagedOutputStale n"
  "a_packagingError (patch_provenance e p now n) = a_packagingError n"
  "a_thumbnailSizes (patch_provenance e p now n) = a_thumbnailSizes n"
  "a_tags (patch_provenance e p now n) = a_tags n" "a_parentId (patch_provenance e p now n) = a_parentId n"
  "a_objectKey (patch_provenance e p now n) = a_objectKey n"
  by (simp_all add: patch_provenance_def Let_def)

text \<open>What the rules do to the fields they own.\<close>

lemma patch_fields_sourceSize:
  "a_sourceSizeBytes (patch_fields e p n) = (case u_sourceSizeBytes p of
       Some v \<Rightarrow> if js_lt (Fin 0) v then Some v else None
     | None \<Rightarrow> if u_objectKey p \<noteq> None \<and> u_objectKey p \<noteq> a_objectKey e then None
         else a_sourceSizeBytes n)"
  by (auto simp: patch_fields_def patch_source_def split: option.splits)

lemma patch_fields_stale:
  "a_packagedOutputStale (patch_fields e p n) = (case u_packagedOutputStale p of
       Some v \<Rightarrow> if v then Some True else None
     | None \<Rightarrow> if u_manifestUrls p \<noteq> None then None else a_packagedOutputStale n)"
  by (simp add: patch_fields_def patch_packaging_def opt_set_def Let_def split: option.splits)

lemma patch_fields_thumbnailSizes:
  "a_thumbnailSizes (patch_fields e p n) = (case u_thumbnailSizes p of
       Some v \<Rightarrow> if v \<noteq> [] then Some v else None | None \<Rightarrow> a_thumbnailSizes n)"
  by (simp add: patch_fields_def patch_media_def opt_set_def Let_def split: option.splits)

lemma patch_fields_tags:
  "a_tags (patch_fields e p n) = (case u_tags p of
       Some v \<Rightarrow> Some (normalizeTags v) | None \<Rightarrow> a_tags n)"
  by (simp add: patch_fields_def patch_descriptive_def opt_set_def Let_def split: option.splits)

lemma patch_fields_objectKey:
  "a_objectKey (patch_fields e p n) = (case u_objectKey p of None \<Rightarrow> a_objectKey n | k \<Rightarrow> k)"
  by (simp add: patch_fields_def)

lemmas patch_fields_owned = patch_fields_sourceSize patch_fields_stale
  patch_fields_thumbnailSizes patch_fields_tags patch_fields_objectKey

lemma patch_fields_frame [simp]:
  "a_status (patch_fields e p n) = a_status n" "a_statusHistory (patch_fields e p n) = a_statusHistory n"
  "a_id (patch_fields e p n) = a_id n" "a_externalIdentifiers (patch_fields e p n) = a_externalIdentifiers n"
  "a_deleteLock (patch_fields e p n) = a_deleteLock n"
  "a_storageTiering (patch_fields e p n) = a_storageTiering n"
  "a_reviewState (patch_fields e p n) = a_reviewState n"
  "a_parentId (patch_fields e p n) = a_parentId n"
  by (simp_all add: patch_fields_def)

lemma patch_asset_cases:
  assumes "patch_asset e p now = Inr n"
  obtains "u_status p = None"
      "n = patch_provenance e p now (patch_fields e p (e\<lparr> a_updatedAt := now \<rparr>))"
  | s s' h' where "u_status p = Some s"
      "applyStatus (a_status e) s (a_statusHistory e) now (u_statusReason p) = Inr (s', h')"
      "n = patch_provenance e p now ((patch_fields e p (e\<lparr> a_updatedAt := now \<rparr>))
             \<lparr> a_status := s', a_statusHistory := h' \<rparr>)"
  using assms by (auto simp: patch_asset_def Let_def split: option.splits sum.splits)

lemma patch_asset_frame:
  assumes "patch_asset e p now = Inr n"
  shows "a_id n = a_id e" "a_externalIdentifiers n = a_externalIdentifiers e"
    "a_deleteLock n = a_deleteLock e" "a_storageTiering n = a_storageTiering e"
    "a_reviewState n = a_reviewState e" "a_parentId n = a_parentId e"
    "a_sourceSizeBytes n = a_sourceSizeBytes (patch_fields e p e)"
    "a_packagedOutputStale n = a_packagedOutputStale (patch_fields e p e)"
    "a_thumbnailSizes n = a_thumbnailSizes (patch_fields e p e)"
    "a_tags n = a_tags (patch_fields e p e)"
    "a_objectKey n = a_objectKey (patch_fields e p e)"
proof -
  obtain m where m: "n = patch_provenance e p now m"
    "m = patch_fields e p (e\<lparr> a_updatedAt := now \<rparr>) \<or>
     (\<exists>s h. m = (patch_fields e p (e\<lparr> a_updatedAt := now \<rparr>))\<lparr> a_status := s, a_statusHistory := h \<rparr>)"
    using assms by (cases rule: patch_asset_cases) blast+
  show "a_id n = a_id e" using m(2) by (auto simp: m(1))
  show "a_externalIdentifiers n = a_externalIdentifiers e" using m(2) by (auto simp: m(1))
  show "a_deleteLock n = a_deleteLock e" using m(2) by (auto simp: m(1))
  show "a_storageTiering n = a_storageTiering e" using m(2) by (auto simp: m(1))
  show "a_reviewState n = a_reviewState e" using m(2) by (auto simp: m(1))
  show "a_parentId n = a_parentId e" using m(2) by (auto simp: m(1))
  show "a_sourceSizeBytes n = a_sourceSizeBytes (patch_fields e p e)"
    using m(2) by (elim disjE exE) (simp_all add: m(1) patch_fields_sourceSize cong: option.case_cong if_cong)
  show "a_packagedOutputStale n = a_packagedOutputStale (patch_fields e p e)"
    using m(2) by (elim disjE exE) (simp_all add: m(1) patch_fields_stale cong: option.case_cong)
  show "a_thumbnailSizes n = a_thumbnailSizes (patch_fields e p e)"
    using m(2) by (elim disjE exE) (simp_all add: m(1) patch_fields_thumbnailSizes cong: option.case_cong)
  show "a_tags n = a_tags (patch_fields e p e)"
    using m(2) by (elim disjE exE) (simp_all add: m(1) patch_fields_tags cong: option.case_cong)
  show "a_objectKey n = a_objectKey (patch_fields e p e)"
    using m(2) by (elim disjE exE) (simp_all add: m(1) patch_fields_objectKey cong: option.case_cong)
qed

lemma asset_ok_patch:
  assumes "asset_ok e" "patch_asset e p now = Inr n"
  shows "asset_ok n"
proof -
  have life: "lifecycle (a_statusHistory n) (a_status n)"
    using assms(2)
  proof (cases rule: patch_asset_cases)
    case 2
    then show ?thesis using assms(1) lifecycle_applyStatus by (auto simp: asset_ok_def)
  qed (use assms(1) in \<open>simp add: asset_ok_def\<close>)
  show ?thesis using assms(1) life
    unfolding asset_ok_def patch_asset_frame [OF assms(2)] patch_fields_owned
    by (auto split: option.splits if_splits)
qed

lemma distinct_beginRehydrate:
  assumes "\<And>t. existing = Some t \<Longrightarrow> distinct (map rh_byteClass (rehydrating t))"
  shows "distinct (map rh_byteClass (rehydrating (beginRehydrate existing bc now)))"
  using assms by (cases existing)
    (auto simp: beginRehydrate_def Let_def list_ex_iff defaultStorageTiering_def)

lemma distinct_completeRehydrate:
  assumes "\<And>t. existing = Some t \<Longrightarrow> distinct (map rh_byteClass (rehydrating t))"
  shows "distinct (map rh_byteClass (rehydrating (completeRehydrate existing bc)))"
  using assms by (cases existing)
    (auto simp: completeRehydrate_def Let_def defaultStorageTiering_def distinct_map_filter)

end
