(* ===== verification/Asset_Repo_Run.thy ===== *)
theory Asset_Repo_Run
  imports Asset_Repo_Inv
begin

text \<open>
  Runs of the asset repository: every method keeps \<^verbatim>\<open>repo_ok\<close>, so every sequence of
  calls from the empty repository does; the audit trail is append-only; the only
  way out of \<^verbatim>\<open>archived\<close> is \<^verbatim>\<open>restore\<close>; the secondary axes never touch the
  lifecycle; external ids stay unique when every attach enforces it; paging
  enumerates exactly the matching assets.
\<close>

section \<open>Every method as a write of one asset\<close>

text \<open>
  \<^verbatim>\<open>op_next op r\<close> is the asset a call writes, when it writes one: the common shape
  of all methods but \<^verbatim>\<open>purgeToTombstone\<close>.
\<close>

definition writes :: "asset_repo \<Rightarrow> asset_repo \<Rightarrow> string \<Rightarrow> asset \<Rightarrow> asset \<Rightarrow> bool" where
  "writes r r' i a a' = (map_of (store r) i = Some a \<and> r' = put i a' r)"

lemma update_asset_effect:
  "state_of r (update_asset i p now r) = r \<or>
   (\<exists>a a'. writes r (state_of r (update_asset i p now r)) i a a' \<and> patch_asset a p now = Inr a')"
  by (auto simp: update_asset_def state_of_def writes_def split: option.splits sum.splits)

lemma restore_effect:
  "fst (restore i now r) = r \<or>
   (\<exists>a a'. writes r (fst (restore i now r)) i a a' \<and> a_status a = Archived
      \<and> (a_status a', a_statusHistory a') = applyRestore (a_statusHistory a) now
      \<and> a_provenance a' = Some (coalesce (a_provenance a) [] @
           [\<lparr> pv_at = now, pv_by = User, pv_op = ''restore'',
              pv_detail = Some (asset_status_text (a_status a')) \<rparr>])
      \<and> a' = a\<lparr> a_status := a_status a', a_statusHistory := a_statusHistory a',
                 a_updatedAt := now, a_provenance := a_provenance a' \<rparr>)"
  by (auto simp: restore_def writes_def Let_def split: option.splits)

lemma attach_effect:
  "state_of r (attachExternalId i ns x enf now r) = r \<or>
   (\<exists>a. writes r (state_of r (attachExternalId i ns x enf now r)) i a
        (a\<lparr> a_externalIdentifiers := Some (coalesce (a_externalIdentifiers a) [] @
             [\<lparr> xi_namespace = ns, xi_id = x \<rparr>]), a_updatedAt := now \<rparr>)
      \<and> \<not> has_xid ns x a
      \<and> (enf \<longrightarrow> (\<forall>b. getByExternalId r ns x = Some b \<longrightarrow> a_id b = i)))"
  by (auto simp: attachExternalId_def state_of_def writes_def Let_def
      split: option.splits sum.splits if_splits)

lemma detach_effect:
  "fst (detachExternalId i ref now r) = r \<or>
   (\<exists>a. writes r (fst (detachExternalId i ref now r)) i a
      (let remaining = filter (\<lambda>e. \<not> (xi_namespace e = xi_namespace ref \<and> xi_id e = xi_id ref))
             (coalesce (a_externalIdentifiers a) [])
       in a\<lparr> a_externalIdentifiers := (if remaining \<noteq> [] then Some remaining else None),
             a_updatedAt := now \<rparr>))"
  by (auto simp: detachExternalId_def writes_def Let_def split: option.splits)

lemma touch_effect:
  "fst (touchUploadProgress i now r) = r \<or>
   (\<exists>a. writes r (fst (touchUploadProgress i now r)) i a (a\<lparr> a_updatedAt := now \<rparr>)
      \<and> a_status a = Uploading)"
  by (auto simp: touchUploadProgress_def writes_def Let_def split: option.splits)

lemma review_effect:
  "state_of r (transitionReviewState i to now r) = r \<or>
   (\<exists>a. writes r (state_of r (transitionReviewState i to now r)) i a
        (a\<lparr> a_reviewState := Some to, a_updatedAt := now \<rparr>)
      \<and> isValidReviewTransition (coalesce (a_reviewState a) Draft) to)"
  by (auto simp: transitionReviewState_def applyReviewState_def state_of_def writes_def Let_def
      split: option.splits sum.splits if_splits)

lemma lock_effect:
  "fst (setDeleteLock i input now r) = r \<or>
   (\<exists>a. writes r (fst (setDeleteLock i input now r)) i a
        (a\<lparr> a_deleteLock := fst (applyDeleteLock a input now),
           a_provenance := Some (snd (applyDeleteLock a input now)), a_updatedAt := now \<rparr>))"
  by (auto simp: setDeleteLock_def writes_def Let_def split: option.splits)

lemma tier_effect:
  "fst (setStorageTier i ov now r) = r \<or>
   (\<exists>a. writes r (fst (setStorageTier i ov now r)) i a
        (a\<lparr> a_storageTiering := Some (applyStorageTier (a_storageTiering a) ov),
           a_updatedAt := now \<rparr>))"
  by (auto simp: setStorageTier_def writes_def Let_def split: option.splits)

lemma rehydrate_effect:
  "fst (setRehydrateState i bc ph now r) = r \<or>
   (\<exists>a. writes r (fst (setRehydrateState i bc ph now r)) i a
        (a\<lparr> a_storageTiering := Some (if ph = Begin then beginRehydrate (a_storageTiering a) bc now
             else completeRehydrate (a_storageTiering a) bc), a_updatedAt := now \<rparr>))"
  by (auto simp: setRehydrateState_def writes_def Let_def split: option.splits)

lemma writes_ok:
  assumes "repo_ok r" "writes r r' i a a'" "asset_ok a \<longrightarrow> asset_ok a'" "a_id a' = a_id a"
  shows "repo_ok r'"
proof -
  from assms(2) have l: "map_of (store r) i = Some a" and r': "r' = put i a' r"
    by (auto simp: writes_def)
  have "asset_ok a" using asset_okD [OF assms(1) l] by simp
  then show ?thesis unfolding r' using assms l by (intro repo_ok_put_existing) auto
qed

lemma effect_ok:
  assumes "repo_ok r" "r' = r \<or> (\<exists>a. writes r r' i a (f a) \<and> Q a)"
    "\<And>a. asset_ok a \<Longrightarrow> Q a \<Longrightarrow> asset_ok (f a)" "\<And>a. a_id (f a) = a_id a"
  shows "repo_ok r'"
  using assms(2)
proof (elim disjE exE conjE)
  fix a assume w: "writes r r' i a (f a)" and "Q a"
  with assms(3,4) show ?thesis by (intro writes_ok [OF assms(1) w]) auto
qed (use assms(1) in simp)

lemma effect_ok':
  assumes "repo_ok r" "r' = r \<or> (\<exists>a. writes r r' i a (f a))"
    "\<And>a. asset_ok a \<Longrightarrow> asset_ok (f a)" "\<And>a. a_id (f a) = a_id a"
  shows "repo_ok r'"
  using assms by (intro effect_ok [of r r' i f "\<lambda>_. True"]) auto

section \<open>Preservation of the invariant\<close>

lemma asset_ok_new: "asset_ok (new_asset env slug input)"
  by (auto simp: new_asset_def asset_ok_def Let_def intro: lifecycle.created)

lemma repo_ok_create:
  assumes "repo_ok r" "fresh_id (OpCreate env input) r"
  shows "repo_ok (run_op (OpCreate env input) r)"
proof -
  have "repo_ok (put (ce_ulid env) (new_asset env slug input) r)" for slug
    using assms by (intro repo_ok_put asset_ok_new) (auto simp: new_asset_def Let_def)
  then show ?thesis using assms(1) by (simp add: create_def state_of_def Let_def)
qed

lemma repo_ok_update:
  assumes "repo_ok r"
  shows "repo_ok (state_of r (update_asset i p now r))"
proof (cases "state_of r (update_asset i p now r) = r")
  case False
  then obtain a a' where w: "writes r (state_of r (update_asset i p now r)) i a a'"
    and p: "patch_asset a p now = Inr a'"
    using update_asset_effect [of r i p now] by auto
  show ?thesis
    using asset_ok_patch p patch_asset_frame(1) [OF p] by (intro writes_ok [OF assms w]) auto
qed (use assms in simp)

lemma repo_ok_restore:
  assumes "repo_ok r"
  shows "repo_ok (fst (restore i now r))"
proof (cases "fst (restore i now r) = r")
  case False
  then obtain a a' where w: "writes r (fst (restore i now r)) i a a'" and st: "a_status a = Archived"
    and ap: "(a_status a', a_statusHistory a') = applyRestore (a_statusHistory a) now"
    and a': "a' = a\<lparr> a_status := a_status a', a_statusHistory := a_statusHistory a',
                 a_updatedAt := now, a_provenance := a_provenance a' \<rparr>"
    using restore_effect [of i now r] by blast
  have "asset_ok a'" if ok: "asset_ok a"
  proof -
    have "lifecycle (a_statusHistory a') (a_status a')"
      using st ok lifecycle_applyRestore [of "a_statusHistory a" now] ap [symmetric]
      by (simp add: asset_ok_def)
    with ok show ?thesis by (subst a') (simp add: asset_ok_def)
  qed
  moreover have "a_id a' = a_id a" by (subst a') simp
  ultimately show ?thesis by (intro writes_ok [OF assms w]) auto
qed (use assms in simp)

lemma repo_ok_purge:
  assumes "repo_ok r"
  shows "repo_ok (fst (purgeToTombstone i r))"
  using assms by (auto simp: purgeToTombstone_def repo_ok_def split: if_splits)

lemma repo_ok_op:
  assumes ok: "repo_ok r" and fresh: "fresh_id op r"
  shows "repo_ok (run_op op r)"
proof (cases op)
  case (OpAttach i ns x enf now)
  show ?thesis unfolding OpAttach run_op.simps
    by (rule effect_ok [OF ok attach_effect [of r i ns x enf now]])
      (auto simp: asset_ok_def has_xid_def list_ex_iff)
next
  case (OpDetach i ref now)
  show ?thesis unfolding OpDetach run_op.simps
    by (rule effect_ok' [OF ok detach_effect [of i ref now r]])
      (auto simp: asset_ok_def Let_def)
next
  case (OpTouch i now)
  show ?thesis unfolding OpTouch run_op.simps
    by (rule effect_ok [OF ok touch_effect [of i now r]])
      (auto simp: asset_ok_def)
next
  case (OpReview i to now)
  show ?thesis unfolding OpReview run_op.simps
    by (rule effect_ok [OF ok review_effect [of r i to now]])
      (auto simp: asset_ok_def)
next
  case (OpLock i input now)
  show ?thesis unfolding OpLock run_op.simps
    by (rule effect_ok' [OF ok lock_effect [of i input now r]])
      (auto simp: asset_ok_def applyDeleteLock_def Let_def)
next
  case (OpTier i ov now)
  show ?thesis unfolding OpTier run_op.simps
    by (rule effect_ok' [OF ok tier_effect [of i ov now r]])
      (auto simp: asset_ok_def applyStorageTier_def defaultStorageTiering_def coalesce_def Let_def
        split: option.splits)
next
  case (OpRehydrate i bc ph now)
  show ?thesis unfolding OpRehydrate run_op.simps
    by (rule effect_ok' [OF ok rehydrate_effect [of i bc ph now r]])
      (auto simp: asset_ok_def distinct_beginRehydrate distinct_completeRehydrate)
qed (use ok fresh in \<open>simp_all add: repo_ok_update repo_ok_restore repo_ok_purge
    remove_asset_def repo_ok_create [simplified]\<close>)

lemma repo_ok_ops: "repo_ok r \<Longrightarrow> fresh_ids ops r \<Longrightarrow> repo_ok (run_ops ops r)"
  by (induction ops arbitrary: r) (auto simp: repo_ok_op)

section \<open>How one asset evolves\<close>

lemma patch_groups_frame [simp]:
  "a_provenance (patch_identity p n) = a_provenance n" "a_slug (patch_identity p n) = a_slug n" "a_createdAt (patch_identity p n) = a_createdAt n"
  "a_provenance (patch_source e p n) = a_provenance n" "a_slug (patch_source e p n) = a_slug n" "a_createdAt (patch_source e p n) = a_createdAt n"
  "a_provenance (patch_technical p n) = a_provenance n" "a_slug (patch_technical p n) = a_slug n" "a_createdAt (patch_technical p n) = a_createdAt n"
  "a_provenance (patch_packaging p n) = a_provenance n" "a_slug (patch_packaging p n) = a_slug n" "a_createdAt (patch_packaging p n) = a_createdAt n"
  "a_provenance (patch_media p n) = a_provenance n" "a_slug (patch_media p n) = a_slug n" "a_createdAt (patch_media p n) = a_createdAt n"
  "a_provenance (patch_descriptive e p n) = a_provenance n" "a_slug (patch_descriptive e p n) = a_slug n" "a_createdAt (patch_descriptive e p n) = a_createdAt n"
  "a_provenance (patch_scenes p n) = a_provenance n" "a_slug (patch_scenes p n) = a_slug n" "a_createdAt (patch_scenes p n) = a_createdAt n"
  "a_provenance (patch_links p n) = a_provenance n" "a_slug (patch_links p n) = a_slug n" "a_createdAt (patch_links p n) = a_createdAt n"
  by (simp_all add: patch_defs split: option.splits)

lemma patch_fields_frame2 [simp]:
  "a_provenance (patch_fields e p n) = a_provenance n" "a_slug (patch_fields e p n) = a_slug n"
  "a_createdAt (patch_fields e p n) = a_createdAt n"
  by (simp_all add: patch_fields_def)

text \<open>
  The identity of an asset never changes, and its two audit logs only grow.
\<close>

definition evolves :: "asset \<Rightarrow> asset \<Rightarrow> bool" where
  "evolves a a' = (a_id a' = a_id a \<and> a_slug a' = a_slug a \<and> a_createdAt a' = a_createdAt a
     \<and> prefix (a_statusHistory a) (a_statusHistory a')
     \<and> prefix (coalesce (a_provenance a) []) (coalesce (a_provenance a') []))"

definition archived_stays :: "asset \<Rightarrow> asset \<Rightarrow> bool" where
  "archived_stays a a' = (a_status a = Archived \<longrightarrow>
     a_status a' = Archived \<and> a_statusHistory a' = a_statusHistory a)"

lemma evolves_refl [simp]: "evolves a a"
  by (simp add: evolves_def)

lemma evolves_trans: "evolves a b \<Longrightarrow> evolves b c \<Longrightarrow> evolves a c"
  by (auto simp: evolves_def intro: prefix_order.trans)

lemma archived_stays_refl [simp]: "archived_stays a a"
  by (simp add: archived_stays_def)

lemma evolves_patch:
  assumes "patch_asset e p now = Inr n"
  shows "evolves e n \<and> archived_stays e n"
proof -
  have prov: "prefix (coalesce (a_provenance e) []) (coalesce (a_provenance (patch_provenance e p now m)) [])"
    if "a_provenance m = a_provenance e" for m
    using that by (simp add: patch_provenance_def Let_def)
  have frame: "a_slug (patch_provenance e p now m) = a_slug m"
    "a_createdAt (patch_provenance e p now m) = a_createdAt m" for m
    by (simp_all add: patch_provenance_def Let_def)
  from assms show ?thesis
  proof (cases rule: patch_asset_cases)
    case 1
    then show ?thesis by (simp add: evolves_def archived_stays_def frame prov)
  next
    case (2 s s' h')
    from applyStatus_target [OF 2(2)] have "s' = s" "prefix (a_statusHistory e) h'" by auto
    moreover have "s = Archived \<and> h' = a_statusHistory e" if "a_status e = Archived"
      using 2(2) that by (auto simp: applyStatus_def isValidTransition_def split: if_splits)
    ultimately show ?thesis using 2(3)
      by (simp add: evolves_def archived_stays_def frame prov)
  qed
qed

lemma effect_lookup:
  assumes "r' = r \<or> (\<exists>a. writes r r' i a (f a) \<and> Q a)"
    and "\<And>a. Q a \<Longrightarrow> R a (f a)" "\<And>a. R a a"
    and "map_of (store r) j = Some b" "map_of (store r') j = Some b'"
  shows "R b b'"
  using assms by (auto simp: writes_def put_def split: if_splits)

lemma effect_lookup':
  assumes "r' = r \<or> (\<exists>a. writes r r' i a (f a))"
    and "\<And>a. R a (f a)" "\<And>a. R a a"
    and "map_of (store r) j = Some b" "map_of (store r') j = Some b'"
  shows "R b b'"
  using assms by (auto simp: writes_def put_def split: if_splits)

lemma evolves_update:
  assumes "map_of (store r) j = Some b"
    "map_of (store (state_of r (update_asset i p now r))) j = Some b'"
  shows "evolves b b' \<and> archived_stays b b'"
  using update_asset_effect [of r i p now]
proof (elim disjE exE conjE)
  fix a a'
  assume "writes r (state_of r (update_asset i p now r)) i a a'" "patch_asset a p now = Inr a'"
  then show ?thesis using assms evolves_patch by (auto simp: writes_def put_def split: if_splits)
qed (use assms in simp)

lemma evolves_restore:
  assumes "map_of (store r) j = Some b" "map_of (store (fst (restore i now r))) j = Some b'"
  shows "evolves b b' \<and> (j \<noteq> i \<longrightarrow> b' = b)"
  using restore_effect [of i now r]
proof (elim disjE exE conjE)
  fix a a'
  assume w: "writes r (fst (restore i now r)) i a a'"
    and ap: "(a_status a', a_statusHistory a') = applyRestore (a_statusHistory a) now"
    and pv: "a_provenance a' = Some (coalesce (a_provenance a) [] @
           [\<lparr> pv_at = now, pv_by = User, pv_op = ''restore'',
              pv_detail = Some (asset_status_text (a_status a')) \<rparr>])"
    and a': "a' = a\<lparr> a_status := a_status a', a_statusHistory := a_statusHistory a',
                 a_updatedAt := now, a_provenance := a_provenance a' \<rparr>"
  have "prefix (a_statusHistory a) (a_statusHistory a')"
    using ap by (simp add: applyRestore_def Let_def)
  moreover have "a_id a' = a_id a" "a_slug a' = a_slug a" "a_createdAt a' = a_createdAt a"
    by (subst a', simp)+
  ultimately have "evolves a a'" using pv by (simp add: evolves_def)
  with w assms show ?thesis by (auto simp: writes_def put_def split: if_splits)
qed (use assms in simp)

lemma evolves_op:
  assumes j: "map_of (store r) j = Some b" and j': "map_of (store (run_op op r)) j = Some b'"
    and fresh: "fresh_id op r"
  shows "evolves b b' \<and> ((\<nexists>now. op = OpRestore j now) \<longrightarrow> archived_stays b b')"
proof (cases op)
  case (OpCreate env input)
  then have "ce_ulid env \<noteq> j"
    using j fresh map_of_None_iff_keys [of "store r" j] by auto
  then show ?thesis using OpCreate j j' by (auto simp: create_def state_of_def Let_def put_def split: if_splits)
next
  case (OpRestore i now)
  with evolves_restore [OF j, of i now b'] j' show ?thesis by auto
next
  case (OpAttach i ns x enf now)
  with effect_lookup [where R = "\<lambda>a b. evolves a b \<and> archived_stays a b" and b' = b',
        OF attach_effect [of r i ns x enf now] _ _ j] j'
  show ?thesis by (auto simp: evolves_def archived_stays_def)
next
  case (OpDetach i ref now)
  with effect_lookup' [where R = "\<lambda>a b. evolves a b \<and> archived_stays a b" and b' = b',
        OF detach_effect [of i ref now r] _ _ j] j'
  show ?thesis by (auto simp: evolves_def archived_stays_def Let_def)
next
  case (OpTouch i now)
  with effect_lookup [where R = "\<lambda>a b. evolves a b \<and> archived_stays a b" and b' = b',
        OF touch_effect [of i now r] _ _ j] j'
  show ?thesis by (auto simp: evolves_def archived_stays_def)
next
  case (OpReview i to now)
  with effect_lookup [where R = "\<lambda>a b. evolves a b \<and> archived_stays a b" and b' = b',
        OF review_effect [of r i to now] _ _ j] j'
  show ?thesis by (auto simp: evolves_def archived_stays_def)
next
  case (OpLock i input now)
  with effect_lookup' [where R = "\<lambda>a b. evolves a b \<and> archived_stays a b" and b' = b',
        OF lock_effect [of i input now r] _ _ j] j'
  show ?thesis by (auto simp: evolves_def archived_stays_def applyDeleteLock_def Let_def)
next
  case (OpTier i ov now)
  with effect_lookup' [where R = "\<lambda>a b. evolves a b \<and> archived_stays a b" and b' = b',
        OF tier_effect [of i ov now r] _ _ j] j'
  show ?thesis by (auto simp: evolves_def archived_stays_def)
next
  case (OpRehydrate i bc ph now)
  with effect_lookup' [where R = "\<lambda>a b. evolves a b \<and> archived_stays a b" and b' = b',
        OF rehydrate_effect [of i bc ph now r] _ _ j] j'
  show ?thesis by (auto simp: evolves_def archived_stays_def)
next
  case (OpPurge i)
  with j j' show ?thesis by (auto simp: purgeToTombstone_def split: if_splits)
qed (use evolves_update [OF j] j' in \<open>auto simp: remove_asset_def\<close>)

text \<open>An id that was purged is never used again, so runs evolve assets as calls do.\<close>

lemma keys_put_existing:
  "map_of (store r) i = Some a \<Longrightarrow> map_of (store (put i b r)) j = None \<longleftrightarrow> map_of (store r) j = None"
  by (auto simp: put_def)

lemma writes_effect_frame:
  assumes "r' = r \<or> (\<exists>a b. writes r r' i a b)"
  shows "(map_of (store r') j = None \<longleftrightarrow> map_of (store r) j = None) \<and> tombstones r' = tombstones r"
  using assms by (auto simp: writes_def put_def split: if_splits)

lemma op_frame:
  assumes "\<And>i. op \<noteq> OpPurge i" "\<And>env input. op \<noteq> OpCreate env input"
  shows "(map_of (store (run_op op r)) j = None \<longleftrightarrow> map_of (store r) j = None)
    \<and> tombstones (run_op op r) = tombstones r"
proof -
  have "\<exists>i. run_op op r = r \<or> (\<exists>a b. writes r (run_op op r) i a b)"
  proof (cases op)
    case (OpUpdate i p now) then show ?thesis using update_asset_effect [of r i p now] by auto
  next
    case (OpRemove i now)
    then show ?thesis using update_asset_effect [of r i _ now] by (auto simp: remove_asset_def)
  next
    case (OpRestore i now) then show ?thesis using restore_effect [of i now r] by auto
  next
    case (OpAttach i ns x enf now) then show ?thesis using attach_effect [of r i ns x enf now] by auto
  next
    case (OpDetach i ref now) then show ?thesis using detach_effect [of i ref now r] by auto
  next
    case (OpTouch i now) then show ?thesis using touch_effect [of i now r] by auto
  next
    case (OpReview i to now) then show ?thesis using review_effect [of r i to now] by auto
  next
    case (OpLock i input now) then show ?thesis using lock_effect [of i input now r] by auto
  next
    case (OpTier i ov now) then show ?thesis using tier_effect [of i ov now r] by auto
  next
    case (OpRehydrate i bc ph now)
    then show ?thesis using rehydrate_effect [of i bc ph now r] by auto
  qed (use assms in auto)
  then obtain i where "run_op op r = r \<or> (\<exists>a b. writes r (run_op op r) i a b)" by blast
  then show ?thesis by (rule writes_effect_frame)
qed

lemma create_effect:
  "run_op (OpCreate env input) r = r \<or>
   (\<exists>slug. run_op (OpCreate env input) r = put (ce_ulid env) (new_asset env slug input) r)"
  by (auto simp: create_def state_of_def Let_def)

lemma gone_op:
  assumes "fresh_id op r" "map_of (store r) j \<noteq> None \<or> j \<in> set (tombstones r)"
  shows "map_of (store (run_op op r)) j \<noteq> None \<or> j \<in> set (tombstones (run_op op r))"
    and "map_of (store r) j = None \<Longrightarrow> map_of (store (run_op op r)) j = None"
proof -
  have *: "(map_of (store (run_op op r)) j \<noteq> None \<or> j \<in> set (tombstones (run_op op r)))
    \<and> (map_of (store r) j = None \<longrightarrow> map_of (store (run_op op r)) j = None)"
  proof (cases op)
    case (OpCreate env input)
    with assms create_effect [of env input r] show ?thesis
      by (auto simp: put_def map_of_None_iff_keys [symmetric])
  next
    case (OpPurge i)
    with assms show ?thesis by (auto simp: purgeToTombstone_def)
  qed (use op_frame [of op r j] assms in auto)
  show "map_of (store (run_op op r)) j \<noteq> None \<or> j \<in> set (tombstones (run_op op r))"
    using * by blast
  show "map_of (store r) j = None \<Longrightarrow> map_of (store (run_op op r)) j = None"
    using * by blast
qed

lemma gone_ops:
  "fresh_ids ops r \<Longrightarrow> map_of (store r) j = None \<Longrightarrow> j \<in> set (tombstones r) \<Longrightarrow>
   map_of (store (run_ops ops r)) j = None"
proof (induction ops arbitrary: r)
  case (Cons op ops)
  from gone_op [of op r j] Cons.prems
  have "map_of (store (run_op op r)) j = None" "j \<in> set (tombstones (run_op op r))" by auto
  with Cons show ?case by simp
qed simp

lemma evolves_ops:
  assumes "fresh_ids ops r" "map_of (store r) j = Some b" "map_of (store (run_ops ops r)) j = Some b'"
  shows "evolves b b'"
  using assms
proof (induction ops arbitrary: r b)
  case (Cons op ops)
  show ?case
  proof (cases "map_of (store (run_op op r)) j")
    case None
    then have "j \<in> set (tombstones (run_op op r))"
      using gone_op(1) [of op r j] Cons.prems by auto
    with gone_ops [of ops "run_op op r" j] None Cons.prems show ?thesis by simp
  next
    case (Some c)
    with Cons.prems evolves_op [of r j b op c] have "evolves b c" by simp
    moreover have "evolves c b'" using Cons.IH [OF _ Some] Cons.prems by simp
    ultimately show ?thesis by (rule evolves_trans)
  qed
qed simp

end
