(* ===== verification/Asset_Props.thy ===== *)
theory Asset_Props
  imports Asset_Repo_Run
begin

text \<open>
  The properties of the asset repository: stated over whole runs of method calls
  where the guarantee is about a history, over one call where it is about an
  operation.
\<close>

section \<open>External identifiers\<close>

definition xid_unique :: "asset_repo \<Rightarrow> bool" where
  "xid_unique r = (\<forall>i j a b ns x. map_of (store r) i = Some a \<longrightarrow> map_of (store r) j = Some b \<longrightarrow>
     has_xid ns x a \<longrightarrow> has_xid ns x b \<longrightarrow> i = j)"

fun enforces :: "asset_op \<Rightarrow> bool" where
  "enforces (OpAttach i ns x enf now) = enf"
| "enforces op = True"

text \<open>A call brings no external id to an asset, except the attach that names it.\<close>

definition xid_from :: "asset \<Rightarrow> asset \<Rightarrow> bool" where
  "xid_from a a' = (\<forall>ns x. has_xid ns x a' \<longrightarrow> has_xid ns x a)"

lemma xid_from_refl [simp]: "xid_from a a"
  by (simp add: xid_from_def)

lemma xid_from_same: "a_externalIdentifiers a' = a_externalIdentifiers a \<Longrightarrow> xid_from a a'"
  by (simp add: xid_from_def has_xid_def)

lemma xid_from_remaining:
  fixes a :: asset
  shows "xid_from a (a\<lparr> a_externalIdentifiers :=
     (if filter P (coalesce (a_externalIdentifiers a) []) \<noteq> []
      then Some (filter P (coalesce (a_externalIdentifiers a) [])) else None),
     a_updatedAt := now \<rparr>)"
  by (auto simp: xid_from_def has_xid_def list_ex_iff)

lemma xid_from_op:
  assumes j: "map_of (store r) j = Some b" and j': "map_of (store (run_op op r)) j = Some b'"
    and fresh: "fresh_id op r" and att: "\<And>i ns x enf now. op \<noteq> OpAttach i ns x enf now"
  shows "xid_from b b'"
proof (cases op)
  case (OpCreate env input)
  then have "ce_ulid env \<noteq> j"
    using j fresh map_of_None_iff_keys [of "store r" j] by auto
  with OpCreate j j' create_effect [of env input r] show ?thesis
    by (auto simp: put_def)
next
  case (OpUpdate i p now)
  with update_asset_effect [of r i p now] j j' show ?thesis
    by (auto simp: writes_def put_def patch_asset_frame xid_from_same split: if_splits)
next
  case (OpRemove i now)
  with update_asset_effect [of r i "empty_patch\<lparr> u_status := Some Archived \<rparr>" now] j j'
  show ?thesis
    by (auto simp: remove_asset_def writes_def put_def patch_asset_frame xid_from_same
        split: if_splits)
next
  case (OpRestore i now)
  from restore_effect [of i now r] show ?thesis
  proof (elim disjE exE conjE)
    fix a a'
    assume w: "writes r (fst (restore i now r)) i a a'"
      and a': "a' = a\<lparr> a_status := a_status a', a_statusHistory := a_statusHistory a',
                 a_updatedAt := now, a_provenance := a_provenance a' \<rparr>"
    have "a_externalIdentifiers a' = a_externalIdentifiers a" by (subst a') simp
    with w OpRestore j j' show ?thesis
      by (auto simp: writes_def put_def xid_from_same split: if_splits)
  qed (use OpRestore j j' in simp)
next
  case (OpDetach i ref now)
  with effect_lookup' [where R = xid_from and b' = b', OF detach_effect [of i ref now r] _ _ j] j'
  show ?thesis by (simp add: Let_def xid_from_remaining)
next
  case (OpTouch i now)
  with effect_lookup [where R = xid_from and b' = b', OF touch_effect [of i now r] _ _ j] j'
  show ?thesis by (auto simp: xid_from_same)
next
  case (OpReview i to now)
  with effect_lookup [where R = xid_from and b' = b', OF review_effect [of r i to now] _ _ j] j'
  show ?thesis by (auto simp: xid_from_same)
next
  case (OpLock i input now)
  with effect_lookup' [where R = xid_from and b' = b', OF lock_effect [of i input now r] _ _ j] j'
  show ?thesis by (auto simp: xid_from_same)
next
  case (OpTier i ov now)
  with effect_lookup' [where R = xid_from and b' = b', OF tier_effect [of i ov now r] _ _ j] j'
  show ?thesis by (auto simp: xid_from_same)
next
  case (OpRehydrate i bc ph now)
  with effect_lookup' [where R = xid_from and b' = b', OF rehydrate_effect [of i bc ph now r] _ _ j] j'
  show ?thesis by (auto simp: xid_from_same)
next
  case (OpPurge i)
  with j j' show ?thesis by (auto simp: purgeToTombstone_def split: if_splits)
qed (use att in blast)

lemma new_asset_no_xid [simp]: "\<not> has_xid ns x (new_asset env slug input)"
  by (simp add: new_asset_def has_xid_def Let_def)

text \<open>Where the id came from, for any call but an attach.\<close>

lemma xid_origin:
  assumes "map_of (store (run_op op r)) j = Some b'" "has_xid ns x b'" "fresh_id op r"
    "\<And>i ns x enf now. op \<noteq> OpAttach i ns x enf now"
  shows "\<exists>b. map_of (store r) j = Some b \<and> has_xid ns x b"
proof (cases "map_of (store r) j")
  case None
  show ?thesis
  proof (cases op)
    case (OpCreate env input)
    with assms(1,2) None create_effect [of env input r] show ?thesis
      by (auto simp: put_def split: if_splits)
  next
    case (OpPurge i)
    with assms(1) None show ?thesis by (auto simp: purgeToTombstone_def split: if_splits)
  qed (use op_frame [of op r j] assms(1) None in auto)
next
  case (Some b)
  with xid_from_op [OF Some assms(1,3,4)] assms(2) show ?thesis by (auto simp: xid_from_def)
qed

lemma nobody_has:
  assumes "repo_ok r" "map_of (store r) i = Some a" "\<not> has_xid ns x a"
    "\<And>b. getByExternalId r ns x = Some b \<Longrightarrow> a_id b = i" "map_of (store r) j = Some b"
  shows "\<not> has_xid ns x b"
proof
  assume h: "has_xid ns x b"
  have "b \<in> set (vals (store r))"
    using assms(5) by (force simp: vals_def dest: map_of_SomeD)
  with h obtain c where c: "getByExternalId r ns x = Some c"
    unfolding getByExternalId_def by (cases "find (has_xid ns x) (vals (store r))")
      (auto simp: find_None_iff)
  then have hc: "has_xid ns x c" and inv: "c \<in> set (vals (store r))"
    by (auto simp: getByExternalId_def find_Some_iff)
  have dist: "distinct (keys (store r))" using assms(1) by (simp add: repo_ok_def)
  from inv obtain k where k: "map_of (store r) k = Some c"
    using in_vals_lookup [OF dist] by auto
  have "k = i" using assms(4) [OF c] asset_okD [OF assms(1) k] by simp
  with k assms(2,3) hc show False by simp
qed

lemma xid_unique_op:
  assumes ok: "repo_ok r" and u: "xid_unique r" and f: "fresh_id op r" and e: "enforces op"
  shows "xid_unique (run_op op r)"
proof (cases "\<exists>i ns x enf now. op = OpAttach i ns x enf now")
  case False
  then have att: "\<And>i ns x enf now. op \<noteq> OpAttach i ns x enf now" by blast
  show ?thesis unfolding xid_unique_def
    using xid_origin [OF _ _ f att] u unfolding xid_unique_def by blast
next
  case True
  then obtain i ns x now where op: "op = OpAttach i ns x True now" using e by auto
  let ?r' = "state_of r (attachExternalId i ns x True now r)"
  from attach_effect [of r i ns x True now] show ?thesis
  proof (elim disjE exE conjE)
    fix a :: asset
    let ?a' = "a\<lparr> a_externalIdentifiers := Some (coalesce (a_externalIdentifiers a) [] @
             [\<lparr> xi_namespace = ns, xi_id = x \<rparr>]), a_updatedAt := now \<rparr>"
    assume w: "writes r ?r' i a ?a'" and n: "\<not> has_xid ns x a"
      and g: "True \<longrightarrow> (\<forall>b. getByExternalId r ns x = Some b \<longrightarrow> a_id b = i)"
    have a: "map_of (store r) i = Some a" using w by (simp add: writes_def)
    have none: "\<not> has_xid ns x b" if "map_of (store r) j = Some b" for j b
      using nobody_has [OF ok a n _ that] g by blast
    have look: "map_of (store ?r') = (map_of (store r))(i \<mapsto> ?a')"
      using w by (simp add: writes_def put_def)
    have new: "has_xid m y ?a' \<longleftrightarrow> has_xid m y a \<or> m = ns \<and> y = x" for m y
      by (auto simp: has_xid_def)
    show ?thesis using u none a unfolding xid_unique_def op run_op.simps look
      by (auto simp: new split: if_splits)
  qed (use op u in simp)
qed

lemma xid_unique_ops:
  "repo_ok r \<Longrightarrow> xid_unique r \<Longrightarrow> fresh_ids ops r \<Longrightarrow> list_all enforces ops \<Longrightarrow>
   xid_unique (run_ops ops r)"
  by (induction ops arbitrary: r) (auto simp: xid_unique_op repo_ok_op)

section \<open>Paging\<close>

lemma clampLimit_int:
  "clampLimit (Some (js_of_int n)) = js_of_int (min 200 (max 1 n))"
proof -
  have 1: "Fin 1 = js_of_int 1" "MAX_LIMIT = js_of_int 200"
    by (simp_all add: js_of_int_def MAX_LIMIT_def)
  show ?thesis unfolding clampLimit_def 1
    by (simp only: js_floor_int js_max_int js_min_int option.sel if_False simp_thms)
      (simp add: js_of_int_def)
qed

lemma js_nat_int [simp]: "js_nat (js_of_int n) = nat n"
  by (simp add: js_nat_def js_of_int_def)

lemma clampLimit_bounds:
  "\<exists>n. clampLimit limit = js_of_int n \<and> 1 \<le> n \<and> n \<le> 200"
proof (cases limit)
  case (Some x)
  show ?thesis
  proof (cases x)
    case (Fin q)
    have "clampLimit limit = clampLimit (Some (js_of_int \<lfloor>q\<rfloor>))"
      by (simp add: clampLimit_def Some Fin js_of_int_def)
    then show ?thesis unfolding clampLimit_int
      by (intro exI [of _ "min 200 (max 1 \<lfloor>q\<rfloor>)"]) auto
  next
    case PInf
    then show ?thesis
      by (intro exI [of _ 200]) (simp add: Some clampLimit_def MAX_LIMIT_def js_of_int_def)
  next
    case NInf
    then show ?thesis
      by (intro exI [of _ 1]) (simp add: Some clampLimit_def MAX_LIMIT_def js_of_int_def)
  next
    case NaN
    then show ?thesis
      by (intro exI [of _ 50]) (simp add: Some clampLimit_def DEFAULT_LIMIT_def js_of_int_def)
  qed
qed (intro exI [of _ 50], simp add: clampLimit_def DEFAULT_LIMIT_def js_of_int_def)

lemma list_assets_page:
  assumes "1 \<le> n" "n \<le> 200"
  shows "lr_items (list_assets parse r (opts\<lparr> lo_limit := Some (js_of_int (int n)),
           lo_offset := Some (int (k * n)) \<rparr>)) =
         take n (drop (k * n) (version_sort (filter (list_matches parse opts) (vals (store r)))))"
proof -
  have m: "list_matches parse (opts\<lparr> lo_limit := l, lo_offset := f \<rparr>) = list_matches parse opts"
    for l f by (simp add: list_matches_def fun_eq_iff)
  have kn: "nat (int k * int n) = k * n" by (simp flip: of_nat_mult)
  show ?thesis using assms
    by (simp add: list_assets_def m clampLimit_int Let_def max_def min_def kn)
qed

end
