(* ===== verification/Asset_Claims.thy ===== *)
theory Asset_Claims
  imports Asset_Props
begin

text \<open>
  The properties of the asset model and repository, each with an example run that
  satisfies its hypotheses.
\<close>

definition demo_env :: "string \<Rightarrow> string \<Rightarrow> create_env" where
  "demo_env i now = \<lparr> ce_now = now, ce_ulid = i, ce_rnd = (\<lambda>_. 1 / 2), ce_stack = None,
     ce_nfkd = id, ce_base36 = (\<lambda>_. ''0.i'') \<rparr>"

definition demo_input :: create_asset_input where
  "demo_input = \<lparr> ci_name = ''Clip'', ci_slug = Some ''My Clip'', ci_description = None,
     ci_parentId = None, ci_versionOfAssetId = None, ci_versionGroupId = None,
     ci_objectKey = Some ''k'', ci_metadata = None, ci_tags = None, ci_sourceMethod = None,
     ci_originUri = None, ci_stackName = None \<rparr>"

definition demo_ops :: "asset_op list" where
  "demo_ops = [OpCreate (demo_env ''A'' ''t1'') demo_input,
     OpAttach ''A'' ''mam'' ''7'' True ''t2'', OpRemove ''A'' ''t3'']"

definition demo_repo :: asset_repo where
  "demo_repo = run_ops demo_ops empty_repo"

definition demo_asset :: asset where
  "demo_asset = the (map_of (store demo_repo) ''A'')"

lemma demo_lookup: "map_of (store demo_repo) ''A'' = Some demo_asset"
proof -
  have "map_of (store demo_repo) ''A'' \<noteq> None" by code_simp
  then show ?thesis by (auto simp: demo_asset_def)
qed

lemma demo_fresh: "fresh_ids demo_ops empty_repo"
  by code_simp

lemma demo_repo_ok: "repo_ok demo_repo"
  unfolding demo_repo_def by (rule repo_ok_ops [OF repo_ok_empty demo_fresh])

section \<open>The repository over whole runs\<close>

text \<open>C1. After any sequence of repository calls from the empty repository (ids
  never reused), every stored asset is stored under its own id, its status history
  is a legal lifecycle that ends in its current status, its tags and external ids
  are duplicate-free, a recorded source size is positive, a present delete lock is
  locked, at most one restore per byte class is in flight, and no purged id is
  still stored.\<close>

theorem asset_repo_invariant:
  assumes "fresh_ids ops empty_repo"
  shows "repo_ok (run_ops ops empty_repo)"
  using repo_ok_ops [OF repo_ok_empty assms] .

lemma asset_repo_invariant_witness:
  "fresh_ids demo_ops empty_repo \<and> repo_ok (run_ops demo_ops empty_repo)"
  using asset_repo_invariant [OF demo_fresh] demo_fresh by simp

text \<open>Over any run, an asset keeps its id, slug and creation time, and its
  status history and provenance log are only ever appended to: what they held at
  the start is a prefix of what they hold at the end.\<close>

theorem asset_audit_append_only:
  assumes "fresh_ids ops r" "map_of (store r) i = Some a"
    "map_of (store (run_ops ops r)) i = Some a'"
  shows "a_id a' = a_id a \<and> a_slug a' = a_slug a \<and> a_createdAt a' = a_createdAt a
    \<and> prefix (a_statusHistory a) (a_statusHistory a')
    \<and> prefix (coalesce (a_provenance a) []) (coalesce (a_provenance a') [])"
  using evolves_ops [OF assms] by (simp_all add: evolves_def)

lemma asset_audit_append_only_witness:
  "prefix (a_statusHistory demo_asset)
     (a_statusHistory (the (map_of (store (run_ops [OpRestore ''A'' ''t4''] demo_repo)) ''A'')))"
proof -
  have f: "fresh_ids [OpRestore ''A'' ''t4''] demo_repo" by simp
  have "map_of (store (run_ops [OpRestore ''A'' ''t4''] demo_repo)) ''A'' \<noteq> None" by code_simp
  then show ?thesis using asset_audit_append_only [OF f demo_lookup] by auto
qed

text \<open>\<^verbatim>\<open>archived\<close> is terminal for every call but \<^verbatim>\<open>restore\<close> on that asset: the
  status and the history of an archived asset are untouched by anything else.\<close>

theorem archived_left_only_by_restore:
  assumes "fresh_id op r" "map_of (store r) i = Some a" "a_status a = Archived"
    "map_of (store (run_op op r)) i = Some a'" "\<And>now. op \<noteq> OpRestore i now"
  shows "a_status a' = Archived \<and> a_statusHistory a' = a_statusHistory a"
  using evolves_op [OF assms(2,4,1)] assms(3,5) by (auto simp: archived_stays_def)

lemma archived_left_only_by_restore_witness:
  "a_status (the (map_of (store (run_op (OpTouch ''A'' ''t4'') demo_repo)) ''A'')) = Archived"
proof -
  have s: "a_status demo_asset = Archived" by code_simp
  have "map_of (store (run_op (OpTouch ''A'' ''t4'') demo_repo)) ''A'' \<noteq> None" by code_simp
  then show ?thesis
    using archived_left_only_by_restore [of "OpTouch ''A'' ''t4''", OF _ demo_lookup s] by auto
qed

text \<open>Archiving an asset and then restoring it brings a ready asset back ready
  and every other one back as failed, and the trail records both moves: nothing
  but the two entries is added to the history.\<close>

theorem restore_after_remove:
  assumes "map_of (store r) i = Some a" "a_status a \<noteq> Archived"
    "remove_asset i t1 r = Inr (r1, x)"
  shows "\<exists>b. snd (restore i t2 r1) = Some b
    \<and> map_of (store (fst (restore i t2 r1))) i = Some b
    \<and> a_status b = (if a_status a = Ready then Ready else Failed)
    \<and> map (\<lambda>e. (st_at e, st_from e, st_to e)) (a_statusHistory b) =
        map (\<lambda>e. (st_at e, st_from e, st_to e)) (a_statusHistory a) @
          [(t1, Some (a_status a), Archived), (t2, Some Archived, a_status b)]"
proof -
  let ?p = "empty_patch\<lparr> u_status := Some Archived \<rparr>"
  obtain n where n: "patch_asset a ?p t1 = Inr n" and r1: "r1 = put i n r"
    using assms(1,3) by (auto simp: remove_asset_def update_asset_def split: sum.splits)
  from n have st: "a_status n = Archived" "a_statusHistory n = a_statusHistory a @
      [\<lparr> st_at = t1, st_from = Some (a_status a), st_to = Archived, st_reason = None \<rparr>]"
    using assms(2)
    by (auto elim!: patch_asset_cases simp: applyStatus_def empty_patch_def split: if_splits)
  have look: "map_of (store r1) i = Some n" by (simp add: r1 put_def)
  have tgt: "restoreTargetStatus (a_statusHistory n) = (if a_status a = Ready then Ready else Failed)"
    by (simp add: st)
  show ?thesis
    by (simp add: restore_def look st(1) applyRestore_def tgt Let_def put_def)
      (simp add: st(2))
qed

lemma restore_after_remove_witness:
  "\<exists>b. snd (restore ''A'' ''t2'' (run_ops [OpCreate (demo_env ''A'' ''t1'') demo_input,
      OpRemove ''A'' ''t1''] empty_repo)) = Some b \<and> a_status b = Failed"
proof -
  let ?r = "run_ops [OpCreate (demo_env ''A'' ''t1'') demo_input] empty_repo"
  obtain a where a: "map_of (store ?r) ''A'' = Some a" "a_status a = Uploading"
    using arg_cong [where f = "map_option a_status"] by (cases "map_of (store ?r) ''A''")
      (auto simp: create_def get_def empty_repo_def demo_input_def state_of_def put_def
        new_asset_def demo_env_def Let_def)
  obtain r1 x where x: "remove_asset ''A'' ''t1'' ?r = Inr (r1, x)"
    using a by (auto simp: remove_asset_def update_asset_def patch_asset_def applyStatus_def
        isValidTransition_def empty_patch_def Let_def)
  have "run_ops [OpCreate (demo_env ''A'' ''t1'') demo_input, OpRemove ''A'' ''t1''] empty_repo = r1"
    using x by (simp add: state_of_def)
  then show ?thesis using restore_after_remove [OF a(1) _ x, of "''t2''"] a(2) by auto
qed

text \<open>The storage-tier, restore-in-flight, external-id, upload-progress, delete-lock
  and review writes never touch the lifecycle: no asset changes status or history
  under any of them.\<close>

fun secondary_axis :: "asset_op \<Rightarrow> bool" where
  "secondary_axis (OpAttach i ns x enf now) = True"
| "secondary_axis (OpDetach i ref now) = True"
| "secondary_axis (OpTouch i now) = True"
| "secondary_axis (OpReview i to now) = True"
| "secondary_axis (OpLock i input now) = True"
| "secondary_axis (OpTier i ov now) = True"
| "secondary_axis (OpRehydrate i bc ph now) = True"
| "secondary_axis op = False"

theorem secondary_axes_firewall:
  assumes "secondary_axis op" "map_of (store r) j = Some a"
    "map_of (store (run_op op r)) j = Some a'"
  shows "a_status a' = a_status a \<and> a_statusHistory a' = a_statusHistory a"
proof -
  let ?R = "\<lambda>a b. a_status b = a_status a \<and> a_statusHistory b = a_statusHistory a"
  note l = effect_lookup [where R = ?R and b' = a', OF _ _ _ assms(2)]
  note l' = effect_lookup' [where R = ?R and b' = a', OF _ _ _ assms(2)]
  show ?thesis
  proof (cases op)
    case (OpAttach i ns x enf now)
    with l [OF attach_effect [of r i ns x enf now]] assms(3) show ?thesis by auto
  next
    case (OpDetach i ref now)
    with l' [OF detach_effect [of i ref now r]] assms(3) show ?thesis by (auto simp: Let_def)
  next
    case (OpTouch i now)
    with l [OF touch_effect [of i now r]] assms(3) show ?thesis by auto
  next
    case (OpReview i to now)
    with l [OF review_effect [of r i to now]] assms(3) show ?thesis by auto
  next
    case (OpLock i input now)
    with l' [OF lock_effect [of i input now r]] assms(3) show ?thesis by auto
  next
    case (OpTier i ov now)
    with l' [OF tier_effect [of i ov now r]] assms(3) show ?thesis by auto
  next
    case (OpRehydrate i bc ph now)
    with l' [OF rehydrate_effect [of i bc ph now r]] assms(3) show ?thesis by auto
  qed (use assms(1) in simp_all)
qed

lemma secondary_axes_firewall_witness:
  "a_status (the (map_of (store (run_op (OpTier ''A'' [(Source, Archive)] ''t4'') demo_repo)) ''A''))
     = a_status demo_asset"
proof -
  have "map_of (store (run_op (OpTier ''A'' [(Source, Archive)] ''t4'') demo_repo)) ''A'' \<noteq> None"
    by code_simp
  then show ?thesis
    using secondary_axes_firewall [of "OpTier ''A'' [(Source, Archive)] ''t4''", OF _ demo_lookup]
    by auto
qed

text \<open>When every attach enforces uniqueness, no two assets of the repository
  ever hold the same external id, whatever calls are interleaved.\<close>

theorem external_ids_unique:
  assumes "fresh_ids ops empty_repo" "list_all enforces ops"
    "map_of (store (run_ops ops empty_repo)) i = Some a" "has_xid ns x a"
    "map_of (store (run_ops ops empty_repo)) j = Some b" "has_xid ns x b"
  shows "i = j"
proof -
  have "xid_unique empty_repo" by (simp add: xid_unique_def empty_repo_def)
  from xid_unique_ops [OF repo_ok_empty this assms(1,2)] assms(3-6) show ?thesis
    unfolding xid_unique_def by blast
qed

lemma external_ids_unique_witness:
  "has_xid ''mam'' ''7'' demo_asset \<and>
   (map_of (store (run_ops demo_ops empty_repo)) ''B'' = None \<or> ''B'' = ''A'')"
proof -
  have x: "has_xid ''mam'' ''7'' demo_asset" by code_simp
  have e: "list_all enforces demo_ops" by code_simp
  have "''A'' = ''A''"
    using external_ids_unique [OF demo_fresh e demo_lookup [unfolded demo_repo_def] x
        demo_lookup [unfolded demo_repo_def] x] .
  moreover have "map_of (store (run_ops demo_ops empty_repo)) ''B'' = None" by code_simp
  ultimately show ?thesis using x by simp
qed

section \<open>Slugs\<close>

lemma finite_taken: "{s. slugTaken r s} \<subseteq> (\<lambda>a. the (a_slug a)) ` set (vals (store r))"
  by (auto simp: slugTaken_def list_ex_iff) (metis image_eqI option.sel)

text \<open>\<^verbatim>\<open>create\<close> with a name that slugifies to something gives the asset a slug no
  other stored asset has, as long as the repository holds fewer assets than there
  are attempts; and it gives exactly the slugified name when that one is free.\<close>

theorem create_slug_fresh:
  assumes "create env input r = Inr (r', a)" "truthy (ci_slug input)"
    "slugify (ce_nfkd env) (the (ci_slug input)) \<noteq> []" "length (store r) < SLUG_MAX_ATTEMPTS"
  shows "\<exists>s. a_slug a = Some s \<and> (\<forall>b\<in>set (vals (store r)). a_slug b \<noteq> Some s)
    \<and> (\<not> slugTaken r (slugify (ce_nfkd env) (the (ci_slug input))) \<longrightarrow>
          s = slugify (ce_nfkd env) (the (ci_slug input)))"
proof -
  let ?s = "generateUniqueSlug (ce_nfkd env) (ce_base36 env) (ce_rnd env) (slugTaken r) (ci_slug input)"
  have a: "a_slug a = Some ?s"
    using assms(1) by (auto simp: create_def new_asset_def Let_def split: if_splits)
  have fin: "finite {s. slugTaken r s}" by (rule finite_subset [OF finite_taken]) simp
  have "card {s. slugTaken r s} \<le> card ((\<lambda>a. the (a_slug a)) ` set (vals (store r)))"
    by (rule card_mono [OF _ finite_taken]) simp
  also have "\<dots> \<le> card (set (vals (store r)))" by (rule card_image_le) simp
  also have "\<dots> \<le> length (store r)"
    using card_length [of "vals (store r)"] by (simp add: vals_def)
  finally have "\<not> slugTaken r ?s"
    using assms(4) by (intro generateUniqueSlug_fresh [OF assms(2,3) fin]) simp
  then show ?thesis
    using a generateUniqueSlug_free_stem [OF assms(2,3)] by (auto simp: slugTaken_def list_ex_iff)
qed

lemma create_slug_fresh_witness:
  "\<exists>s. a_slug (snd (projr (create (demo_env ''B'' ''t'') demo_input demo_repo))) = Some s
     \<and> (\<forall>b\<in>set (vals (store demo_repo)). a_slug b \<noteq> Some s)"
proof -
  have c: "create (demo_env ''B'' ''t'') demo_input demo_repo =
      Inr (fst (projr (create (demo_env ''B'' ''t'') demo_input demo_repo)),
           snd (projr (create (demo_env ''B'' ''t'') demo_input demo_repo)))"
    by (simp add: create_def demo_input_def Let_def)
  have t: "truthy (ci_slug demo_input)" by code_simp
  have s: "slugify (ce_nfkd (demo_env ''B'' ''t'')) (the (ci_slug demo_input)) \<noteq> []" by code_simp
  have l: "length (store demo_repo) < SLUG_MAX_ATTEMPTS" by code_simp
  from create_slug_fresh [OF c t s l] show ?thesis by blast
qed

text \<open>\<^verbatim>\<open>slugify\<close> always produces a URL-safe slug: lower-case letters and digits
  in words joined by single dashes, with no dash at either end; and it leaves a
  string of that shape as it is, so slugifying twice is slugifying once.\<close>

theorem slugify_canonical:
  "slug_shape (slugify nfkd s) \<and> slugify id (slugify nfkd s) = slugify nfkd s"
  using slugify_shape slugify_fixed [OF slugify_shape] by blast

text \<open>A string is both a well-formed slug and taken for an asset id exactly when
  it is 26 digits; so the two namespaces that the id lookup tells apart do overlap,
  and a slug of 26 digits, which \<^verbatim>\<open>slugify\<close> does produce, is read as an id.\<close>

theorem slug_and_ulid_overlap:
  "(isUlid s \<and> slug_shape s \<longleftrightarrow> length s = 26 \<and> list_all is_digit s)
   \<and> isUlid (slugify id (replicate 26 (CHR ''7'')))"
proof -
  have "isUlid s \<and> slug_shape s" if l: "length s = 26" and d: "list_all is_digit s"
  proof -
    have dash: "\<not> is_digit (CHR ''-'')" by code_simp
    have no: "CHR ''-'' \<notin> set s" using d dash by (auto simp: list_all_iff)
    have "slug_shape s"
      unfolding slug_shape_def
    proof (intro conjI impI)
      show "\<forall>c\<in>set s. slug_char c \<or> c = CHR ''-''"
        using d by (auto simp: list_all_iff slug_char_def)
      show "\<not> sublist ''--'' s" using no set_mono_sublist [of "''--''" s] by auto
    qed (use no in \<open>metis hd_in_set last_in_set\<close>)+
    moreover have "isUlid s" using l d by (auto simp: isUlid_def list_all_iff ulid_char_def)
    ultimately show ?thesis by simp
  qed
  moreover have "isUlid (slugify id (replicate 26 (CHR ''7'')))" by code_simp
  ultimately show ?thesis using slug_ulid_overlap by (auto simp: isUlid_def)
qed

section \<open>Listing and versions\<close>

definition list_pages :: "(string \<Rightarrow> jsnum) \<Rightarrow> asset_repo \<Rightarrow> list_options \<Rightarrow> nat \<Rightarrow> nat \<Rightarrow> asset list" where
  "list_pages parse r opts n m = concat (map (\<lambda>k. lr_items (list_assets parse r
     (opts\<lparr> lo_limit := Some (js_of_int (int n)), lo_offset := Some (int (k * n)) \<rparr>))) [0..<m])"

text \<open>Paging is complete and exact: with any page size from 1 to 200, the pages
  of \<^verbatim>\<open>list\<close> concatenated are the matching assets of the store, each once, ordered
  by creation time then id, and \<^verbatim>\<open>total\<close> is their number.\<close>

theorem list_pages_exact:
  assumes "1 \<le> n" "n \<le> 200" "lr_total (list_assets parse r opts) \<le> m * n"
  shows "mset (list_pages parse r opts n m) = mset (filter (list_matches parse opts) (vals (store r)))
    \<and> sorted (map version_key (list_pages parse r opts n m))
    \<and> length (list_pages parse r opts n m) = lr_total (list_assets parse r opts)"
proof -
  let ?all = "version_sort (filter (list_matches parse opts) (vals (store r)))"
  have len: "lr_total (list_assets parse r opts) = length ?all"
    by (simp add: list_assets_def Let_def)
  have "list_pages parse r opts n m = take (m * n) ?all"
    unfolding list_pages_def list_assets_page [OF assms(1,2)] concat_pages ..
  then have "list_pages parse r opts n m = ?all" using assms(3) len by simp
  then show ?thesis using len by (simp add: version_sort_def)
qed

lemma list_pages_exact_witness:
  "length (list_pages (\<lambda>_. Fin 0) demo_repo no_options 1 2)
   = lr_total (list_assets (\<lambda>_. Fin 0) demo_repo no_options)"
proof -
  have "lr_total (list_assets (\<lambda>_. Fin 0) demo_repo no_options) \<le> 2 * 1" by code_simp
  from list_pages_exact [of 1, OF _ _ this] show ?thesis by simp
qed

text \<open>The current version of a chain is the newest member of the best tier that
  has one: a ready asset before one still in flight, that before a failed one, that
  before an archived one; and it exists for every non-empty chain.\<close>

theorem current_version_is_best:
  assumes "versions \<noteq> []"
  shows "\<exists>m\<in>set versions. currentVersionId versions = Some (a_id m)
    \<and> (\<forall>a\<in>set versions. version_rank (a_status m) \<le> version_rank (a_status a)
        \<and> (version_rank (a_status a) = version_rank (a_status m)
             \<longrightarrow> version_key a \<le> version_key m))"
  by (rule currentVersionId_best [OF assms])

lemma current_version_is_best_witness:
  "currentVersionId [demo_asset, demo_asset\<lparr> a_id := ''B'', a_status := Ready \<rparr>] = Some ''B''"
proof -
  have s: "a_status demo_asset = Archived" by code_simp
  from current_version_is_best [of "[demo_asset, demo_asset\<lparr> a_id := ''B'', a_status := Ready \<rparr>]"]
  show ?thesis by (auto simp: s)
qed

section \<open>The field rules of update\<close>

text \<open>After an update, a recorded source size is positive and was given by this
  patch or was already recorded for the unchanged object key; and manifests that the
  patch delivers without an explicit stale mark are never left marked stale or failed.\<close>

theorem update_keeps_facts_with_their_object:
  assumes "patch_asset e p now = Inr n"
  shows "(\<forall>v. a_sourceSizeBytes n = Some v \<longrightarrow>
      u_sourceSizeBytes p = Some v \<and> js_lt (Fin 0) v
      \<or> a_sourceSizeBytes e = Some v \<and> a_objectKey n = a_objectKey e)
    \<and> (u_manifestUrls p \<noteq> None \<and> u_packagedOutputStale p = None \<longrightarrow> a_packagedOutputStale n = None)"
  unfolding patch_asset_frame [OF assms] patch_fields_owned
  by (auto split: option.splits if_splits)

lemma update_keeps_facts_with_their_object_witness:
  "a_sourceSizeBytes (projr (patch_asset (demo_asset\<lparr> a_sourceSizeBytes := Some (Fin 9) \<rparr>)
     (empty_patch\<lparr> u_objectKey := Some ''other'' \<rparr>) ''t'')) = None"
proof -
  let ?e = "demo_asset\<lparr> a_sourceSizeBytes := Some (Fin 9) \<rparr>"
  let ?p = "empty_patch\<lparr> u_objectKey := Some ''other'' \<rparr>"
  have k: "a_objectKey ?e = Some ''k''" by code_simp
  obtain n where n: "patch_asset ?e ?p ''t'' = Inr n"
    by (simp add: patch_asset_def empty_patch_def Let_def)
  have "a_objectKey n = Some ''other''"
    using patch_asset_frame(11) [OF n] by (simp add: patch_fields_objectKey empty_patch_def)
  then show ?thesis
    using update_keeps_facts_with_their_object [OF n] k n by (auto simp: empty_patch_def)
qed

end
