(* ===== verification/Job_Repo.thy ===== *)
theory Job_Repo
  imports Asset_Model
begin

text \<open>
  Jobs (\<^verbatim>\<open>src/src/data/job-repo.ts\<close>): the job state machine, the patch rules
  of \<^verbatim>\<open>applyJobPatch\<close>, the durable encode-attempt log, the correlation id handed
  to the encoder, and the methods of \<^verbatim>\<open>InMemoryJobRepository\<close>.
\<close>

section \<open>State machine\<close>

datatype job_status = JPending | JQueued | JRunning | JDone | JFailed | JCancelled

instantiation job_status :: enum
begin
definition "enum_job_status = [JPending, JQueued, JRunning, JDone, JFailed, JCancelled]"
definition "enum_all_job_status P = list_all P [JPending, JQueued, JRunning, JDone, JFailed, JCancelled]"
definition "enum_ex_job_status P = list_ex P [JPending, JQueued, JRunning, JDone, JFailed, JCancelled]"
instance
proof
  show "(UNIV :: job_status set) = set enum_class.enum"
    by (auto simp: enum_job_status_def intro: job_status.exhaust)
  show "distinct (enum_class.enum :: job_status list)"
    by (simp add: enum_job_status_def)
  show "enum_class.enum_all P = Ball UNIV P" for P :: "job_status \<Rightarrow> bool"
    by (auto simp: enum_all_job_status_def) (metis job_status.exhaust)
  show "enum_class.enum_ex P = Bex UNIV P" for P :: "job_status \<Rightarrow> bool"
    by (auto simp: enum_ex_job_status_def) (metis job_status.exhaust)
qed
end

fun job_status_text :: "job_status \<Rightarrow> string" where
  "job_status_text JPending = ''pending''"
| "job_status_text JQueued = ''queued''"
| "job_status_text JRunning = ''running''"
| "job_status_text JDone = ''done''"
| "job_status_text JFailed = ''failed''"
| "job_status_text JCancelled = ''cancelled''"

definition TERMINAL_JOB_STATUSES :: "job_status list" where
  "TERMINAL_JOB_STATUSES = [JDone, JFailed, JCancelled]"

definition ACTIVE_JOB_STATUSES :: "job_status list" where
  "ACTIVE_JOB_STATUSES = filter (\<lambda>s. s \<notin> set TERMINAL_JOB_STATUSES)
     [JPending, JQueued, JRunning, JDone, JFailed, JCancelled]"

definition isActiveJobStatus :: "job_status \<Rightarrow> bool" where
  "isActiveJobStatus s = (s \<in> set ACTIVE_JOB_STATUSES)"

fun ALLOWED_JOB_TRANSITIONS :: "job_status \<Rightarrow> job_status list" where
  "ALLOWED_JOB_TRANSITIONS JPending = [JQueued, JRunning, JFailed, JCancelled]"
| "ALLOWED_JOB_TRANSITIONS JQueued = [JRunning, JFailed, JCancelled]"
| "ALLOWED_JOB_TRANSITIONS JRunning = [JDone, JFailed, JRunning, JCancelled]"
| "ALLOWED_JOB_TRANSITIONS JDone = []"
| "ALLOWED_JOB_TRANSITIONS JFailed = [JDone, JRunning]"
| "ALLOWED_JOB_TRANSITIONS JCancelled = []"

definition isValidJobTransition :: "job_status \<Rightarrow> job_status \<Rightarrow> bool" where
  "isValidJobTransition src dst = (src = dst \<or> dst \<in> set (ALLOWED_JOB_TRANSITIONS src))"

interpretation job_life: lifecycle_table ALLOWED_JOB_TRANSITIONS isValidJobTransition
  by unfold_locales (simp add: isValidJobTransition_def)

lemma isActiveJobStatus_simps [simp]:
  "isActiveJobStatus JPending" "isActiveJobStatus JQueued" "isActiveJobStatus JRunning"
  "\<not> isActiveJobStatus JDone" "\<not> isActiveJobStatus JFailed" "\<not> isActiveJobStatus JCancelled"
  by (simp_all add: isActiveJobStatus_def ACTIVE_JOB_STATUSES_def TERMINAL_JOB_STATUSES_def)

section \<open>The job\<close>

datatype job_type = IngestUrl | Transcode | Package

datatype message_failure_class = Transport | IoRetryable | Deterministic

datatype interruption_reason = InterruptedByScaledown

record encode_attempt =
  ea_index :: int
  ea_startedAt :: string
  ea_endedAt :: "string option"
  ea_classification :: "message_failure_class option"

record job =
  j_id :: string
  j_type :: job_type
  j_status :: job_status
  j_assetId :: string
  j_sourceUrl :: string
  j_progress :: jsnum
  j_bytesTransferred :: jsnum
  j_totalBytes :: "jsnum option"
  j_attempts :: int
  j_error :: "string option"
  j_encoreJobId :: "string option"
  j_encoreInternalJobId :: "string option"
  j_profile :: "string option"
  j_renditionAssetIds :: "string list option"
  j_packagingId :: "string option"
  j_outputPrefix :: "string option"
  j_encodeAttempts :: "int option"
  j_encodeAttemptLog :: "encode_attempt list option"
  j_interrupted :: "bool option"
  j_interruptionReason :: "interruption_reason option"
  j_droppedByScaler :: "bool option"
  j_stackName :: "string option"
  j_droppedThenRecovered :: "bool option"
  j_correctedDropError :: "string option"
  j_lateCompletionDiscarded :: "bool option"
  j_discardedRenditionCount :: "int option"
  j_discardedOutputPrefix :: "string option"
  j_createdAt :: string
  j_updatedAt :: string

record create_job_input =
  cj_type :: job_type
  cj_assetId :: string
  cj_sourceUrl :: "string option"
  cj_encoreJobId :: "string option"
  cj_encoreInternalJobId :: "string option"
  cj_profile :: "string option"
  cj_packagingId :: "string option"
  cj_outputPrefix :: "string option"
  cj_stackName :: "string option"

record update_job_input =
  uj_status :: "job_status option"
  uj_progress :: "jsnum option"
  uj_bytesTransferred :: "jsnum option"
  uj_totalBytes :: "jsnum option"
  uj_attempts :: "int option"
  uj_error :: "string option"
  uj_encoreJobId :: "string option"
  uj_encoreInternalJobId :: "string option"
  uj_profile :: "string option"
  uj_renditionAssetIds :: "string list option"
  uj_packagingId :: "string option"
  uj_outputPrefix :: "string option"
  uj_encodeAttempts :: "int option"
  uj_encodeAttemptLog :: "encode_attempt list option"
  uj_interrupted :: "bool option"
  uj_interruptionReason :: "interruption_reason option"
  uj_droppedByScaler :: "bool option"
  uj_droppedThenRecovered :: "bool option"
  uj_correctedDropError :: "string option"
  uj_lateCompletionDiscarded :: "bool option"
  uj_discardedRenditionCount :: "int option"
  uj_discardedOutputPrefix :: "string option"
  uj_clearError :: "bool option"

datatype job_error = InvalidJobTransition job_status job_status

section \<open>Correlation id\<close>

definition ENCORE_ID_SEP :: string where "ENCORE_ID_SEP = ''__''"

definition encodeEncoreJobId :: "string \<Rightarrow> string \<Rightarrow> string" where
  "encodeEncoreJobId contextId jobLocalId = contextId @ ENCORE_ID_SEP @ jobLocalId"

definition decodeEncoreJobId :: "string \<Rightarrow> (string \<times> string) option" where
  "decodeEncoreJobId encoreJobId = (case index_of encoreJobId ENCORE_ID_SEP of
       None \<Rightarrow> None
     | Some idx \<Rightarrow>
         if idx = 0 then None
         else let workspaceId = take idx encoreJobId;
                  jobLocalId = drop (idx + length ENCORE_ID_SEP) encoreJobId
           in if workspaceId = [] \<or> jobLocalId = [] then None
              else Some (workspaceId, jobLocalId))"

lemma sep_before:
  "(\<exists>k<length c. prefix ''__'' (drop k (c @ ''__'' @ j))) \<longleftrightarrow> str_includes (c @ ''_'') ''__''"
proof
  assume "\<exists>k<length c. prefix ''__'' (drop k (c @ ''__'' @ j))"
  then obtain k where k: "k < length c" "prefix ''__'' (drop k (c @ ''__'' @ j))" by blast
  have "drop k (c @ ''__'' @ j) = drop k (c @ ''_'') @ ''_'' @ j" using k(1) by simp
  moreover have "2 \<le> length (drop k (c @ ''_''))" using k(1) by simp
  ultimately have "prefix ''__'' (drop k (c @ ''_''))"
    using k(2) by (metis prefix_length_prefix prefixI length_Cons list.size(3) Suc_1 One_nat_def)
  then show "str_includes (c @ ''_'') ''__''"
    unfolding str_includes_iff by (metis prefix_imp_sublist sublist_drop sublist_order.order_trans)
next
  assume "str_includes (c @ ''_'') ''__''"
  then obtain i where i: "index_of (c @ ''_'') ''__'' = Some i"
    using index_of_None_iff by blast
  from index_of_Some [OF i] have p: "prefix ''__'' (drop i (c @ ''_''))" by blast
  then have "2 \<le> length (drop i (c @ ''_''))" by (auto dest: prefix_length_le)
  then have "i < length c" by simp
  moreover
  have "drop i (c @ ''__'' @ j) = drop i (c @ ''_'') @ ''_'' @ j"
    using \<open>i < length c\<close> by simp
  then have "prefix ''__'' (drop i (c @ ''__'' @ j))"
    using prefix_prefix [OF p, of "''_'' @ j"] by (simp only:)
  ultimately show "\<exists>k<length c. prefix ''__'' (drop k (c @ ''__'' @ j))" by blast
qed

lemma decode_SomeD:
  "decodeEncoreJobId s = Some (c, j) \<Longrightarrow>
     \<exists>i. index_of s ENCORE_ID_SEP = Some i \<and> c = take i s \<and> c \<noteq> [] \<and> j \<noteq> []"
  by (auto simp: decodeEncoreJobId_def Let_def split: option.splits if_splits)

lemma decode_encode_iff:
  "decodeEncoreJobId (encodeEncoreJobId c j) = Some (c, j) \<longleftrightarrow>
     c \<noteq> [] \<and> j \<noteq> [] \<and> \<not> str_includes (c @ ''_'') ''__''"
proof
  assume d: "decodeEncoreJobId (encodeEncoreJobId c j) = Some (c, j)"
  then obtain i where i: "index_of (c @ ''__'' @ j) ''__'' = Some i"
    and c: "c = take i (c @ ''__'' @ j)" and ne: "c \<noteq> []" "j \<noteq> []"
    using decode_SomeD [OF d] unfolding encodeEncoreJobId_def ENCORE_ID_SEP_def by blast
  from index_of_Some [OF i(1)] have len: "i \<le> length (c @ ''__'' @ j)"
    and mins: "\<forall>k<i. \<not> prefix ''__'' (drop k (c @ ''__'' @ j))" by auto
  have "length c = i" using c len by (metis length_take min.absorb2)
  then show "c \<noteq> [] \<and> j \<noteq> [] \<and> \<not> str_includes (c @ ''_'') ''__''"
    using ne mins sep_before [of c j] by blast
next
  assume a: "c \<noteq> [] \<and> j \<noteq> [] \<and> \<not> str_includes (c @ ''_'') ''__''"
  have "index_of (c @ ''__'' @ j) ''__'' = Some (length c)"
    using a sep_before [of c j] by (intro index_of_unique) auto
  then show "decodeEncoreJobId (encodeEncoreJobId c j) = Some (c, j)"
    using a by (simp add: decodeEncoreJobId_def encodeEncoreJobId_def ENCORE_ID_SEP_def)
qed

section \<open>Patches\<close>

definition clampProgress :: "jsnum \<Rightarrow> jsnum" where
  "clampProgress p = (if p = NaN then Fin 0
     else js_min (Fin 100) (js_max (Fin 0) (js_round p)))"

definition jset :: "'v option \<Rightarrow> ('v \<Rightarrow> job \<Rightarrow> job) \<Rightarrow> job \<Rightarrow> job" where
  "jset p f n = (case p of None \<Rightarrow> n | Some v \<Rightarrow> f v n)"

text \<open>The field writes after the status check, in the order of the code.\<close>

definition job_patch_fields :: "update_job_input \<Rightarrow> job \<Rightarrow> job" where
  "job_patch_fields p n =
     (jset (uj_discardedOutputPrefix p) (\<lambda>v n. n\<lparr> j_discardedOutputPrefix := Some v \<rparr>)
     (jset (uj_discardedRenditionCount p) (\<lambda>v n. n\<lparr> j_discardedRenditionCount := Some v \<rparr>)
     (jset (uj_lateCompletionDiscarded p) (\<lambda>v n. n\<lparr> j_lateCompletionDiscarded := Some v \<rparr>)
     (jset (uj_correctedDropError p) (\<lambda>v n. n\<lparr> j_correctedDropError := Some v \<rparr>)
     (jset (uj_droppedThenRecovered p) (\<lambda>v n. n\<lparr> j_droppedThenRecovered := Some v \<rparr>)
     (jset (uj_droppedByScaler p) (\<lambda>v n. n\<lparr> j_droppedByScaler := Some v \<rparr>)
     (jset (uj_interruptionReason p) (\<lambda>v n. n\<lparr> j_interruptionReason := Some v \<rparr>)
     (jset (uj_interrupted p) (\<lambda>v n. n\<lparr> j_interrupted := Some v \<rparr>)
     (jset (uj_encodeAttemptLog p) (\<lambda>v n. n\<lparr> j_encodeAttemptLog := Some v \<rparr>)
     (jset (uj_encodeAttempts p) (\<lambda>v n. n\<lparr> j_encodeAttempts := Some v \<rparr>)
     (jset (uj_outputPrefix p) (\<lambda>v n. n\<lparr> j_outputPrefix := Some v \<rparr>)
     (jset (uj_packagingId p) (\<lambda>v n. n\<lparr> j_packagingId := Some v \<rparr>)
     (jset (uj_renditionAssetIds p) (\<lambda>v n. n\<lparr> j_renditionAssetIds := Some v \<rparr>)
     (jset (uj_profile p) (\<lambda>v n. n\<lparr> j_profile := Some v \<rparr>)
     (jset (uj_encoreInternalJobId p) (\<lambda>v n. n\<lparr> j_encoreInternalJobId := Some v \<rparr>)
     (jset (uj_encoreJobId p) (\<lambda>v n. n\<lparr> j_encoreJobId := Some v \<rparr>)
     (jset (uj_error p) (\<lambda>v n. n\<lparr> j_error := Some v \<rparr>)
     (jset (uj_attempts p) (\<lambda>v n. n\<lparr> j_attempts := v \<rparr>)
     (jset (uj_totalBytes p) (\<lambda>v n. n\<lparr> j_totalBytes := Some v \<rparr>)
     (jset (uj_bytesTransferred p) (\<lambda>v n. n\<lparr> j_bytesTransferred := v \<rparr>)
     (jset (uj_progress p) (\<lambda>v n. n\<lparr> j_progress := clampProgress v \<rparr>) n)))))))))))))))))))))"

definition applyJobPatch :: "job \<Rightarrow> update_job_input \<Rightarrow> string \<Rightarrow> job_error + job" where
  "applyJobPatch existing patch now =
     (if uj_status patch \<noteq> None \<and> \<not> isValidJobTransition (j_status existing) (the (uj_status patch))
      then Inl (InvalidJobTransition (j_status existing) (the (uj_status patch)))
      else
        let n0 = existing\<lparr> j_updatedAt := now \<rparr>;
            n1 = jset (uj_status patch) (\<lambda>v n. n\<lparr> j_status := v \<rparr>) n0;
            n2 = job_patch_fields patch n1
        in Inr (if uj_clearError patch = Some True then n2\<lparr> j_error := None \<rparr> else n2))"

section \<open>The encode-attempt log\<close>

record attempt_input =
  ai_index :: "int option"
  ai_startedAt :: "string option"
  ai_endedAt :: "string option"
  ai_classification :: "message_failure_class option"

definition appendEncodeAttemptToJob :: "job \<Rightarrow> attempt_input \<Rightarrow> string \<Rightarrow> job" where
  "appendEncodeAttemptToJob existing attempt now =
     (let log = coalesce (j_encodeAttemptLog existing) [];
          entry = \<lparr> ea_index = coalesce (ai_index attempt) (int (length log) + 1),
            ea_startedAt = coalesce (ai_startedAt attempt) now,
            ea_endedAt = ai_endedAt attempt, ea_classification = ai_classification attempt \<rparr>;
          log' = log @ [entry]
      in existing\<lparr> j_encodeAttemptLog := Some log', j_encodeAttempts := Some (int (length log')),
           j_updatedAt := now \<rparr>)"

definition finalizeLatestEncodeAttemptOnJob ::
  "job \<Rightarrow> string option \<Rightarrow> message_failure_class option \<Rightarrow> string \<Rightarrow> job" where
  "finalizeLatestEncodeAttemptOnJob existing p_endedAt p_classification now =
     (let endedAt = coalesce p_endedAt now;
          log = coalesce (j_encodeAttemptLog existing) []
      in if log = [] then
           existing\<lparr> j_encodeAttemptLog := Some [\<lparr> ea_index = 1, ea_startedAt = endedAt,
                 ea_endedAt = Some endedAt, ea_classification = p_classification \<rparr>],
             j_encodeAttempts := Some 1, j_updatedAt := now \<rparr>
         else
           let lastIdx = length log - 1;
               e = log ! lastIdx;
               log' = log[lastIdx := e\<lparr> ea_endedAt := Some endedAt,
                 ea_classification := (if p_classification \<noteq> None then p_classification
                   else ea_classification e) \<rparr>]
           in existing\<lparr> j_encodeAttemptLog := Some log',
                j_encodeAttempts := Some (int (length log')), j_updatedAt := now \<rparr>)"

section \<open>The in-memory repository\<close>

record job_repo =
  jobs :: "(string, job) jsmap"
  counter :: nat

definition empty_job_repo :: job_repo where
  "empty_job_repo = \<lparr> jobs = [], counter = 0 \<rparr>"

definition put_job :: "string \<Rightarrow> job \<Rightarrow> job_repo \<Rightarrow> job_repo" where
  "put_job i j r = r\<lparr> jobs := AList.update i j (jobs r) \<rparr>"

definition new_job :: "string \<Rightarrow> string option \<Rightarrow> string \<Rightarrow> create_job_input \<Rightarrow> job" where
  "new_job now currentStack localId input =
     \<lparr> j_id = localId, j_type = cj_type input, j_status = JPending, j_assetId = cj_assetId input,
       j_sourceUrl = coalesce (cj_sourceUrl input) [], j_progress = Fin 0,
       j_bytesTransferred = Fin 0, j_totalBytes = None, j_attempts = 0, j_error = None,
       j_encoreJobId = cj_encoreJobId input, j_encoreInternalJobId = None,
       j_profile = cj_profile input, j_renditionAssetIds = None,
       j_packagingId = cj_packagingId input, j_outputPrefix = cj_outputPrefix input,
       j_encodeAttempts = None, j_encodeAttemptLog = None, j_interrupted = None,
       j_interruptionReason = None, j_droppedByScaler = None,
       j_stackName = (if cj_stackName input \<noteq> None then cj_stackName input else currentStack),
       j_droppedThenRecovered = None, j_correctedDropError = None,
       j_lateCompletionDiscarded = None, j_discardedRenditionCount = None,
       j_discardedOutputPrefix = None, j_createdAt = now, j_updatedAt = now \<rparr>"

definition create_job :: "string \<Rightarrow> string option \<Rightarrow> create_job_input \<Rightarrow> job_repo \<Rightarrow> job_repo \<times> job" where
  "create_job now currentStack input r =
     (let n = counter r + 1;
          localId = ''job-'' @ dec n;
          job = new_job now currentStack localId input
      in (put_job localId job (r\<lparr> counter := n \<rparr>), job))"

definition get_job :: "job_repo \<Rightarrow> string \<Rightarrow> job option" where
  "get_job r i = map_of (jobs r) i"

definition list_jobs :: "job_repo \<Rightarrow> nat option \<Rightarrow> nat option \<Rightarrow> job list \<times> nat" where
  "list_jobs r limit offset =
     (let all = rev (sort_key j_createdAt (rev (vals (jobs r))));
          off = coalesce offset 0; lim = coalesce limit 50
      in (take lim (drop off all), length all))"

definition findActiveByAssetId :: "job_repo \<Rightarrow> string \<Rightarrow> job list" where
  "findActiveByAssetId r assetId =
     sort_key j_createdAt
       (filter (\<lambda>j. j_assetId j = assetId \<and> isActiveJobStatus (j_status j)) (vals (jobs r)))"

definition update_job :: "string \<Rightarrow> update_job_input \<Rightarrow> string \<Rightarrow> job_repo
    \<Rightarrow> job_error + (job_repo \<times> job option)" where
  "update_job i patch now r = (case map_of (jobs r) i of
       None \<Rightarrow> Inr (r, None)
     | Some existing \<Rightarrow>
         (case applyJobPatch existing patch now of
            Inl e \<Rightarrow> Inl e
          | Inr n \<Rightarrow> Inr (put_job i n r, Some n)))"

definition findByEncoreJobId :: "job_repo \<Rightarrow> string \<Rightarrow> job option" where
  "findByEncoreJobId r encoreJobId = find (\<lambda>j. j_encoreJobId j = Some encoreJobId) (vals (jobs r))"

definition appendEncodeAttempt :: "string \<Rightarrow> attempt_input \<Rightarrow> string \<Rightarrow> job_repo
    \<Rightarrow> job_repo \<times> job option" where
  "appendEncodeAttempt i attempt now r = (case map_of (jobs r) i of
       None \<Rightarrow> (r, None)
     | Some existing \<Rightarrow>
         let n = appendEncodeAttemptToJob existing attempt now in (put_job i n r, Some n))"

definition finalizeEncodeAttempt ::
  "string \<Rightarrow> string option \<Rightarrow> message_failure_class option \<Rightarrow> string \<Rightarrow> job_repo
    \<Rightarrow> job_repo \<times> job option" where
  "finalizeEncodeAttempt i endedAt classification now r = (case map_of (jobs r) i of
       None \<Rightarrow> (r, None)
     | Some existing \<Rightarrow>
         let n = finalizeLatestEncodeAttemptOnJob existing endedAt classification now
         in (put_job i n r, Some n))"

end
