(* ===== verification/Job_Claims.thy ===== *)
theory Job_Claims
  imports Job_Repo
begin

text \<open>
  Runs of the job repository and its properties: terminal statuses absorb, ids are
  never reused, the attempt log is append-only with its count, the correlation id
  round-trips exactly when the context cannot be confused with the separator, and
  what a patch does to progress and error.
\<close>

section \<open>Runs\<close>

datatype job_op =
    JobCreate string "string option" create_job_input
  | JobUpdate string update_job_input string
  | JobAppend string attempt_input string
  | JobFinalize string "string option" "message_failure_class option" string

fun run_job_op :: "job_op \<Rightarrow> job_repo \<Rightarrow> job_repo" where
  "run_job_op (JobCreate now st input) r = fst (create_job now st input r)"
| "run_job_op (JobUpdate i p now) r =
     (case update_job i p now r of Inl e \<Rightarrow> r | Inr (r', b) \<Rightarrow> r')"
| "run_job_op (JobAppend i a now) r = fst (appendEncodeAttempt i a now r)"
| "run_job_op (JobFinalize i e c now) r = fst (finalizeEncodeAttempt i e c now r)"

fun run_job_ops :: "job_op list \<Rightarrow> job_repo \<Rightarrow> job_repo" where
  "run_job_ops [] r = r"
| "run_job_ops (op # ops) r = run_job_ops ops (run_job_op op r)"

text \<open>Every id is \<^verbatim>\<open>job-N\<close> with N at most the counter.\<close>

definition jobs_ok :: "job_repo \<Rightarrow> bool" where
  "jobs_ok r = (distinct (keys (jobs r))
     \<and> (\<forall>i j. map_of (jobs r) i = Some j \<longrightarrow>
          j_id j = i \<and> (\<exists>n. i = ''job-'' @ dec n \<and> 1 \<le> n \<and> n \<le> counter r)))"

definition job_evolves :: "job \<Rightarrow> job \<Rightarrow> bool" where
  "job_evolves j j' = (j_id j' = j_id j \<and> j_createdAt j' = j_createdAt j \<and> j_type j' = j_type j
     \<and> j_assetId j' = j_assetId j \<and> (\<exists>ts. job_life.run (j_status j) ts (j_status j')))"

lemma job_evolves_refl [simp]: "job_evolves j j"
  by (auto simp: job_evolves_def intro: job_life.run.intros)

lemma job_run_trans:
  "job_life.run a ts b \<Longrightarrow> job_life.run b us c \<Longrightarrow> \<exists>vs. job_life.run a vs c"
  by (induction rule: job_life.run.induct) (auto intro: job_life.run.intros)

lemma job_evolves_trans: "job_evolves a b \<Longrightarrow> job_evolves b c \<Longrightarrow> job_evolves a c"
  unfolding job_evolves_def using job_run_trans by metis

lemma jset_frame: "(\<And>v n. f (g v n) = f n) \<Longrightarrow> f (jset p g n) = f n"
  by (simp add: jset_def split: option.splits)

lemma job_patch_fields_frame [simp]:
  "j_id (job_patch_fields p n) = j_id n" "j_status (job_patch_fields p n) = j_status n"
  "j_createdAt (job_patch_fields p n) = j_createdAt n" "j_type (job_patch_fields p n) = j_type n"
  "j_assetId (job_patch_fields p n) = j_assetId n"
  unfolding job_patch_fields_def
  by (simp_all add: jset_frame [where f = j_id] jset_frame [where f = j_status]
      jset_frame [where f = j_createdAt] jset_frame [where f = j_type]
      jset_frame [where f = j_assetId])

lemma job_patch_fields_progress:
  "j_progress (job_patch_fields p n) = (case uj_progress p of
       None \<Rightarrow> j_progress n | Some v \<Rightarrow> clampProgress v)"
  unfolding job_patch_fields_def
  by (simp add: jset_frame [where f = j_progress]) (simp add: jset_def split: option.splits)

lemma job_patch_fields_error:
  "j_error (job_patch_fields p n) = (case uj_error p of None \<Rightarrow> j_error n | e \<Rightarrow> e)"
  unfolding job_patch_fields_def
  by (simp add: jset_frame [where f = j_error])
    (simp add: jset_def jset_frame [where f = j_error] split: option.splits)

lemma applyJobPatch_evolves:
  assumes "applyJobPatch j p now = Inr j'"
  shows "job_evolves j j'"
proof -
  have st: "j_status j' = (case uj_status p of None \<Rightarrow> j_status j | Some s \<Rightarrow> s)"
    "j_id j' = j_id j" "j_createdAt j' = j_createdAt j" "j_type j' = j_type j"
    "j_assetId j' = j_assetId j"
    using assms by (auto simp: applyJobPatch_def Let_def jset_def split: if_splits option.splits)
  have "isValidJobTransition (j_status j) (j_status j')"
    using assms st(1) job_life.valid_refl
    by (auto simp: applyJobPatch_def split: if_splits option.splits)
  then have "job_life.run (j_status j) [j_status j'] (j_status j')"
    by (intro job_life.run.intros)
  with st show ?thesis by (auto simp: job_evolves_def)
qed

lemma log_evolves:
  "job_evolves j (appendEncodeAttemptToJob j a now)"
  "job_evolves j (finalizeLatestEncodeAttemptOnJob j e c now)"
  by (auto simp: job_evolves_def appendEncodeAttemptToJob_def finalizeLatestEncodeAttemptOnJob_def
      Let_def intro: job_life.run.intros)

lemma put_job_ok:
  assumes "jobs_ok r" "map_of (jobs r) i = Some j" "job_evolves j j'"
  shows "jobs_ok (put_job i j' r)"
  using assms by (auto simp: jobs_ok_def put_job_def job_evolves_def)

lemma create_job_ok:
  assumes "jobs_ok r"
  shows "jobs_ok (fst (create_job now st input r))"
    and "map_of (jobs r) (j_id (snd (create_job now st input r))) = None"
proof -
  have new_id: "map_of (jobs r) (''job-'' @ dec (counter r + 1)) = None"
  proof (rule ccontr)
    assume "\<not> ?thesis"
    then obtain n where "''job-'' @ dec (counter r + 1) = ''job-'' @ dec n" "n \<le> counter r"
      using assms unfolding jobs_ok_def by blast
    then show False by simp
  qed
  show "map_of (jobs r) (j_id (snd (create_job now st input r))) = None"
    using new_id by (simp add: create_job_def new_job_def Let_def)
  show "jobs_ok (fst (create_job now st input r))"
    using assms unfolding jobs_ok_def create_job_def put_job_def Let_def
    by (auto simp: new_job_def) force+
qed

text \<open>One call: the invariant is kept, and no job disappears or changes illegally.\<close>

lemma job_op_step:
  assumes "jobs_ok r"
  shows "jobs_ok (run_job_op op r) \<and>
    (\<forall>i j. map_of (jobs r) i = Some j \<longrightarrow>
       (\<exists>j'. map_of (jobs (run_job_op op r)) i = Some j' \<and> job_evolves j j'))"
proof (cases op)
  case (JobCreate now st input)
  have "j_id (snd (create_job now st input r)) = ''job-'' @ dec (counter r + 1)"
    by (simp add: create_job_def new_job_def Let_def)
  with create_job_ok [OF assms, of now st input] JobCreate show ?thesis
    by (auto simp: create_job_def put_job_def Let_def)
next
  case (JobUpdate i p now)
  show ?thesis
  proof (cases "update_job i p now r")
    case (Inr x)
    then show ?thesis using JobUpdate assms applyJobPatch_evolves put_job_ok [OF assms]
      by (auto simp: update_job_def put_job_def split: option.splits sum.splits)
  qed (use JobUpdate assms in simp)
next
  case (JobAppend i a now)
  then show ?thesis using assms log_evolves put_job_ok [OF assms]
    by (auto simp: appendEncodeAttempt_def put_job_def Let_def split: option.splits)
next
  case (JobFinalize i e c now)
  then show ?thesis using assms log_evolves put_job_ok [OF assms]
    by (auto simp: finalizeEncodeAttempt_def put_job_def Let_def split: option.splits)
qed

lemma job_ops_run:
  "jobs_ok r \<Longrightarrow> jobs_ok (run_job_ops ops r) \<and>
    (\<forall>i j. map_of (jobs r) i = Some j \<longrightarrow>
       (\<exists>j'. map_of (jobs (run_job_ops ops r)) i = Some j' \<and> job_evolves j j'))"
proof (induction ops arbitrary: r)
  case (Cons op ops)
  from job_op_step [OF Cons.prems, of op] Cons.IH [of "run_job_op op r"] show ?case
    by simp (meson job_evolves_trans)
qed simp

lemma jobs_ok_empty: "jobs_ok empty_job_repo"
  by (simp add: jobs_ok_def empty_job_repo_def)

section \<open>Properties\<close>

definition demo_job_input :: create_job_input where
  "demo_job_input = \<lparr> cj_type = Transcode, cj_assetId = ''A'', cj_sourceUrl = None,
     cj_encoreJobId = Some ''ctx__job-1'', cj_encoreInternalJobId = None, cj_profile = None,
     cj_packagingId = None, cj_outputPrefix = None, cj_stackName = None \<rparr>"

definition no_job_patch :: update_job_input where
  "no_job_patch = \<lparr> uj_status = None, uj_progress = None, uj_bytesTransferred = None,
     uj_totalBytes = None, uj_attempts = None, uj_error = None, uj_encoreJobId = None,
     uj_encoreInternalJobId = None, uj_profile = None, uj_renditionAssetIds = None,
     uj_packagingId = None, uj_outputPrefix = None, uj_encodeAttempts = None,
     uj_encodeAttemptLog = None, uj_interrupted = None, uj_interruptionReason = None,
     uj_droppedByScaler = None, uj_droppedThenRecovered = None, uj_correctedDropError = None,
     uj_lateCompletionDiscarded = None, uj_discardedRenditionCount = None,
     uj_discardedOutputPrefix = None, uj_clearError = None \<rparr>"

definition demo_jobs :: job_repo where
  "demo_jobs = run_job_ops [JobCreate ''t1'' None demo_job_input,
     JobUpdate ''job-1'' (no_job_patch\<lparr> uj_status := Some JCancelled \<rparr>) ''t2''] empty_job_repo"

lemma demo_jobs_ok: "jobs_ok demo_jobs"
  unfolding demo_jobs_def using job_ops_run [OF jobs_ok_empty] by blast



text \<open>Creating a job always uses an id no job has had, whatever calls came before.\<close>

lemma job_ids_fresh:
  "map_of (jobs (run_job_ops ops empty_job_repo))
     (j_id (snd (create_job now st input (run_job_ops ops empty_job_repo)))) = None"
  using create_job_ok(2) job_ops_run [OF jobs_ok_empty] by blast

text \<open>The encode-attempt log: an append adds exactly one entry after the ones
  there, with the next position as its index unless one is given; a finalize closes
  the last entry and keeps the earlier ones and the length (or records one attempt
  when there was none); and after either, the attempt count is the log's length.\<close>

lemma encode_attempt_log:
  "(\<exists>e. j_encodeAttemptLog (appendEncodeAttemptToJob j a now) =
        Some (coalesce (j_encodeAttemptLog j) [] @ [e])
      \<and> (ai_index a = None \<longrightarrow> ea_index e = int (length (coalesce (j_encodeAttemptLog j) [])) + 1)
      \<and> j_encodeAttempts (appendEncodeAttemptToJob j a now) =
          Some (int (length (coalesce (j_encodeAttemptLog j) [])) + 1))
   \<and> (\<exists>log. j_encodeAttemptLog (finalizeLatestEncodeAttemptOnJob j t c now) = Some log
      \<and> length log = max 1 (length (coalesce (j_encodeAttemptLog j) []))
      \<and> butlast log = butlast (coalesce (j_encodeAttemptLog j) [])
      \<and> ea_endedAt (last log) = Some (coalesce t now)
      \<and> (c \<noteq> None \<longrightarrow> ea_classification (last log) = c)
      \<and> j_encodeAttempts (finalizeLatestEncodeAttemptOnJob j t c now) = Some (int (length log)))"
proof (intro conjI)
  let ?l = "coalesce (j_encodeAttemptLog j) []"
  show "\<exists>log. j_encodeAttemptLog (finalizeLatestEncodeAttemptOnJob j t c now) = Some log
      \<and> length log = max 1 (length ?l) \<and> butlast log = butlast ?l
      \<and> ea_endedAt (last log) = Some (coalesce t now)
      \<and> (c \<noteq> None \<longrightarrow> ea_classification (last log) = c)
      \<and> j_encodeAttempts (finalizeLatestEncodeAttemptOnJob j t c now) = Some (int (length log))"
  proof (cases ?l rule: rev_cases)
    case (snoc es e)
    then show ?thesis
      by (auto simp: finalizeLatestEncodeAttemptOnJob_def Let_def)
  qed (simp add: finalizeLatestEncodeAttemptOnJob_def Let_def)
qed (auto simp: appendEncodeAttemptToJob_def Let_def)

text \<open>The encoder correlation id decodes back to the context and the job id it was
  built from exactly when both are non-empty and the context, followed by an
  underscore, does not contain the separator: a context that ends in an underscore
  is misread.\<close>

theorem encore_job_id_roundtrip:
  "decodeEncoreJobId (encodeEncoreJobId c j) = Some (c, j) \<longleftrightarrow>
     c \<noteq> [] \<and> j \<noteq> [] \<and> \<not> str_includes (c @ ''_'') ''__''"
  by (rule decode_encode_iff)

text \<open>C15. A patch that is accepted stores progress as a whole percentage from 0 to
  100 whatever number it was given, keeps the old progress when it gives none, and
  a \<^verbatim>\<open>clearError\<close> beats an \<^verbatim>\<open>error\<close> in the same patch.\<close>

lemma clampProgress_range: "\<exists>k\<in>{0..100}. clampProgress p = js_of_int k"
proof (cases p)
  case (Fin q)
  have c: "Fin 0 = js_of_int 0" "Fin 100 = js_of_int 100" by (simp_all add: js_of_int_def)
  have "js_round p = js_of_int \<lfloor>q + 1 / 2\<rfloor>" by (simp add: Fin js_of_int_def)
  then have "clampProgress p = js_of_int (min 100 (max 0 \<lfloor>q + 1 / 2\<rfloor>))"
    unfolding clampProgress_def c using Fin by (simp only: js_max_int js_min_int) simp
  then show ?thesis by (intro bexI) auto
next
  case PInf
  then show ?thesis by (intro bexI [of _ 100]) (simp_all add: clampProgress_def js_of_int_def)
next
  case NInf
  then show ?thesis by (intro bexI [of _ 0]) (simp_all add: clampProgress_def js_of_int_def)
next
  case NaN
  then show ?thesis by (intro bexI [of _ 0]) (simp_all add: clampProgress_def js_of_int_def)
qed

theorem job_patch_progress_and_error:
  assumes "applyJobPatch j p now = Inr j'"
  shows "(case uj_progress p of None \<Rightarrow> j_progress j' = j_progress j
       | Some v \<Rightarrow> \<exists>k\<in>{0..100}. j_progress j' = js_of_int k)
    \<and> (uj_clearError p = Some True \<longrightarrow> j_error j' = None)
    \<and> (uj_clearError p \<noteq> Some True \<longrightarrow> j_error j' = (if uj_error p \<noteq> None then uj_error p else j_error j))"
proof -
  let ?n = "jset (uj_status p) (\<lambda>v n. n\<lparr> j_status := v \<rparr>) (j\<lparr> j_updatedAt := now \<rparr>)"
  have n: "j_progress ?n = j_progress j" "j_error ?n = j_error j"
    by (simp_all add: jset_frame [where f = j_progress] jset_frame [where f = j_error])
  have j': "j' = (if uj_clearError p = Some True then (job_patch_fields p ?n)\<lparr> j_error := None \<rparr>
      else job_patch_fields p ?n)"
    using assms by (simp add: applyJobPatch_def Let_def split: if_splits)
  have "j_progress j' = (case uj_progress p of None \<Rightarrow> j_progress j | Some v \<Rightarrow> clampProgress v)"
    by (simp add: j' job_patch_fields_progress n cong: option.case_cong)
  moreover have "j_error j' = (if uj_clearError p = Some True then None
      else if uj_error p \<noteq> None then uj_error p else j_error j)"
    by (cases "uj_error p") (simp_all add: j' job_patch_fields_error n)
  ultimately show ?thesis using clampProgress_range by (auto split: option.splits)
qed

lemma job_patch_progress_and_error_witness:
  "\<exists>j. map_of (jobs demo_jobs) ''job-1'' = Some j \<and> (\<exists>j'. applyJobPatch j (no_job_patch\<lparr>
     uj_error := Some ''x'', uj_clearError := Some True \<rparr>) ''t'' = Inr j' \<and> j_error j' = None)"
proof -
  let ?p = "no_job_patch\<lparr> uj_error := Some ''x'', uj_clearError := Some True \<rparr>"
  have "map_of (jobs demo_jobs) ''job-1'' \<noteq> None" by code_simp
  then obtain j where j: "map_of (jobs demo_jobs) ''job-1'' = Some j" by auto
  obtain j' where j': "applyJobPatch j ?p ''t'' = Inr j'"
    by (simp add: applyJobPatch_def no_job_patch_def Let_def)
  have "uj_clearError ?p = Some True" by simp
  with job_patch_progress_and_error [OF j'] have "j_error j' = None" by blast
  with j j' show ?thesis by blast
qed

end
