(* ===== verification/Asset_Settle.thy ===== *)
theory Asset_Settle
  imports Asset_Repo_Inv Job_Repo
begin

text \<open>
  What happens to an asset when a job on it reaches a terminal state
  (\<^verbatim>\<open>src/src/pipeline/asset-state-after-terminal-job.ts\<close>): the pure decision
  \<^verbatim>\<open>assetStateAfterTerminalJob\<close> and its application
  \<^verbatim>\<open>recomputeAssetStateAfterTerminalJob\<close> over the two repositories.
\<close>

fun prior_scan :: "status_transition list \<Rightarrow> asset_status option" where
  "prior_scan [] = None"
| "prior_scan (e # es) = (if st_to e = Processing then st_from e else prior_scan es)"

definition priorStatusBeforeProcessing :: "status_transition list \<Rightarrow> asset_status option" where
  "priorStatusBeforeProcessing history = prior_scan (rev history)"

record settle_input =
  si_current :: asset_status
  si_jobStatus :: job_status
  si_jobType :: job_type
  si_hasRenditions :: bool
  si_statusHistory :: "status_transition list"

definition assetStateAfterTerminalJob :: "settle_input \<Rightarrow> asset_status option" where
  "assetStateAfterTerminalJob input =
     (if isActiveJobStatus (si_jobStatus input) then None
      else if si_current input \<noteq> Processing then None
      else if si_hasRenditions input then Some Ready
      else if si_jobStatus input = JFailed then Some Failed
      else case priorStatusBeforeProcessing (si_statusHistory input) of
             Some prior \<Rightarrow>
               if prior \<noteq> Processing \<and> prior \<noteq> Archived \<and> isValidTransition Processing prior
               then Some prior
               else Some (if si_jobType input = IngestUrl then Failed else Ready)
           | None \<Rightarrow> Some (if si_jobType input = IngestUrl then Failed else Ready))"

datatype settle_outcome =
    Applied asset_status
  | JobNotTerminal
  | AssetUnknown
  | AssetNotProcessing
  | OtherJobsActive
  | WriteFailed asset_error

definition recomputeAssetStateAfterTerminalJob ::
  "job \<Rightarrow> asset_repo \<Rightarrow> job_repo \<Rightarrow> string \<Rightarrow> string \<Rightarrow> asset_repo \<times> settle_outcome" where
  "recomputeAssetStateAfterTerminalJob job assets js assetId now =
     (if isActiveJobStatus (j_status job) then (assets, JobNotTerminal)
      else if assetId = [] then (assets, AssetUnknown)
      else case get assets assetId of
        None \<Rightarrow> (assets, AssetUnknown)
      | Some asset \<Rightarrow>
          if a_status asset \<noteq> Processing then (assets, AssetNotProcessing)
          else if filter (\<lambda>other. j_id other \<noteq> j_id job) (findActiveByAssetId js assetId) \<noteq> []
          then (assets, OtherJobsActive)
          else
            (case assetStateAfterTerminalJob \<lparr> si_current = a_status asset,
                 si_jobStatus = j_status job, si_jobType = j_type job,
                 si_hasRenditions = (coalesce (a_renditions asset) [] \<noteq> []),
                 si_statusHistory = a_statusHistory asset \<rparr> of
               None \<Rightarrow> (assets, AssetNotProcessing)
             | Some nxt \<Rightarrow>
                 if nxt = a_status asset then (assets, AssetNotProcessing)
                 else
                   (case update_asset assetId (empty_patch\<lparr> u_status := Some nxt,
                        u_statusReason := Some (''job '' @ j_id job @ '' '' @
                           job_status_text (j_status job)) \<rparr>) now assets of
                      Inl e \<Rightarrow> (assets, WriteFailed e)
                    | Inr (assets', updated) \<Rightarrow>
                        (assets', Applied (case updated of Some u \<Rightarrow> a_status u | None \<Rightarrow> nxt)))))"

text \<open>The decision only ever leaves processing, and only for ready or failed.\<close>

lemma assetState_target:
  assumes "assetStateAfterTerminalJob input = Some s"
  shows "si_current input = Processing \<and> \<not> isActiveJobStatus (si_jobStatus input)
    \<and> s \<in> {Ready, Failed}"
proof -
  have v: "s \<in> {Ready, Failed}"
    if "isValidTransition Processing s" "s \<noteq> Processing" "s \<noteq> Archived" for s
    using that by (cases s) (auto simp: isValidTransition_def)
  from assms show ?thesis
    by (auto simp: assetStateAfterTerminalJob_def split: if_splits option.splits dest: v)
qed

lemma assetState_total:
  assumes "si_current input = Processing" "\<not> isActiveJobStatus (si_jobStatus input)"
  shows "\<exists>s. assetStateAfterTerminalJob input = Some s"
  using assms by (auto simp: assetStateAfterTerminalJob_def split: option.splits)

definition demo_settle_asset :: asset where
  "demo_settle_asset = \<lparr> a_id = ''A'', a_name = ''n'', a_slug = None, a_description = None,
     a_status = Processing, a_reviewState = None, a_deleteLock = None, a_storageTiering = None,
     a_parentId = None, a_versionOfAssetId = None, a_versionGroupId = None, a_objectKey = None,
     a_sourceSizeBytes = None,
     a_statusHistory = initialHistory ''t0'' @ [\<lparr> st_at = ''t1'', st_from = Some Uploading,
        st_to = Processing, st_reason = None \<rparr>],
     a_technicalMetadata = None, a_technicalMetadataError = None, a_videoTracks = None,
     a_manifestUrls = None, a_packagingError = None, a_packagedOutput = None,
     a_packagedOutputStale = None, a_drm = None, a_preservedDrm = None, a_renditions = None,
     a_thumbnails = None, a_thumbnailSizes = None, a_metadata = None, a_tags = None,
     a_audioTracks = None, a_subtitleTracks = None, a_subtitlesError = None,
     a_sceneMetadata = None, a_sceneDetectionError = None, a_sourceMethod = None,
     a_originUri = None, a_provenance = None, a_externalIdentifiers = None,
     a_collections = None, a_tamsFlowIds = None, a_tamsTimerange = None, a_stackName = None,
     a_createdAt = ''t0'', a_updatedAt = ''t1'' \<rparr>"

definition demo_settle_job :: job where
  "demo_settle_job = (new_job ''t1'' None ''job-1'' \<lparr> cj_type = Transcode, cj_assetId = ''A'',
     cj_sourceUrl = None, cj_encoreJobId = None, cj_encoreInternalJobId = None,
     cj_profile = None, cj_packagingId = None, cj_outputPrefix = None, cj_stackName = None \<rparr>)
     \<lparr> j_status := JFailed \<rparr>"

text \<open>When the last job on a processing asset has ended, the recompute always
  settles the asset: the write is accepted, the stored asset is ready if it has
  renditions and failed if it has none and the job failed (and one of the two in any
  case), one history entry is appended, a second recompute changes nothing, and an
  asset that still has another active job is left alone.\<close>

theorem settle_leaves_processing:
  assumes "\<not> isActiveJobStatus (j_status job)" "i \<noteq> []" "get assets i = Some a"
    "a_status a = Processing"
    "filter (\<lambda>other. j_id other \<noteq> j_id job) (findActiveByAssetId js i) = []"
  shows "\<exists>s assets' a'. recomputeAssetStateAfterTerminalJob job assets js i now = (assets', Applied s)
    \<and> s \<in> {Ready, Failed}
    \<and> get assets' i = Some a' \<and> a_status a' = s
    \<and> length (a_statusHistory a') = length (a_statusHistory a) + 1
    \<and> (coalesce (a_renditions a) [] \<noteq> [] \<longrightarrow> s = Ready)
    \<and> (coalesce (a_renditions a) [] = [] \<and> j_status job = JFailed \<longrightarrow> s = Failed)
    \<and> recomputeAssetStateAfterTerminalJob job assets' js i now' = (assets', AssetNotProcessing)"
proof -
  let ?in = "\<lparr> si_current = a_status a, si_jobStatus = j_status job, si_jobType = j_type job,
     si_hasRenditions = (coalesce (a_renditions a) [] \<noteq> []),
     si_statusHistory = a_statusHistory a \<rparr>"
  obtain s where s: "assetStateAfterTerminalJob ?in = Some s"
    using assetState_total [of ?in] assms(1,4) by auto
  have sr: "s \<in> {Ready, Failed}" using assetState_target [OF s] by simp
  let ?p = "empty_patch\<lparr> u_status := Some s, u_statusReason := Some (''job '' @ j_id job @ '' '' @
     job_status_text (j_status job)) \<rparr>"
  obtain h where h: "applyStatus Processing s (a_statusHistory a) now (u_statusReason ?p) = Inr (s, h)"
    and len: "length h = length (a_statusHistory a) + 1"
    using sr by (auto simp: applyStatus_def isValidTransition_def)
  obtain a' where a': "patch_asset a ?p now = Inr a'" "a_status a' = s" "a_statusHistory a' = h"
    using h assms(4) by (auto simp: patch_asset_def empty_patch_def)
  have l: "map_of (store assets) i = Some a" using assms(3) by (simp add: get_def)
  have up: "update_asset i ?p now assets = Inr (put i a' assets, Some a')"
    using l a'(1) by (simp add: update_asset_def)
  have get': "get (put i a' assets) i = Some a'" by (simp add: get_def put_def)
  have ne: "s \<noteq> Processing" using sr by auto
  have r: "recomputeAssetStateAfterTerminalJob job assets js i now = (put i a' assets, Applied s)"
    using assms s up a'(2) ne by (simp add: recomputeAssetStateAfterTerminalJob_def)
  have r': "recomputeAssetStateAfterTerminalJob job (put i a' assets) js i now' =
      (put i a' assets, AssetNotProcessing)"
    using assms(1,2) get' a'(2) ne by (simp add: recomputeAssetStateAfterTerminalJob_def)
  have rules: "(coalesce (a_renditions a) [] \<noteq> [] \<longrightarrow> s = Ready)
      \<and> (coalesce (a_renditions a) [] = [] \<and> j_status job = JFailed \<longrightarrow> s = Failed)"
    using s assms(1,4) by (auto simp: assetStateAfterTerminalJob_def)
  show ?thesis using r r' sr get' a' len rules by blast
qed

lemma settle_leaves_processing_witness:
  "\<exists>s. snd (recomputeAssetStateAfterTerminalJob demo_settle_job
      \<lparr> store = [(''A'', demo_settle_asset)], tombstones = [] \<rparr> empty_job_repo ''A'' ''t2'')
     = Applied s \<and> s = Failed"
proof -
  let ?r = "\<lparr> store = [(''A'', demo_settle_asset)], tombstones = [] \<rparr>"
  have j: "j_status demo_settle_job = JFailed" by (simp add: demo_settle_job_def)
  have n: "\<not> isActiveJobStatus (j_status demo_settle_job)" by (simp add: j)
  have g: "get ?r ''A'' = Some demo_settle_asset" by (simp add: get_def)
  have p: "a_status demo_settle_asset = Processing" "a_renditions demo_settle_asset = None"
    by (simp_all add: demo_settle_asset_def)
  have f: "filter (\<lambda>other. j_id other \<noteq> j_id demo_settle_job)
      (findActiveByAssetId empty_job_repo ''A'') = []"
    by (simp add: findActiveByAssetId_def empty_job_repo_def)
  from settle_leaves_processing [OF n _ g p(1) f, of "''t2''" "''t3''"] p(2) j show ?thesis
    by fastforce
qed

text \<open>An asset that settles on the failure of its last job is offered a retry: from
  the status the recompute writes, processing can be entered again, and it never
  writes archived, so nothing a background settle does is final.\<close>

theorem settle_is_recoverable:
  assumes "assetStateAfterTerminalJob input = Some s"
  shows "s \<noteq> Archived \<and> isValidTransition (si_current input) s \<and> isValidTransition s Processing"
  using assetState_target [OF assms] by (auto simp: isValidTransition_def)

lemma settle_is_recoverable_witness:
  "isValidTransition Failed Processing"
proof -
  have "assetStateAfterTerminalJob \<lparr> si_current = Processing, si_jobStatus = JFailed,
      si_jobType = Transcode, si_hasRenditions = False, si_statusHistory = [] \<rparr> = Some Failed"
    by (simp add: assetStateAfterTerminalJob_def)
  from settle_is_recoverable [OF this] show ?thesis by simp
qed

end
