(* ===== verification/Asset_Purge.thy ===== *)
theory Asset_Purge
  imports Asset_Props
begin

text \<open>
  Retention of archived assets: the tombstone that replaces a purged document
  (\<^verbatim>\<open>src/src/data/asset-tombstone.ts\<close>), the retention window projected on reads
  (\<^verbatim>\<open>src/src/data/asset-retention.ts\<close>) and the purge sweep
  (\<^verbatim>\<open>src/src/pipeline/archived-asset-purge-sweep.ts\<close>) over the in-memory repository.
  \<^verbatim>\<open>parse\<close> is \<^verbatim>\<open>Date.parse\<close> and \<^verbatim>\<open>toISO\<close> is \<^verbatim>\<open>toISOString\<close> of a time value. The object
  removals of a purge are best effort (a failure is logged and ignored), so they are
  recorded as the list of removals attempted.
\<close>

section \<open>Tombstones\<close>

definition TOMBSTONE_STATUS_HISTORY_LIMIT :: int where
  "TOMBSTONE_STATUS_HISTORY_LIMIT = 10"

record asset_tombstone =
  tb_id :: string
  tb_slug :: "string option"
  tb_derivedFrom :: "string nullable"
  tb_versionGroupId :: "string nullable"
  tb_versionOfAssetId :: "string nullable"
  tb_sourceMethod :: "source_method option"
  tb_originUri :: "string option"
  tb_createdAt :: string
  tb_archivedAt :: string
  tb_purgedAt :: string
  tb_statusHistory :: "(string \<times> asset_status option \<times> asset_status) list"

fun archived_scan :: "status_transition list \<Rightarrow> string option" where
  "archived_scan [] = None"
| "archived_scan (e # es) = (if st_to e = Archived then Some (st_at e) else archived_scan es)"

definition archivedAtOf :: "asset \<Rightarrow> string" where
  "archivedAtOf a = coalesce (archived_scan (rev (a_statusHistory a))) (a_updatedAt a)"

definition or_null :: "'a option \<Rightarrow> 'a nullable" where
  "or_null x = (case x of None \<Rightarrow> Null | Some v \<Rightarrow> Val v)"

definition toTombstoneDocument :: "asset \<Rightarrow> string \<Rightarrow> int option \<Rightarrow> asset_tombstone" where
  "toTombstoneDocument a purgedAt statusHistoryLimit =
     (let limit = coalesce statusHistoryLimit TOMBSTONE_STATUS_HISTORY_LIMIT;
          history = a_statusHistory a;
          truncated = (if 0 \<le> limit then drop (nat (max 0 (int (length history) - limit))) history
            else history)
      in \<lparr> tb_id = a_id a, tb_slug = a_slug a, tb_derivedFrom = or_null (a_parentId a),
           tb_versionGroupId = or_null (a_versionGroupId a),
           tb_versionOfAssetId = or_null (a_versionOfAssetId a),
           tb_sourceMethod = a_sourceMethod a, tb_originUri = a_originUri a,
           tb_createdAt = a_createdAt a, tb_archivedAt = archivedAtOf a, tb_purgedAt = purgedAt,
           tb_statusHistory = map (\<lambda>t. (st_at t, st_from t, st_to t)) truncated \<rparr>)"

section \<open>The retention window\<close>

record retention_window =
  rw_archivedAt :: string
  rw_purgeAfter :: "string nullable"
  rw_retentionMs :: int

definition MAX_TIME_VALUE_MS :: rat where
  "MAX_TIME_VALUE_MS = 8640000000000000"

definition purgeAfterOf ::
  "(string \<Rightarrow> jsnum) \<Rightarrow> (rat \<Rightarrow> string) \<Rightarrow> string \<Rightarrow> int \<Rightarrow> string nullable" where
  "purgeAfterOf parse toISO archivedAt effectiveMs =
     (if effectiveMs \<le> 0 then Null
      else case js_add (parse archivedAt) (js_of_int effectiveMs) of
             Fin purgeAfterMs \<Rightarrow>
               if \<bar>purgeAfterMs\<bar> > MAX_TIME_VALUE_MS then Null else Val (toISO purgeAfterMs)
           | _ \<Rightarrow> Null)"

definition effective_retention :: "jsnum \<Rightarrow> int" where
  "effective_retention retentionMs =
     (case retentionMs of Fin r \<Rightarrow> if 0 < r then \<lfloor>r\<rfloor> else 0 | _ \<Rightarrow> 0)"

definition assetRetentionWindow ::
  "(string \<Rightarrow> jsnum) \<Rightarrow> (rat \<Rightarrow> string) \<Rightarrow> asset \<Rightarrow> jsnum \<Rightarrow> retention_window option" where
  "assetRetentionWindow parse toISO a retentionMs =
     (if a_status a \<noteq> Archived then None
      else let archivedAt = archivedAtOf a;
               effectiveMs = effective_retention retentionMs
        in Some \<lparr> rw_archivedAt = archivedAt,
             rw_purgeAfter = purgeAfterOf parse toISO archivedAt effectiveMs,
             rw_retentionMs = effectiveMs \<rparr>)"

section \<open>Paging through the repository\<close>

definition SCAN_PAGE_SIZE :: nat where "SCAN_PAGE_SIZE = 200"

definition scan_page :: "(string \<Rightarrow> jsnum) \<Rightarrow> asset_repo \<Rightarrow> list_options \<Rightarrow> nat \<Rightarrow> list_result" where
  "scan_page parse r opts offset =
     list_assets parse r (opts\<lparr> lo_limit := Some (js_of_int (int SCAN_PAGE_SIZE)),
       lo_offset := Some (int offset) \<rparr>)"

lemma list_matches_paging [simp]:
  "list_matches parse (opts\<lparr> lo_limit := l, lo_offset := f \<rparr>) = list_matches parse opts"
  by (simp add: list_matches_def fun_eq_iff)

lemma scan_page_total: "lr_total (scan_page parse r opts offset) = lr_total (scan_page parse r opts 0)"
  by (simp add: scan_page_def list_assets_def Let_def)

function list_from :: "(string \<Rightarrow> jsnum) \<Rightarrow> asset_repo \<Rightarrow> list_options \<Rightarrow> nat \<Rightarrow> asset list" where
  "list_from parse r opts offset =
     (let page = scan_page parse r opts offset; n = length (lr_items page)
      in if n < SCAN_PAGE_SIZE then lr_items page
         else if offset + n \<ge> lr_total page then lr_items page
         else lr_items page @ list_from parse r opts (offset + n))"
  by pat_completeness auto
termination
proof (relation "measure (\<lambda>(parse, r, opts, offset). lr_total (scan_page parse r opts 0) - offset)")
  fix parse r opts offset page n
  assume "page = scan_page parse r opts offset" "n = length (lr_items page)"
    "\<not> n < SCAN_PAGE_SIZE" "\<not> lr_total page \<le> offset + n"
  then show "((parse, r, opts, offset + n), parse, r, opts, offset)
      \<in> measure (\<lambda>(parse, r, opts, offset). lr_total (scan_page parse r opts 0) - offset)"
    using scan_page_total [of parse r opts offset] by (simp add: SCAN_PAGE_SIZE_def)
qed simp

declare list_from.simps [simp del]

definition listAllArchived :: "(string \<Rightarrow> jsnum) \<Rightarrow> asset_repo \<Rightarrow> asset list" where
  "listAllArchived parse r = list_from parse r (no_options\<lparr> lo_status := Some Archived \<rparr>) 0"

function any_child_from ::
  "(string \<Rightarrow> jsnum) \<Rightarrow> asset_repo \<Rightarrow> list_options \<Rightarrow> string list \<Rightarrow> nat \<Rightarrow> bool" where
  "any_child_from parse r opts purged offset =
     (let page = scan_page parse r opts offset; n = length (lr_items page)
      in if list_ex (\<lambda>child. a_id child \<notin> set purged) (lr_items page) then True
         else if n < SCAN_PAGE_SIZE then False
         else if offset + n \<ge> lr_total page then False
         else any_child_from parse r opts purged (offset + n))"
  by pat_completeness auto
termination
proof (relation "measure (\<lambda>(parse, r, opts, purged, offset).
    lr_total (scan_page parse r opts 0) - offset)")
  fix parse r opts purged offset page n
  assume "page = scan_page parse r opts offset" "n = length (lr_items page)"
    "\<not> n < SCAN_PAGE_SIZE" "\<not> lr_total page \<le> offset + n"
  then show "((parse, r, opts, purged, offset + n), parse, r, opts, purged, offset)
      \<in> measure (\<lambda>(parse, r, opts, purged, offset).
          lr_total (scan_page parse r opts 0) - offset)"
    using scan_page_total [of parse r opts offset] by (simp add: SCAN_PAGE_SIZE_def)
qed simp

declare any_child_from.simps [simp del]

definition anyLiveChild :: "(string \<Rightarrow> jsnum) \<Rightarrow> asset_repo \<Rightarrow> string \<Rightarrow> string list \<Rightarrow> bool" where
  "anyLiveChild parse r parentId purgedThisRun =
     any_child_from parse r (no_options\<lparr> lo_parentId := Some parentId \<rparr>) purgedThisRun 0"

section \<open>Purging one asset\<close>

datatype removal = RemoveObject string string | RemovePrefix string string

definition parseS3Uri :: "string \<Rightarrow> (string \<times> string) option" where
  "parseS3Uri uri =
     (if \<not> prefix ''s3://'' uri then None
      else let rest = drop 5 uri;
               bucket = takeWhile (\<lambda>c. c \<noteq> CHR ''/'') rest;
               key = drop (length bucket + 1) rest
        in if bucket = [] \<or> key = [] \<or> CHR 0x0A \<in> set key \<or> CHR 0x0D \<in> set key then None
           else Some (bucket, key))"

record purge_config =
  pc_storage :: "string \<Rightarrow> bool"
  pc_sourceBucket :: string
  pc_packagedBucket :: string

definition purge_removals :: "purge_config \<Rightarrow> asset \<Rightarrow> removal list" where
  "purge_removals cfg a =
     (let src = pc_sourceBucket cfg; sourceStorage = pc_storage cfg src;
          source = (if truthy (a_objectKey a) \<and> sourceStorage
            then [RemoveObject src (the (a_objectKey a))] else []);
          rends = concat (map (\<lambda>rn. case parseS3Uri (rn_objectKey rn) of
              Some (bucket, key) \<Rightarrow>
                if pc_storage cfg bucket then [RemoveObject bucket key] else []
            | None \<Rightarrow> if sourceStorage then [RemoveObject src (rn_objectKey rn)] else [])
            (coalesce (a_renditions a) []));
          packaged = (if pc_storage cfg (pc_packagedBucket cfg)
            then [RemovePrefix (pc_packagedBucket cfg) (outputPrefix (a_id a))] else []);
          extras = (if sourceStorage then
              concat (map (\<lambda>t. if truthy (sub_objectKey t)
                then [RemoveObject src (the (sub_objectKey t))] else [])
                (coalesce (a_subtitleTracks a) []))
              @ map (\<lambda>t. RemoveObject src t) (coalesce (a_thumbnails a) [])
              @ map (\<lambda>t. RemoveObject src (ts_objectKey t)) (coalesce (a_thumbnailSizes a) [])
            else [])
      in source @ rends @ packaged @ extras)"

text \<open>The purge reports whether the document was replaced; when it was not, the code throws.\<close>

definition purgeArchivedAsset ::
  "purge_config \<Rightarrow> asset \<Rightarrow> asset_repo \<Rightarrow> asset_repo \<times> removal list \<times> bool" where
  "purgeArchivedAsset cfg a r =
     (let (r', ok) = purgeToTombstone (a_id a) r in (r', purge_removals cfg a, ok))"

section \<open>The sweep\<close>

record sweep_state =
  sw_repo :: asset_repo
  sw_purgedThisRun :: "string list"
  sw_scanned :: nat
  sw_purged :: nat
  sw_removals :: "removal list"

definition sweep_expired :: "(string \<Rightarrow> jsnum) \<Rightarrow> jsnum \<Rightarrow> asset \<Rightarrow> bool" where
  "sweep_expired parse cutoff a =
     (let archivedAtMs = parse (archivedAtOf a)
      in \<not> (archivedAtMs = NaN \<or> js_lt cutoff archivedAtMs))"

definition sweep_one ::
  "(string \<Rightarrow> jsnum) \<Rightarrow> purge_config \<Rightarrow> jsnum \<Rightarrow> asset \<Rightarrow> sweep_state \<Rightarrow> sweep_state" where
  "sweep_one parse cfg cutoff a s0 =
     (let s = s0\<lparr> sw_scanned := sw_scanned s0 + 1 \<rparr>
      in if \<not> sweep_expired parse cutoff a then s
         else if anyLiveChild parse (sw_repo s) (a_id a) (sw_purgedThisRun s) then s
         else let (r', removed, ok) = purgeArchivedAsset cfg a (sw_repo s);
                  s' = s\<lparr> sw_repo := r', sw_removals := sw_removals s @ removed \<rparr>
           in if ok then s'\<lparr> sw_purgedThisRun := a_id a # sw_purgedThisRun s',
                sw_purged := sw_purged s' + 1 \<rparr> else s')"

fun sweep_loop ::
  "(string \<Rightarrow> jsnum) \<Rightarrow> purge_config \<Rightarrow> jsnum \<Rightarrow> asset list \<Rightarrow> sweep_state \<Rightarrow> sweep_state" where
  "sweep_loop parse cfg cutoff [] s = s"
| "sweep_loop parse cfg cutoff (a # as) s = sweep_loop parse cfg cutoff as (sweep_one parse cfg cutoff a s)"

definition purgeExpiredArchivedAssets ::
  "(string \<Rightarrow> jsnum) \<Rightarrow> purge_config \<Rightarrow> jsnum \<Rightarrow> jsnum \<Rightarrow> asset_repo \<Rightarrow> sweep_state" where
  "purgeExpiredArchivedAssets parse cfg retentionMs now r =
     (let s0 = \<lparr> sw_repo = r, sw_purgedThisRun = [], sw_scanned = 0, sw_purged = 0,
            sw_removals = [] \<rparr>
      in if \<not> js_finite retentionMs \<or> \<not> js_lt (Fin 0) retentionMs then s0
         else sweep_loop parse cfg (js_sub now retentionMs) (listAllArchived parse r) s0)"

section \<open>The page walks are exact\<close>

definition scan_all :: "(string \<Rightarrow> jsnum) \<Rightarrow> asset_repo \<Rightarrow> list_options \<Rightarrow> asset list" where
  "scan_all parse r opts = version_sort (filter (list_matches parse opts) (vals (store r)))"

lemma scan_page_items:
  "lr_items (scan_page parse r opts offset) = take 200 (drop offset (scan_all parse r opts))"
  by (simp add: scan_page_def SCAN_PAGE_SIZE_def scan_all_def list_assets_def clampLimit_int
      Let_def)

lemma scan_page_total_eq: "lr_total (scan_page parse r opts offset) = length (scan_all parse r opts)"
  by (simp add: scan_page_def scan_all_def list_assets_def Let_def)

lemma list_from_eq: "list_from parse r opts offset = drop offset (scan_all parse r opts)"
proof (induction parse r opts offset rule: list_from.induct)
  case (1 parse r opts offset)
  let ?all = "drop offset (scan_all parse r opts)"
  show ?case
  proof (cases "length ?all < 200")
    case True
    then show ?thesis
      by (subst list_from.simps) (simp add: scan_page_items Let_def SCAN_PAGE_SIZE_def)
  next
    case False
    then have len: "length (take 200 ?all) = 200" by simp
    show ?thesis
    proof (cases "length (scan_all parse r opts) \<le> offset + 200")
      case True
      then show ?thesis using len
        by (subst list_from.simps)
          (simp add: scan_page_items scan_page_total_eq Let_def SCAN_PAGE_SIZE_def)
    next
      case notle: False
      have "list_from parse r opts (offset + 200) = drop (offset + 200) (scan_all parse r opts)"
        using 1 [OF refl refl] len notle
        by (simp add: scan_page_items scan_page_total_eq SCAN_PAGE_SIZE_def)
      moreover have "take 200 ?all @ drop (offset + 200) (scan_all parse r opts) = ?all"
        by (metis append_take_drop_id drop_drop add.commute)
      ultimately show ?thesis using len notle
        by (subst list_from.simps)
          (simp add: scan_page_items scan_page_total_eq Let_def SCAN_PAGE_SIZE_def)
    qed
  qed
qed

lemma any_child_from_eq:
  "any_child_from parse r opts purged offset =
     list_ex (\<lambda>c. a_id c \<notin> set purged) (list_from parse r opts offset)"
proof (induction parse r opts purged offset rule: any_child_from.induct)
  case (1 parse r opts purged offset)
  show ?case
    by (subst any_child_from.simps, subst list_from.simps)
      (use 1 [OF refl refl] in \<open>auto simp: Let_def\<close>)
qed

lemma listAllArchived_eq:
  "set (listAllArchived parse r) = {a \<in> set (vals (store r)). a_status a = Archived}"
  by (auto simp: listAllArchived_def list_from_eq scan_all_def list_matches_def
      withinCreatedRange_def no_options_def)

lemma anyLiveChild_iff:
  "anyLiveChild parse r p purged \<longleftrightarrow>
     (\<exists>c\<in>set (vals (store r)). a_parentId c = Some p \<and> a_id c \<notin> set purged)"
  by (auto simp: anyLiveChild_def any_child_from_eq list_from_eq scan_all_def list_matches_def
      withinCreatedRange_def no_options_def list_ex_iff)

section \<open>What the sweep does to the repository\<close>

text \<open>The invariant of the loop, against the repository \<^verbatim>\<open>r\<close> the sweep started from.\<close>

definition sweep_inv :: "(string \<Rightarrow> jsnum) \<Rightarrow> jsnum \<Rightarrow> asset_repo \<Rightarrow> sweep_state \<Rightarrow> bool" where
  "sweep_inv parse cutoff r s = (
     distinct (keys (store (sw_repo s)))
     \<and> (\<forall>i a. map_of (store (sw_repo s)) i = Some a \<longrightarrow> map_of (store r) i = Some a)
     \<and> (\<forall>i a. map_of (store r) i = Some a \<longrightarrow> map_of (store (sw_repo s)) i = None \<longrightarrow>
          a_status a = Archived \<and> sweep_expired parse cutoff a \<and> i \<in> set (tombstones (sw_repo s)))
     \<and> (\<forall>i\<in>set (sw_purgedThisRun s). map_of (store (sw_repo s)) i = None)
     \<and> (\<forall>i b p. map_of (store (sw_repo s)) i = Some b \<longrightarrow> a_parentId b = Some p \<longrightarrow>
          map_of (store r) p \<noteq> None \<longrightarrow> map_of (store (sw_repo s)) p \<noteq> None))"

lemma sweep_inv_start:
  assumes "repo_ok r"
  shows "sweep_inv parse cutoff r \<lparr> sw_repo = r, sw_purgedThisRun = [], sw_scanned = 0,
    sw_purged = 0, sw_removals = [] \<rparr>"
  using assms by (simp add: sweep_inv_def repo_ok_def)

lemma child_lookup:
  assumes "distinct (keys (store r))"
  shows "anyLiveChild parse r p purged \<longleftrightarrow>
    (\<exists>i c. map_of (store r) i = Some c \<and> a_parentId c = Some p \<and> a_id c \<notin> set purged)"
  unfolding anyLiveChild_iff Bex_def in_vals_lookup [OF assms] by blast

text \<open>The step as a case split: nothing but counters, or the removal of one stored asset.\<close>

lemma sweep_one_cases:
  obtains "sw_repo (sweep_one parse cfg cutoff a s) = sw_repo s"
      "sw_purgedThisRun (sweep_one parse cfg cutoff a s) = sw_purgedThisRun s"
      "sw_purged (sweep_one parse cfg cutoff a s) = sw_purged s"
  | "sweep_expired parse cutoff a"
      "\<not> anyLiveChild parse (sw_repo s) (a_id a) (sw_purgedThisRun s)"
      "map_of (store (sw_repo s)) (a_id a) \<noteq> None"
      "store (sw_repo (sweep_one parse cfg cutoff a s)) = AList.delete (a_id a) (store (sw_repo s))"
      "tombstones (sw_repo (sweep_one parse cfg cutoff a s)) =
         List.insert (a_id a) (tombstones (sw_repo s))"
      "sw_purgedThisRun (sweep_one parse cfg cutoff a s) = a_id a # sw_purgedThisRun s"
      "sw_purged (sweep_one parse cfg cutoff a s) = sw_purged s + 1"
proof (cases "sweep_expired parse cutoff a
    \<and> \<not> anyLiveChild parse (sw_repo s) (a_id a) (sw_purgedThisRun s)
    \<and> map_of (store (sw_repo s)) (a_id a) \<noteq> None")
  case True
  then show thesis
    by (intro that(2)) (auto simp: sweep_one_def purgeArchivedAsset_def purgeToTombstone_def Let_def)
next
  case False
  then show thesis
    by (intro that(1)) (auto simp: sweep_one_def purgeArchivedAsset_def purgeToTombstone_def Let_def)
qed

lemma sweep_one_inv:
  assumes inv: "sweep_inv parse cutoff r s" and ok: "repo_ok r"
    and a: "map_of (store r) (a_id a) = Some a" "a_status a = Archived"
  shows "sweep_inv parse cutoff r (sweep_one parse cfg cutoff a s)"
proof (cases rule: sweep_one_cases [of parse cfg cutoff a s])
  case 1
  then show ?thesis using inv by (simp add: sweep_inv_def)
next
  case 2
  let ?r = "sw_repo s"
  from inv have dist: "distinct (keys (store ?r))"
    and keep: "\<And>i a. map_of (store ?r) i = Some a \<Longrightarrow> map_of (store r) i = Some a"
    and gone: "\<And>i. i \<in> set (sw_purgedThisRun s) \<Longrightarrow> map_of (store ?r) i = None"
    by (auto simp: sweep_inv_def)
  have no_child: "a_parentId c \<noteq> Some (a_id a)" if c: "map_of (store ?r) i = Some c" for i c
  proof -
    have "a_id c = i" using asset_okD [OF ok keep [OF c]] by simp
    then have "a_id c \<notin> set (sw_purgedThisRun s)" using gone c by force
    then show ?thesis using 2(2) c unfolding child_lookup [OF dist] by blast
  qed
  show ?thesis
    using inv 2 a no_child unfolding sweep_inv_def
    by (auto split: if_splits)
qed

lemma sweep_loop_inv:
  assumes "repo_ok r" "\<forall>a\<in>set as. map_of (store r) (a_id a) = Some a \<and> a_status a = Archived"
  shows "sweep_inv parse cutoff r s \<Longrightarrow> sweep_inv parse cutoff r (sweep_loop parse cfg cutoff as s)"
  using assms(2) by (induction as arbitrary: s) (auto simp: sweep_one_inv [OF _ assms(1)])

lemma archived_lookup:
  assumes "repo_ok r" "a \<in> set (listAllArchived parse r)"
  shows "map_of (store r) (a_id a) = Some a \<and> a_status a = Archived"
proof -
  have dist: "distinct (keys (store r))" using assms(1) by (simp add: repo_ok_def)
  from assms(2) have v: "a \<in> set (vals (store r))" "a_status a = Archived"
    by (auto simp: listAllArchived_eq)
  then obtain i where "map_of (store r) i = Some a" using in_vals_lookup [OF dist] by auto
  with asset_okD [OF assms(1) this] v(2) show ?thesis by auto
qed

lemma sweep_run_inv:
  assumes "repo_ok r"
  shows "sweep_inv parse (js_sub now ret) r (purgeExpiredArchivedAssets parse cfg ret now r)"
  unfolding purgeExpiredArchivedAssets_def Let_def
  using sweep_loop_inv [OF assms, of "listAllArchived parse r" parse "js_sub now ret"]
    archived_lookup [OF assms] sweep_inv_start [OF assms] by auto

text \<open>Progress: an expired archived asset with no children does not survive the sweep.\<close>

lemma sweep_gone:
  "map_of (store (sw_repo s)) i = None \<Longrightarrow>
   map_of (store (sw_repo (sweep_loop parse cfg cutoff as s))) i = None"
proof (induction as arbitrary: s)
  case (Cons a as)
  have "map_of (store (sw_repo (sweep_one parse cfg cutoff a s))) i = None"
    by (rule sweep_one_cases [of parse cfg cutoff a s]) (use Cons.prems in auto)
  with Cons.IH show ?case by simp
qed simp

lemma sweep_progress:
  assumes ok: "repo_ok r" and a: "a \<in> set as" "sweep_expired parse cutoff a"
    and nc: "\<And>i c. map_of (store r) i = Some c \<Longrightarrow> a_parentId c \<noteq> Some (a_id a)"
    and all: "\<forall>a\<in>set as. map_of (store r) (a_id a) = Some a \<and> a_status a = Archived"
  shows "sweep_inv parse cutoff r s \<Longrightarrow>
    map_of (store (sw_repo (sweep_loop parse cfg cutoff as s))) (a_id a) = None"
  using a(1) all
proof (induction as arbitrary: s)
  case (Cons b as)
  let ?s = "sweep_one parse cfg cutoff b s"
  have inv: "sweep_inv parse cutoff r ?s" using sweep_one_inv [OF Cons.prems(1) ok] Cons.prems(3) by simp
  show ?case
  proof (cases "b = a")
    case True
    from Cons.prems(1) have dist: "distinct (keys (store (sw_repo s)))"
      and keep: "\<And>i a. map_of (store (sw_repo s)) i = Some a \<Longrightarrow> map_of (store r) i = Some a"
      by (auto simp: sweep_inv_def)
    have "\<not> anyLiveChild parse (sw_repo s) (a_id a) (sw_purgedThisRun s)"
      unfolding child_lookup [OF dist] using keep nc by blast
    then have "map_of (store (sw_repo ?s)) (a_id a) = None"
      using a(2) True
      by (auto simp: sweep_one_def purgeArchivedAsset_def purgeToTombstone_def Let_def)
    then show ?thesis using sweep_gone by simp
  next
    case False
    then show ?thesis using Cons.IH [OF inv] Cons.prems by simp
  qed
qed simp

section \<open>Properties\<close>

text \<open>C3. The purge sweep is safe: an asset it removes was archived and past the cutoff
  and leaves a tombstone, every asset it keeps is unchanged, and no asset it keeps
  loses its parent; with retention disabled (not a positive finite number) it
  changes nothing.\<close>

theorem purge_sweep_safe:
  assumes "repo_ok r" "sw_repo (purgeExpiredArchivedAssets parse cfg ret now r) = r'"
  shows "(\<forall>i a. map_of (store r') i = Some a \<longrightarrow> map_of (store r) i = Some a)
    \<and> (\<forall>i a. map_of (store r) i = Some a \<longrightarrow> map_of (store r') i = None \<longrightarrow>
         a_status a = Archived \<and> sweep_expired parse (js_sub now ret) a \<and> getState r' i = IsTombstone)
    \<and> (\<forall>i b p. map_of (store r') i = Some b \<longrightarrow> a_parentId b = Some p \<longrightarrow>
         map_of (store r) p \<noteq> None \<longrightarrow> map_of (store r') p \<noteq> None)
    \<and> (\<not> js_finite ret \<or> \<not> js_lt (Fin 0) ret \<longrightarrow> r' = r)"
proof -
  have inv: "sweep_inv parse (js_sub now ret) r (purgeExpiredArchivedAssets parse cfg ret now r)"
    by (rule sweep_run_inv [OF assms(1)])
  have off: "r' = r" if "\<not> js_finite ret \<or> \<not> js_lt (Fin 0) ret"
    using that by (auto simp: assms(2) [symmetric] purgeExpiredArchivedAssets_def Let_def)
  show ?thesis using inv off unfolding sweep_inv_def assms(2)
    by (auto simp: getState_def)
qed

text \<open>The purge sweep makes progress: an archived asset past the cutoff that no
  stored asset names as its parent is gone after one sweep, whatever else is in the
  repository and however many pages it takes to list it.\<close>

theorem purge_sweep_progress:
  assumes "repo_ok r" "map_of (store r) i = Some a" "a_status a = Archived"
    "sweep_expired parse (js_sub now ret) a" "js_finite ret" "js_lt (Fin 0) ret"
    "\<And>j c. map_of (store r) j = Some c \<Longrightarrow> a_parentId c \<noteq> Some i"
  shows "map_of (store (sw_repo (purgeExpiredArchivedAssets parse cfg ret now r))) i = None"
proof -
  have id: "a_id a = i" using asset_okD [OF assms(1,2)] by simp
  have "a \<in> set (vals (store r))"
    using assms(2) by (force simp: vals_def dest: map_of_SomeD)
  then have mem: "a \<in> set (listAllArchived parse r)" using assms(3) by (simp add: listAllArchived_eq)
  show ?thesis
    using sweep_progress [OF assms(1) mem assms(4) _ _ sweep_inv_start [OF assms(1)], of cfg]
      archived_lookup [OF assms(1)] assms(5,6,7) id
    by (auto simp: purgeExpiredArchivedAssets_def Let_def)
qed

text \<open>The retention window shown on reads is the one the sweep acts on: for a
  whole number of milliseconds, an archived asset is eligible at \<^verbatim>\<open>now\<close> exactly when
  \<^verbatim>\<open>now\<close> has reached the instant \<^verbatim>\<open>purgeAfter\<close> shows, and it shows none when the
  window is disabled or the stamp cannot be parsed.\<close>

theorem retention_window_matches_sweep:
  assumes "a_status a = Archived" "0 < n" "parse (archivedAtOf a) = Fin t"
    "\<bar>t + of_int n\<bar> \<le> MAX_TIME_VALUE_MS"
  shows "\<exists>w. assetRetentionWindow parse toISO a (js_of_int n) = Some w
    \<and> rw_purgeAfter w = Val (toISO (t + of_int n)) \<and> rw_retentionMs w = n
    \<and> (sweep_expired parse (js_sub (Fin now) (js_of_int n)) a \<longleftrightarrow> t + of_int n \<le> now)"
  using assms
  by (simp add: assetRetentionWindow_def effective_retention_def purgeAfterOf_def js_of_int_def
      sweep_expired_def js_sub_def Let_def not_less algebra_simps)

section \<open>An example\<close>

definition demo_parse :: "string \<Rightarrow> jsnum" where
  "demo_parse s = (if s = ''t1'' then Fin 1000 else NaN)"

definition demo_archived :: asset where
  "demo_archived = (new_asset \<lparr> ce_now = ''t0'', ce_ulid = ''A'', ce_rnd = (\<lambda>_. 0), ce_stack = None,
       ce_nfkd = id, ce_base36 = (\<lambda>_. []) \<rparr> ''a'' \<lparr> ci_name = ''n'', ci_slug = None,
       ci_description = None, ci_parentId = None, ci_versionOfAssetId = None,
       ci_versionGroupId = None, ci_objectKey = Some ''k'', ci_metadata = None, ci_tags = None,
       ci_sourceMethod = None, ci_originUri = None, ci_stackName = None \<rparr>)
     \<lparr> a_status := Archived, a_statusHistory := initialHistory ''t0'' @
         [\<lparr> st_at = ''t1'', st_from = Some Uploading, st_to = Archived, st_reason = None \<rparr>] \<rparr>"

definition demo_purge_repo :: asset_repo where
  "demo_purge_repo = \<lparr> store = [(''A'', demo_archived)], tombstones = [] \<rparr>"

lemma demo_archived_fields:
  "a_id demo_archived = ''A''" "a_status demo_archived = Archived"
  "archivedAtOf demo_archived = ''t1''" "a_parentId demo_archived = None"
  by (simp_all add: demo_archived_def new_asset_def archivedAtOf_def Let_def)

lemma demo_purge_repo_ok: "repo_ok demo_purge_repo"
proof -
  have "lifecycle (a_statusHistory demo_archived) Archived"
    by (simp add: demo_archived_def)
      (rule lifecycle.moved [OF lifecycle.created], simp_all)
  then show ?thesis
    by (simp add: repo_ok_def demo_purge_repo_def asset_ok_def demo_archived_fields)
      (simp add: demo_archived_def new_asset_def Let_def)
qed

lemma demo_expired: "sweep_expired demo_parse (js_sub (Fin 5000) (Fin 3000)) demo_archived"
  by (simp add: sweep_expired_def demo_archived_fields demo_parse_def js_sub_def)

definition demo_cfg :: purge_config where
  "demo_cfg = \<lparr> pc_storage = (\<lambda>_. True), pc_sourceBucket = ''src'', pc_packagedBucket = ''pkg'' \<rparr>"

lemma purge_sweep_progress_witness:
  "map_of (store (sw_repo (purgeExpiredArchivedAssets demo_parse demo_cfg (Fin 3000) (Fin 5000)
     demo_purge_repo))) ''A'' = None"
proof (rule purge_sweep_progress [OF demo_purge_repo_ok])
  show "map_of (store demo_purge_repo) ''A'' = Some demo_archived"
    by (simp add: demo_purge_repo_def)
  show "a_parentId c \<noteq> Some ''A''" if "map_of (store demo_purge_repo) j = Some c" for j c
    using that by (simp add: demo_purge_repo_def demo_archived_fields split: if_splits)
qed (simp_all add: demo_archived_fields demo_expired)

lemma purge_sweep_safe_witness:
  "getState (sw_repo (purgeExpiredArchivedAssets demo_parse demo_cfg (Fin 3000) (Fin 5000)
     demo_purge_repo)) ''A'' = IsTombstone"
proof -
  let ?s = "purgeExpiredArchivedAssets demo_parse demo_cfg (Fin 3000) (Fin 5000) demo_purge_repo"
  have a: "map_of (store demo_purge_repo) ''A'' = Some demo_archived"
    by (simp add: demo_purge_repo_def)
  have gone: "map_of (store (sw_repo ?s)) ''A'' = None"
    by code_simp
  show ?thesis
    using purge_sweep_safe [OF demo_purge_repo_ok refl, of demo_parse demo_cfg "Fin 3000" "Fin 5000"]
      a gone by blast
qed

lemma retention_window_matches_sweep_witness:
  "\<exists>w. assetRetentionWindow demo_parse (\<lambda>_. ''z'') demo_archived (js_of_int 3000) = Some w
     \<and> rw_purgeAfter w = Val ''z''"
proof -
  have p: "demo_parse (archivedAtOf demo_archived) = Fin 1000"
    by (simp add: demo_archived_fields demo_parse_def)
  show ?thesis
    using retention_window_matches_sweep [where parse = demo_parse and a = demo_archived
        and n = 3000 and t = 1000 and toISO = "\<lambda>_. ''z''" and now = 0] p
    by (auto simp: MAX_TIME_VALUE_MS_def demo_archived_fields)
qed

end
