(* ===== verification/Retry_Policy.thy ===== *)
theory Retry_Policy
  imports Job_Repo
begin

text \<open>
  The failure taxonomy of encodes (\<^verbatim>\<open>src/src/encore-scaler/retry-policy.ts\<close>): which
  failure messages are worth another attempt, and how long to wait. \<^verbatim>\<open>pathname\<close>
  stands for the standard \<^verbatim>\<open>new URL(..).pathname\<close>, \<^verbatim>\<open>None\<close> where the constructor
  throws.
\<close>

datatype failure_class = Message message_failure_class | InterruptedByScaleDown

definition MAX_ENCODE_ATTEMPTS :: int where "MAX_ENCODE_ATTEMPTS = 3"

definition BACKOFF_MS :: "int list" where "BACKOFF_MS = [15000, 60000]"

definition TRANSCODE_STALL_SIGNATURE :: string where
  "TRANSCODE_STALL_SIGNATURE = ''transcode progress stalled''"

definition TRANSPORT_SIGNATURES :: "string list" where
  "TRANSPORT_SIGNATURES = [
     TRANSCODE_STALL_SIGNATURE,
     ''sdkclientexception'',
     ''acquire operation took longer than the configured maximum time'',
     ''unable to execute http request'',
     ''connection pool shut down'',
     ''connection reset'',
     ''read timed out'',
     ''connection timed out'']"

definition IO_RETRYABLE_SIGNATURES :: "string list" where
  "IO_RETRYABLE_SIGNATURES = [
     ''error during demuxing: i/o error'',
     ''i/o error'',
     ''stream ends prematurely'',
     ''corrupt input packet'',
     ''invalid nal unit size'']"

section \<open>The HTTP failure detail in a message\<close>

definition is_ws :: "char \<Rightarrow> bool" where
  "is_ws c = ((of_char c :: nat) \<in> {9, 10, 11, 12, 13, 32, 160})"

definition skip_ws :: "string \<Rightarrow> string" where
  "skip_ws s = dropWhile is_ws s"

text \<open>
  One attempt of the regular expression at a position: the literal text in any
  case, optional space, three digits, space, the second literal, optional space,
  and the longest run of non-space.
\<close>

definition http_failure_here :: "string \<Rightarrow> (string \<times> string) option" where
  "http_failure_here s =
     (let p1 = ''server returned http response code:'' in
      if \<not> prefix p1 (to_lower s) then None
      else let r = skip_ws (drop (length p1) s); code = take 3 r; r2 = drop 3 r
        in if length code < 3 \<or> \<not> list_all is_digit code then None
           else if r2 = [] \<or> \<not> is_ws (hd r2) then None
           else let r3 = skip_ws r2; p2 = ''for url:''
             in if \<not> prefix p2 (to_lower r3) then None
                else let url = takeWhile (\<lambda>c. \<not> is_ws c) (skip_ws (drop (length p2) r3))
                  in if url = [] then None else Some (code, url))"

fun http_failure_search :: "string \<Rightarrow> (string \<times> string) option" where
  "http_failure_search [] = http_failure_here []"
| "http_failure_search (c # s) = (case http_failure_here (c # s) of
       Some m \<Rightarrow> Some m | None \<Rightarrow> http_failure_search s)"

definition digits_value :: "string \<Rightarrow> nat" where
  "digits_value ds = fold (\<lambda>c n. n * 10 + (of_char c - 48)) ds 0"

definition parseHttpFailureDetail :: "string option \<Rightarrow> (nat \<times> string) option" where
  "parseHttpFailureDetail message =
     (if \<not> truthy message then None
      else case http_failure_search (the message) of
             None \<Rightarrow> None
           | Some (code, url) \<Rightarrow>
               let status = digits_value code
               in if status < 100 \<or> 599 < status then None else Some (status, url))"

definition PROFILES_INDEX_PATH :: string where
  "PROFILES_INDEX_PATH = ''/api/v1/profiles/index.yml''"

definition stack_index_path :: "string \<Rightarrow> bool" where
  "stack_index_path s =
     (suffix ''/index.yml'' s \<and>
      (let body = take (length s - length ''/index.yml'') s;
           mid = takeWhile (\<lambda>c. c \<noteq> CHR ''/'') (rev body);
           pre = take (length body - length mid) body
       in mid \<noteq> [] \<and> suffix ''/api/v1/profiles/stacks/'' pre))"

definition isProfilesIndexUrl :: "(string \<Rightarrow> string option) \<Rightarrow> string \<Rightarrow> bool" where
  "isProfilesIndexUrl pathname url =
     (let path = (case pathname url of Some p \<Rightarrow> p
            | None \<Rightarrow> takeWhile (\<lambda>c. c \<noteq> CHR ''?'' \<and> c \<noteq> CHR ''#'') url);
          lower = to_lower path
      in suffix PROFILES_INDEX_PATH lower \<or> stack_index_path lower)"

definition isProfilesIndexAuthFailure :: "(string \<Rightarrow> string option) \<Rightarrow> string option \<Rightarrow> bool" where
  "isProfilesIndexAuthFailure pathname message = (case parseHttpFailureDetail message of
       None \<Rightarrow> False
     | Some (status, url) \<Rightarrow> (status = 401 \<or> status = 403) \<and> isProfilesIndexUrl pathname url)"

section \<open>Classification and backoff\<close>

definition classifyEncoreFailure ::
  "(string \<Rightarrow> string option) \<Rightarrow> string option \<Rightarrow> message_failure_class" where
  "classifyEncoreFailure pathname message =
     (if \<not> truthy message then Deterministic
      else if isProfilesIndexAuthFailure pathname message then Transport
      else let hay = to_lower (the message)
        in if list_ex (str_includes hay) TRANSPORT_SIGNATURES then Transport
           else if list_ex (str_includes hay) IO_RETRYABLE_SIGNATURES then IoRetryable
           else Deterministic)"

fun isRetryableFailureClass :: "failure_class \<Rightarrow> bool" where
  "isRetryableFailureClass (Message Transport) = True"
| "isRetryableFailureClass (Message IoRetryable) = True"
| "isRetryableFailureClass InterruptedByScaleDown = True"
| "isRetryableFailureClass (Message Deterministic) = False"

fun isScaleDownInterruption :: "failure_class \<Rightarrow> bool" where
  "isScaleDownInterruption InterruptedByScaleDown = True"
| "isScaleDownInterruption (Message c) = False"

definition backoffForAttempt :: "int \<Rightarrow> int" where
  "backoffForAttempt attemptsSoFar =
     (if attemptsSoFar < 1 then 0
      else BACKOFF_MS ! nat (min (attemptsSoFar - 1) (int (length BACKOFF_MS) - 1)))"

lemma backoffForAttempt_cases:
  "backoffForAttempt n = (if n < 1 then 0 else if n = 1 then 15000 else 60000)"
  by (auto simp: backoffForAttempt_def BACKOFF_MS_def min_def nth_Cons' nat_eq_iff2)

lemma str_includes_append: "str_includes s p \<Longrightarrow> str_includes (a @ s @ b) p"
  unfolding str_includes_iff by (metis sublist_appendI sublist_order.order_trans)

lemma to_lower_append [simp]: "to_lower (a @ b) = to_lower a @ to_lower b"
  by (simp add: to_lower_def)

lemma signatures_nonempty: "sig \<in> set (TRANSPORT_SIGNATURES @ IO_RETRYABLE_SIGNATURES) \<Longrightarrow> sig \<noteq> []"
  by (auto simp: TRANSPORT_SIGNATURES_def IO_RETRYABLE_SIGNATURES_def TRANSCODE_STALL_SIGNATURE_def)

lemma includes_nonempty: "str_includes (to_lower m) sig \<Longrightarrow> sig \<noteq> [] \<Longrightarrow> m \<noteq> []"
  by (cases m) (auto simp: to_lower_def)

text \<open>The failure taxonomy is stable under surrounding text: a message that contains a
  transport signature, in any case and anywhere, is a transport failure, one that
  contains an input signature is never final, and an absent or empty message is.\<close>

theorem classification_stable:
  "((\<exists>sig\<in>set TRANSPORT_SIGNATURES. str_includes (to_lower m) sig) \<longrightarrow>
      classifyEncoreFailure pathname (Some (a @ m @ b)) = Transport)
   \<and> ((\<exists>sig\<in>set IO_RETRYABLE_SIGNATURES. str_includes (to_lower m) sig) \<longrightarrow>
      isRetryableFailureClass (Message (classifyEncoreFailure pathname (Some (a @ m @ b)))))
   \<and> classifyEncoreFailure pathname None = Deterministic
   \<and> classifyEncoreFailure pathname (Some []) = Deterministic"
proof -
  have ne: "a @ m @ b \<noteq> []"
    if "sig \<in> set (TRANSPORT_SIGNATURES @ IO_RETRYABLE_SIGNATURES)" "str_includes (to_lower m) sig" for sig
    using includes_nonempty [OF that(2) signatures_nonempty [OF that(1)]] by simp
  have up: "str_includes (to_lower (a @ m @ b)) sig" if "str_includes (to_lower m) sig" for sig
    using str_includes_append [OF that] by simp
  show ?thesis
  proof (intro conjI impI)
    assume "\<exists>sig\<in>set TRANSPORT_SIGNATURES. str_includes (to_lower m) sig"
    then obtain sig where sig: "sig \<in> set TRANSPORT_SIGNATURES" "str_includes (to_lower m) sig" by blast
    then have "list_ex (str_includes (to_lower (a @ m @ b))) TRANSPORT_SIGNATURES"
      using up by (auto simp: list_ex_iff)
    with ne [of sig] sig show "classifyEncoreFailure pathname (Some (a @ m @ b)) = Transport"
      by (simp add: classifyEncoreFailure_def Let_def)
  next
    assume "\<exists>sig\<in>set IO_RETRYABLE_SIGNATURES. str_includes (to_lower m) sig"
    then obtain sig where sig: "sig \<in> set IO_RETRYABLE_SIGNATURES" "str_includes (to_lower m) sig" by blast
    then have "list_ex (str_includes (to_lower (a @ m @ b))) IO_RETRYABLE_SIGNATURES"
      using up by (auto simp: list_ex_iff)
    with ne [of sig] sig
    show "isRetryableFailureClass (Message (classifyEncoreFailure pathname (Some (a @ m @ b))))"
      by (simp add: classifyEncoreFailure_def Let_def)
  qed (simp_all add: classifyEncoreFailure_def)
qed

lemma classification_stable_witness:
  "classifyEncoreFailure (\<lambda>_. None) (Some (''x '' @ ''Connection RESET'' @ '' y'')) = Transport"
proof -
  have "str_includes (to_lower ''Connection RESET'') ''connection reset''" by code_simp
  moreover have "''connection reset'' \<in> set TRANSPORT_SIGNATURES"
    by (simp add: TRANSPORT_SIGNATURES_def)
  ultimately show ?thesis
    using classification_stable [of "''Connection RESET''" "\<lambda>_. None" "''x ''" "'' y''"] by blast
qed

end
