(* ===== verification/Valkey.thy ===== *)
theory Valkey
  imports Retry_Policy
begin

text \<open>
  The shared store of the auto-scaler for one workspace
  (\<^verbatim>\<open>src/src/encore-scaler/types.ts\<close>: record types and the key schema). The Valkey
  structures are the fields of one record: lists with their left end first (so
  \<^verbatim>\<open>LPUSH\<close> is \<^verbatim>\<open>#\<close>, \<^verbatim>\<open>RPUSH\<close> is \<^verbatim>\<open>@ [x]\<close> and \<^verbatim>\<open>RPOPLPUSH\<close> takes the last element),
  hashes and plain keys as maps in insertion order, a set of packaging pins per
  instance. A value that is not valid JSON is an explicit constructor. Keys that
  expire do so as a step of the environment; commands do not fail.

  The calls the scaler makes on the outside world (destroying an instance on OSC,
  posting to Encore, the hooks into the job repository) are recorded in the log
  fields of the same state, in order.
\<close>

record queued_job =
  q_jobId :: string
  q_payload :: json
  q_enqueuedAt :: int
  q_notBefore :: "int option"
  q_attempts :: "int option"

datatype queue_entry = Parsed queued_job | Unparseable string

text \<open>A stamp read back from JSON: a number, or text repaired by hand.\<close>

datatype stamp = StampNum jsnum | StampText string

record instance_record =
  i_instanceId :: string
  i_url :: string
  i_callbackListenerUrl :: "string option"
  i_callbackTrustReady :: "bool option"
  i_callbackTrustConfirmedAt :: "int option"
  i_callbackTrustFirstProbeAt :: "int option"
  i_callbackTrustQuarantinedAt :: "int option"
  i_callbackPathUnusableAt :: "int option"
  i_callbackPathUnusableStatus :: "int option"
  i_activeJobs :: int
  i_lastIdleAt :: "stamp option"
  i_readyAt :: "stamp option"
  i_draining :: "bool option"
  i_cancelDrainingSince :: "int option"
  i_pendingReadySince :: "int option"
  i_listenerCreateAttempts :: "int option"
  i_listenerCreateNextAttemptAt :: "int option"
  i_listenerCreateBlockedAt :: "int option"

datatype pool_entry = Instance instance_record | CorruptInstance string

datatype payload_entry = Payload json | CorruptPayload string

definition JOBS_PER_INSTANCE :: int where "JOBS_PER_INSTANCE = 1"

record spawn_failure_record =
  sf_at :: int
  sf_attempts :: int
  sf_consecutiveFailures :: int
  sf_message :: string
  sf_httpCode :: "int option"

record scaler =
  v_queue :: "queue_entry list"
  v_inflight :: "queue_entry list"
  v_pool :: "(string, pool_entry) jsmap"
  v_jobInstance :: "(string, string) jsmap"
  v_jobStatus :: "(string, string) jsmap"
  v_jobUuid :: "(string, string) jsmap"
  v_uuidToExternalId :: "(string, string) jsmap"
  v_jobEncoreUrl :: "(string, string) jsmap"
  v_jobTerminalInstance :: "(string, string) jsmap"
  v_jobPayload :: "(string, payload_entry) jsmap"
  v_jobAttempts :: "(string, int) jsmap"
  v_jobCompletionSeen :: "(string, int) jsmap"
  v_jobCancelRequested :: "(string, int) jsmap"
  v_partialVisibilityDropPasses :: "(string, int) jsmap"
  v_pendingPackaging :: "(string, string list) jsmap"
  v_spawnFailure :: "spawn_failure_record option"
  l_destroyed :: "string list"
  l_cancelPosts :: "string list"
  l_dispatched :: "(string \<times> string \<times> int) list"
  l_interrupted :: "string list"
  l_dropped :: "(string \<times> string option) list"

definition empty_scaler :: scaler where
  "empty_scaler = \<lparr> v_queue = [], v_inflight = [], v_pool = [], v_jobInstance = [],
     v_jobStatus = [], v_jobUuid = [], v_uuidToExternalId = [], v_jobEncoreUrl = [],
     v_jobTerminalInstance = [], v_jobPayload = [], v_jobAttempts = [],
     v_jobCompletionSeen = [], v_jobCancelRequested = [], v_partialVisibilityDropPasses = [],
     v_pendingPackaging = [], v_spawnFailure = None, l_destroyed = [], l_cancelPosts = [],
     l_dispatched = [], l_interrupted = [], l_dropped = [] \<rparr>"

text \<open>\<^verbatim>\<open>listInstances\<close> and \<^verbatim>\<open>updateInstance\<close> (\<^verbatim>\<open>instance-pool.ts\<close>).\<close>

fun pool_records :: "(string, pool_entry) jsmap \<Rightarrow> instance_record list" where
  "pool_records [] = []"
| "pool_records ((k, Instance i) # p) = i # pool_records p"
| "pool_records ((k, CorruptInstance s) # p) = pool_records p"

definition listInstances :: "scaler \<Rightarrow> instance_record list" where
  "listInstances s = pool_records (v_pool s)"

definition updateInstance :: "instance_record \<Rightarrow> scaler \<Rightarrow> scaler" where
  "updateInstance i s = s\<lparr> v_pool := AList.update (i_instanceId i) (Instance i) (v_pool s) \<rparr>"

text \<open>The status of a job as the code compares it: absent reads as the empty string.\<close>

definition status_of :: "scaler \<Rightarrow> string \<Rightarrow> string" where
  "status_of s j = to_upper (coalesce (map_of (v_jobStatus s) j) [])"

definition live_status :: "string \<Rightarrow> bool" where
  "live_status st = (st = ''RUNNING'' \<or> st = ''QUEUED'')"

definition terminal_status :: "string \<Rightarrow> bool" where
  "terminal_status st = (st = ''CANCELLED'' \<or> st = ''FAILED'' \<or> st = ''DONE'' \<or> st = ''SUCCESSFUL'')"

definition set_status :: "string \<Rightarrow> string \<Rightarrow> scaler \<Rightarrow> scaler" where
  "set_status j st s = s\<lparr> v_jobStatus := AList.update j st (v_jobStatus s) \<rparr>"

text \<open>Status texts compare equal to what they are written as.\<close>

lemma to_upper_consts [simp]:
  "to_upper ''RUNNING'' = ''RUNNING''" "to_upper ''running'' = ''RUNNING''"
  "to_upper ''QUEUED'' = ''QUEUED''" "to_upper ''FAILED'' = ''FAILED''"
  "to_upper ''CANCELLED'' = ''CANCELLED''" "to_upper [] = []"
  by code_simp+

lemma live_status_simps [simp]:
  "live_status ''RUNNING''" "live_status ''QUEUED''" "\<not> live_status ''FAILED''"
  "\<not> live_status ''CANCELLED''" "\<not> live_status ''DONE''" "\<not> live_status ''SUCCESSFUL''"
  "\<not> live_status []"
  by (simp_all add: live_status_def)

lemma terminal_not_live: "terminal_status st \<Longrightarrow> \<not> live_status st"
  by (auto simp: terminal_status_def)

lemma status_of_set_status [simp]:
  "status_of (set_status j st s) k = (if k = j then to_upper st else status_of s k)"
  by (simp add: status_of_def set_status_def)

lemma set_status_frame [simp]:
  "v_queue (set_status j st s) = v_queue s" "v_inflight (set_status j st s) = v_inflight s"
  "v_pool (set_status j st s) = v_pool s" "v_jobInstance (set_status j st s) = v_jobInstance s"
  "v_jobPayload (set_status j st s) = v_jobPayload s" "v_jobAttempts (set_status j st s) = v_jobAttempts s"
  "v_jobUuid (set_status j st s) = v_jobUuid s" "v_jobEncoreUrl (set_status j st s) = v_jobEncoreUrl s"
  "v_jobTerminalInstance (set_status j st s) = v_jobTerminalInstance s"
  "v_pendingPackaging (set_status j st s) = v_pendingPackaging s"
  "v_jobCompletionSeen (set_status j st s) = v_jobCompletionSeen s"
  "v_jobCancelRequested (set_status j st s) = v_jobCancelRequested s"
  "v_partialVisibilityDropPasses (set_status j st s) = v_partialVisibilityDropPasses s"
  "l_destroyed (set_status j st s) = l_destroyed s" "l_dispatched (set_status j st s) = l_dispatched s"
  "l_dropped (set_status j st s) = l_dropped s" "l_cancelPosts (set_status j st s) = l_cancelPosts s"
  "l_interrupted (set_status j st s) = l_interrupted s"
  by (simp_all add: set_status_def)

text \<open>The jobs of the queue and of the inflight list, as the code finds them.\<close>

fun entry_job :: "queue_entry \<Rightarrow> string option" where
  "entry_job (Parsed q) = Some (q_jobId q)"
| "entry_job (Unparseable t) = None"

definition entries_of :: "scaler \<Rightarrow> queue_entry list" where
  "entries_of s = v_queue s @ v_inflight s"

definition hasQueuedOrInflightEntry :: "string \<Rightarrow> scaler \<Rightarrow> bool" where
  "hasQueuedOrInflightEntry j s = list_ex (\<lambda>e. entry_job e = Some j) (entries_of s)"

definition pending_count :: "string \<Rightarrow> scaler \<Rightarrow> nat" where
  "pending_count j s = length (filter (\<lambda>e. entry_job e = Some j) (entries_of s))"

lemma pending_count_0_iff: "pending_count j s = 0 \<longleftrightarrow> \<not> hasQueuedOrInflightEntry j s"
  by (auto simp: pending_count_def hasQueuedOrInflightEntry_def list_ex_iff filter_empty_conv)

text \<open>\<^verbatim>\<open>RPOPLPUSH\<close> from the queue to the inflight list.\<close>

definition rpoplpush :: "scaler \<Rightarrow> scaler \<times> queue_entry option" where
  "rpoplpush s = (if v_queue s = [] then (s, None)
     else (s\<lparr> v_queue := butlast (v_queue s), v_inflight := last (v_queue s) # v_inflight s \<rparr>,
           Some (last (v_queue s))))"

text \<open>\<^verbatim>\<open>LREM key 1 value\<close> removes the first occurrence from the left.\<close>

definition lrem_inflight :: "queue_entry \<Rightarrow> scaler \<Rightarrow> scaler" where
  "lrem_inflight e s = s\<lparr> v_inflight := remove1 e (v_inflight s) \<rparr>"

definition rpush_queue :: "queue_entry \<Rightarrow> scaler \<Rightarrow> scaler" where
  "rpush_queue e s = s\<lparr> v_queue := v_queue s @ [e] \<rparr>"

definition lpush_queue :: "queue_entry \<Rightarrow> scaler \<Rightarrow> scaler" where
  "lpush_queue e s = s\<lparr> v_queue := e # v_queue s \<rparr>"

lemma claim_and_return:
  assumes "rpoplpush s = (s', Some e)"
  shows "rpush_queue e (lrem_inflight e s') = s"
  using assms by (auto simp: rpoplpush_def rpush_queue_def lrem_inflight_def split: if_splits)

end
