(* ===== verification/Retry_Store.thy ===== *)
theory Retry_Store
  imports Valkey
begin

text \<open>
  Retry and re-enqueue decisions (\<^verbatim>\<open>src/src/encore-scaler/retry-store.ts\<close>) on the
  shared store. \<^verbatim>\<open>cancels\<close> says whether a prior-attempt canceler is wired; the
  cancel it posts is recorded in \<^verbatim>\<open>l_cancelPosts\<close> and its failure is ignored, as in
  the code.
\<close>

definition cancelPriorActiveAttempt :: "string \<Rightarrow> bool \<Rightarrow> scaler \<Rightarrow> scaler" where
  "cancelPriorActiveAttempt jobId cancels s =
     (if \<not> cancels then s
      else case map_of (v_jobEncoreUrl s) jobId of
             None \<Rightarrow> s
           | Some url \<Rightarrow> if url = [] then s else s\<lparr> l_cancelPosts := l_cancelPosts s @ [url] \<rparr>)"

definition recordDispatch :: "string \<Rightarrow> json \<Rightarrow> int \<Rightarrow> scaler \<Rightarrow> scaler" where
  "recordDispatch jobId payload attempts s =
     s\<lparr> v_jobPayload := AList.update jobId (Payload payload) (v_jobPayload s),
        v_jobAttempts := AList.update jobId attempts (v_jobAttempts s) \<rparr>"

definition clearRetryState :: "string \<Rightarrow> scaler \<Rightarrow> scaler" where
  "clearRetryState jobId s =
     s\<lparr> v_jobPayload := AList.delete jobId (v_jobPayload s),
        v_jobAttempts := AList.delete jobId (v_jobAttempts s) \<rparr>"

text \<open>\<^verbatim>\<open>Number(raw ?? d) || d\<close> of a stored count.\<close>

definition stored_count :: "int option \<Rightarrow> int \<Rightarrow> int" where
  "stored_count raw d = (let n = coalesce raw d in if n = 0 then d else n)"

text \<open>The part both re-enqueues share: the job reads RUNNING again, its attempt mappings
  are dropped, and the entry goes to the tail of the queue.\<close>

definition reenqueue :: "queued_job \<Rightarrow> scaler \<Rightarrow> scaler" where
  "reenqueue q s =
     (let j = q_jobId q;
          s1 = set_status j ''RUNNING'' s;
          s2 = s1\<lparr> v_jobInstance := AList.delete j (v_jobInstance s1) \<rparr>;
          s3 = s2\<lparr> v_jobUuid := AList.delete j (v_jobUuid s2),
                   v_jobEncoreUrl := AList.delete j (v_jobEncoreUrl s2),
                   v_jobTerminalInstance := AList.delete j (v_jobTerminalInstance s2) \<rparr>
      in lpush_queue (Parsed q) s3)"

definition requeueInterruptedByScaleDown ::
  "string \<Rightarrow> bool \<Rightarrow> int \<Rightarrow> scaler \<Rightarrow> scaler \<times> bool" where
  "requeueInterruptedByScaleDown jobId cancels now s = (case map_of (v_jobPayload s) jobId of
       Some (Payload payload) \<Rightarrow>
         let attemptsSoFar = stored_count (map_of (v_jobAttempts s) jobId) 0;
             requeued = \<lparr> q_jobId = jobId, q_payload = payload, q_enqueuedAt = now,
               q_notBefore = None, q_attempts = Some attemptsSoFar \<rparr>
         in (reenqueue requeued (cancelPriorActiveAttempt jobId cancels s), True)
     | _ \<Rightarrow> (s, False))"

datatype settle_reason = Exhausted | NotRetryable

datatype retry_decision =
    Retry int message_failure_class int
  | Skip message_failure_class
  | Settle settle_reason message_failure_class

definition decideRetry ::
  "(string \<Rightarrow> string option) \<Rightarrow> string \<Rightarrow> string option \<Rightarrow> bool \<Rightarrow> int \<Rightarrow> scaler
   \<Rightarrow> scaler \<times> retry_decision" where
  "decideRetry pathname jobId failureMessage cancels now s =
     (let failureClass = classifyEncoreFailure pathname failureMessage in
      if \<not> isRetryableFailureClass (Message failureClass) then (s, Settle NotRetryable failureClass)
      else
        let attemptsSoFar = stored_count (map_of (v_jobAttempts s) jobId) 1 in
        if MAX_ENCODE_ATTEMPTS \<le> attemptsSoFar then (s, Settle Exhausted failureClass)
        else case map_of (v_jobPayload s) jobId of
               Some (Payload payload) \<Rightarrow>
                 if hasQueuedOrInflightEntry jobId s then (s, Skip failureClass)
                 else
                   let backoffMs = backoffForAttempt attemptsSoFar;
                       requeued = \<lparr> q_jobId = jobId, q_payload = payload, q_enqueuedAt = now,
                         q_notBefore = Some (now + backoffMs), q_attempts = Some attemptsSoFar \<rparr>
                   in (reenqueue requeued (cancelPriorActiveAttempt jobId cancels s),
                       Retry (attemptsSoFar + 1) failureClass backoffMs)
             | _ \<Rightarrow> (s, Settle NotRetryable failureClass))"

section \<open>Facts about re-enqueueing\<close>

lemma reenqueue_queue [simp]:
  "v_queue (reenqueue q s) = Parsed q # v_queue s" "v_inflight (reenqueue q s) = v_inflight s"
  by (simp_all add: reenqueue_def lpush_queue_def Let_def)

lemma reenqueue_status [simp]:
  "status_of (reenqueue q s) j = (if j = q_jobId q then ''RUNNING'' else status_of s j)"
  by (simp add: reenqueue_def lpush_queue_def status_of_def set_status_def Let_def)

lemma reenqueue_instance [simp]:
  "map_of (v_jobInstance (reenqueue q s)) = (map_of (v_jobInstance s))(q_jobId q := None)"
  by (simp add: reenqueue_def lpush_queue_def Let_def)

lemma reenqueue_frame [simp]:
  "v_pool (reenqueue q s) = v_pool s" "v_jobPayload (reenqueue q s) = v_jobPayload s"
  "v_jobAttempts (reenqueue q s) = v_jobAttempts s"
  "v_pendingPackaging (reenqueue q s) = v_pendingPackaging s"
  "v_jobCancelRequested (reenqueue q s) = v_jobCancelRequested s"
  "v_jobCompletionSeen (reenqueue q s) = v_jobCompletionSeen s"
  "v_partialVisibilityDropPasses (reenqueue q s) = v_partialVisibilityDropPasses s"
  "l_destroyed (reenqueue q s) = l_destroyed s" "l_dispatched (reenqueue q s) = l_dispatched s"
  "l_dropped (reenqueue q s) = l_dropped s" "l_cancelPosts (reenqueue q s) = l_cancelPosts s"
  "l_interrupted (reenqueue q s) = l_interrupted s"
  by (simp_all add: reenqueue_def lpush_queue_def Let_def)

lemma cancelPrior_frame [simp]:
  "v_queue (cancelPriorActiveAttempt j c s) = v_queue s"
  "v_inflight (cancelPriorActiveAttempt j c s) = v_inflight s"
  "v_pool (cancelPriorActiveAttempt j c s) = v_pool s"
  "v_jobInstance (cancelPriorActiveAttempt j c s) = v_jobInstance s"
  "v_jobStatus (cancelPriorActiveAttempt j c s) = v_jobStatus s"
  "v_jobPayload (cancelPriorActiveAttempt j c s) = v_jobPayload s"
  "v_jobAttempts (cancelPriorActiveAttempt j c s) = v_jobAttempts s"
  "v_pendingPackaging (cancelPriorActiveAttempt j c s) = v_pendingPackaging s"
  "v_jobCancelRequested (cancelPriorActiveAttempt j c s) = v_jobCancelRequested s"
  "v_jobCompletionSeen (cancelPriorActiveAttempt j c s) = v_jobCompletionSeen s"
  "v_partialVisibilityDropPasses (cancelPriorActiveAttempt j c s) = v_partialVisibilityDropPasses s"
  "l_destroyed (cancelPriorActiveAttempt j c s) = l_destroyed s"
  "l_dispatched (cancelPriorActiveAttempt j c s) = l_dispatched s"
  "l_dropped (cancelPriorActiveAttempt j c s) = l_dropped s"
  "l_interrupted (cancelPriorActiveAttempt j c s) = l_interrupted s"
  by (simp_all add: cancelPriorActiveAttempt_def split: option.splits)

lemma status_of_cancelPrior [simp]:
  "status_of (cancelPriorActiveAttempt j c s) k = status_of s k"
  by (simp add: status_of_def)

lemma decideRetry_cases:
  obtains r where "decideRetry pn j m c now s = (s, Settle r (classifyEncoreFailure pn m))"
  | "decideRetry pn j m c now s = (s, Skip (classifyEncoreFailure pn m))"
      "hasQueuedOrInflightEntry j s"
  | payload n where "n = stored_count (map_of (v_jobAttempts s) j) 1" "n < MAX_ENCODE_ATTEMPTS"
      "map_of (v_jobPayload s) j = Some (Payload payload)"
      "\<not> hasQueuedOrInflightEntry j s"
      "isRetryableFailureClass (Message (classifyEncoreFailure pn m))"
      "decideRetry pn j m c now s =
         (reenqueue \<lparr> q_jobId = j, q_payload = payload, q_enqueuedAt = now,
             q_notBefore = Some (now + backoffForAttempt n), q_attempts = Some n \<rparr>
            (cancelPriorActiveAttempt j c s),
          Retry (n + 1) (classifyEncoreFailure pn m) (backoffForAttempt n))"
proof -
  let ?f = "classifyEncoreFailure pn m" and ?n = "stored_count (map_of (v_jobAttempts s) j) 1"
  consider "\<not> isRetryableFailureClass (Message ?f)"
    | "isRetryableFailureClass (Message ?f)" "MAX_ENCODE_ATTEMPTS \<le> ?n"
    | "isRetryableFailureClass (Message ?f)" "?n < MAX_ENCODE_ATTEMPTS"
        "\<nexists>payload. map_of (v_jobPayload s) j = Some (Payload payload)"
    | payload where "isRetryableFailureClass (Message ?f)" "?n < MAX_ENCODE_ATTEMPTS"
        "map_of (v_jobPayload s) j = Some (Payload payload)" "hasQueuedOrInflightEntry j s"
    | payload where "isRetryableFailureClass (Message ?f)" "?n < MAX_ENCODE_ATTEMPTS"
        "map_of (v_jobPayload s) j = Some (Payload payload)" "\<not> hasQueuedOrInflightEntry j s"
    by force
  then show thesis
  proof cases
    case 1
    then show ?thesis by (intro that(1) [of NotRetryable]) (simp add: decideRetry_def Let_def)
  next
    case 2
    then show ?thesis by (intro that(1) [of Exhausted]) (simp add: decideRetry_def Let_def)
  next
    case 3
    then show ?thesis by (intro that(1) [of NotRetryable])
      (auto simp: decideRetry_def Let_def split: option.splits payload_entry.splits)
  next
    case 4
    then show ?thesis by (intro that(2)) (simp_all add: decideRetry_def Let_def)
  next
    case (5 payload)
    then show ?thesis by (intro that(3) [of ?n payload]) (simp_all add: decideRetry_def Let_def)
  qed
qed

section \<open>Properties\<close>

definition demo_retry_state :: scaler where
  "demo_retry_state = empty_scaler\<lparr>
     v_jobPayload := [(''j'', Payload JNull)], v_jobAttempts := [(''j'', 1)],
     v_jobInstance := [(''j'', ''enc'')], v_jobStatus := [(''j'', ''running'')],
     v_jobEncoreUrl := [(''j'', ''http://e/encoreJobs/u'')] \<rparr>"

text \<open>C4. A retry decision: when it settles or skips, the store is untouched; when it
  retries, the attempt it announces is within the bound and one more than the recorded
  count, exactly one entry for the job is then waiting (there was none), it carries the
  recorded count and a due time of now plus the backoff, the job reads RUNNING and no
  longer maps to an instance, and no other job's entry, status or mapping changed.\<close>

theorem decide_retry_contract:
  "case decideRetry pn j m c now s of
     (s', Settle r f) \<Rightarrow> s' = s
   | (s', Skip f) \<Rightarrow> s' = s \<and> pending_count j s \<noteq> 0
   | (s', Retry n f b) \<Rightarrow>
       n \<le> MAX_ENCODE_ATTEMPTS \<and> n = stored_count (map_of (v_jobAttempts s) j) 1 + 1
       \<and> pending_count j s = 0 \<and> pending_count j s' = 1
       \<and> (\<exists>q. v_queue s' = Parsed q # v_queue s \<and> q_jobId q = j \<and> q_attempts q = Some (n - 1)
            \<and> q_notBefore q = Some (now + b) \<and> b = backoffForAttempt (n - 1))
       \<and> status_of s' j = ''RUNNING'' \<and> map_of (v_jobInstance s') j = None
       \<and> (\<forall>k. k \<noteq> j \<longrightarrow> pending_count k s' = pending_count k s \<and> status_of s' k = status_of s k
            \<and> map_of (v_jobInstance s') k = map_of (v_jobInstance s) k)"
proof (cases rule: decideRetry_cases [of pn j m c now s])
  case (3 payload n)
  have 0: "pending_count j s = 0" using 3(4) by (simp add: pending_count_0_iff)
  then show ?thesis using 3(1,2) unfolding 3(6)
    by (auto simp: pending_count_def entries_of_def MAX_ENCODE_ATTEMPTS_def)
qed (simp_all add: pending_count_0_iff)

lemma decide_retry_contract_witness:
  "pending_count ''j'' (fst (decideRetry (\<lambda>_. None) ''j'' (Some ''read timed out'') True 0 demo_retry_state)) = 1"
proof -
  have "snd (decideRetry (\<lambda>_. None) ''j'' (Some ''read timed out'') True 0 demo_retry_state)
      = Retry 2 Transport 15000" by code_simp
  then show ?thesis
    using decide_retry_contract [where pn = "\<lambda>_. None" and j = "''j''"
        and m = "Some ''read timed out''" and c = True and now = 0 and s = demo_retry_state]
    by (auto split: prod.splits)
qed

text \<open>A retryable failure is retried while attempts remain: with a stored payload, fewer
  recorded attempts than the bound and no entry already waiting, the decision is to retry;
  and the cancel of the prior attempt is posted to its recorded URL before that URL is
  forgotten.\<close>

theorem retry_while_attempts_remain:
  assumes "isRetryableFailureClass (Message (classifyEncoreFailure pn m))"
    "stored_count (map_of (v_jobAttempts s) j) 1 < MAX_ENCODE_ATTEMPTS"
    "map_of (v_jobPayload s) j = Some (Payload payload)" "\<not> hasQueuedOrInflightEntry j s"
  shows "\<exists>s' n f b. decideRetry pn j m True now s = (s', Retry n f b)
    \<and> (\<forall>url. map_of (v_jobEncoreUrl s) j = Some url \<and> url \<noteq> [] \<longrightarrow>
          l_cancelPosts s' = l_cancelPosts s @ [url] \<and> map_of (v_jobEncoreUrl s') j = None)"
proof -
  have "map_of (v_jobEncoreUrl (reenqueue q (cancelPriorActiveAttempt j True s))) j = None"
    if "q_jobId q = j" for q
    using that by (simp add: reenqueue_def lpush_queue_def Let_def)
  moreover have "l_cancelPosts (cancelPriorActiveAttempt j True s) = l_cancelPosts s @ [url]"
    if "map_of (v_jobEncoreUrl s) j = Some url" "url \<noteq> []" for url
    using that by (simp add: cancelPriorActiveAttempt_def)
  ultimately show ?thesis using assms
    by (simp add: decideRetry_def Let_def)
qed

lemma retry_while_attempts_remain_witness:
  "l_cancelPosts (fst (decideRetry (\<lambda>_. None) ''j'' (Some ''read timed out'') True 0 demo_retry_state))
     = [''http://e/encoreJobs/u'']"
proof -
  have 1: "isRetryableFailureClass (Message (classifyEncoreFailure (\<lambda>_. None) (Some ''read timed out'')))"
    by code_simp
  have 2: "stored_count (map_of (v_jobAttempts demo_retry_state) ''j'') 1 < MAX_ENCODE_ATTEMPTS"
    by code_simp
  have 3: "map_of (v_jobPayload demo_retry_state) ''j'' = Some (Payload JNull)"
    by (simp add: demo_retry_state_def)
  have 4: "\<not> hasQueuedOrInflightEntry ''j'' demo_retry_state" by code_simp
  have 5: "map_of (v_jobEncoreUrl demo_retry_state) ''j'' = Some ''http://e/encoreJobs/u''"
    "l_cancelPosts demo_retry_state = []"
    by (simp_all add: demo_retry_state_def empty_scaler_def)
  from retry_while_attempts_remain [OF 1 2 3 4, of 0] 5 show ?thesis by auto
qed

end
