(* ===== verification/Encore_Edge.thy ===== *)
theory Encore_Edge
  imports Valkey
begin

text \<open>
  What the scaler asks of the services around it, and how it reads the answers
  (\<^verbatim>\<open>src/src/encore-scaler/callback-trust-probe.ts\<close>, \<^verbatim>\<open>encore-active-state.ts\<close>,
  \<^verbatim>\<open>encore-paging-contract.ts\<close>). The network is a parameter: \<^verbatim>\<open>protocol\<close> is the scheme
  \<^verbatim>\<open>new URL\<close> reads of a text (\<^verbatim>\<open>None\<close> when it throws), \<^verbatim>\<open>fetch\<close> gives the answer to a
  request. The probe answers with the requests it made, in order, beside its result; the
  descriptive \<^verbatim>\<open>detail\<close> texts of a rejection are left out.
\<close>

section \<open>URLs\<close>

text \<open>\<^verbatim>\<open>replace(/\/$/, '')\<close> and \<^verbatim>\<open>replace(/\/+$/, '')\<close>.\<close>

definition strip_slash :: "string \<Rightarrow> string" where
  "strip_slash u = (if u \<noteq> [] \<and> last u = CHR ''/'' then butlast u else u)"

definition strip_slashes :: "string \<Rightarrow> string" where
  "strip_slashes u = rev (dropWhile (\<lambda>c. c = CHR ''/'') (rev u))"

definition CALLBACK_PATH :: string where "CALLBACK_PATH = ''/encoreCallback''"

definition buildCallbackUri :: "(string \<Rightarrow> string option) \<Rightarrow> string \<Rightarrow> string option" where
  "buildCallbackUri protocol callbackListenerUrl =
     (if protocol callbackListenerUrl = None then None
      else Some (strip_slash callbackListenerUrl @ CALLBACK_PATH))"

section \<open>The callback-trust probe\<close>

datatype fetch_answer = Status int | FetchError string string

datatype error_class = TlsTrust | Timeout | Connection

datatype probe_result =
    Trusted int
  | CallbackUnusable int
  | IngressAuthWindow int int
  | ProbeFailed error_class string

definition CALLBACK_REJECTED_STATUSES :: "int list" where
  "CALLBACK_REJECTED_STATUSES = [401, 403]"

definition rejected :: "int \<Rightarrow> bool" where
  "rejected st = (st \<in> set CALLBACK_REJECTED_STATUSES)"

definition TLS_TRUST_SIGNATURES :: "string list" where
  "TLS_TRUST_SIGNATURES =
     [''PKIX'', ''unable to verify the first certificate'',
      ''unable to get local issuer certificate'', ''self-signed certificate'',
      ''self signed certificate'', ''CERT_'', ''DEPTH_ZERO_SELF_SIGNED_CERT'',
      ''UNABLE_TO_VERIFY_LEAF_SIGNATURE'', ''ERR_TLS_CERT_ALTNAME_INVALID'',
      ''certificate has expired'', ''handshake'', ''SSL routines'', ''ssl3_'']"

definition mayAttachBearerToken :: "(string \<Rightarrow> string option) \<Rightarrow> string \<Rightarrow> bool" where
  "mayAttachBearerToken protocol target = (protocol target = Some ''https:'')"

type_synonym request = "string \<times> string option"

definition probeWithIngressToken ::
  "(request \<Rightarrow> fetch_answer) \<Rightarrow> string \<Rightarrow> string \<Rightarrow> request \<times> int option" where
  "probeWithIngressToken fetch target authToken =
     ((target, Some authToken),
      case fetch (target, Some authToken) of Status st \<Rightarrow> Some st | FetchError n d \<Rightarrow> None)"

definition classify_error :: "string \<Rightarrow> string \<Rightarrow> error_class" where
  "classify_error name detail =
     (if name = ''TimeoutError'' \<or> name = ''AbortError'' then Timeout
      else if list_ex (\<lambda>sig. str_includes (to_lower detail) (to_lower sig)) TLS_TRUST_SIGNATURES
      then TlsTrust else Connection)"

text \<open>The authenticated attempt, with one retry when the service mints a different token.
  \<^verbatim>\<open>refresh\<close>: no way to mint one, or what minting gave (\<^verbatim>\<open>None\<close> when it threw).\<close>

definition authenticated_attempt ::
  "(request \<Rightarrow> fetch_answer) \<Rightarrow> string \<Rightarrow> string \<Rightarrow> string option option \<Rightarrow> request list \<times> int option" where
  "authenticated_attempt fetch target authToken refresh =
     (let (r1, a1) = probeWithIngressToken fetch target authToken in
      case (a1, refresh) of
        (Some st, Some refreshed) \<Rightarrow>
          if rejected st \<and> truthy refreshed \<and> refreshed \<noteq> Some authToken
          then let (r2, a2) = probeWithIngressToken fetch target (the refreshed) in ([r1, r2], a2)
          else ([r1], a1)
      | _ \<Rightarrow> ([r1], a1))"

definition probeCallbackTrust ::
  "(string \<Rightarrow> string option) \<Rightarrow> (request \<Rightarrow> fetch_answer) \<Rightarrow> string option \<Rightarrow> string option option
   \<Rightarrow> string \<Rightarrow> request list \<times> probe_result" where
  "probeCallbackTrust protocol fetch authToken refresh callbackListenerUrl =
     (case buildCallbackUri protocol callbackListenerUrl of
        None \<Rightarrow> ([], ProbeFailed Connection (''invalid callbackListenerUrl: '' @ callbackListenerUrl))
      | Some target \<Rightarrow>
          (case fetch (target, None) of
             FetchError name detail \<Rightarrow>
               ([(target, None)], ProbeFailed (classify_error name detail) detail)
           | Status st \<Rightarrow>
               if \<not> rejected st then ([(target, None)], Trusted st)
               else if truthy authToken \<and> mayAttachBearerToken protocol target then
                 let (reqs, answer) = authenticated_attempt fetch target (the authToken) refresh in
                 ((target, None) # reqs,
                  case answer of
                    Some a \<Rightarrow> if rejected a then CallbackUnusable st else IngressAuthWindow st a
                  | None \<Rightarrow> CallbackUnusable st)
               else ([(target, None)], CallbackUnusable st)))"

section \<open>The active jobs of an encoder\<close>

fun jfield :: "string \<Rightarrow> json option \<Rightarrow> json option" where
  "jfield k (Some (JObj o')) = map_of o' k"
| "jfield k _ = None"

fun json_truthy :: "json option \<Rightarrow> bool" where
  "json_truthy None = False"
| "json_truthy (Some JNull) = False"
| "json_truthy (Some (JBool b)) = b"
| "json_truthy (Some (JNum n)) = (n \<noteq> Fin 0 \<and> n \<noteq> NaN)"
| "json_truthy (Some (JStr s)) = (s \<noteq> [])"
| "json_truthy (Some _) = True"

record encore_job_page =
  pg_externalIds :: "string list"
  pg_documentCount :: nat
  pg_totalElements :: rat
  pg_hasNextLink :: bool

text \<open>The documents of a page: absent or null is the empty list, text is read as its
  characters, and iterating over anything else throws (\<^verbatim>\<open>None\<close>).\<close>

fun page_documents :: "json option \<Rightarrow> json list option" where
  "page_documents None = Some []"
| "page_documents (Some JNull) = Some []"
| "page_documents (Some (JArr ds)) = Some ds"
| "page_documents (Some (JStr cs)) = Some (map (\<lambda>c. JStr [c]) cs)"
| "page_documents (Some _) = None"

fun document_id :: "json \<Rightarrow> string list" where
  "document_id d = (case jfield ''externalId'' (Some d) of
     Some (JStr s) \<Rightarrow> if s = [] then [] else [s] | _ \<Rightarrow> [])"

text \<open>\<^verbatim>\<open>None\<close> is the undefined answer, and also a body over which the iteration throws (the
  only caller turns both into undefined).\<close>

definition readEncoreJobPage :: "json \<Rightarrow> encore_job_page option" where
  "readEncoreJobPage body =
     (case jfield ''totalElements'' (jfield ''page'' (Some body)) of
        Some (JNum (Fin totalElements)) \<Rightarrow>
          map_option (\<lambda>documents.
            \<lparr> pg_externalIds = concat (map document_id documents),
              pg_documentCount = length documents, pg_totalElements = totalElements,
              pg_hasNextLink = json_truthy (jfield ''next'' (jfield ''_links'' (Some body))) \<rparr>)
            (page_documents (jfield ''encoreJobs'' (jfield ''_embedded'' (Some body))))
      | _ \<Rightarrow> None)"

definition isTruncatedPage :: "encore_job_page \<Rightarrow> bool" where
  "isTruncatedPage page = (of_nat (pg_documentCount page) < pg_totalElements page \<or> pg_hasNextLink page)"

definition ENCORE_MAX_PAGE_SIZE :: nat where "ENCORE_MAX_PAGE_SIZE = 1000"

definition buildFindByStatusUrl :: "string \<Rightarrow> string \<Rightarrow> nat \<Rightarrow> nat \<Rightarrow> string" where
  "buildFindByStatusUrl instanceUrl status page size' =
     strip_slashes instanceUrl @ ''/encoreJobs/search/findByStatus?status='' @ status
     @ ''&page='' @ dec page @ ''&size='' @ dec size'"

record active_state =
  ac_count :: int
  ac_ids :: "string list"
  ac_truncated :: bool

text \<open>An answer: whether it was 2xx and its body (\<^verbatim>\<open>None\<close> when it is not JSON, read as the
  empty object); the request itself may throw. The counts are whole numbers.\<close>

definition fetchEncoreActiveState ::
  "(string \<Rightarrow> (bool \<times> json option) option) \<Rightarrow> string \<Rightarrow> active_state option" where
  "fetchEncoreActiveState get instanceUrl =
     (case (get (buildFindByStatusUrl instanceUrl ''QUEUED'' 0 ENCORE_MAX_PAGE_SIZE),
            get (buildFindByStatusUrl instanceUrl ''IN_PROGRESS'' 0 ENCORE_MAX_PAGE_SIZE)) of
        (Some (okQ, bodyQ), Some (okP, bodyP)) \<Rightarrow>
          if \<not> okQ \<or> \<not> okP then None
          else (case (readEncoreJobPage (coalesce bodyQ (JObj [])),
                      readEncoreJobPage (coalesce bodyP (JObj []))) of
                  (Some queued, Some inProgress) \<Rightarrow>
                    Some \<lparr> ac_count = \<lfloor>pg_totalElements queued + pg_totalElements inProgress\<rfloor>,
                      ac_ids = remdups (pg_externalIds queued @ pg_externalIds inProgress),
                      ac_truncated = (isTruncatedPage queued \<or> isTruncatedPage inProgress) \<rparr>
                | _ \<Rightarrow> None)
      | _ \<Rightarrow> None)"

section \<open>Facts and properties\<close>

lemma document_ids_length: "length (concat (map document_id ds)) \<le> length ds"
  by (induction ds) (auto split: option.splits json.splits)

lemma page_ids_length:
  "readEncoreJobPage body = Some p \<Longrightarrow> length (pg_externalIds p) \<le> pg_documentCount p"
  by (auto simp: readEncoreJobPage_def document_ids_length
      split: option.splits json.splits jsnum.splits simp del: document_id.simps)

definition plain_page :: "rat \<Rightarrow> string list \<Rightarrow> json" where
  "plain_page n ids = JObj [(''page'', JObj [(''totalElements'', JNum (Fin n))]),
     (''_embedded'', JObj [(''encoreJobs'', JArr (map (\<lambda>x. JObj [(''externalId'', JStr x)]) ids))])]"

text \<open>The confirmed state of an encoder is one scale-down may trust: when each page it
  answers counts at least the documents it carries, the count the scaler works with is at
  least the number of distinct jobs it lists; and a state not marked truncated counts
  exactly the documents of the two pages.\<close>

theorem active_state_truthful:
  assumes "fetchEncoreActiveState get url = Some ac"
    "\<And>u ok body p. get u = Some (ok, body) \<Longrightarrow> readEncoreJobPage (coalesce body (JObj [])) = Some p
       \<Longrightarrow> of_nat (pg_documentCount p) \<le> pg_totalElements p"
  shows "int (length (remdups (ac_ids ac))) \<le> ac_count ac
    \<and> (\<not> ac_truncated ac \<longrightarrow> (\<exists>q p bq bp. readEncoreJobPage bq = Some q \<and> readEncoreJobPage bp = Some p
         \<and> ac_count ac = int (pg_documentCount q + pg_documentCount p)
         \<and> set (ac_ids ac) = set (pg_externalIds q) \<union> set (pg_externalIds p)))"
proof -
  obtain bodyQ bodyP queued inProgress where g:
    "get (buildFindByStatusUrl url ''QUEUED'' 0 ENCORE_MAX_PAGE_SIZE) = Some (True, bodyQ)"
    "get (buildFindByStatusUrl url ''IN_PROGRESS'' 0 ENCORE_MAX_PAGE_SIZE) = Some (True, bodyP)"
    "readEncoreJobPage (coalesce bodyQ (JObj [])) = Some queued"
    "readEncoreJobPage (coalesce bodyP (JObj [])) = Some inProgress"
    "ac = \<lparr> ac_count = \<lfloor>pg_totalElements queued + pg_totalElements inProgress\<rfloor>,
        ac_ids = remdups (pg_externalIds queued @ pg_externalIds inProgress),
        ac_truncated = (isTruncatedPage queued \<or> isTruncatedPage inProgress) \<rparr>"
    using assms(1) by (auto simp: fetchEncoreActiveState_def split: option.splits if_splits)
  note q = assms(2) [OF g(1,3)] and p = assms(2) [OF g(2,4)]
  have "length (remdups (pg_externalIds queued @ pg_externalIds inProgress))
      \<le> pg_documentCount queued + pg_documentCount inProgress"
    using length_remdups_leq [of "pg_externalIds queued @ pg_externalIds inProgress"]
      page_ids_length [OF g(3)] page_ids_length [OF g(4)] by simp
  moreover have "int (pg_documentCount queued + pg_documentCount inProgress)
      \<le> \<lfloor>pg_totalElements queued + pg_totalElements inProgress\<rfloor>"
    using q p by (simp add: le_floor_iff)
  ultimately have 1: "int (length (remdups (ac_ids ac))) \<le> ac_count ac"
    using g(5) by (simp del: remdups_append2 add: remdups_remdups)
  have "ac_count ac = int (pg_documentCount queued + pg_documentCount inProgress)" if "\<not> ac_truncated ac"
  proof -
    have "pg_totalElements queued = of_nat (pg_documentCount queued)"
      "pg_totalElements inProgress = of_nat (pg_documentCount inProgress)"
      using that q p g(5) by (auto simp: isTruncatedPage_def)
    then have "pg_totalElements queued + pg_totalElements inProgress
        = of_int (int (pg_documentCount queued + pg_documentCount inProgress))" by simp
    then show ?thesis using g(5) by (metis active_state.select_convs(1) floor_of_int)
  qed
  then show ?thesis using 1 g(3-5) by auto
qed

lemma active_state_truthful_witness:
  "\<exists>ac. fetchEncoreActiveState (\<lambda>_. Some (True, Some (plain_page 2 [''a'']))) ''http://e/'' = Some ac
     \<and> int (length (remdups (ac_ids ac))) \<le> ac_count ac"
proof -
  let ?get = "\<lambda>_. Some (True, Some (plain_page 2 [''a'']))"
  have r: "readEncoreJobPage (plain_page 2 [''a'']) = Some \<lparr> pg_externalIds = [''a''],
      pg_documentCount = 1, pg_totalElements = 2, pg_hasNextLink = False \<rparr>" by code_simp
  obtain ac where ac: "fetchEncoreActiveState ?get ''http://e/'' = Some ac"
    by (simp add: fetchEncoreActiveState_def r)
  have "of_nat (pg_documentCount p) \<le> pg_totalElements p"
    if "?get u = Some (ok, body)" "readEncoreJobPage (coalesce body (JObj [])) = Some p" for u ok body p
    using that r by auto
  from active_state_truthful [OF ac this] ac show ?thesis by auto
qed

text \<open>The trust probe never leaks its token and grades what the encoder will meet: it
  makes at most three requests, all to the callback address built from the listener's, the
  first without a credential, the others only to an https target that rejected the first
  with 401 or 403; and it reports the path trusted exactly when that credential-free first
  request was answered with any other status.\<close>

theorem probe_is_safe:
  assumes "probeCallbackTrust protocol fetch authToken refresh url = (reqs, result)"
  shows "length reqs \<le> 3
    \<and> (\<forall>(target, tok)\<in>set reqs. buildCallbackUri protocol url = Some target
         \<and> (tok \<noteq> None \<longrightarrow> protocol target = Some ''https:''
              \<and> (\<exists>st. fetch (target, None) = Status st \<and> st \<in> {401, 403})))
    \<and> (reqs \<noteq> [] \<longrightarrow> snd (hd reqs) = None)
    \<and> (\<forall>st. result = Trusted st \<longleftrightarrow> (\<exists>target. buildCallbackUri protocol url = Some target
         \<and> fetch (target, None) = Status st \<and> st \<notin> {401, 403}))"
  using assms
  by (auto simp: probeCallbackTrust_def authenticated_attempt_def probeWithIngressToken_def
      rejected_def CALLBACK_REJECTED_STATUSES_def mayAttachBearerToken_def Let_def
      split: option.splits fetch_answer.splits if_splits)

lemma probe_is_safe_witness:
  "\<exists>reqs r. probeCallbackTrust (\<lambda>_. Some ''https:'') (\<lambda>(u, t). Status (if t = None then 401 else 404))
      (Some ''sat'') None ''https://l/'' = (reqs, r) \<and> length reqs \<le> 3"
proof -
  obtain reqs r where p: "probeCallbackTrust (\<lambda>_. Some ''https:'')
      (\<lambda>(u, t). Status (if t = None then 401 else 404)) (Some ''sat'') None ''https://l/'' = (reqs, r)"
    by fastforce
  from probe_is_safe [OF p] p show ?thesis by auto
qed

end
