(* ===== verification/Scale_Down.thy ===== *)
theory Scale_Down
  imports Retry_Store Encore_Edge "HOL-Library.Multiset"
begin

text \<open>
  Scale-down of the encoder pool (\<^verbatim>\<open>src/src/encore-scaler/scaler-loop.ts\<close>, step 4 of
  \<^verbatim>\<open>tick\<close>, with \<^verbatim>\<open>requeueScaleDownInterruptions\<close> and
  \<^verbatim>\<open>resolveUnrequeueableScaleDownLoss\<close>; \<^verbatim>\<open>cancelled-job-reclaim.ts\<close>;
  \<^verbatim>\<open>packaging-pin.ts\<close>; \<^verbatim>\<open>destroyInstance\<close> of \<^verbatim>\<open>instance-pool.ts\<close>).

  \<^verbatim>\<open>scale_env\<close> holds what the tick reads of the outside: the clock, the configuration,
  the answer of each encoder to the active-jobs query (\<^verbatim>\<open>None\<close> when it could not be
  confirmed), whether OSC lets an instance be removed (or reports it gone), and
  \<^verbatim>\<open>Number\<close> on text. A refused removal makes \<^verbatim>\<open>destroyInstance\<close> throw, which ends the
  tick: the loop then answers \<^verbatim>\<open>None\<close> for the survivors.
\<close>

section \<open>The environment of a tick\<close>

record scale_env =
  se_now :: int
  se_number :: "string \<Rightarrow> jsnum"
  se_idleTimeoutMs :: int
  se_minInstances :: int
  se_maxInstances :: int
  se_real :: "string \<Rightarrow> active_state option"
  se_removable :: "string \<Rightarrow> bool"

section \<open>Idle age\<close>

fun stamp_value :: "(string \<Rightarrow> jsnum) \<Rightarrow> stamp \<Rightarrow> rat option" where
  "stamp_value number (StampNum (Fin r)) = Some r"
| "stamp_value number (StampNum x) = None"
| "stamp_value number (StampText t) =
     (if dropWhile is_ws t = [] then None
      else case number t of Fin r \<Rightarrow> Some r | _ \<Rightarrow> None)"

definition resolveIdleSince :: "(string \<Rightarrow> jsnum) \<Rightarrow> instance_record \<Rightarrow> rat option" where
  "resolveIdleSince number record =
     (case Option.bind (i_lastIdleAt record) (stamp_value number) of
        Some r \<Rightarrow> Some r
      | None \<Rightarrow> Option.bind (i_readyAt record) (stamp_value number))"

definition isIdlePastTimeout :: "(string \<Rightarrow> jsnum) \<Rightarrow> instance_record \<Rightarrow> int \<Rightarrow> int \<Rightarrow> bool" where
  "isIdlePastTimeout number record now idleTimeoutMs =
     (case resolveIdleSince number record of
        None \<Rightarrow> True
      | Some idleSince \<Rightarrow> of_int idleTimeoutMs < of_int now - idleSince)"

section \<open>Cancelled jobs and packaging pins\<close>

definition CANCEL_RECLAIM_GRACE_MS :: int where "CANCEL_RECLAIM_GRACE_MS = 60000"

definition recordOperatorCancel :: "string \<Rightarrow> string option \<Rightarrow> int \<Rightarrow> scaler \<Rightarrow> scaler" where
  "recordOperatorCancel encoreJobId instanceId now s =
     (let s1 = s\<lparr> v_jobCancelRequested := AList.update encoreJobId now (v_jobCancelRequested s) \<rparr>
      in if \<not> truthy instanceId then s1
         else case map_of (v_pool s1) (the instanceId) of
                Some (Instance record) \<Rightarrow>
                  if i_draining record = Some True then s1
                  else s1\<lparr> v_pool := AList.update (the instanceId)
                         (Instance (record\<lparr> i_draining := Some True, i_cancelDrainingSince := Some now \<rparr>))
                         (v_pool s1) \<rparr>
              | _ \<Rightarrow> s1)"

definition stuck_cancelled :: "scaler \<Rightarrow> int \<Rightarrow> string \<Rightarrow> bool" where
  "stuck_cancelled s now j = (case map_of (v_jobCancelRequested s) j of
       None \<Rightarrow> False | Some cancelledAt \<Rightarrow> CANCEL_RECLAIM_GRACE_MS \<le> now - cancelledAt)"

definition stuckCancelledActiveIds :: "scaler \<Rightarrow> string list \<Rightarrow> int \<Rightarrow> string list" where
  "stuckCancelledActiveIds s activeExternalIds now =
     filter (stuck_cancelled s now) (remdups activeExternalIds)"

definition instancesHoldingStuckCancelledJobs :: "scaler \<Rightarrow> int \<Rightarrow> string list" where
  "instancesHoldingStuckCancelledJobs s now =
     map snd (filter (\<lambda>(j, i). i \<noteq> [] \<and> status_of s j = ''CANCELLED'' \<and> stuck_cancelled s now j)
       (v_jobInstance s))"

definition pinInstanceForPackaging :: "string \<Rightarrow> string \<Rightarrow> scaler \<Rightarrow> scaler" where
  "pinInstanceForPackaging i j s = s\<lparr> v_pendingPackaging := AList.update i
     (List.insert j (coalesce (map_of (v_pendingPackaging s) i) [])) (v_pendingPackaging s) \<rparr>"

definition unpinInstanceForPackaging :: "string \<Rightarrow> string \<Rightarrow> scaler \<Rightarrow> scaler" where
  "unpinInstanceForPackaging i j s = s\<lparr> v_pendingPackaging := AList.update i
     (removeAll j (coalesce (map_of (v_pendingPackaging s) i) [])) (v_pendingPackaging s) \<rparr>"

definition hasPendingPackaging :: "string \<Rightarrow> scaler \<Rightarrow> bool" where
  "hasPendingPackaging i s = (0 < length (coalesce (map_of (v_pendingPackaging s) i) []))"

section \<open>Jobs lost with an instance\<close>

definition loss_reason :: "string \<Rightarrow> string" where
  "loss_reason instanceId = ''interrupted by scale-down of instance '' @ instanceId @
     '' and could not be re-enqueued: the stored dispatch payload had expired, so the encode ''
     @ ''cannot be rebuilt or retried''"

definition resolveUnrequeueableScaleDownLoss :: "string \<Rightarrow> string \<Rightarrow> scaler \<Rightarrow> scaler" where
  "resolveUnrequeueableScaleDownLoss instanceId jobId s =
     (if terminal_status (status_of s jobId) then s
      else let s1 = set_status jobId ''FAILED'' s;
               s2 = s1\<lparr> v_jobInstance := AList.delete jobId (v_jobInstance s1) \<rparr>
        in s2\<lparr> l_dropped := l_dropped s2 @ [(jobId, Some (loss_reason instanceId))] \<rparr>)"

text \<open>One entry of the job-to-instance snapshot, with the status snapshot \<^verbatim>\<open>st\<close>.\<close>

definition requeue_one ::
  "string \<Rightarrow> string list \<Rightarrow> int \<Rightarrow> (string \<Rightarrow> string) \<Rightarrow> string \<times> string \<Rightarrow> scaler \<Rightarrow> scaler" where
  "requeue_one instanceId activeExternalIds now st entry s =
     (let (jobId, mappedInstanceId) = entry in
      if mappedInstanceId \<noteq> instanceId then s
      else if jobId \<in> set activeExternalIds then s
      else if \<not> live_status (st jobId) then s
      else let (s', requeued) = requeueInterruptedByScaleDown jobId True now s
        in if requeued then s'\<lparr> l_interrupted := l_interrupted s' @ [jobId] \<rparr>
           else resolveUnrequeueableScaleDownLoss instanceId jobId s')"

fun requeue_loop ::
  "string \<Rightarrow> string list \<Rightarrow> int \<Rightarrow> (string \<Rightarrow> string) \<Rightarrow> (string \<times> string) list \<Rightarrow> scaler \<Rightarrow> scaler" where
  "requeue_loop i act now st [] s = s"
| "requeue_loop i act now st (e # es) s = requeue_loop i act now st es (requeue_one i act now st e s)"

definition requeueScaleDownInterruptions :: "string \<Rightarrow> string list \<Rightarrow> int \<Rightarrow> scaler \<Rightarrow> scaler" where
  "requeueScaleDownInterruptions instanceId activeExternalIds now s =
     requeue_loop instanceId activeExternalIds now (status_of s) (v_jobInstance s) s"

section \<open>The decision for one instance\<close>

definition destroyInstance :: "scale_env \<Rightarrow> string \<Rightarrow> scaler \<Rightarrow> scaler option" where
  "destroyInstance env instanceId s =
     (if \<not> se_removable env instanceId then None
      else Some (s\<lparr> v_pool := AList.delete instanceId (v_pool s),
             l_destroyed := l_destroyed s @ [instanceId] \<rparr>))"

datatype verdict = Survives instance_record | Destroyed | Threw

definition idle_and_aged :: "scale_env \<Rightarrow> instance_record \<Rightarrow> bool" where
  "idle_and_aged env inst = (i_activeJobs inst = 0
     \<and> isIdlePastTimeout (se_number env) inst (se_now env) (se_idleTimeoutMs env))"

definition scale_down_one ::
  "scale_env \<Rightarrow> string list \<Rightarrow> int \<Rightarrow> instance_record \<Rightarrow> scaler \<Rightarrow> scaler \<times> verdict" where
  "scale_down_one env stuckCancelledHosts activeCount inst s =
     (let i = i_instanceId inst; now = se_now env in
      if i_pendingReadySince inst \<noteq> None then (s, Survives inst)
      else
        let idleAndAged = idle_and_aged env inst;
            isTeardownCandidate = (idleAndAged \<or> i_draining inst = Some True
              \<or> i \<in> set stuckCancelledHosts);
            cancelDrainOnlyCandidate = (i_cancelDrainingSince inst \<noteq> None \<and> \<not> idleAndAged
              \<and> i \<notin> set stuckCancelledHosts);
            belowFloor = (activeCount \<le> se_minInstances env)
        in if \<not> isTeardownCandidate \<or> (belowFloor \<and> \<not> cancelDrainOnlyCandidate)
           then (s, Survives inst)
           else case se_real env i of
             None \<Rightarrow> (s, Survives inst)
           | Some active \<Rightarrow>
               let s1 = requeueScaleDownInterruptions i (ac_ids active) now s;
                   pendingPackaging = hasPendingPackaging i s1;
                   abandoned = stuckCancelledActiveIds s1 (ac_ids active) now;
                   protectedCount = max 0 (ac_count active - int (length abandoned))
               in if 0 < protectedCount \<or> pendingPackaging then
                    let drainingRecord = inst\<lparr> i_activeJobs := ac_count active, i_draining := Some True \<rparr>
                    in (updateInstance drainingRecord s1, Survives drainingRecord)
                  else if cancelDrainOnlyCandidate \<and> abandoned = [] then
                    let releasedRecord = inst\<lparr> i_activeJobs := 0,
                          i_lastIdleAt := Some (StampNum (Fin (if 0 < i_activeJobs inst then of_int now
                            else coalesce (resolveIdleSince (se_number env) inst) (of_int now)))),
                          i_draining := None, i_cancelDrainingSince := None \<rparr>
                    in (updateInstance releasedRecord s1, Survives releasedRecord)
                  else if belowFloor then (s1, Survives inst)
                  else case destroyInstance env i s1 of
                         None \<Rightarrow> (s1, Threw)
                       | Some s2 \<Rightarrow> (s2, Destroyed))"

fun scale_down_loop ::
  "scale_env \<Rightarrow> string list \<Rightarrow> int \<Rightarrow> instance_record list \<Rightarrow> scaler
   \<Rightarrow> scaler \<times> instance_record list option" where
  "scale_down_loop env stuckHosts activeCount [] s = (s, Some [])"
| "scale_down_loop env stuckHosts activeCount (inst # rest) s =
     (case scale_down_one env stuckHosts activeCount inst s of
        (s1, Survives r) \<Rightarrow>
          (let (s2, survivors) = scale_down_loop env stuckHosts activeCount rest s1
           in (s2, map_option ((#) r) survivors))
      | (s1, Destroyed) \<Rightarrow> scale_down_loop env stuckHosts (activeCount - 1) rest s1
      | (s1, Threw) \<Rightarrow> (s1, None))"

definition scale_down ::
  "scale_env \<Rightarrow> instance_record list \<Rightarrow> scaler \<Rightarrow> scaler \<times> instance_record list option" where
  "scale_down env instances s =
     scale_down_loop env (instancesHoldingStuckCancelledJobs s (se_now env))
       (int (length instances)) instances s"

section \<open>Re-enqueueing the jobs lost with an instance\<close>

text \<open>What the pass does to one job, given whether it is a lost job.\<close>

definition lost_job :: "string \<Rightarrow> string list \<Rightarrow> scaler \<Rightarrow> string \<Rightarrow> bool" where
  "lost_job i act s j = (map_of (v_jobInstance s) j = Some i \<and> j \<notin> set act
     \<and> live_status (status_of s j))"

definition has_payload :: "scaler \<Rightarrow> string \<Rightarrow> bool" where
  "has_payload s j = (\<exists>p. map_of (v_jobPayload s) j = Some (Payload p))"

definition job_view :: "scaler \<Rightarrow> string \<Rightarrow> string \<times> string option \<times> nat" where
  "job_view s j = (status_of s j, map_of (v_jobInstance s) j, pending_count j s)"

definition requeued_view :: "scaler \<Rightarrow> string \<Rightarrow> string \<times> string option \<times> nat" where
  "requeued_view s j = (if has_payload s j then (''RUNNING'', None, pending_count j s + 1)
     else (''FAILED'', None, pending_count j s))"

lemma pending_count_lpush [simp]:
  "pending_count k (reenqueue q s) = pending_count k s + (if q_jobId q = k then 1 else 0)"
  by (simp add: pending_count_def entries_of_def)

lemma pending_count_cancelPrior [simp]:
  "pending_count k (cancelPriorActiveAttempt j c s) = pending_count k s"
  by (simp add: pending_count_def entries_of_def)

lemma requeueInterrupted_view:
  "requeueInterruptedByScaleDown j c now s = (s', ok) \<Longrightarrow>
     ok = has_payload s j \<and> v_jobPayload s' = v_jobPayload s
     \<and> (\<not> ok \<longrightarrow> s' = s)
     \<and> (ok \<longrightarrow> job_view s' j = (''RUNNING'', None, pending_count j s + 1))
     \<and> (\<forall>k. k \<noteq> j \<longrightarrow> job_view s' k = job_view s k)
     \<and> v_pool s' = v_pool s \<and> l_destroyed s' = l_destroyed s
     \<and> v_pendingPackaging s' = v_pendingPackaging s
     \<and> v_jobCancelRequested s' = v_jobCancelRequested s"
  by (auto simp: requeueInterruptedByScaleDown_def has_payload_def job_view_def Let_def
      split: option.splits payload_entry.splits)

lemma resolve_view:
  assumes "\<not> terminal_status (status_of s j)"
  shows "job_view (resolveUnrequeueableScaleDownLoss i j s) j = (''FAILED'', None, pending_count j s)"
    and "k \<noteq> j \<Longrightarrow> job_view (resolveUnrequeueableScaleDownLoss i j s) k = job_view s k"
  using assms
  by (simp_all add: resolveUnrequeueableScaleDownLoss_def job_view_def Let_def status_of_def
      set_status_def pending_count_def entries_of_def)

lemma resolve_frame [simp]:
  "v_jobPayload (resolveUnrequeueableScaleDownLoss i j s) = v_jobPayload s"
  "v_pool (resolveUnrequeueableScaleDownLoss i j s) = v_pool s"
  "l_destroyed (resolveUnrequeueableScaleDownLoss i j s) = l_destroyed s"
  "v_pendingPackaging (resolveUnrequeueableScaleDownLoss i j s) = v_pendingPackaging s"
  "v_jobCancelRequested (resolveUnrequeueableScaleDownLoss i j s) = v_jobCancelRequested s"
  by (simp_all add: resolveUnrequeueableScaleDownLoss_def Let_def)

lemma job_view_interrupted [simp]:
  "job_view (s\<lparr> l_interrupted := x \<rparr>) j = job_view s j"
  by (simp add: job_view_def status_of_def pending_count_def entries_of_def)

text \<open>One entry: the job it names is re-enqueued or failed when it is lost, all else stays.\<close>

lemma requeue_one_view:
  assumes "st j = status_of s j"
  shows "job_view (requeue_one i act now st (j, m) s) j =
      (if m = i \<and> j \<notin> set act \<and> live_status (st j) then requeued_view s j else job_view s j)"
    and "k \<noteq> j \<Longrightarrow> job_view (requeue_one i act now st (j, m) s) k = job_view s k"
    and "v_jobPayload (requeue_one i act now st (j, m) s) = v_jobPayload s"
    and "v_pool (requeue_one i act now st (j, m) s) = v_pool s"
    and "l_destroyed (requeue_one i act now st (j, m) s) = l_destroyed s"
    and "v_pendingPackaging (requeue_one i act now st (j, m) s) = v_pendingPackaging s"
    and "v_jobCancelRequested (requeue_one i act now st (j, m) s) = v_jobCancelRequested s"
proof -
  obtain s' ok where r: "requeueInterruptedByScaleDown j True now s = (s', ok)"
    by (cases "requeueInterruptedByScaleDown j True now s")
  note v = requeueInterrupted_view [OF r]
  have nt: "\<not> terminal_status (status_of s j)" if "live_status (st j)"
    using that terminal_not_live assms by auto
  note res = resolve_view [OF nt]
  show "job_view (requeue_one i act now st (j, m) s) j =
      (if m = i \<and> j \<notin> set act \<and> live_status (st j) then requeued_view s j else job_view s j)"
    using v res(1) by (auto simp: requeue_one_def r requeued_view_def Let_def)
  show "k \<noteq> j \<Longrightarrow> job_view (requeue_one i act now st (j, m) s) k = job_view s k"
    using v res(2) by (auto simp: requeue_one_def r Let_def)
  show "v_jobPayload (requeue_one i act now st (j, m) s) = v_jobPayload s"
    using v by (auto simp: requeue_one_def r Let_def)
  show "v_pool (requeue_one i act now st (j, m) s) = v_pool s"
    using v by (auto simp: requeue_one_def r Let_def)
  show "l_destroyed (requeue_one i act now st (j, m) s) = l_destroyed s"
    using v by (auto simp: requeue_one_def r Let_def)
  show "v_pendingPackaging (requeue_one i act now st (j, m) s) = v_pendingPackaging s"
    using v by (auto simp: requeue_one_def r Let_def)
  show "v_jobCancelRequested (requeue_one i act now st (j, m) s) = v_jobCancelRequested s"
    using v by (auto simp: requeue_one_def r Let_def)
qed

lemma job_view_status: "job_view s j = job_view s' j \<Longrightarrow> status_of s j = status_of s' j"
  by (simp add: job_view_def)

lemma requeued_view_cong:
  "v_jobPayload s' = v_jobPayload s \<Longrightarrow> job_view s' j = job_view s j \<Longrightarrow>
   requeued_view s' j = requeued_view s j"
  by (simp add: requeued_view_def has_payload_def job_view_def)

lemma requeue_loop_view:
  assumes "distinct (map fst es)" "\<And>j. j \<in> set (map fst es) \<Longrightarrow> st j = status_of s j"
  shows "(\<forall>j. job_view (requeue_loop i act now st es s) j =
      (if map_of es j = Some i \<and> j \<notin> set act \<and> live_status (st j) then requeued_view s j
       else job_view s j))
    \<and> v_jobPayload (requeue_loop i act now st es s) = v_jobPayload s
    \<and> v_pool (requeue_loop i act now st es s) = v_pool s
    \<and> l_destroyed (requeue_loop i act now st es s) = l_destroyed s
    \<and> v_pendingPackaging (requeue_loop i act now st es s) = v_pendingPackaging s
    \<and> v_jobCancelRequested (requeue_loop i act now st es s) = v_jobCancelRequested s"
  using assms
proof (induction es arbitrary: s)
  case (Cons e es)
  obtain j m where e: "e = (j, m)" by (cases e)
  let ?s = "requeue_one i act now st (j, m) s"
  have stj: "st j = status_of s j" using Cons.prems(2) e by simp
  note one = requeue_one_view [where st = st and j = j and s = s and i = i and act = act
      and now = now and m = m, OF stj]
  have other: "k \<noteq> j \<Longrightarrow> job_view ?s k = job_view s k" for k using one(2) .
  have jn: "j \<notin> set (map fst es)" using Cons.prems(1) e by simp
  have pre: "\<And>k. k \<in> set (map fst es) \<Longrightarrow> st k = status_of ?s k"
    using Cons.prems(2) e jn job_view_status [OF other] by (metis list.set_intros(2) list.simps(9))
  from Cons.IH [OF _ pre] Cons.prems(1) e have IH:
    "\<And>k. job_view (requeue_loop i act now st es ?s) k =
      (if map_of es k = Some i \<and> k \<notin> set act \<and> live_status (st k) then requeued_view ?s k
       else job_view ?s k)"
    and rest: "v_jobPayload (requeue_loop i act now st es ?s) = v_jobPayload ?s"
      "v_pool (requeue_loop i act now st es ?s) = v_pool ?s"
      "l_destroyed (requeue_loop i act now st es ?s) = l_destroyed ?s"
      "v_pendingPackaging (requeue_loop i act now st es ?s) = v_pendingPackaging ?s"
      "v_jobCancelRequested (requeue_loop i act now st es ?s) = v_jobCancelRequested ?s"
    by auto
  have mj: "map_of es j = None" using jn by (simp add: map_of_eq_None_iff)
  have "job_view (requeue_loop i act now st (e # es) s) k =
      (if map_of (e # es) k = Some i \<and> k \<notin> set act \<and> live_status (st k) then requeued_view s k
       else job_view s k)" for k
  proof (cases "k = j")
    case True
    then show ?thesis using IH [of j] one(1) mj e by simp
  next
    case False
    then show ?thesis
      using IH [of k] other [OF False] requeued_view_cong [OF one(3) other [OF False]] e by simp
  qed
  then show ?case using rest one(3-7) e by simp
qed simp

lemma requeue_frame:
  assumes "distinct (map fst (v_jobInstance s))"
  shows "v_pool (requeueScaleDownInterruptions i act now s) = v_pool s"
    "l_destroyed (requeueScaleDownInterruptions i act now s) = l_destroyed s"
    "v_pendingPackaging (requeueScaleDownInterruptions i act now s) = v_pendingPackaging s"
    "v_jobCancelRequested (requeueScaleDownInterruptions i act now s) = v_jobCancelRequested s"
    "v_jobPayload (requeueScaleDownInterruptions i act now s) = v_jobPayload s"
  unfolding requeueScaleDownInterruptions_def
  using requeue_loop_view [OF assms(1), of "status_of s" s i act now] by simp_all

lemma requeue_view:
  assumes "distinct (map fst (v_jobInstance s))"
  shows "job_view (requeueScaleDownInterruptions i act now s) j =
    (if lost_job i act s j then requeued_view s j else job_view s j)"
  unfolding requeueScaleDownInterruptions_def lost_job_def
  using requeue_loop_view [OF assms, of "status_of s" s i act now] by simp

lemma distinct_requeue_one:
  assumes "distinct (map fst (v_jobInstance s))"
  shows "distinct (map fst (v_jobInstance (requeue_one i act now st e s)))"
  using assms
  by (cases e) (auto simp: requeue_one_def requeueInterruptedByScaleDown_def reenqueue_def lpush_queue_def
      resolveUnrequeueableScaleDownLoss_def cancelPriorActiveAttempt_def set_status_def Let_def
      distinct_delete split: option.splits payload_entry.splits)

lemma distinct_requeue:
  assumes "distinct (map fst (v_jobInstance s))"
  shows "distinct (map fst (v_jobInstance (requeueScaleDownInterruptions i act now s)))"
proof -
  have "distinct (map fst (v_jobInstance (requeue_loop i act now st es s)))" for st es
    using assms by (induction es arbitrary: s) (simp_all add: distinct_requeue_one)
  then show ?thesis by (simp add: requeueScaleDownInterruptions_def)
qed

section \<open>One instance\<close>

definition candidate :: "scale_env \<Rightarrow> string list \<Rightarrow> instance_record \<Rightarrow> bool" where
  "candidate env hosts inst = (idle_and_aged env inst \<or> i_draining inst = Some True
     \<or> i_instanceId inst \<in> set hosts)"

text \<open>What has to hold for an instance to be destroyed.\<close>

definition teardown_allowed :: "scale_env \<Rightarrow> string list \<Rightarrow> scaler \<Rightarrow> instance_record \<Rightarrow> bool" where
  "teardown_allowed env hosts s inst =
     (i_pendingReadySince inst = None \<and> candidate env hosts inst
      \<and> \<not> hasPendingPackaging (i_instanceId inst) s
      \<and> (case se_real env (i_instanceId inst) of None \<Rightarrow> False
         | Some ac \<Rightarrow> ac_count ac \<le> int (length (stuckCancelledActiveIds s (ac_ids ac) (se_now env)))))"

text \<open>What a step may do to the jobs: leave a job alone, or resolve a job lost with an
  instance whose active set was confirmed.\<close>

definition jobs_step :: "scale_env \<Rightarrow> scaler \<Rightarrow> scaler \<Rightarrow> bool" where
  "jobs_step env s s' = (\<forall>j. job_view s' j = job_view s j \<or>
     (job_view s' j = requeued_view s j \<and>
      (\<exists>i ac. se_real env i = Some ac \<and> lost_job i (ac_ids ac) s j)))"

definition same_pins :: "scaler \<Rightarrow> scaler \<Rightarrow> bool" where
  "same_pins s s' = (v_pendingPackaging s' = v_pendingPackaging s
     \<and> v_jobCancelRequested s' = v_jobCancelRequested s \<and> v_jobPayload s' = v_jobPayload s)"

lemma same_pins_eval:
  assumes "same_pins s s'"
  shows "hasPendingPackaging i s' = hasPendingPackaging i s"
    "stuckCancelledActiveIds s' ids now = stuckCancelledActiveIds s ids now"
    "stuck_cancelled s' now j = stuck_cancelled s now j"
    "teardown_allowed env hosts s' inst = teardown_allowed env hosts s inst"
proof -
  have 1: "stuck_cancelled s' now = stuck_cancelled s now" for now
    using assms by (auto simp: same_pins_def stuck_cancelled_def fun_eq_iff)
  show h: "hasPendingPackaging i s' = hasPendingPackaging i s" for i
    using assms by (simp add: same_pins_def hasPendingPackaging_def)
  show c: "stuckCancelledActiveIds s' ids now = stuckCancelledActiveIds s ids now" for ids now
    by (simp add: stuckCancelledActiveIds_def 1)
  show "stuck_cancelled s' now j = stuck_cancelled s now j" by (simp add: 1)
  show "teardown_allowed env hosts s' inst = teardown_allowed env hosts s inst"
    unfolding teardown_allowed_def h
    by (cases "se_real env (i_instanceId inst)") (simp_all add: c)
qed

lemma job_view_pool [simp]:
  "job_view (s\<lparr> v_pool := p \<rparr>) j = job_view s j"
  "job_view (s\<lparr> v_pool := p, l_destroyed := d \<rparr>) j = job_view s j"
  "job_view (updateInstance r s) j = job_view s j"
  by (simp_all add: job_view_def status_of_def pending_count_def entries_of_def updateInstance_def)

lemma updateInstance_frame [simp]:
  "v_queue (updateInstance r s) = v_queue s" "v_inflight (updateInstance r s) = v_inflight s"
  "v_jobInstance (updateInstance r s) = v_jobInstance s" "v_jobStatus (updateInstance r s) = v_jobStatus s"
  "v_jobPayload (updateInstance r s) = v_jobPayload s" "v_jobAttempts (updateInstance r s) = v_jobAttempts s"
  "v_pendingPackaging (updateInstance r s) = v_pendingPackaging s"
  "v_jobCancelRequested (updateInstance r s) = v_jobCancelRequested s"
  "v_jobCompletionSeen (updateInstance r s) = v_jobCompletionSeen s"
  "l_destroyed (updateInstance r s) = l_destroyed s" "l_dispatched (updateInstance r s) = l_dispatched s"
  by (simp_all add: updateInstance_def)

lemma requeue_jobs_step:
  assumes "distinct (map fst (v_jobInstance s))" "se_real env i = Some ac"
    "s1 = requeueScaleDownInterruptions i (ac_ids ac) now s"
  shows "jobs_step env s s1" "same_pins s s1" "l_destroyed s1 = l_destroyed s"
    "distinct (map fst (v_jobInstance s1))"
    "\<And>j. map_of (v_jobInstance s1) j = Some i \<Longrightarrow> live_status (status_of s1 j) \<Longrightarrow> j \<in> set (ac_ids ac)"
proof -
  note v = requeue_view [OF assms(1), of i "ac_ids ac" now, folded assms(3)]
  show "jobs_step env s s1" using v assms(2) by (auto simp: jobs_step_def)
  show "same_pins s s1" "l_destroyed s1 = l_destroyed s"
    using requeue_frame [OF assms(1)] assms(3) by (simp_all add: same_pins_def)
  show "distinct (map fst (v_jobInstance s1))" using distinct_requeue [OF assms(1)] assms(3) by simp
  show "j \<in> set (ac_ids ac)"
    if "map_of (v_jobInstance s1) j = Some i" "live_status (status_of s1 j)" for j
    using that v [of j] by (auto simp: job_view_def requeued_view_def lost_job_def split: if_splits)
qed

definition verdict_id :: "verdict \<Rightarrow> instance_record \<Rightarrow> bool" where
  "verdict_id v inst = (\<forall>r. v = Survives r \<longrightarrow> i_instanceId r = i_instanceId inst)"

definition drained :: "instance_record \<Rightarrow> int \<Rightarrow> instance_record" where
  "drained inst n = inst\<lparr> i_activeJobs := n, i_draining := Some True \<rparr>"

definition released :: "scale_env \<Rightarrow> instance_record \<Rightarrow> instance_record" where
  "released env inst = inst\<lparr> i_activeJobs := 0,
     i_lastIdleAt := Some (StampNum (Fin (if 0 < i_activeJobs inst then of_int (se_now env)
       else coalesce (resolveIdleSince (se_number env) inst) (of_int (se_now env))))),
     i_draining := None, i_cancelDrainingSince := None \<rparr>"

lemma drained_id [simp]:
  "i_instanceId (drained inst n) = i_instanceId inst" "i_instanceId (released env inst) = i_instanceId inst"
  by (simp_all add: drained_def released_def)

lemma scale_down_one_eval:
  assumes "i_pendingReadySince inst = None" "candidate env hosts inst"
    "se_minInstances env < n \<or> (i_cancelDrainingSince inst \<noteq> None \<and> \<not> idle_and_aged env inst
       \<and> i_instanceId inst \<notin> set hosts)"
    "se_real env (i_instanceId inst) = Some ac"
    "s1 = requeueScaleDownInterruptions (i_instanceId inst) (ac_ids ac) (se_now env) s"
  shows "scale_down_one env hosts n inst s =
     (if 0 < max 0 (ac_count ac - int (length (stuckCancelledActiveIds s1 (ac_ids ac) (se_now env))))
         \<or> hasPendingPackaging (i_instanceId inst) s1
      then (updateInstance (drained inst (ac_count ac)) s1, Survives (drained inst (ac_count ac)))
      else if i_cancelDrainingSince inst \<noteq> None \<and> \<not> idle_and_aged env inst
         \<and> i_instanceId inst \<notin> set hosts \<and> stuckCancelledActiveIds s1 (ac_ids ac) (se_now env) = []
      then (updateInstance (released env inst) s1, Survives (released env inst))
      else if n \<le> se_minInstances env then (s1, Survives inst)
      else if \<not> se_removable env (i_instanceId inst) then (s1, Threw)
      else (s1\<lparr> v_pool := AList.delete (i_instanceId inst) (v_pool s1),
              l_destroyed := l_destroyed s1 @ [i_instanceId inst] \<rparr>, Destroyed))"
proof -
  have g: "\<not> (\<not> (idle_and_aged env inst \<or> i_draining inst = Some True \<or> i_instanceId inst \<in> set hosts) \<or>
     (n \<le> se_minInstances env \<and> \<not> (i_cancelDrainingSince inst \<noteq> None \<and> \<not> idle_and_aged env inst
       \<and> i_instanceId inst \<notin> set hosts)))"
    using assms(2,3) by (auto simp: candidate_def)
  show ?thesis
    unfolding scale_down_one_def Let_def if_not_P [OF g] assms(4) option.case assms(5) [symmetric]
      drained_def [symmetric] released_def [symmetric] destroyInstance_def
    using assms(1) by simp
qed

lemma scale_down_one_step:
  assumes d: "distinct (map fst (v_jobInstance s))"
    and r: "scale_down_one env hosts n inst s = (s', v)"
  shows "jobs_step env s s' \<and> same_pins s s' \<and> distinct (map fst (v_jobInstance s'))
    \<and> verdict_id v inst
    \<and> l_destroyed s' = l_destroyed s @ (if v = Destroyed then [i_instanceId inst] else [])
    \<and> (v = Destroyed \<longrightarrow> teardown_allowed env hosts s inst \<and> se_minInstances env < n
        \<and> (\<forall>j ac. se_real env (i_instanceId inst) = Some ac
             \<longrightarrow> map_of (v_jobInstance s') j = Some (i_instanceId inst)
             \<longrightarrow> live_status (status_of s' j) \<longrightarrow> j \<in> set (ac_ids ac)))"
proof (cases "i_pendingReadySince inst \<noteq> None \<or> \<not> candidate env hosts inst
    \<or> (n \<le> se_minInstances env \<and> (i_cancelDrainingSince inst = None \<or> idle_and_aged env inst
         \<or> i_instanceId inst \<in> set hosts))
    \<or> se_real env (i_instanceId inst) = None")
  case True
  then have "s' = s \<and> v = Survives inst"
    using r by (auto simp: scale_down_one_def candidate_def Let_def split: if_splits)
  then show ?thesis using d by (simp add: jobs_step_def same_pins_def verdict_id_def)
next
  case False
  then obtain ac where ac: "se_real env (i_instanceId inst) = Some ac" by auto
  define s1 where "s1 = requeueScaleDownInterruptions (i_instanceId inst) (ac_ids ac) (se_now env) s"
  note q = requeue_jobs_step [OF d ac s1_def]
  note e = same_pins_eval [OF q(2)]
  have u: "status_of (s1\<lparr> v_pool := p, l_destroyed := x \<rparr>) k = status_of s1 k" for p x k
    by (simp add: status_of_def)
  have t: "teardown_allowed env hosts s inst"
    if "\<not> 0 < max 0 (ac_count ac - int (length (stuckCancelledActiveIds s1 (ac_ids ac) (se_now env))))"
      "\<not> hasPendingPackaging (i_instanceId inst) s1"
    using that False ac e by (auto simp: teardown_allowed_def)
  have keep: "jobs_step env s (updateInstance x s1)" "same_pins s (updateInstance x s1)"
    "jobs_step env s (s1\<lparr> v_pool := p, l_destroyed := y \<rparr>)"
    "same_pins s (s1\<lparr> v_pool := p, l_destroyed := y \<rparr>)" for x p y
    using q(1,2) by (auto simp: jobs_step_def same_pins_def)
  have body: "scale_down_one env hosts n inst s =
     (if 0 < max 0 (ac_count ac - int (length (stuckCancelledActiveIds s1 (ac_ids ac) (se_now env))))
         \<or> hasPendingPackaging (i_instanceId inst) s1
      then (updateInstance (drained inst (ac_count ac)) s1, Survives (drained inst (ac_count ac)))
      else if i_cancelDrainingSince inst \<noteq> None \<and> \<not> idle_and_aged env inst
         \<and> i_instanceId inst \<notin> set hosts \<and> stuckCancelledActiveIds s1 (ac_ids ac) (se_now env) = []
      then (updateInstance (released env inst) s1, Survives (released env inst))
      else if n \<le> se_minInstances env then (s1, Survives inst)
      else if \<not> se_removable env (i_instanceId inst) then (s1, Threw)
      else (s1\<lparr> v_pool := AList.delete (i_instanceId inst) (v_pool s1),
              l_destroyed := l_destroyed s1 @ [i_instanceId inst] \<rparr>, Destroyed))"
    using False by (intro scale_down_one_eval) (auto simp: candidate_def ac s1_def)
  consider (upd) x where "s' = updateInstance x s1" "v = Survives x" "i_instanceId x = i_instanceId inst"
    | (stay) "s' = s1" "v = Survives inst"
    | (threw) "s' = s1" "v = Threw"
    | (gone) "v = Destroyed" "s' = s1\<lparr> v_pool := AList.delete (i_instanceId inst) (v_pool s1),
         l_destroyed := l_destroyed s1 @ [i_instanceId inst] \<rparr>" "se_minInstances env < n"
        "\<not> 0 < max 0 (ac_count ac - int (length (stuckCancelledActiveIds s1 (ac_ids ac) (se_now env))))"
        "\<not> hasPendingPackaging (i_instanceId inst) s1"
    using r unfolding body by (auto split: if_splits)
  then show ?thesis
  proof cases
    case upd
    then show ?thesis using keep q by (simp add: verdict_id_def)
  next
    case stay
    then show ?thesis using q by (simp add: verdict_id_def)
  next
    case threw
    then show ?thesis using q by (simp add: verdict_id_def)
  next
    case gone
    have t': "teardown_allowed env hosts s inst" using t gone by simp
    have "j \<in> set (ac_ids x)" if "se_real env (i_instanceId inst) = Some x"
        "map_of (v_jobInstance s') j = Some (i_instanceId inst)" "live_status (status_of s' j)" for j x
      using that q(5) ac gone(2) u by simp
    then show ?thesis using gone(1,2,3) keep(3,4) q(3,4) t' by (simp add: verdict_id_def)
  qed
qed

section \<open>The pass\<close>

lemma jobs_step_trans:
  assumes "jobs_step env s s1" "jobs_step env s1 s2" "same_pins s s1"
  shows "jobs_step env s s2"
  unfolding jobs_step_def
proof
  fix j
  have nl: "\<not> lost_job i ids s1 j" if "job_view s1 j = requeued_view s j" for i ids
    using that by (simp add: lost_job_def job_view_def requeued_view_def split: if_splits)
  have lo: "lost_job i ids s1 j = lost_job i ids s j" if "job_view s1 j = job_view s j" for i ids
    using that by (simp add: lost_job_def job_view_def)
  have rv: "requeued_view s1 j = requeued_view s j" if "job_view s1 j = job_view s j"
    using assms(3) by (intro requeued_view_cong that) (simp add: same_pins_def)
  have a: "job_view s1 j = job_view s j \<or> (job_view s1 j = requeued_view s j \<and>
      (\<exists>i ac. se_real env i = Some ac \<and> lost_job i (ac_ids ac) s j))"
    using assms(1) by (simp add: jobs_step_def)
  have b: "job_view s2 j = job_view s1 j \<or> (job_view s2 j = requeued_view s1 j \<and>
      (\<exists>i ac. se_real env i = Some ac \<and> lost_job i (ac_ids ac) s1 j))"
    using assms(2) by (simp add: jobs_step_def)
  show "job_view s2 j = job_view s j \<or> (job_view s2 j = requeued_view s j \<and>
      (\<exists>i ac. se_real env i = Some ac \<and> lost_job i (ac_ids ac) s j))"
  proof (cases "job_view s1 j = job_view s j")
    case True
    then show ?thesis using b lo [OF True] rv [OF True] by simp
  next
    case False
    then have "job_view s1 j = requeued_view s j" using a by simp
    then show ?thesis using a b nl by simp
  qed
qed

lemma same_pins_trans: "same_pins s s1 \<Longrightarrow> same_pins s1 s2 \<Longrightarrow> same_pins s s2"
  by (simp add: same_pins_def)

text \<open>A step never maps a job to an instance, nor makes a mapped job live.\<close>

lemma jobs_step_mapped:
  assumes "jobs_step env s s'" "map_of (v_jobInstance s') j = Some i" "live_status (status_of s' j)"
  shows "map_of (v_jobInstance s) j = Some i" "live_status (status_of s j)"
  using assms(1) [unfolded jobs_step_def, rule_format, of j] assms(2,3)
  by (auto simp: job_view_def requeued_view_def split: if_splits)

definition orphan_free :: "scale_env \<Rightarrow> scaler \<Rightarrow> string \<Rightarrow> bool" where
  "orphan_free env s i = (\<forall>j ac. se_real env i = Some ac \<longrightarrow> map_of (v_jobInstance s) j = Some i
     \<longrightarrow> live_status (status_of s j) \<longrightarrow> j \<in> set (ac_ids ac))"

lemma scale_down_loop_step:
  assumes "distinct (map fst (v_jobInstance s))" "scale_down_loop env hosts n insts s = (s', res)"
  shows "\<exists>ds. jobs_step env s s' \<and> same_pins s s' \<and> distinct (map fst (v_jobInstance s'))
    \<and> l_destroyed s' = l_destroyed s @ ds
    \<and> (\<forall>i\<in>set ds. orphan_free env s' i
         \<and> (\<exists>inst\<in>set insts. i_instanceId inst = i \<and> teardown_allowed env hosts s inst))
    \<and> (ds \<noteq> [] \<longrightarrow> se_minInstances env \<le> n - int (length ds))
    \<and> (\<forall>rs. res = Some rs \<longrightarrow>
         mset (map i_instanceId insts) = mset (map i_instanceId rs) + mset ds)"
  using assms
proof (induction env hosts n insts s arbitrary: s' res rule: scale_down_loop.induct)
  case (1 env hosts n s)
  then show ?case by (auto intro!: exI [of _ "[]"] simp: jobs_step_def same_pins_def)
next
  case (2 env hosts n inst rest s)
  obtain s1 v where o: "scale_down_one env hosts n inst s = (s1, v)"
    by (cases "scale_down_one env hosts n inst s")
  note st = scale_down_one_step [OF "2.prems"(1) o]
  have d1: "distinct (map fst (v_jobInstance s1))" using st by blast
  have tr: "jobs_step env s1 s2 \<Longrightarrow> jobs_step env s s2" for s2
    using st jobs_step_trans by blast
  have sp: "same_pins s1 s2 \<Longrightarrow> same_pins s s2" for s2 using st same_pins_trans by blast
  have ta: "teardown_allowed env hosts s1 x = teardown_allowed env hosts s x" for x
    using same_pins_eval(4) st by blast
  show ?case
  proof (cases v)
    case Threw
    then have "s' = s1" "res = None" using "2.prems"(2) o by auto
    then show ?thesis using st Threw by (auto intro!: exI [of _ "[]"])
  next
    case (Survives r)
    obtain s2 r2 where l: "scale_down_loop env hosts n rest s1 = (s2, r2)"
      by (cases "scale_down_loop env hosts n rest s1")
    have e: "s' = s2" "res = map_option ((#) r) r2" using "2.prems"(2) o Survives l by auto
    from "2.IH"(1) [OF o [symmetric] Survives d1 l] obtain ds where ds: "jobs_step env s1 s2"
      "same_pins s1 s2" "distinct (map fst (v_jobInstance s2))" "l_destroyed s2 = l_destroyed s1 @ ds"
      "\<forall>i\<in>set ds. orphan_free env s2 i
         \<and> (\<exists>x\<in>set rest. i_instanceId x = i \<and> teardown_allowed env hosts s1 x)"
      "ds \<noteq> [] \<longrightarrow> se_minInstances env \<le> n - int (length ds)"
      "\<forall>rs. r2 = Some rs \<longrightarrow> mset (map i_instanceId rest) = mset (map i_instanceId rs) + mset ds"
      by auto
    have "l_destroyed s' = l_destroyed s @ ds" using e ds(4) st Survives by simp
    moreover have "i_instanceId r = i_instanceId inst" using st Survives by (simp add: verdict_id_def)
    ultimately show ?thesis using ds e tr sp ta by (intro exI [of _ ds]) auto
  next
    case Destroyed
    have l: "scale_down_loop env hosts (n - 1) rest s1 = (s', res)" using "2.prems"(2) o Destroyed by simp
    from "2.IH"(2) [OF o [symmetric] Destroyed d1 l] obtain ds where ds: "jobs_step env s1 s'"
      "same_pins s1 s'" "distinct (map fst (v_jobInstance s'))" "l_destroyed s' = l_destroyed s1 @ ds"
      "\<forall>i\<in>set ds. orphan_free env s' i
         \<and> (\<exists>x\<in>set rest. i_instanceId x = i \<and> teardown_allowed env hosts s1 x)"
      "ds \<noteq> [] \<longrightarrow> se_minInstances env \<le> n - 1 - int (length ds)"
      "\<forall>rs. res = Some rs \<longrightarrow> mset (map i_instanceId rest) = mset (map i_instanceId rs) + mset ds"
      by auto
    have "orphan_free env s1 (i_instanceId inst)" using st Destroyed by (auto simp: orphan_free_def)
    then have "orphan_free env s' (i_instanceId inst)"
      using jobs_step_mapped [OF ds(1)] by (auto simp: orphan_free_def)
    moreover have "teardown_allowed env hosts s inst" "se_minInstances env < n"
      "l_destroyed s' = l_destroyed s @ i_instanceId inst # ds"
      using st Destroyed ds(4) by auto
    ultimately show ?thesis using ds tr sp ta
      by (intro exI [of _ "i_instanceId inst # ds"]) auto
  qed
qed

section \<open>Properties\<close>

definition truthful :: "scale_env \<Rightarrow> bool" where
  "truthful env = (\<forall>i. case se_real env i of None \<Rightarrow> True
     | Some ac \<Rightarrow> int (length (remdups (ac_ids ac))) \<le> ac_count ac)"

lemma all_ids_stuck:
  assumes "truthful env" "se_real env i = Some ac"
    "ac_count ac \<le> int (length (stuckCancelledActiveIds s (ac_ids ac) now))" "j \<in> set (ac_ids ac)"
  shows "stuck_cancelled s now j"
proof -
  have "length (remdups (ac_ids ac)) \<le> length (filter (stuck_cancelled s now) (remdups (ac_ids ac)))"
    using assms(1) [unfolded truthful_def, rule_format, of i] assms(2,3)
    by (simp add: stuckCancelledActiveIds_def)
  then have "filter (stuck_cancelled s now) (remdups (ac_ids ac)) = remdups (ac_ids ac)"
    by (metis filter_True length_filter_less linorder_not_less)
  then have "j \<in> set (filter (stuck_cancelled s now) (remdups (ac_ids ac)))" using assms(4) by simp
  then show ?thesis by simp
qed

definition demo_idle :: instance_record where
  "demo_idle = \<lparr> i_instanceId = ''enc'', i_url = ''http://e'', i_callbackListenerUrl = None,
     i_callbackTrustReady = Some True, i_callbackTrustConfirmedAt = None,
     i_callbackTrustFirstProbeAt = None, i_callbackTrustQuarantinedAt = None,
     i_callbackPathUnusableAt = None, i_callbackPathUnusableStatus = None, i_activeJobs = 0,
     i_lastIdleAt = Some (StampNum (Fin 0)), i_readyAt = None, i_draining = None,
     i_cancelDrainingSince = None, i_pendingReadySince = None, i_listenerCreateAttempts = None,
     i_listenerCreateNextAttemptAt = None, i_listenerCreateBlockedAt = None \<rparr>"

definition demo_env :: scale_env where
  "demo_env = \<lparr> se_now = 600000, se_number = (\<lambda>_. NaN), se_idleTimeoutMs = 300000,
     se_minInstances = 0, se_maxInstances = 2,
     se_real = (\<lambda>_. Some \<lparr> ac_count = 0, ac_ids = [], ac_truncated = False \<rparr>),
     se_removable = (\<lambda>_. True) \<rparr>"

definition demo_pool :: scaler where
  "demo_pool = demo_retry_state\<lparr> v_pool := [(''enc'', Instance demo_idle)] \<rparr>"

lemma demo_hyps:
  "distinct (map fst (v_jobInstance demo_pool))" "truthful demo_env"
  by (simp_all add: demo_pool_def demo_retry_state_def truthful_def demo_env_def)

text \<open>C5. Scale-down never kills wanted work: an instance the pass destroys was not still being
  placed, was idle past its timeout, draining or holding a stuck cancelled job, had its
  real state confirmed by the encoder, had every job that encoder reports active cancelled
  by an operator longer ago than the grace window, and had no packaging pending; and
  afterwards no live job maps to it, except such a cancelled one. This needs the encoder's
  count to be at least the number of jobs it lists.\<close>

theorem scale_down_spares_wanted_work:
  assumes "distinct (map fst (v_jobInstance s))" "truthful env"
    "scale_down env instances s = (s', res)"
    "i \<in> set (l_destroyed s')" "i \<notin> set (l_destroyed s)"
  shows "\<exists>inst ac. inst \<in> set instances \<and> i_instanceId inst = i \<and> i_pendingReadySince inst = None
    \<and> (idle_and_aged env inst \<or> i_draining inst = Some True
        \<or> i \<in> set (instancesHoldingStuckCancelledJobs s (se_now env)))
    \<and> se_real env i = Some ac \<and> (\<forall>j\<in>set (ac_ids ac). stuck_cancelled s (se_now env) j)
    \<and> \<not> hasPendingPackaging i s
    \<and> (\<forall>j. map_of (v_jobInstance s') j = Some i \<and> live_status (status_of s' j)
         \<longrightarrow> stuck_cancelled s (se_now env) j)"
proof -
  let ?h = "instancesHoldingStuckCancelledJobs s (se_now env)"
  from scale_down_loop_step [OF assms(1) assms(3) [unfolded scale_down_def]] obtain ds where
    ds: "l_destroyed s' = l_destroyed s @ ds"
      "\<forall>i\<in>set ds. orphan_free env s' i
         \<and> (\<exists>inst\<in>set instances. i_instanceId inst = i \<and> teardown_allowed env ?h s inst)" by blast
  then obtain inst where inst: "inst \<in> set instances" "i_instanceId inst = i"
    "teardown_allowed env ?h s inst" "orphan_free env s' i" using assms(4,5) by auto
  then obtain ac where ac: "se_real env i = Some ac"
    "ac_count ac \<le> int (length (stuckCancelledActiveIds s (ac_ids ac) (se_now env)))"
    by (auto simp: teardown_allowed_def split: option.splits)
  note stuck = all_ids_stuck [OF assms(2) ac]
  show ?thesis using inst ac(1) stuck
    by (intro exI [of _ inst] exI [of _ ac]) (auto simp: teardown_allowed_def candidate_def orphan_free_def)
qed

lemma scale_down_spares_wanted_work_witness:
  "\<not> hasPendingPackaging ''enc'' demo_pool"
proof -
  obtain s' res where r: "scale_down demo_env [demo_idle] demo_pool = (s', res)"
    by (cases "scale_down demo_env [demo_idle] demo_pool")
  have "l_destroyed (fst (scale_down demo_env [demo_idle] demo_pool)) = [''enc'']" by code_simp
  then have i: "''enc'' \<in> set (l_destroyed s')" using r by simp
  have n: "''enc'' \<notin> set (l_destroyed demo_pool)"
    by (simp add: demo_pool_def demo_retry_state_def empty_scaler_def)
  show ?thesis using scale_down_spares_wanted_work [OF demo_hyps r i n] by auto
qed

text \<open>The warm floor: when the pass completes, the instances it was given are exactly
  the survivors together with the destroyed ones, and the survivors number at least the
  configured minimum, or all of the pool when it was already at or below it.\<close>

theorem scale_down_keeps_floor:
  assumes "distinct (map fst (v_jobInstance s))" "scale_down env instances s = (s', Some survivors)"
  shows "\<exists>destroyed. l_destroyed s' = l_destroyed s @ destroyed
    \<and> mset (map i_instanceId instances) = mset (map i_instanceId survivors) + mset destroyed
    \<and> min (int (length instances)) (se_minInstances env) \<le> int (length survivors)"
proof -
  from scale_down_loop_step [OF assms(1) assms(2) [unfolded scale_down_def]] obtain ds where
    ds: "l_destroyed s' = l_destroyed s @ ds"
      "ds \<noteq> [] \<longrightarrow> se_minInstances env \<le> int (length instances) - int (length ds)"
      "mset (map i_instanceId instances) = mset (map i_instanceId survivors) + mset ds" by blast
  have "length instances = length survivors + length ds"
    using arg_cong [OF ds(3), of size] by (simp add: size_mset)
  then show ?thesis using ds by (intro exI [of _ ds]) (cases "ds = []"; auto)
qed

lemma scale_down_keeps_floor_witness:
  "\<exists>s' d. scale_down (demo_env\<lparr> se_minInstances := 1 \<rparr>) [demo_idle] demo_pool = (s', Some [demo_idle])
     \<and> l_destroyed s' = l_destroyed demo_pool @ d"
proof -
  obtain s' res where r: "scale_down (demo_env\<lparr> se_minInstances := 1 \<rparr>) [demo_idle] demo_pool = (s', res)"
    by (cases "scale_down (demo_env\<lparr> se_minInstances := 1 \<rparr>) [demo_idle] demo_pool")
  then have res: "res = Some [demo_idle]"
    by (simp add: scale_down_def scale_down_one_def Let_def demo_env_def demo_idle_def)
  show ?thesis using scale_down_keeps_floor [OF demo_hyps(1)] r res by blast
qed



text \<open>A drain set by an operator's cancel is released: once the encoder confirms that the
  instance holds no work and no packaging is pending, an instance whose only reason for a
  teardown is that drain is kept, whatever the pool size, returns to service with a zero
  count, and is not a teardown candidate afterwards.\<close>

theorem cancel_drain_released:
  assumes "i_pendingReadySince inst = None" "i_draining inst = Some True"
    "i_cancelDrainingSince inst = Some t" "\<not> idle_and_aged env inst"
    "i_instanceId inst \<notin> set hosts" "se_real env (i_instanceId inst) = Some ac"
    "ac_count ac = 0" "ac_ids ac = []" "\<not> hasPendingPackaging (i_instanceId inst) s"
    "0 \<le> se_idleTimeoutMs env" "0 \<le> i_activeJobs inst" "distinct (map fst (v_jobInstance s))"
  shows "\<exists>s' r. scale_down_one env hosts n inst s = (s', Survives r)
    \<and> i_draining r = None \<and> i_cancelDrainingSince r = None \<and> i_activeJobs r = 0
    \<and> map_of (v_pool s') (i_instanceId inst) = Some (Instance r)
    \<and> l_destroyed s' = l_destroyed s \<and> \<not> candidate env hosts r"
proof -
  define s1 where "s1 = requeueScaleDownInterruptions (i_instanceId inst) (ac_ids ac) (se_now env) s"
  note q = requeue_jobs_step [OF assms(12,6) s1_def]
  have c: "candidate env hosts inst" using assms(2) by (simp add: candidate_def)
  have nf: "stuckCancelledActiveIds s1 (ac_ids ac) (se_now env) = []"
    using assms(8) by (simp add: stuckCancelledActiveIds_def)
  have "scale_down_one env hosts n inst s
      = (updateInstance (released env inst) s1, Survives (released env inst))"
    using assms nf same_pins_eval(1) [OF q(2)]
    by (subst scale_down_one_eval [OF assms(1) c _ assms(6) s1_def]) auto
  moreover have "\<not> candidate env hosts (released env inst)"
    using assms(4,5,10,11)
    by (auto simp: candidate_def idle_and_aged_def released_def isIdlePastTimeout_def
        resolveIdleSince_def split: option.splits)
  moreover have "map_of (v_pool (updateInstance (released env inst) s1)) (i_instanceId inst)
      = Some (Instance (released env inst))"
    by (simp add: updateInstance_def update_conv')
  moreover have "i_draining (released env inst) = None" "i_cancelDrainingSince (released env inst) = None"
    "i_activeJobs (released env inst) = 0" by (simp_all add: released_def)
  moreover have "l_destroyed (updateInstance (released env inst) s1) = l_destroyed s" using q(3) by simp
  ultimately show ?thesis by blast
qed

lemma cancel_drain_released_witness:
  "\<exists>s' r. scale_down_one demo_env [] 1
     (demo_idle\<lparr> i_draining := Some True, i_cancelDrainingSince := Some 0, i_activeJobs := 1 \<rparr>)
     empty_scaler = (s', Survives r) \<and> i_draining r = None"
proof -
  let ?i = "demo_idle\<lparr> i_draining := Some True, i_cancelDrainingSince := Some 0, i_activeJobs := 1 \<rparr>"
  have "\<not> idle_and_aged demo_env ?i" by (simp add: idle_and_aged_def)
  moreover have "se_real demo_env (i_instanceId ?i) = Some \<lparr> ac_count = 0, ac_ids = [], ac_truncated = False \<rparr>"
    "0 \<le> se_idleTimeoutMs demo_env" by (simp_all add: demo_env_def)
  moreover have "\<not> hasPendingPackaging (i_instanceId ?i) empty_scaler" by code_simp
  ultimately show ?thesis
    using cancel_drain_released [of ?i 0 demo_env "[]" _ empty_scaler 1]
    by (auto simp: demo_idle_def empty_scaler_def)
qed

end
