(* ===== verification/Dispatch.thy ===== *)
theory Dispatch
  imports Scale_Down
begin

text \<open>
  Dispatch of queued jobs (\<^verbatim>\<open>src/src/encore-scaler/scaler-loop.ts\<close>: step 5 of \<^verbatim>\<open>tick\<close>,
  \<^verbatim>\<open>ensureCallbackTrust\<close> and \<^verbatim>\<open>dispatch\<close>).

  \<^verbatim>\<open>dispatch_env\<close> holds what the step meets outside: the clock of the tick, the answers of
  the network to the trust probe, the listener's token and the way to mint a fresh one,
  and the encoder's answer to a posted job. An answer with a 2xx status carries the
  \<^verbatim>\<open>id\<close> and \<^verbatim>\<open>jobId\<close> of its body (both \<^verbatim>\<open>None\<close> when it is not JSON). The two hooks into the
  job repository are one entry of \<^verbatim>\<open>l_dispatched\<close>.
\<close>

section \<open>Definitions\<close>

datatype post_answer = PostThrew | PostRejected int | PostOk "string option" "string option"

record dispatch_env =
  de_now :: int
  de_protocol :: "string \<Rightarrow> string option"
  de_fetch :: "request \<Rightarrow> fetch_answer"
  de_sat :: "string option"
  de_refresh :: "string option option"
  de_callbackTrustTimeoutMs :: int
  de_post :: "string \<Rightarrow> json \<Rightarrow> post_answer"

definition stamp_set :: "int option \<Rightarrow> bool" where
  "stamp_set t = (t \<noteq> None \<and> t \<noteq> Some 0)"

definition ensureCallbackTrust ::
  "dispatch_env \<Rightarrow> instance_record \<Rightarrow> scaler \<Rightarrow> scaler \<times> instance_record \<times> bool" where
  "ensureCallbackTrust env inst s =
     (if i_callbackTrustReady inst = Some True then (s, inst, True)
      else if stamp_set (i_callbackTrustQuarantinedAt inst) then (s, inst, False)
      else if stamp_set (i_callbackPathUnusableAt inst) then (s, inst, True)
      else if \<not> truthy (i_callbackListenerUrl inst) then (s, inst, True)
      else
        let now = de_now env;
            inst1 = (if i_callbackTrustFirstProbeAt inst = None
              then inst\<lparr> i_callbackTrustFirstProbeAt := Some now \<rparr> else inst);
            s1 = (if i_callbackTrustFirstProbeAt inst = None then updateInstance inst1 s else s);
            result = snd (probeCallbackTrust (de_protocol env) (de_fetch env) (de_sat env)
              (de_refresh env) (the (i_callbackListenerUrl inst)));
            elapsedMs = now - the (i_callbackTrustFirstProbeAt inst1);
            confirmed = inst1\<lparr> i_callbackTrustReady := Some True, i_callbackTrustConfirmedAt := Some now \<rparr>;
            quarantined = inst1\<lparr> i_callbackTrustQuarantinedAt := Some now \<rparr>;
            degraded = (\<lambda>st. inst1\<lparr> i_callbackPathUnusableAt := Some now, i_callbackPathUnusableStatus := Some st \<rparr>)
        in case result of
             Trusted st \<Rightarrow> (updateInstance confirmed s1, confirmed, True)
           | CallbackUnusable st \<Rightarrow>
               if elapsedMs \<le> de_callbackTrustTimeoutMs env then (s1, inst1, False)
               else (updateInstance (degraded st) s1, degraded st, True)
           | IngressAuthWindow st a \<Rightarrow>
               if elapsedMs \<le> de_callbackTrustTimeoutMs env then (s1, inst1, False)
               else (updateInstance (degraded st) s1, degraded st, True)
           | ProbeFailed c d \<Rightarrow>
               if elapsedMs \<le> de_callbackTrustTimeoutMs env then (s1, inst1, False)
               else (updateInstance quarantined s1, quarantined, False))"

definition dispatch_payload :: "dispatch_env \<Rightarrow> instance_record \<Rightarrow> json \<Rightarrow> json" where
  "dispatch_payload env inst payload =
     (let fields = (case payload of JObj o' \<Rightarrow> o' | _ \<Rightarrow> []) in
      if \<not> truthy (i_callbackListenerUrl inst) then JObj fields
      else case buildCallbackUri (de_protocol env) (the (i_callbackListenerUrl inst)) of
             None \<Rightarrow> JObj fields
           | Some uri \<Rightarrow> JObj (AList.update ''progressCallbackUri'' (JStr uri) fields))"

text \<open>What a successful dispatch writes.\<close>

definition record_dispatched ::
  "instance_record \<Rightarrow> queued_job \<Rightarrow> string \<Rightarrow> scaler \<Rightarrow> scaler" where
  "record_dispatched inst job encoreUuid s =
     (let j = q_jobId job;
          s1 = s\<lparr> v_jobInstance := AList.update j (i_instanceId inst) (v_jobInstance s) \<rparr>;
          s2 = set_status j ''running'' s1;
          attemptNumber = coalesce (q_attempts job) 0 + 1;
          s3 = recordDispatch j (q_payload job) attemptNumber s2;
          s4 = (if encoreUuid \<noteq> [] \<and> encoreUuid \<noteq> j
            then s3\<lparr> v_jobUuid := AList.update j encoreUuid (v_jobUuid s3),
                     v_uuidToExternalId := AList.update encoreUuid j (v_uuidToExternalId s3),
                     v_jobEncoreUrl := AList.update j
                       (strip_slashes (i_url inst) @ ''/encoreJobs/'' @ encoreUuid) (v_jobEncoreUrl s3) \<rparr>
            else s3)
      in s4\<lparr> l_dispatched := l_dispatched s4 @ [(j, i_instanceId inst, attemptNumber)] \<rparr>)"

definition dispatch :: "dispatch_env \<Rightarrow> instance_record \<Rightarrow> queued_job \<Rightarrow> scaler \<Rightarrow> scaler \<times> bool" where
  "dispatch env inst job s =
     (case de_post env (strip_slash (i_url inst) @ ''/encoreJobs'')
             (dispatch_payload env inst (q_payload job)) of
        PostThrew \<Rightarrow> (s, False)
      | PostRejected st \<Rightarrow> (s, False)
      | PostOk id' jobId' \<Rightarrow>
          (record_dispatched inst job (coalesce id' (coalesce jobId' [])) s, True))"

definition not_due :: "int \<Rightarrow> queued_job \<Rightarrow> bool" where
  "not_due now job = (case q_notBefore job of None \<Rightarrow> False | Some t \<Rightarrow> t \<noteq> 0 \<and> now < t)"

lemma dispatch_queue:
  "v_queue (fst (dispatch env inst job s)) = v_queue s"
  "v_inflight (fst (dispatch env inst job s)) = v_inflight s"
  by (simp_all add: dispatch_def record_dispatched_def recordDispatch_def Let_def split: post_answer.splits)

text \<open>The loop that feeds one instance. It shortens the queue at every turn that continues.\<close>

function feed_instance :: "dispatch_env \<Rightarrow> instance_record \<Rightarrow> scaler \<Rightarrow> scaler \<times> instance_record" where
  "feed_instance env inst s =
     (if \<not> i_activeJobs inst < JOBS_PER_INSTANCE then (s, inst)
      else case rpoplpush s of
        (s1, None) \<Rightarrow> (s1, inst)
      | (s1, Some (Unparseable t)) \<Rightarrow> feed_instance env inst (lrem_inflight (Unparseable t) s1)
      | (s1, Some (Parsed job)) \<Rightarrow>
          if not_due (de_now env) job
          then (rpush_queue (Parsed job) (lrem_inflight (Parsed job) s1), inst)
          else
            let (s2, dispatched) = dispatch env inst job s1;
                s3 = lrem_inflight (Parsed job) s2
            in if \<not> dispatched then (rpush_queue (Parsed job) s3, inst)
               else let inst' = inst\<lparr> i_activeJobs := i_activeJobs inst + 1 \<rparr>
                    in feed_instance env inst' (updateInstance inst' s3))"
  by pat_completeness auto
termination
proof (relation "measure (\<lambda>(env, inst, s). length (v_queue s))", goal_cases)
  case (2 env inst s s1 found entry job outcome s2 dispatched s3 inst')
  then have "v_queue s2 = v_queue s1" using dispatch_queue(1) [of env inst job s1] by (metis fst_conv)
  then show ?case using 2 by (auto simp: rpoplpush_def lrem_inflight_def split: if_splits)
next
  case 3
  then show ?case by (auto simp: rpoplpush_def lrem_inflight_def split: if_splits)
qed simp

declare feed_instance.simps [simp del]

fun dispatch_step ::
  "dispatch_env \<Rightarrow> instance_record list \<Rightarrow> scaler \<Rightarrow> scaler \<times> instance_record list" where
  "dispatch_step env [] s = (s, [])"
| "dispatch_step env (inst # rest) s =
     (if i_draining inst = Some True \<or> i_pendingReadySince inst \<noteq> None
      then (let (s', r) = dispatch_step env rest s in (s', inst # r))
      else case ensureCallbackTrust env inst s of
        (s1, inst1, eligible) \<Rightarrow>
          if \<not> eligible \<or> JOBS_PER_INSTANCE \<le> i_activeJobs inst1
          then (let (s', r) = dispatch_step env rest s1 in (s', inst1 # r))
          else (let (s2, inst2) = feed_instance env inst1 s1;
                    (s', r) = dispatch_step env rest s2
                in (s', inst2 # r)))"

section \<open>One instance\<close>

fun parsed :: "queue_entry list \<Rightarrow> queued_job list" where
  "parsed [] = []"
| "parsed (Parsed q # es) = q # parsed es"
| "parsed (Unparseable t # es) = parsed es"

lemma parsed_append [simp]: "parsed (a @ b) = parsed a @ parsed b"
  by (induction a rule: parsed.induct) simp_all

lemma parsed_rev: "parsed (rev es) = rev (parsed es)"
  by (induction es rule: parsed.induct) simp_all

lemma mem_parsed: "Parsed q \<in> set es \<longleftrightarrow> q \<in> set (parsed es)"
  by (induction es rule: parsed.induct) auto

definition dispatch_entry :: "string \<Rightarrow> queued_job \<Rightarrow> string \<times> string \<times> int" where
  "dispatch_entry i q = (q_jobId q, i, coalesce (q_attempts q) 0 + 1)"

lemma trust_frame:
  assumes "ensureCallbackTrust env inst s = (s', inst', e)"
  shows "v_queue s' = v_queue s" "v_inflight s' = v_inflight s" "l_dispatched s' = l_dispatched s"
    "v_jobInstance s' = v_jobInstance s" "v_jobStatus s' = v_jobStatus s"
    "i_instanceId inst' = i_instanceId inst" "i_activeJobs inst' = i_activeJobs inst"
    "i_draining inst' = i_draining inst" "i_url inst' = i_url inst"
    "i_callbackTrustReady inst = Some True \<Longrightarrow> s' = s \<and> inst' = inst \<and> e"
  using assms
  by (auto simp: ensureCallbackTrust_def Let_def split: if_splits probe_result.splits)

lemma dispatch_ok:
  assumes "dispatch env inst job s = (s', True)"
  shows "\<exists>u. s' = record_dispatched inst job u s"
  using assms by (auto simp: dispatch_def split: post_answer.splits)

lemma dispatch_failed: "dispatch env inst job s = (s', False) \<Longrightarrow> s' = s"
  by (auto simp: dispatch_def split: post_answer.splits)

lemma record_dispatched_log [simp]:
  "l_dispatched (record_dispatched inst job u s) = l_dispatched s @ [dispatch_entry (i_instanceId inst) job]"
  "v_queue (record_dispatched inst job u s) = v_queue s"
  "v_inflight (record_dispatched inst job u s) = v_inflight s"
  by (simp_all add: record_dispatched_def recordDispatch_def dispatch_entry_def Let_def)

lemma queue_ops_simps [simp]:
  "v_queue (lrem_inflight e s) = v_queue s" "v_inflight (lrem_inflight e s) = remove1 e (v_inflight s)"
  "l_dispatched (lrem_inflight e s) = l_dispatched s"
  "v_queue (rpush_queue e s) = v_queue s @ [e]" "v_inflight (rpush_queue e s) = v_inflight s"
  "l_dispatched (rpush_queue e s) = l_dispatched s"
  by (simp_all add: lrem_inflight_def rpush_queue_def)

lemma rpoplpush_Some:
  assumes "rpoplpush s = (s1, Some e)"
  shows "v_queue s = v_queue s1 @ [e]" "v_inflight s1 = e # v_inflight s" "l_dispatched s1 = l_dispatched s"
    "rpush_queue e (lrem_inflight e s1) = s"
proof -
  show "rpush_queue e (lrem_inflight e s1) = s" by (rule claim_and_return [OF assms])
  have "v_queue s \<noteq> []" "s1 = s\<lparr> v_queue := butlast (v_queue s), v_inflight := last (v_queue s) # v_inflight s \<rparr>"
    "e = last (v_queue s)" using assms by (auto simp: rpoplpush_def split: if_splits)
  then show "v_queue s = v_queue s1 @ [e]" "v_inflight s1 = e # v_inflight s"
    "l_dispatched s1 = l_dispatched s" by simp_all
qed

definition fed :: "dispatch_env \<Rightarrow> instance_record \<Rightarrow> scaler \<Rightarrow> scaler \<Rightarrow> instance_record
    \<Rightarrow> queue_entry list \<Rightarrow> bool" where
  "fed env inst s s' inst' popped =
     (v_queue s = v_queue s' @ popped \<and> v_inflight s' = v_inflight s
      \<and> l_dispatched s' = l_dispatched s @ map (dispatch_entry (i_instanceId inst)) (rev (parsed popped))
      \<and> inst' = inst\<lparr> i_activeJobs := i_activeJobs inst + int (length (parsed popped)) \<rparr>
      \<and> (\<forall>q\<in>set (parsed popped). \<not> not_due (de_now env) q))"

lemma feed_instance_spec:
  "feed_instance env inst s = (s', inst') \<Longrightarrow> i_activeJobs inst \<le> JOBS_PER_INSTANCE \<Longrightarrow>
     \<exists>popped. fed env inst s s' inst' popped \<and> i_activeJobs inst' \<le> JOBS_PER_INSTANCE"
proof (induction env inst s arbitrary: s' inst' rule: feed_instance.induct)
  case (1 env inst s)
  have stop: ?case if "s' = s" "inst' = inst"
    using that 1(4) by (intro exI [of _ "[]"]) (simp add: fed_def)
  show ?case
  proof (cases "i_activeJobs inst < JOBS_PER_INSTANCE")
    case False
    then show ?thesis using 1(3) stop by (simp add: feed_instance.simps [of env inst s])
  next
    case True
    obtain s1 found where r: "rpoplpush s = (s1, found)" by (cases "rpoplpush s")
    show ?thesis
    proof (cases found)
      case None
      then have "s1 = s" using r by (auto simp: rpoplpush_def split: if_splits)
      then show ?thesis using 1(3) True r None stop by (simp add: feed_instance.simps [of env inst s])
    next
      case (Some e)
      note p = rpoplpush_Some [OF r [unfolded Some]]
      show ?thesis
      proof (cases e)
        case (Unparseable t)
        have f: "feed_instance env inst (lrem_inflight (Unparseable t) s1) = (s', inst')"
          using 1(3) True r Some Unparseable by (simp add: feed_instance.simps [of env inst s])
        have "\<not> \<not> i_activeJobs inst < JOBS_PER_INSTANCE" using True by simp
        from 1(2) [OF this r [symmetric] Some Unparseable f 1(4)] obtain popped where
          "fed env inst (lrem_inflight (Unparseable t) s1) s' inst' popped"
          "i_activeJobs inst' \<le> JOBS_PER_INSTANCE" by auto
        then show ?thesis using p Unparseable by (intro exI [of _ "popped @ [e]"]) (simp add: fed_def)
      next
        case (Parsed job)
        obtain s2 ok where d: "dispatch env inst job s1 = (s2, ok)" by (cases "dispatch env inst job s1")
        show ?thesis
        proof (cases "not_due (de_now env) job \<or> \<not> ok")
          case True
          have "s' = rpush_queue (Parsed job) (lrem_inflight (Parsed job) s1) \<and> inst' = inst"
            using 1(3) True r Some Parsed d dispatch_failed [of env inst job s1 s2]
              \<open>i_activeJobs inst < JOBS_PER_INSTANCE\<close>
            by (auto simp: feed_instance.simps [of env inst s] split: if_splits)
          then show ?thesis using p(4) Parsed stop by simp
        next
          case False
          define inst1 where "inst1 = inst\<lparr> i_activeJobs := i_activeJobs inst + 1 \<rparr>"
          define s3 where "s3 = lrem_inflight (Parsed job) s2"
          have f: "feed_instance env inst1 (updateInstance inst1 s3) = (s', inst')"
            using 1(3) True r Some Parsed d False
            by (simp add: feed_instance.simps [of env inst s] inst1_def s3_def Let_def)
          obtain u where u: "s2 = record_dispatched inst job u s1"
            using dispatch_ok [of env inst job s1 s2] False d by (cases ok) auto
          have le: "i_activeJobs inst1 \<le> JOBS_PER_INSTANCE" using True by (simp add: inst1_def)
          have "\<not> \<not> i_activeJobs inst < JOBS_PER_INSTANCE" "\<not> not_due (de_now env) job" "\<not> \<not> ok"
            using True False by simp_all
          from 1(1) [OF this(1) r [symmetric] Some Parsed this(2) refl d [symmetric] s3_def this(3)
              inst1_def f le] obtain popped where
            f2: "fed env inst1 (updateInstance inst1 s3) s' inst' popped"
            "i_activeJobs inst' \<le> JOBS_PER_INSTANCE" by auto
          have s3: "v_queue s3 = v_queue s1" "v_inflight s3 = v_inflight s"
            "l_dispatched s3 = l_dispatched s @ [dispatch_entry (i_instanceId inst) job]"
            using p Parsed by (simp_all add: s3_def u)
          show ?thesis using f2 s3 p(1) Parsed False
            by (intro exI [of _ "popped @ [e]"]) (auto simp: fed_def inst1_def)
        qed
      qed
    qed
  qed
qed

lemma feed_progress:
  assumes "i_activeJobs inst < JOBS_PER_INSTANCE" "v_queue s = es @ [Parsed job]"
    "\<not> not_due (de_now env) job" "\<And>u p. \<exists>a b. de_post env u p = PostOk a b"
    "feed_instance env inst s = (s', inst')" "i_activeJobs inst' \<le> JOBS_PER_INSTANCE"
  shows "v_queue s' \<noteq> v_queue s"
proof -
  obtain s1 where r: "rpoplpush s = (s1, Some (Parsed job))" "v_queue s1 = es"
    using assms(2) by (auto simp: rpoplpush_def)
  obtain s2 where d: "dispatch env inst job s1 = (s2, True)"
    using assms(4) [of "strip_slash (i_url inst) @ ''/encoreJobs''" "dispatch_payload env inst (q_payload job)"]
    by (auto simp: dispatch_def)
  let ?i = "inst\<lparr> i_activeJobs := i_activeJobs inst + 1 \<rparr>"
  let ?s = "updateInstance ?i (lrem_inflight (Parsed job) s2)"
  have f: "feed_instance env ?i ?s = (s', inst')"
    using assms(1,3,5) r(1) d by (subst (asm) feed_instance.simps) (simp add: Let_def)
  have "v_queue ?s = es" using d dispatch_queue(1) [of env inst job s1] r(2) by simp
  moreover have "\<exists>popped. v_queue ?s = v_queue s' @ popped"
    using feed_instance_spec [OF f] assms(1) by (auto simp: fed_def)
  ultimately show ?thesis using assms(2) by (metis append.assoc append_self_conv not_Cons_self2 snoc_eq_iff_butlast)
qed

section \<open>The pool\<close>

definition may_take :: "instance_record \<Rightarrow> bool" where
  "may_take inst = (i_draining inst \<noteq> Some True \<and> i_pendingReadySince inst = None
     \<and> i_activeJobs inst < JOBS_PER_INSTANCE)"

definition hosts_of :: "nat list \<Rightarrow> instance_record list \<Rightarrow> string list" where
  "hosts_of ks instances = concat (map2 (\<lambda>k inst. replicate k (i_instanceId inst)) ks instances)"

lemma hosts_of_simps [simp]:
  "hosts_of [] [] = []"
  "hosts_of (k # ks) (i # is) = replicate k (i_instanceId i) @ hosts_of ks is"
  by (simp_all add: hosts_of_def)

definition took :: "nat \<Rightarrow> instance_record \<Rightarrow> instance_record \<Rightarrow> bool" where
  "took k inst inst' = (i_instanceId inst' = i_instanceId inst
     \<and> i_activeJobs inst' = i_activeJobs inst + int k
     \<and> (k \<noteq> 0 \<longrightarrow> may_take inst \<and> i_activeJobs inst + int k \<le> JOBS_PER_INSTANCE))"

definition pass_outcome ::
  "dispatch_env \<Rightarrow> instance_record list \<Rightarrow> scaler \<Rightarrow> scaler \<Rightarrow> instance_record list
   \<Rightarrow> queue_entry list \<Rightarrow> nat list \<Rightarrow> bool" where
  "pass_outcome env instances s s' after popped ks =
     (v_queue s = v_queue s' @ popped \<and> v_inflight s' = v_inflight s
      \<and> length ks = length instances \<and> length after = length instances
      \<and> sum_list ks = length (parsed popped)
      \<and> l_dispatched s' = l_dispatched s
          @ map2 dispatch_entry (hosts_of ks instances) (rev (parsed popped))
      \<and> (\<forall>n<length instances. took (ks ! n) (instances ! n) (after ! n))
      \<and> (\<forall>q\<in>set (parsed popped). \<not> not_due (de_now env) q))"

lemma map2_append:
  "length a = length c \<Longrightarrow> map2 f (a @ b) (c @ d) = map2 f a c @ map2 f b d"
  by simp

lemma map2_replicate: "length xs = n \<Longrightarrow> map2 f (replicate n a) xs = map (f a) xs"
  by (induction xs arbitrary: n) auto

lemma all_nth_Cons:
  "(\<forall>n<length (x # xs). P ((k # ks) ! n) ((x # xs) ! n) ((y # ys) ! n)) =
   (P k x y \<and> (\<forall>n<length xs. P (ks ! n) (xs ! n) (ys ! n)))"
  by (auto simp: less_Suc_eq_0_disj)

lemma pass_outcome_skip:
  assumes "pass_outcome env rest s1 s' after popped ks" "v_queue s1 = v_queue s"
    "v_inflight s1 = v_inflight s" "l_dispatched s1 = l_dispatched s"
    "i_instanceId inst1 = i_instanceId inst" "i_activeJobs inst1 = i_activeJobs inst"
  shows "pass_outcome env (inst # rest) s s' (inst1 # after) popped (0 # ks)"
  using assms unfolding pass_outcome_def all_nth_Cons
  by (simp add: took_def)

lemma dispatch_step_outcome:
  "dispatch_step env instances s = (s', after) \<Longrightarrow> \<exists>popped ks. pass_outcome env instances s s' after popped ks"
proof (induction env instances s arbitrary: s' after rule: dispatch_step.induct)
  case (1 env s)
  then show ?case by (intro exI [of _ "[]"]) (simp add: pass_outcome_def)
next
  case (2 env inst rest s)
  show ?case
  proof (cases "i_draining inst = Some True \<or> i_pendingReadySince inst \<noteq> None")
    case True
    obtain r where r: "dispatch_step env rest s = (s', r)" "after = inst # r"
      using 2(4) True by (auto split: prod.splits)
    from 2(1) [OF True r(1)] pass_outcome_skip show ?thesis unfolding r(2) by blast
  next
    case False
    obtain s1 inst1 e where t: "ensureCallbackTrust env inst s = (s1, inst1, e)"
      by (cases "ensureCallbackTrust env inst s") auto
    note fr = trust_frame [OF t]
    show ?thesis
    proof (cases "\<not> e \<or> JOBS_PER_INSTANCE \<le> i_activeJobs inst1")
      case True
      obtain r where r: "dispatch_step env rest s1 = (s', r)" "after = inst1 # r"
        using 2(4) False True t by (auto split: prod.splits)
      from 2(2) [OF False t [symmetric] refl True r(1)]
        pass_outcome_skip [OF _ fr(1,2,3,6,7)]
      show ?thesis unfolding r(2) by blast
    next
      case free: False
      obtain s2 inst2 where f: "feed_instance env inst1 s1 = (s2, inst2)" by (cases "feed_instance env inst1 s1")
      obtain r where r: "dispatch_step env rest s2 = (s', r)" "after = inst2 # r"
        using 2(4) False free t f by (auto split: prod.splits)
      from feed_instance_spec [OF f] free obtain popped1 where
        p1: "fed env inst1 s1 s2 inst2 popped1" "i_activeJobs inst2 \<le> JOBS_PER_INSTANCE" by auto
      from 2(3) [OF False t [symmetric] refl free refl f [symmetric] r(1)] obtain popped ks where
        p2: "pass_outcome env rest s2 s' r popped ks" by blast
      have taken: "took (length (parsed popped1)) inst inst2"
        using p1 False free fr by (auto simp: took_def fed_def may_take_def)
      have "pass_outcome env (inst # rest) s s' (inst2 # r) (popped @ popped1)
          (length (parsed popped1) # ks)"
        using p1(1) p2 fr(1-7) taken unfolding pass_outcome_def all_nth_Cons fed_def
        by (auto simp: map2_replicate)
      then show ?thesis using r(2) by blast
    qed
  qed
qed

lemma dispatch_step_progress:
  assumes "v_queue s = es @ [Parsed job]" "\<not> not_due (de_now env) job"
    "\<And>u p. \<exists>a b. de_post env u p = PostOk a b"
  shows "dispatch_step env instances s = (s', after) \<Longrightarrow>
     \<exists>inst\<in>set instances. may_take inst \<and> i_callbackTrustReady inst = Some True \<Longrightarrow>
     v_queue s' \<noteq> v_queue s"
  using assms(1)
proof (induction instances arbitrary: s s' after)
  case (Cons inst rest)
  have shorter: "v_queue s' \<noteq> v_queue s"
    if "dispatch_step env rest s2 = (s', r)" "v_queue s2 \<noteq> v_queue s" "\<exists>p. v_queue s = v_queue s2 @ p"
    for s2 r
  proof -
    have "\<exists>p'. v_queue s2 = v_queue s' @ p'"
      using dispatch_step_outcome [OF that(1)] by (auto simp: pass_outcome_def)
    then have "\<exists>p' p. v_queue s = v_queue s' @ p' @ p \<and> p \<noteq> []"
      using that(2,3) by (metis append.assoc append_Nil2)
    then show ?thesis by (metis append_is_Nil_conv append_self_conv)
  qed
  show ?case
  proof (cases "i_draining inst = Some True \<or> i_pendingReadySince inst \<noteq> None")
    case True
    then have "\<exists>i\<in>set rest. may_take i \<and> i_callbackTrustReady i = Some True"
      using Cons.prems(2) by (auto simp: may_take_def)
    moreover obtain r where "dispatch_step env rest s = (s', r)"
      using Cons.prems(1) True by (auto split: prod.splits)
    ultimately show ?thesis using Cons.IH Cons.prems(3) by blast
  next
    case False
    obtain s1 inst1 e where t: "ensureCallbackTrust env inst s = (s1, inst1, e)"
      by (cases "ensureCallbackTrust env inst s") auto
    note fr = trust_frame [OF t]
    show ?thesis
    proof (cases "\<not> e \<or> JOBS_PER_INSTANCE \<le> i_activeJobs inst1")
      case True
      then have "\<exists>i\<in>set rest. may_take i \<and> i_callbackTrustReady i = Some True"
        using Cons.prems(2) fr(7,10) by (auto simp: may_take_def)
      moreover obtain r where "dispatch_step env rest s1 = (s', r)"
        using Cons.prems(1) False True t by (auto split: prod.splits)
      ultimately have "v_queue s' \<noteq> v_queue s1" using Cons.IH Cons.prems(3) fr(1) by metis
      then show ?thesis using fr(1) by simp
    next
      case free: False
      obtain s2 inst2 where f: "feed_instance env inst1 s1 = (s2, inst2)" by (cases "feed_instance env inst1 s1")
      obtain r where r: "dispatch_step env rest s2 = (s', r)"
        using Cons.prems(1) False free t f by (auto split: prod.splits)
      from feed_instance_spec [OF f] free obtain p1 where
        p1: "fed env inst1 s1 s2 inst2 p1" "i_activeJobs inst2 \<le> JOBS_PER_INSTANCE" by auto
      have "v_queue s2 \<noteq> v_queue s1"
        by (rule feed_progress [OF _ _ assms(2,3) f p1(2)]) (use free Cons.prems(3) fr(1) in auto)
      then show ?thesis using shorter [OF r] p1(1) fr(1) by (auto simp: fed_def)
    qed
  qed
qed simp

section \<open>Properties\<close>

definition demo_dispatch_env :: dispatch_env where
  "demo_dispatch_env = \<lparr> de_now = 1000, de_protocol = (\<lambda>_. Some ''https:''),
     de_fetch = (\<lambda>_. Status 404), de_sat = None, de_refresh = None,
     de_callbackTrustTimeoutMs = 60000, de_post = (\<lambda>_ _. PostOk (Some ''u'') None) \<rparr>"

definition demo_job :: queued_job where
  "demo_job = \<lparr> q_jobId = ''j'', q_payload = JObj [], q_enqueuedAt = 0, q_notBefore = None,
     q_attempts = Some 1 \<rparr>"

definition demo_queue :: scaler where
  "demo_queue = demo_retry_state\<lparr> v_queue := [Parsed demo_job] \<rparr>"

text \<open>C7. No job is lost or doubled by dispatch. A pass over the pool takes a run of entries
  off the consuming end of the queue and leaves the rest in place; every valid entry it
  took is posted exactly once, in queue order, with its attempt count advanced by one, and
  the entries go to the instances in pool order, \<^verbatim>\<open>ks\<close> to each; nothing stays behind in the
  inflight list. Only instances that are neither draining nor still starting take any, none
  beyond its capacity, each tracked count grows by what the instance took, and no entry
  whose backoff has not elapsed is taken.\<close>

theorem dispatch_conserves_jobs:
  assumes "dispatch_step env instances s = (s', after)"
  shows "\<exists>popped ks. v_queue s = v_queue s' @ popped \<and> v_inflight s' = v_inflight s
    \<and> length ks = length instances \<and> sum_list ks = length (parsed popped)
    \<and> l_dispatched s' = l_dispatched s @
        map2 (\<lambda>i q. (q_jobId q, i, coalesce (q_attempts q) 0 + 1))
          (concat (map2 (\<lambda>k inst. replicate k (i_instanceId inst)) ks instances)) (rev (parsed popped))
    \<and> (\<forall>n<length instances. ks ! n \<noteq> 0 \<longrightarrow>
         i_draining (instances ! n) \<noteq> Some True \<and> i_pendingReadySince (instances ! n) = None
         \<and> i_activeJobs (instances ! n) + int (ks ! n) \<le> JOBS_PER_INSTANCE)
    \<and> (\<forall>n<length instances.
         i_activeJobs (after ! n) = i_activeJobs (instances ! n) + int (ks ! n))
    \<and> (\<forall>q\<in>set (parsed popped). \<not> not_due (de_now env) q)"
proof -
  obtain popped ks where o: "pass_outcome env instances s s' after popped ks"
    using dispatch_step_outcome [OF assms] by blast
  have "dispatch_entry = (\<lambda>i q. (q_jobId q, i, coalesce (q_attempts q) 0 + 1))"
    by (simp add: dispatch_entry_def fun_eq_iff)
  then show ?thesis using o unfolding pass_outcome_def hosts_of_def
    by (intro exI [of _ popped] exI [of _ ks]) (auto simp: took_def may_take_def)
qed

lemma dispatch_conserves_jobs_witness:
  "\<exists>s' after popped. dispatch_step demo_dispatch_env [demo_idle] demo_queue = (s', after)
     \<and> v_queue demo_queue = v_queue s' @ popped"
proof -
  obtain s' r where d: "dispatch_step demo_dispatch_env [demo_idle] demo_queue = (s', r)"
    by (cases "dispatch_step demo_dispatch_env [demo_idle] demo_queue")
  from dispatch_conserves_jobs [OF d] d show ?thesis by blast
qed

text \<open>Head of line: while the oldest entry of the queue is still backing off, a pass
  dispatches nothing at all and leaves the queue as it was, however many instances are
  free and however many due jobs wait behind it.\<close>

theorem backoff_blocks_the_queue:
  assumes "dispatch_step env instances s = (s', after)"
    "v_queue s = es @ [Parsed job]" "not_due (de_now env) job"
  shows "v_queue s' = v_queue s \<and> l_dispatched s' = l_dispatched s \<and> v_inflight s' = v_inflight s"
proof -
  obtain popped ks where o: "pass_outcome env instances s s' after popped ks"
    using dispatch_step_outcome [OF assms(1)] by blast
  have "popped = []"
  proof (rule ccontr)
    assume "popped \<noteq> []"
    then obtain p where p: "popped = p @ [Parsed job]"
      using o assms(2) unfolding pass_outcome_def by (metis append_butlast_last_id last_appendR last_snoc)
    then have "job \<in> set (parsed popped)" by simp
    then show False using o assms(3) by (auto simp: pass_outcome_def)
  qed
  then show ?thesis using o by (auto simp: pass_outcome_def)
qed

lemma backoff_blocks_the_queue_witness:
  "l_dispatched (fst (dispatch_step demo_dispatch_env [demo_idle]
     (empty_scaler\<lparr> v_queue := [Parsed demo_job, Parsed (demo_job\<lparr> q_notBefore := Some 2000 \<rparr>)] \<rparr>))) = []"
proof -
  let ?s = "empty_scaler\<lparr> v_queue := [Parsed demo_job, Parsed (demo_job\<lparr> q_notBefore := Some 2000 \<rparr>)] \<rparr>"
  obtain s' r where d: "dispatch_step demo_dispatch_env [demo_idle] ?s = (s', r)"
    by (cases "dispatch_step demo_dispatch_env [demo_idle] ?s")
  have q: "v_queue ?s = [Parsed demo_job] @ [Parsed (demo_job\<lparr> q_notBefore := Some 2000 \<rparr>)]" by simp
  have n: "not_due (de_now demo_dispatch_env) (demo_job\<lparr> q_notBefore := Some 2000 \<rparr>)"
    by (simp add: not_due_def demo_dispatch_env_def)
  from backoff_blocks_the_queue [OF d q n] d show ?thesis by (simp add: empty_scaler_def)
qed

text \<open>Dispatch makes progress: when the oldest entry is due, some instance that has passed
  its trust gate has a free slot and is neither draining nor starting, and encoders accept
  what they are posted, the pass takes that entry off the queue and posts it.\<close>

theorem dispatch_makes_progress:
  assumes "dispatch_step env instances s = (s', after)"
    "v_queue s = es @ [Parsed job]" "\<not> not_due (de_now env) job"
    "\<And>u p. \<exists>a b. de_post env u p = PostOk a b"
    "inst \<in> set instances" "may_take inst" "i_callbackTrustReady inst = Some True"
  shows "(\<exists>p. v_queue s = v_queue s' @ p @ [Parsed job])
    \<and> (\<exists>i. (q_jobId job, i, coalesce (q_attempts job) 0 + 1) \<in> set (l_dispatched s'))"
proof -
  obtain popped ks where o: "pass_outcome env instances s s' after popped ks"
    using dispatch_step_outcome [OF assms(1)] by blast
  have "v_queue s' \<noteq> v_queue s"
    using dispatch_step_progress [OF assms(2-4,1)] assms(5-7) by blast
  then have ne: "popped \<noteq> []" using o by (auto simp: pass_outcome_def)
  then obtain p where p: "popped = p @ [Parsed job]"
    using o assms(2) unfolding pass_outcome_def by (metis append_butlast_last_id last_appendR last_snoc)
  have len: "length (hosts_of ks instances) = length (parsed popped)"
  proof -
    have "length ks = length xs \<Longrightarrow> length (hosts_of ks xs) = sum_list ks" for ks xs
      by (induction ks xs rule: list_induct2) simp_all
    then show ?thesis using o by (simp add: pass_outcome_def)
  qed
  then obtain h hs where h: "hosts_of ks instances = h # hs" using p by (cases "hosts_of ks instances") auto
  have "dispatch_entry h job \<in> set (l_dispatched s')"
    using o h p by (simp add: pass_outcome_def)
  then have "\<exists>i. (q_jobId job, i, coalesce (q_attempts job) 0 + 1) \<in> set (l_dispatched s')"
    unfolding dispatch_entry_def by blast
  moreover have "v_queue s = v_queue s' @ p @ [Parsed job]" using o p by (simp add: pass_outcome_def)
  ultimately show ?thesis by blast
qed

lemma dispatch_makes_progress_witness:
  "\<exists>i. (''j'', i, 2) \<in> set (l_dispatched (fst (dispatch_step demo_dispatch_env [demo_idle] demo_queue)))"
proof -
  obtain s' r where d: "dispatch_step demo_dispatch_env [demo_idle] demo_queue = (s', r)"
    by (cases "dispatch_step demo_dispatch_env [demo_idle] demo_queue")
  have q: "v_queue demo_queue = [] @ [Parsed demo_job]" by (simp add: demo_queue_def)
  have n: "\<not> not_due (de_now demo_dispatch_env) demo_job" by (simp add: not_due_def demo_job_def)
  have a: "\<exists>a b. de_post demo_dispatch_env u p = PostOk a b" for u p by (simp add: demo_dispatch_env_def)
  have m: "demo_idle \<in> set [demo_idle]" "may_take demo_idle" "i_callbackTrustReady demo_idle = Some True"
    by (simp_all add: may_take_def demo_idle_def JOBS_PER_INSTANCE_def)
  from dispatch_makes_progress [OF d q n a m] d show ?thesis
    by (auto simp: demo_job_def)
qed

lemma record_dispatched_writes:
  "status_of (record_dispatched inst job u s) k = (if k = q_jobId job then ''RUNNING'' else status_of s k)"
  "map_of (v_jobInstance (record_dispatched inst job u s)) =
     (map_of (v_jobInstance s))(q_jobId job \<mapsto> i_instanceId inst)"
  "map_of (v_jobAttempts (record_dispatched inst job u s)) =
     (map_of (v_jobAttempts s))(q_jobId job \<mapsto> coalesce (q_attempts job) 0 + 1)"
  "map_of (v_jobPayload (record_dispatched inst job u s)) =
     (map_of (v_jobPayload s))(q_jobId job \<mapsto> Payload (q_payload job))"
  by (simp_all add: record_dispatched_def recordDispatch_def Let_def AList.update_conv' status_of_def
      set_status_def)

text \<open>A scale-down interruption does spend the retry budget. A job whose recorded count is
  one below the bound would be retried after a transport failure; re-enqueued by a
  scale-down and dispatched again, its count reaches the bound, so the same failure then
  settles it as exhausted.\<close>

theorem interruption_spends_an_attempt:
  assumes "map_of (v_jobAttempts s) j = Some (MAX_ENCODE_ATTEMPTS - 1)"
    "map_of (v_jobPayload s) j = Some (Payload payload)" "\<not> hasQueuedOrInflightEntry j s"
    "isRetryableFailureClass (Message (classifyEncoreFailure pn m))"
    "requeueInterruptedByScaleDown j True now s = (s1, True)"
    "rpoplpush s2 = (s3, Some (Parsed q))" "Parsed q = hd (v_queue s1)"
    "dispatch env inst q s3 = (s4, True)"
  shows "(\<exists>n f b. snd (decideRetry pn j m True now s) = Retry n f b)
    \<and> map_of (v_jobAttempts s4) j = Some MAX_ENCODE_ATTEMPTS
    \<and> snd (decideRetry pn j m True now' s4) = Settle Exhausted (classifyEncoreFailure pn m)"
proof -
  have q: "q_jobId q = j" "q_attempts q = Some (MAX_ENCODE_ATTEMPTS - 1)"
    using assms(1,2,5,7)
    by (auto simp: requeueInterruptedByScaleDown_def Let_def stored_count_def MAX_ENCODE_ATTEMPTS_def)
  obtain u where u: "s4 = record_dispatched inst q u s3" using dispatch_ok [OF assms(8)] by blast
  have a: "map_of (v_jobAttempts s4) j = Some MAX_ENCODE_ATTEMPTS"
    by (simp add: u record_dispatched_writes q)
  have "\<exists>n f b. snd (decideRetry pn j m True now s) = Retry n f b"
    using assms(1-4) by (simp add: decideRetry_def Let_def stored_count_def MAX_ENCODE_ATTEMPTS_def)
  moreover have "snd (decideRetry pn j m True now' s4) = Settle Exhausted (classifyEncoreFailure pn m)"
    using a assms(4) by (simp add: decideRetry_def Let_def stored_count_def MAX_ENCODE_ATTEMPTS_def)
  ultimately show ?thesis using a by blast
qed

lemma interruption_spends_an_attempt_witness:
  "\<exists>s4. map_of (v_jobAttempts s4) ''j'' = Some MAX_ENCODE_ATTEMPTS
     \<and> snd (decideRetry (\<lambda>_. None) ''j'' (Some ''read timed out'') True 0 s4) =
         Settle Exhausted (classifyEncoreFailure (\<lambda>_. None) (Some ''read timed out''))"
proof -
  let ?s = "demo_retry_state\<lparr> v_jobAttempts := [(''j'', MAX_ENCODE_ATTEMPTS - 1)] \<rparr>"
  have 1: "map_of (v_jobAttempts ?s) ''j'' = Some (MAX_ENCODE_ATTEMPTS - 1)" by simp
  have 2: "map_of (v_jobPayload ?s) ''j'' = Some (Payload JNull)" by (simp add: demo_retry_state_def)
  have 3: "\<not> hasQueuedOrInflightEntry ''j'' ?s" by code_simp
  have 4: "isRetryableFailureClass (Message (classifyEncoreFailure (\<lambda>_. None) (Some ''read timed out'')))"
    by code_simp
  obtain s1 where r: "requeueInterruptedByScaleDown ''j'' True 0 ?s = (s1, True)"
    using 2 by (auto simp: requeueInterruptedByScaleDown_def Let_def)
  obtain q where q: "v_queue s1 = [Parsed q]"
    using r 2 by (auto simp: requeueInterruptedByScaleDown_def Let_def demo_retry_state_def empty_scaler_def)
  have pop: "rpoplpush s1 = (s1\<lparr> v_queue := [], v_inflight := [Parsed q] @ v_inflight s1 \<rparr>, Some (Parsed q))"
    using q by (simp add: rpoplpush_def)
  obtain s4 where d: "dispatch demo_dispatch_env demo_idle q
      (s1\<lparr> v_queue := [], v_inflight := [Parsed q] @ v_inflight s1 \<rparr>) = (s4, True)"
    by (auto simp: dispatch_def demo_dispatch_env_def)
  have h: "Parsed q = hd (v_queue s1)" using q by simp
  from interruption_spends_an_attempt [OF 1 2 3 4 r pop h d] show ?thesis by blast
qed

end
