(* ===== verification/Reconcile.thy ===== *)
theory Reconcile
  imports Scale_Down
begin

text \<open>
  Reconciling the tracked pool with what the encoders report
  (\<^verbatim>\<open>src/src/encore-scaler/scaler-loop.ts\<close>: \<^verbatim>\<open>reconcile\<close> and
  \<^verbatim>\<open>fetchDroppedFailureReasons\<close>; \<^verbatim>\<open>evictVanishedInstances\<close> of \<^verbatim>\<open>instance-pool.ts\<close>).

  The environment gives the answer of every encoder to the active-jobs query, the names
  OSC lists (\<^verbatim>\<open>None\<close> when the listing fails) and the answers to the query for failed jobs,
  by attempt. The jobs raised as dropped, with the reason recovered for each, are appended
  to \<^verbatim>\<open>l_dropped\<close>.
\<close>

section \<open>Definitions\<close>

record reconcile_env =
  re_scale :: scale_env
  re_read :: "instance_record \<Rightarrow> active_state option"
  re_osc :: "string list option"
  re_graceMs :: int
  re_failed :: "nat \<Rightarrow> string \<Rightarrow> (bool \<times> json option) option"

definition re_now :: "reconcile_env \<Rightarrow> int" where
  "re_now env = se_now (re_scale env)"

definition PARTIAL_VISIBILITY_DROP_PASSES :: int where "PARTIAL_VISIBILITY_DROP_PASSES = 2"

definition DEFAULT_RECONCILE_GRACE_MS :: int where "DEFAULT_RECONCILE_GRACE_MS = 10000"

datatype unseen = Unreadable | Unreachable | Truncated

record pass_entry =
  pe_id :: string
  pe_record :: instance_record
  pe_real :: "active_state option"

text \<open>Pass 1: every record is read, whatever its tracked count.\<close>

fun probe_pool ::
  "reconcile_env \<Rightarrow> (string, pool_entry) jsmap \<Rightarrow> pass_entry list \<times> (string \<times> unseen) list" where
  "probe_pool env [] = ([], [])"
| "probe_pool env ((i, CorruptInstance t) # pool) =
     (let (es, us) = probe_pool env pool in (es, (i, Unreadable) # us))"
| "probe_pool env ((i, Instance record) # pool) =
     (let (es, us) = probe_pool env pool; state = re_read env record in
      (\<lparr> pe_id = i, pe_record = record, pe_real = state \<rparr> # es,
       case state of
         None \<Rightarrow> (i, Unreachable) # us
       | Some ac \<Rightarrow> if ac_truncated ac then (i, Truncated) # us else us))"

definition active_index :: "pass_entry list \<Rightarrow> (string \<times> string list) list" where
  "active_index es = List.map_filter (\<lambda>e. map_option (\<lambda>ac. (pe_id e, ac_ids ac)) (pe_real e)) es"

definition instancesActiveFor :: "(string \<times> string list) list \<Rightarrow> string \<Rightarrow> string list" where
  "instancesActiveFor index externalId = map fst (filter (\<lambda>(i, ids). externalId \<in> set ids) index)"

fun evict_loop :: "scale_env \<Rightarrow> string list \<Rightarrow> string list \<Rightarrow> scaler \<Rightarrow> scaler \<times> string list" where
  "evict_loop env existing [] s = (s, [])"
| "evict_loop env existing (i # is) s =
     (if i \<in> set existing then evict_loop env existing is s
      else case destroyInstance env i s of
             None \<Rightarrow> evict_loop env existing is s
           | Some s1 \<Rightarrow> (let (s2, evicted) = evict_loop env existing is s1 in (s2, i # evicted)))"

definition evictVanishedInstances :: "reconcile_env \<Rightarrow> string list \<Rightarrow> scaler \<Rightarrow> scaler \<times> string list" where
  "evictVanishedInstances env unreachableIds s =
     (if unreachableIds = [] then (s, [])
      else case re_osc env of
             None \<Rightarrow> (s, [])
           | Some names \<Rightarrow> evict_loop (re_scale env) (filter (\<lambda>n. n \<noteq> []) names) unreachableIds s)"

fun requeue_all :: "int \<Rightarrow> string list \<Rightarrow> scaler \<Rightarrow> scaler" where
  "requeue_all now [] s = s"
| "requeue_all now (i # is) s = requeue_all now is (requeueScaleDownInterruptions i [] now s)"

section \<open>Recovering a failure text\<close>

definition trim :: "string \<Rightarrow> string" where
  "trim t = rev (dropWhile is_ws (rev (dropWhile is_ws t)))"

definition failed_jobs_url :: "instance_record \<Rightarrow> string" where
  "failed_jobs_url record = strip_slash (i_url record)
     @ ''/encoreJobs/search/findByStatus?status=FAILED&page=0&size=100''"

text \<open>One document of the page, \<^verbatim>\<open>None\<close> when reading it throws (null).\<close>

definition failed_document ::
  "string list \<Rightarrow> json \<Rightarrow> (string, string) jsmap \<Rightarrow> (string, string) jsmap option" where
  "failed_document wanted j present =
     (if j = JNull then None
      else case jfield ''externalId'' (Some j) of
             Some (JStr x) \<Rightarrow>
               if x = [] \<or> x \<notin> set wanted then Some present
               else Some (AList.update x
                 (case jfield ''message'' (Some j) of Some (JStr m) \<Rightarrow> trim m | _ \<Rightarrow> []) present)
           | _ \<Rightarrow> Some present)"

fun failed_documents ::
  "string list \<Rightarrow> json list \<Rightarrow> (string, string) jsmap \<Rightarrow> (string, string) jsmap option" where
  "failed_documents wanted [] present = Some present"
| "failed_documents wanted (j # js) present =
     Option.bind (failed_document wanted j present) (failed_documents wanted js)"

text \<open>\<^verbatim>\<open>None\<close> when reading the body throws out of the function.\<close>

definition fetchDroppedFailureReasons ::
  "reconcile_env \<Rightarrow> instance_record \<Rightarrow> string list \<Rightarrow> (string, string) jsmap option" where
  "fetchDroppedFailureReasons env record dropped =
     (if dropped = [] then Some []
      else
        let url = failed_jobs_url record;
            answer = (case re_failed env 0 url of None \<Rightarrow> re_failed env 1 url | a \<Rightarrow> a)
        in case answer of
             None \<Rightarrow> Some []
           | Some (ok, body) \<Rightarrow>
               if \<not> ok then Some []
               else
                 let b = coalesce body (JObj []) in
                 if b = JNull then None
                 else Option.bind (page_documents (jfield ''encoreJobs'' (jfield ''_embedded'' (Some b))))
                   (\<lambda>documents. map_option (filter (\<lambda>(x, m). m \<noteq> []))
                      (failed_documents dropped documents [])))"

section \<open>Pass 2\<close>

record pass_state =
  ps_s :: scaler
  ps_dropped :: "string list"
  ps_withheld :: "string list"
  ps_repaired :: "string list"

definition clear_gate :: "string \<Rightarrow> scaler \<Rightarrow> scaler" where
  "clear_gate j s = s\<lparr> v_partialVisibilityDropPasses := AList.delete j (v_partialVisibilityDropPasses s) \<rparr>"

definition gate_passes :: "string \<Rightarrow> scaler \<Rightarrow> int" where
  "gate_passes j s = stored_count (map_of (v_partialVisibilityDropPasses s) j) 0 + 1"

definition within_grace :: "reconcile_env \<Rightarrow> string \<Rightarrow> scaler \<Rightarrow> bool" where
  "within_grace env j s = (case map_of (v_jobCompletionSeen s) j of
       None \<Rightarrow> False | Some seenAt \<Rightarrow> re_now env - seenAt \<le> re_graceMs env)"

definition classify_job ::
  "reconcile_env \<Rightarrow> (string \<times> string list) list \<Rightarrow> bool \<Rightarrow> string \<Rightarrow> string list
   \<Rightarrow> (string \<Rightarrow> string) \<Rightarrow> string \<times> string \<Rightarrow> pass_state \<Rightarrow> pass_state" where
  "classify_job env index visibilityIsPartial instanceId active st entry ps =
     (let (jobId, mappedInstanceId) = entry; s = ps_s ps in
      if mappedInstanceId \<noteq> instanceId then ps
      else if \<not> live_status (st jobId) then ps
      else if jobId \<in> set active then ps\<lparr> ps_s := clear_gate jobId s \<rparr>
      else
        let activeElsewhere = instancesActiveFor index jobId; passes = gate_passes jobId s in
        if activeElsewhere \<noteq> [] then
          (let s1 = clear_gate jobId s in
           if length activeElsewhere = 1
           then ps\<lparr> ps_s := s1\<lparr> v_jobInstance := AList.update jobId (hd activeElsewhere) (v_jobInstance s1) \<rparr>,
                    ps_repaired := List.insert (hd activeElsewhere) (ps_repaired ps) \<rparr>
           else ps\<lparr> ps_s := s1 \<rparr>)
        else if within_grace env jobId s then ps
        else if visibilityIsPartial \<and> passes < PARTIAL_VISIBILITY_DROP_PASSES then
          ps\<lparr> ps_s := s\<lparr> v_partialVisibilityDropPasses :=
                 AList.update jobId passes (v_partialVisibilityDropPasses s) \<rparr>,
              ps_withheld := ps_withheld ps @ [jobId] \<rparr>
        else ps\<lparr> ps_s := set_status jobId ''FAILED'' (clear_gate jobId s),
                 ps_dropped := ps_dropped ps @ [jobId] \<rparr>)"

fun classify_loop ::
  "reconcile_env \<Rightarrow> (string \<times> string list) list \<Rightarrow> bool \<Rightarrow> string \<Rightarrow> string list
   \<Rightarrow> (string \<Rightarrow> string) \<Rightarrow> (string \<times> string) list \<Rightarrow> pass_state \<Rightarrow> pass_state" where
  "classify_loop env index partial i active st [] ps = ps"
| "classify_loop env index partial i active st (e # es) ps =
     classify_loop env index partial i active st es (classify_job env index partial i active st e ps)"

definition set_count :: "string \<Rightarrow> instance_record \<Rightarrow> int \<Rightarrow> scaler \<Rightarrow> scaler \<times> instance_record" where
  "set_count i record n s = (let record' = record\<lparr> i_activeJobs := n \<rparr> in
     (s\<lparr> v_pool := AList.update i (Instance record') (v_pool s) \<rparr>, record'))"

text \<open>One instance: the new state, the instances repaired onto, the record as the pass holds
  it, and the jobs to raise with their reasons.\<close>

definition reconcile_instance ::
  "reconcile_env \<Rightarrow> (string \<times> string list) list \<Rightarrow> bool \<Rightarrow> pass_entry \<Rightarrow> string list \<Rightarrow> scaler
   \<Rightarrow> scaler \<times> string list \<times> pass_entry \<times> (string \<times> string option) list" where
  "reconcile_instance env index partial entry repaired s =
     (let record = pe_record entry; i = pe_id entry in
      case pe_real entry of
        None \<Rightarrow> (s, repaired, entry, [])
      | Some state \<Rightarrow>
          if i_activeJobs record = 0 \<or> i_activeJobs record = ac_count state then (s, repaired, entry, [])
          else
            let classified = (ac_count state < i_activeJobs record \<and> \<not> ac_truncated state);
                ps0 = \<lparr> ps_s = s, ps_dropped = [], ps_withheld = [], ps_repaired = repaired \<rparr>;
                ps = (if classified
                  then classify_loop env index partial i (ac_ids state) (status_of s) (v_jobInstance s) ps0
                  else ps0)
            in case fetchDroppedFailureReasons env record (ps_dropped ps) of
                 None \<Rightarrow> (ps_s ps, ps_repaired ps, entry, [])
               | Some reasons \<Rightarrow>
                   let raised = map (\<lambda>j. (j, map_of reasons j)) (ps_dropped ps) in
                   if ps_withheld ps \<noteq> [] then (ps_s ps, ps_repaired ps, entry, raised)
                   else let (s', record') = set_count i record (ac_count state) (ps_s ps)
                     in (s', ps_repaired ps, entry\<lparr> pe_record := record' \<rparr>, raised))"

fun reconcile_instances ::
  "reconcile_env \<Rightarrow> (string \<times> string list) list \<Rightarrow> bool \<Rightarrow> pass_entry list \<Rightarrow> string list \<Rightarrow> scaler
   \<Rightarrow> scaler \<times> string list \<times> pass_entry list \<times> (string \<times> string option) list" where
  "reconcile_instances env index partial [] repaired s = (s, repaired, [], [])"
| "reconcile_instances env index partial (e # es) repaired s =
     (let (s1, repaired1, e1, raised1) = reconcile_instance env index partial e repaired s;
          (s2, repaired2, es2, raised2) = reconcile_instances env index partial es repaired1 s1
      in (s2, repaired2, e1 # es2, raised1 @ raised2))"

text \<open>The counts of the instances a mapping was repaired onto.\<close>

fun repair_counts :: "pass_entry list \<Rightarrow> string list \<Rightarrow> scaler \<Rightarrow> scaler" where
  "repair_counts es [] s = s"
| "repair_counts es (i # is) s =
     (case find (\<lambda>e. pe_id e = i) es of
        None \<Rightarrow> repair_counts es is s
      | Some entry \<Rightarrow>
          (case pe_real entry of
             None \<Rightarrow> repair_counts es is s
           | Some state \<Rightarrow>
               if i_activeJobs (pe_record entry) = ac_count state then repair_counts es is s
               else repair_counts es is (fst (set_count i (pe_record entry) (ac_count state) s))))"

definition reconcile :: "reconcile_env \<Rightarrow> scaler \<Rightarrow> scaler" where
  "reconcile env s =
     (if v_pool s = [] then s
      else
        let (pass, unseen) = probe_pool env (v_pool s);
            index = active_index pass;
            unreachableIds = map pe_id (filter (\<lambda>e. pe_real e = None) pass);
            (s1, evicted) = evictVanishedInstances env unreachableIds s;
            s2 = requeue_all (re_now env) evicted s1;
            pass' = filter (\<lambda>e. pe_id e \<notin> set evicted) pass;
            unseen' = filter (\<lambda>(i, why). \<not> (why = Unreachable \<and> i \<in> set evicted)) unseen;
            partial = (unseen' \<noteq> []);
            (s3, repaired, pass'', raised) = reconcile_instances env index partial pass' [] s2;
            s4 = repair_counts pass'' repaired s3
        in s4\<lparr> l_dropped := l_dropped s4 @ raised \<rparr>)"

section \<open>What the pass does to one job\<close>

definition gate :: "scaler \<Rightarrow> string \<Rightarrow> int" where
  "gate s j = stored_count (map_of (v_partialVisibilityDropPasses s) j) 0"

definition cview :: "scaler \<Rightarrow> string \<Rightarrow> string \<times> string option \<times> int \<times> int option" where
  "cview s j = (status_of s j, map_of (v_jobInstance s) j, gate s j, map_of (v_jobCompletionSeen s) j)"

definition examined :: "string \<Rightarrow> string list \<Rightarrow> scaler \<Rightarrow> string \<Rightarrow> bool" where
  "examined i active s j = (map_of (v_jobInstance s) j = Some i \<and> live_status (status_of s j)
     \<and> j \<notin> set active)"

definition classify_view ::
  "reconcile_env \<Rightarrow> (string \<times> string list) list \<Rightarrow> bool \<Rightarrow> string \<Rightarrow> string list \<Rightarrow> scaler \<Rightarrow> string
   \<Rightarrow> string \<times> string option \<times> int \<times> int option" where
  "classify_view env index partial i active s j =
     (let st = status_of s j; m = map_of (v_jobInstance s) j; c = map_of (v_jobCompletionSeen s) j;
          elsewhere = instancesActiveFor index j in
      if m \<noteq> Some i \<or> \<not> live_status st then cview s j
      else if j \<in> set active then (st, m, 0, c)
      else if elsewhere \<noteq> [] then (st, if length elsewhere = 1 then Some (hd elsewhere) else m, 0, c)
      else if within_grace env j s then cview s j
      else if partial \<and> gate s j + 1 < PARTIAL_VISIBILITY_DROP_PASSES then (st, m, gate s j + 1, c)
      else (''FAILED'', m, 0, c))"

lemma stored_count_0 [simp]: "stored_count (Some n) 0 = n" "stored_count None 0 = 0"
  by (simp_all add: stored_count_def)

lemma gate_clear [simp]: "gate (clear_gate j s) k = (if k = j then 0 else gate s k)"
  by (simp add: gate_def clear_gate_def)

lemma clear_gate_frame [simp]:
  "status_of (clear_gate j s) k = status_of s k" "v_jobInstance (clear_gate j s) = v_jobInstance s"
  "v_jobCompletionSeen (clear_gate j s) = v_jobCompletionSeen s" "v_pool (clear_gate j s) = v_pool s"
  "l_dropped (clear_gate j s) = l_dropped s"
  by (simp_all add: clear_gate_def status_of_def)

lemma gate_frame [simp]:
  "gate (set_status j st s) k = gate s k" "gate (s\<lparr> v_jobInstance := m \<rparr>) k = gate s k"
  "gate (s\<lparr> v_pool := p \<rparr>) k = gate s k"
  "gate (s\<lparr> v_partialVisibilityDropPasses := AList.update j n (v_partialVisibilityDropPasses s) \<rparr>) k
     = (if k = j then n else gate s k)"
  by (simp_all add: gate_def update_conv')

lemma status_of_frame [simp]:
  "status_of (s\<lparr> v_jobInstance := m \<rparr>) k = status_of s k"
  "status_of (s\<lparr> v_pool := p \<rparr>) k = status_of s k"
  "status_of (s\<lparr> v_partialVisibilityDropPasses := g \<rparr>) k = status_of s k"
  by (simp_all add: status_of_def)

lemma gate_passes_gate: "gate_passes j s = gate s j + 1"
  by (simp add: gate_passes_def gate_def)

lemma classify_job_other:
  assumes "k \<noteq> j"
  shows "cview (ps_s (classify_job env index partial i active st (j, m) ps)) k = cview (ps_s ps) k"
  using assms by (simp add: classify_job_def cview_def Let_def update_conv')

lemma classify_job_this:
  assumes "st j = status_of (ps_s ps) j" "map_of (v_jobInstance (ps_s ps)) j = Some m"
  shows "cview (ps_s (classify_job env index partial i active st (j, m) ps)) j
    = classify_view env index partial i active (ps_s ps) j"
  using assms
  by (simp add: classify_job_def classify_view_def cview_def Let_def gate_passes_gate update_conv')

lemma classify_job_frame:
  "v_pool (ps_s (classify_job env index partial i active st e ps)) = v_pool (ps_s ps)"
  "l_dropped (ps_s (classify_job env index partial i active st e ps)) = l_dropped (ps_s ps)"
  "distinct (map fst (v_jobInstance (ps_s ps))) \<Longrightarrow>
     distinct (map fst (v_jobInstance (ps_s (classify_job env index partial i active st e ps))))"
  by (cases e; simp add: classify_job_def Let_def distinct_update)+

lemma classify_view_cong:
  assumes "cview s' j = cview s j"
  shows "classify_view env index partial i active s' j = classify_view env index partial i active s j"
  using assms by (simp add: classify_view_def cview_def Let_def within_grace_def cong: if_cong)

lemma classify_loop_view:
  assumes "distinct (map fst es)"
    "\<And>j. j \<in> set (map fst es) \<Longrightarrow> st j = status_of (ps_s ps) j \<and> map_of es j = map_of (v_jobInstance (ps_s ps)) j"
  shows "cview (ps_s (classify_loop env index partial i active st es ps)) k =
      (if k \<in> set (map fst es) then classify_view env index partial i active (ps_s ps) k
       else cview (ps_s ps) k)"
  using assms
proof (induction es arbitrary: ps)
  case (Cons e es)
  obtain j m where e: "e = (j, m)" by (cases e)
  let ?ps = "classify_job env index partial i active st (j, m) ps"
  have j: "st j = status_of (ps_s ps) j" "map_of (v_jobInstance (ps_s ps)) j = Some m"
    using Cons.prems(2) [of j] e by simp_all
  have jn: "j \<notin> set (map fst es)" using Cons.prems(1) e by simp
  have other: "l \<noteq> j \<Longrightarrow> cview (ps_s ?ps) l = cview (ps_s ps) l" for l by (rule classify_job_other)
  have pre: "st l = status_of (ps_s ?ps) l \<and> map_of es l = map_of (v_jobInstance (ps_s ?ps)) l"
    if "l \<in> set (map fst es)" for l
  proof -
    have ne: "l \<noteq> j" using that jn by auto
    then show ?thesis using Cons.prems(2) [of l] other [OF ne] that e by (auto simp: cview_def)
  qed
  have IH: "cview (ps_s (classify_loop env index partial i active st es ?ps)) k =
      (if k \<in> set (map fst es) then classify_view env index partial i active (ps_s ?ps) k
       else cview (ps_s ?ps) k)"
    by (rule Cons.IH [OF _ pre]) (use Cons.prems(1) e in simp)
  show ?case
  proof (cases "k = j")
    case True
    then show ?thesis using IH jn classify_job_this [where st = st and j = j and ps = ps and m = m
        and env = env and index = index and partial = partial and i = i and active = active, OF j] e by simp
  next
    case False
    then show ?thesis using IH other [OF False] classify_view_cong [OF other [OF False]] e by simp
  qed
qed simp

lemma classify_loop_frame:
  "v_pool (ps_s (classify_loop env index partial i active st es ps)) = v_pool (ps_s ps)"
  "l_dropped (ps_s (classify_loop env index partial i active st es ps)) = l_dropped (ps_s ps)"
  "distinct (map fst (v_jobInstance (ps_s ps))) \<Longrightarrow>
     distinct (map fst (v_jobInstance (ps_s (classify_loop env index partial i active st es ps))))"
  by (induction es arbitrary: ps) (simp_all add: classify_job_frame)

text \<open>One instance, seen from one job: nothing, or a classification.\<close>

lemma reconcile_instance_view:
  assumes "distinct (map fst (v_jobInstance s))"
    "reconcile_instance env index partial e repaired s = (s', repaired', e', raised)"
  shows "distinct (map fst (v_jobInstance s'))" "l_dropped s' = l_dropped s" "pe_id e' = pe_id e"
    "pe_real e' = pe_real e"
    "(\<forall>j. cview s' j = cview s j) \<or> (\<exists>ac. pe_real e = Some ac \<and> \<not> ac_truncated ac
       \<and> ac_count ac < i_activeJobs (pe_record e)
       \<and> (\<forall>j. cview s' j = classify_view env index partial (pe_id e) (ac_ids ac) s j))"
    "pe_real e = Some ac \<Longrightarrow> \<not> ac_truncated ac \<Longrightarrow> 0 \<le> ac_count ac \<Longrightarrow>
       ac_count ac < i_activeJobs (pe_record e) \<Longrightarrow>
       cview s' j = classify_view env index partial (pe_id e) (ac_ids ac) s j"
proof -
  define out where "out = reconcile_instance env index partial e repaired s"
  have outcome: "distinct (map fst (v_jobInstance (fst out))) \<and> l_dropped (fst out) = l_dropped s
    \<and> pe_id (fst (snd (snd out))) = pe_id e \<and> pe_real (fst (snd (snd out))) = pe_real e \<and>
    ((\<forall>j. cview (fst out) j = cview s j) \<or> (\<exists>ac. pe_real e = Some ac \<and> \<not> ac_truncated ac
       \<and> ac_count ac < i_activeJobs (pe_record e)
       \<and> (\<forall>j. cview (fst out) j = classify_view env index partial (pe_id e) (ac_ids ac) s j)))
    \<and> (\<forall>ac. pe_real e = Some ac \<longrightarrow> \<not> ac_truncated ac \<longrightarrow> 0 \<le> ac_count ac
       \<longrightarrow> ac_count ac < i_activeJobs (pe_record e)
       \<longrightarrow> (\<forall>j. cview (fst out) j = classify_view env index partial (pe_id e) (ac_ids ac) s j))"
  proof (cases "pe_real e")
    case None
    then show ?thesis using assms(1) by (simp add: out_def reconcile_instance_def Let_def)
  next
    case (Some ac)
    define ps0 where "ps0 = \<lparr> ps_s = s, ps_dropped = [], ps_withheld = [], ps_repaired = repaired \<rparr>"
    define ps where "ps = (if ac_count ac < i_activeJobs (pe_record e) \<and> \<not> ac_truncated ac
       then classify_loop env index partial (pe_id e) (ac_ids ac) (status_of s) (v_jobInstance s) ps0 else ps0)"
    have pool: "cview (x\<lparr> v_pool := p \<rparr>) j = cview x j" for x p j by (simp add: cview_def)
    have lo: "cview (ps_s (classify_loop env index partial (pe_id e) (ac_ids ac) (status_of s) (v_jobInstance s) ps0)) j
        = classify_view env index partial (pe_id e) (ac_ids ac) s j" for j
    proof -
      have nm: "classify_view env index partial (pe_id e) (ac_ids ac) s j = cview s j"
        if "j \<notin> fst ` set (v_jobInstance s)"
        using that map_of_eq_None_iff [of "v_jobInstance s" j] by (simp add: classify_view_def Let_def)
      show ?thesis
        by (subst classify_loop_view [OF assms(1)]) (auto simp: ps0_def nm)
    qed
    have f: "distinct (map fst (v_jobInstance (ps_s ps)))" "l_dropped (ps_s ps) = l_dropped s"
      using assms(1) classify_loop_frame by (auto simp: ps_def ps0_def)
    have v: "(\<forall>j. cview (ps_s ps) j = cview s j) \<or> (\<not> ac_truncated ac
       \<and> ac_count ac < i_activeJobs (pe_record e)
       \<and> (\<forall>j. cview (ps_s ps) j = classify_view env index partial (pe_id e) (ac_ids ac) s j))"
      using lo by (auto simp: ps_def ps0_def)
    have o: "out = (if i_activeJobs (pe_record e) = 0 \<or> i_activeJobs (pe_record e) = ac_count ac
        then (s, repaired, e, [])
        else case fetchDroppedFailureReasons env (pe_record e) (ps_dropped ps) of
               None \<Rightarrow> (ps_s ps, ps_repaired ps, e, [])
             | Some reasons \<Rightarrow>
                 if ps_withheld ps \<noteq> [] then (ps_s ps, ps_repaired ps, e, map (\<lambda>j. (j, map_of reasons j)) (ps_dropped ps))
                 else let (s', record') = set_count (pe_id e) (pe_record e) (ac_count ac) (ps_s ps)
                   in (s', ps_repaired ps, e\<lparr> pe_record := record' \<rparr>, map (\<lambda>j. (j, map_of reasons j)) (ps_dropped ps)))"
      by (simp only: out_def reconcile_instance_def Let_def Some option.case ps_def ps0_def)
    have "fst out = s \<or> fst out = ps_s ps \<or> (\<exists>p. fst out = (ps_s ps)\<lparr> v_pool := p \<rparr>)"
      unfolding o by (auto simp: set_count_def Let_def split: option.splits)
    moreover have "pe_id (fst (snd (snd out))) = pe_id e" "pe_real (fst (snd (snd out))) = pe_real e"
      unfolding o by (auto simp: set_count_def Let_def split: option.splits)
    moreover have "\<forall>j. cview (fst out) j = classify_view env index partial (pe_id e) (ac_ids ac) s j"
      if "\<not> ac_truncated ac" "0 \<le> ac_count ac" "ac_count ac < i_activeJobs (pe_record e)"
    proof -
      have "fst out = ps_s ps \<or> (\<exists>p. fst out = (ps_s ps)\<lparr> v_pool := p \<rparr>)"
        unfolding o using that by (auto simp: set_count_def Let_def split: option.splits)
      moreover have "cview (ps_s ps) j = classify_view env index partial (pe_id e) (ac_ids ac) s j" for j
        using that lo by (simp add: ps_def)
      ultimately show ?thesis by (auto simp: pool)
    qed
    ultimately show ?thesis using f v assms(1) Some by (auto simp: pool)
  qed
  show "distinct (map fst (v_jobInstance s'))" "l_dropped s' = l_dropped s" "pe_id e' = pe_id e"
    "pe_real e' = pe_real e"
    "(\<forall>j. cview s' j = cview s j) \<or> (\<exists>ac. pe_real e = Some ac \<and> \<not> ac_truncated ac
       \<and> ac_count ac < i_activeJobs (pe_record e)
       \<and> (\<forall>j. cview s' j = classify_view env index partial (pe_id e) (ac_ids ac) s j))"
    "pe_real e = Some ac \<Longrightarrow> \<not> ac_truncated ac \<Longrightarrow> 0 \<le> ac_count ac \<Longrightarrow>
       ac_count ac < i_activeJobs (pe_record e) \<Longrightarrow>
       cview s' j = classify_view env index partial (pe_id e) (ac_ids ac) s j"
    using outcome assms(2) by (simp_all add: out_def)
qed

section \<open>What pass 2 does\<close>

definition drop_ok :: "reconcile_env \<Rightarrow> (string \<times> string list) list \<Rightarrow> bool \<Rightarrow> scaler \<Rightarrow> string \<Rightarrow> bool" where
  "drop_ok env index partial s j = (live_status (status_of s j) \<and> instancesActiveFor index j = []
     \<and> \<not> within_grace env j s \<and> (partial \<longrightarrow> 1 \<le> gate s j))"

text \<open>The invariant over the instances visited so far (\<^verbatim>\<open>P\<close>): a status changed only by a
  justified drop, and a job whose gate was raised still maps to a visited instance.\<close>

definition pass_inv ::
  "reconcile_env \<Rightarrow> (string \<times> string list) list \<Rightarrow> bool \<Rightarrow> string set \<Rightarrow> scaler \<Rightarrow> scaler \<Rightarrow> bool" where
  "pass_inv env index partial P s0 s = (\<forall>j.
     (status_of s j = status_of s0 j \<or> (status_of s j = ''FAILED'' \<and> drop_ok env index partial s0 j))
     \<and> map_of (v_jobCompletionSeen s) j = map_of (v_jobCompletionSeen s0) j
     \<and> (gate s j \<le> gate s0 j \<or> map_of (v_jobInstance s) j \<in> Some ` P))"

lemma pass_inv_step:
  assumes "pass_inv env index partial P s0 s" "i \<notin> P" "\<And>j. 0 \<le> gate s0 j"
    "\<And>j. cview s' j = classify_view env index partial i active s j"
  shows "pass_inv env index partial (insert i P) s0 s'"
  unfolding pass_inv_def
proof
  fix j
  have g: "status_of s j = status_of s0 j \<or> (status_of s j = ''FAILED'' \<and> drop_ok env index partial s0 j)"
    "map_of (v_jobCompletionSeen s) j = map_of (v_jobCompletionSeen s0) j"
    "gate s j \<le> gate s0 j \<or> map_of (v_jobInstance s) j \<in> Some ` P"
    using assms(1) unfolding pass_inv_def by blast+
  have wg: "within_grace env j s = within_grace env j s0" using g(2) by (simp add: within_grace_def)
  have c: "cview s' j = classify_view env index partial i active s j" by (rule assms(4))
  show "(status_of s' j = status_of s0 j \<or> (status_of s' j = ''FAILED'' \<and> drop_ok env index partial s0 j))
     \<and> map_of (v_jobCompletionSeen s') j = map_of (v_jobCompletionSeen s0) j
     \<and> (gate s' j \<le> gate s0 j \<or> map_of (v_jobInstance s') j \<in> Some ` insert i P)"
  proof (cases "map_of (v_jobInstance s) j = Some i \<and> live_status (status_of s j)")
    case False
    then have "cview s' j = cview s j" using c by (auto simp: classify_view_def Let_def)
    then show ?thesis using g by (auto simp: cview_def)
  next
    case True
    then have st: "status_of s j = status_of s0 j" using g(1) by auto
    have le: "gate s j \<le> gate s0 j" using g(3) True assms(2) by auto
    have n: "0 \<le> gate s0 j" by (rule assms(3))
    show ?thesis
      using c True st le n g(2) wg
      by (auto simp: classify_view_def cview_def Let_def drop_ok_def PARTIAL_VISIBILITY_DROP_PASSES_def
          split: if_splits)
  qed
qed

lemma pass_inv_mono: "pass_inv env index partial P s0 s \<Longrightarrow> P \<subseteq> Q \<Longrightarrow> pass_inv env index partial Q s0 s"
  by (auto simp: pass_inv_def)

lemma pass_inv_cview:
  assumes "pass_inv env index partial P s0 s" "\<And>j. cview s' j = cview s j"
  shows "pass_inv env index partial P s0 s'"
  using assms unfolding pass_inv_def cview_def by (metis prod.inject)

lemma reconcile_instances_inv:
  assumes "distinct (map pe_id es)" "set (map pe_id es) \<inter> P = {}" "\<And>j. 0 \<le> gate s0 j"
    "distinct (map fst (v_jobInstance s))" "pass_inv env index partial P s0 s"
    "reconcile_instances env index partial es repaired s = (s', repaired', es', raised)"
  shows "pass_inv env index partial (P \<union> set (map pe_id es)) s0 s' \<and> l_dropped s' = l_dropped s"
  using assms(1,2,4-6)
proof (induction es arbitrary: P repaired s repaired' es' raised)
  case (Cons e es)
  obtain s1 r1 e1 d1 where one: "reconcile_instance env index partial e repaired s = (s1, r1, e1, d1)"
    by (cases "reconcile_instance env index partial e repaired s") auto
  obtain r2 es2 d2 where rest: "reconcile_instances env index partial es r1 s1 = (s', r2, es2, d2)"
    using Cons.prems(5) one by (auto split: prod.splits)
  note v = reconcile_instance_view [OF Cons.prems(3) one]
  from v(5) have "pass_inv env index partial (insert (pe_id e) P) s0 s1"
  proof (elim disjE exE conjE)
    assume "\<forall>j. cview s1 j = cview s j"
    then show ?thesis using pass_inv_cview [OF Cons.prems(4)] pass_inv_mono by blast
  next
    fix ac
    assume "\<forall>j. cview s1 j = classify_view env index partial (pe_id e) (ac_ids ac) s j"
    then show ?thesis using pass_inv_step [OF Cons.prems(4) _ assms(3)] Cons.prems(2) by simp
  qed
  then show ?case
    using Cons.IH [OF _ _ v(1) _ rest, of "insert (pe_id e) P"] Cons.prems(1,2) v(2) by simp_all
qed simp_all

lemma repair_counts_view: "cview (repair_counts es is s) j = cview s j"
  by (induction es "is" s rule: repair_counts.induct)
    (auto simp: set_count_def Let_def cview_def split: option.splits)

section \<open>The passes before it\<close>

definition unseen_as :: "reconcile_env \<Rightarrow> instance_record \<Rightarrow> unseen \<Rightarrow> bool" where
  "unseen_as env r x = (case re_read env r of None \<Rightarrow> x = Unreachable
     | Some ac \<Rightarrow> ac_truncated ac \<and> x = Truncated)"

lemma probe_pool_entries:
  assumes "probe_pool env pool = (es, us)"
  shows "e \<in> set es \<Longrightarrow> (pe_id e, Instance (pe_record e)) \<in> set pool \<and> pe_real e = re_read env (pe_record e)"
    "(i, Instance r) \<in> set pool \<Longrightarrow> \<exists>e\<in>set es. pe_id e = i \<and> pe_record e = r \<and> pe_real e = re_read env r"
    "distinct (map fst pool) \<Longrightarrow> distinct (map pe_id es)"
    "(i, x) \<in> set us \<longleftrightarrow> (x = Unreadable \<and> (\<exists>t. (i, CorruptInstance t) \<in> set pool))
       \<or> (\<exists>r. (i, Instance r) \<in> set pool \<and> unseen_as env r x)"
proof -
  have "(\<forall>e\<in>set es. (pe_id e, Instance (pe_record e)) \<in> set pool \<and> pe_real e = re_read env (pe_record e))
    \<and> (\<forall>i r. (i, Instance r) \<in> set pool \<longrightarrow> (\<exists>e\<in>set es. pe_id e = i \<and> pe_record e = r \<and> pe_real e = re_read env r))
    \<and> (distinct (map fst pool) \<longrightarrow> distinct (map pe_id es)) \<and> pe_id ` set es \<subseteq> fst ` set pool"
    using assms
  proof (induction env pool arbitrary: es us rule: probe_pool.induct)
    case (2 env i t pool)
    obtain us1 where p: "probe_pool env pool = (es, us1)"
      using 2(2) by (cases "probe_pool env pool") simp
    show ?case using 2(1) [OF p] by auto
  next
    case (3 env i r pool)
    obtain es1 us1 where p: "probe_pool env pool = (es1, us1)" by (cases "probe_pool env pool")
    let ?e = "\<lparr> pe_id = i, pe_record = r, pe_real = re_read env r \<rparr>"
    have es: "es = ?e # es1" using 3(2) p by (simp add: Let_def)
    note IH = 3(1) [OF p]
    show ?case unfolding es using IH by auto
  qed simp
  then show "e \<in> set es \<Longrightarrow> (pe_id e, Instance (pe_record e)) \<in> set pool \<and> pe_real e = re_read env (pe_record e)"
    "(i, Instance r) \<in> set pool \<Longrightarrow> \<exists>e\<in>set es. pe_id e = i \<and> pe_record e = r \<and> pe_real e = re_read env r"
    "distinct (map fst pool) \<Longrightarrow> distinct (map pe_id es)" by blast+
  show "(i, x) \<in> set us \<longleftrightarrow> (x = Unreadable \<and> (\<exists>t. (i, CorruptInstance t) \<in> set pool))
       \<or> (\<exists>r. (i, Instance r) \<in> set pool \<and> unseen_as env r x)"
    using assms
  proof (induction env pool arbitrary: es us rule: probe_pool.induct)
    case (2 env k t pool)
    obtain us1 where p: "probe_pool env pool = (es, us1)" "us = (k, Unreadable) # us1"
      using 2(2) by (cases "probe_pool env pool") simp
    show ?case unfolding p(2) using 2(1) [OF p(1)] by auto
  next
    case (3 env k r pool)
    obtain es1 us1 where p: "probe_pool env pool = (es1, us1)" by (cases "probe_pool env pool")
    have us: "us = (case re_read env r of None \<Rightarrow> (k, Unreachable) # us1
       | Some ac \<Rightarrow> if ac_truncated ac then (k, Truncated) # us1 else us1)"
      using 3(2) p by (simp add: Let_def)
    have "(i, x) \<in> set us \<longleftrightarrow> (k = i \<and> unseen_as env r x) \<or> (i, x) \<in> set us1"
      unfolding us unseen_as_def by (auto split: option.splits)
    then show ?case using 3(1) [OF p] by auto
  qed simp
qed

lemma evict_loop_effect:
  "evict_loop env existing is s = (s', evicted) \<Longrightarrow>
     set evicted \<subseteq> set is - set existing \<and> job_view s' j = job_view s j \<and> same_pins s s'
     \<and> v_jobInstance s' = v_jobInstance s \<and> v_jobCompletionSeen s' = v_jobCompletionSeen s
     \<and> v_partialVisibilityDropPasses s' = v_partialVisibilityDropPasses s
     \<and> (\<forall>k. map_of (v_pool s') k = (if k \<in> set evicted then None else map_of (v_pool s) k))"
proof (induction env existing "is" s arbitrary: s' evicted rule: evict_loop.induct)
  case (1 env existing s)
  then show ?case by (simp add: same_pins_def)
next
  case (2 env existing i "is" s)
  show ?case
  proof (cases "i \<in> set existing \<or> destroyInstance env i s = None")
    case True
    then show ?thesis using 2 by (fastforce split: if_splits)
  next
    case False
    then obtain s1 where d: "destroyInstance env i s = Some s1" by auto
    obtain s2 ev where l: "evict_loop env existing is s1 = (s2, ev)" by (cases "evict_loop env existing is s1")
    have e: "s' = s2" "evicted = i # ev" using 2(4) False d l by auto
    have s1: "s1 = s\<lparr> v_pool := AList.delete i (v_pool s), l_destroyed := l_destroyed s @ [i] \<rparr>"
      using d by (auto simp: destroyInstance_def split: if_splits)
    have ni: "i \<notin> set existing" using False by simp
    from 2(3) [OF ni d l] ni show ?thesis
      unfolding e by (auto simp: s1 same_pins_def delete_conv')
  qed
qed

lemma evict_effect:
  assumes "evictVanishedInstances env ids s = (s', evicted)"
  shows "job_view s' j = job_view s j" "same_pins s s'" "v_jobInstance s' = v_jobInstance s"
    "v_jobCompletionSeen s' = v_jobCompletionSeen s"
    "v_partialVisibilityDropPasses s' = v_partialVisibilityDropPasses s"
    "map_of (v_pool s') k = (if k \<in> set evicted then None else map_of (v_pool s) k)"
    "k \<in> set evicted \<Longrightarrow> k \<in> set ids \<and> (\<exists>names. re_osc env = Some names \<and> (k = [] \<or> k \<notin> set names))"
proof -
  have "(evicted = [] \<and> s' = s) \<or> (\<exists>names. re_osc env = Some names
      \<and> evict_loop (re_scale env) (filter (\<lambda>n. n \<noteq> []) names) ids s = (s', evicted))"
    using assms by (auto simp: evictVanishedInstances_def split: if_splits option.splits)
  then show "job_view s' j = job_view s j" "same_pins s s'" "v_jobInstance s' = v_jobInstance s"
    "v_jobCompletionSeen s' = v_jobCompletionSeen s"
    "v_partialVisibilityDropPasses s' = v_partialVisibilityDropPasses s"
    "map_of (v_pool s') k = (if k \<in> set evicted then None else map_of (v_pool s) k)"
    "k \<in> set evicted \<Longrightarrow> k \<in> set ids \<and> (\<exists>names. re_osc env = Some names \<and> (k = [] \<or> k \<notin> set names))"
    using evict_loop_effect by (auto simp: same_pins_def dest!: evict_loop_effect [where j = j])
qed

lemma requeue_one_keys [simp]:
  "v_jobCompletionSeen (requeue_one i act now st e s) = v_jobCompletionSeen s"
  "v_partialVisibilityDropPasses (requeue_one i act now st e s) = v_partialVisibilityDropPasses s"
  by (cases e; auto simp: requeue_one_def requeueInterruptedByScaleDown_def
      resolveUnrequeueableScaleDownLoss_def Let_def split: option.splits payload_entry.splits)+

lemma requeue_keys [simp]:
  "v_jobCompletionSeen (requeueScaleDownInterruptions i act now s) = v_jobCompletionSeen s"
  "v_partialVisibilityDropPasses (requeueScaleDownInterruptions i act now s) = v_partialVisibilityDropPasses s"
proof -
  have "v_jobCompletionSeen (requeue_loop i act now st es s) = v_jobCompletionSeen s
      \<and> v_partialVisibilityDropPasses (requeue_loop i act now st es s) = v_partialVisibilityDropPasses s" for st es
    by (induction es arbitrary: s) simp_all
  then show "v_jobCompletionSeen (requeueScaleDownInterruptions i act now s) = v_jobCompletionSeen s"
    "v_partialVisibilityDropPasses (requeueScaleDownInterruptions i act now s) = v_partialVisibilityDropPasses s"
    by (simp_all add: requeueScaleDownInterruptions_def)
qed

text \<open>The evicted instances as a scale-down environment: nothing is active on them.\<close>

definition evicted_env :: "string set \<Rightarrow> scale_env" where
  "evicted_env E = \<lparr> se_now = 0, se_number = (\<lambda>_. NaN), se_idleTimeoutMs = 0, se_minInstances = 0,
     se_maxInstances = 0, se_real = (\<lambda>i. if i \<in> E then Some \<lparr> ac_count = 0, ac_ids = [], ac_truncated = False \<rparr> else None),
     se_removable = (\<lambda>_. True) \<rparr>"

lemma jobs_step_evicted:
  assumes "jobs_step (evicted_env E) s s'"
  shows "job_view s' j = job_view s j \<or> (job_view s' j = requeued_view s j \<and> (\<exists>i\<in>E. lost_job i [] s j))"
proof -
  have "se_real (evicted_env E) i = Some ac \<longleftrightarrow> i \<in> E \<and> ac = \<lparr> ac_count = 0, ac_ids = [], ac_truncated = False \<rparr>" for i ac
    by (auto simp: evicted_env_def)
  then show ?thesis using assms [unfolded jobs_step_def, rule_format, of j] by auto
qed

lemma requeue_all_step:
  assumes "distinct (map fst (v_jobInstance s))" "set is \<subseteq> E"
  shows "jobs_step (evicted_env E) s (requeue_all now is s) \<and> same_pins s (requeue_all now is s)
    \<and> distinct (map fst (v_jobInstance (requeue_all now is s)))
    \<and> v_pool (requeue_all now is s) = v_pool s
    \<and> v_jobCompletionSeen (requeue_all now is s) = v_jobCompletionSeen s
    \<and> v_partialVisibilityDropPasses (requeue_all now is s) = v_partialVisibilityDropPasses s"
  using assms
proof (induction now "is" s rule: requeue_all.induct)
  case (1 now s)
  then show ?case by (simp add: jobs_step_def same_pins_def)
next
  case (2 now i "is" s)
  let ?s = "requeueScaleDownInterruptions i [] now s"
  have r: "se_real (evicted_env E) i = Some \<lparr> ac_count = 0, ac_ids = [], ac_truncated = False \<rparr>"
    using 2(3) by (simp add: evicted_env_def)
  note q = requeue_jobs_step [OF 2(2) r, of ?s now, simplified]
  from 2(1) [OF q(4)] 2(3) show ?case
    using jobs_step_trans [OF q(1) _ q(2)] same_pins_trans [OF q(2)] requeue_frame(1) [OF 2(2)] by simp
qed

section \<open>The whole pass\<close>

text \<open>A record the pass did not see completely.\<close>

fun blind_spot :: "reconcile_env \<Rightarrow> pool_entry \<Rightarrow> bool" where
  "blind_spot env (CorruptInstance t) = True"
| "blind_spot env (Instance r) = (case re_read env r of None \<Rightarrow> True | Some ac \<Rightarrow> ac_truncated ac)"

definition vanished :: "reconcile_env \<Rightarrow> scaler \<Rightarrow> string \<Rightarrow> bool" where
  "vanished env s i = ((\<exists>r. map_of (v_pool s) i = Some (Instance r) \<and> re_read env r = None)
     \<and> (\<exists>names. re_osc env = Some names \<and> (i = [] \<or> i \<notin> set names)))"

text \<open>The parts of a pass over a pool that is not empty.\<close>

lemma reconcile_parts:
  assumes "v_pool s \<noteq> []" "distinct (map fst (v_jobInstance s))" "distinct (map fst (v_pool s))"
  obtains es us s1 evicted s2 s3 repaired es' raised where
    "probe_pool env (v_pool s) = (es, us)"
    "evictVanishedInstances env (map pe_id (filter (\<lambda>e. pe_real e = None) es)) s = (s1, evicted)"
    "s2 = requeue_all (re_now env) evicted s1"
    "reconcile_instances env (active_index es)
       (filter (\<lambda>(i, why). \<not> (why = Unreachable \<and> i \<in> set evicted)) us \<noteq> [])
       (filter (\<lambda>e. pe_id e \<notin> set evicted) es) [] s2 = (s3, repaired, es', raised)"
    "reconcile env s = (repair_counts es' repaired s3)\<lparr> l_dropped :=
       l_dropped (repair_counts es' repaired s3) @ raised \<rparr>"
    "\<And>i. i \<in> set evicted \<Longrightarrow> vanished env s i"
    "jobs_step (evicted_env (set evicted)) s s2" "same_pins s s2"
    "distinct (map fst (v_jobInstance s2))" "v_jobCompletionSeen s2 = v_jobCompletionSeen s"
    "v_partialVisibilityDropPasses s2 = v_partialVisibilityDropPasses s"
    "\<And>k. map_of (v_pool s2) k = (if k \<in> set evicted then None else map_of (v_pool s) k)"
    "distinct (map pe_id (filter (\<lambda>e. pe_id e \<notin> set evicted) es))"
proof -
  obtain es us where p: "probe_pool env (v_pool s) = (es, us)" by (cases "probe_pool env (v_pool s)")
  obtain s1 evicted where e: "evictVanishedInstances env (map pe_id (filter (\<lambda>e. pe_real e = None) es)) s = (s1, evicted)"
    by (cases "evictVanishedInstances env (map pe_id (filter (\<lambda>e. pe_real e = None) es)) s")
  define s2 where "s2 = requeue_all (re_now env) evicted s1"
  obtain s3 repaired es' raised where r: "reconcile_instances env (active_index es)
       (filter (\<lambda>(i, why). \<not> (why = Unreachable \<and> i \<in> set evicted)) us \<noteq> [])
       (filter (\<lambda>e. pe_id e \<notin> set evicted) es) [] s2 = (s3, repaired, es', raised)"
    by (cases "reconcile_instances env (active_index es)
       (filter (\<lambda>(i, why). \<not> (why = Unreachable \<and> i \<in> set evicted)) us \<noteq> [])
       (filter (\<lambda>e. pe_id e \<notin> set evicted) es) [] s2") auto
  note ev = evict_effect [OF e]
  have d1: "distinct (map fst (v_jobInstance s1))" using assms(2) ev(3) by simp
  note q = requeue_all_step [OF d1, of evicted "set evicted" "re_now env", folded s2_def]
  have j: "jobs_step (evicted_env (set evicted)) s s1" using ev(1) by (simp add: jobs_step_def)
  have v: "vanished env s i" if i: "i \<in> set evicted" for i
  proof -
    from ev(7) [OF i] obtain x where x: "x \<in> set es" "pe_id x = i" "pe_real x = None" by auto
    then have "(i, Instance (pe_record x)) \<in> set (v_pool s)" "re_read env (pe_record x) = None"
      using probe_pool_entries(1) [OF p, of x] by auto
    then show ?thesis using ev(7) [OF i] assms(3) by (auto simp: vanished_def map_of_is_SomeI)
  qed
  have "reconcile env s = (repair_counts es' repaired s3)\<lparr> l_dropped :=
       l_dropped (repair_counts es' repaired s3) @ raised \<rparr>"
    using assms(1) p e r by (simp add: reconcile_def Let_def s2_def)
  moreover have "distinct (map pe_id (filter (\<lambda>e. pe_id e \<notin> set evicted) es))"
    using probe_pool_entries(3) [OF p assms(3)] by (simp add: distinct_map_filter)
  ultimately show thesis
    using that [OF p e s2_def r _ v] q jobs_step_trans [OF j _ ev(2)] same_pins_trans [OF ev(2)] ev(4,5,6)
    by simp
qed

text \<open>A job that maps to the instance it runs on, or to none visited, is left alone.\<close>

lemma reconcile_instances_keeps:
  assumes "distinct (map fst (v_jobInstance s))"
    "\<And>e ac. e \<in> set es \<Longrightarrow> pe_real e = Some ac \<Longrightarrow> map_of (v_jobInstance s) j = Some (pe_id e)
       \<Longrightarrow> j \<in> set (ac_ids ac)"
    "reconcile_instances env index partial es repaired s = (s', repaired', es', raised)"
  shows "map_of (v_jobInstance s') j = map_of (v_jobInstance s) j \<and> status_of s' j = status_of s j"
  using assms
proof (induction es arbitrary: repaired s repaired' es' raised)
  case (Cons e es)
  obtain s1 r1 e1 d1 where one: "reconcile_instance env index partial e repaired s = (s1, r1, e1, d1)"
    by (cases "reconcile_instance env index partial e repaired s") auto
  obtain r2 es2 d2 where rest: "reconcile_instances env index partial es r1 s1 = (s', r2, es2, d2)"
    using Cons.prems(3) one by (auto split: prod.splits)
  note v = reconcile_instance_view [OF Cons.prems(1) one]
  have k: "map_of (v_jobInstance s1) j = map_of (v_jobInstance s) j" "status_of s1 j = status_of s j"
  proof -
    have "map_of (v_jobInstance s1) j = map_of (v_jobInstance s) j \<and> status_of s1 j = status_of s j"
      using v(5)
    proof (elim disjE exE conjE)
      fix ac assume ac: "pe_real e = Some ac"
        "\<forall>j. cview s1 j = classify_view env index partial (pe_id e) (ac_ids ac) s j"
      have "map_of (v_jobInstance s) j = Some (pe_id e) \<Longrightarrow> j \<in> set (ac_ids ac)"
        using Cons.prems(2) [of e ac] ac(1) by simp
      then show ?thesis using ac(2) [rule_format, of j]
        by (auto simp: classify_view_def cview_def Let_def split: if_splits)
    qed (simp add: cview_def)
    then show "map_of (v_jobInstance s1) j = map_of (v_jobInstance s) j" "status_of s1 j = status_of s j" by simp_all
  qed
  have "map_of (v_jobInstance s') j = map_of (v_jobInstance s1) j \<and> status_of s' j = status_of s1 j"
    by (rule Cons.IH [OF v(1) _ rest]) (use Cons.prems(2) k(1) in auto)
  then show ?case using k by simp
qed simp

lemma reconcile_instances_repairs:
  assumes "distinct (map fst (v_jobInstance s))" "distinct (map pe_id es)" "e \<in> set es"
    "pe_real e = Some ac" "\<not> ac_truncated ac" "0 \<le> ac_count ac" "ac_count ac < i_activeJobs (pe_record e)"
    "map_of (v_jobInstance s) j = Some (pe_id e)" "live_status (status_of s j)" "j \<notin> set (ac_ids ac)"
    "instancesActiveFor index j = [k]"
    "\<And>x ac'. x \<in> set es \<Longrightarrow> pe_real x = Some ac' \<Longrightarrow> pe_id x = k \<Longrightarrow> j \<in> set (ac_ids ac')"
    "reconcile_instances env index partial es repaired s = (s', repaired', es', raised)"
  shows "map_of (v_jobInstance s') j = Some k \<and> status_of s' j = status_of s j"
  using assms(1-3,8,9,12,13)
proof (induction es arbitrary: repaired s repaired' es' raised)
  case (Cons x es)
  obtain s1 r1 e1 d1 where one: "reconcile_instance env index partial x repaired s = (s1, r1, e1, d1)"
    by (cases "reconcile_instance env index partial x repaired s") auto
  obtain r2 es2 d2 where rest: "reconcile_instances env index partial es r1 s1 = (s', r2, es2, d2)"
    using Cons.prems(7) one by (auto split: prod.splits)
  note v = reconcile_instance_view [OF Cons.prems(1) one]
  show ?case
  proof (cases "x = e")
    case True
    have "cview s1 j = classify_view env index partial (pe_id e) (ac_ids ac) s j"
      using v(6) [of ac j] True assms(4-7) by simp
    then have s1: "map_of (v_jobInstance s1) j = Some k" "status_of s1 j = status_of s j"
      using Cons.prems(4,5) assms(10,11) by (simp_all add: classify_view_def cview_def Let_def)
    have "map_of (v_jobInstance s') j = map_of (v_jobInstance s1) j \<and> status_of s' j = status_of s1 j"
      by (rule reconcile_instances_keeps [OF v(1) _ rest]) (use Cons.prems(6) s1(1) in auto)
    then show ?thesis using s1 by simp
  next
    case False
    then have e: "e \<in> set es" "pe_id x \<noteq> pe_id e" using Cons.prems(2,3) by auto
    have same: "cview s1 j = cview s j"
      using v(5) Cons.prems(4) e(2) by (auto simp: classify_view_def Let_def)
    then have s1: "map_of (v_jobInstance s1) j = Some (pe_id e)" "status_of s1 j = status_of s j"
      using Cons.prems(4) by (simp_all add: cview_def)
    have "map_of (v_jobInstance s') j = Some k \<and> status_of s' j = status_of s1 j"
      by (rule Cons.IH [OF v(1) _ e(1) s1(1) _ _ rest]) (use Cons.prems(2,5,6) s1(2) in auto)
    then show ?thesis using s1 by simp
  qed
qed simp

lemma active_index_mem:
  "(i, ids) \<in> set (active_index es) \<longleftrightarrow> (\<exists>e\<in>set es. \<exists>ac. pe_id e = i \<and> pe_real e = Some ac \<and> ids = ac_ids ac)"
  by (induction es) (auto simp: active_index_def List.map_filter_def split: option.splits)

lemma instancesActiveFor_mem:
  "i \<in> set (instancesActiveFor (active_index es) j) \<longleftrightarrow>
     (\<exists>e\<in>set es. \<exists>ac. pe_id e = i \<and> pe_real e = Some ac \<and> j \<in> set (ac_ids ac))"
  by (auto simp: instancesActiveFor_def active_index_mem image_iff)

lemma instancesActiveFor_distinct:
  "distinct (map pe_id es) \<Longrightarrow> distinct (instancesActiveFor (active_index es) j)"
proof (induction es)
  case (Cons e es)
  have "pe_id e \<notin> set (instancesActiveFor (active_index es) j)"
    using Cons.prems by (auto simp: instancesActiveFor_mem) (metis image_eqI)
  then show ?case using Cons
    by (auto simp: active_index_def instancesActiveFor_def List.map_filter_def split: option.splits)
qed (simp add: active_index_def instancesActiveFor_def List.map_filter_def)

lemma distinct_singleton_list: "distinct xs \<Longrightarrow> set xs = {k} \<Longrightarrow> xs = [k]"
  by (cases xs; cases "tl xs") (auto simp: subset_singleton_iff)

section \<open>Properties\<close>

lemma pool_not_empty: "map_of (v_pool s) i = Some x \<Longrightarrow> v_pool s \<noteq> []"
  by auto

text \<open>C8. A healthy job is never failed by reconciling. A job whose status this pass turned to
  FAILED was either mapped to an instance that answers nobody and that OSC no longer lists,
  with its payload gone; or no encoder that could be read reports it active, no completion
  of it was seen within the grace window, and - if any other record of the pool could not
  be read in full - an earlier pass had already withheld the drop.\<close>

theorem reconcile_fails_only_lost_jobs:
  assumes "distinct (map fst (v_jobInstance s))" "distinct (map fst (v_pool s))"
    "\<And>j. 0 \<le> gate s j" "status_of s j \<noteq> ''FAILED''" "status_of (reconcile env s) j = ''FAILED''"
  shows "(\<exists>i. map_of (v_jobInstance s) j = Some i \<and> vanished env s i \<and> \<not> has_payload s j)
    \<or> ((\<forall>i r ac. map_of (v_pool s) i = Some (Instance r) \<and> re_read env r = Some ac \<longrightarrow> j \<notin> set (ac_ids ac))
       \<and> \<not> within_grace env j s
       \<and> (\<forall>i x. map_of (v_pool s) i = Some x \<and> blind_spot env x \<and> \<not> vanished env s i \<longrightarrow> 1 \<le> gate s j))"
proof -
  have "v_pool s \<noteq> []" using assms(4,5) by (auto simp: reconcile_def)
  from reconcile_parts [OF this assms(1,2), of env] obtain es us s1 evicted s2 s3 repaired es' raised where p:
    "probe_pool env (v_pool s) = (es, us)"
    "reconcile_instances env (active_index es)
       (filter (\<lambda>(i, why). \<not> (why = Unreachable \<and> i \<in> set evicted)) us \<noteq> [])
       (filter (\<lambda>e. pe_id e \<notin> set evicted) es) [] s2 = (s3, repaired, es', raised)"
    "reconcile env s = (repair_counts es' repaired s3)\<lparr> l_dropped :=
       l_dropped (repair_counts es' repaired s3) @ raised \<rparr>"
    "\<And>i. i \<in> set evicted \<Longrightarrow> vanished env s i" "jobs_step (evicted_env (set evicted)) s s2"
    "same_pins s s2" "distinct (map fst (v_jobInstance s2))" "v_jobCompletionSeen s2 = v_jobCompletionSeen s"
    "v_partialVisibilityDropPasses s2 = v_partialVisibilityDropPasses s"
    "distinct (map pe_id (filter (\<lambda>e. pe_id e \<notin> set evicted) es))"
    by metis
  let ?partial = "filter (\<lambda>(i, why). \<not> (why = Unreachable \<and> i \<in> set evicted)) us \<noteq> []"
  have g: "gate s2 k = gate s k" for k using p(9) by (simp add: gate_def)
  have init: "pass_inv env (active_index es) ?partial {} s2 s2" by (simp add: pass_inv_def)
  have "pass_inv env (active_index es) ?partial ({} \<union> set (map pe_id (filter (\<lambda>e. pe_id e \<notin> set evicted) es))) s2 s3"
    using reconcile_instances_inv [OF p(10) _ _ p(7) init p(2)] assms(3) g by simp
  then have st: "status_of s3 j = status_of s2 j \<or> drop_ok env (active_index es) ?partial s2 j"
    unfolding pass_inv_def by blast
  have "status_of s3 j = ''FAILED''"
    using assms(5) p(3) repair_counts_view [of es' repaired s3 j]
    by (simp add: cview_def status_of_def)
  then consider (lost) "status_of s2 j = ''FAILED''" | (drop) "drop_ok env (active_index es) ?partial s2 j"
    using st by auto
  then show ?thesis
  proof cases
    case lost
    then have "job_view s2 j \<noteq> job_view s j" using assms(4) by (auto simp: job_view_def)
    then obtain i where "job_view s2 j = requeued_view s j" "i \<in> set evicted" "lost_job i [] s j"
      using jobs_step_evicted [OF p(5), of j] by blast
    then show ?thesis using lost p(4)
      by (intro disjI1 exI [of _ i]) (auto simp: lost_job_def requeued_view_def job_view_def split: if_splits)
  next
    case drop
    have "j \<notin> set (ac_ids ac)" if "map_of (v_pool s) i = Some (Instance r)" "re_read env r = Some ac" for i r ac
      using drop probe_pool_entries(2) [OF p(1) map_of_SomeD [OF that(1)]] that(2)
        instancesActiveFor_mem [of _ es j] by (fastforce simp: drop_ok_def)
    moreover have "\<not> within_grace env j s" using drop p(8) by (simp add: drop_ok_def within_grace_def)
    moreover have "1 \<le> gate s j"
      if "map_of (v_pool s) i = Some x" "blind_spot env x" "\<not> vanished env s i" for i x
    proof -
      have "i \<notin> set evicted" using p(4) that(3) by blast
      moreover have "\<exists>why. (i, why) \<in> set us"
      proof (cases x)
        case (Instance r)
        then have "\<exists>why. unseen_as env r why" using that(2) by (auto simp: unseen_as_def split: option.splits)
        then show ?thesis using probe_pool_entries(4) [OF p(1)] Instance map_of_SomeD [OF that(1)] by blast
      next
        case (CorruptInstance t)
        then show ?thesis using probe_pool_entries(4) [OF p(1)] map_of_SomeD [OF that(1)] by blast
      qed
      ultimately have ?partial by (auto simp: filter_empty_conv)
      then show ?thesis using drop g by (simp add: drop_ok_def)
    qed
    ultimately show ?thesis by blast
  qed
qed

definition demo_encoder :: "string \<Rightarrow> int \<Rightarrow> instance_record" where
  "demo_encoder i n = demo_idle\<lparr> i_instanceId := i, i_url := ''http://'' @ i, i_activeJobs := n \<rparr>"

definition demo_reconcile_env :: "(string \<times> active_state) list \<Rightarrow> reconcile_env" where
  "demo_reconcile_env states = \<lparr> re_scale = demo_env, re_read = (\<lambda>r. map_of states (i_instanceId r)),
     re_osc = None, re_graceMs = 10000, re_failed = (\<lambda>_ _. None) \<rparr>"

definition demo_tracked :: scaler where
  "demo_tracked = empty_scaler\<lparr>
     v_pool := [(''x'', Instance (demo_encoder ''x'' 1)), (''y'', Instance (demo_encoder ''y'' 1))],
     v_jobInstance := [(''a'', ''x''), (''b'', ''y'')],
     v_jobStatus := [(''a'', ''RUNNING''), (''b'', ''RUNNING'')] \<rparr>"

lemma reconcile_fails_only_lost_jobs_witness:
  "\<not> within_grace (demo_reconcile_env [(''x'', \<lparr> ac_count = 0, ac_ids = [], ac_truncated = False \<rparr>),
        (''y'', \<lparr> ac_count = 1, ac_ids = [''b''], ac_truncated = False \<rparr>)]) ''a'' demo_tracked"
proof -
  let ?env = "demo_reconcile_env [(''x'', \<lparr> ac_count = 0, ac_ids = [], ac_truncated = False \<rparr>),
        (''y'', \<lparr> ac_count = 1, ac_ids = [''b''], ac_truncated = False \<rparr>)]"
  have d: "distinct (map fst (v_jobInstance demo_tracked))" "distinct (map fst (v_pool demo_tracked))"
    by (simp_all add: demo_tracked_def)
  have g: "0 \<le> gate demo_tracked j" for j by (simp add: gate_def demo_tracked_def empty_scaler_def)
  have s: "status_of demo_tracked ''a'' \<noteq> ''FAILED''" "status_of (reconcile ?env demo_tracked) ''a'' = ''FAILED''"
    by code_simp+
  have "re_osc ?env = None" by (simp add: demo_reconcile_env_def)
  then show ?thesis using reconcile_fails_only_lost_jobs [OF d g s] by (auto simp: vanished_def)
qed

text \<open>A stale mapping is repaired instead of failing the job: when a live job is gone from
  the instance it maps to (read in full, with fewer jobs than tracked) and exactly one other
  encoder reports it active, the pass points the mapping at that encoder and leaves the
  job's status as it was.\<close>

theorem reconcile_repairs_stale_mapping:
  assumes "distinct (map fst (v_jobInstance s))" "distinct (map fst (v_pool s))"
    "map_of (v_jobInstance s) j = Some i" "live_status (status_of s j)"
    "map_of (v_pool s) i = Some (Instance r)" "re_read env r = Some ac" "\<not> ac_truncated ac"
    "0 \<le> ac_count ac" "ac_count ac < i_activeJobs r" "j \<notin> set (ac_ids ac)"
    "\<And>k' r' ac'. map_of (v_pool s) k' = Some (Instance r') \<Longrightarrow> re_read env r' = Some ac' \<Longrightarrow>
        (j \<in> set (ac_ids ac') \<longleftrightarrow> k' = k)"
    "map_of (v_pool s) k = Some (Instance rk)" "re_read env rk = Some ack"
  shows "map_of (v_jobInstance (reconcile env s)) j = Some k
    \<and> status_of (reconcile env s) j = status_of s j"
proof -
  from reconcile_parts [OF pool_not_empty [OF assms(5)] assms(1,2), of env]
  obtain es us s1 evicted s2 s3 repaired es' raised where p:
    "probe_pool env (v_pool s) = (es, us)"
    "reconcile_instances env (active_index es)
       (filter (\<lambda>(i, why). \<not> (why = Unreachable \<and> i \<in> set evicted)) us \<noteq> [])
       (filter (\<lambda>e. pe_id e \<notin> set evicted) es) [] s2 = (s3, repaired, es', raised)"
    "reconcile env s = (repair_counts es' repaired s3)\<lparr> l_dropped :=
       l_dropped (repair_counts es' repaired s3) @ raised \<rparr>"
    "\<And>i. i \<in> set evicted \<Longrightarrow> vanished env s i" "jobs_step (evicted_env (set evicted)) s s2"
    "distinct (map fst (v_jobInstance s2))"
    "distinct (map pe_id (filter (\<lambda>e. pe_id e \<notin> set evicted) es))"
    by metis
  have ni: "i \<notin> set evicted" using p(4) [of i] assms(5,6) by (auto simp: vanished_def)
  have "job_view s2 j = job_view s j"
    using jobs_step_evicted [OF p(5), of j] ni assms(3) by (auto simp: lost_job_def)
  then have s2: "map_of (v_jobInstance s2) j = Some i" "status_of s2 j = status_of s j"
    using assms(3) by (simp_all add: job_view_def)
  obtain e where e: "e \<in> set es" "pe_id e = i" "pe_record e = r" "pe_real e = Some ac"
    using probe_pool_entries(2) [OF p(1) map_of_SomeD [OF assms(5)]] assms(6) by auto
  have ids: "x \<in> set es \<Longrightarrow> pe_real x = Some ac' \<Longrightarrow> j \<in> set (ac_ids ac') \<longleftrightarrow> pe_id x = k" for x ac'
    using probe_pool_entries(1) [OF p(1), of x] assms(2,11) by (metis map_of_is_SomeI)
  obtain ek where ek: "ek \<in> set es" "pe_id ek = k" "pe_real ek = Some ack"
    using probe_pool_entries(2) [OF p(1) map_of_SomeD [OF assms(12)]] assms(13) by auto
  have jk: "j \<in> set (ac_ids ack)" using ids [OF ek(1,3)] ek(2) by simp
  have "x \<in> set (instancesActiveFor (active_index es) j) \<longleftrightarrow> x = k" for x
    unfolding instancesActiveFor_mem
  proof
    assume "\<exists>e\<in>set es. \<exists>ac. pe_id e = x \<and> pe_real e = Some ac \<and> j \<in> set (ac_ids ac)"
    then obtain y ac' where "y \<in> set es" "pe_id y = x" "pe_real y = Some ac'" "j \<in> set (ac_ids ac')" by blast
    then show "x = k" using ids [of y ac'] by simp
  qed (use ek jk in blast)
  then have "set (instancesActiveFor (active_index es) j) = {k}" by blast
  then have one: "instancesActiveFor (active_index es) j = [k]"
    by (rule distinct_singleton_list
        [OF instancesActiveFor_distinct [OF probe_pool_entries(3) [OF p(1) assms(2)]]])
  have "map_of (v_jobInstance s3) j = Some k \<and> status_of s3 j = status_of s2 j"
    by (rule reconcile_instances_repairs [OF p(6,7) _ e(4) assms(7,8) _ _ _ assms(10) one _ p(2)])
      (use e ni s2 assms(4,9) ids in auto)
  then show ?thesis using p(3) repair_counts_view [of es' repaired s3 j] s2(2)
    by (simp add: cview_def status_of_def)
qed

lemma reconcile_repairs_stale_mapping_witness:
  "map_of (v_jobInstance (reconcile (demo_reconcile_env
      [(''x'', \<lparr> ac_count = 0, ac_ids = [], ac_truncated = False \<rparr>),
       (''y'', \<lparr> ac_count = 2, ac_ids = [''a'', ''b''], ac_truncated = False \<rparr>)]) demo_tracked)) ''a'' = Some ''y''"
proof -
  let ?x = "\<lparr> ac_count = 0, ac_ids = [], ac_truncated = False \<rparr> :: active_state"
  let ?y = "\<lparr> ac_count = 2, ac_ids = [''a'', ''b''], ac_truncated = False \<rparr> :: active_state"
  let ?env = "demo_reconcile_env [(''x'', ?x), (''y'', ?y)]"
  have st: "live_status (status_of demo_tracked ''a'')" by code_simp
  have r: "re_read ?env (demo_encoder ''x'' 1) = Some ?x" "re_read ?env (demo_encoder ''y'' 1) = Some ?y"
    by (simp_all add: demo_reconcile_env_def demo_encoder_def)
  show ?thesis
    by (rule reconcile_repairs_stale_mapping [where i = "''x''" and r = "demo_encoder ''x'' 1" and ac = ?x
          and rk = "demo_encoder ''y'' 1" and ack = ?y, THEN conjunct1])
      (use st r in \<open>auto simp: demo_tracked_def demo_encoder_def split: if_splits\<close>)
qed

definition limbo_env :: reconcile_env where
  "limbo_env = demo_reconcile_env [(''x'', \<lparr> ac_count = 1, ac_ids = [''b''], ac_truncated = False \<rparr>),
     (''y'', \<lparr> ac_count = 0, ac_ids = [], ac_truncated = False \<rparr>)]"

definition limbo :: "(string \<times> string) list \<Rightarrow> scaler" where
  "limbo mapping = empty_scaler\<lparr>
     v_pool := [(''x'', Instance (demo_encoder ''x'' 2)), (''y'', Instance (demo_encoder ''y'' 1)),
                (''z'', CorruptInstance ''{'')],
     v_jobInstance := mapping, v_jobStatus := [(''a'', ''RUNNING''), (''b'', ''RUNNING'')] \<rparr>"

lemma iterate_fixed: "f x = y \<Longrightarrow> f y = y \<Longrightarrow> (f ^^ Suc n) x = y"
  by (induction n) simp_all

text \<open>A withheld drop can be stranded by a mapping repair. Job \<^verbatim>\<open>a\<close> is gone from encoder
  \<^verbatim>\<open>x\<close> while another record of the pool cannot be read, so its drop is withheld and the
  tracked count of \<^verbatim>\<open>x\<close> deliberately kept. If in the same pass the mapping of job \<^verbatim>\<open>b\<close> is
  repaired onto \<^verbatim>\<open>x\<close>, the count repair overwrites that count, and from then on no pass
  looks at \<^verbatim>\<open>a\<close> again: it reads RUNNING for ever and is never raised. With \<^verbatim>\<open>b\<close> already mapped
  to \<^verbatim>\<open>x\<close>, the second pass fails \<^verbatim>\<open>a\<close> and raises it.\<close>

theorem repair_strands_withheld_drop:
  "(\<forall>n. status_of ((reconcile limbo_env ^^ n) (limbo [(''a'', ''x''), (''b'', ''y'')])) ''a'' = ''RUNNING''
      \<and> l_dropped ((reconcile limbo_env ^^ n) (limbo [(''a'', ''x''), (''b'', ''y'')])) = [])
   \<and> status_of ((reconcile limbo_env ^^ 2) (limbo [(''a'', ''x''), (''b'', ''x'')])) ''a'' = ''FAILED''
   \<and> l_dropped ((reconcile limbo_env ^^ 2) (limbo [(''a'', ''x''), (''b'', ''x'')])) = [(''a'', None)]"
proof -
  let ?s = "limbo [(''a'', ''x''), (''b'', ''y'')]"
  have stable: "reconcile limbo_env (reconcile limbo_env ?s) = reconcile limbo_env ?s" by code_simp
  have one: "status_of (reconcile limbo_env ?s) ''a'' = ''RUNNING''" "l_dropped (reconcile limbo_env ?s) = []"
    by code_simp+
  have zero: "status_of ?s ''a'' = ''RUNNING''" "l_dropped ?s = []" by code_simp+
  have "status_of ((reconcile limbo_env ^^ n) ?s) ''a'' = ''RUNNING''
      \<and> l_dropped ((reconcile limbo_env ^^ n) ?s) = []" for n
  proof (cases n)
    case 0
    then show ?thesis using zero by simp
  next
    case (Suc m)
    show ?thesis unfolding Suc iterate_fixed [OF refl stable] using one by simp
  qed
  moreover have "status_of (reconcile limbo_env (reconcile limbo_env (limbo [(''a'', ''x''), (''b'', ''x'')]))) ''a'' = ''FAILED''"
    "l_dropped (reconcile limbo_env (reconcile limbo_env (limbo [(''a'', ''x''), (''b'', ''x'')]))) = [(''a'', None)]"
    by code_simp+
  ultimately show ?thesis by (simp add: numeral_2_eq_2)
qed

end
