(* ===== verification/Storage_Quota.thy ===== *)
theory Storage_Quota
  imports OVC_Prelude
begin

text \<open>
  The deployment-wide storage quota (\<^verbatim>\<open>src/src/data/storage-quota.ts\<close>,
  \<^verbatim>\<open>storage-quota-reconcile.ts\<close>) and the read-modify-write loop its CouchDB store rests on
  (\<^verbatim>\<open>updateWithRetry\<close> of \<^verbatim>\<open>couchdb.ts\<close>). The interface \<^verbatim>\<open>StorageQuotaStore\<close> is a record of
  functions; its two implementations are the in-memory counter and the CouchDB document.

  CouchDB is a parameter: \<^verbatim>\<open>get\<close> and \<^verbatim>\<open>put\<close> on a database, and \<^verbatim>\<open>other\<close>, what other writers
  do between a read and the following write. Byte counts are whole numbers; an estimate
  that is not a number is \<^verbatim>\<open>None\<close>.
\<close>

section \<open>The counter and its interface\<close>

record quota_counter =
  consumedBytes :: int
  reservedBytes :: int

definition clampNonNegative :: "int \<Rightarrow> int" where
  "clampNonNegative n = (if 0 < n then n else 0)"

record 's quota_ops =
  qo_reserve :: "int \<Rightarrow> int option \<Rightarrow> 's \<Rightarrow> 's \<times> bool \<times> quota_counter"
  qo_commit :: "int \<Rightarrow> int \<Rightarrow> 's \<Rightarrow> 's \<times> quota_counter"
  qo_release :: "int \<Rightarrow> 's \<Rightarrow> 's \<times> quota_counter"
  qo_applyDelta :: "int \<Rightarrow> 's \<Rightarrow> 's \<times> quota_counter"
  qo_read :: "'s \<Rightarrow> 's \<times> quota_counter"
  qo_reconcile :: "int \<Rightarrow> 's \<Rightarrow> 's \<times> quota_counter"

section \<open>The in-memory store\<close>

definition mem_store :: "int option \<Rightarrow> int option \<Rightarrow> quota_counter" where
  "mem_store c r = \<lparr> consumedBytes = clampNonNegative (coalesce c 0),
     reservedBytes = clampNonNegative (coalesce r 0) \<rparr>"

definition mem_reserve :: "int \<Rightarrow> int option \<Rightarrow> quota_counter \<Rightarrow> quota_counter \<times> bool \<times> quota_counter" where
  "mem_reserve bytes cap s =
     (let requested = clampNonNegative bytes;
          reserved = s\<lparr> reservedBytes := reservedBytes s + requested \<rparr>
      in case cap of
           None \<Rightarrow> (reserved, True, reserved)
         | Some k \<Rightarrow> if k < consumedBytes s + reservedBytes s + requested then (s, False, s)
                     else (reserved, True, reserved))"

definition mem_commit :: "int \<Rightarrow> int \<Rightarrow> quota_counter \<Rightarrow> quota_counter \<times> quota_counter" where
  "mem_commit reserved actual s =
     (let s' = \<lparr> consumedBytes = clampNonNegative (consumedBytes s + clampNonNegative actual),
                reservedBytes = clampNonNegative (reservedBytes s - clampNonNegative reserved) \<rparr>
      in (s', s'))"

definition mem_release :: "int \<Rightarrow> quota_counter \<Rightarrow> quota_counter \<times> quota_counter" where
  "mem_release bytes s =
     (let s' = s\<lparr> reservedBytes := clampNonNegative (reservedBytes s - clampNonNegative bytes) \<rparr>
      in (s', s'))"

definition mem_applyDelta :: "int \<Rightarrow> quota_counter \<Rightarrow> quota_counter \<times> quota_counter" where
  "mem_applyDelta delta s =
     (let s' = s\<lparr> consumedBytes := clampNonNegative (consumedBytes s + delta) \<rparr> in (s', s'))"

definition mem_reconcile :: "int \<Rightarrow> quota_counter \<Rightarrow> quota_counter \<times> quota_counter" where
  "mem_reconcile n s = (let s' = s\<lparr> consumedBytes := clampNonNegative n \<rparr> in (s', s'))"

definition mem_ops :: "quota_counter quota_ops" where
  "mem_ops = \<lparr> qo_reserve = mem_reserve, qo_commit = mem_commit, qo_release = mem_release,
     qo_applyDelta = mem_applyDelta, qo_read = (\<lambda>s. (s, s)), qo_reconcile = mem_reconcile \<rparr>"

section \<open>Read-modify-write on a CouchDB document\<close>

record stored_doc =
  sd_rev :: string
  sd_fields :: "(string, json) jsmap"

datatype put_result = PutOk string | PutConflict | PutFailed

datatype update_result = Updated string | Missing | Thrown

record 'd couch =
  couch_get :: "string \<Rightarrow> 'd \<Rightarrow> stored_doc option"
  couch_put :: "string \<Rightarrow> (string, json) jsmap \<Rightarrow> string option \<Rightarrow> 'd \<Rightarrow> 'd \<times> put_result"

text \<open>The loop of attempts; \<^verbatim>\<open>left\<close> counts the ones that remain. What the patch function
  reports is carried along (the closure variable of the caller), \<^verbatim>\<open>seen\<close> being its last value.\<close>

fun update_attempts ::
  "'d couch \<Rightarrow> (nat \<Rightarrow> 'd \<Rightarrow> 'd) \<Rightarrow> string \<Rightarrow> (stored_doc \<Rightarrow> (string, json) jsmap \<times> 'o) \<Rightarrow> nat \<Rightarrow> 'o
   \<Rightarrow> 'd \<Rightarrow> 'd \<times> update_result \<times> 'o" where
  "update_attempts couch other i patchFn 0 seen d = (d, Thrown, seen)"
| "update_attempts couch other i patchFn (Suc left) seen d =
     (case couch_get couch i d of
        None \<Rightarrow> (d, Missing, seen)
      | Some current \<Rightarrow>
          (let (body, report) = patchFn current;
               (d', res) = couch_put couch i body (Some (sd_rev current)) (other left d)
           in case res of
                PutOk newRev \<Rightarrow> (d', Updated newRev, report)
              | PutConflict \<Rightarrow> update_attempts couch other i patchFn left report d'
              | PutFailed \<Rightarrow> (d', Thrown, report)))"

definition DEFAULT_MAX_ATTEMPTS :: nat where "DEFAULT_MAX_ATTEMPTS = 5"

definition updateWithRetry ::
  "'d couch \<Rightarrow> (nat \<Rightarrow> 'd \<Rightarrow> 'd) \<Rightarrow> string \<Rightarrow> (stored_doc \<Rightarrow> (string, json) jsmap \<times> 'o) \<Rightarrow> 'o
   \<Rightarrow> 'd \<Rightarrow> 'd \<times> update_result \<times> 'o" where
  "updateWithRetry couch other i patchFn seen d =
     update_attempts couch other i patchFn DEFAULT_MAX_ATTEMPTS seen d"

section \<open>The CouchDB store\<close>

text \<open>\<^verbatim>\<open>clampNonNegative(Number(doc?.[k] ?? 0))\<close> on a stored whole number; anything else a
  document may hold reads as 0.\<close>

definition counter_field :: "string \<Rightarrow> (string, json) jsmap \<Rightarrow> int" where
  "counter_field k fs = (case map_of fs k of
       Some (JNum (Fin r)) \<Rightarrow> clampNonNegative \<lfloor>r\<rfloor> | _ \<Rightarrow> 0)"

definition counterFrom :: "stored_doc option \<Rightarrow> quota_counter" where
  "counterFrom doc = (case doc of
       None \<Rightarrow> \<lparr> consumedBytes = 0, reservedBytes = 0 \<rparr>
     | Some x \<Rightarrow> \<lparr> consumedBytes = counter_field ''consumedBytes'' (sd_fields x),
                  reservedBytes = counter_field ''reservedBytes'' (sd_fields x) \<rparr>)"

definition counter_body :: "quota_counter \<Rightarrow> (string, json) jsmap" where
  "counter_body c = [(''resourceType'', JStr ''storage-quota''),
     (''consumedBytes'', JNum (js_of_int (consumedBytes c))),
     (''reservedBytes'', JNum (js_of_int (reservedBytes c)))]"

definition quotaCounterId :: "string \<Rightarrow> string" where
  "quotaCounterId c = ''storage-quota:'' @ c"

definition quota_ensure :: "'d couch \<Rightarrow> string \<Rightarrow> 'd \<Rightarrow> 'd \<times> quota_counter" where
  "quota_ensure couch i d = (case couch_get couch i d of
       Some existing \<Rightarrow> (d, counterFrom (Some existing))
     | None \<Rightarrow> (let d' = fst (couch_put couch i
                   (counter_body \<lparr> consumedBytes = 0, reservedBytes = 0 \<rparr>) None d)
               in (d', counterFrom (couch_get couch i d'))))"

datatype mutation = Next quota_counter | Reject quota_counter

definition apply_mutation ::
  "(quota_counter \<Rightarrow> mutation) \<Rightarrow> stored_doc \<Rightarrow> (string, json) jsmap \<times> bool \<times> quota_counter" where
  "apply_mutation app current = (let cur = counterFrom (Some current) in
     case app cur of
       Reject c \<Rightarrow> (counter_body cur, False, c)
     | Next c \<Rightarrow> (counter_body c, True, c))"

text \<open>The outcome a mutation reports; \<^verbatim>\<open>None\<close> when the write loop throws.\<close>

definition quota_mutate ::
  "'d couch \<Rightarrow> (nat \<Rightarrow> 'd \<Rightarrow> 'd) \<Rightarrow> string \<Rightarrow> (quota_counter \<Rightarrow> mutation) \<Rightarrow> 'd
   \<Rightarrow> 'd \<times> (bool \<times> quota_counter) option" where
  "quota_mutate couch other i app d =
     (let d0 = fst (quota_ensure couch i d);
          (d', res, outcome) = updateWithRetry couch other i (apply_mutation app)
            (True, \<lparr> consumedBytes = 0, reservedBytes = 0 \<rparr>) d0
      in (d', if res = Thrown then None else Some outcome))"

definition reserve_mutation :: "int \<Rightarrow> int option \<Rightarrow> quota_counter \<Rightarrow> mutation" where
  "reserve_mutation requested cap cur =
     (let next' = cur\<lparr> reservedBytes := reservedBytes cur + requested \<rparr> in
      case cap of
        None \<Rightarrow> Next next'
      | Some k \<Rightarrow> if k < consumedBytes cur + reservedBytes cur + requested then Reject cur
                  else Next next')"

definition couch_reserve ::
  "'d couch \<Rightarrow> (nat \<Rightarrow> 'd \<Rightarrow> 'd) \<Rightarrow> string \<Rightarrow> int \<Rightarrow> int option \<Rightarrow> 'd \<Rightarrow> 'd \<times> (bool \<times> quota_counter) option" where
  "couch_reserve couch other i bytes cap d =
     quota_mutate couch other i (reserve_mutation (clampNonNegative bytes) cap) d"

definition couch_commit ::
  "'d couch \<Rightarrow> (nat \<Rightarrow> 'd \<Rightarrow> 'd) \<Rightarrow> string \<Rightarrow> int \<Rightarrow> int \<Rightarrow> 'd \<Rightarrow> 'd \<times> (bool \<times> quota_counter) option" where
  "couch_commit couch other i reserved actual d = quota_mutate couch other i (\<lambda>cur. Next
     \<lparr> consumedBytes = clampNonNegative (consumedBytes cur + clampNonNegative actual),
       reservedBytes = clampNonNegative (reservedBytes cur - clampNonNegative reserved) \<rparr>) d"

definition couch_release ::
  "'d couch \<Rightarrow> (nat \<Rightarrow> 'd \<Rightarrow> 'd) \<Rightarrow> string \<Rightarrow> int \<Rightarrow> 'd \<Rightarrow> 'd \<times> (bool \<times> quota_counter) option" where
  "couch_release couch other i bytes d = quota_mutate couch other i (\<lambda>cur. Next
     (cur\<lparr> reservedBytes := clampNonNegative (reservedBytes cur - clampNonNegative bytes) \<rparr>)) d"

definition couch_applyDelta ::
  "'d couch \<Rightarrow> (nat \<Rightarrow> 'd \<Rightarrow> 'd) \<Rightarrow> string \<Rightarrow> int \<Rightarrow> 'd \<Rightarrow> 'd \<times> (bool \<times> quota_counter) option" where
  "couch_applyDelta couch other i delta d = quota_mutate couch other i (\<lambda>cur. Next
     (cur\<lparr> consumedBytes := clampNonNegative (consumedBytes cur + delta) \<rparr>)) d"

definition couch_reconcile ::
  "'d couch \<Rightarrow> (nat \<Rightarrow> 'd \<Rightarrow> 'd) \<Rightarrow> string \<Rightarrow> int \<Rightarrow> 'd \<Rightarrow> 'd \<times> (bool \<times> quota_counter) option" where
  "couch_reconcile couch other i n d = quota_mutate couch other i (\<lambda>cur. Next
     (cur\<lparr> consumedBytes := clampNonNegative n \<rparr>)) d"

text \<open>The store as its callers see it when nobody else writes between a read and a write.\<close>

definition calm :: "('d \<times> (bool \<times> quota_counter) option) \<Rightarrow> 'd \<times> bool \<times> quota_counter" where
  "calm r = (fst r, coalesce (snd r) (False, \<lparr> consumedBytes = 0, reservedBytes = 0 \<rparr>))"

definition drop_flag :: "'d \<times> bool \<times> quota_counter \<Rightarrow> 'd \<times> quota_counter" where
  "drop_flag r = (fst r, snd (snd r))"

definition couch_ops :: "'d couch \<Rightarrow> string \<Rightarrow> 'd quota_ops" where
  "couch_ops couch i = (let alone = (\<lambda>n d. d) in
     \<lparr> qo_reserve = (\<lambda>b cap d. calm (couch_reserve couch alone i b cap d)),
       qo_commit = (\<lambda>r a d. drop_flag (calm (couch_commit couch alone i r a d))),
       qo_release = (\<lambda>b d. drop_flag (calm (couch_release couch alone i b d))),
       qo_applyDelta = (\<lambda>b d. drop_flag (calm (couch_applyDelta couch alone i b d))),
       qo_read = quota_ensure couch i,
       qo_reconcile = (\<lambda>n d. drop_flag (calm (couch_reconcile couch alone i n d))) \<rparr>)"

section \<open>The admission guard\<close>

record reservation =
  rv_reserved :: int
  rv_settled :: bool

datatype quota_error = QuotaExceeded int int int

text \<open>\<^verbatim>\<open>Math.max(0, Math.floor(n || 0))\<close>.\<close>

definition guard_amount :: "rat option \<Rightarrow> int" where
  "guard_amount n = (case n of None \<Rightarrow> 0 | Some r \<Rightarrow> max 0 \<lfloor>r\<rfloor>)"

definition admit ::
  "'s quota_ops \<Rightarrow> int option \<Rightarrow> rat option \<Rightarrow> 's \<Rightarrow> 's \<times> (quota_error + reservation)" where
  "admit store cap estimatedBytes s =
     (let reserved = guard_amount estimatedBytes;
          (s', ok, counter) = qo_reserve store reserved cap s
      in if \<not> ok then (s', Inl (QuotaExceeded (coalesce cap 0)
             (consumedBytes counter + reservedBytes counter) reserved))
         else (s', Inr \<lparr> rv_reserved = reserved, rv_settled = False \<rparr>))"

definition recordDelta :: "'s quota_ops \<Rightarrow> int \<Rightarrow> 's \<Rightarrow> 's" where
  "recordDelta store delta s = fst (qo_applyDelta store delta s)"

definition reservation_commit ::
  "'s quota_ops \<Rightarrow> rat option \<Rightarrow> reservation \<Rightarrow> 's \<Rightarrow> 's \<times> reservation" where
  "reservation_commit store actualBytes rv s =
     (if rv_settled rv then (s, rv)
      else (fst (qo_commit store (rv_reserved rv) (guard_amount actualBytes) s),
            rv\<lparr> rv_settled := True \<rparr>))"

definition reservation_release :: "'s quota_ops \<Rightarrow> reservation \<Rightarrow> 's \<Rightarrow> 's \<times> reservation" where
  "reservation_release store rv s =
     (if rv_settled rv then (s, rv)
      else (fst (qo_release store (rv_reserved rv) s), rv\<lparr> rv_settled := True \<rparr>))"

text \<open>\<^verbatim>\<open>reconcileStorageQuota\<close>: nothing is written when a bucket cannot be summed.\<close>

fun bucket_total :: "int option list \<Rightarrow> int option" where
  "bucket_total [] = Some 0"
| "bucket_total (b # bs) = (case b of None \<Rightarrow> None
     | Some n \<Rightarrow> map_option (\<lambda>m. n + m) (bucket_total bs))"

definition reconcileStorageQuota :: "'s quota_ops \<Rightarrow> int option list \<Rightarrow> 's \<Rightarrow> 's \<times> int option" where
  "reconcileStorageQuota store buckets s = (case bucket_total buckets of
       None \<Rightarrow> (s, None)
     | Some n \<Rightarrow> (fst (qo_reconcile store n s), Some n))"

section \<open>What a store promises, and what the guard gives on top of it\<close>

text \<open>A store is correct when it behaves as the in-memory counter on the value it holds.\<close>

locale quota_store =
  fixes store :: "'s quota_ops" and inv :: "'s \<Rightarrow> bool" and val :: "'s \<Rightarrow> quota_counter"
  assumes val_nonneg: "inv s \<Longrightarrow> 0 \<le> consumedBytes (val s) \<and> 0 \<le> reservedBytes (val s)"
    and reserve_law: "inv s \<Longrightarrow> qo_reserve store b cap s = (s', r) \<Longrightarrow>
      inv s' \<and> mem_reserve b cap (val s) = (val s', r)"
    and commit_law: "inv s \<Longrightarrow> qo_commit store rb a s = (s', c) \<Longrightarrow>
      inv s' \<and> mem_commit rb a (val s) = (val s', c)"
    and release_law: "inv s \<Longrightarrow> qo_release store b s = (s', c) \<Longrightarrow>
      inv s' \<and> mem_release b (val s) = (val s', c)"
    and delta_law: "inv s \<Longrightarrow> qo_applyDelta store n s = (s', c) \<Longrightarrow>
      inv s' \<and> mem_applyDelta n (val s) = (val s', c)"
    and reconcile_law: "inv s \<Longrightarrow> qo_reconcile store n s = (s', c) \<Longrightarrow>
      inv s' \<and> mem_reconcile n (val s) = (val s', c)"

text \<open>A run of the guard: admissions, the settlement of one of the handles given out, direct
  deltas and recounts, in any order.\<close>

datatype quota_event =
    Admit "rat option"
  | Commit nat "rat option"
  | Release nat
  | Delta int
  | Recount "int option list"

fun quota_step :: "'s quota_ops \<Rightarrow> int option \<Rightarrow> quota_event \<Rightarrow> 's \<times> reservation list \<Rightarrow> 's \<times> reservation list" where
  "quota_step store cap (Admit n) (s, hs) = (case admit store cap n s of
       (s', Inl e) \<Rightarrow> (s', hs) | (s', Inr h) \<Rightarrow> (s', hs @ [h]))"
| "quota_step store cap (Commit k n) (s, hs) = (if k < length hs
     then (let (s', h) = reservation_commit store n (hs ! k) s in (s', hs[k := h])) else (s, hs))"
| "quota_step store cap (Release k) (s, hs) = (if k < length hs
     then (let (s', h) = reservation_release store (hs ! k) s in (s', hs[k := h])) else (s, hs))"
| "quota_step store cap (Delta n) (s, hs) = (recordDelta store n s, hs)"
| "quota_step store cap (Recount bs) (s, hs) = (fst (reconcileStorageQuota store bs s), hs)"

fun quota_run :: "'s quota_ops \<Rightarrow> int option \<Rightarrow> quota_event list \<Rightarrow> 's \<times> reservation list \<Rightarrow> 's \<times> reservation list" where
  "quota_run store cap [] x = x"
| "quota_run store cap (e # es) x = quota_run store cap es (quota_step store cap e x)"

definition open_bytes :: "reservation list \<Rightarrow> int" where
  "open_bytes hs = (\<Sum>h\<leftarrow>hs. if rv_settled h then 0 else rv_reserved h)"

text \<open>A sized event: a commit no larger than what was reserved, and no growth beside it.\<close>

fun sized :: "quota_event \<Rightarrow> 's \<times> reservation list \<Rightarrow> bool" where
  "sized (Commit k n) (s, hs) = (k < length hs \<longrightarrow> guard_amount n \<le> rv_reserved (hs ! k))"
| "sized (Delta n) x = (n \<le> 0)"
| "sized (Recount bs) x = False"
| "sized e x = True"

fun sized_run :: "'s quota_ops \<Rightarrow> int option \<Rightarrow> quota_event list \<Rightarrow> 's \<times> reservation list \<Rightarrow> bool" where
  "sized_run store cap [] x = True"
| "sized_run store cap (e # es) x = (sized e x \<and> sized_run store cap es (quota_step store cap e x))"

lemma clamp_id [simp]: "0 \<le> n \<Longrightarrow> clampNonNegative n = n"
  by (simp add: clampNonNegative_def)

lemma clamp_nonneg [simp]: "0 \<le> clampNonNegative n"
  by (simp add: clampNonNegative_def)

lemma guard_amount_nonneg [simp]: "0 \<le> guard_amount n"
  by (simp add: guard_amount_def split: option.splits)

lemma open_bytes_snoc [simp]:
  "open_bytes (hs @ [h]) = open_bytes hs + (if rv_settled h then 0 else rv_reserved h)"
  by (simp add: open_bytes_def)

lemma open_bytes_update:
  "k < length hs \<Longrightarrow> open_bytes (hs[k := h]) = open_bytes hs
     - (if rv_settled (hs ! k) then 0 else rv_reserved (hs ! k)) + (if rv_settled h then 0 else rv_reserved h)"
proof (induction hs arbitrary: k)
  case (Cons x hs)
  then show ?case by (cases k) (simp_all add: open_bytes_def)
qed simp

lemma open_bytes_ge:
  "k < length hs \<Longrightarrow> \<forall>h\<in>set hs. 0 \<le> rv_reserved h \<Longrightarrow> \<not> rv_settled (hs ! k) \<Longrightarrow>
     rv_reserved (hs ! k) \<le> open_bytes hs"
proof (induction hs arbitrary: k)
  case (Cons x hs)
  have nn: "0 \<le> open_bytes hs" "0 \<le> rv_reserved x" using Cons.prems(2)
    by (auto simp: open_bytes_def intro!: sum_list_nonneg)
  have e: "open_bytes (x # hs) = (if rv_settled x then 0 else rv_reserved x) + open_bytes hs"
    by (simp add: open_bytes_def)
  show ?case
  proof (cases k)
    case 0
    then show ?thesis using nn Cons.prems(3) by (simp add: e)
  next
    case (Suc m)
    then have "rv_reserved (hs ! m) \<le> open_bytes hs" using Cons by simp
    then show ?thesis using nn Suc by (simp add: e)
  qed
qed simp

context quota_store
begin

definition balanced :: "'s \<times> reservation list \<Rightarrow> bool" where
  "balanced x = (inv (fst x) \<and> reservedBytes (val (fst x)) = open_bytes (snd x)
     \<and> (\<forall>h\<in>set (snd x). 0 \<le> rv_reserved h))"

lemma settle_balanced:
  assumes "balanced (s, hs)" "k < length hs" "\<not> rv_settled (hs ! k)"
    "inv s'" "reservedBytes (val s') = clampNonNegative (reservedBytes (val s) - clampNonNegative (rv_reserved (hs ! k)))"
  shows "balanced (s', hs[k := (hs ! k)\<lparr> rv_settled := True \<rparr>])"
    "reservedBytes (val s') = reservedBytes (val s) - rv_reserved (hs ! k)"
proof -
  have nn: "0 \<le> rv_reserved (hs ! k)" using assms(1,2) by (simp add: balanced_def)
  have le: "rv_reserved (hs ! k) \<le> reservedBytes (val s)"
    using open_bytes_ge [OF assms(2)] assms(1,3) by (simp add: balanced_def)
  show e: "reservedBytes (val s') = reservedBytes (val s) - rv_reserved (hs ! k)"
    using assms(5) nn le by simp
  show "balanced (s', hs[k := (hs ! k)\<lparr> rv_settled := True \<rparr>])"
    using assms(1-4) e nn by (auto simp: balanced_def open_bytes_update dest!: set_update_subset_insert [THEN subsetD])
qed

lemma step_ok:
  assumes "balanced x"
  shows "balanced (quota_step store cap e x)
    \<and> (sized e x \<longrightarrow> (\<forall>k. cap = Some k \<longrightarrow>
         consumedBytes (val (fst (quota_step store cap e x))) + reservedBytes (val (fst (quota_step store cap e x)))
           \<le> max k (consumedBytes (val (fst x)) + reservedBytes (val (fst x)))))"
proof -
  obtain s hs where x: "x = (s, hs)" by (cases x)
  have inv: "inv s" and res: "reservedBytes (val s) = open_bytes hs"
    and nn: "\<forall>h\<in>set hs. 0 \<le> rv_reserved h" using assms by (simp_all add: balanced_def x)
  note c0 = val_nonneg [OF inv]
  show ?thesis
  proof (cases e)
    case (Admit n)
    obtain s' ok c where q: "qo_reserve store (guard_amount n) cap s = (s', ok, c)"
      by (cases "qo_reserve store (guard_amount n) cap s") auto
    note r = reserve_law [OF inv q]
    have yes: "val s' = (val s)\<lparr> reservedBytes := reservedBytes (val s) + guard_amount n \<rparr>
        \<and> (\<forall>k. cap = Some k \<longrightarrow> consumedBytes (val s) + reservedBytes (val s) + guard_amount n \<le> k)" if ok
      using r that by (auto simp: mem_reserve_def Let_def split: option.splits if_splits)
    have no: "val s' = val s" if "\<not> ok"
      using r that by (auto simp: mem_reserve_def Let_def split: option.splits if_splits)
    show ?thesis
    proof (cases ok)
      case True
      then have st: "quota_step store cap e x = (s', hs @ [\<lparr> rv_reserved = guard_amount n, rv_settled = False \<rparr>])"
        by (simp add: Admit x admit_def q)
      show ?thesis unfolding st using r yes [OF True] res nn by (auto simp: balanced_def x)
    next
      case False
      then have st: "quota_step store cap e x = (s', hs)" by (simp add: Admit x admit_def q)
      show ?thesis unfolding st using r no [OF False] res nn by (auto simp: balanced_def x)
    qed
  next
    case (Commit k n)
    show ?thesis
    proof (cases "k < length hs \<and> \<not> rv_settled (hs ! k)")
      case False
      then have "quota_step store cap e x = x"
        by (auto simp: Commit x reservation_commit_def)
      then show ?thesis using assms by auto
    next
      case True
      obtain s' c where q: "qo_commit store (rv_reserved (hs ! k)) (guard_amount n) s = (s', c)"
        by (cases "qo_commit store (rv_reserved (hs ! k)) (guard_amount n) s")
      note r = commit_law [OF inv q]
      then have w: "val s' = fst (mem_commit (rv_reserved (hs ! k)) (guard_amount n) (val s))" by simp
      have v: "reservedBytes (val s') = clampNonNegative (reservedBytes (val s) - clampNonNegative (rv_reserved (hs ! k)))"
        "consumedBytes (val s') = consumedBytes (val s) + guard_amount n"
        using c0 by (simp_all add: w mem_commit_def Let_def)
      have st: "quota_step store cap e x = (s', hs[k := (hs ! k)\<lparr> rv_settled := True \<rparr>])"
        using True by (simp add: Commit x reservation_commit_def q)
      note b = settle_balanced [OF assms [unfolded x] _ _ _ v(1)]
      show ?thesis unfolding st using b True r v(2) by (auto simp: Commit x)
    qed
  next
    case (Release k)
    show ?thesis
    proof (cases "k < length hs \<and> \<not> rv_settled (hs ! k)")
      case False
      then have "quota_step store cap e x = x"
        by (auto simp: Release x reservation_release_def)
      then show ?thesis using assms by auto
    next
      case True
      obtain s' c where q: "qo_release store (rv_reserved (hs ! k)) s = (s', c)"
        by (cases "qo_release store (rv_reserved (hs ! k)) s")
      note r = release_law [OF inv q]
      then have w: "val s' = fst (mem_release (rv_reserved (hs ! k)) (val s))" by simp
      have v: "reservedBytes (val s') = clampNonNegative (reservedBytes (val s) - clampNonNegative (rv_reserved (hs ! k)))"
        "consumedBytes (val s') = consumedBytes (val s)"
        by (simp_all add: w mem_release_def Let_def)
      have st: "quota_step store cap e x = (s', hs[k := (hs ! k)\<lparr> rv_settled := True \<rparr>])"
        using True by (simp add: Release x reservation_release_def q)
      note b = settle_balanced [OF assms [unfolded x] _ _ _ v(1)]
      have "0 \<le> rv_reserved (hs ! k)" using nn True by simp
      then show ?thesis unfolding st using b True r v(2) by (auto simp: x)
    qed
  next
    case (Delta n)
    obtain s' c where q: "qo_applyDelta store n s = (s', c)" by (cases "qo_applyDelta store n s")
    note r = delta_law [OF inv q]
    then have w: "val s' = fst (mem_applyDelta n (val s))" by simp
    show ?thesis using r res nn c0
      by (auto simp: Delta x recordDelta_def q balanced_def w mem_applyDelta_def Let_def clampNonNegative_def)
  next
    case (Recount bs)
    show ?thesis
    proof (cases "bucket_total bs")
      case None
      then show ?thesis using assms by (simp add: Recount x reconcileStorageQuota_def)
    next
      case (Some n)
      obtain s' c where q: "qo_reconcile store n s = (s', c)" by (cases "qo_reconcile store n s")
      note r = reconcile_law [OF inv q]
      then have w: "val s' = fst (mem_reconcile n (val s))" by simp
      show ?thesis using r res nn
        by (auto simp: Recount x reconcileStorageQuota_def Some q balanced_def w mem_reconcile_def Let_def)
    qed
  qed
qed

lemma run_ok:
  "balanced x \<Longrightarrow> balanced (quota_run store cap es x)
    \<and> (sized_run store cap es x \<longrightarrow> (\<forall>k. cap = Some k \<longrightarrow>
         consumedBytes (val (fst (quota_run store cap es x))) + reservedBytes (val (fst (quota_run store cap es x)))
           \<le> max k (consumedBytes (val (fst x)) + reservedBytes (val (fst x)))))"
proof (induction es arbitrary: x)
  case (Cons e es)
  from step_ok [OF Cons.prems, of cap e] Cons.IH [of "quota_step store cap e x"] show ?case
    by (auto simp: max_def split: if_splits)
qed simp

lemma admit_sim:
  "inv s \<Longrightarrow> admit store cap n s = (s', r) \<Longrightarrow> inv s' \<and> admit mem_ops cap n (val s) = (val s', r)"
  using reserve_law [of s "guard_amount n" cap]
  by (cases "qo_reserve store (guard_amount n) cap s")
    (auto simp: admit_def mem_ops_def Let_def split: if_splits)

lemma commit_sim:
  "inv s \<Longrightarrow> reservation_commit store n h s = (s', h') \<Longrightarrow>
     inv s' \<and> reservation_commit mem_ops n h (val s) = (val s', h')"
  using commit_law [of s "rv_reserved h" "guard_amount n"]
  by (cases "qo_commit store (rv_reserved h) (guard_amount n) s")
    (auto simp: reservation_commit_def mem_ops_def split: if_splits)

lemma release_sim:
  "inv s \<Longrightarrow> reservation_release store h s = (s', h') \<Longrightarrow>
     inv s' \<and> reservation_release mem_ops h (val s) = (val s', h')"
  using release_law [of s "rv_reserved h"]
  by (cases "qo_release store (rv_reserved h) s")
    (auto simp: reservation_release_def mem_ops_def split: if_splits)

lemma delta_sim: "inv s \<Longrightarrow> inv (recordDelta store n s) \<and> val (recordDelta store n s) = recordDelta mem_ops n (val s)"
  using delta_law [of s n] by (cases "qo_applyDelta store n s") (auto simp: recordDelta_def mem_ops_def)

lemma recount_sim:
  "inv s \<Longrightarrow> inv (fst (reconcileStorageQuota store bs s))
     \<and> val (fst (reconcileStorageQuota store bs s)) = fst (reconcileStorageQuota mem_ops bs (val s))"
  using reconcile_law [of s]
  by (cases "bucket_total bs"; cases "qo_reconcile store (the (bucket_total bs)) s")
    (auto simp: reconcileStorageQuota_def mem_ops_def)

lemma step_sim:
  assumes "inv s" "quota_step store cap e (s, hs) = (s', hs')"
  shows "inv s' \<and> quota_step mem_ops cap e (val s, hs) = (val s', hs')"
proof (cases e)
  case (Admit n)
  obtain t r where a: "admit store cap n s = (t, r)" by (cases "admit store cap n s")
  note b = admit_sim [OF assms(1) a]
  show ?thesis using assms(2) b by (cases r) (auto simp: Admit a)
next
  case (Commit k n)
  obtain t h where a: "reservation_commit store n (hs ! k) s = (t, h)"
    by (cases "reservation_commit store n (hs ! k) s")
  note b = commit_sim [OF assms(1) a]
  show ?thesis using assms b by (auto simp: Commit a split: if_splits)
next
  case (Release k)
  obtain t h where a: "reservation_release store (hs ! k) s = (t, h)"
    by (cases "reservation_release store (hs ! k) s")
  note b = release_sim [OF assms(1) a]
  show ?thesis using assms b by (auto simp: Release a split: if_splits)
next
  case (Delta n)
  show ?thesis using assms(2) delta_sim [OF assms(1)] by (auto simp: Delta)
next
  case (Recount bs)
  show ?thesis using assms(2) recount_sim [OF assms(1)] by (auto simp: Recount)
qed

lemma run_sim:
  "inv s \<Longrightarrow> quota_run mem_ops cap es (val s, hs)
     = (val (fst (quota_run store cap es (s, hs))), snd (quota_run store cap es (s, hs)))"
proof (induction es arbitrary: s hs)
  case (Cons e es)
  obtain s' hs' where q: "quota_step store cap e (s, hs) = (s', hs')"
    by (cases "quota_step store cap e (s, hs)")
  show ?case using step_sim [OF Cons.prems q] Cons.IH [of s' hs'] by (simp add: q)
qed simp

end

interpretation mem: quota_store mem_ops "\<lambda>s. 0 \<le> consumedBytes s \<and> 0 \<le> reservedBytes s" "\<lambda>s. s"
  by unfold_locales (auto simp: mem_ops_def mem_reserve_def mem_commit_def mem_release_def
      mem_applyDelta_def mem_reconcile_def Let_def split: option.splits if_splits)

section \<open>What CouchDB promises\<close>

text \<open>A write is accepted only on the revision it names and is then what a read returns; a
  conflict leaves the database as it was. \<^verbatim>\<open>couch_up\<close>: besides, nothing but a stale revision is
  refused.\<close>

definition couch_atomic :: "'d couch \<Rightarrow> bool" where
  "couch_atomic couch = (\<forall>i body rv d d' res. couch_put couch i body rv d = (d', res) \<longrightarrow> (case res of
       PutOk r \<Rightarrow> rv = map_option sd_rev (couch_get couch i d)
         \<and> couch_get couch i d' = Some \<lparr> sd_rev = r, sd_fields = body \<rparr>
     | PutConflict \<Rightarrow> rv \<noteq> map_option sd_rev (couch_get couch i d) \<and> d' = d
     | PutFailed \<Rightarrow> True))"

definition couch_up :: "'d couch \<Rightarrow> bool" where
  "couch_up couch = (\<forall>i body rv d. snd (couch_put couch i body rv d) \<noteq> PutFailed)"

text \<open>Other writers go through the same database: they never remove the counter, and a
  document they change gets another revision.\<close>

definition well_behaved :: "'d couch \<Rightarrow> string \<Rightarrow> (nat \<Rightarrow> 'd \<Rightarrow> 'd) \<Rightarrow> bool" where
  "well_behaved couch i other = (\<forall>n d cur. couch_get couch i d = Some cur \<longrightarrow>
     (\<exists>cur'. couch_get couch i (other n d) = Some cur' \<and> (sd_rev cur' = sd_rev cur \<longrightarrow> cur' = cur)))"

lemma well_behaved_alone: "well_behaved couch i (\<lambda>n d. d)"
  by (simp add: well_behaved_def)

lemma counterFrom_body [simp]:
  "0 \<le> consumedBytes c \<Longrightarrow> 0 \<le> reservedBytes c \<Longrightarrow> counterFrom (Some \<lparr> sd_rev = r, sd_fields = counter_body c \<rparr>) = c"
  by (cases c) (simp add: counterFrom_def counter_body_def counter_field_def js_of_int_def)

lemma counter_field_nonneg [simp]: "0 \<le> counter_field k fs"
  by (simp add: counter_field_def split: option.splits json.splits jsnum.splits)

lemma counterFrom_nonneg [simp]: "0 \<le> consumedBytes (counterFrom doc)" "0 \<le> reservedBytes (counterFrom doc)"
  by (simp_all add: counterFrom_def split: option.splits)

text \<open>A write that lands is a compare-and-set: the patch was computed from the very document
  that is overwritten.\<close>

lemma update_attempts_lands:
  assumes "couch_atomic couch" "well_behaved couch i other" "couch_get couch i d = Some cur"
    "update_attempts couch other i f n seen d = (d', res, out)"
  shows "case res of
      Updated r \<Rightarrow> (\<exists>dw now. couch_get couch i dw = Some now \<and> out = snd (f now)
          \<and> couch_put couch i (fst (f now)) (Some (sd_rev now)) dw = (d', PutOk r)
          \<and> couch_get couch i d' = Some \<lparr> sd_rev = r, sd_fields = fst (f now) \<rparr>)
    | Missing \<Rightarrow> False | Thrown \<Rightarrow> True"
  using assms(3,4)
proof (induction n arbitrary: seen d cur)
  case (Suc n)
  obtain body rep where f: "f cur = (body, rep)" by (cases "f cur")
  obtain d1 pr where p: "couch_put couch i body (Some (sd_rev cur)) (other n d) = (d1, pr)"
    by (cases "couch_put couch i body (Some (sd_rev cur)) (other n d)")
  obtain now where now: "couch_get couch i (other n d) = Some now" "sd_rev now = sd_rev cur \<longrightarrow> now = cur"
    using assms(2) Suc.prems(1) unfolding well_behaved_def by blast
  note at = assms(1) [unfolded couch_atomic_def, rule_format, OF p]
  show ?case
  proof (cases pr)
    case (PutOk r)
    then have "now = cur" using at now by simp
    then show ?thesis using Suc.prems PutOk at now f p by (auto intro!: exI [of _ "other n d"])
  next
    case PutConflict
    then have "d1 = other n d" using at by simp
    then show ?thesis using Suc.prems Suc.IH [of d1 now rep] PutConflict now f p by simp
  next
    case PutFailed
    then show ?thesis using Suc.prems f p by auto
  qed
qed auto

lemma ensure_present:
  "couch_get couch i d = Some cur \<Longrightarrow> quota_ensure couch i d = (d, counterFrom (Some cur))"
  by (simp add: quota_ensure_def)

lemma mutate_calm:
  assumes at: "couch_atomic couch" and up: "couch_up couch"
    and app: "\<And>c x. 0 \<le> consumedBytes c \<Longrightarrow> 0 \<le> reservedBytes c \<Longrightarrow> app c = Next x \<Longrightarrow>
      0 \<le> consumedBytes x \<and> 0 \<le> reservedBytes x"
  shows "(case app (counterFrom (couch_get couch i d)) of
      Next c \<Rightarrow> \<exists>d'. quota_mutate couch (\<lambda>n d. d) i app d = (d', Some (True, c)) \<and> counterFrom (couch_get couch i d') = c
    | Reject c \<Rightarrow> \<exists>d'. quota_mutate couch (\<lambda>n d. d) i app d = (d', Some (False, c))
        \<and> counterFrom (couch_get couch i d') = counterFrom (couch_get couch i d))"
proof -
  define d0 where "d0 = fst (quota_ensure couch i d)"
  have ex: "\<exists>cur. couch_get couch i d0 = Some cur \<and> counterFrom (Some cur) = counterFrom (couch_get couch i d)"
  proof (cases "couch_get couch i d")
    case (Some cur)
    then show ?thesis by (simp add: d0_def ensure_present)
  next
    case None
    let ?z = "\<lparr> consumedBytes = 0, reservedBytes = 0 \<rparr>"
    obtain d1 pr where p: "couch_put couch i (counter_body ?z) None d = (d1, pr)"
      by (cases "couch_put couch i (counter_body ?z) None d")
    note a = at [unfolded couch_atomic_def, rule_format, OF p]
    have "pr \<noteq> PutFailed" using up p unfolding couch_up_def by (metis snd_conv)
    then have "couch_get couch i d1 \<noteq> None \<and> counterFrom (couch_get couch i d1) = ?z"
      using a None by (cases pr) auto
    moreover have "d0 = d1" by (simp add: d0_def quota_ensure_def None p)
    ultimately show ?thesis by (auto simp: None counterFrom_def)
  qed
  then obtain cur where cur: "couch_get couch i d0 = Some cur"
    "counterFrom (Some cur) = counterFrom (couch_get couch i d)" by blast
  let ?c = "counterFrom (Some cur)"
  let ?f = "apply_mutation app cur"
  obtain d1 pr where p: "couch_put couch i (fst ?f) (Some (sd_rev cur)) d0 = (d1, pr)"
    by (cases "couch_put couch i (fst ?f) (Some (sd_rev cur)) d0")
  note a = at [unfolded couch_atomic_def, rule_format, OF p]
  have "pr \<noteq> PutFailed" using up p unfolding couch_up_def by (metis snd_conv)
  then obtain r where r: "pr = PutOk r" using a cur(1) by (cases pr) auto
  have g: "couch_get couch i d1 = Some \<lparr> sd_rev = r, sd_fields = fst ?f \<rparr>" using a r by simp
  obtain body rep where f: "?f = (body, rep)" by (cases ?f)
  have "update_attempts couch (\<lambda>n d. d) i (apply_mutation app) (Suc n) z d0 = (d1, Updated r, rep)" for n z
    using p r cur(1) f by simp
  then have "quota_mutate couch (\<lambda>n d. d) i app d = (d1, Some (snd ?f))"
    by (simp add: quota_mutate_def d0_def [symmetric] updateWithRetry_def DEFAULT_MAX_ATTEMPTS_def numeral_eq_Suc f)
  then show ?thesis using g app [of ?c] unfolding cur(2) [symmetric]
    by (cases "app ?c") (simp_all add: apply_mutation_def Let_def)
qed

lemma mutate_next:
  assumes "couch_atomic couch" "couch_up couch"
    "\<And>c. 0 \<le> consumedBytes c \<Longrightarrow> 0 \<le> reservedBytes c \<Longrightarrow> 0 \<le> consumedBytes (g c) \<and> 0 \<le> reservedBytes (g c)"
  shows "\<exists>d'. quota_mutate couch (\<lambda>n d. d) i (\<lambda>c. Next (g c)) d = (d', Some (True, g (counterFrom (couch_get couch i d))))
    \<and> counterFrom (couch_get couch i d') = g (counterFrom (couch_get couch i d))"
  using mutate_calm [OF assms(1,2), where app = "\<lambda>c. Next (g c)" and i = i and d = d] assms(3) by auto

lemma reserve_mutation_nonneg:
  "reserve_mutation (clampNonNegative b) cap c = Next x \<Longrightarrow> 0 \<le> consumedBytes c \<Longrightarrow> 0 \<le> reservedBytes c \<Longrightarrow>
     0 \<le> consumedBytes x \<and> 0 \<le> reservedBytes x"
  by (auto simp: reserve_mutation_def Let_def split: option.splits if_splits)

lemma couch_store_correct:
  assumes "couch_atomic couch" "couch_up couch"
  shows "quota_store (couch_ops couch i) (\<lambda>d. True) (\<lambda>d. counterFrom (couch_get couch i d))"
proof
  fix b cap s s' r
  assume q: "qo_reserve (couch_ops couch i) b cap s = (s', r)"
  let ?v = "\<lambda>d. counterFrom (couch_get couch i d)"
  have m: "case reserve_mutation (clampNonNegative b) cap (?v s) of
      Next c \<Rightarrow> \<exists>d'. couch_reserve couch (\<lambda>n d. d) i b cap s = (d', Some (True, c)) \<and> ?v d' = c
    | Reject c \<Rightarrow> \<exists>d'. couch_reserve couch (\<lambda>n d. d) i b cap s = (d', Some (False, c)) \<and> ?v d' = ?v s"
    unfolding couch_reserve_def by (rule mutate_calm [OF assms]) (use reserve_mutation_nonneg in blast)
  show "True \<and> mem_reserve b cap (?v s) = (?v s', r)"
    using m q by (auto simp: couch_ops_def calm_def mem_reserve_def reserve_mutation_def Let_def
        split: option.splits if_splits)
next
  fix rb a s s' c
  assume "qo_commit (couch_ops couch i) rb a s = (s', c)"
  then show "True \<and> mem_commit rb a (counterFrom (couch_get couch i s)) = (counterFrom (couch_get couch i s'), c)"
    using mutate_next [OF assms, where i = i and d = s and g = "\<lambda>cur.
       \<lparr> consumedBytes = clampNonNegative (consumedBytes cur + clampNonNegative a),
       reservedBytes = clampNonNegative (reservedBytes cur - clampNonNegative rb) \<rparr>"]
    by (auto simp: couch_ops_def couch_commit_def calm_def drop_flag_def mem_commit_def Let_def)
next
  fix b s s' c
  assume "qo_release (couch_ops couch i) b s = (s', c)"
  then show "True \<and> mem_release b (counterFrom (couch_get couch i s)) = (counterFrom (couch_get couch i s'), c)"
    using mutate_next [OF assms, where i = i and d = s and g = "\<lambda>cur.
       cur\<lparr> reservedBytes := clampNonNegative (reservedBytes cur - clampNonNegative b) \<rparr>"]
    by (auto simp: couch_ops_def couch_release_def calm_def drop_flag_def mem_release_def Let_def)
next
  fix n s s' c
  assume "qo_applyDelta (couch_ops couch i) n s = (s', c)"
  then show "True \<and> mem_applyDelta n (counterFrom (couch_get couch i s)) = (counterFrom (couch_get couch i s'), c)"
    using mutate_next [OF assms, where i = i and d = s and g = "\<lambda>cur.
       cur\<lparr> consumedBytes := clampNonNegative (consumedBytes cur + n) \<rparr>"]
    by (auto simp: couch_ops_def couch_applyDelta_def calm_def drop_flag_def mem_applyDelta_def Let_def)
next
  fix n s s' c
  assume "qo_reconcile (couch_ops couch i) n s = (s', c)"
  then show "True \<and> mem_reconcile n (counterFrom (couch_get couch i s)) = (counterFrom (couch_get couch i s'), c)"
    using mutate_next [OF assms, where i = i and d = s and g = "\<lambda>cur. cur\<lparr> consumedBytes := clampNonNegative n \<rparr>"]
    by (auto simp: couch_ops_def couch_reconcile_def calm_def drop_flag_def mem_reconcile_def Let_def)
qed simp_all

text \<open>A small database with revisions, on which the promises hold.\<close>

definition map_couch :: "(string \<times> stored_doc) list couch" where
  "map_couch = \<lparr> couch_get = (\<lambda>i d. map_of d i),
     couch_put = (\<lambda>i body rv d. if rv = map_option sd_rev (map_of d i)
        then (let r = CHR ''x'' # coalesce rv '''' in ((i, \<lparr> sd_rev = r, sd_fields = body \<rparr>) # d, PutOk r))
        else (d, PutConflict)) \<rparr>"

lemma map_couch_promises: "couch_atomic map_couch" "couch_up map_couch"
  by (auto simp: couch_atomic_def couch_up_def map_couch_def Let_def split: if_splits)

interpretation mapped: quota_store "couch_ops map_couch i" "\<lambda>d. True" "\<lambda>d. counterFrom (couch_get map_couch i d)" for i
  by (rule couch_store_correct) (rule map_couch_promises)+

text \<open>Whether each of the attempts left is disturbed by a write of somebody else, and the
  database once they have all been.\<close>

fun contended :: "'d couch \<Rightarrow> string \<Rightarrow> (nat \<Rightarrow> 'd \<Rightarrow> 'd) \<Rightarrow> nat \<Rightarrow> 'd \<Rightarrow> bool" where
  "contended couch i other 0 d = True"
| "contended couch i other (Suc n) d =
     (map_option sd_rev (couch_get couch i (other n d)) \<noteq> map_option sd_rev (couch_get couch i d)
      \<and> contended couch i other n (other n d))"

fun disturbed :: "(nat \<Rightarrow> 'd \<Rightarrow> 'd) \<Rightarrow> nat \<Rightarrow> 'd \<Rightarrow> 'd" where
  "disturbed other 0 d = d"
| "disturbed other (Suc n) d = disturbed other n (other n d)"

lemma update_attempts_outcome:
  assumes "couch_atomic couch" "couch_up couch" "well_behaved couch i other" "couch_get couch i d = Some cur"
  shows "if contended couch i other n d
    then fst (update_attempts couch other i f n seen d) = disturbed other n d
      \<and> fst (snd (update_attempts couch other i f n seen d)) = Thrown
    else (\<exists>r. fst (snd (update_attempts couch other i f n seen d)) = Updated r)"
  using assms(4)
proof (induction n arbitrary: seen d cur)
  case (Suc n)
  obtain body rep where f: "f cur = (body, rep)" by (cases "f cur")
  obtain d1 pr where p: "couch_put couch i body (Some (sd_rev cur)) (other n d) = (d1, pr)"
    by (cases "couch_put couch i body (Some (sd_rev cur)) (other n d)")
  obtain now where now: "couch_get couch i (other n d) = Some now" "sd_rev now = sd_rev cur \<longrightarrow> now = cur"
    using assms(3) Suc.prems unfolding well_behaved_def by blast
  note at = assms(1) [unfolded couch_atomic_def, rule_format, OF p]
  have nf: "pr \<noteq> PutFailed" using assms(2) p unfolding couch_up_def by (metis snd_conv)
  have u: "update_attempts couch other i f (Suc n) seen d = (case pr of
      PutOk r \<Rightarrow> (d1, Updated r, rep) | PutConflict \<Rightarrow> update_attempts couch other i f n rep d1
    | PutFailed \<Rightarrow> (d1, Thrown, rep))" using Suc.prems f p by simp
  have c: "contended couch i other (Suc n) d \<longleftrightarrow> sd_rev now \<noteq> sd_rev cur \<and> contended couch i other n (other n d)"
    using Suc.prems now(1) by simp
  show ?case
  proof (cases pr)
    case (PutOk r)
    then have "sd_rev now = sd_rev cur" using at now(1) by simp
    then show ?thesis unfolding u c PutOk by simp
  next
    case PutConflict
    then have d1: "d1 = other n d" "sd_rev now \<noteq> sd_rev cur" using at now(1) by auto
    show ?thesis using Suc.IH [OF now(1), of rep] d1(2) unfolding u c PutConflict by (simp add: d1(1))
  qed (use nf in simp)
qed simp

section \<open>Properties\<close>

text \<open>C9. Over any run of the admission guard on the in-memory counter, in any order of
  admissions, commits, releases, deltas and recounts, the bytes on reserve are exactly those
  of the handles not settled yet (no handle is counted twice, none is lost) and both counters
  stay non-negative; a run whose commits stay within their reservations, with no growth
  beside the guard, never takes the total past the larger of the cap and what was stored at the start.\<close>

theorem quota_reservations_balance:
  assumes "quota_run mem_ops cap es (mem_store c None, []) = (s, hs)"
  shows "reservedBytes s = open_bytes hs \<and> 0 \<le> consumedBytes s \<and> 0 \<le> reservedBytes s
    \<and> (sized_run mem_ops cap es (mem_store c None, []) \<longrightarrow> (\<forall>k. cap = Some k \<longrightarrow>
         consumedBytes s + reservedBytes s \<le> max k (clampNonNegative (coalesce c 0))))"
proof -
  have b: "mem.balanced (mem_store c None, [])"
    by (simp add: mem.balanced_def mem_store_def open_bytes_def)
  have z: "consumedBytes (mem_store c None) + reservedBytes (mem_store c None) = clampNonNegative (coalesce c 0)"
    by (simp add: mem_store_def)
  note r = mem.run_ok [OF b, of cap es, unfolded assms fst_conv z mem.balanced_def snd_conv]
  then show ?thesis by (intro conjI) (elim conjE, assumption)+
qed

definition quota_day :: "quota_event list" where
  "quota_day = [Admit (Some 60), Admit (Some 50), Admit (Some 30), Commit 0 (Some 55), Release 1, Release 1, Admit (Some 7)]"

lemma quota_reservations_balance_witness:
  "quota_run mem_ops (Some 100) quota_day (mem_store (Some 5) None, [])
      = (\<lparr> consumedBytes = 60, reservedBytes = 7 \<rparr>, [\<lparr> rv_reserved = 60, rv_settled = True \<rparr>,
         \<lparr> rv_reserved = 30, rv_settled = True \<rparr>, \<lparr> rv_reserved = 7, rv_settled = False \<rparr>])
    \<and> (7::int) = open_bytes [\<lparr> rv_reserved = 60, rv_settled = True \<rparr>,
         \<lparr> rv_reserved = 30, rv_settled = True \<rparr>, \<lparr> rv_reserved = 7, rv_settled = False \<rparr>]
    \<and> sized_run mem_ops (Some 100) quota_day (mem_store (Some 5) None, []) \<and> (60::int) + 7 \<le> max 100 5"
proof -
  have r: "quota_run mem_ops (Some 100) quota_day (mem_store (Some 5) None, [])
      = (\<lparr> consumedBytes = 60, reservedBytes = 7 \<rparr>, [\<lparr> rv_reserved = 60, rv_settled = True \<rparr>,
         \<lparr> rv_reserved = 30, rv_settled = True \<rparr>, \<lparr> rv_reserved = 7, rv_settled = False \<rparr>])" by code_simp
  have z: "sized_run mem_ops (Some 100) quota_day (mem_store (Some 5) None, [])" by code_simp
  show ?thesis using r z quota_reservations_balance [OF r] by simp
qed



text \<open>The CouchDB reservation is race-safe: whatever other writers do to the counter
  between its read and its write, a reservation that is granted was checked against the very
  total it was added to, and one that is refused leaves that total as it found it.\<close>

theorem couch_reserve_compare_and_set:
  assumes "couch_atomic couch" "well_behaved couch i other" "couch_get couch i d \<noteq> None"
    and "couch_reserve couch other i b (Some k) d = (d', Some (ok, c))"
  shows "\<exists>dw cur body r. couch_get couch i dw = Some cur
    \<and> couch_put couch i body (Some (sd_rev cur)) dw = (d', PutOk r)
    \<and> (if ok then consumedBytes (counterFrom (Some cur)) + reservedBytes (counterFrom (Some cur)) + clampNonNegative b \<le> k
           \<and> consumedBytes c = consumedBytes (counterFrom (Some cur))
           \<and> reservedBytes c = reservedBytes (counterFrom (Some cur)) + clampNonNegative b
       else c = counterFrom (Some cur))
    \<and> counterFrom (couch_get couch i d') = c"
proof -
  let ?f = "apply_mutation (reserve_mutation (clampNonNegative b) (Some k))"
  obtain cur0 where c0: "couch_get couch i d = Some cur0" using assms(3) by blast
  obtain d1 res out where u: "update_attempts couch other i ?f DEFAULT_MAX_ATTEMPTS
      (True, \<lparr> consumedBytes = 0, reservedBytes = 0 \<rparr>) d = (d1, res, out)"
    by (cases "update_attempts couch other i ?f DEFAULT_MAX_ATTEMPTS
      (True, \<lparr> consumedBytes = 0, reservedBytes = 0 \<rparr>) d") auto
  have res: "res \<noteq> Thrown" "d1 = d'" "out = (ok, c)"
    using assms(4) u by (auto simp: couch_reserve_def quota_mutate_def ensure_present [OF c0]
        updateWithRetry_def split: if_splits)
  then obtain r dw now where w: "couch_get couch i dw = Some now" "(ok, c) = snd (?f now)"
      "couch_put couch i (fst (?f now)) (Some (sd_rev now)) dw = (d', PutOk r)"
      "couch_get couch i d' = Some \<lparr> sd_rev = r, sd_fields = fst (?f now) \<rparr>"
    using update_attempts_lands [OF assms(1,2) c0 u] by (cases res) auto
  show ?thesis
    by (rule exI [of _ dw], rule exI [of _ now], rule exI [of _ "fst (?f now)"], rule exI [of _ r])
      (use w in \<open>auto simp: apply_mutation_def reserve_mutation_def Let_def split: if_splits\<close>)
qed

text \<open>Somebody else stores 70 bytes while the first attempt is under way.\<close>

definition busy_once :: "nat \<Rightarrow> (string \<times> stored_doc) list \<Rightarrow> (string \<times> stored_doc) list" where
  "busy_once n d = (if n = 4 then (''q'', \<lparr> sd_rev = CHR ''x'' # coalesce (map_option sd_rev (map_of d ''q'')) [],
     sd_fields = counter_body \<lparr> consumedBytes = 70, reservedBytes = 0 \<rparr> \<rparr>) # d else d)"

definition start_db :: "(string \<times> stored_doc) list" where
  "start_db = [(''q'', \<lparr> sd_rev = ''x'', sd_fields = counter_body \<lparr> consumedBytes = 0, reservedBytes = 0 \<rparr> \<rparr>)]"

lemma busy_once_well_behaved: "well_behaved map_couch ''q'' busy_once"
  by (auto simp: well_behaved_def map_couch_def busy_once_def)

lemma couch_reserve_compare_and_set_witness:
  "\<exists>c. couch_reserve map_couch busy_once ''q'' 60 (Some 100) start_db
      = (fst (couch_reserve map_couch busy_once ''q'' 60 (Some 100) start_db), Some (False, c))
    \<and> counterFrom (couch_get map_couch ''q''
        (fst (couch_reserve map_couch busy_once ''q'' 60 (Some 100) start_db))) = c"
proof -
  have e: "couch_reserve map_couch busy_once ''q'' 60 (Some 100) start_db
      = (fst (couch_reserve map_couch busy_once ''q'' 60 (Some 100) start_db),
         Some (False, \<lparr> consumedBytes = 70, reservedBytes = 0 \<rparr>))" by code_simp
  have p: "couch_get map_couch ''q'' start_db \<noteq> None" by code_simp
  show ?thesis
    using e couch_reserve_compare_and_set [OF map_couch_promises(1) busy_once_well_behaved p e] by blast
qed

text \<open>The read-modify-write loop ends after at most five attempts, and its outcome is
  decided by the interference alone: with a database that only refuses stale revisions, it
  writes exactly when one of its five attempts is left undisturbed, and otherwise throws,
  leaving the database as the other writers made it.\<close>

theorem update_retry_outcome:
  assumes "couch_atomic couch" "couch_up couch" "well_behaved couch i other" "couch_get couch i d \<noteq> None"
  shows "if contended couch i other 5 d
    then fst (updateWithRetry couch other i f seen d) = disturbed other 5 d
      \<and> fst (snd (updateWithRetry couch other i f seen d)) = Thrown
    else (\<exists>r. fst (snd (updateWithRetry couch other i f seen d)) = Updated r)"
proof -
  obtain cur where "couch_get couch i d = Some cur" using assms(4) by blast
  from update_attempts_outcome [OF assms(1-3) this, where n = 5 and f = f and seen = seen]
  show ?thesis unfolding updateWithRetry_def DEFAULT_MAX_ATTEMPTS_def .
qed

lemma update_retry_outcome_witness:
  "\<exists>r. fst (snd (updateWithRetry map_couch busy_once ''q'' (\<lambda>cur. (sd_fields cur, ())) () start_db)) = Updated r"
proof -
  have p: "couch_get map_couch ''q'' start_db \<noteq> None" by code_simp
  have n: "\<not> contended map_couch ''q'' busy_once 5 start_db" by code_simp
  show ?thesis using update_retry_outcome [OF map_couch_promises busy_once_well_behaved p,
      where f = "\<lambda>cur. (sd_fields cur, ())" and seen = "()"] n by simp
qed

text \<open>The reservation fails open: when the counter document does not exist and cannot be
  written, a reservation of any size is granted against any cap, and nothing is recorded.\<close>

theorem couch_reserve_fails_open:
  assumes "couch_get couch i d = None"
    and "couch_put couch i (counter_body \<lparr> consumedBytes = 0, reservedBytes = 0 \<rparr>) None d = (d, PutFailed)"
  shows "couch_reserve couch other i b cap d = (d, Some (True, \<lparr> consumedBytes = 0, reservedBytes = 0 \<rparr>))"
  using assms by (simp add: couch_reserve_def quota_mutate_def quota_ensure_def updateWithRetry_def
      DEFAULT_MAX_ATTEMPTS_def numeral_eq_Suc)

lemma couch_reserve_fails_open_witness:
  "couch_reserve (map_couch\<lparr> couch_put := (\<lambda>i body rv d. (d, PutFailed)) \<rparr>) (\<lambda>n d. d) ''q'' 500 (Some 100) []
     = ([], Some (True, \<lparr> consumedBytes = 0, reservedBytes = 0 \<rparr>))"
  by (rule couch_reserve_fails_open) (simp_all add: map_couch_def)

end
