(* ===== verification/Callback_Queue.thy ===== *)
theory Callback_Queue
  imports Valkey "HOL-Library.List_Lexorder" "HOL-Library.Char_ord" "HOL-Library.Product_Lexorder"
begin

text \<open>
  The queue of encoder completions (\<^verbatim>\<open>src/src/pipeline/encore-callback-poller.ts\<close>: the loop of
  \<^verbatim>\<open>startEncoreCallbackPoller\<close>, \<^verbatim>\<open>requeueOrDeadLetter\<close>, \<^verbatim>\<open>recoverProcessingQueue\<close>, and the
  packager's input queue with \<^verbatim>\<open>purgeStalePackagingJobs\<close>). The store is three sorted sets and
  the hash of failed attempts; every command on it may throw, and the process may die between
  two commands: an event of the loop says where. What a message's handling does is the
  component of the handler; here it returns or throws.

  \<^verbatim>\<open>conserving_steps\<close> is the contract of a queue: a step keeps what is held unless it has an
  excuse. The completion queue and the scaler's job queue are both instances.
\<close>

section \<open>Sorted sets\<close>

type_synonym zset = "(string, int) jsmap"

definition zadd :: "int \<Rightarrow> string \<Rightarrow> zset \<Rightarrow> zset" where
  "zadd score m z = AList.update m score z"

definition zrem :: "string \<Rightarrow> zset \<Rightarrow> zset" where
  "zrem m z = AList.delete m z"

text \<open>The members by score, ties by their bytes.\<close>

definition zrange :: "zset \<Rightarrow> (string \<times> int) list" where
  "zrange z = sort_key (\<lambda>(m, s). (s, m)) z"

definition zpopmin :: "zset \<Rightarrow> (string \<times> int \<times> zset) option" where
  "zpopmin z = (case zrange z of [] \<Rightarrow> None | (m, s) # ms \<Rightarrow> Some (m, s, zrem m z))"

section \<open>The state\<close>

record completion_queue =
  cq_main :: zset
  cq_processing :: zset
  cq_dead :: zset
  cq_attempts :: "(string, int) jsmap"

definition MAX_MESSAGE_ATTEMPTS :: int where "MAX_MESSAGE_ATTEMPTS = 8"
definition MAX_MESSAGE_BACKOFF_MS :: int where "MAX_MESSAGE_BACKOFF_MS = 30000"

definition messageRetryBackoffMs :: "int \<Rightarrow> int" where
  "messageRetryBackoffMs attempt = min MAX_MESSAGE_BACKOFF_MS (1000 * 2 ^ nat (max 0 (attempt - 1)))"

text \<open>The commands up to the one that throws; whether all of them ran.\<close>

definition writes_until :: "nat option \<Rightarrow> ('q \<Rightarrow> 'q) list \<Rightarrow> 'q \<Rightarrow> 'q \<times> bool" where
  "writes_until throwsAt fs q = (case throwsAt of
       None \<Rightarrow> (List.fold (\<lambda>f. f) fs q, True)
     | Some k \<Rightarrow> (List.fold (\<lambda>f. f) (take k fs) q, length fs \<le> k))"

definition requeueOrDeadLetter ::
  "int \<Rightarrow> (int \<Rightarrow> int) \<Rightarrow> int \<Rightarrow> nat option \<Rightarrow> string \<Rightarrow> completion_queue \<Rightarrow> completion_queue \<times> int" where
  "requeueOrDeadLetter maxAttempts backoffFor now throwsAt raw q =
     (let attempt = coalesce (map_of (cq_attempts q) raw) 0 + 1;
          dead = (maxAttempts \<le> attempt);
          backoffMs = backoffFor attempt;
          commands = [(\<lambda>q. q\<lparr> cq_attempts := AList.update raw attempt (cq_attempts q) \<rparr>), (\<lambda>q. q)]
            @ (if dead
               then [(\<lambda>q. q\<lparr> cq_dead := zadd now raw (cq_dead q) \<rparr>),
                     (\<lambda>q. q\<lparr> cq_processing := zrem raw (cq_processing q) \<rparr>),
                     (\<lambda>q. q\<lparr> cq_attempts := AList.delete raw (cq_attempts q) \<rparr>)]
               else [(\<lambda>q. q\<lparr> cq_main := zadd (now + backoffMs) raw (cq_main q) \<rparr>),
                     (\<lambda>q. q\<lparr> cq_processing := zrem raw (cq_processing q) \<rparr>)]);
          (q', completed) = writes_until throwsAt commands q
      in (q', if completed \<and> \<not> dead then backoffMs else backoffFor 1))"

text \<open>What was left in the processing set goes back to the queue with its score.\<close>

fun recover_commands :: "(string \<times> int) list \<Rightarrow> (completion_queue \<Rightarrow> completion_queue) list" where
  "recover_commands [] = []"
| "recover_commands ((m, s) # ms) = (\<lambda>q. q\<lparr> cq_main := zadd s m (cq_main q) \<rparr>)
     # (\<lambda>q. q\<lparr> cq_processing := zrem m (cq_processing q) \<rparr>) # recover_commands ms"

definition recoverProcessingQueue :: "nat option \<Rightarrow> completion_queue \<Rightarrow> completion_queue" where
  "recoverProcessingQueue throwsAt q =
     fst (writes_until throwsAt (recover_commands (zrange (cq_processing q))) q)"

section \<open>One turn of the loop\<close>

datatype death = AfterPop | AfterClaim | AfterHandling

record poll_env =
  pe_now :: int
  pe_popThrows :: bool
  pe_claimThrows :: bool
  pe_handles :: bool
  pe_ackThrows :: bool
  pe_forgetThrows :: bool
  pe_requeueThrowsAt :: "nat option"
  pe_diesAt :: "death option"

datatype poll_outcome = Idle | PopFailed int | Completed string | Retrying string int | Died string

definition poll_once ::
  "int \<Rightarrow> (int \<Rightarrow> int) \<Rightarrow> poll_env \<Rightarrow> completion_queue \<Rightarrow> completion_queue \<times> poll_outcome" where
  "poll_once maxAttempts backoffFor e q =
     (if pe_popThrows e then (q, PopFailed (backoffFor 1))
      else case zpopmin (cq_main q) of
             None \<Rightarrow> (q, Idle)
           | Some (raw, score, rest) \<Rightarrow>
               let q1 = q\<lparr> cq_main := rest \<rparr>;
                   q2 = q1\<lparr> cq_processing := zadd score raw (cq_processing q1) \<rparr>;
                   fails = (\<lambda>p. let (p', b) = requeueOrDeadLetter maxAttempts backoffFor (pe_now e)
                                  (pe_requeueThrowsAt e) raw p in (p', Retrying raw b))
               in if pe_diesAt e = Some AfterPop then (q1, Died raw)
                  else if pe_claimThrows e then fails q1
                  else if pe_diesAt e = Some AfterClaim then (q2, Died raw)
                  else if \<not> pe_handles e then fails q2
                  else if pe_diesAt e = Some AfterHandling then (q2, Died raw)
                  else if pe_ackThrows e then fails q2
                  else let q3 = q2\<lparr> cq_processing := zrem raw (cq_processing q2) \<rparr>
                       in (if pe_forgetThrows e then q3
                           else q3\<lparr> cq_attempts := AList.delete raw (cq_attempts q3) \<rparr>, Completed raw))"

text \<open>The life of the queue: the listener and the sweep push, the loop polls, a restart recovers.\<close>

datatype queue_event = Push string int | Poll poll_env | Restart "nat option"

fun queue_step :: "int \<Rightarrow> (int \<Rightarrow> int) \<Rightarrow> queue_event \<Rightarrow> completion_queue \<Rightarrow> completion_queue" where
  "queue_step mx bf (Push raw score) q = q\<lparr> cq_main := zadd score raw (cq_main q) \<rparr>"
| "queue_step mx bf (Poll e) q = fst (poll_once mx bf e q)"
| "queue_step mx bf (Restart throwsAt) q = recoverProcessingQueue throwsAt q"

section \<open>The packager's queue\<close>

definition purgeStalePackagingJobs :: "int \<Rightarrow> int \<Rightarrow> zset \<Rightarrow> zset" where
  "purgeStalePackagingJobs now staleBoundMs z = filter (\<lambda>(m, score). \<not> score < now - staleBoundMs) z"


section \<open>What a step of a queue promises\<close>

locale conserving_steps =
  fixes step :: "'e \<Rightarrow> 'q \<Rightarrow> 'q" and held :: "'q \<Rightarrow> 'm set" and excuse :: "'e \<Rightarrow> 'q \<Rightarrow> 'm \<Rightarrow> bool"
  assumes kept: "m \<in> held q \<Longrightarrow> \<not> excuse e q m \<Longrightarrow> m \<in> held (step e q)"
begin

primrec run :: "'e list \<Rightarrow> 'q \<Rightarrow> 'q" where
  "run [] q = q"
| "run (e # es) q = run es (step e q)"

lemma run_fold: "run es q = List.fold step es q"
  by (induction es arbitrary: q) simp_all

lemma nothing_lost:
  "m \<in> held q \<Longrightarrow> m \<in> held (run es q) \<or> (\<exists>i<length es. excuse (es ! i) (run (take i es) q) m)"
proof (induction es arbitrary: q)
  case (Cons e es)
  show ?case
  proof (cases "excuse e q m")
    case True
    then show ?thesis by (intro disjI2 exI [of _ 0]) simp
  next
    case False
    from Cons.IH [OF kept [OF Cons.prems False]] show ?thesis
    proof
      assume "\<exists>i<length es. excuse (es ! i) (run (take i es) (step e q)) m"
      then obtain i where "i < length es" "excuse (es ! i) (run (take i es) (step e q)) m" by blast
      then show ?thesis by (intro disjI2 exI [of _ "Suc i"]) simp
    qed simp
  qed
qed simp

end

section \<open>The completion queue keeps its messages\<close>

definition held_messages :: "completion_queue \<Rightarrow> string set" where
  "held_messages q = set (keys (cq_main q)) \<union> set (keys (cq_processing q)) \<union> set (keys (cq_dead q))"

text \<open>The two ways a message leaves the store: it was handled, or the process lost it between
  the pop and the claim (it died, or the claim and the putting back both threw).\<close>

fun message_excuse :: "int \<Rightarrow> (int \<Rightarrow> int) \<Rightarrow> queue_event \<Rightarrow> completion_queue \<Rightarrow> string \<Rightarrow> bool" where
  "message_excuse mx bf (Poll e) q m = (snd (poll_once mx bf e q) = Completed m
     \<or> snd (poll_once mx bf e q) = Died m \<and> pe_diesAt e = Some AfterPop
     \<or> (\<exists>b. snd (poll_once mx bf e q) = Retrying m b) \<and> pe_claimThrows e
         \<and> pe_requeueThrowsAt e \<in> {Some 0, Some 1, Some 2})"
| "message_excuse mx bf (Push raw score) q m = False"
| "message_excuse mx bf (Restart t) q m = False"

lemma zset_keys [simp]: "set (keys (zadd s m z)) = insert m (set (keys z))" "set (keys (zrem m z)) = set (keys z) - {m}"
  by (simp_all add: zadd_def zrem_def)

lemma zpopmin_Some:
  assumes "zpopmin z = Some (m, s, rest)"
  shows "m \<in> set (keys z)" "rest = zrem m z" "(m, s) \<in> set z" "\<forall>(m', s')\<in>set z. (s, m) \<le> (s', m')"
proof -
  obtain ms where ms: "zrange z = (m, s) # ms" and r: "rest = zrem m z"
    using assms by (auto simp: zpopmin_def split: list.splits)
  have "(m, s) \<in> set (zrange z)" by (simp add: ms)
  then show "(m, s) \<in> set z" by (simp add: zrange_def)
  then show "m \<in> set (keys z)" by (force simp: keys_def)
  show "rest = zrem m z" by (rule r)
  have "sorted (List.map (\<lambda>(m, s). (s, m)) (zrange z))" unfolding zrange_def by (rule sorted_sort_key)
  then have "\<forall>x\<in>set ms. (s, m) \<le> (case x of (m', s') \<Rightarrow> (s', m'))" by (simp add: ms)
  moreover have "set z = insert (m, s) (set ms)" using ms by (metis list.simps(15) set_sort zrange_def)
  ultimately show "\<forall>(m', s')\<in>set z. (s, m) \<le> (s', m')" by auto
qed

lemma zpopmin_None: "zpopmin z = None \<longleftrightarrow> z = []"
proof -
  have "zrange z = [] \<longleftrightarrow> z = []" unfolding zrange_def by (metis length_0_conv length_sort)
  then show ?thesis by (auto simp: zpopmin_def split: list.splits)
qed

lemma fold_writes: "List.fold (\<lambda>f. f) (fs @ gs) q = List.fold (\<lambda>f. f) gs (List.fold (\<lambda>f. f) fs q)"
  by simp

lemma zadd_fresh: "k \<notin> set (keys z) \<Longrightarrow> zadd s k z = z @ [(k, s)]"
  unfolding zadd_def by (rule update_absent)

text \<open>Putting a message back keeps every other, and the message itself once it is claimed or
  the put has run.\<close>

lemma requeue_held:
  assumes "requeueOrDeadLetter mx bf now t raw q = (q', b)"
  shows "m \<in> held_messages q \<Longrightarrow> m \<noteq> raw \<Longrightarrow> m \<in> held_messages q'"
    "raw \<in> held_messages q \<or> t \<notin> {Some 0, Some 1, Some 2} \<Longrightarrow> raw \<in> held_messages q'"
    "set (keys (cq_processing q')) \<subseteq> set (keys (cq_processing q))"
proof -
  have take_k: "take k (x # y # z # xs) = (case k of 0 \<Rightarrow> [] | Suc 0 \<Rightarrow> [x] | Suc (Suc 0) \<Rightarrow> [x, y]
      | Suc (Suc (Suc n)) \<Rightarrow> x # y # z # take n xs)" for k and x y z :: 'x and xs
    by (auto split: nat.split)
  have take1: "take n [x] = (if n = 0 then [] else [x])" for n and x :: 'x by (cases n) auto
  have take2: "take n [x, y] = (if n = 0 then [] else if n = 1 then [x] else [x, y])" for n and x y :: 'x
    by (auto simp: take_Cons split: nat.split)
  note d = assms [unfolded requeueOrDeadLetter_def writes_until_def Let_def]
  show "m \<in> held_messages q \<Longrightarrow> m \<noteq> raw \<Longrightarrow> m \<in> held_messages q'"
    "raw \<in> held_messages q \<or> t \<notin> {Some 0, Some 1, Some 2} \<Longrightarrow> raw \<in> held_messages q'"
    "set (keys (cq_processing q')) \<subseteq> set (keys (cq_processing q))"
    using d by (auto simp: held_messages_def take_k take1 take2 split: option.splits if_splits nat.splits)
qed


text \<open>The five ends of a turn that popped a message.\<close>

lemma poll_once_cases:
  assumes "\<not> pe_popThrows e" "zpopmin (cq_main q) = Some (raw, score, rest)"
  defines "q1 \<equiv> q\<lparr> cq_main := rest \<rparr>"
  defines "q2 \<equiv> q1\<lparr> cq_processing := zadd score raw (cq_processing q1) \<rparr>"
  obtains (lost) "poll_once mx bf e q = (q1, Died raw)" "pe_diesAt e = Some AfterPop"
  | (unclaimed) b q' where "poll_once mx bf e q = (q', Retrying raw b)" "pe_claimThrows e"
      "requeueOrDeadLetter mx bf (pe_now e) (pe_requeueThrowsAt e) raw q1 = (q', b)"
  | (dies) "poll_once mx bf e q = (q2, Died raw)"
  | (retried) b q' where "poll_once mx bf e q = (q', Retrying raw b)" "\<not> pe_claimThrows e"
      "requeueOrDeadLetter mx bf (pe_now e) (pe_requeueThrowsAt e) raw q2 = (q', b)"
  | (completed) q' where "poll_once mx bf e q = (q', Completed raw)" "pe_handles e"
      "cq_main q' = rest" "cq_dead q' = cq_dead q" "cq_processing q' = zrem raw (cq_processing q2)"
      "cq_attempts q' = cq_attempts q \<or> cq_attempts q' = AList.delete raw (cq_attempts q)"
proof -
  obtain p1 b1 where r1: "requeueOrDeadLetter mx bf (pe_now e) (pe_requeueThrowsAt e) raw q1 = (p1, b1)"
    by (cases "requeueOrDeadLetter mx bf (pe_now e) (pe_requeueThrowsAt e) raw q1")
  obtain p2 b2 where r2: "requeueOrDeadLetter mx bf (pe_now e) (pe_requeueThrowsAt e) raw q2 = (p2, b2)"
    by (cases "requeueOrDeadLetter mx bf (pe_now e) (pe_requeueThrowsAt e) raw q2")
  note d = poll_once_def [of mx bf e q, unfolded assms(2) option.case prod.case Let_def, folded q1_def, folded q2_def, unfolded r1 r2 prod.case]
  show ?thesis
  proof (cases "pe_diesAt e = Some AfterPop")
    case True then show ?thesis using d assms(1) by (intro lost) simp_all
  next
    case n1: False
    show ?thesis
    proof (cases "pe_claimThrows e")
      case True then show ?thesis using d assms(1) n1 r1 by (intro unclaimed) simp_all
    next
      case n2: False
      show ?thesis
      proof (cases "pe_diesAt e = Some AfterClaim \<or> pe_handles e \<and> pe_diesAt e = Some AfterHandling")
        case True then show ?thesis using d assms(1) n1 n2 by (intro dies) auto
      next
        case n3: False
        show ?thesis
        proof (cases "pe_handles e \<and> \<not> pe_ackThrows e")
          case False then show ?thesis using d assms(1) n1 n2 n3 r2 by (intro retried) auto
        next
          case True
          show ?thesis
          proof (rule completed)
            show "poll_once mx bf e q = ((if pe_forgetThrows e then q2\<lparr> cq_processing := zrem raw (cq_processing q2) \<rparr>
                else q2\<lparr> cq_processing := zrem raw (cq_processing q2), cq_attempts := AList.delete raw
                  (cq_attempts (q2\<lparr> cq_processing := zrem raw (cq_processing q2) \<rparr>)) \<rparr>), Completed raw)"
              using d assms(1) n1 n2 n3 True by auto
          qed (use True in \<open>simp_all add: q1_def q2_def\<close>)
        qed
      qed
    qed
  qed
qed

lemma poll_nothing: "pe_popThrows e \<or> cq_main q = [] \<Longrightarrow> fst (poll_once mx bf e q) = q"
  using zpopmin_None [of "cq_main q"] by (auto simp: poll_once_def)

lemma poll_held:
  assumes m: "m \<in> held_messages q" and x: "\<not> message_excuse mx bf (Poll e) q m"
  shows "m \<in> held_messages (fst (poll_once mx bf e q))"
proof (cases "pe_popThrows e \<or> cq_main q = []")
  case True
  then show ?thesis using m by (simp add: poll_nothing)
next
  case False
  then obtain raw score rest where pop: "zpopmin (cq_main q) = Some (raw, score, rest)"
    using zpopmin_None [of "cq_main q"] by (cases "zpopmin (cq_main q)") auto
  note z = zpopmin_Some(2) [OF pop]
  let ?q1 = "q\<lparr> cq_main := rest \<rparr>"
  let ?q2 = "?q1\<lparr> cq_processing := zadd score raw (cq_processing ?q1) \<rparr>"
  have h1: "m \<noteq> raw \<Longrightarrow> m \<in> held_messages ?q1" and h2: "m \<in> held_messages ?q2" "raw \<in> held_messages ?q2"
    using m z by (auto simp: held_messages_def)
  have np: "\<not> pe_popThrows e" using False by simp
  show ?thesis
  proof (rule poll_once_cases [OF np pop, of mx bf], goal_cases lost unclaimed dies retried completed)
    case lost
    then show ?thesis using x h1 by (cases "m = raw") simp_all
  next
    case (unclaimed b q')
    then show ?thesis using x h1 requeue_held(1) [OF unclaimed(3), of m] requeue_held(2) [OF unclaimed(3)]
      by (cases "m = raw") auto
  next
    case dies
    then show ?thesis using h2 by simp
  next
    case (retried b q')
    then show ?thesis using h2 requeue_held(1) [OF retried(3), of m] requeue_held(2) [OF retried(3)]
      by (cases "m = raw") auto
  next
    case (completed q')
    then show ?thesis using x m z by (auto simp: held_messages_def)
  qed
qed

lemma recover_fold:
  "m \<in> held_messages q \<Longrightarrow> m \<in> held_messages (List.fold (\<lambda>f. f) (take k (recover_commands xs)) q)"
proof (induction xs arbitrary: q k)
  case (Cons x xs)
  obtain a s where x: "x = (a, s)" by (cases x)
  let ?q1 = "q\<lparr> cq_main := zadd s a (cq_main q) \<rparr>"
  let ?q2 = "?q1\<lparr> cq_processing := zrem a (cq_processing ?q1) \<rparr>"
  have h: "m \<in> held_messages ?q1" "m \<in> held_messages ?q2" using Cons.prems by (auto simp: held_messages_def)
  consider "k = 0" | "k = 1" | j where "k = Suc (Suc j)" by (cases k rule: nat.exhaust; cases "k - 1"; auto)
  then show ?case using Cons.prems h Cons.IH [OF h(2)] x by cases simp_all
qed simp

lemma recover_held: "m \<in> held_messages q \<Longrightarrow> m \<in> held_messages (recoverProcessingQueue t q)"
  using recover_fold [of m q "length (recover_commands (zrange (cq_processing q)))" "zrange (cq_processing q)"]
    recover_fold [of m q _ "zrange (cq_processing q)"]
  by (cases t) (simp_all add: recoverProcessingQueue_def writes_until_def)

interpretation completions: conserving_steps "queue_step mx bf" held_messages "message_excuse mx bf" for mx bf
proof
  fix m q e assume "m \<in> held_messages q" "\<not> message_excuse mx bf e q m"
  then show "m \<in> held_messages (queue_step mx bf e q)"
    using poll_held recover_held by (cases e) (auto simp: held_messages_def)
qed

text \<open>The scaler's own queue is another: a claimed entry is put back or was dispatched.\<close>

datatype job_queue_event = Enqueue queue_entry | Claim | PutBack queue_entry | Finish queue_entry

fun job_queue_step :: "job_queue_event \<Rightarrow> scaler \<Rightarrow> scaler" where
  "job_queue_step (Enqueue e) s = lpush_queue e s"
| "job_queue_step Claim s = fst (rpoplpush s)"
| "job_queue_step (PutBack e) s = rpush_queue e (lrem_inflight e s)"
| "job_queue_step (Finish e) s = lrem_inflight e s"

interpretation job_queue: conserving_steps job_queue_step "\<lambda>s. set (entries_of s)" "\<lambda>e s m. e = Finish m"
proof
  fix m :: queue_entry and s and e assume m: "m \<in> set (entries_of s)" "\<not> e = Finish m"
  show "m \<in> set (entries_of (job_queue_step e s))"
  proof (cases e)
    case Claim
    have "set (v_queue s) = insert (last (v_queue s)) (set (butlast (v_queue s)))" if "v_queue s \<noteq> []"
      using that by (metis append_butlast_last_id insert_code(1) list.simps(15) rotate1.simps(2) set_rotate1)
    then show ?thesis using m Claim by (auto simp: entries_of_def rpoplpush_def)
  next
    case (PutBack x)
    then show ?thesis using m by (cases "m = x") (auto simp: entries_of_def rpush_queue_def lrem_inflight_def in_set_remove1)
  next
    case (Finish x)
    then show ?thesis using m by (auto simp: entries_of_def lrem_inflight_def)
  qed (use m in \<open>auto simp: entries_of_def lpush_queue_def\<close>)
qed


section \<open>Retries end\<close>

fun poll_outcomes :: "int \<Rightarrow> (int \<Rightarrow> int) \<Rightarrow> queue_event list \<Rightarrow> completion_queue \<Rightarrow> poll_outcome list" where
  "poll_outcomes mx bf [] q = []"
| "poll_outcomes mx bf (x # xs) q =
     (case x of Poll e \<Rightarrow> [snd (poll_once mx bf e q)] | _ \<Rightarrow> []) @ poll_outcomes mx bf xs (queue_step mx bf x q)"

definition retries_of :: "string \<Rightarrow> poll_outcome list \<Rightarrow> nat" where
  "retries_of raw os = length (filter (\<lambda>x. \<exists>b. x = Retrying raw b) os)"

definition failed_so_far :: "string \<Rightarrow> completion_queue \<Rightarrow> int" where
  "failed_so_far raw q = coalesce (map_of (cq_attempts q) raw) 0"

text \<open>A message still to be tried, the times it may still fail.\<close>

definition waiting :: "string \<Rightarrow> completion_queue \<Rightarrow> bool" where
  "waiting raw q = (raw \<in> set (keys (cq_main q)) \<union> set (keys (cq_processing q)))"

lemma requeue_waiting:
  assumes "requeueOrDeadLetter mx bf now None raw q = (q', b)" "raw \<notin> set (keys (cq_main q))"
  shows "m \<noteq> raw \<Longrightarrow> waiting m q' = waiting m q \<and> failed_so_far m q' = failed_so_far m q"
    "mx \<le> failed_so_far raw q + 1 \<Longrightarrow> \<not> waiting raw q' \<and> raw \<in> set (keys (cq_dead q')) \<and> failed_so_far raw q' = 0"
    "failed_so_far raw q + 1 < mx \<Longrightarrow> waiting raw q' \<and> failed_so_far raw q' = failed_so_far raw q + 1
       \<and> b = bf (failed_so_far raw q + 1) \<and> cq_main q' = zadd (now + b) raw (cq_main q)"
    "set (keys (cq_dead q)) \<subseteq> set (keys (cq_dead q'))"
  using assms by (auto simp: requeueOrDeadLetter_def writes_until_def Let_def waiting_def failed_so_far_def
      AList.delete_conv' coalesce_def split: if_splits)

text \<open>One turn: a failure is one try less, and the last one ends in the dead-letter set.\<close>

definition retry_ok :: "int \<Rightarrow> string \<Rightarrow> completion_queue \<Rightarrow> int \<Rightarrow> completion_queue \<Rightarrow> bool" where
  "retry_ok mx raw q n q' = (if \<not> waiting raw q then n = 0 \<and> \<not> waiting raw q'
     else 0 \<le> n \<and> (waiting raw q' \<and> failed_so_far raw q' = failed_so_far raw q + n \<and> failed_so_far raw q + n < mx
       \<or> \<not> waiting raw q' \<and> (failed_so_far raw q + n < mx \<or> failed_so_far raw q + n = mx \<and> raw \<in> set (keys (cq_dead q')))))"

lemma poll_retry_ok:
  assumes t: "pe_requeueThrowsAt e = None" and w: "waiting raw q \<Longrightarrow> failed_so_far raw q < mx"
  shows "retry_ok mx raw q (if \<exists>b. snd (poll_once mx bf e q) = Retrying raw b then 1 else 0) (fst (poll_once mx bf e q))
    \<and> set (keys (cq_dead q)) \<subseteq> set (keys (cq_dead (fst (poll_once mx bf e q))))"
proof (cases "pe_popThrows e \<or> cq_main q = []")
  case True
  moreover have "snd (poll_once mx bf e q) \<noteq> Retrying raw b" for b
    using True zpopmin_None [of "cq_main q"] by (auto simp: poll_once_def)
  ultimately show ?thesis using w by (simp add: poll_nothing retry_ok_def)
next
  case False
  then obtain m score rest where pop: "zpopmin (cq_main q) = Some (m, score, rest)"
    using zpopmin_None [of "cq_main q"] by (cases "zpopmin (cq_main q)") auto
  note z = zpopmin_Some(1,2) [OF pop]
  let ?q1 = "q\<lparr> cq_main := rest \<rparr>"
  let ?q2 = "?q1\<lparr> cq_processing := zadd score m (cq_processing ?q1) \<rparr>"
  have np: "\<not> pe_popThrows e" using False by simp
  have fresh: "m \<notin> set (keys (cq_main ?q1))" "m \<notin> set (keys (cq_main ?q2))" using z by simp_all
  have same: "failed_so_far x ?q1 = failed_so_far x q" "failed_so_far x ?q2 = failed_so_far x q"
    "raw \<noteq> m \<Longrightarrow> waiting raw ?q1 = waiting raw q" "waiting raw ?q2 = waiting raw q" for x
    using z by (auto simp: failed_so_far_def waiting_def)
  have wm: "waiting m q" using z by (simp add: waiting_def)
  have req: ?thesis
    if out: "poll_once mx bf e q = (q', Retrying m b)" and r: "requeueOrDeadLetter mx bf (pe_now e) None m p = (q', b)"
      and p: "p = ?q1 \<or> p = ?q2" for p q' b
  proof -
    have f: "m \<notin> set (keys (cq_main p))" using p fresh by auto
    have s: "failed_so_far x p = failed_so_far x q" "raw \<noteq> m \<Longrightarrow> waiting raw p = waiting raw q" for x using p same by auto
    have dd: "set (keys (cq_dead q)) \<subseteq> set (keys (cq_dead q'))" using requeue_waiting(4) [OF r f] p by auto
    show ?thesis
    proof (cases "raw = m")
      case True
      then have lt: "failed_so_far m q < mx" using w wm by simp
      show ?thesis
      proof (cases "mx \<le> failed_so_far m q + 1")
        case le: True
        then have "\<not> waiting m q' \<and> m \<in> set (keys (cq_dead q'))" using requeue_waiting(2) [OF r f] s by simp
        then show ?thesis using out dd True wm lt le by (simp add: retry_ok_def)
      next
        case nle: False
        then have "waiting m q' \<and> failed_so_far m q' = failed_so_far m q + 1" using requeue_waiting(3) [OF r f] s by simp
        then show ?thesis using out dd True wm nle by (simp add: retry_ok_def)
      qed
    next
      case neq: False
      have "waiting raw q' = waiting raw q \<and> failed_so_far raw q' = failed_so_far raw q"
        using requeue_waiting(1) [OF r f neq] s(1) [of raw] s(2) [OF neq] by simp
      then show ?thesis using out dd neq w by (simp add: retry_ok_def)
    qed
  qed
  show ?thesis
  proof (rule poll_once_cases [OF np pop, of mx bf], goal_cases lost unclaimed dies retried completed)
    case lost
    have "waiting raw ?q1 \<Longrightarrow> waiting raw q" using z by (auto simp: waiting_def)
    then show ?case using lost w same(1) [of raw] by (auto simp: retry_ok_def)
  next
    case (unclaimed b q')
    show ?case by (rule req [OF unclaimed(1)]) (use unclaimed(3) t in auto)
  next
    case dies
    then show ?case using w same by (simp add: retry_ok_def)
  next
    case (retried b q')
    show ?case by (rule req [OF retried(1)]) (use retried(3) t in auto)
  next
    case (completed q')
    have "raw = m \<Longrightarrow> \<not> waiting raw q'" using completed(3,5) z by (simp add: waiting_def)
    moreover have "raw \<noteq> m \<Longrightarrow> waiting raw q' = waiting raw q" using completed(3,5) z by (auto simp: waiting_def)
    moreover have "raw \<noteq> m \<Longrightarrow> failed_so_far raw q' = failed_so_far raw q" using completed(6) by (auto simp: failed_so_far_def)
    ultimately show ?case using completed w wm by (cases "raw = m") (auto simp: retry_ok_def)
  qed
qed

text \<open>A restart tries again what it finds: nothing waits that did not, and no failure is forgotten.\<close>

lemma recover_fold_waiting:
  assumes "\<forall>x\<in>set xs. waiting (fst x) q"
  shows "cq_dead (List.fold (\<lambda>f. f) (take k (recover_commands xs)) q) = cq_dead q
    \<and> cq_attempts (List.fold (\<lambda>f. f) (take k (recover_commands xs)) q) = cq_attempts q
    \<and> (\<forall>m. waiting m (List.fold (\<lambda>f. f) (take k (recover_commands xs)) q) = waiting m q)"
  using assms
proof (induction xs arbitrary: q k)
  case (Cons x xs)
  obtain a s where x: "x = (a, s)" by (cases x)
  let ?q1 = "q\<lparr> cq_main := zadd s a (cq_main q) \<rparr>"
  let ?q2 = "?q1\<lparr> cq_processing := zrem a (cq_processing ?q1) \<rparr>"
  have "waiting a q" using Cons.prems x by simp
  then have w: "waiting m ?q1 = waiting m q" "waiting m ?q2 = waiting m q" for m by (auto simp: waiting_def)
  then have "\<forall>x\<in>set xs. waiting (fst x) ?q2" using Cons.prems by simp
  note ih = Cons.IH [OF this]
  consider "k = 0" | "k = 1" | j where "k = Suc (Suc j)" by (cases k rule: nat.exhaust; cases "k - 1"; auto)
  then show ?case
  proof cases
    case (3 j)
    then show ?thesis using ih [of j] w x by simp
  qed (use x w in simp_all)
qed simp

lemma zrange_keys: "x \<in> set (zrange z) \<Longrightarrow> fst x \<in> set (keys z)"
  by (simp add: zrange_def keys_def)

lemma recover_retry:
  shows "cq_dead (recoverProcessingQueue t q) = cq_dead q"
    "failed_so_far raw (recoverProcessingQueue t q) = failed_so_far raw q"
    "waiting raw (recoverProcessingQueue t q) = waiting raw q"
proof -
  have w: "\<forall>x\<in>set (zrange (cq_processing q)). waiting (fst x) q" using zrange_keys by (auto simp: waiting_def)
  have e: "recoverProcessingQueue t q = List.fold (\<lambda>f. f) (take (case t of None \<Rightarrow> length (recover_commands (zrange (cq_processing q)))
      | Some k \<Rightarrow> k) (recover_commands (zrange (cq_processing q)))) q"
    by (simp add: recoverProcessingQueue_def writes_until_def split: option.split)
  show "cq_dead (recoverProcessingQueue t q) = cq_dead q"
    "failed_so_far raw (recoverProcessingQueue t q) = failed_so_far raw q"
    "waiting raw (recoverProcessingQueue t q) = waiting raw q"
    unfolding e failed_so_far_def using recover_fold_waiting [OF w] by simp_all
qed

lemma recover_all_fold:
  "set (keys (cq_processing (List.fold (\<lambda>f. f) (recover_commands xs) q))) = set (keys (cq_processing q)) - fst ` set xs"
  by (induction xs arbitrary: q) (simp, force)

lemma recover_empties: "cq_processing (recoverProcessingQueue None q) = []"
proof -
  have "set (keys (cq_processing (recoverProcessingQueue None q))) = {}"
    by (simp add: recoverProcessingQueue_def writes_until_def recover_all_fold) (auto simp: zrange_def keys_def)
  then show ?thesis by (simp add: keys_def)
qed

section \<open>Properties\<close>

text \<open>C14. A completion is not lost: whatever the listener pushes, the loop pops and the restarts
  recover, a message in the store stays in it until a turn handled it, unless one turn lost it
  between its pop and its claim: the process died there, or the claim threw and so did the
  putting back, before its ZADD.\<close>

theorem completions_not_lost:
  assumes "m \<in> held_messages q"
  shows "m \<in> held_messages (List.fold (queue_step mx bf) es q)
    \<or> (\<exists>i<length es. \<exists>e. es ! i = Poll e
        \<and> (let o' = snd (poll_once mx bf e (List.fold (queue_step mx bf) (take i es) q))
           in o' = Completed m \<or> o' = Died m \<and> pe_diesAt e = Some AfterPop
              \<or> (\<exists>b. o' = Retrying m b) \<and> pe_claimThrows e \<and> pe_requeueThrowsAt e \<in> {Some 0, Some 1, Some 2}))"
proof -
  have "\<exists>e. x = Poll e \<and> (let o' = snd (poll_once mx bf e p)
           in o' = Completed m \<or> o' = Died m \<and> pe_diesAt e = Some AfterPop
              \<or> (\<exists>b. o' = Retrying m b) \<and> pe_claimThrows e \<and> pe_requeueThrowsAt e \<in> {Some 0, Some 1, Some 2})"
    if "message_excuse mx bf x p m" for x p
    using that by (cases x) (simp_all add: Let_def)
  with completions.nothing_lost [OF assms, of mx bf es] show ?thesis
    unfolding completions.run_fold by blast
qed

definition quiet_poll :: poll_env where
  "quiet_poll = \<lparr> pe_now = 5000, pe_popThrows = False, pe_claimThrows = False, pe_handles = False, pe_ackThrows = False,
     pe_forgetThrows = False, pe_requeueThrowsAt = None, pe_diesAt = None \<rparr>"

definition sample_queue :: completion_queue where
  "sample_queue = \<lparr> cq_main = [(''a'', 100), (''b'', 200)], cq_processing = [], cq_dead = [], cq_attempts = [(''a'', 6)] \<rparr>"

theorem completions_not_lost_witness:
  "''b'' \<in> held_messages (List.fold (queue_step 8 messageRetryBackoffMs) [] sample_queue)"
  using completions_not_lost [of "''b''" sample_queue 8 messageRetryBackoffMs "[]"]
  by (simp add: sample_queue_def held_messages_def)

lemma retries_bounded:
  assumes "\<forall>x\<in>set es. (\<forall>s. x \<noteq> Push raw s) \<and> (\<forall>e. x = Poll e \<longrightarrow> pe_requeueThrowsAt e = None)"
    "waiting raw q \<longrightarrow> failed_so_far raw q < mx"
  shows "retry_ok mx raw q (int (retries_of raw (poll_outcomes mx bf es q))) (List.fold (queue_step mx bf) es q)
    \<and> set (keys (cq_dead q)) \<subseteq> set (keys (cq_dead (List.fold (queue_step mx bf) es q)))"
  using assms
proof (induction es arbitrary: q)
  case Nil
  then show ?case by (simp add: retries_of_def retry_ok_def)
next
  case (Cons x es)
  let ?q1 = "queue_step mx bf x q"
  let ?n1 = "(case x of Poll e \<Rightarrow> if \<exists>b. snd (poll_once mx bf e q) = Retrying raw b then 1 else 0 | _ \<Rightarrow> 0) :: int"
  have n: "int (retries_of raw (poll_outcomes mx bf (x # es) q)) = ?n1 + int (retries_of raw (poll_outcomes mx bf es ?q1))"
    by (cases x) (simp_all add: retries_of_def)
  have one: "retry_ok mx raw q ?n1 ?q1 \<and> set (keys (cq_dead q)) \<subseteq> set (keys (cq_dead ?q1))"
  proof (cases x)
    case (Push m s)
    then have "m \<noteq> raw" using Cons.prems(1) by auto
    then show ?thesis using Push Cons.prems(2) by (auto simp: retry_ok_def waiting_def failed_so_far_def)
  next
    case (Poll e)
    then have "pe_requeueThrowsAt e = None" using Cons.prems(1) by simp
    from poll_retry_ok [OF this, of raw q mx bf] Poll Cons.prems(2) show ?thesis by simp
  next
    case (Restart t)
    then show ?thesis using Cons.prems(2) recover_retry [where t = t and q = q] by (simp add: retry_ok_def)
  qed
  have "waiting raw ?q1 \<longrightarrow> failed_so_far raw ?q1 < mx" using one by (auto simp: retry_ok_def split: if_splits)
  from Cons.IH [OF _ this] Cons.prems(1)
  have ih: "retry_ok mx raw ?q1 (int (retries_of raw (poll_outcomes mx bf es ?q1))) (List.fold (queue_step mx bf) es ?q1)
    \<and> set (keys (cq_dead ?q1)) \<subseteq> set (keys (cq_dead (List.fold (queue_step mx bf) es ?q1)))" by simp
  show ?case unfolding n using one ih by (auto simp: retry_ok_def split: if_splits)
qed

text \<open>C15. A message that can never be applied does not block the queue for ever: unless it is pushed
  again, its handling fails at most the times that are left to it, over any polls, pushes of
  other messages and restarts, and once they are used up it stands in the dead-letter set (the
  writes that put it back succeeding).\<close>

theorem poison_message_bounded:
  assumes "\<forall>x\<in>set es. (\<forall>s. x \<noteq> Push raw s) \<and> (\<forall>e. x = Poll e \<longrightarrow> pe_requeueThrowsAt e = None)"
    and "failed_so_far raw q < mx"
  shows "int (retries_of raw (poll_outcomes mx bf es q)) \<le> mx - failed_so_far raw q
    \<and> (int (retries_of raw (poll_outcomes mx bf es q)) = mx - failed_so_far raw q
        \<longrightarrow> raw \<in> set (keys (cq_dead (List.fold (queue_step mx bf) es q))))"
  using retries_bounded [OF assms(1), of q mx bf] assms(2) by (auto simp: retry_ok_def split: if_splits)

theorem poison_message_bounded_witness:
  "retries_of ''a'' (poll_outcomes 8 messageRetryBackoffMs [Poll quiet_poll, Poll quiet_poll, Poll quiet_poll] sample_queue) \<le> 2"
proof -
  have "failed_so_far ''a'' sample_queue = 6" by (simp add: failed_so_far_def sample_queue_def coalesce_def)
  with poison_message_bounded [of "[Poll quiet_poll, Poll quiet_poll, Poll quiet_poll]" "''a''" sample_queue 8 messageRetryBackoffMs]
  show ?thesis by (simp add: quiet_poll_def)
qed

text \<open>A failed message goes behind the queue: after a failure whose requeue ran, and before
  the back-off is over, the next pop takes another message if any is due before it.\<close>

theorem failed_message_goes_behind:
  assumes "poll_once mx bf e q = (q', Retrying raw b)" "pe_requeueThrowsAt e = None"
    and "(other, s) \<in> set (cq_main q')" "other \<noteq> raw" "s < pe_now e + b"
  shows "\<exists>m s' rest. zpopmin (cq_main q') = Some (m, s', rest) \<and> m \<noteq> raw \<and> s' \<le> s"
proof -
  have np: "\<not> pe_popThrows e" using assms(1) by (auto simp: poll_once_def split: if_splits)
  have ne: "cq_main q \<noteq> []"
    using assms(1) zpopmin_None [of "cq_main q"] by (auto simp: poll_once_def split: if_splits)
  then obtain m0 score rest where pop: "zpopmin (cq_main q) = Some (m0, score, rest)"
    using zpopmin_None [of "cq_main q"] by (cases "zpopmin (cq_main q)") auto
  have fresh: "m0 \<notin> set (keys rest)" using zpopmin_Some(2) [OF pop] by simp
  obtain m s' rest' where pop': "zpopmin (cq_main q') = Some (m, s', rest')"
    using assms(3) zpopmin_None [of "cq_main q'"] by (cases "zpopmin (cq_main q')") auto
  have le: "(s', m) \<le> (s, other)" using zpopmin_Some(4) [OF pop'] assms(3) by auto
  have own: "x = pe_now e + b" if "(raw, x) \<in> set (cq_main q')" for x
  proof -
    have req: "requeueOrDeadLetter mx bf (pe_now e) None raw p = (q', b) \<Longrightarrow> raw \<notin> set (keys (cq_main p)) \<Longrightarrow> x = pe_now e + b" for p
      using that zadd_fresh [of raw "cq_main p"]
      by (auto simp: requeueOrDeadLetter_def writes_until_def Let_def keys_def image_iff split: if_splits) force+
    show ?thesis
      by (rule poll_once_cases [OF np pop, of mx bf]) (use req assms(1,2) fresh in auto)
  qed
  have "m \<noteq> raw" using own [of s'] zpopmin_Some(3) [OF pop'] le assms(5) by auto
  then show ?thesis using pop' le by auto
qed

theorem failed_message_goes_behind_witness:
  "\<exists>m s' rest. zpopmin (cq_main (fst (poll_once 8 messageRetryBackoffMs quiet_poll sample_queue))) = Some (m, s', rest)
     \<and> m \<noteq> ''a'' \<and> s' \<le> 200"
proof -
  have p: "poll_once 8 messageRetryBackoffMs quiet_poll sample_queue
    = (sample_queue\<lparr> cq_main := [(''b'', 200), (''a'', 35000)], cq_attempts := [(''a'', 7)] \<rparr>, Retrying ''a'' 30000)"
    by code_simp
  have b: "(''b'', 200) \<in> set (cq_main (sample_queue\<lparr> cq_main := [(''b'', 200), (''a'', 35000)], cq_attempts := [(''a'', 7)] \<rparr>))"
    by simp
  show ?thesis unfolding p fst_conv by (rule failed_message_goes_behind [OF p _ b]) (simp_all add: quiet_poll_def)
qed

text \<open>The comment on requeueOrDeadLetter promises that a message whose putting back fails is left
  in the processing set. When the claim itself threw there is no such entry: the pop has taken
  the message from the queue, and after the second failure it is in no set of the store.\<close>

theorem unclaimed_message_is_lost:
  assumes "\<not> pe_popThrows e" "zpopmin (cq_main q) = Some (raw, score, rest)"
    and "raw \<notin> set (keys (cq_processing q))" "raw \<notin> set (keys (cq_dead q))"
    and "pe_diesAt e = None" "pe_claimThrows e" "pe_requeueThrowsAt e = Some 0"
  shows "\<exists>q' b. poll_once mx bf e q = (q', Retrying raw b) \<and> raw \<in> held_messages q \<and> raw \<notin> held_messages q'"
proof (rule poll_once_cases [OF assms(1,2), of mx bf], goal_cases lost unclaimed dies retried completed)
  case (unclaimed b q')
  have "q' = q\<lparr> cq_main := rest \<rparr>" using unclaimed(3) assms(7)
    by (simp add: requeueOrDeadLetter_def writes_until_def Let_def split: if_splits)
  then show ?case using unclaimed(1) zpopmin_Some(1,2) [OF assms(2)] assms(3,4) by (simp add: held_messages_def)
next
  case dies
  then show ?case using assms(5,6,7) assms(1,2) by (auto simp: poll_once_def Let_def split: prod.splits)
qed (use assms in \<open>auto simp: poll_once_def Let_def split: prod.splits\<close>)

theorem unclaimed_message_is_lost_witness:
  "\<exists>q' b. poll_once 8 messageRetryBackoffMs (quiet_poll\<lparr> pe_claimThrows := True, pe_requeueThrowsAt := Some 0 \<rparr>) sample_queue
     = (q', Retrying ''a'' b) \<and> ''a'' \<notin> held_messages q'"
proof -
  have pop: "zpopmin (cq_main sample_queue) = Some (''a'', 100, [(''b'', 200)])" by code_simp
  from unclaimed_message_is_lost [OF _ pop, of "quiet_poll\<lparr> pe_claimThrows := True, pe_requeueThrowsAt := Some 0 \<rparr>" 8 messageRetryBackoffMs]
  show ?thesis by (auto simp: quiet_poll_def sample_queue_def)
qed

end
