(* ===== verification/Progress_Sweep.thy ===== *)
theory Progress_Sweep
  imports Callback_Queue Encore_Edge Job_Claims
begin

text \<open>
  The periodic sweep over the encoders (\<^verbatim>\<open>sweepTerminalJobs\<close> and
  \<^verbatim>\<open>syncInProgressJobProgress\<close> in \<^verbatim>\<open>src/src/pipeline/encore-callback-poller.ts\<close>) and the
  stall detector it feeds (\<^verbatim>\<open>src/src/pipeline/transcode-stall-detector.ts\<close>). The pages of an
  encoder are the argument \<open>fetchPage\<close>, by URL, with \<open>None\<close> for a fetch that throws or is not
  ok; the stalled jobs handed to \<^verbatim>\<open>onTranscodeStalled\<close> are part of the result.
\<close>

section \<open>The stall detector\<close>

definition DEFAULT_TRANSCODE_STALL_TIMEOUT_MS :: int where "DEFAULT_TRANSCODE_STALL_TIMEOUT_MS = 60 * 60000"
definition MIN_ARMED_PROGRESS :: jsnum where "MIN_ARMED_PROGRESS = Fin 1"
definition STALL_TRACKER_TTL_MS :: int where "STALL_TRACKER_TTL_MS = 60 * 60000"

record progress_observation =
  po_externalId :: string
  po_progress :: jsnum

record stall_tracker_entry =
  st_progress :: jsnum
  st_advancedAt :: int
  st_lastSeenAt :: int

record stalled_transcode =
  sl_encoreJobId :: string
  sl_reason :: string

type_synonym stall_tracker = "(string, stall_tracker_entry) jsmap"

definition int_text :: "int \<Rightarrow> string" where
  "int_text n = (if n < 0 then CHR ''-'' # dec (nat (- n)) else dec (nat n))"

text \<open>\<^verbatim>\<open>String(x)\<close>; the text of a number that is no integer is the argument \<open>fraction\<close>.\<close>

fun num_text :: "(rat \<Rightarrow> string) \<Rightarrow> jsnum \<Rightarrow> string" where
  "num_text fraction (Fin q) = (if of_int \<lfloor>q\<rfloor> = q then int_text \<lfloor>q\<rfloor> else fraction q)"
| "num_text fraction NaN = ''NaN''"
| "num_text fraction PInf = ''Infinity''"
| "num_text fraction NInf = ''-Infinity''"

definition round_minutes :: "int \<Rightarrow> int" where
  "round_minutes ms = max 1 ((2 * ms + 60000) div 120000)"

definition EM_DASH :: string where "EM_DASH = [CHR 0xE2, CHR 0x80, CHR 0x94]"

definition buildStallFailureMessage :: "(rat \<Rightarrow> string) \<Rightarrow> jsnum \<Rightarrow> int \<Rightarrow> int \<Rightarrow> string" where
  "buildStallFailureMessage fraction progress stalledForMs stallTimeoutMs =
     TRANSCODE_STALL_SIGNATURE @ '': Encore reported the job IN_PROGRESS but its '' @
     ''progress has not advanced past '' @ num_text fraction progress @ ''% for '' @
     int_text (round_minutes stalledForMs) @ '' minutes '' @
     ''(bound '' @ int_text (round_minutes stallTimeoutMs) @ '' minutes) '' @ EM_DASH @
     '' the encode appears frozen with no error '' @
     ''raised (a source connection dropped mid-encode produces exactly this), so '' @
     ''the attempt is failed here to let the retry policy re-dispatch it''"

definition usable_sample :: "progress_observation \<Rightarrow> bool" where
  "usable_sample ob = (po_externalId ob \<noteq> [] \<and> js_finite (po_progress ob)
     \<and> \<not> js_lt (po_progress ob) MIN_ARMED_PROGRESS)"

definition track_sample ::
  "(rat \<Rightarrow> string) \<Rightarrow> int \<Rightarrow> int \<Rightarrow> progress_observation \<Rightarrow> stall_tracker \<Rightarrow> stall_tracker \<times> stalled_transcode list" where
  "track_sample fraction now stallTimeoutMs ob state =
     (let externalId = po_externalId ob; progress = po_progress ob in
      if \<not> usable_sample ob then (state, [])
      else case map_of state externalId of
             None \<Rightarrow> (AList.update externalId \<lparr> st_progress = progress, st_advancedAt = now, st_lastSeenAt = now \<rparr> state, [])
           | Some previous \<Rightarrow>
               if st_progress previous \<noteq> progress
               then (AList.update externalId \<lparr> st_progress = progress, st_advancedAt = now, st_lastSeenAt = now \<rparr> state, [])
               else let stalledForMs = now - st_advancedAt previous in
                    if stalledForMs \<le> stallTimeoutMs
                    then (AList.update externalId (previous\<lparr> st_lastSeenAt := now \<rparr>) state, [])
                    else (AList.delete externalId state,
                          [\<lparr> sl_encoreJobId = externalId,
                             sl_reason = buildStallFailureMessage fraction progress stalledForMs stallTimeoutMs \<rparr>]))"

fun track_samples ::
  "(rat \<Rightarrow> string) \<Rightarrow> int \<Rightarrow> int \<Rightarrow> progress_observation list \<Rightarrow> stall_tracker \<Rightarrow> stall_tracker \<times> stalled_transcode list" where
  "track_samples fraction now bound [] state = (state, [])"
| "track_samples fraction now bound (ob # obs) state =
     (let (s1, r1) = track_sample fraction now bound ob state;
          (s2, r2) = track_samples fraction now bound obs s1
      in (s2, r1 @ r2))"

definition recordProgressAndDetectStalls ::
  "(rat \<Rightarrow> string) \<Rightarrow> stall_tracker \<Rightarrow> progress_observation list \<Rightarrow> int \<Rightarrow> int
    \<Rightarrow> stall_tracker \<times> stalled_transcode list" where
  "recordProgressAndDetectStalls fraction state observations now stallTimeoutMs =
     (let (state1, stalled) = track_samples fraction now stallTimeoutMs observations state
      in (filter (\<lambda>(k, entry). \<not> STALL_TRACKER_TTL_MS < now - st_lastSeenAt entry) state1, stalled))"

section \<open>Progress of the running jobs\<close>

definition DEFAULT_PROGRESS_WRITE_INTERVAL_MS :: int where "DEFAULT_PROGRESS_WRITE_INTERVAL_MS = 10000"
definition PROGRESS_THROTTLE_TTL_MS :: int where "PROGRESS_THROTTLE_TTL_MS = 60 * 60000"

record progress_throttle_entry =
  th_at :: int
  th_value :: jsnum

text \<open>One document of an encoder's page: its own id, our id, and its progress.\<close>

record page_document =
  pd_id :: "string option"
  pd_externalId :: "string option"
  pd_progress :: "json option"

record sweep_env =
  se_fetchPage :: "string \<Rightarrow> page_document list option"
  se_findThrows :: "string \<Rightarrow> bool"
  se_updateThrows :: "string \<Rightarrow> bool"
  se_redisThrows :: "string \<Rightarrow> bool"
  se_fraction :: "rat \<Rightarrow> string"
  se_now :: int
  se_nowText :: string
  se_progressWriteIntervalMs :: "int option"
  se_transcodeStallTimeoutMs :: "int option"
  se_pageSize :: nat

record sweep_state =
  ws_jobs :: job_repo
  ws_throttle :: "(string, progress_throttle_entry) jsmap"
  ws_stall :: stall_tracker
  ws_queue :: completion_queue
  ws_stalled :: "stalled_transcode list"
  ws_written :: nat

definition progress_patch :: "jsnum \<Rightarrow> update_job_input" where
  "progress_patch p = \<lparr> uj_status = None, uj_progress = Some p, uj_bytesTransferred = None, uj_totalBytes = None,
     uj_attempts = None, uj_error = None, uj_encoreJobId = None, uj_encoreInternalJobId = None, uj_profile = None,
     uj_renditionAssetIds = None, uj_packagingId = None, uj_outputPrefix = None, uj_encodeAttempts = None,
     uj_encodeAttemptLog = None, uj_interrupted = None, uj_interruptionReason = None, uj_droppedByScaler = None,
     uj_droppedThenRecovered = None, uj_correctedDropError = None, uj_lateCompletionDiscarded = None,
     uj_discardedRenditionCount = None, uj_discardedOutputPrefix = None, uj_clearError = None \<rparr>"

text \<open>The sample of a document, when it has an id and a finite number.\<close>

fun page_observation :: "page_document \<Rightarrow> progress_observation option" where
  "page_observation d = (case (pd_externalId d, pd_progress d) of
       (Some x, Some (JNum p)) \<Rightarrow>
         if x = [] \<or> \<not> js_finite p then None else Some \<lparr> po_externalId = x, po_progress = p \<rparr>
     | _ \<Rightarrow> None)"

definition sync_progress :: "sweep_env \<Rightarrow> progress_observation \<Rightarrow> sweep_state \<Rightarrow> sweep_state" where
  "sync_progress e ob s =
     (let x = po_externalId ob; progress = po_progress ob; moment = se_now e;
          intervalMs = coalesce (se_progressWriteIntervalMs e) DEFAULT_PROGRESS_WRITE_INTERVAL_MS;
          previous = map_of (ws_throttle s) x;
          mark = (\<lambda>s. s\<lparr> ws_throttle := AList.update x \<lparr> th_at = moment, th_value = progress \<rparr> (ws_throttle s) \<rparr>)
      in if (case previous of None \<Rightarrow> False | Some p \<Rightarrow> th_value p = progress) then s
         else if (case previous of None \<Rightarrow> False | Some p \<Rightarrow> moment - th_at p < intervalMs) then s
         else if se_findThrows e x then s
         else case findByEncoreJobId (ws_jobs s) x of
                None \<Rightarrow> s
              | Some job \<Rightarrow>
                  if j_status job = JDone \<or> j_status job = JFailed \<or> j_status job = JCancelled then s
                  else if j_progress job = progress then mark s
                  else if se_updateThrows e x then s
                  else (case update_job (j_id job) (progress_patch progress) (se_nowText e) (ws_jobs s) of
                          Inl err \<Rightarrow> s
                        | Inr (repo, _) \<Rightarrow> mark (s\<lparr> ws_jobs := repo, ws_written := ws_written s + 1 \<rparr>)))"

definition search_url :: "instance_record \<Rightarrow> string \<Rightarrow> nat \<Rightarrow> string" where
  "search_url inst status pageSize = strip_slashes (i_url inst) @ ''/encoreJobs/search/findByStatus?status='' @ status
     @ ''&page=0&size='' @ dec pageSize"

definition syncInProgressJobProgress :: "sweep_env \<Rightarrow> instance_record \<Rightarrow> sweep_state \<Rightarrow> sweep_state" where
  "syncInProgressJobProgress e inst s =
     (case se_fetchPage e (search_url inst ''IN_PROGRESS'' (se_pageSize e)) of
        None \<Rightarrow> s
      | Some encoreJobs \<Rightarrow>
          let observations = List.map_filter page_observation encoreJobs;
              s1 = List.fold (sync_progress e) observations s;
              s2 = s1\<lparr> ws_throttle := filter (\<lambda>(k, entry). \<not> PROGRESS_THROTTLE_TTL_MS < se_now e - th_at entry) (ws_throttle s1) \<rparr>;
              (tracker, stalled) = recordProgressAndDetectStalls (se_fraction e) (ws_stall s2) observations (se_now e)
                (coalesce (se_transcodeStallTimeoutMs e) DEFAULT_TRANSCODE_STALL_TIMEOUT_MS)
          in s2\<lparr> ws_stall := tracker, ws_stalled := ws_stalled s2 @ stalled \<rparr>)"

section \<open>The sweep\<close>

definition hex :: "nat \<Rightarrow> char" where
  "hex d = (if d < 10 then char_of (48 + d) else char_of (87 + d))"

definition json_escape :: "char \<Rightarrow> string" where
  "json_escape c = (let n = (of_char c :: nat) in
      if n = 34 then [CHR 0x5C, c] else if n = 92 then [CHR 0x5C, c]
      else if n = 8 then [CHR 0x5C, CHR ''b''] else if n = 9 then [CHR 0x5C, CHR ''t'']
      else if n = 10 then [CHR 0x5C, CHR ''n''] else if n = 12 then [CHR 0x5C, CHR ''f'']
      else if n = 13 then [CHR 0x5C, CHR ''r'']
      else if n < 32 then [CHR 0x5C, CHR ''u'', CHR ''0'', CHR ''0'', hex (n div 16), hex (n mod 16)]
      else [c])"

definition json_quote :: "string \<Rightarrow> string" where
  "json_quote s = CHR 0x22 # concat (List.map json_escape s) @ [CHR 0x22]"

text \<open>\<^verbatim>\<open>JSON.stringify({ jobId, url })\<close>.\<close>

definition completion_message :: "instance_record \<Rightarrow> string \<Rightarrow> string" where
  "completion_message inst uuid = ''{'' @ json_quote ''jobId'' @ '':'' @ json_quote uuid @ '','' @ json_quote ''url'' @ '':''
     @ json_quote (strip_slashes (i_url inst) @ ''/encoreJobs/'' @ uuid) @ ''}''"

definition SWEEP_STATUSES :: "string list" where "SWEEP_STATUSES = [''SUCCESSFUL'', ''FAILED'']"

text \<open>One terminal document; the flag says that a command of the store threw and the sweep is over.\<close>

definition sweep_document :: "sweep_env \<Rightarrow> (string, string) jsmap \<Rightarrow> instance_record \<Rightarrow> page_document
    \<Rightarrow> sweep_state \<Rightarrow> sweep_state \<times> bool" where
  "sweep_document e uuidToExternalId inst d s =
     (if \<not> truthy (pd_id d) then (s, False)
      else let encoreUuid = the (pd_id d) in
      if se_redisThrows e encoreUuid then (s, True)
      else if \<not> truthy (map_of uuidToExternalId encoreUuid) then (s, False)
      else let externalId = the (map_of uuidToExternalId encoreUuid) in
      if se_findThrows e externalId then (s, False)
      else case findByEncoreJobId (ws_jobs s) externalId of
             None \<Rightarrow> (s, False)
           | Some job \<Rightarrow>
               if j_status job = JDone \<or> j_status job = JFailed then (s, False)
               else let message = completion_message inst encoreUuid; q = ws_queue s in
                    if se_redisThrows e message then (s, True)
                    else if map_of (cq_main q) message \<noteq> None \<or> map_of (cq_processing q) message \<noteq> None then (s, False)
                    else (s\<lparr> ws_queue := q\<lparr> cq_main := zadd (se_now e) message (cq_main q) \<rparr> \<rparr>, False))"

fun sweep_documents :: "sweep_env \<Rightarrow> (string, string) jsmap \<Rightarrow> instance_record \<Rightarrow> page_document list
    \<Rightarrow> sweep_state \<Rightarrow> sweep_state \<times> bool" where
  "sweep_documents e m inst [] s = (s, False)"
| "sweep_documents e m inst (d # ds) s =
     (case sweep_document e m inst d s of
        (s', True) \<Rightarrow> (s', True)
      | (s', False) \<Rightarrow> sweep_documents e m inst ds s')"

fun sweep_statuses :: "sweep_env \<Rightarrow> (string, string) jsmap \<Rightarrow> instance_record \<Rightarrow> string list
    \<Rightarrow> sweep_state \<Rightarrow> sweep_state \<times> bool" where
  "sweep_statuses e m inst [] s = (s, False)"
| "sweep_statuses e m inst (status # sts) s =
     (case se_fetchPage e (search_url inst status (se_pageSize e)) of
        None \<Rightarrow> sweep_statuses e m inst sts s
      | Some docs \<Rightarrow>
          (case sweep_documents e m inst docs s of
             (s', True) \<Rightarrow> (s', True)
           | (s', False) \<Rightarrow> sweep_statuses e m inst sts s'))"

fun sweep_instances :: "sweep_env \<Rightarrow> (string, string) jsmap \<Rightarrow> nat option \<Rightarrow> nat \<Rightarrow> pool_entry list
    \<Rightarrow> sweep_state \<Rightarrow> sweep_state" where
  "sweep_instances e m maxInstances scanned [] s = s"
| "sweep_instances e m maxInstances scanned (p # ps) s =
     (if (case maxInstances of None \<Rightarrow> False | Some n \<Rightarrow> n \<le> scanned) then s
      else case p of
             CorruptInstance raw \<Rightarrow> sweep_instances e m maxInstances (scanned + 1) ps s
           | Instance inst \<Rightarrow>
               (case sweep_statuses e m inst SWEEP_STATUSES (syncInProgressJobProgress e inst s) of
                  (s', True) \<Rightarrow> s'
                | (s', False) \<Rightarrow> sweep_instances e m maxInstances (scanned + 1) ps s'))"

text \<open>The pools in the order of their keys, each with its instances (none when its read failed).\<close>

definition sweepTerminalJobs :: "sweep_env \<Rightarrow> (string, string) jsmap \<Rightarrow> bool \<Rightarrow> nat option
    \<Rightarrow> (string, pool_entry) jsmap option list \<Rightarrow> sweep_state \<Rightarrow> sweep_state" where
  "sweepTerminalJobs e uuidToExternalId satFails maxInstances pools s =
     (if pools = [] \<or> satFails then s
      else sweep_instances e uuidToExternalId maxInstances 0 (concat (List.map (\<lambda>p. vals (coalesce p [])) pools)) s)"

section \<open>A stall is a frozen encode\<close>

text \<open>What one id was sampled with, and when, over rounds of observations.\<close>

definition samples_of :: "string \<Rightarrow> (int \<times> progress_observation list) list \<Rightarrow> (int \<times> jsnum) list" where
  "samples_of x rounds = concat (List.map (\<lambda>(now, obs). List.map (\<lambda>ob. (now, po_progress ob))
     (filter (\<lambda>ob. usable_sample ob \<and> po_externalId ob = x) obs)) rounds)"

fun track_rounds :: "(rat \<Rightarrow> string) \<Rightarrow> int \<Rightarrow> (int \<times> progress_observation list) list \<Rightarrow> stall_tracker
    \<Rightarrow> stall_tracker \<times> stalled_transcode list list" where
  "track_rounds fraction bound [] state = (state, [])"
| "track_rounds fraction bound ((now, obs) # rs) state =
     (let (s1, stalled) = recordProgressAndDetectStalls fraction state obs now bound;
          (s2, rest) = track_rounds fraction bound rs s1
      in (s2, stalled # rest))"

lemma samples_of_simps [simp]:
  "samples_of x [] = []"
  "samples_of x ((now, obs) # rs) = List.map (\<lambda>ob. (now, po_progress ob))
     (filter (\<lambda>ob. usable_sample ob \<and> po_externalId ob = x) obs) @ samples_of x rs"
  "samples_of x (rs @ rs') = samples_of x rs @ samples_of x rs'"
  by (simp_all add: samples_of_def)

text \<open>The history behind an entry: it started at some sample and every later one has its value.\<close>

definition explained :: "(string \<Rightarrow> (int \<times> jsnum) list) \<Rightarrow> stall_tracker \<Rightarrow> bool" where
  "explained h state = (distinct (keys state) \<and> (\<forall>x entry. map_of state x = Some entry \<longrightarrow>
     (\<exists>pre mid. h x = pre @ (st_advancedAt entry, st_progress entry) # mid
        \<and> (\<forall>s\<in>set mid. snd s = st_progress entry))))"

definition frozen_at :: "(rat \<Rightarrow> string) \<Rightarrow> int \<Rightarrow> (int \<times> jsnum) list \<Rightarrow> int \<Rightarrow> stalled_transcode \<Rightarrow> bool" where
  "frozen_at fraction bound hist now st = (\<exists>pre t p mid. hist = pre @ (t, p) # mid @ [(now, p)]
     \<and> (\<forall>s\<in>set mid. snd s = p) \<and> bound < now - t \<and> \<not> js_lt p MIN_ARMED_PROGRESS
     \<and> sl_reason st = buildStallFailureMessage fraction p (now - t) bound)"

definition sampled :: "progress_observation \<Rightarrow> int \<Rightarrow> (string \<Rightarrow> (int \<times> jsnum) list) \<Rightarrow> string \<Rightarrow> (int \<times> jsnum) list" where
  "sampled ob now h = (\<lambda>x. h x @ (if usable_sample ob \<and> po_externalId ob = x then [(now, po_progress ob)] else []))"

lemma track_sample_explained:
  assumes ex: "explained h state" and t: "track_sample fraction now bound ob state = (state', stalled)"
  shows "explained (sampled ob now h) state'"
    "st \<in> set stalled \<Longrightarrow> frozen_at fraction bound (sampled ob now h (sl_encoreJobId st)) now st"
proof -
  let ?x = "po_externalId ob" and ?p = "po_progress ob" and ?h = "sampled ob now h"
  have ds: "distinct (keys state)" using ex by (simp add: explained_def)
  have other: "?h y = h y" if "y \<noteq> ?x \<or> \<not> usable_sample ob" for y using that by (auto simp: sampled_def)
  have old: "\<exists>pre mid. ?h y = pre @ (st_advancedAt e, st_progress e) # mid \<and> (\<forall>s\<in>set mid. snd s = st_progress e)"
    if "map_of state y = Some e" "y \<noteq> ?x \<or> \<not> usable_sample ob" for y e
    using ex that other by (simp add: explained_def)
  have "explained ?h state' \<and> (\<forall>st\<in>set stalled. frozen_at fraction bound (?h (sl_encoreJobId st)) now st)"
  proof (cases "usable_sample ob")
    case False
    then have "state' = state" "stalled = []" using t by (simp_all add: track_sample_def)
    then show ?thesis using old False ds by (simp add: explained_def)
  next
    case u: True
    have hx: "?h ?x = h ?x @ [(now, ?p)]" using u by (simp add: sampled_def)
    have fresh: "explained ?h (AList.update ?x \<lparr> st_progress = ?p, st_advancedAt = now, st_lastSeenAt = now \<rparr> state)"
    proof -
      have "\<exists>pre mid. ?h ?x = pre @ (now, ?p) # mid \<and> (\<forall>s\<in>set mid. snd s = ?p)"
        using hx by (intro exI [of _ "h ?x"] exI [of _ "[]"]) simp
      then show ?thesis unfolding explained_def using old ds by (auto split: if_splits)
    qed
    show ?thesis
    proof (cases "map_of state ?x")
      case None
      then show ?thesis using t u fresh by (simp add: track_sample_def)
    next
      case (Some prev)
      show ?thesis
      proof (cases "st_progress prev = ?p")
        case False
        then show ?thesis using t u Some fresh by (simp add: track_sample_def)
      next
        case same: True
        obtain pre mid where hp: "h ?x = pre @ (st_advancedAt prev, ?p) # mid" "\<forall>s\<in>set mid. snd s = ?p"
          using ex [unfolded explained_def, THEN conjunct2, rule_format, OF Some] same by auto
        show ?thesis
        proof (cases "now - st_advancedAt prev \<le> bound")
          case True
          have "state' = AList.update ?x (prev\<lparr> st_lastSeenAt := now \<rparr>) state" "stalled = []"
            using t u Some same True by (simp_all add: track_sample_def Let_def)
          moreover have "\<exists>pre mid. ?h ?x = pre @ (st_advancedAt prev, ?p) # mid \<and> (\<forall>s\<in>set mid. snd s = ?p)"
            using hp hx by (intro exI [of _ pre] exI [of _ "mid @ [(now, ?p)]"]) auto
          ultimately show ?thesis using old same ds by (auto simp: explained_def split: if_splits)
        next
          case late: False
          have out: "state' = AList.delete ?x state" "stalled = [\<lparr> sl_encoreJobId = ?x,
              sl_reason = buildStallFailureMessage fraction ?p (now - st_advancedAt prev) bound \<rparr>]"
            using t u Some same late by (simp_all add: track_sample_def Let_def)
          have "frozen_at fraction bound (?h ?x) now \<lparr> sl_encoreJobId = ?x,
              sl_reason = buildStallFailureMessage fraction ?p (now - st_advancedAt prev) bound \<rparr>"
            unfolding frozen_at_def using hp hx late u
            by (intro exI [of _ pre] exI [of _ "st_advancedAt prev"] exI [of _ ?p] exI [of _ mid])
              (simp add: usable_sample_def)
          then show ?thesis using out old ds by (auto simp: explained_def AList.delete_conv' split: if_splits)
        qed
      qed
    qed
  qed
  then show "explained ?h state'"
    "st \<in> set stalled \<Longrightarrow> frozen_at fraction bound (?h (sl_encoreJobId st)) now st" by blast+
qed

lemma track_samples_explained:
  assumes "explained h state" "track_samples fraction now bound obs state = (state', stalled)"
  shows "explained (\<lambda>x. h x @ samples_of x [(now, obs)]) state'
    \<and> (\<forall>st\<in>set stalled. \<exists>obs1 obs2. obs = obs1 @ obs2
        \<and> frozen_at fraction bound (h (sl_encoreJobId st) @ samples_of (sl_encoreJobId st) [(now, obs1)]) now st)"
  using assms
proof (induction obs arbitrary: h state stalled)
  case Nil
  then show ?case by simp
next
  case (Cons ob obs)
  obtain s1 r1 where one: "track_sample fraction now bound ob state = (s1, r1)"
    by (cases "track_sample fraction now bound ob state")
  obtain r2 where two: "track_samples fraction now bound obs s1 = (state', r2)" and st: "stalled = r1 @ r2"
    using Cons.prems(2) one by (auto split: prod.splits)
  have h1: "sampled ob now h = (\<lambda>x. h x @ samples_of x [(now, [ob])])" by (auto simp: sampled_def)
  have join: "samples_of x [(now, [ob])] @ samples_of x [(now, os)] = samples_of x [(now, ob # os)]" for x os by simp
  note ih = Cons.IH [OF track_sample_explained(1) [OF Cons.prems(1) one] two, unfolded h1 append_assoc join]
  have first: "\<exists>obs1 obs2. ob # obs = obs1 @ obs2
      \<and> frozen_at fraction bound (h (sl_encoreJobId x) @ samples_of (sl_encoreJobId x) [(now, obs1)]) now x" if "x \<in> set r1" for x
    using track_sample_explained(2) [OF Cons.prems(1) one that] unfolding h1
    by (intro exI [of _ "[ob]"] exI [of _ obs]) simp
  have rest: "\<exists>obs1 obs2. ob # obs = obs1 @ obs2
      \<and> frozen_at fraction bound (h (sl_encoreJobId x) @ samples_of (sl_encoreJobId x) [(now, obs1)]) now x" if "x \<in> set r2" for x
  proof -
    from ih that obtain obs1 obs2 where o: "obs = obs1 @ obs2"
      "frozen_at fraction bound (h (sl_encoreJobId x) @ samples_of (sl_encoreJobId x) [(now, ob # obs1)]) now x" by blast
    then show ?thesis by (intro exI [of _ "ob # obs1"] exI [of _ obs2]) simp
  qed
  show ?case using ih first rest by (auto simp only: st set_append Un_iff)
qed

lemma record_explained:
  assumes "explained h state" "recordProgressAndDetectStalls fraction state obs now bound = (state', stalled)"
  shows "explained (\<lambda>x. h x @ samples_of x [(now, obs)]) state'"
    "st \<in> set stalled \<Longrightarrow> \<exists>obs1 obs2. obs = obs1 @ obs2
        \<and> frozen_at fraction bound (h (sl_encoreJobId st) @ samples_of (sl_encoreJobId st) [(now, obs1)]) now st"
proof -
  obtain s1 where t: "track_samples fraction now bound obs state = (s1, stalled)"
    and s: "state' = filter (\<lambda>(k, entry). \<not> STALL_TRACKER_TTL_MS < now - st_lastSeenAt entry) s1"
    using assms(2) by (auto simp: recordProgressAndDetectStalls_def split: prod.splits)
  note e = track_samples_explained [OF assms(1) t]
  have ds: "distinct (keys s1)" using e by (simp add: explained_def)
  have ds': "distinct (keys state')" using ds unfolding s keys_def by (rule distinct_map_filter)
  have d: "map_of s1 x = Some y" if "map_of state' x = Some y" for x y
    using map_of_SomeD [OF that] ds unfolding s keys_def by simp
  show "explained (\<lambda>x. h x @ samples_of x [(now, obs)]) state'"
    using e d ds' by (simp add: explained_def)
  show "st \<in> set stalled \<Longrightarrow> \<exists>obs1 obs2. obs = obs1 @ obs2
        \<and> frozen_at fraction bound (h (sl_encoreJobId st) @ samples_of (sl_encoreJobId st) [(now, obs1)]) now st"
    using e by blast
qed

lemma rounds_explained:
  assumes "explained h state" "track_rounds fraction bound rounds state = (state', res)"
    and "i < length rounds" "st \<in> set (res ! i)"
  shows "\<exists>obs1 obs2. snd (rounds ! i) = obs1 @ obs2 \<and> frozen_at fraction bound
    (h (sl_encoreJobId st) @ samples_of (sl_encoreJobId st) (take i rounds @ [(fst (rounds ! i), obs1)]))
    (fst (rounds ! i)) st"
  using assms
proof (induction rounds arbitrary: h state res i)
  case (Cons r rs)
  obtain now obs where r: "r = (now, obs)" by (cases r)
  obtain s1 r1 where one: "recordProgressAndDetectStalls fraction state obs now bound = (s1, r1)"
    by (cases "recordProgressAndDetectStalls fraction state obs now bound")
  obtain r2 where two: "track_rounds fraction bound rs s1 = (state', r2)" and res: "res = r1 # r2"
    using Cons.prems(2) one r by (auto split: prod.splits)
  note ex1 = record_explained [OF Cons.prems(1) one]
  show ?case
  proof (cases i)
    case 0
    then show ?thesis using ex1(2) Cons.prems(4) res r by simp
  next
    case (Suc j)
    from Cons.IH [OF ex1(1) two, of j] Cons.prems(3,4) Suc res
    show ?thesis by (simp add: r)
  qed
qed simp

lemma track_rounds_length: "track_rounds fraction bound rounds state = (state', res) \<Longrightarrow> length res = length rounds"
proof (induction rounds arbitrary: state res)
  case (Cons r rs)
  then show ?case by (cases r) (auto split: prod.splits)
qed simp

section \<open>A frozen encode is raised\<close>

lemma track_sample_other:
  "po_externalId ob \<noteq> x \<or> \<not> usable_sample ob \<Longrightarrow>
     map_of (fst (track_sample fraction now bound ob state)) x = map_of state x
     \<and> (\<forall>st\<in>set (snd (track_sample fraction now bound ob state)). sl_encoreJobId st \<noteq> x)"
  by (auto simp: track_sample_def Let_def AList.delete_conv' split: option.split)

lemma track_samples_other:
  "\<forall>ob\<in>set obs. po_externalId ob \<noteq> x \<or> \<not> usable_sample ob \<Longrightarrow>
     map_of (fst (track_samples fraction now bound obs state)) x = map_of state x
     \<and> (\<forall>st\<in>set (snd (track_samples fraction now bound obs state)). sl_encoreJobId st \<noteq> x)"
proof (induction obs arbitrary: state)
  case (Cons ob obs)
  obtain s1 r1 where one: "track_sample fraction now bound ob state = (s1, r1)"
    by (cases "track_sample fraction now bound ob state")
  obtain s2 r2 where two: "track_samples fraction now bound obs s1 = (s2, r2)"
    by (cases "track_samples fraction now bound obs s1")
  show ?case using track_sample_other [of ob x fraction now bound state] Cons.IH [of s1] Cons.prems one two by auto
qed simp

lemma track_samples_append:
  "track_samples fraction now bound (obs1 @ obs2) state =
     (let (s1, r1) = track_samples fraction now bound obs1 state;
          (s2, r2) = track_samples fraction now bound obs2 s1 in (s2, r1 @ r2))"
  by (induction obs1 arbitrary: state) (simp_all add: Let_def split: prod.splits)

lemma track_samples_distinct:
  "distinct (keys state) \<Longrightarrow> distinct (keys (fst (track_samples fraction now bound obs state)))"
proof (induction obs arbitrary: state)
  case (Cons ob obs)
  have "distinct (keys (fst (track_sample fraction now bound ob state)))"
    using Cons.prems by (simp add: track_sample_def Let_def split: option.split)
  from Cons.IH [OF this] show ?case by (simp add: case_prod_beta Let_def)
qed simp

definition samples_here :: "string \<Rightarrow> progress_observation list \<Rightarrow> jsnum list" where
  "samples_here x obs = List.map po_progress (filter (\<lambda>ob. usable_sample ob \<and> po_externalId ob = x) obs)"

text \<open>Over rounds of the page, \<open>x\<close> is only ever sampled at \<open>p\<close>, and never goes unseen past the
  tracker's life.\<close>

fun sampled_steadily :: "string \<Rightarrow> jsnum \<Rightarrow> int \<Rightarrow> (int \<times> progress_observation list) list \<Rightarrow> bool" where
  "sampled_steadily x p lastSeen [] = True"
| "sampled_steadily x p lastSeen ((now, obs) # rs) =
     (let lastSeen' = if samples_here x obs = [] then lastSeen else now
      in set (samples_here x obs) \<subseteq> {p} \<and> now - lastSeen' \<le> STALL_TRACKER_TTL_MS \<and> sampled_steadily x p lastSeen' rs)"

definition holds_clock :: "stall_tracker \<Rightarrow> string \<Rightarrow> jsnum \<Rightarrow> int \<Rightarrow> int \<Rightarrow> bool" where
  "holds_clock state x p since seen = (map_of state x = Some \<lparr> st_progress = p, st_advancedAt = since, st_lastSeenAt = seen \<rparr>)"

lemma steady_samples:
  assumes "holds_clock state x p since seen" "set (samples_here x obs) \<subseteq> {p}"
    "track_samples fraction now bound obs state = (state', stalled)" "distinct (keys state)"
  shows "((\<exists>st\<in>set stalled. sl_encoreJobId st = x)
    \<or> holds_clock state' x p since (if samples_here x obs = [] then seen else now)
      \<and> (samples_here x obs \<noteq> [] \<longrightarrow> now - since \<le> bound))
    \<and> distinct (keys state')"
  using assms
proof (induction obs arbitrary: state seen stalled)
  case (Cons ob obs)
  obtain s1 r1 where one: "track_sample fraction now bound ob state = (s1, r1)"
    by (cases "track_sample fraction now bound ob state")
  obtain r2 where two: "track_samples fraction now bound obs s1 = (state', r2)" and r: "stalled = r1 @ r2"
    using Cons.prems(3) one by (auto split: prod.splits)
  have d: "distinct (keys s1)" using one Cons.prems(4)
    by (auto simp: track_sample_def Let_def split: if_splits option.splits)
  have sub: "set (samples_here x obs) \<subseteq> {p}" using Cons.prems(2) by (auto simp: samples_here_def split: if_splits)
  have dist: "distinct (keys state')" using track_samples_distinct [OF d] two by (metis fst_conv)
  show ?case
  proof (cases "usable_sample ob \<and> po_externalId ob = x")
    case False
    then have h: "holds_clock s1 x p since seen"
      using track_sample_other [of ob x fraction now bound state] one Cons.prems(1) by (auto simp: holds_clock_def)
    have "samples_here x (ob # obs) = samples_here x obs" using False by (auto simp: samples_here_def)
    then show ?thesis using Cons.IH [OF h sub two d] r by (simp only: set_append) blast
  next
    case True
    then have p: "po_progress ob = p" using Cons.prems(2) by (simp add: samples_here_def)
    have ne: "samples_here x (ob # obs) \<noteq> []" using True by (simp add: samples_here_def)
    show ?thesis
    proof (cases "now - since \<le> bound")
      case le: True
      then have h: "holds_clock s1 x p since now"
        using one Cons.prems(1) True p by (auto simp: track_sample_def holds_clock_def)
      have "(if samples_here x obs = [] then now else now) = now" by simp
      then show ?thesis using Cons.IH [OF h sub two d] ne le r by (auto simp only: set_append Un_iff if_False)
    next
      case False
      then show ?thesis using one Cons.prems(1) True p r dist by (auto simp: track_sample_def holds_clock_def Let_def)
    qed
  qed
qed (simp add: samples_here_def)

lemma first_sample:
  assumes "map_of state x = None" "set (samples_here x obs) \<subseteq> {p}" "samples_here x obs \<noteq> []" "0 \<le> bound"
    "track_samples fraction now bound obs state = (state', stalled)" "distinct (keys state)"
  shows "((\<exists>st\<in>set stalled. sl_encoreJobId st = x) \<or> holds_clock state' x p now now) \<and> distinct (keys state')"
  using assms
proof (induction obs arbitrary: state stalled)
  case (Cons ob obs)
  obtain s1 r1 where one: "track_sample fraction now bound ob state = (s1, r1)"
    by (cases "track_sample fraction now bound ob state")
  obtain r2 where two: "track_samples fraction now bound obs s1 = (state', r2)" and r: "stalled = r1 @ r2"
    using Cons.prems(5) one by (auto split: prod.splits)
  have d: "distinct (keys s1)" using one Cons.prems(6)
    by (auto simp: track_sample_def Let_def split: if_splits option.splits)
  have sub: "set (samples_here x obs) \<subseteq> {p}" using Cons.prems(2) by (auto simp: samples_here_def split: if_splits)
  show ?case
  proof (cases "usable_sample ob \<and> po_externalId ob = x")
    case False
    then have "map_of s1 x = None"
      using track_sample_other [of ob x fraction now bound state] one Cons.prems(1) by auto
    moreover have "samples_here x obs \<noteq> []" using False Cons.prems(3) by (auto simp: samples_here_def split: if_splits)
    ultimately show ?thesis using Cons.IH [OF _ sub _ Cons.prems(4) two d] r by auto
  next
    case True
    then have p: "po_progress ob = p" using Cons.prems(2) by (simp add: samples_here_def)
    then have "holds_clock s1 x p now now"
      using one Cons.prems(1) True by (auto simp: track_sample_def holds_clock_def)
    from steady_samples [OF this sub two d] r show ?thesis by (auto split: if_splits)
  qed
qed (simp add: samples_here_def)

lemma prune_keeps_clock:
  assumes "recordProgressAndDetectStalls fraction state obs now bound = (state', stalled)"
    "track_samples fraction now bound obs state = (s1, r1)"
  shows "stalled = r1" "distinct (keys s1) \<Longrightarrow> distinct (keys state')"
    "distinct (keys s1) \<Longrightarrow> holds_clock s1 x p since seen \<Longrightarrow> now - seen \<le> STALL_TRACKER_TTL_MS \<Longrightarrow> holds_clock state' x p since seen"
proof -
  have s: "state' = filter (\<lambda>(k, entry). \<not> STALL_TRACKER_TTL_MS < now - st_lastSeenAt entry) s1" "stalled = r1"
    using assms by (auto simp: recordProgressAndDetectStalls_def)
  show "stalled = r1" by (rule s)
  show d: "distinct (keys s1) \<Longrightarrow> distinct (keys state')" unfolding s keys_def by (rule distinct_map_filter)
  show "distinct (keys s1) \<Longrightarrow> holds_clock s1 x p since seen \<Longrightarrow> now - seen \<le> STALL_TRACKER_TTL_MS \<Longrightarrow> holds_clock state' x p since seen"
  proof -
    assume a: "distinct (keys s1)" "holds_clock s1 x p since seen" "now - seen \<le> STALL_TRACKER_TTL_MS"
    have "(x, \<lparr> st_progress = p, st_advancedAt = since, st_lastSeenAt = seen \<rparr>) \<in> set state'"
      using map_of_SomeD [OF a(2) [unfolded holds_clock_def]] a(3) s by simp
    then show ?thesis using d [OF a(1)] by (simp add: holds_clock_def keys_def)
  qed
qed

lemma steady_rounds:
  assumes "holds_clock state x p since seen" "distinct (keys state)" "sampled_steadily x p seen rounds"
    "track_rounds fraction bound rounds state = (state', res)"
    "rounds \<noteq> []" "samples_here x (snd (last rounds)) \<noteq> []" "bound < fst (last rounds) - since"
  shows "\<exists>i<length rounds. \<exists>st\<in>set (res ! i). sl_encoreJobId st = x"
  using assms
proof (induction rounds arbitrary: state seen res)
  case (Cons r rs)
  obtain now obs where r: "r = (now, obs)" by (cases r)
  obtain s1 r1 where one: "recordProgressAndDetectStalls fraction state obs now bound = (s1, r1)"
    by (cases "recordProgressAndDetectStalls fraction state obs now bound")
  obtain r2 where two: "track_rounds fraction bound rs s1 = (state', r2)" and res: "res = r1 # r2"
    using Cons.prems(4) one r by (auto split: prod.splits)
  obtain t1 q1 where tr: "track_samples fraction now bound obs state = (t1, q1)"
    by (cases "track_samples fraction now bound obs state")
  let ?seen = "if samples_here x obs = [] then seen else now"
  have st: "set (samples_here x obs) \<subseteq> {p}" "now - ?seen \<le> STALL_TRACKER_TTL_MS" "sampled_steadily x p ?seen rs"
    using Cons.prems(3) r by (simp_all add: Let_def)
  note ss = steady_samples [OF Cons.prems(1) st(1) tr Cons.prems(2)] and pr = prune_keeps_clock [OF one tr]
  show ?case
  proof (cases "\<exists>st\<in>set r1. sl_encoreJobId st = x")
    case True
    then show ?thesis using res by (intro exI [of _ 0]) simp
  next
    case False
    then have h: "holds_clock t1 x p since ?seen" "samples_here x obs \<noteq> [] \<longrightarrow> now - since \<le> bound" "distinct (keys t1)"
      using ss pr(1) by blast+
    have ne: "rs \<noteq> []" using h(2) Cons.prems(6,7) r by auto
    have "\<exists>i<length rs. \<exists>st\<in>set (r2 ! i). sl_encoreJobId st = x"
      using Cons.IH [OF pr(3) [OF h(3,1) st(2)] pr(2) [OF h(3)] st(3) two ne] Cons.prems(6,7) ne by simp
    then obtain i where "i < length rs" "\<exists>st\<in>set (r2 ! i). sl_encoreJobId st = x" by blast
    then show ?thesis using res by (intro exI [of _ "Suc i"]) simp
  qed
qed simp

section \<open>A sweep only adds\<close>

text \<open>What every step of the sweep keeps: a preorder of the states, and each of its two steps in it.\<close>

locale sweep_order =
  fixes R :: "sweep_state \<Rightarrow> sweep_state \<Rightarrow> bool" and e :: sweep_env and m :: "(string, string) jsmap"
  assumes refl: "R s s" and trans: "R s t \<Longrightarrow> R t u \<Longrightarrow> R s u"
    and progress: "R s (syncInProgressJobProgress e inst s)"
    and document: "R s (fst (sweep_document e m inst d s))"
begin

lemma documents: "R s (fst (sweep_documents e m inst ds s))"
proof (induction ds arbitrary: s)
  case (Cons d ds)
  obtain s' b where d: "sweep_document e m inst d s = (s', b)" by (cases "sweep_document e m inst d s")
  then have "R s s'" using document [of s inst d] by simp
  then show ?case using d trans [OF _ Cons.IH] by (cases b) simp_all
qed (simp add: refl)

lemma statuses: "R s (fst (sweep_statuses e m inst sts s))"
proof (induction sts arbitrary: s)
  case (Cons st sts)
  show ?case
  proof (cases "se_fetchPage e (search_url inst st (se_pageSize e))")
    case (Some docs)
    obtain s' b where d: "sweep_documents e m inst docs s = (s', b)" by (cases "sweep_documents e m inst docs s")
    then have "R s s'" using documents [of s inst docs] by simp
    then show ?thesis using d Some trans [OF _ Cons.IH] by (cases b) simp_all
  qed (simp add: Cons.IH)
qed (simp add: refl)

lemma instances: "R s (sweep_instances e m maxInstances scanned ps s)"
proof (induction ps arbitrary: s scanned)
  case (Cons p ps)
  show ?case
  proof (cases p)
    case (Instance inst)
    obtain s' b where d: "sweep_statuses e m inst SWEEP_STATUSES (syncInProgressJobProgress e inst s) = (s', b)"
      by (cases "sweep_statuses e m inst SWEEP_STATUSES (syncInProgressJobProgress e inst s)")
    then have "R s s'" using trans [OF progress [of s inst] statuses [of _ inst SWEEP_STATUSES]] by simp
    then show ?thesis using d Instance refl trans [OF _ Cons.IH] by (cases b) simp_all
  qed (simp add: Cons.IH refl)
qed (simp add: refl)

lemma sweep: "R s (sweepTerminalJobs e m satFails maxInstances pools s)"
  by (simp add: sweepTerminalJobs_def refl instances)

end

text \<open>The jobs, up to their progress: what the sweep finds them by and decides on.\<close>

definition job_outline :: "job_repo \<Rightarrow> (string \<times> string \<times> job_status \<times> string option) list" where
  "job_outline r = List.map (\<lambda>(k, j). (k, j_id j, j_status j, j_encoreJobId j)) (jobs r)"

definition outline_kept :: "sweep_state \<Rightarrow> sweep_state \<Rightarrow> bool" where
  "outline_kept s s' = (job_outline (ws_jobs s') = job_outline (ws_jobs s)
     \<and> (\<forall>k j. jobs_ok (ws_jobs s) \<longrightarrow> map_of (jobs (ws_jobs s)) k = Some j \<longrightarrow> \<not> isActiveJobStatus (j_status j)
          \<longrightarrow> map_of (jobs (ws_jobs s')) k = Some j)
     \<and> (jobs_ok (ws_jobs s) \<longrightarrow> jobs_ok (ws_jobs s')))"

lemma update_outline:
  "map_of al k = Some v \<Longrightarrow> f (k, v') = f (k, v) \<Longrightarrow> List.map f (AList.update k v' al) = List.map f al"
  by (induction al) (auto split: if_splits)

lemma progress_patch_only:
  assumes "update_job i (progress_patch p) now r = Inr (r', j')"
  shows "r' = r \<or> (\<exists>j. map_of (jobs r) i = Some j
    \<and> r' = put_job i (j\<lparr> j_progress := clampProgress p, j_updatedAt := now \<rparr>) r)"
proof (cases "map_of (jobs r) i")
  case (Some j)
  have "applyJobPatch j (progress_patch p) now = Inr (j\<lparr> j_progress := clampProgress p, j_updatedAt := now \<rparr>)"
    by (simp add: applyJobPatch_def progress_patch_def jset_def job_patch_fields_def Let_def)
  then show ?thesis using assms Some by (auto simp: update_job_def)
qed (use assms in \<open>auto simp: update_job_def\<close>)

text \<open>The queue: what is there stays with its score, what is new is a completion of a job that is
  not yet done or failed and is not being handled.\<close>

definition awaited :: "(string, string) jsmap \<Rightarrow> job_repo \<Rightarrow> string \<Rightarrow> bool" where
  "awaited m r msg = (\<exists>inst uuid x k i st. msg = completion_message inst uuid \<and> map_of m uuid = Some x
     \<and> (k, i, st, Some x) \<in> set (job_outline r) \<and> st \<noteq> JDone \<and> st \<noteq> JFailed)"

definition queue_grows :: "(string, string) jsmap \<Rightarrow> sweep_state \<Rightarrow> sweep_state \<Rightarrow> bool" where
  "queue_grows m s s' = (cq_processing (ws_queue s') = cq_processing (ws_queue s)
     \<and> cq_dead (ws_queue s') = cq_dead (ws_queue s) \<and> cq_attempts (ws_queue s') = cq_attempts (ws_queue s)
     \<and> (\<forall>msg sc. map_of (cq_main (ws_queue s)) msg = Some sc \<longrightarrow> map_of (cq_main (ws_queue s')) msg = Some sc)
     \<and> (\<forall>msg\<in>set (keys (cq_main (ws_queue s'))) - set (keys (cq_main (ws_queue s))).
          msg \<notin> set (keys (cq_processing (ws_queue s))) \<and> awaited m (ws_jobs s) msg))"

lemma found_in_outline:
  assumes "findByEncoreJobId r x = Some j"
  shows "\<exists>k. (k, j_id j, j_status j, Some x) \<in> set (job_outline r)" "j \<in> set (vals (jobs r))" "j_encoreJobId j = Some x"
proof -
  show j: "j \<in> set (vals (jobs r))" "j_encoreJobId j = Some x"
    using assms by (auto simp: findByEncoreJobId_def find_Some_iff)
  then show "\<exists>k. (k, j_id j, j_status j, Some x) \<in> set (job_outline r)"
    by (force simp: job_outline_def vals_def)
qed

lemma sync_progress_outline: "outline_kept s (sync_progress e ob s) \<and> ws_queue (sync_progress e ob s) = ws_queue s"
proof -
  let ?x = "po_externalId ob" and ?p = "po_progress ob"
  have same: "outline_kept s s'" if "ws_jobs s' = ws_jobs s" for s' using that by (simp add: outline_kept_def)
  show ?thesis
  proof (cases "\<exists>j. findByEncoreJobId (ws_jobs s) ?x = Some j \<and> isActiveJobStatus (j_status j)")
    case False
    then have "ws_jobs (sync_progress e ob s) = ws_jobs s" "ws_queue (sync_progress e ob s) = ws_queue s"
      by (auto simp: sync_progress_def Let_def isActiveJobStatus_def ACTIVE_JOB_STATUSES_def TERMINAL_JOB_STATUSES_def
          split: option.split) (metis job_status.exhaust)+
    then show ?thesis using same by simp
  next
    case True
    then obtain j where j: "findByEncoreJobId (ws_jobs s) ?x = Some j" "isActiveJobStatus (j_status j)" by blast
    show ?thesis
    proof (cases "update_job (j_id j) (progress_patch ?p) (se_nowText e) (ws_jobs s)")
      case (Inl err)
      then show ?thesis using j same by (auto simp: sync_progress_def Let_def split: option.split)
    next
      case (Inr q)
      obtain r' jo where q: "q = (r', jo)" by (cases q)
      have cases: "ws_jobs (sync_progress e ob s) = ws_jobs s \<or> ws_jobs (sync_progress e ob s) = r'"
        "ws_queue (sync_progress e ob s) = ws_queue s"
        using j Inr q by (auto simp: sync_progress_def Let_def split: option.split)
      from progress_patch_only [OF Inr [unfolded q]] consider "r' = ws_jobs s"
        | jj where "map_of (jobs (ws_jobs s)) (j_id j) = Some jj"
          "r' = put_job (j_id j) (jj\<lparr> j_progress := clampProgress ?p, j_updatedAt := se_nowText e \<rparr>) (ws_jobs s)" by blast
      then have "outline_kept s s'" if "ws_jobs s' = r'" for s'
      proof cases
        case 2
        have mem: "j_id j \<in> set (keys (jobs (ws_jobs s)))" using 2(1) by (force simp: keys_def dest: map_of_SomeD)
        have o: "job_outline r' = job_outline (ws_jobs s)"
          unfolding 2 job_outline_def put_job_def by (simp add: update_outline [OF 2(1)])
        have eq: "jj = j" if ok: "jobs_ok (ws_jobs s)"
        proof -
          obtain k where "(k, j) \<in> set (jobs (ws_jobs s))" using found_in_outline(2) [OF j(1)] by (auto simp: vals_def)
          then have "map_of (jobs (ws_jobs s)) k = Some j" using ok by (simp add: jobs_ok_def keys_def)
          moreover from this have "j_id j = k" using ok by (auto simp: jobs_ok_def)
          ultimately show ?thesis using 2(1) by simp
        qed
        have ok': "jobs_ok (ws_jobs s) \<longrightarrow> jobs_ok r'"
          using 2 mem by (auto simp: jobs_ok_def put_job_def)
        show ?thesis unfolding outline_kept_def that using o ok' 2 eq j(2) by (auto simp: put_job_def)
      qed (simp add: that outline_kept_def)
      then show ?thesis using cases same by metis
    qed
  qed
qed

lemma outline_kept_trans: "outline_kept s t \<Longrightarrow> outline_kept t u \<Longrightarrow> outline_kept s u"
  by (simp add: outline_kept_def)

lemma sync_outline:
  "outline_kept s (syncInProgressJobProgress e inst s) \<and> ws_queue (syncInProgressJobProgress e inst s) = ws_queue s"
proof (cases "se_fetchPage e (search_url inst ''IN_PROGRESS'' (se_pageSize e))")
  case (Some docs)
  have f: "outline_kept s (List.fold (sync_progress e) obs s) \<and> ws_queue (List.fold (sync_progress e) obs s) = ws_queue s" for obs s
  proof (induction obs arbitrary: s)
    case (Cons ob obs)
    then show ?case using sync_progress_outline [of s e ob] outline_kept_trans by auto
  qed (simp add: outline_kept_def)
  have "ws_jobs (syncInProgressJobProgress e inst s) = ws_jobs (List.fold (sync_progress e) (List.map_filter page_observation docs) s)"
    "ws_queue (syncInProgressJobProgress e inst s) = ws_queue (List.fold (sync_progress e) (List.map_filter page_observation docs) s)"
    using Some by (simp_all add: syncInProgressJobProgress_def Let_def case_prod_beta)
  then show ?thesis using f by (simp add: outline_kept_def)
qed (simp add: syncInProgressJobProgress_def outline_kept_def)

lemma sweep_document_cases:
  obtains (unchanged) b where "sweep_document e m inst d s = (s, b)"
  | (queued) uuid x job where "pd_id d = Some uuid" "map_of m uuid = Some x" "findByEncoreJobId (ws_jobs s) x = Some job"
      "j_status job \<noteq> JDone" "j_status job \<noteq> JFailed"
      "completion_message inst uuid \<notin> set (keys (cq_main (ws_queue s)))"
      "completion_message inst uuid \<notin> set (keys (cq_processing (ws_queue s)))"
      "sweep_document e m inst d s = (s\<lparr> ws_queue := (ws_queue s)\<lparr> cq_main := zadd (se_now e) (completion_message inst uuid) (cq_main (ws_queue s)) \<rparr> \<rparr>, False)"
proof (cases "\<exists>b. sweep_document e m inst d s = (s, b)")
  case False
  then have t: "truthy (pd_id d)" "truthy (map_of m (the (pd_id d)))"
    by (auto simp: sweep_document_def Let_def split: if_splits)
  then obtain uuid x where u: "pd_id d = Some uuid" "map_of m uuid = Some x"
    by (cases "pd_id d"; cases "map_of m (the (pd_id d))") (auto simp: truthy_def)
  obtain job where j: "findByEncoreJobId (ws_jobs s) x = Some job"
    using False u by (cases "findByEncoreJobId (ws_jobs s) x") (auto simp: sweep_document_def Let_def split: if_splits)
  show thesis using False u j t
    by (intro queued) (auto simp: sweep_document_def Let_def map_of_None_iff_keys split: if_splits)
qed (use unchanged in blast)

definition sweep_kept :: "(string, string) jsmap \<Rightarrow> sweep_state \<Rightarrow> sweep_state \<Rightarrow> bool" where
  "sweep_kept m s s' = (outline_kept s s' \<and> queue_grows m s s')"

lemma queue_grows_trans:
  assumes o: "job_outline (ws_jobs t) = job_outline (ws_jobs s)" and "queue_grows m s t" "queue_grows m t u"
  shows "queue_grows m s u"
proof -
  note d = assms(2,3) [unfolded queue_grows_def]
  have same: "cq_processing (ws_queue u) = cq_processing (ws_queue s)" "cq_processing (ws_queue t) = cq_processing (ws_queue s)"
    using d by simp_all
  have aw: "awaited m (ws_jobs t) = awaited m (ws_jobs s)" using o by (simp add: awaited_def fun_eq_iff)
  have "msg \<notin> set (keys (cq_processing (ws_queue s))) \<and> awaited m (ws_jobs s) msg"
    if "msg \<in> set (keys (cq_main (ws_queue u))) - set (keys (cq_main (ws_queue s)))" for msg
  proof (cases "msg \<in> set (keys (cq_main (ws_queue t)))")
    case True
    then have "msg \<in> set (keys (cq_main (ws_queue t))) - set (keys (cq_main (ws_queue s)))" using that by simp
    with d(1) show ?thesis by blast
  next
    case False
    then have "msg \<in> set (keys (cq_main (ws_queue u))) - set (keys (cq_main (ws_queue t)))" using that by simp
    with d(2) show ?thesis unfolding aw same by blast
  qed
  then show ?thesis unfolding queue_grows_def using d by simp
qed

interpretation sweeps: sweep_order "sweep_kept m" e m for m e
proof
  show "sweep_kept m s s" for s by (simp add: sweep_kept_def outline_kept_def queue_grows_def)
  show "sweep_kept m s u" if "sweep_kept m s t" "sweep_kept m t u" for s t u
    using that outline_kept_trans queue_grows_trans [of t s m u] unfolding sweep_kept_def outline_kept_def by blast
  show "sweep_kept m s (syncInProgressJobProgress e inst s)" for s inst
    using sync_outline [of s e inst] by (simp add: sweep_kept_def queue_grows_def)
  show "sweep_kept m s (fst (sweep_document e m inst d s))" for s inst d
  proof (rule sweep_document_cases [of e m inst d s])
    fix uuid x job
    assume a: "map_of m uuid = Some x" "findByEncoreJobId (ws_jobs s) x = Some job" "j_status job \<noteq> JDone" "j_status job \<noteq> JFailed"
      "completion_message inst uuid \<notin> set (keys (cq_main (ws_queue s)))"
      "completion_message inst uuid \<notin> set (keys (cq_processing (ws_queue s)))"
      "sweep_document e m inst d s = (s\<lparr> ws_queue := (ws_queue s)\<lparr> cq_main := zadd (se_now e) (completion_message inst uuid) (cq_main (ws_queue s)) \<rparr> \<rparr>, False)"
    obtain k where k: "(k, j_id job, j_status job, Some x) \<in> set (job_outline (ws_jobs s))" using found_in_outline(1) [OF a(2)] by blast
    have "map_of (cq_main (ws_queue s)) (completion_message inst uuid) = None" using a(5) by (simp add: map_of_None_iff_keys)
    moreover have "awaited m (ws_jobs s) (completion_message inst uuid)" using a k unfolding awaited_def by blast
    ultimately show ?thesis unfolding a(7) sweep_kept_def
      using a(6) by (auto simp: outline_kept_def queue_grows_def zadd_def)
  qed (simp add: sweep_kept_def outline_kept_def queue_grows_def)
qed

lemma outline_find:
  assumes "job_outline r' = job_outline r" "findByEncoreJobId r x = Some j"
  shows "\<exists>j'. findByEncoreJobId r' x = Some j' \<and> j_status j' = j_status j"
  using assms
proof -
  have f: "map_option j_status (find (\<lambda>j. j_encoreJobId j = Some x) (List.map snd al))
      = map_option (\<lambda>(k, i, st, y). st) (find (\<lambda>(k, i, st, y). y = Some x) (List.map (\<lambda>(k, j). (k, j_id j, j_status j, j_encoreJobId j)) al))"
    for al :: "(string \<times> job) list" by (induction al) auto
  then have "map_option j_status (findByEncoreJobId r' x) = map_option j_status (findByEncoreJobId r x)"
    using assms(1) f [of "jobs r"] f [of "jobs r'"] by (simp add: findByEncoreJobId_def vals_def job_outline_def)
  then show ?thesis using assms(2) by (cases "findByEncoreJobId r' x") auto
qed

definition queued_or_processing :: "string \<Rightarrow> sweep_state \<Rightarrow> bool" where
  "queued_or_processing msg s = (msg \<in> set (keys (cq_main (ws_queue s))) \<union> set (keys (cq_processing (ws_queue s))))"

lemma kept_queued: "sweep_kept m s s' \<Longrightarrow> queued_or_processing msg s \<Longrightarrow> queued_or_processing msg s'"
  unfolding sweep_kept_def queue_grows_def queued_or_processing_def
  by (metis UnE UnI1 UnI2 map_of_None_iff_keys not_None_eq)

lemma sweep_document_total:
  "(\<And>x. \<not> se_redisThrows e x) \<Longrightarrow> \<not> snd (sweep_document e m inst d s)"
  by (simp add: sweep_document_def Let_def split: option.split)

lemma sweep_documents_total:
  "(\<And>x. \<not> se_redisThrows e x) \<Longrightarrow> \<not> snd (sweep_documents e m inst ds s)"
proof (induction ds arbitrary: s)
  case (Cons d ds)
  obtain s' where "sweep_document e m inst d s = (s', False)"
    using sweep_document_total [of e m inst d s] Cons.prems by (cases "sweep_document e m inst d s") auto
  then show ?case using Cons by simp
qed simp

lemma sweep_statuses_total:
  "(\<And>x. \<not> se_redisThrows e x) \<Longrightarrow> \<not> snd (sweep_statuses e m inst sts s)"
proof (induction sts arbitrary: s)
  case (Cons st sts)
  show ?case
  proof (cases "se_fetchPage e (search_url inst st (se_pageSize e))")
    case (Some docs)
    obtain s' where "sweep_documents e m inst docs s = (s', False)"
      using sweep_documents_total [of e m inst docs s] Cons.prems by (cases "sweep_documents e m inst docs s") auto
    then show ?thesis using Some Cons by simp
  qed (use Cons in simp)
qed simp

text \<open>A job that is waiting, as any later state of the sweep still sees it.\<close>

definition unreconciled :: "string \<Rightarrow> sweep_state \<Rightarrow> bool" where
  "unreconciled x s = (\<exists>j. findByEncoreJobId (ws_jobs s) x = Some j \<and> j_status j \<noteq> JDone \<and> j_status j \<noteq> JFailed)"

lemma kept_unreconciled: "sweep_kept m s s' \<Longrightarrow> unreconciled x s \<Longrightarrow> unreconciled x s'"
  unfolding sweep_kept_def outline_kept_def unreconciled_def using outline_find by metis

text \<open>Our document, on a store whose commands answer.\<close>

definition our_document :: "sweep_env \<Rightarrow> (string, string) jsmap \<Rightarrow> page_document \<Rightarrow> string \<Rightarrow> string \<Rightarrow> bool" where
  "our_document e m d uuid x = ((\<forall>y. \<not> se_redisThrows e y) \<and> (\<forall>y. \<not> se_findThrows e y)
     \<and> pd_id d = Some uuid \<and> uuid \<noteq> [] \<and> map_of m uuid = Some x \<and> x \<noteq> [])"

lemma document_reached:
  assumes "our_document e m d uuid x" "unreconciled x s"
  shows "queued_or_processing (completion_message inst uuid) (fst (sweep_document e m inst d s))"
proof -
  note o = assms(1) [unfolded our_document_def]
  obtain j where j: "findByEncoreJobId (ws_jobs s) x = Some j" "j_status j \<noteq> JDone" "j_status j \<noteq> JFailed"
    using assms(2) by (auto simp: unreconciled_def)
  let ?msg = "completion_message inst uuid"
  have d: "fst (sweep_document e m inst d s) = (if map_of (cq_main (ws_queue s)) ?msg \<noteq> None \<or> map_of (cq_processing (ws_queue s)) ?msg \<noteq> None
      then s else s\<lparr> ws_queue := (ws_queue s)\<lparr> cq_main := zadd (se_now e) ?msg (cq_main (ws_queue s)) \<rparr> \<rparr>)"
    using o j by (simp add: sweep_document_def Let_def truthy_def)
  show ?thesis unfolding d queued_or_processing_def
    by (simp add: map_of_None_iff_keys del: not_None_eq)
qed

lemma documents_reached:
  assumes "our_document e m d uuid x" "unreconciled x s" "d \<in> set ds"
  shows "queued_or_processing (completion_message inst uuid) (fst (sweep_documents e m inst ds s))"
  using assms
proof (induction ds arbitrary: s)
  case (Cons a ds)
  have q: "\<And>y. \<not> se_redisThrows e y" using Cons.prems(1) by (simp add: our_document_def)
  obtain s' where s': "sweep_document e m inst a s = (s', False)"
    using sweep_document_total [of e m inst a s] q by (cases "sweep_document e m inst a s") auto
  have k: "sweep_kept m s s'" using sweeps.document [of m s e inst a] s' by simp
  have step: "sweep_documents e m inst (a # ds) s = sweep_documents e m inst ds s'" using s' by simp
  show ?case unfolding step
  proof (cases "a = d")
    case True
    then have "queued_or_processing (completion_message inst uuid) s'"
      using document_reached [OF Cons.prems(1,2), of inst] s' by simp
    then show "queued_or_processing (completion_message inst uuid) (fst (sweep_documents e m inst ds s'))"
      using kept_queued [OF sweeps.documents] by blast
  next
    case False
    then show "queued_or_processing (completion_message inst uuid) (fst (sweep_documents e m inst ds s'))"
      using Cons.IH [OF Cons.prems(1) kept_unreconciled [OF k Cons.prems(2)]] Cons.prems(3) by simp
  qed
qed simp

lemma statuses_reached:
  assumes "our_document e m d uuid x" "unreconciled x s" "st \<in> set sts"
    "se_fetchPage e (search_url inst st (se_pageSize e)) = Some ds" "d \<in> set ds"
  shows "queued_or_processing (completion_message inst uuid) (fst (sweep_statuses e m inst sts s))"
  using assms
proof (induction sts arbitrary: s)
  case (Cons a sts)
  have q: "\<And>y. \<not> se_redisThrows e y" using Cons.prems(1) by (simp add: our_document_def)
  show ?case
  proof (cases "se_fetchPage e (search_url inst a (se_pageSize e))")
    case None
    then show ?thesis using Cons.IH [OF Cons.prems(1,2)] Cons.prems(3,4,5) by auto
  next
    case (Some docs)
    obtain s' where s': "sweep_documents e m inst docs s = (s', False)"
      using sweep_documents_total [of e m inst docs s] q by (cases "sweep_documents e m inst docs s") auto
    have k: "sweep_kept m s s'" using sweeps.documents [of m s e inst docs] s' by simp
    have step: "sweep_statuses e m inst (a # sts) s = sweep_statuses e m inst sts s'" using s' Some by simp
    show ?thesis unfolding step
    proof (cases "a = st")
      case True
      then have "queued_or_processing (completion_message inst uuid) s'"
        using documents_reached [OF Cons.prems(1,2,5), of inst] s' Some Cons.prems(4) by simp
      then show "queued_or_processing (completion_message inst uuid) (fst (sweep_statuses e m inst sts s'))"
        using kept_queued [OF sweeps.statuses] by blast
    next
      case False
      then show "queued_or_processing (completion_message inst uuid) (fst (sweep_statuses e m inst sts s'))"
        using Cons.IH [OF Cons.prems(1) kept_unreconciled [OF k Cons.prems(2)]] Cons.prems(3,4,5) by simp
    qed
  qed
qed simp

lemma instances_reached:
  assumes "our_document e m d uuid x" "unreconciled x s" "Instance inst \<in> set ps" "st \<in> set SWEEP_STATUSES"
    "se_fetchPage e (search_url inst st (se_pageSize e)) = Some ds" "d \<in> set ds"
  shows "queued_or_processing (completion_message inst uuid) (sweep_instances e m None n ps s)"
  using assms
proof (induction ps arbitrary: s n)
  case (Cons p ps)
  have q: "\<And>y. \<not> se_redisThrows e y" using Cons.prems(1) by (simp add: our_document_def)
  show ?case
  proof (cases p)
    case (Instance i)
    obtain s' where s': "sweep_statuses e m i SWEEP_STATUSES (syncInProgressJobProgress e i s) = (s', False)"
      using sweep_statuses_total [of e m i SWEEP_STATUSES "syncInProgressJobProgress e i s"] q
      by (cases "sweep_statuses e m i SWEEP_STATUSES (syncInProgressJobProgress e i s)") auto
    have u1: "unreconciled x (syncInProgressJobProgress e i s)" by (rule kept_unreconciled [OF sweeps.progress Cons.prems(2)])
    have u: "unreconciled x s'" using kept_unreconciled [OF sweeps.statuses u1] s' by (metis fst_conv)
    have step: "sweep_instances e m None n (p # ps) s = sweep_instances e m None (n + 1) ps s'" using s' Instance by simp
    show ?thesis unfolding step
    proof (cases "i = inst")
      case True
      then have "queued_or_processing (completion_message inst uuid) s'"
        using statuses_reached [OF Cons.prems(1) u1 Cons.prems(4,5,6)] s' by simp
      then show "queued_or_processing (completion_message inst uuid) (sweep_instances e m None (n + 1) ps s')"
        using kept_queued [OF sweeps.instances] by blast
    next
      case False
      then show "queued_or_processing (completion_message inst uuid) (sweep_instances e m None (n + 1) ps s')"
        using Cons.IH [OF Cons.prems(1) u _ Cons.prems(4,5,6)] Cons.prems(3) Instance by simp
    qed
  qed (use Cons in simp)
qed simp

section \<open>Properties\<close>

text \<open>C17. The sweep repairs a lost completion: when the encoder lists one of our jobs as finished or
  failed and the local job is neither, then after a sweep (without a cap on the instances, the
  store answering) its completion is queued or being handled, once.\<close>

theorem sweep_finds_unreconciled:
  assumes "\<forall>y. \<not> se_redisThrows e y \<and> \<not> se_findThrows e y"
    and "Some pool \<in> set pools" "Instance inst \<in> set (vals pool)" "st = ''SUCCESSFUL'' \<or> st = ''FAILED''"
    and "se_fetchPage e (search_url inst st (se_pageSize e)) = Some ds" "d \<in> set ds" "pd_id d = Some uuid" "uuid \<noteq> []"
    and "map_of m uuid = Some x" "x \<noteq> []"
    and "findByEncoreJobId (ws_jobs s) x = Some j" "j_status j \<noteq> JDone" "j_status j \<noteq> JFailed"
  shows "completion_message inst uuid \<in> set (keys (cq_main (ws_queue (sweepTerminalJobs e m False None pools s))))
    \<or> completion_message inst uuid \<in> set (keys (cq_processing (ws_queue (sweepTerminalJobs e m False None pools s))))"
proof -
  have o: "our_document e m d uuid x" using assms by (simp add: our_document_def)
  have u: "unreconciled x s" using assms by (simp add: unreconciled_def)
  have i: "Instance inst \<in> set (concat (List.map (\<lambda>p. vals (coalesce p [])) pools))"
    using assms(2,3) by (force simp: coalesce_def)
  have st: "st \<in> set SWEEP_STATUSES" using assms(4) by (auto simp: SWEEP_STATUSES_def)
  have "pools \<noteq> []" using assms(2) by auto
  then show ?thesis using instances_reached [OF o u i st assms(5,6), of 0]
    by (simp add: sweepTerminalJobs_def queued_or_processing_def)
qed

definition demo_encoder :: instance_record where
  "demo_encoder = \<lparr> i_instanceId = ''enc1'', i_url = ''https://enc1/'', i_callbackListenerUrl = None,
     i_callbackTrustReady = None, i_callbackTrustConfirmedAt = None, i_callbackTrustFirstProbeAt = None,
     i_callbackTrustQuarantinedAt = None, i_callbackPathUnusableAt = None, i_callbackPathUnusableStatus = None,
     i_activeJobs = 0, i_lastIdleAt = None, i_readyAt = None, i_draining = None, i_cancelDrainingSince = None,
     i_pendingReadySince = None, i_listenerCreateAttempts = None, i_listenerCreateNextAttemptAt = None,
     i_listenerCreateBlockedAt = None \<rparr>"

definition demo_sweep_env :: sweep_env where
  "demo_sweep_env = \<lparr> se_fetchPage = (\<lambda>u. Some [\<lparr> pd_id = Some ''u1'', pd_externalId = Some ''ctx__j1'', pd_progress = None \<rparr>]),
     se_findThrows = (\<lambda>x. False), se_updateThrows = (\<lambda>x. False), se_redisThrows = (\<lambda>x. False), se_fraction = (\<lambda>q. []),
     se_now = 1000, se_nowText = ''t'', se_progressWriteIntervalMs = None, se_transcodeStallTimeoutMs = None, se_pageSize = 100 \<rparr>"

definition demo_sweep_job :: job where
  "demo_sweep_job = (new_job ''t0'' None ''job-1'' \<lparr> cj_type = Transcode, cj_assetId = ''a'', cj_sourceUrl = None,
     cj_encoreJobId = Some ''ctx__j1'', cj_encoreInternalJobId = None, cj_profile = None, cj_packagingId = None,
     cj_outputPrefix = None, cj_stackName = None \<rparr>)\<lparr> j_status := JRunning \<rparr>"

definition demo_sweep_state :: sweep_state where
  "demo_sweep_state = \<lparr> ws_jobs = \<lparr> jobs = [(''job-1'', demo_sweep_job)], counter = 1 \<rparr>, ws_throttle = [], ws_stall = [],
     ws_queue = \<lparr> cq_main = [], cq_processing = [], cq_dead = [], cq_attempts = [] \<rparr>, ws_stalled = [], ws_written = 0 \<rparr>"

lemma demo_find: "findByEncoreJobId (ws_jobs demo_sweep_state) ''ctx__j1'' = Some demo_sweep_job" "j_status demo_sweep_job = JRunning"
  by (simp_all add: findByEncoreJobId_def demo_sweep_state_def demo_sweep_job_def new_job_def vals_def)

theorem sweep_finds_unreconciled_witness:
  "completion_message demo_encoder ''u1'' \<in> set (keys (cq_main (ws_queue
       (sweepTerminalJobs demo_sweep_env [(''u1'', ''ctx__j1'')] False None [Some [(''enc1'', Instance demo_encoder)]] demo_sweep_state))))
   \<or> completion_message demo_encoder ''u1'' \<in> set (keys (cq_processing (ws_queue
       (sweepTerminalJobs demo_sweep_env [(''u1'', ''ctx__j1'')] False None [Some [(''enc1'', Instance demo_encoder)]] demo_sweep_state))))"
  by (rule sweep_finds_unreconciled [of _ "[(''enc1'', Instance demo_encoder)]" _ _ "''FAILED''"
        "[\<lparr> pd_id = Some ''u1'', pd_externalId = Some ''ctx__j1'', pd_progress = None \<rparr>]"
        "\<lparr> pd_id = Some ''u1'', pd_externalId = Some ''ctx__j1'', pd_progress = None \<rparr>" _ _ "''ctx__j1''" _ demo_sweep_job])
    (simp_all add: demo_sweep_env_def demo_find vals_def)

text \<open>The sweep only adds: no job changes its status, a finished job not at all, every queued
  completion keeps its score, the processing and dead-letter sets stand, and what is new in the
  queue is the completion of a job that awaits one and is not being handled.\<close>

theorem sweep_only_adds:
  assumes "s' = sweepTerminalJobs e m satFails maxInstances pools s" "jobs_ok (ws_jobs s)"
  shows "(\<forall>k j. map_of (jobs (ws_jobs s)) k = Some j \<longrightarrow> (\<exists>j'. map_of (jobs (ws_jobs s')) k = Some j'
        \<and> j_status j' = j_status j \<and> (\<not> isActiveJobStatus (j_status j) \<longrightarrow> j' = j)))
    \<and> cq_processing (ws_queue s') = cq_processing (ws_queue s) \<and> cq_dead (ws_queue s') = cq_dead (ws_queue s)
    \<and> (\<forall>msg sc. map_of (cq_main (ws_queue s)) msg = Some sc \<longrightarrow> map_of (cq_main (ws_queue s')) msg = Some sc)
    \<and> (\<forall>msg. msg \<in> set (keys (cq_main (ws_queue s'))) \<longrightarrow> msg \<notin> set (keys (cq_main (ws_queue s))) \<longrightarrow>
        msg \<notin> set (keys (cq_processing (ws_queue s)))
        \<and> (\<exists>inst uuid x k j. msg = completion_message inst uuid \<and> map_of m uuid = Some x
             \<and> map_of (jobs (ws_jobs s)) k = Some j \<and> j_encoreJobId j = Some x \<and> j_status j \<noteq> JDone \<and> j_status j \<noteq> JFailed))"
proof -
  have kept: "outline_kept s s'" "queue_grows m s s'"
    using sweeps.sweep [of m s e satFails maxInstances pools] assms(1) by (simp_all add: sweep_kept_def)
  note g = kept(2) [unfolded queue_grows_def]
  have look: "map_of (List.map (\<lambda>(k, j). (k, j_id j, j_status j, j_encoreJobId j)) al) k
      = map_option (\<lambda>j. (j_id j, j_status j, j_encoreJobId j)) (map_of al k)" for al :: "(string \<times> job) list" and k
    by (induction al) auto
  have j: "\<exists>j'. map_of (jobs (ws_jobs s')) k = Some j' \<and> j_status j' = j_status j \<and> (\<not> isActiveJobStatus (j_status j) \<longrightarrow> j' = j)"
    if "map_of (jobs (ws_jobs s)) k = Some j" for k j
  proof -
    have "map_option (\<lambda>j. (j_id j, j_status j, j_encoreJobId j)) (map_of (jobs (ws_jobs s')) k) = Some (j_id j, j_status j, j_encoreJobId j)"
      using kept(1) that look [of "jobs (ws_jobs s)" k] look [of "jobs (ws_jobs s')" k] by (simp add: outline_kept_def job_outline_def)
    then obtain j' where "map_of (jobs (ws_jobs s')) k = Some j'" "j_status j' = j_status j" by auto
    moreover have "\<not> isActiveJobStatus (j_status j) \<longrightarrow> map_of (jobs (ws_jobs s')) k = Some j"
      using kept(1) that assms(2) by (simp add: outline_kept_def)
    ultimately show ?thesis by auto
  qed
  have w: "msg \<notin> set (keys (cq_processing (ws_queue s))) \<and> (\<exists>inst uuid x k j. msg = completion_message inst uuid
      \<and> map_of m uuid = Some x \<and> map_of (jobs (ws_jobs s)) k = Some j \<and> j_encoreJobId j = Some x
      \<and> j_status j \<noteq> JDone \<and> j_status j \<noteq> JFailed)"
    if "msg \<in> set (keys (cq_main (ws_queue s')))" "msg \<notin> set (keys (cq_main (ws_queue s)))" for msg
  proof -
    have a: "msg \<notin> set (keys (cq_processing (ws_queue s)))" "awaited m (ws_jobs s) msg" using g that by blast+
    then obtain inst uuid x k i st where o: "msg = completion_message inst uuid" "map_of m uuid = Some x"
      "(k, i, st, Some x) \<in> set (job_outline (ws_jobs s))" "st \<noteq> JDone" "st \<noteq> JFailed" unfolding awaited_def by blast
    then obtain j where j: "(k, j) \<in> set (jobs (ws_jobs s))" "j_status j = st" "j_encoreJobId j = Some x"
      by (auto simp: job_outline_def)
    then have "map_of (jobs (ws_jobs s)) k = Some j" using assms(2) by (simp add: jobs_ok_def keys_def)
    then show ?thesis using a(1) o j by blast
  qed
  show ?thesis using j g w by blast
qed

theorem sweep_only_adds_witness:
  "cq_dead (ws_queue (sweepTerminalJobs demo_sweep_env [(''u1'', ''ctx__j1'')] False (Some 1)
     [Some [(''enc1'', Instance demo_encoder)]] demo_sweep_state)) = []"
proof -
  have "dec 1 = ''1''" by code_simp
  then have "jobs_ok (ws_jobs demo_sweep_state)"
    by (auto simp: jobs_ok_def demo_sweep_state_def demo_sweep_job_def new_job_def keys_def intro!: exI [of _ 1])
  from sweep_only_adds [OF refl this, of demo_sweep_env "[(''u1'', ''ctx__j1'')]" False "Some 1" "[Some [(''enc1'', Instance demo_encoder)]]"]
  show ?thesis by (simp add: demo_sweep_state_def)
qed

text \<open>A dead letter does not stay one: the loop moves a completion that used up its attempts to
  the dead-letter set "for an operator", but the sweep looks for it only in the queue and the
  processing set. While the encoder lists the job and the local job is not done or failed, the
  next sweep queues it again, with every attempt ahead of it.\<close>

theorem dead_letter_is_revived:
  assumes "\<forall>y. \<not> se_redisThrows e y \<and> \<not> se_findThrows e y"
    and "Some pool \<in> set pools" "Instance inst \<in> set (vals pool)"
    and "se_fetchPage e (search_url inst ''FAILED'' (se_pageSize e)) = Some ds" "d \<in> set ds" "pd_id d = Some uuid" "uuid \<noteq> []"
    and "map_of m uuid = Some x" "x \<noteq> []"
    and "findByEncoreJobId (ws_jobs s) x = Some j" "j_status j \<noteq> JDone" "j_status j \<noteq> JFailed"
    and "requeueOrDeadLetter mx bf now None (completion_message inst uuid) q = (ws_queue s, b)"
    and "mx \<le> failed_so_far (completion_message inst uuid) q + 1"
    and "completion_message inst uuid \<notin> set (keys (cq_main q))"
  shows "completion_message inst uuid \<in> set (keys (cq_dead (ws_queue s)))
    \<and> \<not> waiting (completion_message inst uuid) (ws_queue s)
    \<and> completion_message inst uuid \<in> set (keys (cq_main (ws_queue (sweepTerminalJobs e m False None pools s))))
    \<and> failed_so_far (completion_message inst uuid) (ws_queue (sweepTerminalJobs e m False None pools s)) = 0"
proof -
  let ?msg = "completion_message inst uuid" and ?s' = "sweepTerminalJobs e m False None pools s"
  have dead: "\<not> waiting ?msg (ws_queue s)" "?msg \<in> set (keys (cq_dead (ws_queue s)))" "failed_so_far ?msg (ws_queue s) = 0"
    using requeue_waiting(2) [OF assms(13,15,14)] by blast+
  have o: "our_document e m d uuid x" using assms by (simp add: our_document_def)
  have u: "unreconciled x s" using assms by (simp add: unreconciled_def)
  have i: "Instance inst \<in> set (concat (List.map (\<lambda>p. vals (coalesce p [])) pools))"
    using assms(2,3) by (force simp: coalesce_def)
  have "pools \<noteq> []" using assms(2) by auto
  then have q: "?msg \<in> set (keys (cq_main (ws_queue ?s'))) \<or> ?msg \<in> set (keys (cq_processing (ws_queue ?s')))"
    using instances_reached [OF o u i _ assms(4,5), of 0]
    by (simp add: sweepTerminalJobs_def queued_or_processing_def SWEEP_STATUSES_def)
  have g: "queue_grows m s ?s'" using sweeps.sweep [of m s e False None pools] by (simp add: sweep_kept_def)
  show ?thesis using dead q g by (auto simp: queue_grows_def waiting_def failed_so_far_def)
qed

definition demo_poisoned :: sweep_state where
  "demo_poisoned = demo_sweep_state\<lparr> ws_queue := fst (requeueOrDeadLetter 1 messageRetryBackoffMs 0 None
     (completion_message demo_encoder ''u1'') (ws_queue demo_sweep_state)) \<rparr>"

theorem dead_letter_is_revived_witness:
  "completion_message demo_encoder ''u1'' \<in> set (keys (cq_dead (ws_queue demo_poisoned)))
   \<and> completion_message demo_encoder ''u1'' \<in> set (keys (cq_main (ws_queue
       (sweepTerminalJobs demo_sweep_env [(''u1'', ''ctx__j1'')] False None [Some [(''enc1'', Instance demo_encoder)]] demo_poisoned))))"
proof -
  have r: "requeueOrDeadLetter 1 messageRetryBackoffMs 0 None (completion_message demo_encoder ''u1'') (ws_queue demo_sweep_state)
    = (ws_queue demo_poisoned, snd (requeueOrDeadLetter 1 messageRetryBackoffMs 0 None (completion_message demo_encoder ''u1'') (ws_queue demo_sweep_state)))"
    by (simp add: demo_poisoned_def)
  have f: "findByEncoreJobId (ws_jobs demo_poisoned) ''ctx__j1'' = Some demo_sweep_job"
    using demo_find(1) by (simp add: demo_poisoned_def)
  show ?thesis
    using dead_letter_is_revived [OF _ _ _ _ _ _ _ _ _ f _ _ r, of demo_sweep_env "[(''enc1'', Instance demo_encoder)]"
        "[Some [(''enc1'', Instance demo_encoder)]]" "[\<lparr> pd_id = Some ''u1'', pd_externalId = Some ''ctx__j1'', pd_progress = None \<rparr>]"
        "\<lparr> pd_id = Some ''u1'', pd_externalId = Some ''ctx__j1'', pd_progress = None \<rparr>" "[(''u1'', ''ctx__j1'')]"]
    by (simp add: demo_sweep_env_def demo_find vals_def demo_sweep_state_def failed_so_far_def coalesce_def)
qed

lemma capped_instances: "sweep_instances e m (Some n) k ps s = sweep_instances e m (Some n) k (take (n - k) ps) s"
proof (induction ps arbitrary: k s)
  case (Cons p ps)
  show ?case
  proof (cases "n \<le> k")
    case False
    then have "n - k = Suc (n - (k + 1))" by simp
    then have "take (n - k) (p # ps) = p # take (n - (k + 1)) ps" by simp
    then show ?thesis using False Cons.IH [of "k + 1"]
      by (cases p) (auto split: prod.splits bool.splits)
  qed simp
qed simp

text \<open>The comment on the cap says that an instance it leaves out is "simply picked up on the next
  sweep". Every sweep starts from the first instance again: over any run of sweeps of a pool, the
  instances beyond the cap have no part in it, whatever their encoders answer.\<close>

theorem capped_sweep_never_reaches_the_rest:
  "List.fold (\<lambda>e. sweepTerminalJobs e m False (Some n) [Some pool]) es s
     = List.fold (\<lambda>e. sweepTerminalJobs e m False (Some n) [Some (take n pool)]) es s"
proof -
  have "sweepTerminalJobs e m False (Some n) [Some pool] = sweepTerminalJobs e m False (Some n) [Some (take n pool)]" for e
    using capped_instances [of e m n 0 "vals pool"] by (simp add: sweepTerminalJobs_def coalesce_def vals_def take_map fun_eq_iff)
  then show ?thesis by simp
qed

text \<open>C16. A stall is a frozen encode: when a job is reported stalled, over any rounds of pages, an
  earlier sample of it stands to which every sample since is equal, more than the bound ago and
  not below the floor; and its reason is one the retry policy takes for a transport failure.\<close>

theorem stall_is_a_frozen_encode:
  assumes "track_rounds fraction bound rounds [] = (state', res)" "i < length rounds" "st \<in> set (res ! i)"
  shows "\<exists>obs1 obs2 pre t p mid. snd (rounds ! i) = obs1 @ obs2
    \<and> samples_of (sl_encoreJobId st) (take i rounds @ [(fst (rounds ! i), obs1)])
        = pre @ (t, p) # mid @ [(fst (rounds ! i), p)]
    \<and> (\<forall>s\<in>set mid. snd s = p) \<and> bound < fst (rounds ! i) - t \<and> \<not> js_lt p (Fin 1)
    \<and> classifyEncoreFailure pathname (Some (sl_reason st)) = Transport"
proof -
  have "explained (\<lambda>x. []) []" by (simp add: explained_def)
  from rounds_explained [OF this assms] obtain obs1 obs2 where o: "snd (rounds ! i) = obs1 @ obs2"
    "frozen_at fraction bound (samples_of (sl_encoreJobId st) (take i rounds @ [(fst (rounds ! i), obs1)])) (fst (rounds ! i)) st"
    by auto
  have c: "classifyEncoreFailure pathname (Some (buildStallFailureMessage fraction p a b)) = Transport" for p a b
  proof -
    have "prefix TRANSCODE_STALL_SIGNATURE (to_lower (buildStallFailureMessage fraction p a b))"
      by (simp add: buildStallFailureMessage_def TRANSCODE_STALL_SIGNATURE_def to_lower_def is_upper_def char_le_def)
    then have "str_includes (to_lower (buildStallFailureMessage fraction p a b)) TRANSCODE_STALL_SIGNATURE"
      by (simp add: str_includes_iff)
    then show ?thesis
      by (simp add: classifyEncoreFailure_def Let_def truthy_def TRANSPORT_SIGNATURES_def)
        (simp add: buildStallFailureMessage_def TRANSCODE_STALL_SIGNATURE_def)
  qed
  from o(2) obtain pre t p mid where f: "samples_of (sl_encoreJobId st) (take i rounds @ [(fst (rounds ! i), obs1)])
        = pre @ (t, p) # mid @ [(fst (rounds ! i), p)]" "\<forall>s\<in>set mid. snd s = p" "bound < fst (rounds ! i) - t"
    "\<not> js_lt p MIN_ARMED_PROGRESS" "sl_reason st = buildStallFailureMessage fraction p (fst (rounds ! i) - t) bound"
    unfolding frozen_at_def by blast
  show ?thesis using o(1) f c unfolding MIN_ARMED_PROGRESS_def by metis
qed

definition demo_rounds :: "(int \<times> progress_observation list) list" where
  "demo_rounds = [(0, [\<lparr> po_externalId = ''x'', po_progress = Fin 40 \<rparr>]), (1000, [\<lparr> po_externalId = ''x'', po_progress = Fin 40 \<rparr>]),
     (3600001, [\<lparr> po_externalId = ''x'', po_progress = Fin 40 \<rparr>])]"

definition demo_stall :: stalled_transcode where
  "demo_stall = \<lparr> sl_encoreJobId = ''x'', sl_reason = buildStallFailureMessage (\<lambda>q. []) (Fin 40) 3600001 3600000 \<rparr>"

lemma demo_rounds_eval:
  "track_rounds (\<lambda>q. []) 3600000 demo_rounds [] = ([], [[], [], [demo_stall]])"
  by (simp add: demo_rounds_def demo_stall_def recordProgressAndDetectStalls_def track_sample_def usable_sample_def
      MIN_ARMED_PROGRESS_def STALL_TRACKER_TTL_MS_def Let_def)

theorem stall_is_a_frozen_encode_witness:
  "classifyEncoreFailure (\<lambda>u. None) (Some (sl_reason demo_stall)) = Transport"
proof -
  have "2 < length demo_rounds" "demo_stall \<in> set ([[], [], [demo_stall]] ! 2)" by (simp_all add: demo_rounds_def)
  from stall_is_a_frozen_encode [OF demo_rounds_eval this, of "\<lambda>u. None"] show ?thesis by blast
qed

text \<open>A frozen encode is raised: when every sample of a job not yet tracked reads the same value
  from its first round on, no gap between its samples outlives the tracker, and it is sampled
  again after the bound has passed, then one of the rounds reports it.\<close>

theorem frozen_encode_is_raised:
  assumes "rounds = (t0, obs0) # rs @ [(t1, obs1)]" "sampled_steadily x p t0 rounds"
    and "samples_here x obs0 \<noteq> []" "samples_here x obs1 \<noteq> []" "bound < t1 - t0" "0 \<le> bound"
    and "map_of state x = None" "distinct (keys state)" "track_rounds fraction bound rounds state = (state', res)"
  shows "\<exists>i<length rounds. \<exists>st\<in>set (res ! i). sl_encoreJobId st = x"
proof -
  obtain s1 r1 where one: "recordProgressAndDetectStalls fraction state obs0 t0 bound = (s1, r1)"
    by (cases "recordProgressAndDetectStalls fraction state obs0 t0 bound")
  obtain r2 where two: "track_rounds fraction bound (rs @ [(t1, obs1)]) s1 = (state', r2)" and res: "res = r1 # r2"
    using assms(1,9) one by (auto split: prod.splits)
  obtain a1 q1 where tr: "track_samples fraction t0 bound obs0 state = (a1, q1)"
    by (cases "track_samples fraction t0 bound obs0 state")
  have st: "set (samples_here x obs0) \<subseteq> {p}" "sampled_steadily x p t0 (rs @ [(t1, obs1)])"
    using assms(1,2,3) by (auto simp: Let_def)
  note f = first_sample [OF assms(7) st(1) assms(3,6) tr assms(8)] and pr = prune_keeps_clock [OF one tr]
  show ?thesis
  proof (cases "\<exists>st\<in>set r1. sl_encoreJobId st = x")
    case True
    then show ?thesis using res assms(1) by (intro exI [of _ 0]) simp
  next
    case False
    then have h: "holds_clock a1 x p t0 t0" "distinct (keys a1)" using f pr(1) by blast+
    have "holds_clock s1 x p t0 t0" using pr(3) [OF h(2,1)] by (simp add: STALL_TRACKER_TTL_MS_def)
    from steady_rounds [OF this pr(2) [OF h(2)] st(2) two] assms(4,5)
    obtain i where "i < length (rs @ [(t1, obs1)])" "\<exists>st\<in>set (r2 ! i). sl_encoreJobId st = x" by auto
    then show ?thesis using res assms(1) by (intro exI [of _ "Suc i"]) simp
  qed
qed

theorem frozen_encode_is_raised_witness:
  "\<exists>i<length demo_rounds. \<exists>st\<in>set ([[], [], [demo_stall]] ! i). sl_encoreJobId st = ''x''"
  using frozen_encode_is_raised [of demo_rounds 0 "[\<lparr> po_externalId = ''x'', po_progress = Fin 40 \<rparr>]"
      "[(1000, [\<lparr> po_externalId = ''x'', po_progress = Fin 40 \<rparr>])]" 3600001 "[\<lparr> po_externalId = ''x'', po_progress = Fin 40 \<rparr>]"
      "''x''" "Fin 40" 3600000 "[]", OF _ _ _ _ _ _ _ _ demo_rounds_eval]
  by (simp add: demo_rounds_def samples_here_def usable_sample_def MIN_ARMED_PROGRESS_def STALL_TRACKER_TTL_MS_def)

end
