(* ===== verification/Pipeline_Repo.thy ===== *)
theory Pipeline_Repo
  imports Job_Repo "HOL-Library.List_Lexorder" "HOL-Library.Char_ord" "HOL-Library.Product_Lexorder"
begin

text \<open>
  Pipeline executions (\<^verbatim>\<open>src/src/data/pipeline-repo.ts\<close>, \<^verbatim>\<open>src/src/pipeline/pipelines.ts\<close>), the
  \<^verbatim>\<open>package\<close> job of a run (\<^verbatim>\<open>src/src/pipeline/package-job.ts\<close>) and the sweep that fails a stalled
  one (\<^verbatim>\<open>src/src/pipeline/stalled-package-reconciler.ts\<close>). The repositories are the in-memory ones;
  the ids the code draws, the clock and the DRM flag are arguments. A repository call that may
  throw in another backend is a flag of the environment where the code catches it.
\<close>

section \<open>Executions\<close>

datatype step_name = StepExtractMetadata | StepThumbnail | StepSubtitles | StepSceneDetect | StepTranscode | StepPackage

datatype step_status = StepPending | StepRunning | StepDone | StepFailed | StepSkipped

datatype execution_status = ExecRunning | ExecDone | ExecFailed

record step_execution =
  sp_name :: step_name
  sp_status :: step_status
  sp_jobId :: "string option"
  sp_encoreJobId :: "string option"
  sp_error :: "string option"
  sp_errorDetail :: "json option"
  sp_skipReason :: "string option"
  sp_startedAt :: "string option"
  sp_completedAt :: "string option"

definition isStepComplete :: "step_execution \<Rightarrow> bool" where
  "isStepComplete s = (sp_status s = StepDone \<or> sp_status s = StepSkipped)"

definition isStepTerminal :: "step_execution \<Rightarrow> bool" where
  "isStepTerminal s = (sp_status s = StepDone \<or> sp_status s = StepSkipped \<or> sp_status s = StepFailed)"

record drm_request =
  dr_providerId :: "string option"
  dr_systems :: "string list option"
  dr_scheme :: "protection_scheme option"

record output_location =
  ol_bucket :: string
  ol_prefix :: string

record execution =
  xn_id :: string
  xn_assetId :: string
  xn_pipelineName :: string
  xn_status :: execution_status
  xn_steps :: "step_execution list"
  xn_destinationBucket :: "string option"
  xn_drm :: "drm_request option"
  xn_resolvedOutputLocation :: "output_location option"
  xn_relocatedPackagingIds :: "string list option"
  xn_createdAt :: string
  xn_updatedAt :: string

definition BUILT_IN_PIPELINES :: "(string, step_name list) jsmap" where
  "BUILT_IN_PIPELINES = [(''transcode'', [StepTranscode]), (''abr-vod'', [StepTranscode, StepPackage]),
     (''package'', [StepPackage]), (''ingest'', [StepExtractMetadata, StepThumbnail]),
     (''subtitles'', [StepSubtitles]), (''scene-detect'', [StepSceneDetect]),
     (''full'', [StepExtractMetadata, StepThumbnail, StepSubtitles, StepSceneDetect, StepTranscode, StepPackage])]"

section \<open>The in-memory repository\<close>

type_synonym pipeline_repo = "(string, execution) jsmap"

record create_execution_input =
  xi_assetId :: string
  xi_pipelineName :: string
  xi_steps :: "step_name list"
  xi_destinationBucket :: "string option"
  xi_drm :: "drm_request option"

definition new_step :: "step_name \<Rightarrow> step_execution" where
  "new_step n = \<lparr> sp_name = n, sp_status = StepPending, sp_jobId = None, sp_encoreJobId = None, sp_error = None,
     sp_errorDetail = None, sp_skipReason = None, sp_startedAt = None, sp_completedAt = None \<rparr>"

definition create_execution :: "bool \<Rightarrow> string \<Rightarrow> string \<Rightarrow> create_execution_input \<Rightarrow> pipeline_repo
    \<Rightarrow> pipeline_repo \<times> execution" where
  "create_execution drmEnabled i now input r =
     (let execution = \<lparr> xn_id = i, xn_assetId = xi_assetId input, xn_pipelineName = xi_pipelineName input,
            xn_status = ExecRunning, xn_steps = List.map new_step (xi_steps input),
            xn_destinationBucket = xi_destinationBucket input,
            xn_drm = (if drmEnabled then xi_drm input else None), xn_resolvedOutputLocation = None,
            xn_relocatedPackagingIds = None, xn_createdAt = now, xn_updatedAt = now \<rparr>
      in (AList.update i execution r, execution))"

definition get_execution :: "pipeline_repo \<Rightarrow> string \<Rightarrow> execution option" where
  "get_execution r i = map_of r i"

record update_execution_input =
  ue_status :: "execution_status option"
  ue_steps :: "step_execution list option"
  ue_resolvedOutputLocation :: "output_location option"
  ue_relocatedPackagingIds :: "string list option"

definition steps_patch :: "step_execution list \<Rightarrow> execution_status option \<Rightarrow> update_execution_input" where
  "steps_patch steps st = \<lparr> ue_status = st, ue_steps = Some steps, ue_resolvedOutputLocation = None, ue_relocatedPackagingIds = None \<rparr>"

definition apply_execution_patch :: "update_execution_input \<Rightarrow> string \<Rightarrow> execution \<Rightarrow> execution" where
  "apply_execution_patch p now e =
     e\<lparr> xn_status := coalesce (ue_status p) (xn_status e), xn_steps := coalesce (ue_steps p) (xn_steps e),
        xn_resolvedOutputLocation := (if ue_resolvedOutputLocation p \<noteq> None then ue_resolvedOutputLocation p else xn_resolvedOutputLocation e),
        xn_relocatedPackagingIds := (if ue_relocatedPackagingIds p \<noteq> None then ue_relocatedPackagingIds p else xn_relocatedPackagingIds e),
        xn_updatedAt := now \<rparr>"

definition update_execution :: "string \<Rightarrow> update_execution_input \<Rightarrow> string \<Rightarrow> pipeline_repo
    \<Rightarrow> pipeline_repo \<times> execution option" where
  "update_execution i p now r = (case map_of r i of
       None \<Rightarrow> (r, None)
     | Some existing \<Rightarrow>
         let nxt = apply_execution_patch p now existing in (AList.update i nxt r, Some nxt))"

definition by_creation :: "execution list \<Rightarrow> execution list" where
  "by_creation es = sort_key (\<lambda>e. (xn_createdAt e, xn_id e)) es"

definition newest_first :: "execution list \<Rightarrow> execution list" where
  "newest_first es = rev (sort_key (\<lambda>e. (xn_createdAt e, xn_id e)) (rev es))"

definition listByAsset :: "pipeline_repo \<Rightarrow> string \<Rightarrow> execution list" where
  "listByAsset r assetId = by_creation (filter (\<lambda>e. xn_assetId e = assetId) (vals r))"

definition listAll :: "pipeline_repo \<Rightarrow> execution_status option \<Rightarrow> nat option \<Rightarrow> nat option \<Rightarrow> execution list \<times> nat" where
  "listAll r status limit offset =
     (let all = newest_first (vals r);
          all' = (case status of None \<Rightarrow> all | Some st \<Rightarrow> filter (\<lambda>e. xn_status e = st) all)
      in (take (coalesce limit 50) (drop (coalesce offset 0) all'), length all'))"

definition runs_step :: "step_name \<Rightarrow> step_execution \<Rightarrow> bool" where
  "runs_step n s = (sp_name s = n \<and> sp_status s = StepRunning)"

definition findRunningByAssetAndStep :: "pipeline_repo \<Rightarrow> string \<Rightarrow> step_name \<Rightarrow> execution option" where
  "findRunningByAssetAndStep r assetId step =
     (case newest_first (filter (\<lambda>e. xn_assetId e = assetId \<and> xn_status e = ExecRunning
              \<and> list_ex (runs_step step) (xn_steps e)) (vals r)) of
        [] \<Rightarrow> None | e # es \<Rightarrow> Some e)"

text \<open>\<^verbatim>\<open>findIndex\<close>.\<close>

fun find_index :: "('a \<Rightarrow> bool) \<Rightarrow> 'a list \<Rightarrow> nat option" where
  "find_index P [] = None"
| "find_index P (x # xs) = (if P x then Some 0 else map_option Suc (find_index P xs))"

section \<open>The package job of a run\<close>

definition PACKAGE_JOB_START_STATUS :: job_status where "PACKAGE_JOB_START_STATUS = JRunning"

record run_repos =
  rr_jobs :: job_repo
  rr_pipes :: pipeline_repo

definition findActivePackageJob :: "job_repo \<Rightarrow> string \<Rightarrow> job option" where
  "findActivePackageJob r assetId = find (\<lambda>j. j_type j = Package) (findActiveByAssetId r assetId)"

definition blank_job_patch :: update_job_input where
  "blank_job_patch = \<lparr> uj_status = None, uj_progress = None, uj_bytesTransferred = None, uj_totalBytes = None,
     uj_attempts = None, uj_error = None, uj_encoreJobId = None, uj_encoreInternalJobId = None, uj_profile = None,
     uj_renditionAssetIds = None, uj_packagingId = None, uj_outputPrefix = None, uj_encodeAttempts = None,
     uj_encodeAttemptLog = None, uj_interrupted = None, uj_interruptionReason = None, uj_droppedByScaler = None,
     uj_droppedThenRecovered = None, uj_correctedDropError = None, uj_lateCompletionDiscarded = None,
     uj_discardedRenditionCount = None, uj_discardedOutputPrefix = None, uj_clearError = None \<rparr>"

text \<open>What a helper's repository calls see: the clock, the ambient stack, and whether the calls throw.\<close>

record package_env =
  pk_nowText :: string
  pk_currentStack :: "string option"
  pk_jobsThrow :: bool
  pk_pipelineThrows :: bool
  pk_hasJobs :: bool
  pk_hasPipeline :: bool

definition stampJobIdOnPackageStep :: "package_env \<Rightarrow> string \<Rightarrow> string \<Rightarrow> pipeline_repo \<Rightarrow> pipeline_repo" where
  "stampJobIdOnPackageStep e assetId jobId r =
     (if \<not> pk_hasPipeline e \<or> pk_pipelineThrows e then r
      else case findRunningByAssetAndStep r assetId StepPackage of
             None \<Rightarrow> r
           | Some execution \<Rightarrow>
               (case find_index (runs_step StepPackage) (xn_steps execution) of
                  None \<Rightarrow> r
                | Some idx \<Rightarrow>
                    if truthy (sp_jobId (xn_steps execution ! idx)) then r
                    else fst (update_execution (xn_id execution)
                      (steps_patch ((xn_steps execution)[idx := (xn_steps execution ! idx)\<lparr> sp_jobId := Some jobId \<rparr>]) None)
                      (pk_nowText e) r)))"

text \<open>A rejected update throws inside the helper's \<^verbatim>\<open>try\<close>, which leaves what was written before it.\<close>

definition startPackageJob :: "package_env \<Rightarrow> string \<Rightarrow> run_repos \<Rightarrow> run_repos \<times> string option" where
  "startPackageJob e assetId s =
     (if \<not> pk_hasJobs e \<or> pk_jobsThrow e then (s, None)
      else case findActivePackageJob (rr_jobs s) assetId of
             Some existing \<Rightarrow>
               (case update_job (j_id existing) (blank_job_patch\<lparr> uj_attempts := Some (j_attempts existing + 1) \<rparr>)
                       (pk_nowText e) (rr_jobs s) of
                  Inl err \<Rightarrow> (s, None)
                | Inr (r, _) \<Rightarrow> (s\<lparr> rr_jobs := r,
                    rr_pipes := stampJobIdOnPackageStep e assetId (j_id existing) (rr_pipes s) \<rparr>, Some (j_id existing)))
           | None \<Rightarrow>
               let (r1, created) = create_job (pk_nowText e) (pk_currentStack e) \<lparr> cj_type = Package, cj_assetId = assetId,
                     cj_sourceUrl = None, cj_encoreJobId = None, cj_encoreInternalJobId = None, cj_profile = None,
                     cj_packagingId = None, cj_outputPrefix = None, cj_stackName = None \<rparr> (rr_jobs s)
               in (case update_job (j_id created) (blank_job_patch\<lparr> uj_status := Some PACKAGE_JOB_START_STATUS,
                         uj_attempts := Some 1, uj_packagingId := Some (packagingId assetId),
                         uj_outputPrefix := Some (outputPrefix assetId) \<rparr>) (pk_nowText e) r1 of
                     Inl err \<Rightarrow> (s\<lparr> rr_jobs := r1 \<rparr>, None)
                   | Inr (r2, _) \<Rightarrow> (s\<lparr> rr_jobs := r2,
                       rr_pipes := stampJobIdOnPackageStep e assetId (j_id created) (rr_pipes s) \<rparr>, Some (j_id created))))"

definition resolvePackageJob :: "job_repo \<Rightarrow> string option \<Rightarrow> string \<Rightarrow> job option" where
  "resolvePackageJob r jobId assetId =
     (case (if truthy jobId then get_job r (the jobId) else None) of
        Some byId \<Rightarrow> if j_type byId = Package then Some byId else findActivePackageJob r assetId
      | None \<Rightarrow> findActivePackageJob r assetId)"

definition resolvePackageJobId :: "package_env \<Rightarrow> string option \<Rightarrow> string \<Rightarrow> job_repo \<Rightarrow> string option" where
  "resolvePackageJobId e jobId assetId r =
     (if \<not> pk_hasJobs e \<or> pk_jobsThrow e then None else map_option j_id (resolvePackageJob r jobId assetId))"

definition settlePackageJob :: "update_job_input \<Rightarrow> package_env \<Rightarrow> string option \<Rightarrow> string \<Rightarrow> job_repo
    \<Rightarrow> job_repo \<times> string option" where
  "settlePackageJob patch e jobId assetId r =
     (if \<not> pk_hasJobs e \<or> pk_jobsThrow e then (r, None)
      else case resolvePackageJob r jobId assetId of
             None \<Rightarrow> (r, None)
           | Some job \<Rightarrow>
               if \<not> isActiveJobStatus (j_status job) then (r, Some (j_id job))
               else (case update_job (j_id job) patch (pk_nowText e) r of
                       Inl err \<Rightarrow> (r, None)
                     | Inr (r', _) \<Rightarrow> (r', Some (j_id job))))"

definition completePackageJob :: "package_env \<Rightarrow> string option \<Rightarrow> string \<Rightarrow> job_repo \<Rightarrow> job_repo \<times> string option" where
  "completePackageJob = settlePackageJob (blank_job_patch\<lparr> uj_status := Some JDone, uj_progress := Some (Fin 100) \<rparr>)"

definition failPackageJob :: "package_env \<Rightarrow> string option \<Rightarrow> string \<Rightarrow> string \<Rightarrow> job_repo \<Rightarrow> job_repo \<times> string option" where
  "failPackageJob e jobId assetId reason =
     settlePackageJob (blank_job_patch\<lparr> uj_status := Some JFailed, uj_error := Some reason \<rparr>) e jobId assetId"

section \<open>The sweep over stalled package steps\<close>

definition DEFAULT_PACKAGE_STALL_TIMEOUT_MS :: int where "DEFAULT_PACKAGE_STALL_TIMEOUT_MS = 15 * 60 * 1000"
definition PACKAGE_SCAN_PAGE_SIZE :: nat where "PACKAGE_SCAN_PAGE_SIZE = 200"

definition signed_dec :: "int \<Rightarrow> string" where
  "signed_dec n = (if n < 0 then CHR ''-'' # dec (nat (- n)) else dec (nat n))"

definition DASH :: string where "DASH = [CHR 0xE2, CHR 0x80, CHR 0x94]"

definition buildDiagnostic :: "int \<Rightarrow> bool option \<Rightarrow> string" where
  "buildDiagnostic minutes present =
     (let base = ''packager never signalled completion within '' @ signed_dec minutes @ '' minutes'' in
      case present of
        Some False \<Rightarrow> base @ ''; packager instance present=false '' @ DASH @ '' no packager instance to '' @
           ''consume the packaging job, so no completion callback can arrive''
      | Some True \<Rightarrow> base @ ''; packager instance present=true '' @ DASH @ '' no completion signal received '' @
           ''(stalled packager job or lost completion callback)''
      | None \<Rightarrow> base @ ''; packager instance present=unknown '' @ DASH @ '' completion signal not received'')"

record stalled_env =
  sv_package :: package_env
  sv_parse :: "string \<Rightarrow> int option"
  sv_now :: int
  sv_stallTimeoutMs :: "int option"
  sv_packagerPresent :: "bool option"
  sv_updateThrows :: "string \<Rightarrow> bool"

text \<open>\<^verbatim>\<open>sv_packagerPresent\<close> is the answer of the probe, \<^verbatim>\<open>None\<close> when it is not wired or throws.
  The third component is the DRM settlements asked for.\<close>

definition fail_stalled :: "stalled_env \<Rightarrow> execution \<Rightarrow> run_repos
    \<Rightarrow> run_repos \<times> (string \<times> string option) list \<times> nat \<times> nat" where
  "fail_stalled e execution s =
     (case find_index (runs_step StepPackage) (xn_steps execution) of
        None \<Rightarrow> (s, [], 0, 0)
      | Some idx \<Rightarrow>
          let step = xn_steps execution ! idx;
              bound = coalesce (sv_stallTimeoutMs e) DEFAULT_PACKAGE_STALL_TIMEOUT_MS in
          (case (if truthy (sp_startedAt step) then sv_parse e (the (sp_startedAt step)) else None) of
             None \<Rightarrow> (s, [], 1, 0)
           | Some startedAtMs \<Rightarrow>
               if sv_now e - startedAtMs \<le> bound then (s, [], 1, 0)
               else if sv_updateThrows e (xn_id execution) then (s, [], 1, 0)
               else
                 let minutes = (2 * bound + 60000) div 120000;
                     message = buildDiagnostic minutes (sv_packagerPresent e);
                     now = pk_nowText (sv_package e);
                     steps = (xn_steps execution)[idx := step\<lparr> sp_status := StepFailed, sp_error := Some message,
                       sp_completedAt := Some now \<rparr>];
                     pipes = fst (update_execution (xn_id execution) (steps_patch steps (Some ExecFailed)) now (rr_pipes s));
                     (js, failedId) = failPackageJob (sv_package e) (sp_jobId step) (xn_assetId execution) message (rr_jobs s)
                 in (\<lparr> rr_jobs = js, rr_pipes = pipes \<rparr>, [(xn_assetId execution, failedId)], 1, 1)))"

fun fail_stalled_all :: "stalled_env \<Rightarrow> execution list \<Rightarrow> run_repos
    \<Rightarrow> run_repos \<times> (string \<times> string option) list \<times> nat \<times> nat" where
  "fail_stalled_all e [] s = (s, [], 0, 0)"
| "fail_stalled_all e (x # xs) s =
     (let (s1, d1, n1, f1) = fail_stalled e x s;
          (s2, d2, n2, f2) = fail_stalled_all e xs s1
      in (s2, d1 @ d2, n1 + n2, f1 + f2))"

definition reconcileStalledPackages :: "stalled_env \<Rightarrow> run_repos
    \<Rightarrow> run_repos \<times> (string \<times> string option) list \<times> nat \<times> nat" where
  "reconcileStalledPackages e s =
     fail_stalled_all e (fst (listAll (rr_pipes s) (Some ExecRunning) (Some PACKAGE_SCAN_PAGE_SIZE) (Some 0))) s"

end
