(* ===== verification/Completion.thy ===== *)
theory Completion
  imports Asset_Settle Pipeline_Repo Job_Claims
begin

text \<open>
  What the end of a transcode does to its job and its asset
  (\<^verbatim>\<open>completeTranscode\<close> in \<^verbatim>\<open>src/src/pipeline/transcode.ts\<close>, the reclaim of a cancelled run in
  \<^verbatim>\<open>src/src/pipeline/cancelled-transcode-completion.ts\<close>, and the settling of failed runs in
  \<^verbatim>\<open>src/src/pipeline/failed-transcode-reconciler.ts\<close>). A repository call that rejects throws:
  what was written before it stays written, so a step returns the state beside the error. The
  audit entries are a list in the state; the pipeline log has no counterpart.
\<close>

section \<open>Steps that may throw\<close>

datatype completion_error = BadJobMove job_error | BadAssetMove asset_error

definition then_do :: "'s \<times> ('e + 'a) \<Rightarrow> ('s \<Rightarrow> 'a \<Rightarrow> 's \<times> ('e + 'b)) \<Rightarrow> 's \<times> ('e + 'b)" where
  "then_do r k = (case r of (s, Inl err) \<Rightarrow> (s, Inl err) | (s, Inr a) \<Rightarrow> k s a)"

lemma then_do_simps [simp]:
  "then_do (s, Inl err) k = (s, Inl err)" "then_do (s, Inr a) k = k s a"
  by (simp_all add: then_do_def)

datatype audit_event =
    JobFailedEvent string string string
  | JobCompletedEvent string string nat bool "string option"

record reclaim =
  rc_outputPrefix :: string
  rc_discardedRenditionCount :: nat
  rc_outputRemoved :: bool
  rc_removalError :: "string option"
  rc_assetStatus :: "asset_status option"

record completion_state =
  cs_jobs :: job_repo
  cs_assets :: asset_repo
  cs_audit :: "audit_event list"
  cs_removed :: "string list"
  cs_discards :: "reclaim list"

definition job_write :: "string \<Rightarrow> update_job_input \<Rightarrow> string \<Rightarrow> completion_state \<Rightarrow> completion_state \<times> (completion_error + unit)" where
  "job_write i p now s = (case update_job i p now (cs_jobs s) of
       Inl err \<Rightarrow> (s, Inl (BadJobMove err)) | Inr (r, _) \<Rightarrow> (s\<lparr> cs_jobs := r \<rparr>, Inr ()))"

definition asset_write :: "string \<Rightarrow> update_asset_input \<Rightarrow> string \<Rightarrow> completion_state \<Rightarrow> completion_state \<times> (completion_error + unit)" where
  "asset_write i p now s = (case update_asset i p now (cs_assets s) of
       Inl err \<Rightarrow> (s, Inl (BadAssetMove err)) | Inr (r, _) \<Rightarrow> (s\<lparr> cs_assets := r \<rparr>, Inr ()))"

definition write_status :: "string \<Rightarrow> asset_status \<Rightarrow> string \<Rightarrow> completion_state \<Rightarrow> completion_state \<times> (completion_error + unit)" where
  "write_status i st = asset_write i (empty_patch\<lparr> u_status := Some st \<rparr>)"

section \<open>A completion for a cancelled job\<close>

datatype storage_answer = NoStorage | StorageRemoved | StorageFails string

record completion_env =
  co_now :: string
  co_storage :: storage_answer
  co_ulid :: "nat \<Rightarrow> string"

definition transcodeOutputPrefix :: "string \<Rightarrow> string \<Rightarrow> string" where
  "transcodeOutputPrefix sourceAssetId jobId = ''transcode/'' @ sourceAssetId @ ''/'' @ jobId"

definition reclaimCancelledTranscodeCompletion :: "completion_env \<Rightarrow> job \<Rightarrow> string \<Rightarrow> string \<Rightarrow> nat
    \<Rightarrow> completion_state \<Rightarrow> completion_state \<times> (completion_error + reclaim)" where
  "reclaimCancelledTranscodeCompletion e job sourceAssetId outPrefix reported s =
     (let (s1, outputRemoved, removalError) = (case co_storage e of
            NoStorage \<Rightarrow> (s, False, Some ''object storage is not configured for this stack'')
          | StorageRemoved \<Rightarrow> (s\<lparr> cs_removed := cs_removed s @ [outPrefix] \<rparr>, True, None)
          | StorageFails err \<Rightarrow> (s, False, Some err))
      in then_do (job_write (j_id job) (blank_job_patch\<lparr> uj_lateCompletionDiscarded := Some True,
             uj_discardedRenditionCount := Some (int reported), uj_discardedOutputPrefix := Some outPrefix \<rparr>) (co_now e) s1)
           (\<lambda>s2 _. let (assets, outcome) = recomputeAssetStateAfterTerminalJob job (cs_assets s2) (cs_jobs s2) sourceAssetId (co_now e)
              in (s2\<lparr> cs_assets := assets \<rparr>, Inr \<lparr> rc_outputPrefix = outPrefix, rc_discardedRenditionCount = reported,
                   rc_outputRemoved = outputRemoved, rc_removalError = (if truthy removalError then removalError else None),
                   rc_assetStatus = (case outcome of Applied st \<Rightarrow> Some st | _ \<Rightarrow> None) \<rparr>)))"

section \<open>completeTranscode\<close>

record callback_rendition =
  cr_label :: string
  cr_width :: jsnum
  cr_height :: jsnum
  cr_objectKey :: string
  cr_codec :: "string option"
  cr_bitrateBps :: "jsnum option"

record complete_params =
  cp_jobId :: string
  cp_sourceAssetId :: string
  cp_success :: bool
  cp_error :: "string option"
  cp_renditions :: "callback_rendition list"
  cp_conditionalDrop :: "bool option"

record complete_result =
  cr_applied :: bool
  cr_renditionCount :: nat
  cr_renditions :: "rendition list"

definition not_applied :: complete_result where
  "not_applied = \<lparr> cr_applied = False, cr_renditionCount = 0, cr_renditions = [] \<rparr>"

definition apply_failure :: "completion_env \<Rightarrow> complete_params \<Rightarrow> job \<Rightarrow> completion_state
    \<Rightarrow> completion_state \<times> (completion_error + complete_result)" where
  "apply_failure e p job s =
     (let err = coalesce (cp_error p) ''transcode failed'' in
      then_do (job_write (cp_jobId p) (blank_job_patch\<lparr> uj_status := Some JFailed, uj_error := Some err,
          uj_droppedByScaler := Some (cp_conditionalDrop p = Some True) \<rparr>) (co_now e) s)
        (\<lambda>s1 _. then_do (write_status (cp_sourceAssetId p) Failed (co_now e) s1)
          (\<lambda>s2 _. (s2\<lparr> cs_audit := cs_audit s2 @ [JobFailedEvent (j_id job) (cp_sourceAssetId p) err] \<rparr>,
             Inr \<lparr> cr_applied = True, cr_renditionCount = 0, cr_renditions = [] \<rparr>))))"

definition embedded_renditions :: "(nat \<Rightarrow> string) \<Rightarrow> callback_rendition list \<Rightarrow> rendition list" where
  "embedded_renditions ulid rs = List.map (\<lambda>(k, r). \<lparr> rn_id = ulid k, rn_label = cr_label r, rn_width = cr_width r,
     rn_height = cr_height r, rn_objectKey = cr_objectKey r, rn_codec = cr_codec r, rn_bitrateBps = cr_bitrateBps r \<rparr>)
     (List.enumerate 0 rs)"

text \<open>The marker for manifests packaged from the previous renditions, then the status.\<close>

definition mark_stale :: "completion_env \<Rightarrow> string \<Rightarrow> asset option \<Rightarrow> completion_state \<Rightarrow> completion_state \<times> (completion_error + unit)" where
  "mark_stale e i refreshed s = (case refreshed of
       Some a \<Rightarrow>
         if (case a_manifestUrls a of Some u \<Rightarrow> truthy (mu_hls u) \<or> truthy (mu_dash u) | None \<Rightarrow> False)
            \<and> a_packagedOutputStale a \<noteq> Some True
         then asset_write i (empty_patch\<lparr> u_packagedOutputStale := Some True \<rparr>) (co_now e) s
         else (s, Inr ())
     | None \<Rightarrow> (s, Inr ()))"

definition settle_source :: "completion_env \<Rightarrow> string \<Rightarrow> asset option \<Rightarrow> completion_state \<Rightarrow> completion_state \<times> (completion_error + unit)" where
  "settle_source e i refreshed s = (case refreshed of
       None \<Rightarrow> (s, Inr ())
     | Some a \<Rightarrow>
         if a_status a = Processing then write_status i Ready (co_now e) s
         else if a_status a = Failed
         then then_do (write_status i Processing (co_now e) s) (\<lambda>s1 _. write_status i Ready (co_now e) s1)
         else (s, Inr ()))"

definition done_patch :: "bool \<Rightarrow> string option \<Rightarrow> update_job_input" where
  "done_patch corrected clearedDropError =
     blank_job_patch\<lparr> uj_status := Some JDone, uj_progress := Some (Fin 100), uj_droppedByScaler := Some False,
       uj_clearError := Some True,
       uj_droppedThenRecovered := (if corrected then Some True else None),
       uj_correctedDropError := (if corrected \<and> truthy clearedDropError then clearedDropError else None) \<rparr>"

text \<open>The last write: the job is done, and a corrected drop stays readable on it.\<close>

definition finish_success :: "completion_env \<Rightarrow> complete_params \<Rightarrow> job \<Rightarrow> bool \<Rightarrow> rendition list \<Rightarrow> completion_state
    \<Rightarrow> completion_state \<times> (completion_error + complete_result)" where
  "finish_success e p job corrected renditions s =
     (let clearedDropError = (if corrected then j_error job else None) in
      then_do (job_write (cp_jobId p) (done_patch corrected clearedDropError) (co_now e) s) (\<lambda>s1 _.
        (s1\<lparr> cs_audit := cs_audit s1 @ [JobCompletedEvent (j_id job) (cp_sourceAssetId p) (length renditions) corrected
                (if truthy clearedDropError then clearedDropError else None)] \<rparr>,
         Inr \<lparr> cr_applied = True, cr_renditionCount = length renditions, cr_renditions = renditions \<rparr>)))"

definition apply_success :: "completion_env \<Rightarrow> complete_params \<Rightarrow> job \<Rightarrow> bool \<Rightarrow> completion_state
    \<Rightarrow> completion_state \<times> (completion_error + complete_result)" where
  "apply_success e p job corrected s =
     (let renditions = embedded_renditions (co_ulid e) (cp_renditions p); i = cp_sourceAssetId p in
      then_do (asset_write i (empty_patch\<lparr> u_renditions := Some renditions \<rparr>) (co_now e) s)
        (\<lambda>s1 _. let refreshed = get (cs_assets s1) i in
           then_do (mark_stale e i refreshed s1) (\<lambda>s2 _.
           then_do (settle_source e i refreshed s2) (\<lambda>s3 _. finish_success e p job corrected renditions s3))))"

definition completeTranscode :: "completion_env \<Rightarrow> complete_params \<Rightarrow> completion_state
    \<Rightarrow> completion_state \<times> (completion_error + complete_result)" where
  "completeTranscode e p s = (case get_job (cs_jobs s) (cp_jobId p) of
       None \<Rightarrow> (s, Inr not_applied)
     | Some job \<Rightarrow>
         let isConditionalDropFailed = (j_status job = JFailed \<and> j_droppedByScaler job = Some True) in
         if j_status job = JCancelled
         then then_do (reclaimCancelledTranscodeCompletion e job (cp_sourceAssetId p)
                  (transcodeOutputPrefix (cp_sourceAssetId p) (j_id job)) (length (cp_renditions p)) s)
                (\<lambda>s1 reclaim. (s1\<lparr> cs_discards := cs_discards s1 @ [reclaim] \<rparr>, Inr not_applied))
         else if j_status job = JDone then (s, Inr not_applied)
         else if j_status job = JFailed \<and> \<not> (isConditionalDropFailed \<and> cp_success p) then (s, Inr not_applied)
         else if \<not> cp_success p then apply_failure e p job s
         else apply_success e p job isConditionalDropFailed s)"

section \<open>Settling a failed run\<close>

datatype drop_reason = EncoreError | GoneFromActiveSet

record settle_state =
  ss_core :: completion_state
  ss_pipes :: pipeline_repo
  ss_cancelled :: "string list"

text \<open>\<open>detail\<close> is \<^verbatim>\<open>buildSourceReadErrorDetail\<close> of the failure text, the encoder id and the asset.\<close>

definition releasePipelineLock :: "(string \<Rightarrow> string option \<Rightarrow> string \<Rightarrow> json option) \<Rightarrow> string \<Rightarrow> string \<Rightarrow> string \<Rightarrow> job
    \<Rightarrow> pipeline_repo \<Rightarrow> pipeline_repo" where
  "releasePipelineLock detail now assetId err job r =
     (case findRunningByAssetAndStep r assetId StepTranscode of
        None \<Rightarrow> r
      | Some execution \<Rightarrow>
          (case find_index (\<lambda>s. sp_name s = StepTranscode) (xn_steps execution) of
             None \<Rightarrow> r
           | Some tIdx \<Rightarrow>
               let step = xn_steps execution ! tIdx;
                   errorDetail = detail err (if sp_encoreJobId step \<noteq> None then sp_encoreJobId step else j_encoreJobId job) assetId;
                   steps = (xn_steps execution)[tIdx := step\<lparr> sp_status := StepFailed, sp_error := Some err,
                     sp_errorDetail := (if errorDetail \<noteq> None then errorDetail else sp_errorDetail step),
                     sp_completedAt := Some now \<rparr>]
               in fst (update_execution (xn_id execution) (steps_patch steps (Some ExecFailed)) now r)))"

record settle_env =
  sn_completion :: completion_env
  sn_detail :: "string \<Rightarrow> string option \<Rightarrow> string \<Rightarrow> json option"
  sn_hasPipeline :: bool
  sn_hasEncore :: bool

text \<open>Every throw is swallowed here; the transcode's end is not dispatched to webhooks in the model.\<close>

definition settleFailedTranscode :: "settle_env \<Rightarrow> job \<Rightarrow> string \<Rightarrow> drop_reason \<Rightarrow> settle_state \<Rightarrow> settle_state" where
  "settleFailedTranscode e job err reason s =
     (let (core, res) = completeTranscode (sn_completion e) \<lparr> cp_jobId = j_id job, cp_sourceAssetId = j_assetId job,
            cp_success = False, cp_error = Some err, cp_renditions = [],
            cp_conditionalDrop = Some (reason = GoneFromActiveSet) \<rparr> (ss_core s);
          s1 = s\<lparr> ss_core := core \<rparr>
      in case res of
           Inl _ \<Rightarrow> s1
         | Inr result \<Rightarrow>
             let s2 = (if cr_applied result \<and> sn_hasPipeline e
                       then s1\<lparr> ss_pipes := releasePipelineLock (sn_detail e) (co_now (sn_completion e)) (j_assetId job) err job (ss_pipes s1) \<rparr>
                       else s1)
             in if cr_applied result \<and> reason = EncoreError \<and> sn_hasEncore e \<and> truthy (j_encoreJobId job)
                then s2\<lparr> ss_cancelled := ss_cancelled s2 @ [the (j_encoreJobId job)] \<rparr> else s2)"

section \<open>The sweep over failed runs\<close>

definition DEFAULT_STALL_TIMEOUT_MS :: int where "DEFAULT_STALL_TIMEOUT_MS = 30 * 60 * 1000"
definition TRANSCODE_SCAN_PAGE_SIZE :: nat where "TRANSCODE_SCAN_PAGE_SIZE = 200"

text \<open>\<^verbatim>\<open>getJobStatus\<close>: it throws, or answers with a status or with none.\<close>

datatype status_answer = StatusThrows | StatusIs "string option"

record failed_sweep_env =
  rl_settle :: settle_env
  rl_getJobStatus :: "string \<Rightarrow> status_answer"
  rl_parse :: "string \<Rightarrow> int option"
  rl_now :: int
  rl_stallTimeoutMs :: "int option"

definition reconcile_failed_one :: "failed_sweep_env \<Rightarrow> job \<Rightarrow> settle_state \<Rightarrow> settle_state \<times> nat \<times> nat" where
  "reconcile_failed_one e job s =
     (if j_type job \<noteq> Transcode \<or> j_status job \<notin> {JPending, JQueued, JRunning} \<or> \<not> truthy (j_encoreInternalJobId job) then (s, 0, 0)
      else case rl_getJobStatus e (the (j_encoreInternalJobId job)) of
             StatusThrows \<Rightarrow> (s, 1, 0)
           | StatusIs status \<Rightarrow>
               if status = Some ''failed''
               then (settleFailedTranscode (rl_settle e) job ''transcode failed on Encore'' EncoreError s, 1, 1)
               else if status = None
               then let ageMs = (case rl_parse e (j_updatedAt job) of None \<Rightarrow> 0 | Some t \<Rightarrow> rl_now e - t) in
                    if coalesce (rl_stallTimeoutMs e) DEFAULT_STALL_TIMEOUT_MS < ageMs
                    then (settleFailedTranscode (rl_settle e) job ''transcode timed out: Encore has no record of the job'' EncoreError s, 1, 1)
                    else (s, 1, 0)
               else (s, 1, 0))"

fun reconcile_failed_all :: "failed_sweep_env \<Rightarrow> job list \<Rightarrow> settle_state \<Rightarrow> settle_state \<times> nat \<times> nat" where
  "reconcile_failed_all e [] s = (s, 0, 0)"
| "reconcile_failed_all e (j # js) s =
     (let (s1, n1, f1) = reconcile_failed_one e j s; (s2, n2, f2) = reconcile_failed_all e js s1 in (s2, n1 + n2, f1 + f2))"

definition reconcileFailedTranscodes :: "failed_sweep_env \<Rightarrow> settle_state \<Rightarrow> settle_state \<times> nat \<times> nat" where
  "reconcileFailedTranscodes e s =
     reconcile_failed_all e (fst (list_jobs (cs_jobs (ss_core s)) (Some TRANSCODE_SCAN_PAGE_SIZE) (Some 0))) s"

section \<open>Single writes\<close>

lemma job_write_status:
  assumes "get_job (cs_jobs s) i = Some j" "uj_status p = Some st"
  shows "isValidJobTransition (j_status j) st \<Longrightarrow> \<exists>j'. job_write i p now s = (s\<lparr> cs_jobs := put_job i j' (cs_jobs s) \<rparr>, Inr ())
      \<and> applyJobPatch j p now = Inr j' \<and> j_status j' = st \<and> j_id j' = j_id j \<and> j_assetId j' = j_assetId j"
    "\<not> isValidJobTransition (j_status j) st \<Longrightarrow> job_write i p now s = (s, Inl (BadJobMove (InvalidJobTransition (j_status j) st)))"
proof -
  show "\<not> isValidJobTransition (j_status j) st \<Longrightarrow> job_write i p now s = (s, Inl (BadJobMove (InvalidJobTransition (j_status j) st)))"
    using assms by (simp add: job_write_def update_job_def get_job_def applyJobPatch_def)
  assume v: "isValidJobTransition (j_status j) st"
  obtain j' where j': "applyJobPatch j p now = Inr j'" using assms(2) v by (auto simp: applyJobPatch_def Let_def)
  then have "j_status j' = st" "j_id j' = j_id j" "j_assetId j' = j_assetId j"
    using assms(2) v by (auto simp: applyJobPatch_def Let_def jset_def split: if_splits)
  then show "\<exists>j'. job_write i p now s = (s\<lparr> cs_jobs := put_job i j' (cs_jobs s) \<rparr>, Inr ())
      \<and> applyJobPatch j p now = Inr j' \<and> j_status j' = st \<and> j_id j' = j_id j \<and> j_assetId j' = j_assetId j"
    using j' assms(1) by (simp add: job_write_def update_job_def get_job_def)
qed

text \<open>The patches of this component, on the fields it reads.\<close>

lemma status_patch_only:
  assumes "isValidTransition (a_status a) st"
  shows "\<exists>h pv. patch_asset a (empty_patch\<lparr> u_status := Some st \<rparr>) now
    = Inr (a\<lparr> a_updatedAt := now, a_status := st, a_statusHistory := h, a_provenance := pv \<rparr>)"
proof -
  let ?pv = "Some (coalesce (a_provenance a) [] @ provenanceForPatch (empty_patch\<lparr> u_status := Some st \<rparr>) now)"
  have f: "patch_fields a (empty_patch\<lparr> u_status := Some st \<rparr>) n = n" for n
    by (simp add: empty_patch_def patch_fields_def patch_defs opt_set_def Let_def)
  have p: "patch_provenance a (empty_patch\<lparr> u_status := Some st \<rparr>) now n = n\<lparr> a_provenance := ?pv \<rparr>" for n
    by (simp add: patch_provenance_def provenanceForPatch_def pv_entry_def Let_def)
  obtain h where "applyStatus (a_status a) st (a_statusHistory a) now None = Inr (st, h)"
    using assms by (cases "a_status a = st") (auto simp: applyStatus_def)
  then show ?thesis unfolding patch_asset_def Let_def f p by (auto simp: empty_patch_def)
qed

lemma status_patch_rejected:
  "\<not> isValidTransition (a_status a) st \<Longrightarrow> patch_asset a (empty_patch\<lparr> u_status := Some st \<rparr>) now
    = Inl (InvalidStateTransition (a_status a) st)"
  by (simp add: patch_asset_def applyStatus_def empty_patch_def)

lemma renditions_patch_only:
  "\<exists>pv. patch_asset a (empty_patch\<lparr> u_renditions := Some rs \<rparr>) now
    = Inr (a\<lparr> a_updatedAt := now, a_renditions := Some rs, a_provenance := pv \<rparr>)"
  by (auto simp: patch_asset_def empty_patch_def patch_fields_def patch_defs opt_set_def
      patch_provenance_def provenanceForPatch_def pv_entry_def Let_def)

lemma stale_patch_only:
  "patch_asset a (empty_patch\<lparr> u_packagedOutputStale := Some True \<rparr>) now
    = Inr (a\<lparr> a_updatedAt := now, a_packagedOutputStale := Some True \<rparr>)"
  by (simp add: patch_asset_def empty_patch_def patch_fields_def patch_defs opt_set_def
      patch_provenance_def provenanceForPatch_def pv_entry_def Let_def)

lemma asset_write_some:
  "get (cs_assets s) i = Some a \<Longrightarrow> patch_asset a p now = Inr a' \<Longrightarrow>
     asset_write i p now s = (s\<lparr> cs_assets := put i a' (cs_assets s) \<rparr>, Inr ())"
  by (simp add: asset_write_def update_asset_def get_def)

lemma write_status_cases:
  assumes "get (cs_assets s) i = Some a"
  shows "isValidTransition (a_status a) st \<Longrightarrow> \<exists>h pv. write_status i st now s
      = (s\<lparr> cs_assets := put i (a\<lparr> a_updatedAt := now, a_status := st, a_statusHistory := h, a_provenance := pv \<rparr>) (cs_assets s) \<rparr>, Inr ())"
    "\<not> isValidTransition (a_status a) st \<Longrightarrow> write_status i st now s = (s, Inl (BadAssetMove (InvalidStateTransition (a_status a) st)))"
proof -
  show "\<not> isValidTransition (a_status a) st \<Longrightarrow> write_status i st now s = (s, Inl (BadAssetMove (InvalidStateTransition (a_status a) st)))"
    using assms status_patch_rejected [of a st now] by (simp add: write_status_def asset_write_def update_asset_def get_def)
  assume "isValidTransition (a_status a) st"
  then obtain h pv where "patch_asset a (empty_patch\<lparr> u_status := Some st \<rparr>) now
    = Inr (a\<lparr> a_updatedAt := now, a_status := st, a_statusHistory := h, a_provenance := pv \<rparr>)" using status_patch_only by blast
  from asset_write_some [OF assms this] show "\<exists>h pv. write_status i st now s
      = (s\<lparr> cs_assets := put i (a\<lparr> a_updatedAt := now, a_status := st, a_statusHistory := h, a_provenance := pv \<rparr>) (cs_assets s) \<rparr>, Inr ())"
    unfolding write_status_def by blast
qed

lemma get_put_asset [simp]: "get (put i a r) k = (if k = i then Some a else get r k)"
  by (simp add: get_def put_def)

lemma get_put_job [simp]: "get_job (put_job i j r) k = (if k = i then Some j else get_job r k)"
  by (simp add: get_job_def put_job_def)

text \<open>What the two terminal patches leave on the job.\<close>

lemma fail_patch_only:
  assumes "isValidJobTransition (j_status j) JFailed"
  shows "applyJobPatch j (blank_job_patch\<lparr> uj_status := Some JFailed, uj_error := Some err, uj_droppedByScaler := Some b \<rparr>) now
    = Inr (j\<lparr> j_updatedAt := now, j_status := JFailed, j_error := Some err, j_droppedByScaler := Some b \<rparr>)"
  using assms by (simp add: applyJobPatch_def blank_job_patch_def job_patch_fields_def jset_def Let_def)

lemma done_patch_only:
  assumes "isValidJobTransition (j_status j) JDone"
  shows "applyJobPatch j (done_patch c d) now
    = Inr (j\<lparr> j_updatedAt := now, j_status := JDone, j_progress := Fin 100, j_droppedByScaler := Some False, j_error := None,
        j_droppedThenRecovered := (if c then Some True else j_droppedThenRecovered j),
        j_correctedDropError := (if c \<and> truthy d then d else j_correctedDropError j) \<rparr>)"
proof -
  have p: "clampProgress (Fin 100) = Fin 100" by (simp add: clampProgress_def)
  show ?thesis using assms p
    by (cases c; cases "truthy d"; cases d)
      (simp_all add: applyJobPatch_def done_patch_def blank_job_patch_def job_patch_fields_def jset_def Let_def)
qed

lemma job_write_Inr:
  "get_job (cs_jobs s) i = Some j \<Longrightarrow> applyJobPatch j p now = Inr j' \<Longrightarrow>
     job_write i p now s = (s\<lparr> cs_jobs := put_job i j' (cs_jobs s) \<rparr>, Inr ())"
  by (simp add: job_write_def update_job_def get_job_def)

section \<open>The two ends of a run\<close>

lemma apply_failure_outcome:
  fixes e :: completion_env
  assumes j: "get_job (cs_jobs s) (cp_jobId p) = Some j" "isValidJobTransition (j_status j) JFailed"
    and a: "get (cs_assets s) (cp_sourceAssetId p) = Some a"
  defines "j' \<equiv> j\<lparr> j_updatedAt := co_now e, j_status := JFailed, j_error := Some (coalesce (cp_error p) ''transcode failed''),
      j_droppedByScaler := Some (cp_conditionalDrop p = Some True) \<rparr>"
  shows "isValidTransition (a_status a) Failed \<Longrightarrow> \<exists>h pv au. apply_failure e p j s
      = (s\<lparr> cs_jobs := put_job (cp_jobId p) j' (cs_jobs s),
            cs_assets := put (cp_sourceAssetId p) (a\<lparr> a_updatedAt := co_now e, a_status := Failed, a_statusHistory := h, a_provenance := pv \<rparr>) (cs_assets s),
            cs_audit := au \<rparr>, Inr \<lparr> cr_applied = True, cr_renditionCount = 0, cr_renditions = [] \<rparr>)"
    "\<not> isValidTransition (a_status a) Failed \<Longrightarrow> apply_failure e p j s
      = (s\<lparr> cs_jobs := put_job (cp_jobId p) j' (cs_jobs s) \<rparr>, Inl (BadAssetMove (InvalidStateTransition (a_status a) Failed)))"
proof -
  let ?s1 = "s\<lparr> cs_jobs := put_job (cp_jobId p) j' (cs_jobs s) \<rparr>"
  note w = job_write_Inr [OF j(1) fail_patch_only [OF j(2), where err = "coalesce (cp_error p) ''transcode failed''" and b = "cp_conditionalDrop p = Some True" and now = "co_now e"], folded j'_def]
  have g: "get (cs_assets ?s1) (cp_sourceAssetId p) = Some a" using a by simp
  note ws = write_status_cases [OF g, of Failed "co_now e"]
  show "\<not> isValidTransition (a_status a) Failed \<Longrightarrow> apply_failure e p j s
      = (?s1, Inl (BadAssetMove (InvalidStateTransition (a_status a) Failed)))"
    using ws(2) by (simp add: apply_failure_def Let_def w)
  assume "isValidTransition (a_status a) Failed"
  from ws(1) [OF this] obtain h pv where "write_status (cp_sourceAssetId p) Failed (co_now e) ?s1
    = (?s1\<lparr> cs_assets := put (cp_sourceAssetId p) (a\<lparr> a_updatedAt := co_now e, a_status := Failed, a_statusHistory := h, a_provenance := pv \<rparr>) (cs_assets ?s1) \<rparr>, Inr ())"
    by blast
  then have "apply_failure e p j s
      = (s\<lparr> cs_jobs := put_job (cp_jobId p) j' (cs_jobs s),
            cs_assets := put (cp_sourceAssetId p) (a\<lparr> a_updatedAt := co_now e, a_status := Failed, a_statusHistory := h, a_provenance := pv \<rparr>) (cs_assets s),
            cs_audit := cs_audit s @ [JobFailedEvent (j_id j) (cp_sourceAssetId p) (coalesce (cp_error p) ''transcode failed'')] \<rparr>,
         Inr \<lparr> cr_applied = True, cr_renditionCount = 0, cr_renditions = [] \<rparr>)"
    by (simp add: apply_failure_def Let_def w)
  then show "\<exists>h pv au. apply_failure e p j s
      = (s\<lparr> cs_jobs := put_job (cp_jobId p) j' (cs_jobs s),
            cs_assets := put (cp_sourceAssetId p) (a\<lparr> a_updatedAt := co_now e, a_status := Failed, a_statusHistory := h, a_provenance := pv \<rparr>) (cs_assets s),
            cs_audit := au \<rparr>, Inr \<lparr> cr_applied = True, cr_renditionCount = 0, cr_renditions = [] \<rparr>)" by blast
qed

definition has_manifest :: "asset \<Rightarrow> bool" where
  "has_manifest a = (case a_manifestUrls a of Some u \<Rightarrow> truthy (mu_hls u) \<or> truthy (mu_dash u) | None \<Rightarrow> False)"

text \<open>The asset after a success: renditions, marker and status, whatever it was.\<close>

lemma apply_success_outcome:
  assumes j: "get_job (cs_jobs s) (cp_jobId p) = Some j" "isValidJobTransition (j_status j) JDone"
    and a: "get (cs_assets s) (cp_sourceAssetId p) = Some a"
  shows "\<exists>a' au s'. apply_success e p j c s = (s', Inr \<lparr> cr_applied = True, cr_renditionCount = length (cp_renditions p),
        cr_renditions = embedded_renditions (co_ulid e) (cp_renditions p) \<rparr>)
    \<and> s' = s\<lparr> cs_jobs := put_job (cp_jobId p) (j\<lparr> j_updatedAt := co_now e, j_status := JDone, j_progress := Fin 100,
            j_droppedByScaler := Some False, j_error := None,
            j_droppedThenRecovered := (if c then Some True else j_droppedThenRecovered j),
            j_correctedDropError := (if c \<and> truthy (j_error j) then j_error j else j_correctedDropError j) \<rparr>) (cs_jobs s),
          cs_assets := cs_assets s', cs_audit := au \<rparr>
    \<and> (\<forall>k. get (cs_assets s') k = (if k = cp_sourceAssetId p then Some a' else get (cs_assets s) k))
    \<and> a_renditions a' = Some (embedded_renditions (co_ulid e) (cp_renditions p))
    \<and> a_packagedOutputStale a' = (if has_manifest a then Some True else a_packagedOutputStale a)
    \<and> a_status a' = (if a_status a = Processing \<or> a_status a = Failed then Ready else a_status a)"
proof -
  let ?i = "cp_sourceAssetId p" and ?rs = "embedded_renditions (co_ulid e) (cp_renditions p)" and ?now = "co_now e"
  obtain pv where "patch_asset a (empty_patch\<lparr> u_renditions := Some ?rs \<rparr>) ?now
    = Inr (a\<lparr> a_updatedAt := ?now, a_renditions := Some ?rs, a_provenance := pv \<rparr>)" using renditions_patch_only by blast
  let ?a1 = "a\<lparr> a_updatedAt := ?now, a_renditions := Some ?rs, a_provenance := pv \<rparr>"
  let ?s1 = "s\<lparr> cs_assets := put ?i ?a1 (cs_assets s) \<rparr>"
  have w1: "asset_write ?i (empty_patch\<lparr> u_renditions := Some ?rs \<rparr>) ?now s = (?s1, Inr ())"
    by (rule asset_write_some [OF a]) fact
  have g1: "get (cs_assets ?s1) ?i = Some ?a1" by simp
  obtain a2 s2 where s2: "mark_stale e ?i (Some ?a1) ?s1 = (s2, Inr ())" "s2 = s\<lparr> cs_assets := cs_assets s2 \<rparr>"
    "\<forall>k. get (cs_assets s2) k = (if k = ?i then Some a2 else get (cs_assets s) k)"
    "a_renditions a2 = Some ?rs" "a_status a2 = a_status a"
    "a_packagedOutputStale a2 = (if has_manifest a then Some True else a_packagedOutputStale a)"
  proof (cases "has_manifest a \<and> a_packagedOutputStale a \<noteq> Some True")
    case True
    let ?a2 = "?a1\<lparr> a_updatedAt := ?now, a_packagedOutputStale := Some True \<rparr>"
    have "asset_write ?i (empty_patch\<lparr> u_packagedOutputStale := Some True \<rparr>) ?now ?s1 = (?s1\<lparr> cs_assets := put ?i ?a2 (cs_assets ?s1) \<rparr>, Inr ())"
      by (rule asset_write_some [OF g1 stale_patch_only])
    then show ?thesis using True by (intro that [of "?s1\<lparr> cs_assets := put ?i ?a2 (cs_assets ?s1) \<rparr>" ?a2]) (auto simp: mark_stale_def has_manifest_def)
  next
    case False
    then show ?thesis by (intro that [of ?s1 ?a1]) (auto simp: mark_stale_def has_manifest_def)
  qed
  have g2: "get (cs_assets s2) ?i = Some a2" using s2(3) by simp
  obtain a3 s3 where s3: "settle_source e ?i (Some ?a1) s2 = (s3, Inr ())" "s3 = s\<lparr> cs_assets := cs_assets s3 \<rparr>"
    "\<forall>k. get (cs_assets s3) k = (if k = ?i then Some a3 else get (cs_assets s) k)"
    "a_renditions a3 = Some ?rs" "a_packagedOutputStale a3 = a_packagedOutputStale a2"
    "a_status a3 = (if a_status a = Processing \<or> a_status a = Failed then Ready else a_status a)"
  proof (cases "a_status a = Processing \<or> a_status a = Failed")
    case True
    define s2' where "s2' = (if a_status a = Processing then s2 else fst (write_status ?i Processing ?now s2))"
    have "\<exists>a2'. get (cs_assets s2') ?i = Some a2' \<and> a_status a2' = Processing \<and> a_renditions a2' = Some ?rs
        \<and> a_packagedOutputStale a2' = a_packagedOutputStale a2 \<and> s2' = s\<lparr> cs_assets := cs_assets s2' \<rparr>
        \<and> (\<forall>k. k \<noteq> ?i \<longrightarrow> get (cs_assets s2') k = get (cs_assets s) k)
        \<and> (a_status a = Failed \<longrightarrow> write_status ?i Processing ?now s2 = (s2', Inr ()))"
    proof (cases "a_status a = Processing")
      case True then show ?thesis using s2 g2 by (auto simp: s2'_def)
    next
      case False
      then have f: "a_status a2 = Failed" using True s2(5) by simp
      then have "isValidTransition (a_status a2) Processing" by (simp add: isValidTransition_def)
      from write_status_cases(1) [OF g2 this, of ?now] obtain h pv where
        "write_status ?i Processing ?now s2 = (s2\<lparr> cs_assets := put ?i (a2\<lparr> a_updatedAt := ?now, a_status := Processing,
           a_statusHistory := h, a_provenance := pv \<rparr>) (cs_assets s2) \<rparr>, Inr ())" by blast
      then show ?thesis using False s2(3,4) by (auto simp: s2'_def) (subst s2(2), simp)
    qed
    then obtain a2' where x: "get (cs_assets s2') ?i = Some a2'" "a_status a2' = Processing" "a_renditions a2' = Some ?rs"
      "a_packagedOutputStale a2' = a_packagedOutputStale a2" "s2' = s\<lparr> cs_assets := cs_assets s2' \<rparr>"
      "\<forall>k. k \<noteq> ?i \<longrightarrow> get (cs_assets s2') k = get (cs_assets s) k"
      "a_status a = Failed \<longrightarrow> write_status ?i Processing ?now s2 = (s2', Inr ())" by blast
    have "isValidTransition (a_status a2') Ready" using x(2) by (simp add: isValidTransition_def)
    from write_status_cases(1) [OF x(1) this, of ?now] obtain h pv where
      w: "write_status ?i Ready ?now s2' = (s2'\<lparr> cs_assets := put ?i (a2'\<lparr> a_updatedAt := ?now, a_status := Ready,
         a_statusHistory := h, a_provenance := pv \<rparr>) (cs_assets s2') \<rparr>, Inr ())" by blast
    let ?s3 = "s2'\<lparr> cs_assets := put ?i (a2'\<lparr> a_updatedAt := ?now, a_status := Ready, a_statusHistory := h, a_provenance := pv \<rparr>) (cs_assets s2') \<rparr>"
    have e: "settle_source e ?i (Some ?a1) s2 = (?s3, Inr ())"
    proof (cases "a_status a = Processing")
      case p: True
      then show ?thesis using w by (simp add: settle_source_def s2'_def)
    next
      case p: False
      then have "write_status ?i Processing ?now s2 = (s2', Inr ())" using True x(7) by blast
      then show ?thesis using p True w by (simp add: settle_source_def)
    qed
    have "?s3 = s\<lparr> cs_assets := cs_assets ?s3 \<rparr>" by (subst x(5)) simp
    then show ?thesis using e x True
      by (intro that [of ?s3 "a2'\<lparr> a_updatedAt := ?now, a_status := Ready, a_statusHistory := h, a_provenance := pv \<rparr>"]) auto
  next
    case False
    then show ?thesis using s2 by (intro that [of s2 a2]) (auto simp: settle_source_def)
  qed
  have j3: "get_job (cs_jobs s3) (cp_jobId p) = Some j" by (subst s3(2)) (simp add: j(1))
  note jw = job_write_Inr [OF j3 done_patch_only [OF j(2), where c = c and d = "if c then j_error j else None" and now = ?now]]
  let ?s4 = "s3\<lparr> cs_jobs := put_job (cp_jobId p) (j\<lparr> j_updatedAt := ?now, j_status := JDone, j_progress := Fin 100,
      j_droppedByScaler := Some False, j_error := None, j_droppedThenRecovered := (if c then Some True else j_droppedThenRecovered j),
      j_correctedDropError := (if c \<and> truthy (if c then j_error j else None) then (if c then j_error j else None) else j_correctedDropError j) \<rparr>) (cs_jobs s3) \<rparr>"
  obtain au where run: "apply_success e p j c s = (?s4\<lparr> cs_audit := au \<rparr>, Inr \<lparr> cr_applied = True, cr_renditionCount = length (cp_renditions p), cr_renditions = ?rs \<rparr>)"
    using w1 g1 s2(1) s3(1) jw by (simp add: apply_success_def finish_success_def Let_def) (simp add: embedded_renditions_def)
  have "cs_jobs s3 = cs_jobs s" by (subst s3(2)) simp
  then have eq: "?s4\<lparr> cs_audit := au \<rparr> = s\<lparr> cs_jobs := put_job (cp_jobId p) (j\<lparr> j_updatedAt := ?now, j_status := JDone, j_progress := Fin 100,
      j_droppedByScaler := Some False, j_error := None, j_droppedThenRecovered := (if c then Some True else j_droppedThenRecovered j),
      j_correctedDropError := (if c \<and> truthy (j_error j) then j_error j else j_correctedDropError j) \<rparr>) (cs_jobs s),
      cs_assets := cs_assets s3, cs_audit := au \<rparr>"
    by (subst s3(2)) simp
  show ?thesis
    by (rule exI [of _ a3], rule exI [of _ au], rule exI [of _ "?s4\<lparr> cs_audit := au \<rparr>"], intro conjI)
      (use run eq s3(3-6) s2(6) in simp_all)
qed

section \<open>After the first end\<close>

lemma write_jobs [simp]:
  "cs_jobs (fst (asset_write i q now s)) = cs_jobs s" "cs_jobs (fst (write_status i st now s)) = cs_jobs s"
  by (auto simp: write_status_def asset_write_def split: sum.split)

lemma write_jobs' [simp]:
  "cs_jobs (fst (mark_stale e i a s)) = cs_jobs s" "cs_jobs (fst (settle_source e i a s)) = cs_jobs s"
proof -
  show "cs_jobs (fst (mark_stale e i a s)) = cs_jobs s" by (simp add: mark_stale_def split: option.split)
  have "cs_jobs (fst (then_do (write_status i Processing (co_now e) s) (\<lambda>s1 _. write_status i Ready (co_now e) s1))) = cs_jobs s"
    using write_jobs(2) [of i Processing "co_now e" s]
    by (cases "write_status i Processing (co_now e) s"; cases "snd (write_status i Processing (co_now e) s)") auto
  then show "cs_jobs (fst (settle_source e i a s)) = cs_jobs s" by (simp add: settle_source_def split: option.split)
qed

lemma then_do_Inr:
  assumes "then_do r k = (s', Inr b)"
  obtains s a where "r = (s, Inr a)" "k s a = (s', Inr b)"
  using assms by (cases r; cases "snd r") auto

lemma job_write_done:
  assumes "job_write i p now s = (s', Inr u)" "uj_status p = Some st" "get_job (cs_jobs s) i \<noteq> None"
  shows "\<exists>j'. get_job (cs_jobs s') i = Some j' \<and> j_status j' = st"
proof -
  obtain j where j: "get_job (cs_jobs s) i = Some j" using assms(3) by blast
  show ?thesis
  proof (cases "isValidJobTransition (j_status j) st")
    case True
    from job_write_status(1) [OF j assms(2) True, of now] obtain j' where
      "job_write i p now s = (s\<lparr> cs_jobs := put_job i j' (cs_jobs s) \<rparr>, Inr ())" "j_status j' = st" by blast
    then show ?thesis using assms(1) by auto
  next
    case False
    then show ?thesis using job_write_status(2) [OF j assms(2) False] assms(1) by simp
  qed
qed

lemma applied_is_terminal:
  assumes "completeTranscode e p s = (s1, Inr r)" "cr_applied r"
  shows "\<exists>j'. get_job (cs_jobs s1) (cp_jobId p) = Some j' \<and> (j_status j' = JDone \<or> j_status j' = JFailed)"
proof -
  obtain j where j: "get_job (cs_jobs s) (cp_jobId p) = Some j"
    using assms by (cases "get_job (cs_jobs s) (cp_jobId p)") (auto simp: completeTranscode_def not_applied_def)
  let ?c = "j_status j = JFailed \<and> j_droppedByScaler j = Some True"
  have nc: "j_status j \<noteq> JCancelled"
  proof
    assume "j_status j = JCancelled"
    then show False using assms j by (auto simp: completeTranscode_def not_applied_def elim!: then_do_Inr)
  qed
  have "apply_failure e p j s = (s1, Inr r) \<or> apply_success e p j ?c s = (s1, Inr r)"
    using assms j nc by (auto simp: completeTranscode_def not_applied_def Let_def split: if_splits)
  then show ?thesis
  proof
    assume f: "apply_failure e p j s = (s1, Inr r)"
    obtain sa u where ja: "job_write (cp_jobId p) (blank_job_patch\<lparr> uj_status := Some JFailed, uj_error := Some (coalesce (cp_error p) ''transcode failed''),
          uj_droppedByScaler := Some (cp_conditionalDrop p = Some True) \<rparr>) (co_now e) s = (sa, Inr u)"
      and rest: "then_do (write_status (cp_sourceAssetId p) Failed (co_now e) sa) (\<lambda>s2 _. (s2\<lparr> cs_audit := cs_audit s2 @
          [JobFailedEvent (j_id j) (cp_sourceAssetId p) (coalesce (cp_error p) ''transcode failed'')] \<rparr>,
             Inr \<lparr> cr_applied = True, cr_renditionCount = 0, cr_renditions = [] \<rparr>)) = (s1, Inr r)"
      by (rule then_do_Inr [OF f [unfolded apply_failure_def Let_def]])
    obtain sb v where "write_status (cp_sourceAssetId p) Failed (co_now e) sa = (sb, Inr v)" "cs_jobs s1 = cs_jobs sb"
      by (rule then_do_Inr [OF rest]) auto
    then have "cs_jobs s1 = cs_jobs sa" using write_jobs(2) by (metis fst_conv)
    moreover have "\<exists>j'. get_job (cs_jobs sa) (cp_jobId p) = Some j' \<and> j_status j' = JFailed"
      by (rule job_write_done [OF ja]) (simp_all add: j)
    ultimately show ?thesis by auto
  next
    assume f: "apply_success e p j ?c s = (s1, Inr r)"
    let ?i = "cp_sourceAssetId p"
    let ?rs = "embedded_renditions (co_ulid e) (cp_renditions p)"
    obtain sa u where a1: "asset_write ?i (empty_patch\<lparr> u_renditions := Some ?rs \<rparr>) (co_now e) s = (sa, Inr u)"
      and r1: "then_do (mark_stale e ?i (get (cs_assets sa) ?i) sa) (\<lambda>s2 _. then_do (settle_source e ?i (get (cs_assets sa) ?i) s2)
             (\<lambda>s3 _. finish_success e p j ?c ?rs s3)) = (s1, Inr r)"
      by (rule then_do_Inr [OF f [unfolded apply_success_def Let_def]])
    obtain sb v where a2: "mark_stale e ?i (get (cs_assets sa) ?i) sa = (sb, Inr v)"
      and r2: "then_do (settle_source e ?i (get (cs_assets sa) ?i) sb) (\<lambda>s3 _. finish_success e p j ?c ?rs s3) = (s1, Inr r)"
      by (rule then_do_Inr [OF r1])
    obtain sc w where a3: "settle_source e ?i (get (cs_assets sa) ?i) sb = (sc, Inr w)" and r3: "finish_success e p j ?c ?rs sc = (s1, Inr r)"
      by (rule then_do_Inr [OF r2])
    obtain sd x where a4: "job_write (cp_jobId p) (done_patch ?c (if ?c then j_error j else None)) (co_now e) sc = (sd, Inr x)" "cs_jobs s1 = cs_jobs sd"
      by (rule then_do_Inr [OF r3 [unfolded finish_success_def Let_def]]) auto
    have "cs_jobs sc = cs_jobs s" using a1 a2 a3 write_jobs(1) write_jobs' by (metis fst_conv)
    then have "\<exists>j'. get_job (cs_jobs sd) (cp_jobId p) = Some j' \<and> j_status j' = JDone"
      by (intro job_write_done [OF a4(1)]) (simp_all add: done_patch_def j)
    then show ?thesis using a4(2) by auto
  qed
qed

section \<open>Properties\<close>

text \<open>C18. The first end of a run stands: once a completion was applied, every later one of the same
  job, success or failure, changes nothing, unless it is the success that corrects a failure the
  scaler had only inferred; and a job that is done, or failed on the encoder's word, takes none.\<close>

theorem first_end_stands:
  assumes "completeTranscode e p s = (s1, Inr r)" "cr_applied r" "cp_jobId p' = cp_jobId p"
    and "\<forall>j. get_job (cs_jobs s1) (cp_jobId p) = Some j \<longrightarrow> \<not> (j_status j = JFailed \<and> j_droppedByScaler j = Some True \<and> cp_success p')"
  shows "completeTranscode e' p' s1 = (s1, Inr \<lparr> cr_applied = False, cr_renditionCount = 0, cr_renditions = [] \<rparr>)"
proof -
  obtain j where "get_job (cs_jobs s1) (cp_jobId p) = Some j" "j_status j = JDone \<or> j_status j = JFailed"
    using applied_is_terminal [OF assms(1,2)] by blast
  then show ?thesis using assms(3,4) by (auto simp: completeTranscode_def not_applied_def Let_def)
qed

definition demo_transcode_job :: job where
  "demo_transcode_job = demo_settle_job\<lparr> j_status := JRunning, j_encoreJobId := Some ''ctx__job-1'' \<rparr>"

definition demo_completion :: completion_state where
  "demo_completion = \<lparr> cs_jobs = \<lparr> jobs = [(''job-1'', demo_transcode_job)], counter = 1 \<rparr>,
     cs_assets = \<lparr> store = [(''A'', demo_settle_asset)], tombstones = [] \<rparr>, cs_audit = [], cs_removed = [], cs_discards = [] \<rparr>"

definition demo_completion_env :: completion_env where
  "demo_completion_env = \<lparr> co_now = ''t9'', co_storage = StorageRemoved, co_ulid = (\<lambda>k. ''R'' @ dec k) \<rparr>"

definition demo_end :: "bool \<Rightarrow> complete_params" where
  "demo_end ok = \<lparr> cp_jobId = ''job-1'', cp_sourceAssetId = ''A'', cp_success = ok, cp_error = Some ''gone'',
     cp_renditions = [\<lparr> cr_label = ''rendition-1'', cr_width = Fin 640, cr_height = Fin 360, cr_objectKey = ''k'', cr_codec = None, cr_bitrateBps = None \<rparr>],
     cp_conditionalDrop = Some True \<rparr>"

lemma demo_lookups:
  "get_job (cs_jobs demo_completion) ''job-1'' = Some demo_transcode_job" "get (cs_assets demo_completion) ''A'' = Some demo_settle_asset"
  "j_status demo_transcode_job = JRunning" "a_status demo_settle_asset = Processing"
  "j_id demo_transcode_job = ''job-1''" "j_assetId demo_transcode_job = ''A''"
  by (simp_all add: demo_completion_def get_job_def get_def demo_transcode_job_def demo_settle_job_def demo_settle_asset_def new_job_def)

theorem first_end_stands_witness:
  "\<exists>s1. completeTranscode demo_completion_env (demo_end True) demo_completion = (s1, Inr \<lparr> cr_applied = True, cr_renditionCount = 1,
        cr_renditions = embedded_renditions (co_ulid demo_completion_env) (cp_renditions (demo_end True)) \<rparr>)
     \<and> completeTranscode demo_completion_env (demo_end False) s1 = (s1, Inr \<lparr> cr_applied = False, cr_renditionCount = 0, cr_renditions = [] \<rparr>)"
proof -
  have v: "isValidJobTransition (j_status demo_transcode_job) JDone" by (simp add: demo_lookups isValidJobTransition_def)
  have l: "get_job (cs_jobs demo_completion) (cp_jobId (demo_end True)) = Some demo_transcode_job"
    "get (cs_assets demo_completion) (cp_sourceAssetId (demo_end True)) = Some demo_settle_asset" by (simp_all add: demo_end_def demo_lookups)
  obtain s1 where a: "apply_success demo_completion_env (demo_end True) demo_transcode_job False demo_completion
    = (s1, Inr \<lparr> cr_applied = True, cr_renditionCount = 1,
        cr_renditions = embedded_renditions (co_ulid demo_completion_env) (cp_renditions (demo_end True)) \<rparr>)"
    using apply_success_outcome [OF l(1) v l(2), of demo_completion_env False] by (auto simp: demo_end_def)
  then have c: "completeTranscode demo_completion_env (demo_end True) demo_completion
    = (s1, Inr \<lparr> cr_applied = True, cr_renditionCount = 1,
        cr_renditions = embedded_renditions (co_ulid demo_completion_env) (cp_renditions (demo_end True)) \<rparr>)"
    by (simp add: completeTranscode_def l demo_lookups) (simp add: demo_end_def)
  have "completeTranscode demo_completion_env (demo_end False) s1 = (s1, Inr \<lparr> cr_applied = False, cr_renditionCount = 0, cr_renditions = [] \<rparr>)"
    by (rule first_end_stands [OF c]) (simp_all add: demo_end_def)
  with c show ?thesis by blast
qed

lemma completeTranscode_ends:
  assumes "get_job (cs_jobs s) (cp_jobId p) = Some j"
  shows "isActiveJobStatus (j_status j) \<Longrightarrow> \<not> cp_success p \<Longrightarrow> completeTranscode e p s = apply_failure e p j s"
    "isActiveJobStatus (j_status j) \<Longrightarrow> cp_success p \<Longrightarrow> completeTranscode e p s = apply_success e p j False s"
    "j_status j = JFailed \<Longrightarrow> j_droppedByScaler j = Some True \<Longrightarrow> cp_success p \<Longrightarrow> completeTranscode e p s = apply_success e p j True s"
proof -
  have na: "j_status j \<noteq> JCancelled" "j_status j \<noteq> JDone" "j_status j \<noteq> JFailed" if "isActiveJobStatus (j_status j)"
    using that isActiveJobStatus_simps(4-6) by auto
  show "isActiveJobStatus (j_status j) \<Longrightarrow> \<not> cp_success p \<Longrightarrow> completeTranscode e p s = apply_failure e p j s"
    "isActiveJobStatus (j_status j) \<Longrightarrow> cp_success p \<Longrightarrow> completeTranscode e p s = apply_success e p j False s"
    using na by (simp_all add: completeTranscode_def assms Let_def)
  show "j_status j = JFailed \<Longrightarrow> j_droppedByScaler j = Some True \<Longrightarrow> cp_success p \<Longrightarrow> completeTranscode e p s = apply_success e p j True s"
    by (simp add: completeTranscode_def assms Let_def)
qed

text \<open>C19. A drop the scaler only inferred is undone by the success that follows: after the conditional
  failure of a running transcode (job and asset failed), a late success makes the job done with its
  progress complete and no error, keeps the corrected error beside it, and takes the asset through
  processing back to ready with its renditions.\<close>

theorem inferred_drop_is_corrected:
  assumes "get_job (cs_jobs s) (cp_jobId pd) = Some j" "j_status j = JRunning"
    and "get (cs_assets s) (cp_sourceAssetId pd) = Some a" "a_status a = Processing"
    and "\<not> cp_success pd" "cp_conditionalDrop pd = Some True" "cp_error pd = Some err" "err \<noteq> []"
    and "cp_success p" "cp_jobId p = cp_jobId pd" "cp_sourceAssetId p = cp_sourceAssetId pd"
  shows "\<exists>s1 r1 s2 r2 j1 j2 a1 a2. completeTranscode e pd s = (s1, Inr r1) \<and> cr_applied r1
    \<and> get_job (cs_jobs s1) (cp_jobId pd) = Some j1 \<and> j_status j1 = JFailed \<and> j_droppedByScaler j1 = Some True
    \<and> get (cs_assets s1) (cp_sourceAssetId pd) = Some a1 \<and> a_status a1 = Failed
    \<and> completeTranscode e' p s1 = (s2, Inr r2) \<and> cr_applied r2
    \<and> get_job (cs_jobs s2) (cp_jobId pd) = Some j2 \<and> j_status j2 = JDone \<and> j_progress j2 = Fin 100 \<and> j_error j2 = None
    \<and> j_droppedByScaler j2 = Some False \<and> j_droppedThenRecovered j2 = Some True \<and> j_correctedDropError j2 = Some err
    \<and> get (cs_assets s2) (cp_sourceAssetId pd) = Some a2 \<and> a_status a2 = Ready
    \<and> a_renditions a2 = Some (embedded_renditions (co_ulid e') (cp_renditions p))"
proof -
  have v: "isValidJobTransition (j_status j) JFailed" "isValidTransition (a_status a) Failed" "isActiveJobStatus (j_status j)"
    using assms(2,4) by (simp_all add: isValidJobTransition_def isValidTransition_def)
  let ?j1 = "j\<lparr> j_updatedAt := co_now e, j_status := JFailed, j_error := Some err, j_droppedByScaler := Some True \<rparr>"
  obtain h pv au where c1: "completeTranscode e pd s = (s\<lparr> cs_jobs := put_job (cp_jobId pd) ?j1 (cs_jobs s),
      cs_assets := put (cp_sourceAssetId pd) (a\<lparr> a_updatedAt := co_now e, a_status := Failed, a_statusHistory := h, a_provenance := pv \<rparr>) (cs_assets s),
      cs_audit := au \<rparr>, Inr \<lparr> cr_applied = True, cr_renditionCount = 0, cr_renditions = [] \<rparr>)"
    using apply_failure_outcome(1) [OF assms(1) v(1) assms(3) v(2), of e] completeTranscode_ends(1) [OF assms(1) v(3) assms(5), of e] assms(6,7)
    by auto
  let ?s1 = "s\<lparr> cs_jobs := put_job (cp_jobId pd) ?j1 (cs_jobs s),
      cs_assets := put (cp_sourceAssetId pd) (a\<lparr> a_updatedAt := co_now e, a_status := Failed, a_statusHistory := h, a_provenance := pv \<rparr>) (cs_assets s),
      cs_audit := au \<rparr>"
  have g: "get_job (cs_jobs ?s1) (cp_jobId p) = Some ?j1" "isValidJobTransition (j_status ?j1) JDone"
    "get (cs_assets ?s1) (cp_sourceAssetId p) = Some (a\<lparr> a_updatedAt := co_now e, a_status := Failed, a_statusHistory := h, a_provenance := pv \<rparr>)"
    using assms(10,11) by (simp_all add: isValidJobTransition_def)
  have c2: "completeTranscode e' p ?s1 = apply_success e' p ?j1 True ?s1"
    by (rule completeTranscode_ends(3) [OF g(1)]) (simp_all add: assms(9))
  obtain a2 au2 s2 where o: "completeTranscode e' p ?s1 = (s2, Inr \<lparr> cr_applied = True, cr_renditionCount = length (cp_renditions p),
        cr_renditions = embedded_renditions (co_ulid e') (cp_renditions p) \<rparr>)"
    "s2 = ?s1\<lparr> cs_jobs := put_job (cp_jobId p) (?j1\<lparr> j_updatedAt := co_now e', j_status := JDone, j_progress := Fin 100,
            j_droppedByScaler := Some False, j_error := None, j_droppedThenRecovered := Some True,
            j_correctedDropError := Some err \<rparr>) (cs_jobs ?s1), cs_assets := cs_assets s2, cs_audit := au2 \<rparr>"
    "get (cs_assets s2) (cp_sourceAssetId p) = Some a2" "a_renditions a2 = Some (embedded_renditions (co_ulid e') (cp_renditions p))"
    "a_status a2 = Ready"
    using apply_success_outcome [OF g(1,2,3), of e' True] assms(8) unfolding c2 by auto
  have jj: "get_job (cs_jobs s2) (cp_jobId pd) = Some (?j1\<lparr> j_updatedAt := co_now e', j_status := JDone, j_progress := Fin 100,
            j_droppedByScaler := Some False, j_error := None, j_droppedThenRecovered := Some True, j_correctedDropError := Some err \<rparr>)"
    by (subst o(2)) (simp add: assms(10))
  show ?thesis
    by (intro exI conjI, rule c1, simp, simp, simp, simp, simp, simp, rule o(1), simp, rule jj) (use o assms(11) in simp_all)
qed

theorem inferred_drop_is_corrected_witness:
  "\<exists>s1 r1 s2 r2 j2. completeTranscode demo_completion_env (demo_end False) demo_completion = (s1, Inr r1)
     \<and> completeTranscode demo_completion_env (demo_end True) s1 = (s2, Inr r2)
     \<and> get_job (cs_jobs s2) ''job-1'' = Some j2 \<and> j_status j2 = JDone \<and> j_correctedDropError j2 = Some ''gone''"
  using inferred_drop_is_corrected [of demo_completion "demo_end False" demo_transcode_job demo_settle_asset "''gone''" "demo_end True"
      demo_completion_env demo_completion_env] demo_lookups
  by (fastforce simp: demo_end_def)

text \<open>C0. Completing a transcode: the success of an active run that may finish makes the job done with
  no error, gives the source asset exactly the reported renditions, brings it from processing or
  failed to ready, and marks its packaged output stale exactly when it has manifests; no other job
  or asset changes.\<close>

theorem success_completes:
  assumes "get_job (cs_jobs s) (cp_jobId p) = Some j" "j_status j = JRunning" "cp_success p"
    and "get (cs_assets s) (cp_sourceAssetId p) = Some a"
  shows "\<exists>s' a'. completeTranscode e p s = (s', Inr \<lparr> cr_applied = True, cr_renditionCount = length (cp_renditions p),
        cr_renditions = embedded_renditions (co_ulid e) (cp_renditions p) \<rparr>)
    \<and> (\<forall>k. get_job (cs_jobs s') k = (if k = cp_jobId p then Some (j\<lparr> j_updatedAt := co_now e, j_status := JDone, j_progress := Fin 100,
            j_droppedByScaler := Some False, j_error := None \<rparr>) else get_job (cs_jobs s) k))
    \<and> (\<forall>k. get (cs_assets s') k = (if k = cp_sourceAssetId p then Some a' else get (cs_assets s) k))
    \<and> a_renditions a' = Some (embedded_renditions (co_ulid e) (cp_renditions p))
    \<and> a_status a' = (if a_status a = Processing \<or> a_status a = Failed then Ready else a_status a)
    \<and> a_packagedOutputStale a' = (if (case a_manifestUrls a of Some u \<Rightarrow> truthy (mu_hls u) \<or> truthy (mu_dash u) | None \<Rightarrow> False)
         then Some True else a_packagedOutputStale a)"
proof -
  have v: "isValidJobTransition (j_status j) JDone" "isActiveJobStatus (j_status j)"
    using assms(2) by (simp_all add: isValidJobTransition_def)
  obtain a' au s' where o: "completeTranscode e p s = (s', Inr \<lparr> cr_applied = True, cr_renditionCount = length (cp_renditions p),
        cr_renditions = embedded_renditions (co_ulid e) (cp_renditions p) \<rparr>)"
    "s' = s\<lparr> cs_jobs := put_job (cp_jobId p) (j\<lparr> j_updatedAt := co_now e, j_status := JDone, j_progress := Fin 100,
            j_droppedByScaler := Some False, j_error := None, j_droppedThenRecovered := j_droppedThenRecovered j,
            j_correctedDropError := j_correctedDropError j \<rparr>) (cs_jobs s), cs_assets := cs_assets s', cs_audit := au \<rparr>"
    "\<forall>k. get (cs_assets s') k = (if k = cp_sourceAssetId p then Some a' else get (cs_assets s) k)"
    "a_renditions a' = Some (embedded_renditions (co_ulid e) (cp_renditions p))"
    "a_packagedOutputStale a' = (if has_manifest a then Some True else a_packagedOutputStale a)"
    "a_status a' = (if a_status a = Processing \<or> a_status a = Failed then Ready else a_status a)"
    using apply_success_outcome [OF assms(1) v(1) assms(4), of e False] completeTranscode_ends(2) [OF assms(1) v(2) assms(3), of e] by auto
  have same: "j\<lparr> j_updatedAt := co_now e, j_status := JDone, j_progress := Fin 100, j_droppedByScaler := Some False, j_error := None,
      j_droppedThenRecovered := j_droppedThenRecovered j, j_correctedDropError := j_correctedDropError j \<rparr>
    = j\<lparr> j_updatedAt := co_now e, j_status := JDone, j_progress := Fin 100, j_droppedByScaler := Some False, j_error := None \<rparr>" by simp
  have jj: "get_job (cs_jobs s') k = (if k = cp_jobId p then Some (j\<lparr> j_updatedAt := co_now e, j_status := JDone, j_progress := Fin 100,
            j_droppedByScaler := Some False, j_error := None \<rparr>) else get_job (cs_jobs s) k)" for k
    by (subst o(2)) (simp add: same)
  show ?thesis using o(1,3,4,5,6) jj unfolding has_manifest_def by blast
qed

theorem success_completes_witness:
  "\<exists>s' a'. get (cs_assets s') ''A'' = Some a' \<and> a_status a' = Ready
     \<and> fst (completeTranscode demo_completion_env (demo_end True) demo_completion) = s'"
  using success_completes [of demo_completion "demo_end True" demo_transcode_job demo_settle_asset demo_completion_env] demo_lookups
  by (fastforce simp: demo_end_def)

end
