(* ===== verification/Settle_Failed.thy ===== *)
theory Settle_Failed
  imports Completion
begin

text \<open>
  What \<^verbatim>\<open>settleFailedTranscode\<close> leaves behind: the job, the asset, the pipeline lock it releases and
  the encoder's copy it cancels, over \<^verbatim>\<open>Completion\<close>; and what its sweep sees of the jobs.
\<close>

section \<open>The two ways a settle ends\<close>

definition failed_job :: "settle_env \<Rightarrow> string \<Rightarrow> drop_reason \<Rightarrow> job \<Rightarrow> job" where
  "failed_job e err reason j = j\<lparr> j_updatedAt := co_now (sn_completion e), j_status := JFailed, j_error := Some err,
     j_droppedByScaler := Some (reason = GoneFromActiveSet) \<rparr>"

lemma failed_job_simps [simp]:
  "j_status (failed_job e err reason j) = JFailed" "j_error (failed_job e err reason j) = Some err"
  "j_droppedByScaler (failed_job e err reason j) = Some (reason = GoneFromActiveSet)"
  by (simp_all add: failed_job_def)

lemma active_may_fail: "isActiveJobStatus st \<Longrightarrow> isValidJobTransition st JFailed"
  by (cases st) (auto simp: isValidJobTransition_def)

lemma settle_no_op:
  assumes "get_job (cs_jobs (ss_core s)) (j_id job) = Some j" "j_status j = JDone \<or> j_status j = JFailed"
  shows "settleFailedTranscode e job err reason s = s"
  using assms by (auto simp: settleFailedTranscode_def completeTranscode_def not_applied_def Let_def)

lemma settle_refused:
  assumes j: "get_job (cs_jobs (ss_core s)) (j_id job) = Some j" "isActiveJobStatus (j_status j)"
    and a: "get (cs_assets (ss_core s)) (j_assetId job) = Some a" "\<not> isValidTransition (a_status a) Failed"
  shows "settleFailedTranscode e job err reason s
    = s\<lparr> ss_core := (ss_core s)\<lparr> cs_jobs := put_job (j_id job) (failed_job e err reason j) (cs_jobs (ss_core s)) \<rparr> \<rparr>"
proof -
  let ?p = "\<lparr> cp_jobId = j_id job, cp_sourceAssetId = j_assetId job, cp_success = False, cp_error = Some err, cp_renditions = [],
    cp_conditionalDrop = Some (reason = GoneFromActiveSet) \<rparr>"
  have g: "get_job (cs_jobs (ss_core s)) (cp_jobId ?p) = Some j" "get (cs_assets (ss_core s)) (cp_sourceAssetId ?p) = Some a"
    using j(1) a(1) by simp_all
  have "completeTranscode (sn_completion e) ?p (ss_core s) = apply_failure (sn_completion e) ?p j (ss_core s)"
    by (rule completeTranscode_ends(1) [OF g(1) j(2)]) simp
  also have "\<dots> = ((ss_core s)\<lparr> cs_jobs := put_job (j_id job) (failed_job e err reason j) (cs_jobs (ss_core s)) \<rparr>,
     Inl (BadAssetMove (InvalidStateTransition (a_status a) Failed)))"
    using apply_failure_outcome(2) [OF g(1) active_may_fail [OF j(2)] g(2) a(2), of "sn_completion e"] by (simp add: failed_job_def)
  finally show ?thesis by (simp add: settleFailedTranscode_def)
qed

lemma settle_applied:
  assumes j: "get_job (cs_jobs (ss_core s)) (j_id job) = Some j" "isActiveJobStatus (j_status j)"
    and a: "get (cs_assets (ss_core s)) (j_assetId job) = Some a" "isValidTransition (a_status a) Failed"
  shows "\<exists>h pv au. settleFailedTranscode e job err reason s = s\<lparr> ss_core := (ss_core s)\<lparr>
        cs_jobs := put_job (j_id job) (failed_job e err reason j) (cs_jobs (ss_core s)),
        cs_assets := put (j_assetId job) (a\<lparr> a_updatedAt := co_now (sn_completion e), a_status := Failed,
          a_statusHistory := h, a_provenance := pv \<rparr>) (cs_assets (ss_core s)), cs_audit := au \<rparr>,
      ss_pipes := (if sn_hasPipeline e then releasePipelineLock (sn_detail e) (co_now (sn_completion e)) (j_assetId job) err job (ss_pipes s)
         else ss_pipes s),
      ss_cancelled := (if reason = EncoreError \<and> sn_hasEncore e \<and> truthy (j_encoreJobId job)
         then ss_cancelled s @ [the (j_encoreJobId job)] else ss_cancelled s) \<rparr>"
proof -
  let ?p = "\<lparr> cp_jobId = j_id job, cp_sourceAssetId = j_assetId job, cp_success = False, cp_error = Some err, cp_renditions = [],
    cp_conditionalDrop = Some (reason = GoneFromActiveSet) \<rparr>"
  have g: "get_job (cs_jobs (ss_core s)) (cp_jobId ?p) = Some j" "get (cs_assets (ss_core s)) (cp_sourceAssetId ?p) = Some a"
    using j(1) a(1) by simp_all
  have c: "completeTranscode (sn_completion e) ?p (ss_core s) = apply_failure (sn_completion e) ?p j (ss_core s)"
    by (rule completeTranscode_ends(1) [OF g(1) j(2)]) simp
  obtain h pv au where "completeTranscode (sn_completion e) ?p (ss_core s) = ((ss_core s)\<lparr>
        cs_jobs := put_job (j_id job) (failed_job e err reason j) (cs_jobs (ss_core s)),
        cs_assets := put (j_assetId job) (a\<lparr> a_updatedAt := co_now (sn_completion e), a_status := Failed,
          a_statusHistory := h, a_provenance := pv \<rparr>) (cs_assets (ss_core s)), cs_audit := au \<rparr>,
        Inr \<lparr> cr_applied = True, cr_renditionCount = 0, cr_renditions = [] \<rparr>)"
    using apply_failure_outcome(1) [OF g(1) active_may_fail [OF j(2)] g(2) a(2), of "sn_completion e"] c by (auto simp: failed_job_def)
  then have "settleFailedTranscode e job err reason s = s\<lparr> ss_core := (ss_core s)\<lparr>
        cs_jobs := put_job (j_id job) (failed_job e err reason j) (cs_jobs (ss_core s)),
        cs_assets := put (j_assetId job) (a\<lparr> a_updatedAt := co_now (sn_completion e), a_status := Failed,
          a_statusHistory := h, a_provenance := pv \<rparr>) (cs_assets (ss_core s)), cs_audit := au \<rparr>,
      ss_pipes := (if sn_hasPipeline e then releasePipelineLock (sn_detail e) (co_now (sn_completion e)) (j_assetId job) err job (ss_pipes s)
         else ss_pipes s),
      ss_cancelled := (if reason = EncoreError \<and> sn_hasEncore e \<and> truthy (j_encoreJobId job)
         then ss_cancelled s @ [the (j_encoreJobId job)] else ss_cancelled s) \<rparr>"
    by (simp add: settleFailedTranscode_def Let_def)
  then show ?thesis by blast
qed

section \<open>Releasing the lock\<close>

lemma find_index_Some:
  "find_index P xs = Some k \<Longrightarrow> k < length xs \<and> P (xs ! k) \<and> (\<forall>m < k. \<not> P (xs ! m))"
proof (induction xs arbitrary: k)
  case (Cons x xs)
  then show ?case by (cases k) (auto simp: less_Suc_eq_0_disj split: if_splits)
qed simp

lemma find_index_ex: "x \<in> set xs \<Longrightarrow> P x \<Longrightarrow> \<exists>k. find_index P xs = Some k"
  by (induction xs) auto

definition pipes_ok :: "pipeline_repo \<Rightarrow> bool" where
  "pipes_ok r = (distinct (List.map fst r) \<and> (\<forall>k x. map_of r k = Some x \<longrightarrow> xn_id x = k))"

lemma newest_first_set [simp]: "set (newest_first xs) = set xs"
  by (simp add: newest_first_def)

lemma findRunning_Some:
  assumes "findRunningByAssetAndStep r i st = Some x" "pipes_ok r"
  shows "get_execution r (xn_id x) = Some x" "xn_assetId x = i" "xn_status x = ExecRunning" "\<exists>t \<in> set (xn_steps x). runs_step st t"
proof -
  let ?f = "filter (\<lambda>e. xn_assetId e = i \<and> xn_status e = ExecRunning \<and> list_ex (runs_step st) (xn_steps e)) (vals r)"
  have "x \<in> set (newest_first ?f)" using assms(1) by (cases "newest_first ?f") (simp_all add: findRunningByAssetAndStep_def)
  then have x: "x \<in> snd ` set r" "xn_assetId x = i" "xn_status x = ExecRunning" "\<exists>t \<in> set (xn_steps x). runs_step st t"
    by (auto simp: vals_def list_ex_iff)
  then obtain k where k: "(k, x) \<in> set r" by auto
  then have "k = xn_id x" "map_of r k = Some x" using assms(2) by (auto simp: pipes_ok_def)
  then show "get_execution r (xn_id x) = Some x" by (simp add: get_execution_def)
  show "xn_assetId x = i" "xn_status x = ExecRunning" "\<exists>t \<in> set (xn_steps x). runs_step st t" using x by simp_all
qed

definition failed_step :: "string \<Rightarrow> string \<Rightarrow> json option \<Rightarrow> step_execution \<Rightarrow> step_execution" where
  "failed_step err now d t = t\<lparr> sp_status := StepFailed, sp_error := Some err,
     sp_errorDetail := (if d \<noteq> None then d else sp_errorDetail t), sp_completedAt := Some now \<rparr>"

lemma release_fails_run:
  assumes "findRunningByAssetAndStep r i StepTranscode = Some x" "pipes_ok r"
  shows "\<exists>k t d. find_index (\<lambda>s. sp_name s = StepTranscode) (xn_steps x) = Some k \<and> t = xn_steps x ! k
    \<and> releasePipelineLock detail now i err job r = AList.update (xn_id x) (x\<lparr> xn_status := ExecFailed,
        xn_steps := (xn_steps x)[k := failed_step err now d t], xn_updatedAt := now \<rparr>) r"
proof -
  note f = findRunning_Some [OF assms]
  obtain t where "t \<in> set (xn_steps x)" "sp_name t = StepTranscode" using f(4) by (auto simp: runs_step_def)
  then obtain k where k: "find_index (\<lambda>s. sp_name s = StepTranscode) (xn_steps x) = Some k" using find_index_ex [of t "xn_steps x" "\<lambda>s. sp_name s = StepTranscode"] by blast
  define d where "d = detail err (if sp_encoreJobId (xn_steps x ! k) \<noteq> None then sp_encoreJobId (xn_steps x ! k) else j_encoreJobId job) i"
  have m: "map_of r (xn_id x) = Some x" using f(1) by (simp add: get_execution_def)
  have "releasePipelineLock detail now i err job r = fst (update_execution (xn_id x)
      (steps_patch ((xn_steps x)[k := failed_step err now d (xn_steps x ! k)]) (Some ExecFailed)) now r)"
    unfolding releasePipelineLock_def assms(1) option.case k Let_def failed_step_def d_def by (rule refl)
  also have "\<dots> = AList.update (xn_id x) (x\<lparr> xn_status := ExecFailed,
        xn_steps := (xn_steps x)[k := failed_step err now d (xn_steps x ! k)], xn_updatedAt := now \<rparr>) r"
    by (simp add: update_execution_def m apply_execution_patch_def steps_patch_def Let_def)
  finally show ?thesis using k by blast
qed

section \<open>Which job a call writes\<close>

definition writes_only :: "string \<Rightarrow> completion_state \<Rightarrow> completion_state \<Rightarrow> bool" where
  "writes_only i s s' = (jobs_ok (cs_jobs s) \<longrightarrow> jobs_ok (cs_jobs s') \<and> (\<forall>k. k \<noteq> i \<longrightarrow> get_job (cs_jobs s') k = get_job (cs_jobs s) k))"

lemma writes_only_trans: "writes_only i s s' \<Longrightarrow> writes_only i s' s'' \<Longrightarrow> writes_only i s s''"
  by (simp add: writes_only_def)

lemma writes_only_same: "cs_jobs s' = cs_jobs s \<Longrightarrow> writes_only i s s'"
  by (simp add: writes_only_def)

lemma writes_only_then:
  assumes "writes_only i s (fst r)" "\<And>s' a. r = (s', Inr a) \<Longrightarrow> writes_only i s' (fst (k s' a))"
  shows "writes_only i s (fst (then_do r k))"
  using assms by (cases r; cases "snd r") (auto intro: writes_only_trans)

lemma job_write_only: "writes_only i s (fst (job_write i p now s))"
proof (cases "get_job (cs_jobs s) i")
  case None
  then show ?thesis by (auto simp: job_write_def update_job_def get_job_def writes_only_def)
next
  case (Some j)
  show ?thesis
  proof (cases "applyJobPatch j p now")
    case (Inl err)
    then show ?thesis using Some by (simp add: job_write_def update_job_def get_job_def writes_only_def)
  next
    case (Inr j')
    then have "fst (job_write i p now s) = s\<lparr> cs_jobs := put_job i j' (cs_jobs s) \<rparr>" using job_write_Inr [OF Some Inr] by simp
    then show ?thesis using put_job_ok [OF _ Some [unfolded get_job_def] applyJobPatch_evolves [OF Inr]] by (simp add: writes_only_def)
  qed
qed

lemma writes_only_write:
  assumes "writes_only i s s0" "\<And>s' a. writes_only i s' (fst (k s' a))"
  shows "writes_only i s (fst (then_do (job_write i p now s0) k))"
  by (intro writes_only_then writes_only_trans [OF assms(1) job_write_only] assms(2))

lemma write_status_only: "writes_only i s (fst (write_status k st now s))"
  by (rule writes_only_same) simp

lemma completeTranscode_only:
  assumes "jobs_ok (cs_jobs s)"
  shows "writes_only (cp_jobId p) s (fst (completeTranscode e p s))"
proof (cases "get_job (cs_jobs s) (cp_jobId p)")
  case None
  then show ?thesis by (simp add: completeTranscode_def writes_only_def)
next
  case (Some job)
  have i: "j_id job = cp_jobId p" using assms Some by (auto simp: jobs_ok_def get_job_def)
  have f: "writes_only (cp_jobId p) s (fst (apply_failure e p job s))"
    unfolding apply_failure_def Let_def
    by (intro writes_only_then job_write_only write_status_only writes_only_same) simp
  have r: "writes_only (cp_jobId p) s (fst (reclaimCancelledTranscodeCompletion e job a x n s))" for a x n
    unfolding reclaimCancelledTranscodeCompletion_def Let_def
    by (cases "co_storage e"; simp only: i storage_answer.case prod.case; rule writes_only_write; simp add: writes_only_def split: prod.split)
  have g: "writes_only (cp_jobId p) s (fst (apply_success e p job c s))" for c
    unfolding apply_success_def finish_success_def Let_def asset_write_def [symmetric]
    by (intro writes_only_then job_write_only writes_only_same) simp_all
  show ?thesis using f g writes_only_then [OF r, where k = "\<lambda>s1 reclaim. (s1\<lparr> cs_discards := cs_discards s1 @ [reclaim] \<rparr>, Inr not_applied)"]
    by (auto simp: completeTranscode_def Some Let_def writes_only_same)
qed

lemma settle_only:
  assumes "jobs_ok (cs_jobs (ss_core s))"
  shows "writes_only (j_id job) (ss_core s) (ss_core (settleFailedTranscode e job err reason s))"
proof -
  let ?p = "\<lparr> cp_jobId = j_id job, cp_sourceAssetId = j_assetId job, cp_success = False, cp_error = Some err, cp_renditions = [],
    cp_conditionalDrop = Some (reason = GoneFromActiveSet) \<rparr>"
  have "ss_core (settleFailedTranscode e job err reason s) = fst (completeTranscode (sn_completion e) ?p (ss_core s))"
    by (cases "completeTranscode (sn_completion e) ?p (ss_core s)")
      (simp add: settleFailedTranscode_def Let_def split: sum.split)
  then show ?thesis using completeTranscode_only [OF assms, of ?p "sn_completion e"] by simp
qed

lemma reconcile_one_only:
  assumes "jobs_ok (cs_jobs (ss_core s))"
  shows "writes_only (j_id job) (ss_core s) (ss_core (fst (reconcile_failed_one e job s)))"
  using settle_only [OF assms] by (auto simp: reconcile_failed_one_def Let_def writes_only_same split: status_answer.split)

lemma reconcile_all_frame:
  "jobs_ok (cs_jobs (ss_core s)) \<Longrightarrow> k \<notin> j_id ` set js \<Longrightarrow>
     get_job (cs_jobs (ss_core (fst (reconcile_failed_all e js s)))) k = get_job (cs_jobs (ss_core s)) k"
proof (induction js arbitrary: s)
  case (Cons j js)
  let ?s1 = "fst (reconcile_failed_one e j s)"
  have w: "jobs_ok (cs_jobs (ss_core ?s1))" "get_job (cs_jobs (ss_core ?s1)) k = get_job (cs_jobs (ss_core s)) k"
    using reconcile_one_only [OF Cons.prems(1), of j e] Cons.prems by (auto simp: writes_only_def)
  have "fst (reconcile_failed_all e (j # js) s) = fst (reconcile_failed_all e js ?s1)"
    by (simp split: prod.split)
  then show ?case using Cons.IH [OF w(1)] Cons.prems(2) w(2) by simp
qed simp

section \<open>Properties\<close>

definition demo_settle_env :: settle_env where
  "demo_settle_env = \<lparr> sn_completion = demo_completion_env, sn_detail = (\<lambda>t i a. None), sn_hasPipeline = True, sn_hasEncore = True \<rparr>"

definition demo_execution :: execution where
  "demo_execution = snd (create_execution False ''x-1'' ''t1'' \<lparr> xi_assetId = ''A'', xi_pipelineName = ''transcode'',
      xi_steps = [StepTranscode], xi_destinationBucket = None, xi_drm = None \<rparr> [])
     \<lparr> xn_steps := [(new_step StepTranscode)\<lparr> sp_status := StepRunning, sp_encoreJobId := Some ''ctx__job-7'' \<rparr>] \<rparr>"

definition demo_settle_state :: settle_state where
  "demo_settle_state = \<lparr> ss_core = demo_completion, ss_pipes = [(''x-1'', demo_execution)], ss_cancelled = [] \<rparr>"



text \<open>C21. A transcode failing on a ready asset strands its run: the job is written failed, the asset
  refuses the move and the throw is swallowed, so no execution is released and no encoder job
  cancelled; every later settle of the job then does nothing, so the run stays locked.\<close>

theorem failure_on_ready_asset_strands_run:
  assumes "get_job (cs_jobs (ss_core s)) (j_id job) = Some j" "isActiveJobStatus (j_status j)"
    and "get (cs_assets (ss_core s)) (j_assetId job) = Some a" "a_status a = Ready \<or> a_status a = Archived"
  shows "\<exists>s' j'. settleFailedTranscode e job err reason s = s'
    \<and> get_job (cs_jobs (ss_core s')) (j_id job) = Some j' \<and> j_status j' = JFailed
    \<and> cs_assets (ss_core s') = cs_assets (ss_core s) \<and> ss_pipes s' = ss_pipes s \<and> ss_cancelled s' = ss_cancelled s
    \<and> (\<forall>e' err' reason'. settleFailedTranscode e' job err' reason' s' = s')"
proof -
  have "\<not> isValidTransition (a_status a) Failed" using assms(4) by (auto simp: isValidTransition_def)
  note o = settle_refused [OF assms(1-3) this, of e err reason]
  let ?s = "s\<lparr> ss_core := (ss_core s)\<lparr> cs_jobs := put_job (j_id job) (failed_job e err reason j) (cs_jobs (ss_core s)) \<rparr> \<rparr>"
  have "settleFailedTranscode e' job err' reason' ?s = ?s" for e' err' reason'
    by (rule settle_no_op [where j = "failed_job e err reason j"]) simp_all
  with o show ?thesis by (intro exI [of _ ?s] exI [of _ "failed_job e err reason j"]) simp
qed

definition demo_ready_state :: settle_state where
  "demo_ready_state = demo_settle_state\<lparr> ss_core := demo_completion\<lparr>
     cs_assets := \<lparr> store = [(''A'', demo_settle_asset\<lparr> a_status := Ready \<rparr>)], tombstones = [] \<rparr> \<rparr> \<rparr>"

theorem failure_on_ready_asset_strands_run_witness:
  "\<exists>s'. settleFailedTranscode demo_settle_env demo_transcode_job ''failed'' EncoreError demo_ready_state = s'
     \<and> get_execution (ss_pipes s') ''x-1'' = Some demo_execution \<and> xn_status demo_execution = ExecRunning \<and> ss_cancelled s' = []"
proof -
  have c: "get_job (cs_jobs (ss_core demo_ready_state)) (j_id demo_transcode_job) = Some demo_transcode_job"
    "get (cs_assets (ss_core demo_ready_state)) (j_assetId demo_transcode_job) = Some (demo_settle_asset\<lparr> a_status := Ready \<rparr>)"
    "ss_pipes demo_ready_state = [(''x-1'', demo_execution)]" "ss_cancelled demo_ready_state = []"
    using demo_lookups by (simp_all add: demo_ready_state_def demo_settle_state_def get_def)
  have "xn_status demo_execution = ExecRunning" by (simp add: demo_execution_def create_execution_def Let_def)
  with failure_on_ready_asset_strands_run [OF c(1) _ c(2), of demo_settle_env "''failed''" EncoreError] c(3,4) demo_lookups(3) show ?thesis
    by (auto simp: get_execution_def)
qed

text \<open>The sweep over failed runs never writes a job that is not on its one page of the newest two
  hundred jobs of every kind and status, however long that job has been stuck and whatever the
  encoder says of it.\<close>

theorem failed_sweep_reads_one_page:
  assumes "jobs_ok (cs_jobs (ss_core s))"
    and "k \<notin> j_id ` set (fst (list_jobs (cs_jobs (ss_core s)) (Some 200) (Some 0)))"
  shows "get_job (cs_jobs (ss_core (fst (reconcileFailedTranscodes e s)))) k = get_job (cs_jobs (ss_core s)) k"
  using reconcile_all_frame [OF assms] by (simp add: reconcileFailedTranscodes_def TRANSCODE_SCAN_PAGE_SIZE_def)

definition numbered_job :: "string \<Rightarrow> nat \<Rightarrow> job" where
  "numbered_job t n = demo_transcode_job\<lparr> j_id := ''job-'' @ dec n, j_createdAt := t, j_encoreInternalJobId := Some ''u'' \<rparr>"

definition young_numbers :: "nat list" where "young_numbers = [2..<202]"

lemma young_numbers: "length young_numbers = 200" "distinct young_numbers" "n \<in> set young_numbers \<longleftrightarrow> 2 \<le> n \<and> n \<le> 201"
  unfolding young_numbers_def length_upt by (simp_all only: distinct_upt set_upt atLeastLessThan_iff) auto

definition demo_crowd :: settle_state where
  "demo_crowd = demo_settle_state\<lparr> ss_core := demo_completion\<lparr> cs_jobs :=
     \<lparr> jobs = (''job-'' @ dec 1, numbered_job ''t1'' 1) # List.map (\<lambda>n. (''job-'' @ dec n, numbered_job ''t2'' n)) young_numbers, counter = 201 \<rparr> \<rparr> \<rparr>"

lemma sort_key_after:
  "\<forall>x \<in> set xs. f x = c \<Longrightarrow> f y < c \<Longrightarrow> sort_key f (xs @ [y]) = y # xs"
proof (induction xs)
  case (Cons x xs)
  have s: "sort_key f (xs @ [y]) = y # xs" by (rule Cons.IH) (use Cons.prems in simp_all)
  have c: "f x = c" "\<not> c \<le> f y" using Cons.prems by simp_all
  note prems = Cons.prems
  have "insort_key f x xs = x # xs"
  proof (cases xs)
    case (Cons z zs)
    then have "f z = c" using prems by simp
    then show ?thesis using Cons c(1) by simp
  qed simp
  then have "insort_key f x (y # xs) = y # x # xs" using c by simp
  then show ?case using s by simp
qed simp

theorem failed_sweep_reads_one_page_witness:
  "get_job (cs_jobs (ss_core (fst (reconcileFailedTranscodes \<lparr> rl_settle = demo_settle_env,
        rl_getJobStatus = (\<lambda>u. StatusIs (Some ''failed'')), rl_parse = (\<lambda>t. Some 0), rl_now = 10 ^ 12, rl_stallTimeoutMs = None \<rparr> demo_crowd))))
      (''job-'' @ dec 1) = Some (numbered_job ''t1'' 1) \<and> j_status (numbered_job ''t1'' 1) = JRunning"
proof -
  let ?r = "cs_jobs (ss_core demo_crowd)" and ?young = "List.map (numbered_job ''t2'') young_numbers"
  have js: "jobs ?r = (''job-'' @ dec 1, numbered_job ''t1'' 1) # List.map (\<lambda>n. (''job-'' @ dec n, numbered_job ''t2'' n)) young_numbers" "counter ?r = 201"
    by (simp_all add: demo_crowd_def)
  have d: "distinct (keys (jobs ?r))"
    unfolding js keys_def list.map map_map distinct.simps distinct_map
    by (simp add: young_numbers o_def inj_on_def image_iff)
  have i: "j_id j = i \<and> (\<exists>n. i = ''job-'' @ dec n \<and> 1 \<le> n \<and> n \<le> 201)" if m: "map_of (jobs ?r) i = Some j" for i j
  proof -
    have "(i, j) \<in> set (jobs ?r)" using map_of_SomeD [OF m] .
    then obtain n t where "i = ''job-'' @ dec n" "j = numbered_job t n" "1 \<le> n" "n \<le> 201"
      unfolding js list.set set_map by (auto simp: young_numbers)
    then show ?thesis by (auto simp: numbered_job_def)
  qed
  have ok: "jobs_ok ?r" unfolding jobs_ok_def using d i js(2) by simp
  have v: "vals (jobs ?r) = numbered_job ''t1'' 1 # ?young" by (simp add: js vals_def)
  have "sort_key j_createdAt (rev ?young @ [numbered_job ''t1'' 1]) = numbered_job ''t1'' 1 # rev ?young"
    by (rule sort_key_after [where c = "''t2''"]) (auto simp: numbered_job_def)
  then have "rev (sort_key j_createdAt (rev (vals (jobs ?r)))) = ?young @ [numbered_job ''t1'' 1]" by (simp add: v)
  then have "fst (list_jobs ?r (Some 200) (Some 0)) = ?young" by (simp add: list_jobs_def Let_def young_numbers)
  then have k: "''job-'' @ dec 1 \<notin> j_id ` set (fst (list_jobs ?r (Some 200) (Some 0)))" by (auto simp: numbered_job_def young_numbers)
  have g: "get_job ?r (''job-'' @ dec 1) = Some (numbered_job ''t1'' 1)" by (simp add: get_job_def js)
  show ?thesis using failed_sweep_reads_one_page [OF ok k] g by (simp add: numbered_job_def demo_lookups)
qed

end
