(* ===== verification/Completion_Handler.thy ===== *)
theory Completion_Handler
  imports Settle_Failed Progress_Sweep Scale_Down
begin

text \<open>
  What the poller does with one completion message (\<^verbatim>\<open>handleMessageInStack\<close> and its helpers in
  \<^verbatim>\<open>src/src/pipeline/encore-callback-poller.ts\<close>): it fetches the encoder's document, finds the local
  job, stamps the scaler's keys, asks the retry gate about a failure, applies the completion, frees
  the slot, and advances the pipeline up to the hand-off to the packager. The scaler's keys are
  those of the workspace the encoder id names. The handler returns or throws; a throw makes the
  poller put the message back (\<^verbatim>\<open>Callback_Queue\<close>).
\<close>

section \<open>Messages and documents\<close>

record queue_message =
  qm_jobId :: "string option"
  qm_url :: "string option"

record video_stream =
  vs_width :: "jsnum option"
  vs_height :: "jsnum option"
  vs_codec :: "string option"

record encore_output =
  eo_file :: "string option"
  eo_type :: "string option"
  eo_videoStreams :: "video_stream list option"
  eo_overallBitrate :: "jsnum option"

record encore_document =
  ed_externalId :: "string option"
  ed_status :: "string option"
  ed_message :: "string option"
  ed_output :: "encore_output list option"

datatype document_answer = FetchThrows | FetchNotOk | FetchOk encore_document

definition normaliseRenditions :: "encore_output list option \<Rightarrow> callback_rendition list" where
  "normaliseRenditions output = (case output of None \<Rightarrow> [] | Some os \<Rightarrow>
     List.map (\<lambda>(k, out). let stream = (case eo_videoStreams out of Some (v # vs) \<Rightarrow> Some v | _ \<Rightarrow> None);
            label = ''rendition-'' @ dec (k + 1) in
        \<lparr> cr_label = label, cr_width = coalesce (Option.bind stream vs_width) (Fin 0),
          cr_height = coalesce (Option.bind stream vs_height) (Fin 0), cr_objectKey = coalesce (eo_file out) label,
          cr_codec = Option.bind stream vs_codec, cr_bitrateBps = eo_overallBitrate out \<rparr>)
       (List.enumerate 0 (filter (\<lambda>out. \<not> truthy (eo_type out) \<or> eo_type out = Some ''VideoFile'') os)))"

definition allStepsDone :: "step_execution list \<Rightarrow> bool" where
  "allStepsDone steps = list_all isStepComplete steps"

section \<open>Where the encoder's document is\<close>

definition resolveEncoreJobUrl :: "scaler \<Rightarrow> string \<Rightarrow> string option" where
  "resolveEncoreJobUrl s encoreJobId =
     (if truthy (map_of (v_jobEncoreUrl s) encoreJobId) then map_of (v_jobEncoreUrl s) encoreJobId
      else if decodeEncoreJobId encoreJobId = None \<or> \<not> truthy (map_of (v_jobInstance s) encoreJobId) then None
      else case map_of (v_pool s) (the (map_of (v_jobInstance s) encoreJobId)) of
             Some (Instance i) \<Rightarrow>
               if truthy (map_of (v_jobUuid s) encoreJobId)
               then Some (strip_slashes (i_url i) @ ''/encoreJobs/'' @ the (map_of (v_jobUuid s) encoreJobId)) else None
           | _ \<Rightarrow> None)"

definition resolveUrlFromEncoreUuid :: "scaler \<Rightarrow> string \<Rightarrow> string option" where
  "resolveUrlFromEncoreUuid s encoreUuid =
     (if truthy (map_of (v_uuidToExternalId s) encoreUuid)
      then resolveEncoreJobUrl s (the (map_of (v_uuidToExternalId s) encoreUuid)) else None)"

text \<open>Up to three attempts; \<^verbatim>\<open>Inl\<close> is a fetch that throws.\<close>

fun fetch_job :: "(nat \<Rightarrow> document_answer) \<Rightarrow> nat list \<Rightarrow> unit + encore_document option" where
  "fetch_job answer [] = Inr None"
| "fetch_job answer (attempt # attempts) = (case answer attempt of
       FetchThrows \<Rightarrow> Inl ()
     | FetchOk d \<Rightarrow> Inr (Some d)
     | FetchNotOk \<Rightarrow> fetch_job answer attempts)"

definition IN_FLIGHT_ENCORE_STATUSES :: "string list" where
  "IN_FLIGHT_ENCORE_STATUSES = [''NEW'', ''QUEUED'', ''IN_PROGRESS'']"

section \<open>The environment and the state\<close>

text \<open>Filling the packager's queue: done, or the key or the write throws with a message.\<close>

datatype enqueue_answer = Enqueued | KeyThrows string | WriteThrows string

record handler_env =
  hn_completion :: completion_env
  hn_package :: package_env
  hn_now :: int
  hn_tokenThrows :: bool
  hn_fetch :: "string \<Rightarrow> nat \<Rightarrow> document_answer"
  hn_stampThrows :: "nat option"
  hn_pathname :: "string \<Rightarrow> string option"
  hn_gateThrows :: bool
  hn_detail :: "string \<Rightarrow> string option \<Rightarrow> string \<Rightarrow> json option"
  hn_ensurePackaging :: "string option"
  hn_enqueue :: enqueue_answer

record handler_state =
  hd_store :: scaler
  hd_core :: completion_state
  hd_pipes :: pipeline_repo
  hd_packaging :: zset

text \<open>\<open>hn_ensurePackaging\<close> is the message of what provisioning the packager throws, if it does. The
  pages of the encoder are \<open>hn_fetch\<close>, by URL and attempt.\<close>

definition decrementActiveJobs :: "int \<Rightarrow> string \<Rightarrow> string option \<Rightarrow> scaler \<Rightarrow> scaler" where
  "decrementActiveJobs now encoreJobId knownInstanceId s =
     (if decodeEncoreJobId encoreJobId = None then s
      else let instanceId = (if knownInstanceId \<noteq> None then knownInstanceId else map_of (v_jobInstance s) encoreJobId) in
        if \<not> truthy instanceId then s
        else case map_of (v_pool s) (the instanceId) of
               Some (Instance i) \<Rightarrow>
                 let n = max 0 (i_activeJobs i - 1);
                     i1 = i\<lparr> i_activeJobs := n \<rparr>;
                     i2 = (if n = 0 then i1\<lparr> i_lastIdleAt := Some (StampNum (Fin (of_int now))) \<rparr> else i1)
                 in s\<lparr> v_pool := AList.update (the instanceId) (Instance i2) (v_pool s) \<rparr>
             | _ \<Rightarrow> s)"

text \<open>The writes of the terminal stamp, up to the one that throws, and the instance read first.\<close>

definition stamp_terminal :: "nat option \<Rightarrow> string \<Rightarrow> scaler \<Rightarrow> scaler \<times> string option" where
  "stamp_terminal throwsAt x s =
     (if decodeEncoreJobId x = None then (s, None)
      else let terminalInstanceId = map_of (v_jobInstance s) x in
        (fst (writes_until throwsAt
           ((if truthy terminalInstanceId
             then [(\<lambda>s. s\<lparr> v_jobTerminalInstance := AList.update x (the terminalInstanceId) (v_jobTerminalInstance s) \<rparr>)] else [])
            @ [set_status x ''SUCCESSFUL'', (\<lambda>s. s\<lparr> v_jobInstance := AList.delete x (v_jobInstance s) \<rparr>)]) s),
         terminalInstanceId))"

section \<open>The hand-off to the packager\<close>

definition packaging_message :: "string \<Rightarrow> string \<Rightarrow> string" where
  "packaging_message assetId url = ''{'' @ json_quote ''jobId'' @ '':'' @ json_quote assetId @ '','' @ json_quote ''url'' @ '':''
     @ json_quote url @ ''}''"

definition enqueue_failed :: "handler_env \<Rightarrow> string option \<Rightarrow> string \<Rightarrow> string \<Rightarrow> handler_state \<Rightarrow> handler_state" where
  "enqueue_failed e packageJobId assetId emsg s =
     (let reason = ''failed to enqueue packaging job: '' @ emsg;
          js = fst (failPackageJob (hn_package e) packageJobId assetId reason (cs_jobs (hd_core s)))
      in s\<lparr> hd_core := fst (asset_write assetId (empty_patch\<lparr> u_packagingError := Some reason \<rparr>)
           (co_now (hn_completion e)) ((hd_core s)\<lparr> cs_jobs := js \<rparr>)) \<rparr>)"

definition enqueuePackagingJob :: "handler_env \<Rightarrow> string \<Rightarrow> string \<Rightarrow> handler_state \<Rightarrow> handler_state" where
  "enqueuePackagingJob e assetId url s =
     (let (rr, packageJobId) = startPackageJob (hn_package e) assetId \<lparr> rr_jobs = cs_jobs (hd_core s), rr_pipes = hd_pipes s \<rparr>;
          s1 = s\<lparr> hd_core := (hd_core s)\<lparr> cs_jobs := rr_jobs rr \<rparr>, hd_pipes := rr_pipes rr \<rparr>;
          purged = purgeStalePackagingJobs (hn_now e) DEFAULT_PACKAGE_STALL_TIMEOUT_MS (hd_packaging s1)
      in case hn_enqueue e of
           Enqueued \<Rightarrow> s1\<lparr> hd_packaging := zadd (hn_now e) (packaging_message assetId url) purged \<rparr>
         | KeyThrows emsg \<Rightarrow> enqueue_failed e packageJobId assetId emsg s1
         | WriteThrows emsg \<Rightarrow> enqueue_failed e packageJobId assetId emsg (s1\<lparr> hd_packaging := purged \<rparr>))"

section \<open>Advancing the pipeline\<close>

definition our_transcode :: "string \<Rightarrow> step_execution \<Rightarrow> bool" where
  "our_transcode x t = (sp_name t = StepTranscode \<and> sp_encoreJobId t = Some x)"

definition set_steps :: "handler_env \<Rightarrow> string \<Rightarrow> step_execution list \<Rightarrow> execution_status \<Rightarrow> handler_state \<Rightarrow> handler_state" where
  "set_steps e i steps st s =
     s\<lparr> hd_pipes := fst (update_execution i (steps_patch steps (Some st)) (co_now (hn_completion e)) (hd_pipes s)) \<rparr>"

text \<open>The execution to advance: the running one, or the failed one a late success reopens.\<close>

definition reopen_dropped :: "handler_env \<Rightarrow> string \<Rightarrow> string \<Rightarrow> handler_state \<Rightarrow> handler_state \<times> execution option" where
  "reopen_dropped e assetId x s =
     (case find (\<lambda>r. xn_status r = ExecFailed \<and> list_ex (\<lambda>t. our_transcode x t \<and> sp_status t = StepFailed) (xn_steps r))
             (listByAsset (hd_pipes s) assetId) of
        None \<Rightarrow> (s, None)
      | Some r \<Rightarrow>
          (case find_index (our_transcode x) (xn_steps r) of
             None \<Rightarrow> (s, None)
           | Some tIdx \<Rightarrow>
               let steps = (xn_steps r)[tIdx := (xn_steps r ! tIdx)\<lparr> sp_status := StepRunning, sp_error := None, sp_completedAt := None \<rparr>];
                   s1 = set_steps e (xn_id r) steps ExecRunning s
               in (s1, Some (coalesce (get_execution (hd_pipes s1) (xn_id r)) (r\<lparr> xn_status := ExecRunning, xn_steps := steps \<rparr>)))))"

definition execution_to_advance :: "handler_env \<Rightarrow> string \<Rightarrow> string \<Rightarrow> bool \<Rightarrow> handler_state \<Rightarrow> handler_state \<times> execution option" where
  "execution_to_advance e assetId x success s =
     (case findRunningByAssetAndStep (hd_pipes s) assetId StepTranscode of
        Some r \<Rightarrow> (s, Some r)
      | None \<Rightarrow> if success then reopen_dropped e assetId x s else (s, None))"

text \<open>The flag says that the hand-off to the packager was made.\<close>

definition advance_run :: "handler_env \<Rightarrow> string \<Rightarrow> string \<Rightarrow> string \<Rightarrow> bool \<Rightarrow> string \<Rightarrow> execution \<Rightarrow> handler_state \<Rightarrow> handler_state \<times> bool" where
  "advance_run e assetId x url success failureText r s =
     (case find_index (our_transcode x) (xn_steps r) of
        None \<Rightarrow> (s, False)
      | Some tIdx \<Rightarrow>
          let now = co_now (hn_completion e); step = xn_steps r ! tIdx in
          if \<not> success
          then let errorDetail = hn_detail e failureText (Some x) assetId;
                   steps = (xn_steps r)[tIdx := step\<lparr> sp_status := StepFailed, sp_error := Some failureText,
                     sp_errorDetail := (if errorDetail \<noteq> None then errorDetail else sp_errorDetail step), sp_completedAt := Some now \<rparr>]
               in (set_steps e (xn_id r) steps ExecFailed s, False)
          else let steps = (xn_steps r)[tIdx := step\<lparr> sp_status := StepDone, sp_completedAt := Some now \<rparr>] in
               (case find_index (\<lambda>t. sp_status t = StepPending) steps of
                  Some nextIdx \<Rightarrow>
                    if sp_name (steps ! nextIdx) = StepPackage
                    then (case hn_ensurePackaging e of
                            Some emsg \<Rightarrow>
                              (set_steps e (xn_id r) (steps[nextIdx := (steps ! nextIdx)\<lparr> sp_status := StepFailed,
                                 sp_error := Some (''on-demand packager provisioning failed before packaging handoff: '' @ emsg),
                                 sp_completedAt := Some now \<rparr>]) ExecFailed s, False)
                          | None \<Rightarrow>
                              (enqueuePackagingJob e assetId url
                                 (set_steps e (xn_id r) (steps[nextIdx := (steps ! nextIdx)\<lparr> sp_status := StepRunning,
                                    sp_startedAt := Some now \<rparr>]) ExecRunning s), True))
                    else (set_steps e (xn_id r) steps (if allStepsDone steps then ExecDone else ExecRunning) s, False)
                | None \<Rightarrow> (set_steps e (xn_id r) steps (if allStepsDone steps then ExecDone else ExecRunning) s, False)))"

definition advance_pipeline :: "handler_env \<Rightarrow> string \<Rightarrow> string \<Rightarrow> string \<Rightarrow> bool \<Rightarrow> string \<Rightarrow> handler_state \<Rightarrow> handler_state \<times> bool" where
  "advance_pipeline e assetId x url success failureText s =
     (case execution_to_advance e assetId x success s of
        (s1, None) \<Rightarrow> (s1, False)
      | (s1, Some r) \<Rightarrow> advance_run e assetId x url success failureText r s1)"

section \<open>The handler\<close>

definition retry_gate :: "handler_env \<Rightarrow> string \<Rightarrow> string \<Rightarrow> scaler \<Rightarrow> scaler \<times> retry_decision option" where
  "retry_gate e x failureText s =
     (if decodeEncoreJobId x = None \<or> hn_gateThrows e then (s, None)
      else let (s1, d) = decideRetry (hn_pathname e) x (Some failureText) True (hn_now e) s in (s1, Some d))"

definition close_attempt :: "handler_env \<Rightarrow> string \<Rightarrow> message_failure_class option \<Rightarrow> handler_state \<Rightarrow> handler_state" where
  "close_attempt e jobId cls s =
     s\<lparr> hd_core := (hd_core s)\<lparr> cs_jobs := fst (finalizeEncodeAttempt jobId (Some (co_now (hn_completion e))) cls
          (co_now (hn_completion e)) (cs_jobs (hd_core s))) \<rparr> \<rparr>"

text \<open>After an applied completion: the pin, the grace marker around freeing the slot, the attempt log
  and the retry keys.\<close>

definition settle_keys :: "handler_env \<Rightarrow> string \<Rightarrow> string \<Rightarrow> string option \<Rightarrow> message_failure_class option \<Rightarrow> handler_state \<Rightarrow> handler_state" where
  "settle_keys e jobId x terminalInstanceId cls s =
     (let s1 = (case terminalInstanceId of
              Some i \<Rightarrow> if i \<noteq> [] then s\<lparr> hd_store := pinInstanceForPackaging i x (hd_store s) \<rparr> else s | None \<Rightarrow> s);
          marked = (hd_store s1)\<lparr> v_jobCompletionSeen := AList.update x (hn_now e) (v_jobCompletionSeen (hd_store s1)) \<rparr>;
          freed = decrementActiveJobs (hn_now e) x terminalInstanceId marked;
          s2 = close_attempt e jobId cls (s1\<lparr> hd_store := freed\<lparr> v_jobCompletionSeen := AList.delete x (v_jobCompletionSeen freed) \<rparr> \<rparr>)
      in s2\<lparr> hd_store := clearRetryState x (hd_store s2) \<rparr>)"

text \<open>A job the dispatch hook missed is advanced before it is settled.\<close>

definition mark_running :: "completion_env \<Rightarrow> job \<Rightarrow> completion_state \<Rightarrow> completion_state \<times> (completion_error + unit)" where
  "mark_running e job s =
     (if j_status job = JQueued \<or> j_status job = JPending
      then job_write (j_id job) (blank_job_patch\<lparr> uj_status := Some JRunning \<rparr>) (co_now e) s else (s, Inr ()))"

definition settle_found :: "handler_env \<Rightarrow> string \<Rightarrow> string \<Rightarrow> bool \<Rightarrow> string \<Rightarrow> encore_document \<Rightarrow> job
    \<Rightarrow> string option \<Rightarrow> message_failure_class option \<Rightarrow> handler_state \<Rightarrow> handler_state \<times> (completion_error + unit)" where
  "settle_found e x url success failureText doc job terminalInstanceId cls s =
     (let (core, res) = then_do (mark_running (hn_completion e) job (hd_core s))
            (\<lambda>core _. completeTranscode (hn_completion e) \<lparr> cp_jobId = j_id job, cp_sourceAssetId = j_assetId job,
               cp_success = success, cp_error = (if success then None else Some failureText),
               cp_renditions = (if success then normaliseRenditions (ed_output doc) else []), cp_conditionalDrop = None \<rparr> core);
          s1 = s\<lparr> hd_core := core \<rparr>
      in case res of
           Inl err \<Rightarrow> (s1, Inl err)
         | Inr result \<Rightarrow>
             if \<not> cr_applied result then (s1, Inr ())
             else let s2 = settle_keys e (j_id job) x terminalInstanceId (if success then None else cls) s1;
                      (s3, handedOff) = (if pk_hasPipeline (hn_package e)
                         then advance_pipeline e (j_assetId job) x url success failureText s2 else (s2, False))
                  in (case terminalInstanceId of
                        Some i \<Rightarrow> if i \<noteq> [] \<and> \<not> handedOff
                                  then s3\<lparr> hd_store := unpinInstanceForPackaging i x (hd_store s3) \<rparr> else s3
                      | None \<Rightarrow> s3, Inr ()))"

definition is_success :: "string \<Rightarrow> bool" where
  "is_success status = (to_upper status = ''SUCCESSFUL'' \<or> to_upper status = ''SUCCESS'')"

definition handle_found :: "handler_env \<Rightarrow> string \<Rightarrow> encore_document \<Rightarrow> string \<Rightarrow> string \<Rightarrow> job \<Rightarrow> handler_state
    \<Rightarrow> handler_state \<times> (completion_error + unit)" where
  "handle_found e url doc x status job s =
     (let failureText = coalesce (ed_message doc) (''encore status: '' @ status) in
      if to_upper status \<in> set IN_FLIGHT_ENCORE_STATUSES then (s, Inr ())
      else if is_success status
      then let (store, terminalInstanceId) = stamp_terminal (hn_stampThrows e) x (hd_store s)
           in settle_found e x url True failureText doc job terminalInstanceId None (s\<lparr> hd_store := store \<rparr>)
      else let (store, decision) = retry_gate e x failureText (hd_store s); s1 = s\<lparr> hd_store := store \<rparr> in
           (case decision of
              Some (Retry attempt cls backoffMs) \<Rightarrow>
                let s2 = close_attempt e (j_id job) (Some cls) s1
                in (s2\<lparr> hd_store := decrementActiveJobs (hn_now e) x None (hd_store s2) \<rparr>, Inr ())
            | Some (Skip cls) \<Rightarrow> (s1, Inr ())
            | Some (Settle reason cls) \<Rightarrow> settle_found e x url False failureText doc job None (Some cls) s1
            | None \<Rightarrow> settle_found e x url False failureText doc job None None s1))"

datatype handler_error = TokenThrew | FetchThrew | CompletionThrew completion_error

text \<open>The document the poller goes by when the encoder did not answer.\<close>

definition trusted_document :: "scaler \<Rightarrow> string option \<Rightarrow> encore_document" where
  "trusted_document s encoreUuid =
     \<lparr> ed_externalId = (if truthy encoreUuid then map_of (v_uuidToExternalId s) (the encoreUuid) else None),
       ed_status = Some ''SUCCESSFUL'', ed_message = None, ed_output = Some [] \<rparr>"

definition handle_document :: "handler_env \<Rightarrow> string \<Rightarrow> encore_document \<Rightarrow> handler_state \<Rightarrow> handler_state \<times> (handler_error + unit)" where
  "handle_document e url doc s =
     (if \<not> truthy (ed_externalId doc) \<or> \<not> truthy (ed_status doc) then (s, Inr ())
      else case findByEncoreJobId (cs_jobs (hd_core s)) (the (ed_externalId doc)) of
             None \<Rightarrow> (s, Inr ())
           | Some job \<Rightarrow>
               (case handle_found e url doc (the (ed_externalId doc)) (the (ed_status doc)) job s of
                  (s1, Inl err) \<Rightarrow> (s1, Inl (CompletionThrew err)) | (s1, Inr u) \<Rightarrow> (s1, Inr u)))"

definition handleMessageInStack :: "handler_env \<Rightarrow> queue_message option \<Rightarrow> handler_state \<Rightarrow> handler_state \<times> (handler_error + unit)" where
  "handleMessageInStack e raw s = (case raw of
       None \<Rightarrow> (s, Inr ())
     | Some message \<Rightarrow>
         if hn_tokenThrows e then (s, Inl TokenThrew)
         else let resolvedUrl = (if truthy (qm_jobId message) then resolveUrlFromEncoreUuid (hd_store s) (the (qm_jobId message)) else None);
                  url = (if resolvedUrl \<noteq> None then resolvedUrl else qm_url message) in
              if \<not> truthy url then (s, Inr ())
              else case fetch_job (hn_fetch e (the url)) [1, 2, 3] of
                     Inl u \<Rightarrow> (s, Inl FetchThrew)
                   | Inr None \<Rightarrow> handle_document e (the url) (trusted_document (hd_store s) (qm_jobId message)) s
                   | Inr (Some doc) \<Rightarrow> handle_document e (the url) doc s)"

section \<open>The stack of a message\<close>

definition DEPLOYMENT_CONTEXT :: string where "DEPLOYMENT_CONTEXT = ''default''"

text \<open>\<open>find\<close> looks a job up in the stack of a name (None: the first one); a throw anywhere reads as None.\<close>

definition stackForQueueMessage :: "(string \<Rightarrow> string option) \<Rightarrow> (string option \<Rightarrow> string \<Rightarrow> job option) \<Rightarrow> queue_message option \<Rightarrow> string option" where
  "stackForQueueMessage externalIdOf findIn raw = (case raw of
       None \<Rightarrow> None
     | Some message \<Rightarrow>
         if \<not> truthy (qm_jobId message) \<or> \<not> truthy (externalIdOf (the (qm_jobId message))) then None
         else let x = the (externalIdOf (the (qm_jobId message)));
                  decoded = map_option fst (decodeEncoreJobId x);
                  found = findIn decoded x in
              if (case found of Some j \<Rightarrow> truthy (j_stackName j) | None \<Rightarrow> False) then j_stackName (the found)
              else if decoded = Some DEPLOYMENT_CONTEXT then None else decoded)"

end
