(* ===== verification/Scaling_Client.thy ===== *)
theory Scaling_Client
  imports Dispatch
begin

text \<open>
  The client side of the auto-scaler: submission, status and cancellation of a job through
  the shared store (\<^verbatim>\<open>src/src/encore-scaler/index.ts\<close>), the throughput cap
  (\<^verbatim>\<open>job-throughput-cap.ts\<close>), the two resolvers of a job's address (\<^verbatim>\<open>cancel-target.ts\<close>,
  \<^verbatim>\<open>packaging-target.ts\<close>), the payload of a job (\<^verbatim>\<open>pipeline/encore-client.ts\<close>) and the
  REST facade over the same store (\<^verbatim>\<open>encore-scaler-router.ts\<close>).

  The encoders are parameters: the answer to a posted cancel and to a status request. A
  token that cannot be minted is a request that throws. The bound on a Valkey write
  (\<^verbatim>\<open>withDependencyTimeout\<close>) never fires here, commands of the store do not fail.
\<close>

section \<open>Submission\<close>

record submit_input =
  si_externalId :: string
  si_progressCallbackUri :: "string option"
  si_inputUri :: string
  si_outputUri :: string
  si_profile :: string
  si_profileParams :: "(string, string) jsmap option"
  si_inputParams :: "(string, string) jsmap option"

definition json_strings :: "(string, string) jsmap \<Rightarrow> json" where
  "json_strings m = JObj (List.map (\<lambda>(k, v). (k, JStr v)) m)"

definition toEncorePayload :: "submit_input \<Rightarrow> json" where
  "toEncorePayload input = JObj
     ([(''externalId'', JStr (si_externalId input))]
      @ (if truthy (si_progressCallbackUri input)
         then [(''progressCallbackUri'', JStr (the (si_progressCallbackUri input)))] else [])
      @ [(''profile'', JStr (si_profile input))]
      @ (case si_profileParams input of Some m \<Rightarrow> [(''profileParams'', json_strings m)] | None \<Rightarrow> [])
      @ [(''outputFolder'', JStr (si_outputUri input)), (''baseName'', JStr ''rendition''),
         (''inputs'', JArr [JObj ([(''uri'', JStr (si_inputUri input)), (''type'', JStr ''AudioVideo'')]
            @ (case si_inputParams input of
                 Some m \<Rightarrow> if m \<noteq> [] then [(''params'', json_strings m)] else []
               | None \<Rightarrow> []))])])"

definition outstandingJobCount :: "scaler \<Rightarrow> nat" where
  "outstandingJobCount s = length (v_queue s) + length (v_inflight s)"

datatype cap_error = JobThroughputCapExceeded int nat

definition assertUnderJobThroughputCap :: "int option \<Rightarrow> scaler \<Rightarrow> cap_error option" where
  "assertUnderJobThroughputCap cap s = (case cap of
       None \<Rightarrow> None
     | Some k \<Rightarrow> let outstanding = outstandingJobCount s in
         if k \<le> int outstanding then Some (JobThroughputCapExceeded k outstanding) else None)"

text \<open>The two writes of a submission, shared by the client and the facade.\<close>

definition enqueue_job :: "string \<Rightarrow> json \<Rightarrow> int \<Rightarrow> scaler \<Rightarrow> scaler" where
  "enqueue_job jobId payload now s =
     set_status jobId ''QUEUED'' (lpush_queue (Parsed \<lparr> q_jobId = jobId, q_payload = payload,
       q_enqueuedAt = now, q_notBefore = None, q_attempts = None \<rparr>) s)"

definition submit :: "int option \<Rightarrow> submit_input \<Rightarrow> int \<Rightarrow> scaler \<Rightarrow> scaler \<times> (cap_error + string)" where
  "submit cap input now s = (case assertUnderJobThroughputCap cap s of
       Some e \<Rightarrow> (s, Inl e)
     | None \<Rightarrow> (enqueue_job (si_externalId input) (toEncorePayload input) now s, Inr (si_externalId input)))"

section \<open>Status\<close>

datatype job_state = Running | Done | Failed

definition getJobStatus :: "string \<Rightarrow> scaler \<Rightarrow> job_state option" where
  "getJobStatus encoreJobId s =
     (if \<not> truthy (map_of (v_jobStatus s) encoreJobId) then None
      else let t = status_of s encoreJobId in
        if t = ''QUEUED'' \<or> t = ''RUNNING'' then Some Running
        else if t = ''DONE'' \<or> t = ''SUCCESSFUL'' then Some Done
        else if t = ''FAILED'' \<or> t = ''CANCELLED'' then Some Failed
        else None)"

section \<open>Where a job runs\<close>

definition resolveJobInstanceId :: "string \<Rightarrow> scaler \<Rightarrow> string option" where
  "resolveJobInstanceId encoreJobId s =
     (let terminal = map_of (v_jobTerminalInstance s) encoreJobId in
      if truthy terminal then terminal else map_of (v_jobInstance s) encoreJobId)"

definition resolveEncoreCancelUrl :: "string \<Rightarrow> scaler \<Rightarrow> string option" where
  "resolveEncoreCancelUrl encoreJobId s =
     (let direct = map_of (v_jobEncoreUrl s) encoreJobId in
      if truthy direct then direct
      else let encoreUuid = map_of (v_jobUuid s) encoreJobId;
               instanceId = resolveJobInstanceId encoreJobId s
           in if \<not> truthy encoreUuid then None
              else if \<not> truthy instanceId then None
              else case map_of (v_pool s) (the instanceId) of
                     Some (Instance record) \<Rightarrow>
                       if i_url record = [] then None
                       else Some (strip_slashes (i_url record) @ ''/encoreJobs/'' @ the encoreUuid)
                   | _ \<Rightarrow> None)"

text \<open>The packager's input: \<^verbatim>\<open>decode\<close> is \<^verbatim>\<open>decodeEncoreJobId\<close> (workspace and job of an id); the
  store at hand is that workspace's.\<close>

definition resolvePackagingInstanceId ::
  "(string \<Rightarrow> (string \<times> string) option) \<Rightarrow> string \<Rightarrow> scaler \<Rightarrow> string option" where
  "resolvePackagingInstanceId decode encoreJobId s =
     (let terminal = map_of (v_jobTerminalInstance s) encoreJobId in
      if truthy terminal then terminal
      else if decode encoreJobId = None then None
      else map_of (v_jobInstance s) encoreJobId)"

definition resolvePackagingTarget ::
  "(string \<Rightarrow> (string \<times> string) option) \<Rightarrow> string \<Rightarrow> scaler \<Rightarrow> (string \<times> string) option" where
  "resolvePackagingTarget decode encoreJobId s =
     (if decode encoreJobId = None then None
      else let instanceId = resolvePackagingInstanceId decode encoreJobId s in
        if \<not> truthy instanceId then None
        else case map_of (v_pool s) (the instanceId) of
               Some (Instance record) \<Rightarrow>
                 (let direct = map_of (v_jobEncoreUrl s) encoreJobId;
                      encoreUuid = map_of (v_jobUuid s) encoreJobId
                  in if truthy direct then Some (the direct, the instanceId)
                     else if \<not> truthy encoreUuid then None
                     else Some (strip_slashes (i_url record) @ ''/encoreJobs/'' @ the encoreUuid, the instanceId))
             | _ \<Rightarrow> None)"

section \<open>Cancellation\<close>

datatype cancel_answer = CancelThrew | CancelStatus int

datatype cancel_error = CancelUnreachable | CancelRejected int

definition http_ok :: "int \<Rightarrow> bool" where
  "http_ok st = (200 \<le> st \<and> st < 300)"

text \<open>\<^verbatim>\<open>LREM key 0 entry\<close> of every buffered entry that names the job.\<close>

fun drain_entries :: "string \<Rightarrow> queue_entry list \<Rightarrow> scaler \<Rightarrow> scaler" where
  "drain_entries j [] s = s"
| "drain_entries j (e # es) s = drain_entries j es
     (if entry_job e = Some j then s\<lparr> v_queue := removeAll e (v_queue s) \<rparr> else s)"

definition drain_job :: "string \<Rightarrow> scaler \<Rightarrow> scaler" where
  "drain_job j s = drain_entries j (v_queue s) s"

text \<open>The posted cancel and what counts as delivered.\<close>

definition deliver_cancel :: "(string \<Rightarrow> cancel_answer) \<Rightarrow> string \<Rightarrow> string \<times> cancel_error option" where
  "deliver_cancel post encoreJobUrl =
     (let url = strip_slashes encoreJobUrl @ ''/cancel'' in
      (url, case post url of
         CancelThrew \<Rightarrow> Some CancelUnreachable
       | CancelStatus st \<Rightarrow> if \<not> http_ok st \<and> st \<noteq> 404 \<and> st \<noteq> 409 then Some (CancelRejected st) else None))"

definition cancel ::
  "(string \<Rightarrow> cancel_answer) \<Rightarrow> int \<Rightarrow> string \<Rightarrow> scaler \<Rightarrow> scaler \<times> string list \<times> cancel_error option" where
  "cancel post now encoreJobId s =
     (let s1 = drain_job encoreJobId s in
      case resolveEncoreCancelUrl encoreJobId s1 of
        None \<Rightarrow> (set_status encoreJobId ''CANCELLED'' s1, [], None)
      | Some encoreJobUrl \<Rightarrow>
          (let (url, deliveryError) = deliver_cancel post encoreJobUrl;
               s2 = set_status encoreJobId ''CANCELLED'' s1;
               s3 = recordOperatorCancel encoreJobId (resolveJobInstanceId encoreJobId s2) now s2
           in (s3, [url], deliveryError)))"

section \<open>The REST facade\<close>

datatype get_answer = GetThrew | GetStatus int json

text \<open>A reply: its status code and its \<^verbatim>\<open>status\<close> text, or the encoder's own answer.\<close>

datatype facade_reply = Reply int string | Proxied int json

definition hex_digit :: "nat \<Rightarrow> char" where
  "hex_digit n = (if n < 10 then char_of (48 + n) else char_of (55 + n))"

definition percent :: "nat \<Rightarrow> string" where
  "percent b = [CHR ''%'', hex_digit (b div 16), hex_digit (b mod 16)]"

text \<open>\<^verbatim>\<open>encodeURIComponent\<close> on one character (a code point below 256).\<close>

definition encode_char :: "char \<Rightarrow> string" where
  "encode_char c = (let n = of_char c :: nat in
     if is_lower c \<or> is_upper c \<or> is_digit c \<or> c \<in> set ''-_.!~*()'' \<or> n = 39 then [c]
     else if n < 128 then percent n
     else percent (192 + n div 64) @ percent (128 + n mod 64))"

definition encodeURIComponent :: "string \<Rightarrow> string" where
  "encodeURIComponent s = concat (List.map encode_char s)"

definition facade_submit :: "int option \<Rightarrow> string \<Rightarrow> json \<Rightarrow> int \<Rightarrow> scaler \<Rightarrow> scaler \<times> facade_reply" where
  "facade_submit cap jobId payload now s = (case assertUnderJobThroughputCap cap s of
       Some e \<Rightarrow> (s, Reply 429 ''job_throughput_cap_exceeded'')
     | None \<Rightarrow> (enqueue_job jobId payload now s, Reply 202 ''QUEUED''))"

text \<open>The status request a \<^verbatim>\<open>GET\<close> makes, and the reply.\<close>

definition facade_get_url :: "string \<Rightarrow> string \<Rightarrow> string" where
  "facade_get_url url i = strip_slash url @ ''/encoreJobs/'' @ encodeURIComponent i"

definition facade_get :: "(string \<Rightarrow> get_answer) \<Rightarrow> string \<Rightarrow> scaler \<Rightarrow> facade_reply option" where
  "facade_get fetch i s =
     (let instanceId = map_of (v_jobInstance s) i in
      if \<not> truthy instanceId then Some (Reply 200 ''QUEUED'')
      else case map_of (v_pool s) (the instanceId) of
             None \<Rightarrow> Some (Reply 200 (coalesce (map_of (v_jobStatus s) i) ''UNKNOWN''))
           | Some (CorruptInstance t) \<Rightarrow> None
           | Some (Instance record) \<Rightarrow>
               Some (case fetch (facade_get_url (i_url record) i) of
                  GetThrew \<Rightarrow> Reply 502 ''failed to reach encore instance''
                | GetStatus st body \<Rightarrow> if st = 404 then Reply 404 ''NOT_FOUND'' else Proxied st body))"

text \<open>\<^verbatim>\<open>DELETE\<close>; \<^verbatim>\<open>None\<close> when the pool record cannot be parsed and the handler throws.\<close>

definition facade_delete ::
  "(string \<Rightarrow> cancel_answer) \<Rightarrow> string \<Rightarrow> scaler \<Rightarrow> scaler \<times> facade_reply option" where
  "facade_delete post i s =
     (let s1 = drain_job i s;
          drained = list_ex (\<lambda>e. entry_job e = Some i) (v_queue s);
          instanceId = map_of (v_jobInstance s1) i;
          transcoderJobId = map_of (v_jobUuid s1) i
      in if \<not> truthy instanceId
         then (if drained then (set_status i ''CANCELLED'' s1, Some (Reply 200 ''CANCELLED''))
               else (s1, Some (Reply 404 ''NOT_FOUND'')))
         else case map_of (v_pool s1) (the instanceId) of
                None \<Rightarrow> (s1, Some (Reply 404 ''NOT_FOUND''))
              | Some (CorruptInstance t) \<Rightarrow> (s1, None)
              | Some (Instance record) \<Rightarrow>
                  if \<not> truthy transcoderJobId then (s1, Some (Reply 503 ''CANCEL_NOT_HONOURED''))
                  else (case post (strip_slash (i_url record) @ ''/encoreJobs/''
                            @ encodeURIComponent (the transcoderJobId) @ ''/cancel'') of
                          CancelThrew \<Rightarrow> (s1, Some (Reply 502 ''failed to reach encore instance''))
                        | CancelStatus st \<Rightarrow>
                            if \<not> http_ok st \<and> st \<noteq> 404 \<and> st \<noteq> 409
                            then (s1, Some (Reply 502 ''CANCEL_FAILED''))
                            else (set_status i ''CANCELLED'' s1, Some (Reply 200 ''CANCELLED''))))"

section \<open>Lemmas\<close>

lemma drain_entries_queue:
  "v_queue (drain_entries j es s) = filter (\<lambda>e. \<not> (entry_job e = Some j \<and> e \<in> set es)) (v_queue s)"
  by (induction es arbitrary: s) (auto simp: removeAll_filter_not_eq intro: filter_cong)

lemma drain_entries_only_queue: "\<exists>q. drain_entries j es s = s\<lparr> v_queue := q \<rparr>"
proof (induction es arbitrary: s)
  case Nil
  have "drain_entries j [] s = s\<lparr> v_queue := v_queue s \<rparr>" by simp
  then show ?case by blast
next
  case (Cons e es)
  show ?case
  proof (cases "entry_job e = Some j")
    case True
    obtain q where "drain_entries j es (s\<lparr> v_queue := removeAll e (v_queue s) \<rparr>)
        = (s\<lparr> v_queue := removeAll e (v_queue s) \<rparr>)\<lparr> v_queue := q \<rparr>" using Cons.IH by blast
    then have "drain_entries j (e # es) s = s\<lparr> v_queue := q \<rparr>" using True by simp
    then show ?thesis by blast
  qed (use Cons.IH in simp)
qed

lemma drain_job_eq:
  "drain_job j s = s\<lparr> v_queue := filter (\<lambda>e. entry_job e \<noteq> Some j) (v_queue s) \<rparr>"
proof -
  have q: "v_queue (drain_job j s) = filter (\<lambda>e. entry_job e \<noteq> Some j) (v_queue s)"
    by (auto simp: drain_job_def drain_entries_queue intro: filter_cong)
  obtain q where "drain_job j s = s\<lparr> v_queue := q \<rparr>"
    using drain_entries_only_queue [of j "v_queue s" s] by (auto simp: drain_job_def)
  then show ?thesis using q by simp
qed

lemma drain_job_frame [simp]:
  "v_queue (drain_job j s) = filter (\<lambda>e. entry_job e \<noteq> Some j) (v_queue s)"
  "v_inflight (drain_job j s) = v_inflight s" "v_pool (drain_job j s) = v_pool s"
  "v_jobInstance (drain_job j s) = v_jobInstance s" "v_jobStatus (drain_job j s) = v_jobStatus s"
  "v_jobEncoreUrl (drain_job j s) = v_jobEncoreUrl s" "v_jobUuid (drain_job j s) = v_jobUuid s"
  "v_jobTerminalInstance (drain_job j s) = v_jobTerminalInstance s"
  "v_jobPayload (drain_job j s) = v_jobPayload s" "v_jobAttempts (drain_job j s) = v_jobAttempts s"
  by (simp_all add: drain_job_eq)

lemma operator_cancel_frame [simp]:
  "v_queue (recordOperatorCancel j i now s) = v_queue s" "v_inflight (recordOperatorCancel j i now s) = v_inflight s"
  "v_jobStatus (recordOperatorCancel j i now s) = v_jobStatus s"
  "v_jobInstance (recordOperatorCancel j i now s) = v_jobInstance s"
  "v_jobPayload (recordOperatorCancel j i now s) = v_jobPayload s"
  "v_jobAttempts (recordOperatorCancel j i now s) = v_jobAttempts s"
  "v_jobEncoreUrl (recordOperatorCancel j i now s) = v_jobEncoreUrl s"
  "l_dispatched (recordOperatorCancel j i now s) = l_dispatched s"
  by (simp_all add: recordOperatorCancel_def Let_def split: option.splits pool_entry.splits)

text \<open>What a cancel may do to a pool record: mark the host of the job as draining.\<close>

definition cancel_drained :: "int \<Rightarrow> pool_entry \<Rightarrow> pool_entry" where
  "cancel_drained now p = (case p of
       Instance r \<Rightarrow> if i_draining r = Some True then p
         else Instance (r\<lparr> i_draining := Some True, i_cancelDrainingSince := Some now \<rparr>)
     | CorruptInstance t \<Rightarrow> p)"

lemma operator_cancel_pool:
  "map_of (v_pool (recordOperatorCancel j i now s)) k
     = (if truthy i \<and> k = the i then map_option (cancel_drained now) (map_of (v_pool s) k) else map_of (v_pool s) k)"
  by (simp add: recordOperatorCancel_def Let_def cancel_drained_def update_conv split: option.splits pool_entry.splits)

text \<open>The address resolvers look only at what a cancel leaves alone.\<close>

lemma resolve_after_drain [simp]:
  "resolveEncoreCancelUrl j (drain_job k s) = resolveEncoreCancelUrl j s"
  "resolveJobInstanceId j (set_status k st (drain_job k s)) = resolveJobInstanceId j s"
  by (simp_all add: resolveEncoreCancelUrl_def resolveJobInstanceId_def Let_def)

lemma resolve_lists [simp]:
  "resolveEncoreCancelUrl j (s\<lparr> v_queue := q, v_inflight := f \<rparr>) = resolveEncoreCancelUrl j s"
  by (simp add: resolveEncoreCancelUrl_def resolveJobInstanceId_def Let_def)

lemma client_status_frame: "v_jobStatus s' = v_jobStatus s \<Longrightarrow> status_of s' j = status_of s j"
  by (simp add: status_of_def)

lemma status_of_drain [simp]: "status_of (drain_job j s) k = status_of s k"
  by (rule client_status_frame) simp

section \<open>Properties\<close>

text \<open>A cancel, whatever state the job is in: every buffered entry of the job leaves the
  queue and the entries of other jobs stay, in order; the job reads CANCELLED and no other
  job's status changes; exactly one request is posted, to the job's recorded address, when
  one is known, and none otherwise; an error is reported exactly when that request was not
  delivered (an answer other than 2xx, 404 or 409); and no pool record changes except that
  the job's host is drained, unless it already was.\<close>

theorem cancel_effects:
  assumes "cancel post now j s = (s', posts, err)"
  shows "v_queue s' = filter (\<lambda>e. entry_job e \<noteq> Some j) (v_queue s)
    \<and> status_of s' j = ''CANCELLED'' \<and> (k \<noteq> j \<longrightarrow> status_of s' k = status_of s k)
    \<and> posts = (case resolveEncoreCancelUrl j s of None \<Rightarrow> [] | Some u \<Rightarrow> [strip_slashes u @ ''/cancel''])
    \<and> (err \<noteq> None \<longleftrightarrow> (\<exists>u. posts = [u] \<and> (post u = CancelThrew
         \<or> (\<exists>st. post u = CancelStatus st \<and> \<not> http_ok st \<and> st \<noteq> 404 \<and> st \<noteq> 409))))
    \<and> map_of (v_pool s') i = (if posts \<noteq> [] \<and> truthy (resolveJobInstanceId j s) \<and> i = the (resolveJobInstanceId j s)
         then map_option (cancel_drained now) (map_of (v_pool s) i) else map_of (v_pool s) i)"
proof (cases "resolveEncoreCancelUrl j s")
  case None
  then have "s' = set_status j ''CANCELLED'' (drain_job j s)" "posts = []" "err = None"
    using assms by (simp_all add: cancel_def Let_def)
  then show ?thesis using None by simp
next
  case (Some u)
  let ?h = "resolveJobInstanceId j s"
  let ?s2 = "set_status j ''CANCELLED'' (drain_job j s)"
  have s': "s' = recordOperatorCancel j ?h now ?s2" and p: "posts = [strip_slashes u @ ''/cancel'']"
    and e: "err = snd (deliver_cancel post u)"
    using assms Some by (simp_all add: cancel_def deliver_cancel_def Let_def)
  have st: "status_of s' k = status_of ?s2 k" for k unfolding s' by (rule client_status_frame) simp
  have pool: "map_of (v_pool s') i = (if truthy ?h \<and> i = the ?h
      then map_option (cancel_drained now) (map_of (v_pool s) i) else map_of (v_pool s) i)"
    unfolding s' by (simp add: operator_cancel_pool)
  have err: "err \<noteq> None \<longleftrightarrow> (\<exists>v. posts = [v] \<and> (post v = CancelThrew
      \<or> (\<exists>st. post v = CancelStatus st \<and> \<not> http_ok st \<and> st \<noteq> 404 \<and> st \<noteq> 409)))"
    by (simp add: e p deliver_cancel_def Let_def split: cancel_answer.splits)
  show ?thesis unfolding err pool st using Some p s' by simp
qed

definition demo_running :: scaler where
  "demo_running = empty_scaler\<lparr>
     v_queue := [Parsed \<lparr> q_jobId = ''j'', q_payload = JNull, q_enqueuedAt = 1, q_notBefore = None, q_attempts = Some 1 \<rparr>,
       Parsed \<lparr> q_jobId = ''k'', q_payload = JNull, q_enqueuedAt = 2, q_notBefore = None, q_attempts = None \<rparr>],
     v_pool := [(''enc1'', Instance (demo_idle\<lparr> i_instanceId := ''enc1'' \<rparr>))],
     v_jobInstance := [(''j'', ''enc1'')], v_jobStatus := [(''j'', ''running''), (''k'', ''QUEUED'')],
     v_jobEncoreUrl := [(''j'', ''http://e1/encoreJobs/u'')] \<rparr>"

lemma cancel_effects_witness:
  "v_queue (fst (cancel (\<lambda>u. CancelStatus 500) 9 ''j'' demo_running))
     = [Parsed \<lparr> q_jobId = ''k'', q_payload = JNull, q_enqueuedAt = 2, q_notBefore = None, q_attempts = None \<rparr>]
   \<and> fst (snd (cancel (\<lambda>u. CancelStatus 500) 9 ''j'' demo_running)) = [''http://e1/encoreJobs/u/cancel'']"
proof -
  let ?c = "cancel (\<lambda>u. CancelStatus 500) 9 ''j'' demo_running"
  have e: "?c = (fst ?c, fst (snd ?c), snd (snd ?c))" by simp
  have q: "filter (\<lambda>e. entry_job e \<noteq> Some ''j'') (v_queue demo_running) = [Parsed \<lparr> q_jobId = ''k'',
      q_payload = JNull, q_enqueuedAt = 2, q_notBefore = None, q_attempts = None \<rparr>]"
    "resolveEncoreCancelUrl ''j'' demo_running = Some ''http://e1/encoreJobs/u''"
    by (simp_all add: demo_running_def resolveEncoreCancelUrl_def truthy_def)
  have "strip_slashes ''http://e1/encoreJobs/u'' = ''http://e1/encoreJobs/u''" by code_simp
  then show ?thesis using cancel_effects [OF e] q by simp
qed

text \<open>A cancel does not stop a job whose entry the scaler has claimed and not yet
  posted: the cancel finds no buffered entry and no address, reports success without posting
  anything, and the dispatch under way, when the encoder accepts it, starts the job and
  writes it RUNNING over the CANCELLED status; when the encoder refuses it, the entry goes
  back to the queue, from which a later pass posts it.\<close>

theorem cancel_misses_claimed_job:
  assumes claimed: "rpoplpush s = (s1, Some (Parsed job))" and j: "q_jobId job = j"
    and fresh: "resolveEncoreCancelUrl j s = None"
    and cancelled: "cancel post now j s1 = (s2, posts, err)"
    and dispatched: "dispatch env inst job s2 = (s3, accepted)"
  shows "posts = [] \<and> err = None \<and> status_of s2 j = ''CANCELLED'' \<and> Parsed job \<in> set (v_inflight s2)
    \<and> (if accepted then status_of s3 j = ''RUNNING''
           \<and> l_dispatched s3 = l_dispatched s2 @ [dispatch_entry (i_instanceId inst) job]
       else Parsed job \<in> set (v_queue (rpush_queue (Parsed job) (lrem_inflight (Parsed job) s3))))"
proof -
  have s1: "s1 = s\<lparr> v_queue := butlast (v_queue s), v_inflight := Parsed job # v_inflight s \<rparr>"
    using claimed by (auto simp: rpoplpush_def split: if_splits)
  have "resolveEncoreCancelUrl j s1 = None"
    using fresh by (simp add: s1)
  then have s2: "s2 = set_status j ''CANCELLED'' (drain_job j s1)" "posts = []" "err = None"
    using cancelled by (simp_all add: cancel_def Let_def)
  have st: "status_of (record_dispatched inst job u s) j = ''RUNNING''" for u s
    using j by (simp add: record_dispatched_def Let_def recordDispatch_def status_of_def set_status_def)
  show ?thesis
  proof (cases accepted)
    case True
    then obtain u where "s3 = record_dispatched inst job u s2" using dispatch_ok [of env inst job s2 s3] dispatched by auto
    then show ?thesis using True s2 s1 st by simp
  next
    case False
    then show ?thesis using s2 s1 by simp
  qed
qed

definition demo_submitted :: scaler where
  "demo_submitted = empty_scaler\<lparr> v_queue := [Parsed demo_job] \<rparr>"

lemma cancel_misses_claimed_job_witness:
  "\<exists>s1 s2 s3. rpoplpush demo_submitted = (s1, Some (Parsed demo_job))
     \<and> cancel (\<lambda>u. CancelStatus 200) 7 (q_jobId demo_job) s1 = (s2, [], None)
     \<and> dispatch demo_dispatch_env demo_idle demo_job s2 = (s3, True) \<and> status_of s3 (q_jobId demo_job) = ''RUNNING''"
proof -
  let ?s1 = "fst (rpoplpush demo_submitted)"
  let ?c = "cancel (\<lambda>u. CancelStatus 200) 7 (q_jobId demo_job) ?s1"
  let ?d = "dispatch demo_dispatch_env demo_idle demo_job (fst ?c)"
  have a: "rpoplpush demo_submitted = (?s1, Some (Parsed demo_job))" by code_simp
  have b: "resolveEncoreCancelUrl (q_jobId demo_job) demo_submitted = None" by code_simp
  have d: "snd ?d" by code_simp
  have e: "?c = (fst ?c, fst (snd ?c), snd (snd ?c))" "?d = (fst ?d, snd ?d)" by simp_all
  have t: "fst (snd ?c) = [] \<and> snd (snd ?c) = None \<and> status_of (fst ?d) (q_jobId demo_job) = ''RUNNING''"
    using cancel_misses_claimed_job [OF a refl b e] d by simp
  show ?thesis
    by (rule exI [of _ ?s1], rule exI [of _ "fst ?c"], rule exI [of _ "fst ?d"])
      (use a d t in \<open>simp add: prod_eq_iff\<close>)
qed

text \<open>Submissions in flight. A submission reads the outstanding count and, a round trip
  later, writes its entry: \<^verbatim>\<open>Admitted\<close> and \<^verbatim>\<open>Pushed\<close>. Meanwhile the scaler takes entries off
  the queue and finishes them. At most \<^verbatim>\<open>n\<close> submissions are between their two steps.\<close>

inductive submit_step :: "int \<Rightarrow> nat \<Rightarrow> scaler \<times> nat \<Rightarrow> scaler \<times> nat \<Rightarrow> bool" for cap :: int and n :: nat where
  Admitted: "assertUnderJobThroughputCap (Some cap) s = None \<Longrightarrow> p < n \<Longrightarrow> submit_step cap n (s, p) (s, Suc p)"
| Pushed: "submit_step cap n (s, Suc p) (enqueue_job j payload now s, p)"
| Claimed: "rpoplpush s = (s', e) \<Longrightarrow> submit_step cap n (s, p) (s', p)"
| Finished: "submit_step cap n (s, p) (lrem_inflight e s, p)"

inductive_cases submit_stepE: "submit_step cap n (s, p) y"

lemma outstanding_enqueue [simp]: "outstandingJobCount (enqueue_job j pl now s) = Suc (outstandingJobCount s)"
  by (simp add: outstandingJobCount_def enqueue_job_def lpush_queue_def)

lemma outstanding_claim: "rpoplpush s = (s', e) \<Longrightarrow> outstandingJobCount s' = outstandingJobCount s"
  by (cases "v_queue s") (auto simp: rpoplpush_def outstandingJobCount_def)

lemma outstanding_finish: "outstandingJobCount (lrem_inflight e s) \<le> outstandingJobCount s"
  by (simp add: outstandingJobCount_def lrem_inflight_def length_remove1)

lemma submit_step_bound:
  assumes "submit_step cap n x y" "int (outstandingJobCount (fst x)) + int (snd x) \<le> b" "cap - 1 + int n \<le> b"
  shows "int (outstandingJobCount (fst y)) + int (snd y) \<le> b"
  using assms
proof cases
  case (Admitted s p)
  then have "int (outstandingJobCount s) < cap"
    by (auto simp: assertUnderJobThroughputCap_def Let_def split: if_splits)
  then show ?thesis using assms Admitted by simp
next
  case (Claimed s s' e p)
  then show ?thesis using assms by (simp add: outstanding_claim)
next
  case (Finished s p e)
  then show ?thesis using assms outstanding_finish [of e s] by simp
qed (use assms in simp_all)

text \<open>The throughput cap under concurrency: with at most \<^verbatim>\<open>n\<close> submissions between their
  check and their write at any time, starting from an empty store, the outstanding jobs never
  exceed the cap by more than \<^verbatim>\<open>n - 1\<close>, whatever the scaler claims and finishes meanwhile (so
  a single submitter never exceeds it).\<close>

theorem submit_bound_under_concurrency:
  assumes "(submit_step cap n)\<^sup>*\<^sup>* (empty_scaler, 0) (s, p)" "0 < n" "0 < cap"
  shows "int (outstandingJobCount s) + int p \<le> cap + int n - 1"
proof -
  have "int (outstandingJobCount (fst y)) + int (snd y) \<le> cap - 1 + int n"
    if "(submit_step cap n)\<^sup>*\<^sup>* (empty_scaler, 0) y" for y
    using that
  proof (induction rule: rtranclp_induct)
    case base
    then show ?case using assms(2,3) by (simp add: outstandingJobCount_def empty_scaler_def)
  next
    case (step y z)
    then show ?case using submit_step_bound by blast
  qed
  from this [OF assms(1)] show ?thesis by simp
qed

text \<open>Two submissions that both pass the check before either writes: the cap of one job is
  exceeded, and the bound is reached.\<close>

definition two_jobs :: scaler where
  "two_jobs = enqueue_job ''b'' JNull 0 (enqueue_job ''a'' JNull 0 empty_scaler)"

lemma overshoot_run: "(submit_step 1 2)\<^sup>*\<^sup>* (empty_scaler, 0) (two_jobs, 0)"
proof -
  have ok: "assertUnderJobThroughputCap (Some 1) empty_scaler = None" by code_simp
  have 1: "submit_step 1 2 (empty_scaler, 0) (empty_scaler, 1)"
    using submit_step.Admitted [OF ok, of 0 2] by simp
  have 2: "submit_step 1 2 (empty_scaler, 1) (empty_scaler, 2)"
    using submit_step.Admitted [OF ok, of 1 2] by (simp add: numeral_2_eq_2)
  have 3: "submit_step 1 2 (empty_scaler, 2) (enqueue_job ''a'' JNull 0 empty_scaler, 1)"
    using submit_step.Pushed [of 1 2 empty_scaler 1] by (simp add: numeral_2_eq_2)
  have 4: "submit_step 1 2 (enqueue_job ''a'' JNull 0 empty_scaler, 1) (two_jobs, 0)"
    using submit_step.Pushed [of 1 2 "enqueue_job ''a'' JNull 0 empty_scaler" 0] by (simp add: two_jobs_def)
  from 1 2 3 4 show ?thesis by (meson converse_rtranclp_into_rtranclp rtranclp.rtrancl_refl)
qed

lemma submit_bound_under_concurrency_witness:
  "int (outstandingJobCount two_jobs) + int 0 \<le> (1::int) + int 2 - 1 \<and> outstandingJobCount two_jobs = 2"
proof -
  have "outstandingJobCount two_jobs = 2" by code_simp
  then show ?thesis using submit_bound_under_concurrency [OF overshoot_run] by simp
qed

end
