(* ===== verification/Handler_Claims.thy ===== *)
theory Handler_Claims
  imports Completion_Handler Scaling_Client
begin

text \<open>
  What one completion message does to the job, the asset, the pipeline and the scaler's keys: the
  branches of \<^verbatim>\<open>handleMessageInStack\<close> (\<^verbatim>\<open>Completion_Handler\<close>), and a failure that follows an operator's
  cancel (\<^verbatim>\<open>Scaling_Client\<close>).
\<close>

section \<open>A failure the gate retries\<close>

definition failure_text :: "encore_document \<Rightarrow> string \<Rightarrow> string" where
  "failure_text doc status = coalesce (ed_message doc) (''encore status: '' @ status)"

definition ended_badly :: "string \<Rightarrow> bool" where
  "ended_badly status = (to_upper status \<notin> set IN_FLIGHT_ENCORE_STATUSES \<and> \<not> is_success status)"

definition retryable :: "handler_env \<Rightarrow> string \<Rightarrow> string \<Rightarrow> scaler \<Rightarrow> bool" where
  "retryable e x failureText s = (decodeEncoreJobId x \<noteq> None \<and> \<not> hn_gateThrows e
     \<and> isRetryableFailureClass (Message (classifyEncoreFailure (hn_pathname e) (Some failureText)))
     \<and> stored_count (map_of (v_jobAttempts s) x) 1 < MAX_ENCODE_ATTEMPTS
     \<and> (\<exists>payload. map_of (v_jobPayload s) x = Some (Payload payload)))"

lemma decrement_unmapped: "map_of (v_jobInstance s) x = None \<Longrightarrow> decrementActiveJobs now x None s = s"
  by (simp add: decrementActiveJobs_def)

lemma handle_found_retry:
  assumes "ended_badly status" "retryable e x (failure_text doc status) (hd_store s)" "\<not> hasQueuedOrInflightEntry x (hd_store s)"
  shows "\<exists>q cls. q_jobId q = x \<and> handle_found e url doc x status job s
    = (close_attempt e (j_id job) (Some cls) (s\<lparr> hd_store := reenqueue q (cancelPriorActiveAttempt x True (hd_store s)) \<rparr>), Inr ())"
proof -
  let ?f = "failure_text doc status"
  obtain payload where p: "map_of (v_jobPayload (hd_store s)) x = Some (Payload payload)" using assms(2) by (auto simp: retryable_def)
  let ?n = "stored_count (map_of (v_jobAttempts (hd_store s)) x) 1"
  define q where "q = \<lparr> q_jobId = x, q_payload = payload, q_enqueuedAt = hn_now e, q_notBefore = Some (hn_now e + backoffForAttempt ?n), q_attempts = Some ?n \<rparr>"
  define st where "st = reenqueue q (cancelPriorActiveAttempt x True (hd_store s))"
  have qx: "q_jobId q = x" by (simp add: q_def)
  have g: "retry_gate e x ?f (hd_store s) = (st, Some (Retry (?n + 1) (classifyEncoreFailure (hn_pathname e) (Some ?f)) (backoffForAttempt ?n)))"
    using assms(2,3) p by (simp add: retry_gate_def retryable_def decideRetry_def Let_def st_def q_def)
  have u: "map_of (v_jobInstance st) x = None" by (simp add: st_def qx)
  have c: "hd_store (close_attempt e i cls (s\<lparr> hd_store := st \<rparr>)) = st" for i cls by (simp add: close_attempt_def)
  have "(close_attempt e i cls (s\<lparr> hd_store := st \<rparr>))\<lparr> hd_store := st \<rparr> = close_attempt e i cls (s\<lparr> hd_store := st \<rparr>)" for i cls
    by (simp add: close_attempt_def)
  then have "handle_found e url doc x status job s = (close_attempt e (j_id job) (Some (classifyEncoreFailure (hn_pathname e) (Some ?f)))
      (s\<lparr> hd_store := st \<rparr>), Inr ())"
    using assms(1) g u c by (simp add: handle_found_def ended_badly_def failure_text_def Let_def decrement_unmapped)
  with qx show ?thesis unfolding st_def by blast
qed

lemma close_attempt_frame [simp]:
  "hd_store (close_attempt e i c s) = hd_store s" "hd_pipes (close_attempt e i c s) = hd_pipes s"
  "hd_packaging (close_attempt e i c s) = hd_packaging s" "cs_assets (hd_core (close_attempt e i c s)) = cs_assets (hd_core s)"
  by (simp_all add: close_attempt_def)

lemma close_attempt_status:
  "map_option j_status (get_job (cs_jobs (hd_core (close_attempt e i c s))) k) = map_option j_status (get_job (cs_jobs (hd_core s)) k)"
  by (auto simp: close_attempt_def finalizeEncodeAttempt_def get_job_def put_job_def finalizeLatestEncodeAttemptOnJob_def Let_def
      split: option.split)

section \<open>A cancel and what it leaves\<close>

lemma cancel_store:
  "v_inflight (fst (cancel post now x s)) = v_inflight s"
  "v_queue (fst (cancel post now x s)) = filter (\<lambda>q. entry_job q \<noteq> Some x) (v_queue s)"
  "v_jobPayload (fst (cancel post now x s)) = v_jobPayload s" "v_jobAttempts (fst (cancel post now x s)) = v_jobAttempts s"
  "status_of (fst (cancel post now x s)) x = ''CANCELLED''"
proof -
  let ?c = "set_status x ''CANCELLED'' (drain_job x s)"
  have "fst (cancel post now x s) = ?c \<or> (\<exists>i. fst (cancel post now x s) = recordOperatorCancel x i now ?c)"
    by (cases "resolveEncoreCancelUrl x (drain_job x s)") (auto simp: cancel_def Let_def split: prod.split)
  moreover have "status_of (recordOperatorCancel x i now ?c) x = status_of ?c x" for i by (rule client_status_frame) simp
  ultimately show "v_inflight (fst (cancel post now x s)) = v_inflight s"
    "v_queue (fst (cancel post now x s)) = filter (\<lambda>q. entry_job q \<noteq> Some x) (v_queue s)"
    "v_jobPayload (fst (cancel post now x s)) = v_jobPayload s" "v_jobAttempts (fst (cancel post now x s)) = v_jobAttempts s"
    "status_of (fst (cancel post now x s)) x = ''CANCELLED''"
    by auto
qed

section \<open>Properties\<close>

definition demo_doc :: "string \<Rightarrow> string option \<Rightarrow> encore_document" where
  "demo_doc status message = \<lparr> ed_externalId = Some ''ctx__job-1'', ed_status = Some status, ed_message = message, ed_output = None \<rparr>"

definition demo_encoder_record :: instance_record where
  "demo_encoder_record = \<lparr> i_instanceId = ''i1'', i_url = ''http://e'', i_callbackListenerUrl = None, i_callbackTrustReady = None,
     i_callbackTrustConfirmedAt = None, i_callbackTrustFirstProbeAt = None, i_callbackTrustQuarantinedAt = None,
     i_callbackPathUnusableAt = None, i_callbackPathUnusableStatus = None, i_activeJobs = 1, i_lastIdleAt = None,
     i_readyAt = None, i_draining = None, i_cancelDrainingSince = None, i_pendingReadySince = None,
     i_listenerCreateAttempts = None, i_listenerCreateNextAttemptAt = None, i_listenerCreateBlockedAt = None \<rparr>"

definition demo_busy_store :: scaler where
  "demo_busy_store = empty_scaler\<lparr> v_pool := [(''i1'', Instance demo_encoder_record)], v_jobInstance := [(''ctx__job-1'', ''i1'')],
     v_jobStatus := [(''ctx__job-1'', ''running'')], v_jobEncoreUrl := [(''ctx__job-1'', ''http://e/encoreJobs/u'')],
     v_uuidToExternalId := [(''u'', ''ctx__job-1'')], v_jobPayload := [(''ctx__job-1'', Payload JNull)] \<rparr>"

definition demo_handler_state :: handler_state where
  "demo_handler_state = \<lparr> hd_store = demo_busy_store, hd_core = demo_completion, hd_pipes = [], hd_packaging = [] \<rparr>"

definition demo_handler_env :: handler_env where
  "demo_handler_env = \<lparr> hn_completion = demo_completion_env,
     hn_package = \<lparr> pk_nowText = ''t9'', pk_currentStack = None, pk_jobsThrow = False, pk_pipelineThrows = False, pk_hasJobs = True, pk_hasPipeline = True \<rparr>,
     hn_now = 9000, hn_tokenThrows = False, hn_fetch = (\<lambda>u k. FetchNotOk), hn_stampThrows = None, hn_pathname = (\<lambda>t. None),
     hn_gateThrows = False, hn_detail = (\<lambda>t i a. None), hn_ensurePackaging = None, hn_enqueue = Enqueued \<rparr>"

text \<open>C0. A document of an attempt still running settles nothing: whatever message led to it, the handler
  returns and changes no key, job, asset, execution or queue.\<close>

theorem running_attempt_untouched:
  assumes "ed_status doc = Some status" "to_upper status \<in> {''NEW'', ''QUEUED'', ''IN_PROGRESS''}"
  shows "handle_document e url doc s = (s, Inr ())"
  using assms by (auto simp: handle_document_def handle_found_def IN_FLIGHT_ENCORE_STATUSES_def Let_def split: option.split)

theorem running_attempt_untouched_witness:
  "handle_document demo_handler_env ''http://e'' (demo_doc ''IN_PROGRESS'' None) demo_handler_state = (demo_handler_state, Inr ())"
proof -
  have "to_upper ''IN_PROGRESS'' = ''IN_PROGRESS''" by code_simp
  then show ?thesis by (intro running_attempt_untouched [where status = "''IN_PROGRESS''"]) (simp_all add: demo_doc_def)
qed

text \<open>A failure the gate retries leaves the run open: no job changes its status, and no asset,
  execution or packaging entry changes; the encode is queued again once under its id and reads
  RUNNING. The slot it held is not given back: the pool is as it was, because the retry has already
  dropped the mapping the decrement looks up.\<close>

theorem retried_failure_keeps_slot:
  assumes "ended_badly status" "retryable e x (failure_text doc status) (hd_store s)" "\<not> hasQueuedOrInflightEntry x (hd_store s)"
  shows "\<exists>s' q. handle_found e url doc x status job s = (s', Inr ())
    \<and> (\<forall>k. map_option j_status (get_job (cs_jobs (hd_core s')) k) = map_option j_status (get_job (cs_jobs (hd_core s)) k))
    \<and> cs_assets (hd_core s') = cs_assets (hd_core s) \<and> hd_pipes s' = hd_pipes s \<and> hd_packaging s' = hd_packaging s
    \<and> v_queue (hd_store s') = Parsed q # v_queue (hd_store s) \<and> q_jobId q = x \<and> status_of (hd_store s') x = ''RUNNING''
    \<and> v_pool (hd_store s') = v_pool (hd_store s)"
proof -
  obtain q cls where q: "q_jobId q = x" and h: "handle_found e url doc x status job s
    = (close_attempt e (j_id job) (Some cls) (s\<lparr> hd_store := reenqueue q (cancelPriorActiveAttempt x True (hd_store s)) \<rparr>), Inr ())"
    using handle_found_retry [OF assms] by blast
  show ?thesis
    by (intro exI [of _ q] exI [of _ "close_attempt e (j_id job) (Some cls) (s\<lparr> hd_store := reenqueue q (cancelPriorActiveAttempt x True (hd_store s)) \<rparr>)"])
      (simp add: h q close_attempt_status)
qed

lemma demo_retryable:
  "ended_badly ''FAILED''" "failure_text (demo_doc ''FAILED'' (Some ''read timed out'')) ''FAILED'' = ''read timed out''"
  "isRetryableFailureClass (Message (classifyEncoreFailure (\<lambda>t. None) (Some ''read timed out'')))"
  "decodeEncoreJobId ''ctx__job-1'' = Some (''ctx'', ''job-1'')"
proof -
  show "ended_badly ''FAILED''" by code_simp
  show "failure_text (demo_doc ''FAILED'' (Some ''read timed out'')) ''FAILED'' = ''read timed out''" by (simp add: failure_text_def demo_doc_def)
  show "isRetryableFailureClass (Message (classifyEncoreFailure (\<lambda>t. None) (Some ''read timed out'')))" by code_simp
  show "decodeEncoreJobId ''ctx__job-1'' = Some (''ctx'', ''job-1'')" by code_simp
qed

lemma demo_gate: "v_jobPayload s = v_jobPayload demo_busy_store \<Longrightarrow> v_jobAttempts s = v_jobAttempts demo_busy_store \<Longrightarrow>
    retryable demo_handler_env ''ctx__job-1'' ''read timed out'' s"
  using demo_retryable(3,4)
  by (simp add: retryable_def demo_handler_env_def demo_busy_store_def empty_scaler_def stored_count_def MAX_ENCODE_ATTEMPTS_def)

theorem retried_failure_keeps_slot_witness:
  "\<exists>s' q. handle_found demo_handler_env ''http://e'' (demo_doc ''FAILED'' (Some ''read timed out'')) ''ctx__job-1'' ''FAILED'' demo_transcode_job demo_handler_state
      = (s', Inr ()) \<and> v_queue (hd_store s') = [Parsed q] \<and> map_of (v_pool (hd_store s')) ''i1'' = Some (Instance demo_encoder_record)
      \<and> i_activeJobs demo_encoder_record = 1"
proof -
  have e: "\<not> hasQueuedOrInflightEntry ''ctx__job-1'' (hd_store demo_handler_state)" "v_queue (hd_store demo_handler_state) = []"
    "map_of (v_pool (hd_store demo_handler_state)) ''i1'' = Some (Instance demo_encoder_record)" "i_activeJobs demo_encoder_record = 1"
    "hd_store demo_handler_state = demo_busy_store"
    by (simp_all add: demo_handler_state_def demo_busy_store_def empty_scaler_def hasQueuedOrInflightEntry_def entries_of_def demo_encoder_record_def)
  show ?thesis
    using retried_failure_keeps_slot [where e = demo_handler_env and doc = "demo_doc ''FAILED'' (Some ''read timed out'')" and status = "''FAILED''"
        and x = "''ctx__job-1''" and s = demo_handler_state and url = "''http://e''" and job = demo_transcode_job] e demo_retryable demo_gate [of demo_busy_store]
    by fastforce
qed

text \<open>A cancel does not stop a retry: after an operator's cancel of a dispatched job, which empties the
  queue of it and records CANCELLED, a failure the gate can retry queues the encode again and makes
  it read RUNNING, whatever the local job's status.\<close>

theorem cancelled_job_is_redispatched:
  assumes "ended_badly status" "retryable e x (failure_text doc status) (hd_store s)"
    and "list_all (\<lambda>q. entry_job q \<noteq> Some x) (v_inflight (hd_store s))"
  shows "\<exists>c s' q. c = s\<lparr> hd_store := fst (cancel post now x (hd_store s)) \<rparr>
    \<and> status_of (hd_store c) x = ''CANCELLED'' \<and> \<not> hasQueuedOrInflightEntry x (hd_store c)
    \<and> handle_found e url doc x status job c = (s', Inr ())
    \<and> v_queue (hd_store s') = Parsed q # v_queue (hd_store c) \<and> q_jobId q = x \<and> status_of (hd_store s') x = ''RUNNING''"
proof -
  define c where "c = s\<lparr> hd_store := fst (cancel post now x (hd_store s)) \<rparr>"
  have st: "hd_store c = fst (cancel post now x (hd_store s))" by (simp add: c_def)
  have n: "\<not> hasQueuedOrInflightEntry x (hd_store c)"
    using assms(3) by (auto simp: st hasQueuedOrInflightEntry_def entries_of_def cancel_store list_ex_iff list_all_iff)
  have r: "retryable e x (failure_text doc status) (hd_store c)" using assms(2) by (simp add: retryable_def st cancel_store)
  obtain q cls where q: "q_jobId q = x" and h: "handle_found e url doc x status job c
      = (close_attempt e (j_id job) (Some cls) (c\<lparr> hd_store := reenqueue q (cancelPriorActiveAttempt x True (hd_store c)) \<rparr>), Inr ())"
    using handle_found_retry [OF assms(1) r n] by blast
  show ?thesis
    by (rule exI [of _ c], rule exI [of _ "close_attempt e (j_id job) (Some cls)
          (c\<lparr> hd_store := reenqueue q (cancelPriorActiveAttempt x True (hd_store c)) \<rparr>)"], rule exI [of _ q],
        intro conjI, rule c_def)
      (use n q in \<open>simp_all add: h st cancel_store\<close>)
qed

theorem cancelled_job_is_redispatched_witness:
  "\<exists>c s' q. status_of (hd_store c) ''ctx__job-1'' = ''CANCELLED''
     \<and> handle_found demo_handler_env ''http://e'' (demo_doc ''FAILED'' (Some ''read timed out'')) ''ctx__job-1'' ''FAILED''
          (demo_transcode_job\<lparr> j_status := JCancelled \<rparr>) c = (s', Inr ())
     \<and> v_queue (hd_store s') = [Parsed q] \<and> q_jobId q = ''ctx__job-1''"
proof -
  have e: "list_all (\<lambda>q. entry_job q \<noteq> Some ''ctx__job-1'') (v_inflight (hd_store demo_handler_state))" "v_queue (hd_store demo_handler_state) = []"
    "hd_store demo_handler_state = demo_busy_store"
    by (simp_all add: demo_handler_state_def demo_busy_store_def empty_scaler_def)
  have q: "v_queue (fst (cancel (\<lambda>u. CancelStatus 200) 5 ''ctx__job-1'' demo_busy_store)) = []" using e by (simp add: cancel_store)
  show ?thesis
    using cancelled_job_is_redispatched [where e = demo_handler_env and doc = "demo_doc ''FAILED'' (Some ''read timed out'')" and status = "''FAILED''"
        and x = "''ctx__job-1''" and s = demo_handler_state and url = "''http://e''" and job = "demo_transcode_job\<lparr> j_status := JCancelled \<rparr>"
        and post = "\<lambda>u. CancelStatus 200" and now = 5] e q demo_retryable demo_gate [of demo_busy_store]
    by fastforce
qed

end
