(* ===== verification/Handler_Success.thy ===== *)
theory Handler_Success
  imports Handler_Claims
begin

text \<open>
  A success message from the encoder to the packager: what stays true of the job and the asset once
  \<^verbatim>\<open>completeTranscode\<close> has applied it, through the attempt log, the pipeline and the hand-off.
\<close>

section \<open>A done job stays done\<close>

definition done_in :: "job_repo \<Rightarrow> string \<Rightarrow> bool" where
  "done_in r k = (jobs_ok r \<and> (\<exists>j. get_job r k = Some j \<and> j_status j = JDone))"

lemma done_op: "done_in r k \<Longrightarrow> done_in (run_job_op op r) k"
proof -
  assume "done_in r k"
  then obtain j where j: "jobs_ok r" "map_of (jobs r) k = Some j" "j_status j = JDone" by (auto simp: done_in_def get_job_def)
  obtain j' where "jobs_ok (run_job_op op r)" "map_of (jobs (run_job_op op r)) k = Some j'" "job_evolves j j'"
    using job_op_step [OF j(1), of op] j(2) by blast
  then show ?thesis using job_life.terminal_run j(3) by (fastforce simp: done_in_def get_job_def job_evolves_def)
qed

lemma done_calls:
  "update_job i p now r = Inr (r', b) \<Longrightarrow> done_in r k \<Longrightarrow> done_in r' k"
  "done_in r k \<Longrightarrow> done_in (fst (create_job now st input r)) k"
  "done_in r k \<Longrightarrow> done_in (fst (finalizeEncodeAttempt i t c now r)) k"
  using done_op [of r k "JobUpdate i p now"] done_op [of r k "JobCreate now st input"] done_op [of r k "JobFinalize i t c now"] by simp_all

lemma done_start: "done_in (rr_jobs s) k \<Longrightarrow> done_in (rr_jobs (fst (startPackageJob e i s))) k"
  unfolding startPackageJob_def Let_def
  by (auto split: option.split sum.split prod.split dest: done_calls(1) intro: done_calls(1) [OF _ done_calls(2)] simp: done_calls(2) prod_eq_iff)

lemma done_fail: "done_in r k \<Longrightarrow> done_in (fst (failPackageJob e j i reason r)) k"
  by (auto simp: failPackageJob_def settlePackageJob_def split: option.split sum.split dest: done_calls(1))

section \<open>What a success leaves\<close>

definition ended :: "string \<Rightarrow> string \<Rightarrow> rendition list \<Rightarrow> completion_state \<Rightarrow> bool" where
  "ended k i rs c = (done_in (cs_jobs c) k \<and> (\<exists>a. get (cs_assets c) i = Some a \<and> a_status a = Ready \<and> a_renditions a = Some rs))"

lemma ended_jobs: "ended k i rs c \<Longrightarrow> done_in r k \<Longrightarrow> ended k i rs (c\<lparr> cs_jobs := r \<rparr>)"
  by (simp add: ended_def)

lemma packaging_error_patch:
  "\<exists>pv. patch_asset a (empty_patch\<lparr> u_packagingError := Some t \<rparr>) now
    = Inr (a\<lparr> a_updatedAt := now, a_packagingError := Some t, a_provenance := pv \<rparr>)"
  by (auto simp: patch_asset_def empty_patch_def patch_fields_def patch_defs opt_set_def
      patch_provenance_def provenanceForPatch_def pv_entry_def Let_def)

lemma ended_packaging_error:
  assumes "ended k i rs c"
  shows "ended k i rs (fst (asset_write m (empty_patch\<lparr> u_packagingError := Some t \<rparr>) now c))"
proof (cases "get (cs_assets c) m")
  case None
  then show ?thesis using assms by (simp add: asset_write_def update_asset_def get_def)
next
  case (Some a)
  obtain pv where "patch_asset a (empty_patch\<lparr> u_packagingError := Some t \<rparr>) now
    = Inr (a\<lparr> a_updatedAt := now, a_packagingError := Some t, a_provenance := pv \<rparr>)" using packaging_error_patch by blast
  from asset_write_some [OF Some this] show ?thesis using assms Some by (auto simp: ended_def)
qed

lemma ended_close: "ended k i rs (hd_core s) \<Longrightarrow> ended k i rs (hd_core (close_attempt e m c s))"
  by (auto simp: ended_def close_attempt_def intro: done_calls(3))

lemma ended_keys: "ended k i rs (hd_core s) \<Longrightarrow> ended k i rs (hd_core (settle_keys e m x t c s))"
  by (auto simp: settle_keys_def Let_def intro!: ended_close split: option.split)

lemma set_steps_frame [simp]:
  "hd_core (set_steps e n st xs s) = hd_core s" "hd_store (set_steps e n st xs s) = hd_store s" "hd_packaging (set_steps e n st xs s) = hd_packaging s"
  by (simp_all add: set_steps_def)

lemma enqueue_failed_core:
  "hd_core (enqueue_failed e p m t s) = fst (asset_write m (empty_patch\<lparr> u_packagingError := Some (''failed to enqueue packaging job: '' @ t) \<rparr>)
     (co_now (hn_completion e)) ((hd_core s)\<lparr> cs_jobs :=
        fst (failPackageJob (hn_package e) p m (''failed to enqueue packaging job: '' @ t) (cs_jobs (hd_core s))) \<rparr>))"
  by (simp add: enqueue_failed_def Let_def)

lemma ended_enqueue:
  assumes "ended k i rs (hd_core s)"
  shows "ended k i rs (hd_core (enqueuePackagingJob e m url s))"
proof -
  let ?rr = "startPackageJob (hn_package e) m \<lparr> rr_jobs = cs_jobs (hd_core s), rr_pipes = hd_pipes s \<rparr>"
  have "done_in (rr_jobs (fst ?rr)) k" using assms by (intro done_start) (simp add: ended_def)
  then have e1: "ended k i rs ((hd_core s)\<lparr> cs_jobs := rr_jobs (fst ?rr) \<rparr>)" by (rule ended_jobs [OF assms])
  have e2: "ended k i rs (hd_core (enqueue_failed e p m t s'))" if "ended k i rs (hd_core s')" for p t s'
  proof -
    have "done_in (cs_jobs (hd_core s')) k" using that by (simp add: ended_def)
    then show ?thesis unfolding enqueue_failed_core
      by (intro ended_packaging_error ended_jobs that done_fail)
  qed
  show ?thesis using e1 by (cases ?rr; cases "hn_enqueue e") (auto simp: enqueuePackagingJob_def Let_def intro!: e2)
qed

lemma ended_advance:
  assumes "ended k i rs (hd_core s)"
  shows "ended k i rs (hd_core (fst (advance_pipeline e m x url ok t s)))"
proof -
  have r: "hd_core (fst (execution_to_advance e m x ok s)) = hd_core s"
    by (simp add: execution_to_advance_def reopen_dropped_def Let_def split: option.split)
  have "ended k i rs (hd_core (fst (advance_run e m x url ok t run s')))" if "ended k i rs (hd_core s')" for run s'
    using that ended_enqueue by (simp add: advance_run_def Let_def split: option.split)
  then show ?thesis using r assms by (auto simp: advance_pipeline_def split: prod.split option.split)
qed

section \<open>A success that is applied\<close>

lemma mark_running_active:
  assumes "get_job (cs_jobs s) (j_id job) = Some job" "isActiveJobStatus (j_status job)" "jobs_ok (cs_jobs s)"
  shows "\<exists>j1 s1. mark_running ce job s = (s1, Inr ()) \<and> cs_assets s1 = cs_assets s \<and> jobs_ok (cs_jobs s1)
    \<and> get_job (cs_jobs s1) (j_id job) = Some j1 \<and> j_status j1 = JRunning"
proof (cases "j_status job = JRunning")
  case True
  then show ?thesis using assms by (simp add: mark_running_def)
next
  case False
  then have w: "j_status job = JQueued \<or> j_status job = JPending" using assms(2) by (cases "j_status job") auto
  then have v: "isValidJobTransition (j_status job) JRunning" by (auto simp: isValidJobTransition_def)
  obtain j1 where j1: "job_write (j_id job) (blank_job_patch\<lparr> uj_status := Some JRunning \<rparr>) (co_now ce) s
      = (s\<lparr> cs_jobs := put_job (j_id job) j1 (cs_jobs s) \<rparr>, Inr ())"
    "applyJobPatch job (blank_job_patch\<lparr> uj_status := Some JRunning \<rparr>) (co_now ce) = Inr j1" "j_status j1 = JRunning"
    using job_write_status(1) [OF assms(1) _ v, of "blank_job_patch\<lparr> uj_status := Some JRunning \<rparr>" "co_now ce"] by auto
  have "jobs_ok (put_job (j_id job) j1 (cs_jobs s))"
    using put_job_ok [OF assms(3) _ applyJobPatch_evolves [OF j1(2)]] assms(1) by (simp add: get_job_def)
  then show ?thesis using w j1 by (auto simp: mark_running_def)
qed

definition run_pipeline :: "handler_env \<Rightarrow> job \<Rightarrow> string \<Rightarrow> string \<Rightarrow> string \<Rightarrow> string option \<Rightarrow> handler_state \<Rightarrow> handler_state" where
  "run_pipeline e job x url t ti s =
     (let (s3, handedOff) = (if pk_hasPipeline (hn_package e) then advance_pipeline e (j_assetId job) x url True t s else (s, False))
      in case ti of Some i \<Rightarrow> if i \<noteq> [] \<and> \<not> handedOff then s3\<lparr> hd_store := unpinInstanceForPackaging i x (hd_store s3) \<rparr> else s3 | None \<Rightarrow> s3)"

lemma settle_found_applied:
  assumes "get_job (cs_jobs (hd_core s)) (j_id job) = Some job" "isActiveJobStatus (j_status job)" "jobs_ok (cs_jobs (hd_core s))"
    and "get (cs_assets (hd_core s)) (j_assetId job) = Some a" "a_status a = Processing \<or> a_status a = asset_status.Failed \<or> a_status a = Ready"
  shows "\<exists>c. settle_found e x url True t doc job ti cls s
      = (run_pipeline e job x url t ti (settle_keys e (j_id job) x ti None (s\<lparr> hd_core := c \<rparr>)), Inr ())
    \<and> ended (j_id job) (j_assetId job) (embedded_renditions (co_ulid (hn_completion e)) (normaliseRenditions (ed_output doc))) c"
proof -
  let ?ce = "hn_completion e" and ?rs = "embedded_renditions (co_ulid (hn_completion e)) (normaliseRenditions (ed_output doc))"
  let ?p = "\<lparr> cp_jobId = j_id job, cp_sourceAssetId = j_assetId job, cp_success = True, cp_error = None,
    cp_renditions = normaliseRenditions (ed_output doc), cp_conditionalDrop = None \<rparr>"
  obtain j1 c1 where m: "mark_running ?ce job (hd_core s) = (c1, Inr ())" "cs_assets c1 = cs_assets (hd_core s)" "jobs_ok (cs_jobs c1)"
    "get_job (cs_jobs c1) (j_id job) = Some j1" "j_status j1 = JRunning"
    using mark_running_active [OF assms(1-3)] by blast
  have g: "get_job (cs_jobs c1) (cp_jobId ?p) = Some j1" "isValidJobTransition (j_status j1) JDone" "get (cs_assets c1) (cp_sourceAssetId ?p) = Some a"
    using m assms(4) by (simp_all add: isValidJobTransition_def)
  have c: "completeTranscode ?ce ?p c1 = apply_success ?ce ?p j1 False c1"
    by (rule completeTranscode_ends(2) [OF g(1)]) (simp_all add: m)
  obtain c2 j2 a2 where o: "completeTranscode ?ce ?p c1 = (c2, Inr \<lparr> cr_applied = True, cr_renditionCount = length (normaliseRenditions (ed_output doc)), cr_renditions = ?rs \<rparr>)"
    "cs_jobs c2 = put_job (j_id job) j2 (cs_jobs c1)" "j_status j2 = JDone"
    "get (cs_assets c2) (j_assetId job) = Some a2" "a_status a2 = Ready" "a_renditions a2 = Some ?rs"
  proof -
    obtain a' au s' where "apply_success ?ce ?p j1 False c1 = (s', Inr \<lparr> cr_applied = True, cr_renditionCount = length (cp_renditions ?p),
          cr_renditions = embedded_renditions (co_ulid ?ce) (cp_renditions ?p) \<rparr>)"
      and s': "s' = c1\<lparr> cs_jobs := put_job (cp_jobId ?p) (j1\<lparr> j_updatedAt := co_now ?ce, j_status := JDone, j_progress := Fin 100,
            j_droppedByScaler := Some False, j_error := None, j_droppedThenRecovered := j_droppedThenRecovered j1,
            j_correctedDropError := j_correctedDropError j1 \<rparr>) (cs_jobs c1), cs_assets := cs_assets s', cs_audit := au \<rparr>"
      and a': "\<forall>k. get (cs_assets s') k = (if k = cp_sourceAssetId ?p then Some a' else get (cs_assets c1) k)"
        "a_renditions a' = Some (embedded_renditions (co_ulid ?ce) (cp_renditions ?p))"
        "a_status a' = (if a_status a = Processing \<or> a_status a = asset_status.Failed then Ready else a_status a)"
      using apply_success_outcome [OF g, of ?ce False] by auto
    moreover have "cs_jobs s' = put_job (j_id job) (j1\<lparr> j_updatedAt := co_now ?ce, j_status := JDone, j_progress := Fin 100,
            j_droppedByScaler := Some False, j_error := None, j_droppedThenRecovered := j_droppedThenRecovered j1,
            j_correctedDropError := j_correctedDropError j1 \<rparr>) (cs_jobs c1)" by (subst s') simp
    ultimately show ?thesis using assms(5) c by (intro that) auto
  qed
  have "jobs_ok (cs_jobs c2)" using completeTranscode_only [OF m(3), of ?p ?ce] m(3) o(1) by (simp add: writes_only_def)
  then have e2: "ended (j_id job) (j_assetId job) ?rs c2" using o(2-6) by (simp add: ended_def done_in_def)
  have "settle_found e x url True t doc job ti cls s
      = (run_pipeline e job x url t ti (settle_keys e (j_id job) x ti None (s\<lparr> hd_core := c2 \<rparr>)), Inr ())"
    using m(1) o(1) by (simp add: settle_found_def run_pipeline_def Let_def split: prod.split)
  with e2 show ?thesis by blast
qed

lemma ended_run:
  assumes "ended k i rs (hd_core s)"
  shows "ended k i rs (hd_core (run_pipeline e job x url t ti s))"
  using assms ended_advance [OF assms, of e "j_assetId job" x url True t]
  by (auto simp: run_pipeline_def Let_def split: prod.split option.split if_splits)

lemma settle_found_success:
  assumes "get_job (cs_jobs (hd_core s)) (j_id job) = Some job" "isActiveJobStatus (j_status job)" "jobs_ok (cs_jobs (hd_core s))"
    and "get (cs_assets (hd_core s)) (j_assetId job) = Some a" "a_status a = Processing \<or> a_status a = asset_status.Failed \<or> a_status a = Ready"
  shows "\<exists>s'. settle_found e x url True t doc job ti cls s = (s', Inr ())
    \<and> ended (j_id job) (j_assetId job) (embedded_renditions (co_ulid (hn_completion e)) (normaliseRenditions (ed_output doc))) (hd_core s')"
proof -
  obtain c where c: "settle_found e x url True t doc job ti cls s
      = (run_pipeline e job x url t ti (settle_keys e (j_id job) x ti None (s\<lparr> hd_core := c \<rparr>)), Inr ())"
    "ended (j_id job) (j_assetId job) (embedded_renditions (co_ulid (hn_completion e)) (normaliseRenditions (ed_output doc))) c"
    using settle_found_applied [OF assms, of e x url t doc ti cls] by blast
  then have "ended (j_id job) (j_assetId job) (embedded_renditions (co_ulid (hn_completion e)) (normaliseRenditions (ed_output doc)))
      (hd_core (settle_keys e (j_id job) x ti None (s\<lparr> hd_core := c \<rparr>)))" by (intro ended_keys) simp
  from ended_run [OF this] c(1) show ?thesis by blast
qed

lemma success_not_in_flight: "is_success status \<Longrightarrow> to_upper status \<notin> set IN_FLIGHT_ENCORE_STATUSES"
  by (auto simp: is_success_def IN_FLIGHT_ENCORE_STATUSES_def)

lemma handle_found_success:
  "is_success status \<Longrightarrow> handle_found e url doc x status job s
    = settle_found e x url True (failure_text doc status) doc job (snd (stamp_terminal (hn_stampThrows e) x (hd_store s))) None
        (s\<lparr> hd_store := fst (stamp_terminal (hn_stampThrows e) x (hd_store s)) \<rparr>)"
  using success_not_in_flight by (simp add: handle_found_def failure_text_def Let_def split: prod.split)

lemma found_is_stored:
  assumes "jobs_ok r" "findByEncoreJobId r x = Some job"
  shows "get_job r (j_id job) = Some job"
proof -
  have "job \<in> set (vals (jobs r))" using assms(2) by (auto simp: findByEncoreJobId_def find_Some_iff)
  then obtain k where k: "(k, job) \<in> set (jobs r)" by (auto simp: vals_def)
  have "distinct (List.map fst (jobs r))" using assms(1) by (simp add: jobs_ok_def keys_def)
  then have "map_of (jobs r) k = Some job" using k by simp
  then show ?thesis using assms(1) by (auto simp: jobs_ok_def get_job_def)
qed

section \<open>Properties\<close>

text \<open>C23. A success completes its run whatever comes after: for an active job, dispatched or not as far
  as the record shows, whose asset is processing, failed or ready, the handler returns with the job
  done and the asset ready with the renditions of the document, however the hand-off to the
  packager fares.\<close>

theorem success_message_completes:
  assumes "jobs_ok (cs_jobs (hd_core s))" "findByEncoreJobId (cs_jobs (hd_core s)) x = Some job" "isActiveJobStatus (j_status job)"
    and "get (cs_assets (hd_core s)) (j_assetId job) = Some a" "a_status a \<in> {Processing, asset_status.Failed, Ready}"
    and "ed_externalId doc = Some x" "x \<noteq> []" "ed_status doc = Some status" "is_success status"
  shows "\<exists>s' j' a'. handle_document e url doc s = (s', Inr ())
    \<and> get_job (cs_jobs (hd_core s')) (j_id job) = Some j' \<and> j_status j' = JDone
    \<and> get (cs_assets (hd_core s')) (j_assetId job) = Some a' \<and> a_status a' = Ready
    \<and> a_renditions a' = Some (embedded_renditions (co_ulid (hn_completion e)) (normaliseRenditions (ed_output doc)))"
proof -
  let ?st = "stamp_terminal (hn_stampThrows e) x (hd_store s)"
  let ?s1 = "s\<lparr> hd_store := fst ?st \<rparr>"
  have c: "hd_core ?s1 = hd_core s" by simp
  obtain s' where s': "settle_found e x url True (failure_text doc status) doc job (snd ?st) None ?s1 = (s', Inr ())"
    "ended (j_id job) (j_assetId job) (embedded_renditions (co_ulid (hn_completion e)) (normaliseRenditions (ed_output doc))) (hd_core s')"
    using settle_found_success [of ?s1 job a e x url "failure_text doc status" doc "snd ?st" None, unfolded c]
      found_is_stored [OF assms(1,2)] assms(1,3,4,5) by auto
  have "truthy (ed_status doc)" using assms(8,9) by (auto simp: is_success_def truthy_def)
  then have "handle_document e url doc s = (s', Inr ())"
    using assms(2,6,7,8) s'(1) by (simp add: handle_document_def truthy_def handle_found_success [OF assms(9)])
  then show ?thesis using s'(2) by (auto simp: ended_def done_in_def)
qed

lemma demo_found:
  "jobs_ok (cs_jobs demo_completion)" "findByEncoreJobId (cs_jobs demo_completion) ''ctx__job-1'' = Some demo_transcode_job"
proof -
  have "''job-1'' = ''job-'' @ dec 1" by code_simp
  then show "jobs_ok (cs_jobs demo_completion)"
    using demo_lookups(5) by (auto simp: jobs_ok_def demo_completion_def keys_def split: if_splits)
  show "findByEncoreJobId (cs_jobs demo_completion) ''ctx__job-1'' = Some demo_transcode_job"
    by (simp add: findByEncoreJobId_def demo_completion_def vals_def demo_transcode_job_def)
qed

lemma demo_success: "is_success ''SUCCESSFUL''" by code_simp

theorem success_message_completes_witness:
  "\<exists>s' j'. handle_document (demo_handler_env\<lparr> hn_ensurePackaging := Some ''no packager'' \<rparr>) ''http://e'' (demo_doc ''SUCCESSFUL'' None) demo_handler_state
      = (s', Inr ()) \<and> get_job (cs_jobs (hd_core s')) ''job-1'' = Some j' \<and> j_status j' = JDone"
  using success_message_completes [where s = demo_handler_state and x = "''ctx__job-1''" and job = demo_transcode_job and a = demo_settle_asset
      and doc = "demo_doc ''SUCCESSFUL'' None" and status = "''SUCCESSFUL''" and e = "demo_handler_env\<lparr> hn_ensurePackaging := Some ''no packager'' \<rparr>"
      and url = "''http://e''"] demo_found demo_lookups demo_success
  by (auto simp: demo_handler_state_def demo_doc_def)



text \<open>A completion delivered twice is applied once: a success for a job that is done, or failed on the
  encoder's word, changes no job, asset, execution or packaging entry and no slot of an encoder; it
  only stamps the scaler's own keys again.\<close>

theorem redelivered_success_changes_nothing:
  assumes "get_job (cs_jobs (hd_core s)) (j_id job) = Some job"
    and "j_status job = JDone \<or> j_status job = JFailed \<and> j_droppedByScaler job \<noteq> Some True" "is_success status"
  shows "\<exists>s'. handle_found e url doc x status job s = (s', Inr ())
    \<and> hd_core s' = hd_core s \<and> hd_pipes s' = hd_pipes s \<and> hd_packaging s' = hd_packaging s
    \<and> v_pool (hd_store s') = v_pool (hd_store s) \<and> v_queue (hd_store s') = v_queue (hd_store s)
    \<and> v_pendingPackaging (hd_store s') = v_pendingPackaging (hd_store s)"
proof -
  let ?st = "stamp_terminal (hn_stampThrows e) x (hd_store s)"
  have f: "List.fold (\<lambda>f. f) (take n [g, h]) z = (if n = 0 then z else if n = 1 then g z else h (g z))"
    "List.fold (\<lambda>f. f) (take n [k, g, h]) z = (if n = 0 then z else if n = 1 then k z else if n = 2 then g (k z) else h (g (k z)))"
    for n and g h k :: "scaler \<Rightarrow> scaler" and z
    by (cases n; simp; cases "n - 1"; simp; cases "n - 2"; simp)+
  have st: "v_pool (fst ?st) = v_pool (hd_store s)" "v_queue (fst ?st) = v_queue (hd_store s)"
    "v_pendingPackaging (fst ?st) = v_pendingPackaging (hd_store s)"
    by (simp_all add: stamp_terminal_def writes_until_def f Let_def set_status_frame split: option.split)
  have na: "j_status job \<noteq> JQueued" "j_status job \<noteq> JPending" using assms(2) by auto
  have "completeTranscode (hn_completion e) \<lparr> cp_jobId = j_id job, cp_sourceAssetId = j_assetId job, cp_success = True, cp_error = None,
      cp_renditions = normaliseRenditions (ed_output doc), cp_conditionalDrop = None \<rparr> (hd_core s) = (hd_core s, Inr not_applied)"
    using assms(1,2) by (auto simp: completeTranscode_def Let_def)
  then have "handle_found e url doc x status job s = (s\<lparr> hd_store := fst ?st \<rparr>, Inr ())"
    using na by (simp add: handle_found_success [OF assms(3)] settle_found_def mark_running_def not_applied_def)
  then show ?thesis using st by simp
qed

definition demo_done_job :: job where "demo_done_job = demo_transcode_job\<lparr> j_status := JDone \<rparr>"

theorem redelivered_success_changes_nothing_witness:
  "\<exists>s'. handle_found demo_handler_env ''http://e'' (demo_doc ''SUCCESSFUL'' None) ''ctx__job-1'' ''SUCCESSFUL'' demo_done_job
       (demo_handler_state\<lparr> hd_core := demo_completion\<lparr> cs_jobs := \<lparr> jobs = [(''job-1'', demo_done_job)], counter = 1 \<rparr> \<rparr> \<rparr>) = (s', Inr ())
     \<and> map_of (v_pool (hd_store s')) ''i1'' = Some (Instance demo_encoder_record)"
  using redelivered_success_changes_nothing [where job = demo_done_job and status = "''SUCCESSFUL''" and e = demo_handler_env and url = "''http://e''"
      and doc = "demo_doc ''SUCCESSFUL'' None" and x = "''ctx__job-1''"
      and s = "demo_handler_state\<lparr> hd_core := demo_completion\<lparr> cs_jobs := \<lparr> jobs = [(''job-1'', demo_done_job)], counter = 1 \<rparr> \<rparr> \<rparr>"]
    demo_success demo_lookups(5)
  by (fastforce simp: demo_done_job_def get_job_def demo_handler_state_def demo_busy_store_def)

end
