(* ===== verification/Handler_Handoff.thy ===== *)
theory Handler_Handoff
  imports Handler_Success
begin

text \<open>
  The hand-off from a finished transcode to the packager: the steps of the run, the packaging queue,
  the pin on the instance that holds the encoded files and the slot that is freed.
\<close>

section \<open>What the hand-off keeps\<close>

definition outline :: "execution \<Rightarrow> execution_status \<times> step_name list \<times> step_status list" where
  "outline x = (xn_status x, List.map sp_name (xn_steps x), List.map sp_status (xn_steps x))"

lemma pipes_ok_update: "pipes_ok r \<Longrightarrow> xn_id x = k \<Longrightarrow> pipes_ok (AList.update k x r)"
  by (auto simp: pipes_ok_def distinct_update update_conv' split: if_splits)

lemma stamp_keeps_outline:
  assumes "pipes_ok r"
  shows "map_option outline (get_execution (stampJobIdOnPackageStep e i j r) k) = map_option outline (get_execution r k)"
proof (cases "\<not> pk_hasPipeline e \<or> pk_pipelineThrows e \<or> findRunningByAssetAndStep r i StepPackage = None")
  case True
  then show ?thesis by (auto simp: stampJobIdOnPackageStep_def)
next
  case False
  then obtain x where x: "findRunningByAssetAndStep r i StepPackage = Some x" by auto
  show ?thesis
  proof (cases "find_index (runs_step StepPackage) (xn_steps x)")
    case None
    then show ?thesis using x by (simp add: stampJobIdOnPackageStep_def)
  next
    case (Some n)
    let ?t = "(xn_steps x ! n)\<lparr> sp_jobId := Some j \<rparr>"
    have g: "map_of r (xn_id x) = Some x" using findRunning_Some(1) [OF x assms] by (simp add: get_execution_def)
    have m: "List.map sp_name ((xn_steps x)[n := ?t]) = List.map sp_name (xn_steps x)"
      "List.map sp_status ((xn_steps x)[n := ?t]) = List.map sp_status (xn_steps x)"
      by (simp_all add: map_update) (metis list_update_id map_update)+
    show ?thesis using x Some g False m
      by (auto simp: stampJobIdOnPackageStep_def update_execution_def apply_execution_patch_def steps_patch_def Let_def get_execution_def
          update_conv' outline_def)
  qed
qed

lemma start_keeps_outline:
  "pipes_ok (rr_pipes s) \<Longrightarrow> map_option outline (get_execution (rr_pipes (fst (startPackageJob e i s))) k) = map_option outline (get_execution (rr_pipes s) k)"
  by (auto simp: startPackageJob_def Let_def stamp_keeps_outline split: option.split sum.split prod.split)

lemma enqueue_frame [simp]:
  "hd_store (enqueue_failed e p m t s) = hd_store s" "hd_pipes (enqueue_failed e p m t s) = hd_pipes s"
  by (simp_all add: enqueue_failed_def Let_def)

lemma enqueue_store [simp]: "hd_store (enqueuePackagingJob e m url s) = hd_store s"
  by (simp add: enqueuePackagingJob_def Let_def split: prod.split enqueue_answer.split)

lemma enqueue_outline:
  assumes "pipes_ok (hd_pipes s)"
  shows "map_option outline (get_execution (hd_pipes (enqueuePackagingJob e m url s)) k) = map_option outline (get_execution (hd_pipes s) k)"
  using start_keeps_outline [of "\<lparr> rr_jobs = cs_jobs (hd_core s), rr_pipes = hd_pipes s \<rparr>" "hn_package e" m k] assms
  by (cases "startPackageJob (hn_package e) m \<lparr> rr_jobs = cs_jobs (hd_core s), rr_pipes = hd_pipes s \<rparr>"; cases "hn_enqueue e")
    (simp_all add: enqueuePackagingJob_def Let_def)

lemma enqueue_queue:
  "hn_enqueue e = Enqueued \<Longrightarrow> map_of (hd_packaging (enqueuePackagingJob e m url s)) (packaging_message m url) = Some (hn_now e)"
  by (simp add: enqueuePackagingJob_def Let_def zadd_def update_conv' split: prod.split)

section \<open>The advance into the package step\<close>

definition handing_off :: "string \<Rightarrow> execution \<Rightarrow> nat \<Rightarrow> nat \<Rightarrow> bool" where
  "handing_off x r t n = (find_index (our_transcode x) (xn_steps r) = Some t \<and> n < length (xn_steps r) \<and> n \<noteq> t
     \<and> sp_name (xn_steps r ! n) = StepPackage \<and> sp_status (xn_steps r ! n) = StepPending
     \<and> (\<forall>m < n. m \<noteq> t \<longrightarrow> sp_status (xn_steps r ! m) \<noteq> StepPending))"

lemma find_index_eqI:
  "n < length xs \<Longrightarrow> P (xs ! n) \<Longrightarrow> (\<And>m. m < n \<Longrightarrow> \<not> P (xs ! m)) \<Longrightarrow> find_index P xs = Some n"
proof (induction xs arbitrary: n)
  case (Cons x xs)
  then show ?case
  proof (cases n)
    case (Suc k)
    have "\<not> P x" using Cons.prems(3) [of 0] Suc by simp
    moreover have "find_index P xs = Some k"
      by (rule Cons.IH) (use Cons.prems(1,2) Cons.prems(3) [of "Suc m" for m] Suc in auto)
    ultimately show ?thesis using Suc by simp
  qed simp
qed simp

lemma advance_hands_off:
  assumes "handing_off x r t n" "hn_ensurePackaging e = None" "hn_enqueue e = Enqueued"
    and "pipes_ok (hd_pipes s)" "get_execution (hd_pipes s) (xn_id r) = Some r"
  shows "\<exists>s' r'. advance_run e m x url True f r s = (s', True) \<and> hd_store s' = hd_store s
    \<and> map_of (hd_packaging s') (packaging_message m url) = Some (hn_now e)
    \<and> get_execution (hd_pipes s') (xn_id r) = Some r'
    \<and> outline r' = (ExecRunning, List.map sp_name (xn_steps r), (List.map sp_status (xn_steps r))[t := StepDone, n := StepRunning])"
proof -
  let ?now = "co_now (hn_completion e)"
  define s1 where "s1 = (xn_steps r)[t := (xn_steps r ! t)\<lparr> sp_status := StepDone, sp_completedAt := Some ?now \<rparr>]"
  define s2 where "s2 = s1[n := (s1 ! n)\<lparr> sp_status := StepRunning, sp_startedAt := Some ?now \<rparr>]"
  have t: "find_index (our_transcode x) (xn_steps r) = Some t" "t < length (xn_steps r)"
    using assms(1) find_index_Some by (auto simp: handing_off_def)
  have n: "n < length (xn_steps r)" "n \<noteq> t" "s1 ! n = xn_steps r ! n" using assms(1) by (auto simp: handing_off_def s1_def)
  have p: "find_index (\<lambda>q. sp_status q = StepPending) s1 = Some n"
    by (rule find_index_eqI) (use assms(1) t(2) n in \<open>auto simp: handing_off_def s1_def nth_list_update\<close>)
  have k: "sp_name (s1 ! n) = StepPackage" using assms(1) n(3) by (simp add: handing_off_def)
  let ?mid = "set_steps e (xn_id r) s2 ExecRunning s"
  have run: "advance_run e m x url True f r s = (enqueuePackagingJob e m url ?mid, True)"
    using t(1) p k assms(2) by (simp add: advance_run_def Let_def s1_def [symmetric] s2_def)
  let ?r = "apply_execution_patch (steps_patch s2 (Some ExecRunning)) ?now r"
  have mid: "hd_pipes ?mid = AList.update (xn_id r) ?r (hd_pipes s)"
    using assms(5) by (simp add: set_steps_def update_execution_def get_execution_def Let_def)
  have ok: "pipes_ok (hd_pipes ?mid)" unfolding mid by (rule pipes_ok_update [OF assms(4)]) (simp add: apply_execution_patch_def)
  have names: "List.map sp_name s2 = List.map sp_name (xn_steps r)"
    by (simp add: s2_def s1_def map_update n(3)) (metis list_update_id map_update n(3) s1_def)
  have sts: "List.map sp_status s2 = (List.map sp_status (xn_steps r))[t := StepDone, n := StepRunning]"
    by (simp add: s2_def s1_def map_update)
  have "map_option outline (get_execution (hd_pipes ?mid) (xn_id r)) = Some (outline ?r)" by (simp add: mid get_execution_def update_conv')
  then have "map_option outline (get_execution (hd_pipes (enqueuePackagingJob e m url ?mid)) (xn_id r)) = Some (outline ?r)"
    by (simp add: enqueue_outline [OF ok])
  then obtain r' where r': "get_execution (hd_pipes (enqueuePackagingJob e m url ?mid)) (xn_id r) = Some r'" "outline r' = outline ?r" by auto
  have "outline ?r = (ExecRunning, List.map sp_name (xn_steps r), (List.map sp_status (xn_steps r))[t := StepDone, n := StepRunning])"
    by (simp add: outline_def apply_execution_patch_def steps_patch_def names sts)
  then show ?thesis using run r' enqueue_queue [OF assms(3)] by (intro exI [of _ "enqueuePackagingJob e m url ?mid"] exI [of _ r']) simp
qed

section \<open>The keys of the scaler\<close>

definition freed :: "instance_record \<Rightarrow> int \<Rightarrow> instance_record" where
  "freed i now = (let n = max 0 (i_activeJobs i - 1); i1 = i\<lparr> i_activeJobs := n \<rparr> in
     if n = 0 then i1\<lparr> i_lastIdleAt := Some (StampNum (Fin (of_int now))) \<rparr> else i1)"

lemma stamp_all:
  assumes "decodeEncoreJobId x = Some d" "map_of (v_jobInstance s) x = Some i" "i \<noteq> []"
  shows "snd (stamp_terminal None x s) = Some i" "v_pool (fst (stamp_terminal None x s)) = v_pool s"
    "map_of (v_jobInstance (fst (stamp_terminal None x s))) x = None"
proof -
  let ?s1 = "s\<lparr> v_jobTerminalInstance := AList.update x i (v_jobTerminalInstance s) \<rparr>"
  let ?s2 = "set_status x ''SUCCESSFUL'' ?s1"
  have e: "stamp_terminal None x s = (?s2\<lparr> v_jobInstance := AList.delete x (v_jobInstance ?s2) \<rparr>, Some i)"
    using assms by (simp add: stamp_terminal_def writes_until_def truthy_def Let_def del: set_status_frame)
  show "snd (stamp_terminal None x s) = Some i" "v_pool (fst (stamp_terminal None x s)) = v_pool s"
    "map_of (v_jobInstance (fst (stamp_terminal None x s))) x = None" unfolding e by simp_all
qed

lemma keys_store:
  assumes "decodeEncoreJobId x = Some d" "i \<noteq> []" "map_of (v_pool (hd_store s)) i = Some (Instance rec)"
  shows "map_of (v_pool (hd_store (settle_keys e m x (Some i) c s))) i = Some (Instance (freed rec (hn_now e)))"
    "v_jobInstance (hd_store (settle_keys e m x (Some i) c s)) = v_jobInstance (hd_store s)"
    "x \<in> set (coalesce (map_of (v_pendingPackaging (hd_store (settle_keys e m x (Some i) c s))) i) [])"
    "map_of (v_jobPayload (hd_store (settle_keys e m x (Some i) c s))) x = None"
    "hd_pipes (settle_keys e m x (Some i) c s) = hd_pipes s" "hd_packaging (settle_keys e m x (Some i) c s) = hd_packaging s"
  using assms by (simp_all add: settle_keys_def decrementActiveJobs_def pinInstanceForPackaging_def clearRetryState_def freed_def truthy_def
      Let_def update_conv')

section \<open>Property\<close>

text \<open>C25. A transcode that ends hands its files to the packager: when a success arrives for the run whose next
  step is the package step and the packager can be provisioned and its queue filled, the transcode
  step is done and the package step running in the same run, the packager's queue holds the entry
  for the asset and the encoder's document, the instance that holds the files is pinned for it, its
  slot is free again and the retry keys are gone.\<close>

theorem transcode_hands_off:
  assumes "jobs_ok (cs_jobs (hd_core s))" "findByEncoreJobId (cs_jobs (hd_core s)) x = Some job" "isActiveJobStatus (j_status job)"
    and "get (cs_assets (hd_core s)) (j_assetId job) = Some a" "a_status a \<in> {Processing, asset_status.Failed, Ready}"
    and "ed_externalId doc = Some x" "decodeEncoreJobId x = Some d" "x \<noteq> []" "ed_status doc = Some status" "is_success status"
    and "map_of (v_jobInstance (hd_store s)) x = Some i" "i \<noteq> []" "map_of (v_pool (hd_store s)) i = Some (Instance rec)"
    and "hn_stampThrows e = None" "hn_ensurePackaging e = None" "hn_enqueue e = Enqueued" "pk_hasPipeline (hn_package e)"
    and "pipes_ok (hd_pipes s)" "findRunningByAssetAndStep (hd_pipes s) (j_assetId job) StepTranscode = Some r" "handing_off x r t n"
  shows "\<exists>s' r'. handle_document e url doc s = (s', Inr ())
    \<and> get_execution (hd_pipes s') (xn_id r) = Some r' \<and> xn_status r' = ExecRunning
    \<and> List.map sp_status (xn_steps r') = (List.map sp_status (xn_steps r))[t := StepDone, n := StepRunning]
    \<and> map_of (hd_packaging s') (packaging_message (j_assetId job) url) = Some (hn_now e)
    \<and> x \<in> set (coalesce (map_of (v_pendingPackaging (hd_store s')) i) [])
    \<and> map_of (v_pool (hd_store s')) i = Some (Instance (freed rec (hn_now e)))
    \<and> map_of (v_jobInstance (hd_store s')) x = None \<and> map_of (v_jobPayload (hd_store s')) x = None"
proof -
  let ?f = "failure_text doc status"
  define st where "st = fst (stamp_terminal None x (hd_store s))"
  note sa = stamp_all [OF assms(7,11,12)]
  have core: "hd_core (s\<lparr> hd_store := st \<rparr>) = hd_core s" by simp
  obtain c where sf: "settle_found e x url True ?f doc job (Some i) None (s\<lparr> hd_store := st \<rparr>)
      = (run_pipeline e job x url ?f (Some i) (settle_keys e (j_id job) x (Some i) None (s\<lparr> hd_store := st, hd_core := c \<rparr>)), Inr ())"
    using settle_found_applied [of "s\<lparr> hd_store := st \<rparr>" job a e x url ?f doc "Some i" None, unfolded core]
      found_is_stored [OF assms(1,2)] assms(1,3,4,5) by auto
  define s2 where "s2 = settle_keys e (j_id job) x (Some i) None (s\<lparr> hd_store := st, hd_core := c \<rparr>)"
  have pl: "map_of (v_pool (hd_store (s\<lparr> hd_store := st, hd_core := c \<rparr>))) i = Some (Instance rec)" using sa(2) assms(13) by (simp add: st_def)
  note ks = keys_store [OF assms(7,12) pl, of e "j_id job" None, folded s2_def]
  have p2: "hd_pipes s2 = hd_pipes s" using ks(5) by simp
  have g: "get_execution (hd_pipes s2) (xn_id r) = Some r" using findRunning_Some(1) [OF assms(19,18)] p2 by simp
  have ok: "pipes_ok (hd_pipes s2)" using assms(18) p2 by simp
  obtain s3 r' where adv: "advance_run e (j_assetId job) x url True ?f r s2 = (s3, True)" "hd_store s3 = hd_store s2"
    "map_of (hd_packaging s3) (packaging_message (j_assetId job) url) = Some (hn_now e)" "get_execution (hd_pipes s3) (xn_id r) = Some r'"
    "outline r' = (ExecRunning, List.map sp_name (xn_steps r), (List.map sp_status (xn_steps r))[t := StepDone, n := StepRunning])"
    using advance_hands_off [OF assms(20,15,16) ok g, of "j_assetId job" url ?f] by blast
  have "run_pipeline e job x url ?f (Some i) s2 = s3"
    using assms(17,19) adv(1) p2 by (simp add: run_pipeline_def advance_pipeline_def execution_to_advance_def Let_def)
  then have "settle_found e x url True ?f doc job (Some i) None (s\<lparr> hd_store := st \<rparr>) = (s3, Inr ())" using sf by (simp add: s2_def)
  moreover have "truthy (ed_status doc)" using assms(9,10) by (auto simp: is_success_def truthy_def)
  ultimately have "handle_document e url doc s = (s3, Inr ())"
    using assms(2,6,8,9,14) sa(1) by (simp add: handle_document_def truthy_def handle_found_success [OF assms(10)] st_def)
  moreover have "map_of (v_jobInstance (hd_store s3)) x = None" using adv(2) ks(2) sa(3) by (simp add: st_def)
  ultimately show ?thesis using adv ks by (intro exI [of _ s3] exI [of _ r']) (simp add: outline_def)
qed

definition demo_run :: execution where
  "demo_run = snd (create_execution False ''x-1'' ''t1'' \<lparr> xi_assetId = ''A'', xi_pipelineName = ''abr-vod'',
      xi_steps = [StepTranscode, StepPackage], xi_destinationBucket = None, xi_drm = None \<rparr> [])
     \<lparr> xn_steps := [(new_step StepTranscode)\<lparr> sp_status := StepRunning, sp_encoreJobId := Some ''ctx__job-1'' \<rparr>, new_step StepPackage] \<rparr>"

definition demo_running_state :: handler_state where
  "demo_running_state = demo_handler_state\<lparr> hd_pipes := [(''x-1'', demo_run)] \<rparr>"

theorem transcode_hands_off_witness:
  "\<exists>s' r'. handle_document demo_handler_env ''http://e/encoreJobs/u'' (demo_doc ''SUCCESSFUL'' None) demo_running_state = (s', Inr ())
     \<and> get_execution (hd_pipes s') ''x-1'' = Some r' \<and> List.map sp_status (xn_steps r') = [StepDone, StepRunning]
     \<and> map_of (hd_packaging s') (packaging_message ''A'' ''http://e/encoreJobs/u'') = Some 9000"
proof -
  have d: "xn_id demo_run = ''x-1''" "xn_steps demo_run = [(new_step StepTranscode)\<lparr> sp_status := StepRunning, sp_encoreJobId := Some ''ctx__job-1'' \<rparr>, new_step StepPackage]"
    "xn_assetId demo_run = ''A''" "xn_status demo_run = ExecRunning"
    by (simp_all add: demo_run_def create_execution_def Let_def)
  have h: "handing_off ''ctx__job-1'' demo_run 0 1" by (simp add: handing_off_def d our_transcode_def new_step_def)
  have p: "pipes_ok (hd_pipes demo_running_state)" by (simp add: pipes_ok_def demo_running_state_def d)
  have f: "findRunningByAssetAndStep (hd_pipes demo_running_state) (j_assetId demo_transcode_job) StepTranscode = Some demo_run"
    by (simp add: findRunningByAssetAndStep_def newest_first_def runs_step_def demo_running_state_def d demo_lookups vals_def new_step_def)
  have st: "hd_store demo_running_state = demo_busy_store" "hd_core demo_running_state = demo_completion"
    by (simp_all add: demo_running_state_def demo_handler_state_def)
  have m: "map_of (v_jobInstance demo_busy_store) ''ctx__job-1'' = Some ''i1''" "map_of (v_pool demo_busy_store) ''i1'' = Some (Instance demo_encoder_record)"
    by (simp_all add: demo_busy_store_def)
  have e: "hn_stampThrows demo_handler_env = None" "hn_ensurePackaging demo_handler_env = None" "hn_enqueue demo_handler_env = Enqueued"
    "pk_hasPipeline (hn_package demo_handler_env)" "hn_now demo_handler_env = 9000" by (simp_all add: demo_handler_env_def)
  have dd: "ed_externalId (demo_doc ''SUCCESSFUL'' None) = Some ''ctx__job-1''" "ed_status (demo_doc ''SUCCESSFUL'' None) = Some ''SUCCESSFUL''"
    by (simp_all add: demo_doc_def)
  have l: "(List.map sp_status (xn_steps demo_run))[0 := StepDone, 1 := StepRunning] = [StepDone, StepRunning]" by (simp add: d)
  from transcode_hands_off [where s = demo_running_state and x = "''ctx__job-1''" and job = demo_transcode_job and a = demo_settle_asset
      and doc = "demo_doc ''SUCCESSFUL'' None" and status = "''SUCCESSFUL''" and i = "''i1''" and rec = demo_encoder_record and e = demo_handler_env
      and r = demo_run and t = 0 and n = 1 and url = "''http://e/encoreJobs/u''"]
    show ?thesis using h p f st m e dd l d(1) demo_found demo_lookups demo_success demo_retryable(4) by fastforce
qed

end
