(* ===== verification/Package_Claims.thy ===== *)
theory Package_Claims
  imports Settle_Failed
begin

text \<open>
  The sweep over stalled package steps (\<^verbatim>\<open>reconcileStalledPackages\<close>, \<^verbatim>\<open>Pipeline_Repo\<close>): which executions
  it fails, and that it fails no other.
\<close>

section \<open>One execution\<close>

definition package_bound :: "stalled_env \<Rightarrow> int" where
  "package_bound e = coalesce (sv_stallTimeoutMs e) DEFAULT_PACKAGE_STALL_TIMEOUT_MS"

definition step_overdue :: "stalled_env \<Rightarrow> step_execution \<Rightarrow> bool" where
  "step_overdue e t = (truthy (sp_startedAt t) \<and> (case sv_parse e (the (sp_startedAt t)) of
      None \<Rightarrow> False | Some t0 \<Rightarrow> package_bound e < sv_now e - t0))"

definition overdue :: "stalled_env \<Rightarrow> execution \<Rightarrow> bool" where
  "overdue e x = ((case find_index (runs_step StepPackage) (xn_steps x) of None \<Rightarrow> False | Some k \<Rightarrow> step_overdue e (xn_steps x ! k))
     \<and> \<not> sv_updateThrows e (xn_id x))"

definition stalled_reason :: "stalled_env \<Rightarrow> string" where
  "stalled_reason e = buildDiagnostic ((2 * package_bound e + 60000) div 120000) (sv_packagerPresent e)"

definition failed_package :: "stalled_env \<Rightarrow> execution \<Rightarrow> execution" where
  "failed_package e x = (case find_index (runs_step StepPackage) (xn_steps x) of None \<Rightarrow> x | Some k \<Rightarrow>
     let now = pk_nowText (sv_package e) in
     x\<lparr> xn_status := ExecFailed, xn_steps := (xn_steps x)[k := (xn_steps x ! k)\<lparr> sp_status := StepFailed,
          sp_error := Some (stalled_reason e), sp_completedAt := Some now \<rparr>], xn_updatedAt := now \<rparr>)"

lemma fail_stalled_pipes:
  assumes "get_execution (rr_pipes s) (xn_id x) = Some x"
  shows "rr_pipes (fst (fail_stalled e x s)) = (if overdue e x then AList.update (xn_id x) (failed_package e x) (rr_pipes s) else rr_pipes s)"
proof (cases "find_index (runs_step StepPackage) (xn_steps x)")
  case None
  then show ?thesis by (simp add: fail_stalled_def overdue_def)
next
  case (Some k)
  let ?t = "xn_steps x ! k"
  show ?thesis
  proof (cases "overdue e x")
    case False
    then show ?thesis using Some
      by (auto simp: fail_stalled_def overdue_def step_overdue_def package_bound_def Let_def split: option.split)
  next
    case True
    then obtain t0 where at: "(if truthy (sp_startedAt ?t) then sv_parse e (the (sp_startedAt ?t)) else None) = Some t0"
      "\<not> sv_now e - t0 \<le> package_bound e" "\<not> sv_updateThrows e (xn_id x)"
      using Some by (auto simp: overdue_def step_overdue_def split: option.splits)
    have m: "map_of (rr_pipes s) (xn_id x) = Some x" using assms by (simp add: get_execution_def)
    show ?thesis using True Some at m
      by (simp add: fail_stalled_def Let_def package_bound_def [symmetric] stalled_reason_def [symmetric] update_execution_def
          apply_execution_patch_def steps_patch_def failed_package_def split: prod.split)
  qed
qed

lemma failed_package_id [simp]: "xn_id (failed_package e x) = xn_id x"
  by (simp add: failed_package_def Let_def split: option.split)

lemma fail_stalled_all_pipes:
  "distinct (List.map xn_id xs) \<Longrightarrow> \<forall>x \<in> set xs. get_execution (rr_pipes s) (xn_id x) = Some x \<Longrightarrow>
    get_execution (rr_pipes (fst (fail_stalled_all e xs s))) k
      = (case find (\<lambda>x. xn_id x = k \<and> overdue e x) xs of Some x \<Rightarrow> Some (failed_package e x) | None \<Rightarrow> get_execution (rr_pipes s) k)"
proof (induction xs arbitrary: s)
  case (Cons x xs)
  let ?s1 = "fst (fail_stalled e x s)"
  have g: "get_execution (rr_pipes s) (xn_id x) = Some x" using Cons.prems(2) by simp
  have p: "get_execution (rr_pipes ?s1) n = (if overdue e x \<and> n = xn_id x then Some (failed_package e x) else get_execution (rr_pipes s) n)" for n
    using fail_stalled_pipes [OF g, of e] by (auto simp: get_execution_def update_conv')
  have o: "\<forall>y \<in> set xs. get_execution (rr_pipes ?s1) (xn_id y) = Some y"
  proof
    fix y assume "y \<in> set xs"
    then have "get_execution (rr_pipes s) (xn_id y) = Some y" "xn_id y \<noteq> xn_id x" using Cons.prems by (auto simp: image_iff)
    then show "get_execution (rr_pipes ?s1) (xn_id y) = Some y" by (simp add: p)
  qed
  have f: "fst (fail_stalled_all e (x # xs) s) = fst (fail_stalled_all e xs ?s1)" by (simp split: prod.split)
  have n: "find (\<lambda>y. xn_id y = k \<and> overdue e y) xs = None" if "k = xn_id x"
    using that Cons.prems(1) by (auto simp: find_None_iff image_iff)
  have "get_execution (rr_pipes (fst (fail_stalled_all e xs ?s1))) k
    = (case find (\<lambda>x. xn_id x = k \<and> overdue e x) xs of Some x \<Rightarrow> Some (failed_package e x) | None \<Rightarrow> get_execution (rr_pipes ?s1) k)"
    by (rule Cons.IH) (use Cons.prems(1) o in simp_all)
  then show ?case using n unfolding f by (auto simp: p split: option.split)
qed simp

section \<open>The page\<close>

lemma vals_distinct_ids: "pipes_ok r \<Longrightarrow> distinct (List.map xn_id (vals r)) \<and> (\<forall>x \<in> set (vals r). get_execution r (xn_id x) = Some x)"
proof -
  assume ok: "pipes_ok r"
  have m: "map_of r k = Some x" if "(k, x) \<in> set r" for k x using ok that by (simp add: pipes_ok_def)
  have i: "xn_id x = k" if "(k, x) \<in> set r" for k x using ok m [OF that] by (simp add: pipes_ok_def)
  have "List.map xn_id (vals r) = List.map fst r" using i by (auto simp: vals_def)
  moreover have "\<forall>x \<in> set (vals r). get_execution r (xn_id x) = Some x" using m i by (auto simp: vals_def get_execution_def)
  ultimately show ?thesis using ok by (simp add: pipes_ok_def)
qed

lemma sort_key_distinct: "distinct (List.map f xs) \<Longrightarrow> distinct (List.map f (sort_key g xs))"
  by (metis distinct_map distinct_sort set_sort)

definition stalled_page :: "pipeline_repo \<Rightarrow> execution list" where
  "stalled_page r = take 200 (filter (\<lambda>x. xn_status x = ExecRunning) (newest_first (vals r)))"

lemma stalled_page:
  assumes "pipes_ok r"
  shows "fst (listAll r (Some ExecRunning) (Some PACKAGE_SCAN_PAGE_SIZE) (Some 0)) = stalled_page r"
    "distinct (List.map xn_id (stalled_page r))" "\<forall>x \<in> set (stalled_page r). get_execution r (xn_id x) = Some x"
proof -
  show "fst (listAll r (Some ExecRunning) (Some PACKAGE_SCAN_PAGE_SIZE) (Some 0)) = stalled_page r"
    by (simp add: listAll_def stalled_page_def PACKAGE_SCAN_PAGE_SIZE_def Let_def)
  have "distinct (List.map xn_id (newest_first (vals r)))"
    using vals_distinct_ids [OF assms] sort_key_distinct [of xn_id "rev (vals r)"] by (simp add: newest_first_def rev_map [symmetric])
  then have "distinct (List.map xn_id (filter (\<lambda>x. xn_status x = ExecRunning) (newest_first (vals r))))" by (rule distinct_map_filter)
  then show "distinct (List.map xn_id (stalled_page r))" by (simp add: stalled_page_def take_map [symmetric])
  show "\<forall>x \<in> set (stalled_page r). get_execution r (xn_id x) = Some x"
    using vals_distinct_ids [OF assms] by (auto simp: stalled_page_def dest!: in_set_takeD)
qed

section \<open>Property\<close>

text \<open>C22. The sweep over stalled package steps fails exactly the executions whose running package step is
  older than the bound, among the newest two hundred that are running: each becomes failed with the
  diagnostic on that step, and every other execution is left as it was.\<close>

theorem stalled_package_sweep_exact:
  assumes "pipes_ok (rr_pipes s)" "get_execution (rr_pipes s) k = Some x"
  shows "get_execution (rr_pipes (fst (reconcileStalledPackages e s))) k
    = Some (if x \<in> set (stalled_page (rr_pipes s)) \<and> overdue e x then failed_package e x else x)"
proof -
  note p = stalled_page [OF assms(1)]
  have i: "xn_id x = k" using assms by (auto simp: pipes_ok_def get_execution_def)
  have u: "y = x" if "y \<in> set (stalled_page (rr_pipes s))" "xn_id y = k" for y using p(3) that assms(2) by fastforce
  have "find (\<lambda>y. xn_id y = k \<and> overdue e y) (stalled_page (rr_pipes s)) = (if x \<in> set (stalled_page (rr_pipes s)) \<and> overdue e x then Some x else None)"
  proof (cases "find (\<lambda>y. xn_id y = k \<and> overdue e y) (stalled_page (rr_pipes s))")
    case None
    then show ?thesis using i by (auto simp: find_None_iff)
  next
    case (Some y)
    then have "y \<in> set (stalled_page (rr_pipes s))" "xn_id y = k" "overdue e y" by (auto simp: find_Some_iff)
    then show ?thesis using u Some by auto
  qed
  then show ?thesis using fail_stalled_all_pipes [OF p(2,3), of e k] assms(2)
    by (simp add: reconcileStalledPackages_def p(1))
qed

definition demo_stalled_env :: stalled_env where
  "demo_stalled_env = \<lparr> sv_package = \<lparr> pk_nowText = ''t9'', pk_currentStack = None, pk_jobsThrow = False, pk_pipelineThrows = False,
       pk_hasJobs = True, pk_hasPipeline = True \<rparr>, sv_parse = (\<lambda>t. Some 0), sv_now = 900001, sv_stallTimeoutMs = None,
     sv_packagerPresent = Some False, sv_updateThrows = (\<lambda>i. False) \<rparr>"

definition demo_packaging :: execution where
  "demo_packaging = demo_execution\<lparr> xn_steps := [(new_step StepPackage)\<lparr> sp_status := StepRunning, sp_startedAt := Some ''t0'' \<rparr>] \<rparr>"

theorem stalled_package_sweep_exact_witness:
  "get_execution (rr_pipes (fst (reconcileStalledPackages demo_stalled_env \<lparr> rr_jobs = empty_job_repo, rr_pipes = [(''x-1'', demo_packaging)] \<rparr>))) ''x-1''
     = Some (failed_package demo_stalled_env demo_packaging) \<and> xn_status (failed_package demo_stalled_env demo_packaging) = ExecFailed"
proof -
  have d: "xn_id demo_packaging = ''x-1''" "xn_status demo_packaging = ExecRunning"
    "xn_steps demo_packaging = [(new_step StepPackage)\<lparr> sp_status := StepRunning, sp_startedAt := Some ''t0'' \<rparr>]"
    by (simp_all add: demo_packaging_def demo_execution_def create_execution_def Let_def)
  have ok: "pipes_ok [(''x-1'', demo_packaging)]" by (simp add: pipes_ok_def d)
  have o: "overdue demo_stalled_env demo_packaging"
    by (simp add: overdue_def d runs_step_def new_step_def step_overdue_def truthy_def demo_stalled_env_def package_bound_def DEFAULT_PACKAGE_STALL_TIMEOUT_MS_def)
  have g: "demo_packaging \<in> set (stalled_page [(''x-1'', demo_packaging)])" by (simp add: stalled_page_def newest_first_def d vals_def)
  have f: "xn_status (failed_package demo_stalled_env demo_packaging) = ExecFailed"
    by (simp add: failed_package_def d runs_step_def new_step_def Let_def)
  show ?thesis
    using stalled_package_sweep_exact [of "\<lparr> rr_jobs = empty_job_repo, rr_pipes = [(''x-1'', demo_packaging)] \<rparr>" "''x-1''" demo_packaging demo_stalled_env] ok o g f
    by (simp add: get_execution_def)
qed

end
