(* ===== verification/Osc_Api.thy ===== *)
theory Osc_Api
  imports Valkey
begin

text \<open>
  What the pool asks of the platform that runs its instances, and how it reads the answers
  (\<^verbatim>\<open>src/src/encore-scaler/osc-error.ts\<close> and the naming, probing and removal helpers of
  \<^verbatim>\<open>instance-pool.ts\<close>). The platform is a parameter: a record of its calls over a state of
  its own, which every call may change; the clock and the waits are part of it. The calls
  that create or remove something are also written to a log, in order.
\<close>

section \<open>Errors\<close>

record osc_error =
  oe_httpCode :: "int option"
  oe_message :: string

definition TRANSIENT_MESSAGE_MARKERS :: "string list" where
  "TRANSIENT_MESSAGE_MARKERS =
     [''ORCHESTRATOR_UNAVAILABLE'', ''ORCHESTRATOR_AUTH_TRANSIENT'', ''ECONNRESET'', ''ECONNREFUSED'',
      ''ETIMEDOUT'', ''EAI_AGAIN'', ''socket hang up'', ''context deadline exceeded'']"

definition RETRYABLE_CLIENT_STATUSES :: "int list" where
  "RETRYABLE_CLIENT_STATUSES = [408, 429]"

definition isTransientOscError :: "osc_error \<Rightarrow> bool" where
  "isTransientOscError err = (case oe_httpCode err of
       Some c \<Rightarrow> (500 \<le> c \<and> c \<le> 599) \<or> c \<in> set RETRYABLE_CLIENT_STATUSES
     | None \<Rightarrow> list_ex (str_includes (oe_message err)) TRANSIENT_MESSAGE_MARKERS)"

definition isInstanceAlreadyGoneError :: "osc_error \<Rightarrow> bool" where
  "isInstanceAlreadyGoneError err = (case oe_httpCode err of
       Some c \<Rightarrow> c = 404 \<or> c = 410
     | None \<Rightarrow> let message = to_lower (oe_message err) in
         str_includes message ''not found'' \<or> str_includes message ''no such instance''
         \<or> str_includes message ''does not exist'' \<or> str_includes message ''404'')"

definition isNameAlreadyTakenError :: "osc_error \<Rightarrow> bool" where
  "isNameAlreadyTakenError err = (let lower = to_lower (oe_message err) in
     str_includes lower ''already taken'' \<or> str_includes lower ''already exists'')"

definition GATEWAY_TIMEOUT_STATUSES :: "int list" where
  "GATEWAY_TIMEOUT_STATUSES = [408, 504]"

definition isGatewayTimeoutStatus :: "int option \<Rightarrow> bool" where
  "isGatewayTimeoutStatus httpCode = (case httpCode of None \<Rightarrow> False | Some c \<Rightarrow> c \<in> set GATEWAY_TIMEOUT_STATUSES)"

section \<open>The platform\<close>

datatype service = Encore | Listener

record osc_instance =
  on_name :: "string option"
  on_url :: "string option"

datatype ready_answer = BothReady | ReadyTimeout osc_error | ReadyFailed osc_error

record 'o osc =
  os_now :: "'o \<Rightarrow> int"
  os_sleep :: "int \<Rightarrow> 'o \<Rightarrow> 'o"
  os_token :: "service \<Rightarrow> 'o \<Rightarrow> 'o \<times> osc_error option"
  os_create :: "service \<Rightarrow> string \<Rightarrow> string \<Rightarrow> 'o \<Rightarrow> 'o \<times> (osc_error + osc_instance)"
  os_get :: "service \<Rightarrow> string \<Rightarrow> 'o \<Rightarrow> 'o \<times> osc_instance option"
  os_health :: "service \<Rightarrow> string \<Rightarrow> 'o \<Rightarrow> 'o \<times> (osc_error + string)"
  os_list :: "service \<Rightarrow> 'o \<Rightarrow> 'o \<times> osc_instance list option"
  os_remove :: "service \<Rightarrow> string \<Rightarrow> 'o \<Rightarrow> 'o \<times> osc_error option"
  os_ready :: "string \<Rightarrow> 'o \<Rightarrow> 'o \<times> ready_answer"

datatype osc_call = Create service string bool | Remove service string

definition instanceUrl :: "osc_instance \<Rightarrow> string option" where
  "instanceUrl i = (if truthy (on_url i) then on_url i else None)"

definition instanceName :: "osc_instance \<Rightarrow> string option" where
  "instanceName i = (if truthy (on_name i) then on_name i else None)"

definition unusable :: "string \<Rightarrow> osc_error" where
  "unusable what = \<lparr> oe_httpCode = None, oe_message = ''encore instance did not return a usable '' @ what \<rparr>"

section \<open>Names and ownership\<close>

text \<open>\<^verbatim>\<open>tag\<close> is the first eight hexadecimal digits of the SHA-256 digest of a workspace id.\<close>

definition alnum :: "char \<Rightarrow> bool" where
  "alnum c = (is_lower c \<or> is_digit c)"

definition sanitiseWorkspaceId :: "string \<Rightarrow> string" where
  "sanitiseWorkspaceId workspaceId = to_lower (filter (\<lambda>c. is_lower c \<or> is_upper c \<or> is_digit c) workspaceId)"

definition WORKSPACE_LABEL_MAX :: nat where "WORKSPACE_LABEL_MAX = 12"

definition scalerInstancePrefix :: "(string \<Rightarrow> string) \<Rightarrow> string \<Rightarrow> string" where
  "scalerInstancePrefix tag workspaceId =
     ''scaler'' @ take WORKSPACE_LABEL_MAX (sanitiseWorkspaceId workspaceId) @ tag workspaceId"

definition legacyScalerInstancePrefix :: "string \<Rightarrow> string" where
  "legacyScalerInstancePrefix workspaceId = ''scaler'' @ sanitiseWorkspaceId workspaceId"

datatype ownership = Owned | LegacyAmbiguous | Foreign

definition classifyInstanceOwnership :: "(string \<Rightarrow> string) \<Rightarrow> string \<Rightarrow> string \<Rightarrow> ownership" where
  "classifyInstanceOwnership tag workspaceId name =
     (let owned = scalerInstancePrefix tag workspaceId; ownedRest = drop (length owned) name;
          legacy = legacyScalerInstancePrefix workspaceId; legacyRest = drop (length legacy) name
      in if prefix owned name \<and> list_all alnum ownedRest \<and> 1 \<le> length ownedRest \<and> length ownedRest \<le> 12
         then Owned
         else if prefix legacy name \<and> list_all alnum legacyRest \<and> length legacyRest = 8
         then LegacyAmbiguous
         else Foreign)"

text \<open>\<^verbatim>\<open>n.toString(36)\<close>.\<close>

definition base36_char :: "nat \<Rightarrow> char" where
  "base36_char d = (if d < 10 then char_of (48 + d) else char_of (87 + d))"

fun base36 :: "nat \<Rightarrow> string" where
  "base36 n = (if n < 36 then [base36_char n] else base36 (n div 36) @ [base36_char (n mod 36)])"

declare base36.simps [simp del]

definition spawn_name :: "(string \<Rightarrow> string) \<Rightarrow> string \<Rightarrow> int \<Rightarrow> string" where
  "spawn_name tag workspaceId now = scalerInstancePrefix tag workspaceId @ base36 (nat now)"

section \<open>Existence\<close>

datatype existence = Exists | Absent | Unknown

definition takeoverCandidate :: "string \<Rightarrow> osc_instance option \<Rightarrow> osc_instance option" where
  "takeoverCandidate name probed = (case probed of
       None \<Rightarrow> None
     | Some i \<Rightarrow> if on_name i \<noteq> Some name then None
         else if \<not> truthy (on_url i) then None else Some i)"

definition encoreInstanceExistence :: "'o osc \<Rightarrow> string \<Rightarrow> 'o \<Rightarrow> 'o \<times> existence" where
  "encoreInstanceExistence osc name o0 =
     (let (o1, h) = os_health osc Encore name o0 in
      case h of
        Inr health \<Rightarrow> (o1, Exists)
      | Inl err \<Rightarrow>
          if \<not> isInstanceAlreadyGoneError err then (o1, Unknown)
          else (let (o2, listed) = os_list osc Encore o1 in
                case listed of
                  None \<Rightarrow> (o2, Unknown)
                | Some l \<Rightarrow> if list_ex (\<lambda>i. on_name i = Some name) l then (o2, Unknown) else (o2, Absent)))"

section \<open>Removal\<close>

text \<open>\<^verbatim>\<open>destroyInstance\<close>: the instance, then its listener, then the pool record. The removal of
  the instance is the only step whose failure is reported.\<close>

definition osc_destroyInstance ::
  "'o osc \<Rightarrow> string \<Rightarrow> 'o \<times> scaler \<Rightarrow> ('o \<times> scaler) \<times> osc_call list \<times> osc_error option" where
  "osc_destroyInstance osc i st =
     (let (o0, s) = st; (o1, t) = os_token osc Encore o0 in
      case t of
        Some err \<Rightarrow> ((o1, s), [], Some err)
      | None \<Rightarrow>
          (let (o2, r) = os_remove osc Encore i o1 in
           if (case r of None \<Rightarrow> False | Some err \<Rightarrow> \<not> isInstanceAlreadyGoneError err)
           then ((o2, s), [Remove Encore i], r)
           else
             let (o3, t') = os_token osc Listener o2;
                 (o4, calls) = (case t' of Some err \<Rightarrow> (o3, [])
                   | None \<Rightarrow> (fst (os_remove osc Listener i o3), [Remove Listener i]))
             in ((o4, s\<lparr> v_pool := AList.delete i (v_pool s), l_destroyed := l_destroyed s @ [i] \<rparr>),
                 Remove Encore i # calls, None)))"

section \<open>Lemmas\<close>

lemma base36_nonempty: "base36 n \<noteq> []"
  by (subst base36.simps) simp

lemma base36_alnum: "list_all alnum (base36 n)"
proof (induction n rule: base36.induct)
  case (1 n)
  have d: "alnum (base36_char d)" if "d < 36" for d
    using that by (auto simp: alnum_def base36_char_def is_digit_def is_lower_def char_le_def)
  show ?case using 1 by (subst base36.simps) (auto simp: d)
qed

lemma base36_length: "n < 36 ^ k \<Longrightarrow> 0 < k \<Longrightarrow> length (base36 n) \<le> k"
proof (induction n arbitrary: k rule: base36.induct)
  case (1 n)
  show ?case
  proof (cases "n < 36")
    case True
    then show ?thesis using 1(3) by (subst base36.simps) simp
  next
    case False
    have k: "1 < k" using False 1(2) by (cases "k = 1") (use 1(3) in \<open>auto simp: not_le\<close>)
    then obtain m where m: "k = Suc m" "0 < m" by (cases k) auto
    then have "n div 36 < 36 ^ m" using 1(2) by (simp add: less_mult_imp_div_less)
    then show ?thesis using 1(1) [OF False _ m(2)] m False by (subst base36.simps) simp
  qed
qed

text \<open>A name this workspace gives out is recognised as its own.\<close>

lemma spawn_name_owned:
  assumes "0 \<le> now" "now < 36 ^ 12"
  shows "classifyInstanceOwnership tag w (spawn_name tag w now) = Owned"
proof -
  have l: "length (base36 (nat now)) \<le> 12" by (rule base36_length) (use assms in \<open>simp_all add: nat_less_iff\<close>)
  have n: "1 \<le> length (base36 (nat now))" using base36_nonempty [of "nat now"] by (cases "base36 (nat now)") simp_all
  show ?thesis using l n base36_alnum [of "nat now"]
    by (simp add: classifyInstanceOwnership_def spawn_name_def Let_def)
qed

text \<open>Two workspaces never own the same name, as long as their tags differ and are eight long.\<close>

lemma owner_unique_same_label:
  assumes "classifyInstanceOwnership tag w n = Owned" "classifyInstanceOwnership tag v n = Owned"
    "length (take WORKSPACE_LABEL_MAX (sanitiseWorkspaceId w)) = length (take WORKSPACE_LABEL_MAX (sanitiseWorkspaceId v))"
    "length (tag w) = length (tag v)"
  shows "tag w = tag v"
proof -
  have "prefix (scalerInstancePrefix tag w) n" "prefix (scalerInstancePrefix tag v) n"
    using assms(1,2) by (auto simp: classifyInstanceOwnership_def Let_def split: if_splits)
  moreover have "length (scalerInstancePrefix tag w) = length (scalerInstancePrefix tag v)"
    using assms(3,4) by (simp add: scalerInstancePrefix_def)
  ultimately have "scalerInstancePrefix tag w = scalerInstancePrefix tag v"
    by (auto simp: prefix_def)
  then show ?thesis using assms(3) by (auto simp: scalerInstancePrefix_def)
qed

end
