(* ===== verification/Spawn.thy ===== *)
theory Spawn
  imports Encore_Edge Osc_Api
begin

text \<open>
  One scale-up (\<^verbatim>\<open>spawnInstance\<close> and \<^verbatim>\<open>spawnPooledInstance\<close> of
  \<^verbatim>\<open>src/src/encore-scaler/instance-pool.ts\<close>): the create of an encoder with its retries and
  adoptions, the paired callback listener, the readiness wait, the pool record, and the
  clean-up of every failure; and the record of a failed spawn (\<^verbatim>\<open>spawn-failure.ts\<close>).

  The two readiness waits run side by side in the code; their joint outcome is one answer of
  the platform. The options of a create beside its name (credentials, profiles, part size)
  are left out, and the scrubbing of an error text before it is recorded is the parameter
  \<^verbatim>\<open>sc_redact\<close>. A spawn makes at least one attempt: \<^verbatim>\<open>further\<close> is \<^verbatim>\<open>maxAttempts - 1\<close>.
\<close>

section \<open>Watching a name whose create timed out\<close>

record spawn_config =
  sc_workspaceId :: string
  sc_tag :: "string \<Rightarrow> string"
  sc_probeTimeoutMs :: int
  sc_probeIntervalMs :: int
  sc_redact :: "osc_error \<Rightarrow> string"

definition DEFAULT_SPAWN_ADOPT_PROBE_TIMEOUT_MS :: int where "DEFAULT_SPAWN_ADOPT_PROBE_TIMEOUT_MS = 90000"
definition DEFAULT_SPAWN_ADOPT_PROBE_INTERVAL_MS :: int where "DEFAULT_SPAWN_ADOPT_PROBE_INTERVAL_MS = 5000"
definition SPAWN_ADOPT_PROBE_MIN_CREATE_DURATION_MS :: int where
  "SPAWN_ADOPT_PROBE_MIN_CREATE_DURATION_MS = 20000"

datatype takeover = Adopt osc_instance | NothingThere | GoneQuiet bool

text \<open>One look; the flag remembers whether any look saw something of the right shape.\<close>

definition lookOnce :: "'o osc \<Rightarrow> string \<Rightarrow> bool \<Rightarrow> 'o \<Rightarrow> 'o \<times> bool \<times> takeover option" where
  "lookOnce osc name saw o0 =
     (let (o1, got) = os_get osc Encore name o0 in
      case takeoverCandidate name got of
        None \<Rightarrow> (o1, saw, None)
      | Some candidate \<Rightarrow>
          (let (o2, existence) = encoreInstanceExistence osc name o1 in
           (o2, True, case existence of
              Exists \<Rightarrow> Some (Adopt candidate) | Absent \<Rightarrow> Some NothingThere | Unknown \<Rightarrow> None)))"

fun probe_loop ::
  "'o osc \<Rightarrow> spawn_config \<Rightarrow> string \<Rightarrow> int \<Rightarrow> nat \<Rightarrow> bool \<Rightarrow> 'o \<Rightarrow> ('o \<times> takeover) option" where
  "probe_loop osc cfg name deadline 0 saw o0 = None"
| "probe_loop osc cfg name deadline (Suc fuel) saw o0 =
     (let (o1, saw1, outcome) = lookOnce osc name saw o0 in
      case outcome of
        Some t \<Rightarrow> Some (o1, t)
      | None \<Rightarrow>
          let remaining = deadline - os_now osc o1 in
          if remaining \<le> 0 then Some (o1, GoneQuiet saw1)
          else let o2 = os_sleep osc (min (sc_probeIntervalMs cfg) remaining) o1 in
            if deadline \<le> os_now osc o2
            then (let (o3, saw2, last_look) = lookOnce osc name saw1 o2
                  in Some (o3, coalesce last_look (GoneQuiet saw2)))
            else probe_loop osc cfg name deadline fuel saw1 o2)"

text \<open>The watch with fuel for one look per millisecond of its budget.\<close>

definition probeForGatewayTimedOutInstance ::
  "'o osc \<Rightarrow> spawn_config \<Rightarrow> string \<Rightarrow> 'o \<Rightarrow> ('o \<times> takeover) option" where
  "probeForGatewayTimedOutInstance osc cfg name o0 =
     (if sc_probeTimeoutMs cfg \<le> 0 then Some (o0, GoneQuiet False)
      else probe_loop osc cfg name (os_now osc o0 + sc_probeTimeoutMs cfg)
             (Suc (nat (sc_probeTimeoutMs cfg))) False o0)"

section \<open>The create of the encoder\<close>

datatype made = Made osc_instance bool | NotMade osc_error

fun create_encore ::
  "'o osc \<Rightarrow> spawn_config \<Rightarrow> string \<Rightarrow> nat \<Rightarrow> nat \<Rightarrow> 'o \<Rightarrow> osc_call list \<Rightarrow> 'o \<times> osc_call list \<times> made" where
  "create_encore osc cfg name attempt further o0 calls0 =
     (let startedAt = os_now osc o0; (o1, r) = os_create osc Encore name [] o0 in
      case r of
        Inr inst \<Rightarrow> (o1, calls0 @ [Create Encore name True], Made inst False)
      | Inl err \<Rightarrow>
          let calls = calls0 @ [Create Encore name False];
              again = (\<lambda>o'. case further of
                 0 \<Rightarrow> (o', calls, NotMade err)
               | Suc f \<Rightarrow> create_encore osc cfg name (Suc attempt) f (os_sleep osc (int attempt * 5000) o') calls)
          in if isNameAlreadyTakenError err then
               (let (o2, got) = os_get osc Encore name o1 in
                case takeoverCandidate name got of
                  Some existing \<Rightarrow> (o2, calls, Made existing True)
                | None \<Rightarrow> again o2)
             else if \<not> isTransientOscError err then (o1, calls, NotMade err)
             else if further = 0 \<and> isGatewayTimeoutStatus (oe_httpCode err)
                 \<and> SPAWN_ADOPT_PROBE_MIN_CREATE_DURATION_MS \<le> os_now osc o1 - startedAt
             then (case probeForGatewayTimedOutInstance osc cfg name o1 of
                     Some (o2, Adopt i) \<Rightarrow> (o2, calls, Made i True)
                   | Some (o2, t) \<Rightarrow> (o2, calls, NotMade err)
                   | None \<Rightarrow> (o1, calls, NotMade err))
             else again o1)"

declare create_encore.simps [simp del]

section \<open>The paired callback listener\<close>

definition createOrAdoptCallbackListener ::
  "'o osc \<Rightarrow> string \<Rightarrow> string \<Rightarrow> 'o \<Rightarrow> osc_call list \<Rightarrow> 'o \<times> osc_call list \<times> (osc_error + osc_instance \<times> bool)" where
  "createOrAdoptCallbackListener osc i encoreUrl o0 calls =
     (let (o1, r) = os_create osc Listener i (strip_slashes encoreUrl) o0 in
      case r of
        Inr created \<Rightarrow> (o1, calls @ [Create Listener i True], Inr (created, False))
      | Inl err \<Rightarrow>
          if isNameAlreadyTakenError err then
            (let (o2, got) = os_get osc Listener i o1 in
             case got of
               Some existing \<Rightarrow> (o2, calls @ [Create Listener i False], Inr (existing, True))
             | None \<Rightarrow> (o2, calls @ [Create Listener i False], Inl err))
          else (o1, calls @ [Create Listener i False], Inl err))"

fun create_listener ::
  "'o osc \<Rightarrow> string \<Rightarrow> string \<Rightarrow> nat \<Rightarrow> nat \<Rightarrow> 'o \<Rightarrow> osc_call list
   \<Rightarrow> 'o \<times> osc_call list \<times> (osc_error + osc_instance \<times> bool)" where
  "create_listener osc i encoreUrl attempt further o0 calls0 =
     (let (o1, calls, r) = createOrAdoptCallbackListener osc i encoreUrl o0 calls0 in
      case r of
        Inr x \<Rightarrow> (o1, calls, Inr x)
      | Inl err \<Rightarrow> if \<not> isTransientOscError err then (o1, calls, Inl err)
          else case further of
                 0 \<Rightarrow> (o1, calls, Inl err)
               | Suc f \<Rightarrow> create_listener osc i encoreUrl (Suc attempt) f (os_sleep osc (int attempt * 5000) o1) calls)"

declare create_listener.simps [simp del]

section \<open>Pool records\<close>

definition fresh_instance :: "string \<Rightarrow> string \<Rightarrow> string option \<Rightarrow> int \<Rightarrow> instance_record" where
  "fresh_instance i url listenerUrl now = \<lparr> i_instanceId = i, i_url = url, i_callbackListenerUrl = listenerUrl,
     i_callbackTrustReady = None, i_callbackTrustConfirmedAt = None, i_callbackTrustFirstProbeAt = None,
     i_callbackTrustQuarantinedAt = None, i_callbackPathUnusableAt = None, i_callbackPathUnusableStatus = None,
     i_activeJobs = 0, i_lastIdleAt = Some (StampNum (js_of_int now)), i_readyAt = None, i_draining = None,
     i_cancelDrainingSince = None, i_pendingReadySince = None, i_listenerCreateAttempts = None,
     i_listenerCreateNextAttemptAt = None, i_listenerCreateBlockedAt = None \<rparr>"

definition recordPendingSpawn :: "string \<Rightarrow> string \<Rightarrow> string option \<Rightarrow> int \<Rightarrow> scaler \<Rightarrow> scaler" where
  "recordPendingSpawn i url listenerUrl now s =
     updateInstance ((fresh_instance i url listenerUrl now)\<lparr> i_pendingReadySince := Some now \<rparr>) s"

section \<open>The spawn\<close>

datatype spawn_result = SpawnOk instance_record | SpawnThrew osc_error bool

text \<open>What a failure after the create leaves: \<^verbatim>\<open>li\<close> is the listener, with whether it was
  adopted, once there is one.\<close>

definition spawn_cleanup ::
  "'o osc \<Rightarrow> string \<Rightarrow> string \<Rightarrow> bool \<Rightarrow> bool \<Rightarrow> (osc_instance \<times> bool) option \<Rightarrow> 'o \<times> scaler \<Rightarrow> osc_call list
   \<Rightarrow> ('o \<times> scaler) \<times> osc_call list" where
  "spawn_cleanup osc i url instanceAdopted stillComingUp li st calls =
     (let (o0, s) = st in
      if instanceAdopted \<or> stillComingUp
      then ((o0, recordPendingSpawn i url (Option.bind li (instanceUrl \<circ> fst)) (os_now osc o0) s), calls)
      else
        let (o1, r) = os_remove osc Encore i o0; calls1 = calls @ [Remove Encore i] in
        if li \<noteq> None \<and> \<not> snd (the li)
        then (let (o2, t) = os_token osc Listener o1 in
              case t of Some err \<Rightarrow> ((o2, s), calls1)
              | None \<Rightarrow> ((fst (os_remove osc Listener i o2), s), calls1 @ [Remove Listener i]))
        else ((o1, s), calls1))"

text \<open>Everything after the encoder exists.\<close>

definition spawn_with_instance ::
  "'o osc \<Rightarrow> nat \<Rightarrow> string \<Rightarrow> string \<Rightarrow> bool \<Rightarrow> 'o \<times> scaler \<Rightarrow> osc_call list
   \<Rightarrow> ('o \<times> scaler) \<times> osc_call list \<times> spawn_result" where
  "spawn_with_instance osc further i url adopted st calls =
     (let (o0, s) = st;
          fails = (\<lambda>err settled stillComingUp li o' calls'.
            let (st', calls'') = spawn_cleanup osc i url adopted stillComingUp li (o', s) calls'
            in (st', calls'', SpawnThrew err settled));
          (o1, t) = os_token osc Listener o0
      in case t of
           Some err \<Rightarrow> fails err False False None o1 calls
         | None \<Rightarrow>
             (let (o2, calls2, r) = create_listener osc i url 1 further o1 calls in
              case r of
                Inl err \<Rightarrow> fails err False False None o2 calls2
              | Inr li \<Rightarrow>
                  (case instanceUrl (fst li) of
                     None \<Rightarrow> fails (unusable ''url'') False False (Some li) o2 calls2
                   | Some listenerUrl \<Rightarrow>
                       (let (o3, ready) = os_ready osc i o2 in
                        case ready of
                          ReadyTimeout err \<Rightarrow> fails err True True (Some li) o3 calls2
                        | ReadyFailed err \<Rightarrow> fails err True False (Some li) o3 calls2
                        | BothReady \<Rightarrow>
                            let readyAt = os_now osc o3;
                                record' = (fresh_instance i url (Some listenerUrl) readyAt)\<lparr>
                                  i_readyAt := Some (StampNum (js_of_int readyAt)) \<rparr>
                            in ((o3, updateInstance record' s), calls2, SpawnOk record')))))"

definition spawnPooledInstance ::
  "'o osc \<Rightarrow> spawn_config \<Rightarrow> nat \<Rightarrow> 'o \<times> scaler \<Rightarrow> ('o \<times> scaler) \<times> osc_call list \<times> spawn_result" where
  "spawnPooledInstance osc cfg further st =
     (let (o0, s) = st; (o1, t) = os_token osc Encore o0 in
      case t of
        Some err \<Rightarrow> ((o1, s), [], SpawnThrew err False)
      | None \<Rightarrow>
          let name = spawn_name (sc_tag cfg) (sc_workspaceId cfg) (os_now osc o1);
              (o2, calls, m) = create_encore osc cfg name 1 further o1 []
          in case m of
               NotMade err \<Rightarrow> ((o2, s), calls, SpawnThrew err False)
             | Made inst adopted \<Rightarrow>
                 (case instanceName inst of
                    None \<Rightarrow> ((o2, s), calls, SpawnThrew (unusable ''name'') False)
                  | Some i \<Rightarrow>
                      (case instanceUrl inst of
                         None \<Rightarrow> ((o2, s), calls, SpawnThrew (unusable ''url'') False)
                       | Some url \<Rightarrow> spawn_with_instance osc further i url adopted (o2, s) calls)))"

section \<open>The record of a failed spawn\<close>

definition readSpawnFailure :: "scaler \<Rightarrow> spawn_failure_record option" where
  "readSpawnFailure s = v_spawnFailure s"

definition recordSpawnFailure :: "nat \<Rightarrow> osc_error \<Rightarrow> string \<Rightarrow> int \<Rightarrow> scaler \<Rightarrow> scaler" where
  "recordSpawnFailure attempts err message now s = s\<lparr> v_spawnFailure := Some
     \<lparr> sf_at = now, sf_attempts = int attempts,
       sf_consecutiveFailures = coalesce (map_option sf_consecutiveFailures (readSpawnFailure s)) 0 + 1,
       sf_message = message, sf_httpCode = oe_httpCode err \<rparr> \<rparr>"

definition clearSpawnFailure :: "scaler \<Rightarrow> scaler" where
  "clearSpawnFailure s = s\<lparr> v_spawnFailure := None \<rparr>"

definition is_create :: "osc_call \<Rightarrow> bool" where
  "is_create c = (case c of Create v n ok \<Rightarrow> True | Remove v n \<Rightarrow> False)"

definition spawnInstance ::
  "'o osc \<Rightarrow> spawn_config \<Rightarrow> nat \<Rightarrow> 'o \<times> scaler \<Rightarrow> ('o \<times> scaler) \<times> osc_call list \<times> spawn_result" where
  "spawnInstance osc cfg further st =
     (let ((o', s'), calls, r) = spawnPooledInstance osc cfg further st in
      case r of
        SpawnOk record' \<Rightarrow> ((o', clearSpawnFailure s'), calls, r)
      | SpawnThrew err settled \<Rightarrow>
          ((o', recordSpawnFailure (length (filter is_create calls)) err (sc_redact cfg err) (os_now osc o') s'),
           calls, r))"

section \<open>The watch\<close>

definition right_shape :: "string \<Rightarrow> osc_instance \<Rightarrow> bool" where
  "right_shape name i = (on_name i = Some name \<and> truthy (on_url i))"

lemma takeover_right_shape: "takeoverCandidate name got = Some i \<Longrightarrow> right_shape name i"
  by (auto simp: takeoverCandidate_def right_shape_def split: option.splits if_splits)

lemma look_right_shape: "lookOnce osc name saw o0 = (o1, saw1, Some (Adopt i)) \<Longrightarrow> right_shape name i"
  by (auto simp: lookOnce_def Let_def takeover_right_shape split: option.splits existence.splits prod.splits)

lemma probe_right_shape:
  "probe_loop osc cfg name d fuel saw o0 = Some (o1, Adopt i) \<Longrightarrow> right_shape name i"
proof (induction fuel arbitrary: saw o0)
  case (Suc fuel)
  obtain o1' saw1 out where l: "lookOnce osc name saw o0 = (o1', saw1, out)" by (cases "lookOnce osc name saw o0")
  show ?case
  proof (cases out)
    case (Some t)
    then show ?thesis using Suc.prems l by (auto dest: look_right_shape)
  next
    case None
    let ?o2 = "os_sleep osc (min (sc_probeIntervalMs cfg) (d - os_now osc o1')) o1'"
    obtain o3 saw2 out2 where l2: "lookOnce osc name saw1 ?o2 = (o3, saw2, out2)"
      by (cases "lookOnce osc name saw1 ?o2")
    show ?thesis using Suc.prems Suc.IH [of saw1 ?o2] l l2 None
      by (auto simp: Let_def coalesce_def split: if_splits option.splits dest: look_right_shape)
  qed
qed simp

text \<open>The clock of the platform: a sleep lasts at least as long as asked, and no call turns
  the clock back.\<close>

definition clock_runs :: "'o osc \<Rightarrow> bool" where
  "clock_runs osc = (\<forall>o0 name.
     (\<forall>d. os_now osc o0 + d \<le> os_now osc (os_sleep osc d o0))
     \<and> os_now osc o0 \<le> os_now osc (fst (os_get osc Encore name o0))
     \<and> os_now osc o0 \<le> os_now osc (fst (os_health osc Encore name o0))
     \<and> os_now osc o0 \<le> os_now osc (fst (os_list osc Encore o0)))"

lemma look_clock:
  assumes "clock_runs osc" "lookOnce osc name saw o0 = (o1, r)"
  shows "os_now osc o0 \<le> os_now osc o1"
proof -
  have c: "os_now osc x \<le> os_now osc (fst (os_get osc Encore name x))"
    "os_now osc x \<le> os_now osc (fst (os_health osc Encore name x))"
    "os_now osc x \<le> os_now osc (fst (os_list osc Encore x))" for x
    using assms(1) by (auto simp: clock_runs_def)
  obtain a got where g: "os_get osc Encore name o0 = (a, got)" by (cases "os_get osc Encore name o0")
  obtain b h where h: "os_health osc Encore name a = (b, h)" by (cases "os_health osc Encore name a")
  obtain e l where l: "os_list osc Encore b = (e, l)" by (cases "os_list osc Encore b")
  have le: "os_now osc o0 \<le> os_now osc a" "os_now osc a \<le> os_now osc b" "os_now osc b \<le> os_now osc e"
    using c(1) [of o0] c(2) [of a] c(3) [of b] g h l by simp_all
  have "o1 = a \<or> o1 = b \<or> o1 = e" using assms(2) g h l
    by (auto simp: lookOnce_def encoreInstanceExistence_def Let_def split: option.splits sum.splits if_splits prod.splits)
  then show ?thesis using le by auto
qed

lemma probe_loop_returns:
  assumes "clock_runs osc" "0 < sc_probeIntervalMs cfg"
  shows "d \<le> os_now osc o0 + int fuel \<Longrightarrow> \<exists>r. probe_loop osc cfg name d (Suc fuel) saw o0 = Some r"
proof (induction fuel arbitrary: saw o0)
  case 0
  obtain o1 saw1 out where l: "lookOnce osc name saw o0 = (o1, saw1, out)" by (cases "lookOnce osc name saw o0")
  have "d - os_now osc o1 \<le> 0" using look_clock [OF assms(1) l] 0 by simp
  then show ?case using l by (cases out) simp_all
next
  case (Suc fuel)
  obtain o1 saw1 out where l: "lookOnce osc name saw o0 = (o1, saw1, out)" by (cases "lookOnce osc name saw o0")
  have ge: "os_now osc o0 \<le> os_now osc o1" by (rule look_clock [OF assms(1) l])
  define m where "m = min (sc_probeIntervalMs cfg) (d - os_now osc o1)"
  have sl: "os_now osc o1 + m \<le> os_now osc (os_sleep osc m o1)"
    using assms(1) unfolding clock_runs_def by blast
  show ?case
  proof (cases "out = None \<and> 0 < d - os_now osc o1 \<and> os_now osc (os_sleep osc m o1) < d")
    case True
    then have "1 \<le> m" using assms(2) by (simp add: m_def)
    then have "d \<le> os_now osc (os_sleep osc m o1) + int fuel" using Suc.prems ge sl by simp
    from Suc.IH [OF this, of saw1] show ?thesis using l True by (subst probe_loop.simps) (simp add: Let_def m_def)
  next
    case False
    then show ?thesis using l by (subst probe_loop.simps) (auto simp: Let_def m_def not_less split: prod.splits option.splits)
  qed
qed

lemma watch_right_shape:
  "probeForGatewayTimedOutInstance osc cfg name o0 = Some (o1, Adopt i) \<Longrightarrow> right_shape name i"
  by (auto simp: probeForGatewayTimedOutInstance_def simp del: probe_loop.simps split: if_splits dest: probe_right_shape)

section \<open>What a spawn creates\<close>

definition answered :: "'o osc \<Rightarrow> string \<Rightarrow> osc_instance \<Rightarrow> bool" where
  "answered osc name i = (\<exists>x y. os_create osc Encore name [] x = (y, Inr i))"

lemma answeredI: "os_create osc Encore name [] x = (y, Inr i) \<Longrightarrow> answered osc name i"
  unfolding answered_def by blast

lemma create_encore_spec:
  "create_encore osc cfg name a f o0 calls0 = (o1, calls, m) \<Longrightarrow>
   \<exists>new. calls = calls0 @ new \<and> new \<noteq> [] \<and> length new \<le> Suc f
     \<and> (case m of
          Made i False \<Rightarrow> last new = Create Encore name True \<and> set (butlast new) \<subseteq> {Create Encore name False}
            \<and> answered osc name i
        | Made i True \<Rightarrow> set new = {Create Encore name False} \<and> right_shape name i
        | NotMade e \<Rightarrow> set new = {Create Encore name False})"
proof (induction f arbitrary: a o0 calls0)
  case 0
  obtain x r where c: "os_create osc Encore name [] o0 = (x, r)" by (cases "os_create osc Encore name [] o0")
  obtain y got where g: "os_get osc Encore name x = (y, got)" by (cases "os_get osc Encore name x")
  show ?case
    using 0 c g
    by (subst (asm) create_encore.simps)
      (auto simp: Let_def takeover_right_shape watch_right_shape
        split: sum.splits option.splits if_splits takeover.splits prod.splits
        intro!: exI [of _ "[_]"] intro: answeredI)
next
  case (Suc f)
  obtain x r where c: "os_create osc Encore name [] o0 = (x, r)" by (cases "os_create osc Encore name [] o0")
  obtain y got where g: "os_get osc Encore name x = (y, got)" by (cases "os_get osc Encore name x")
  let ?calls = "calls0 @ [Create Encore name False]"
  have step: "\<exists>new. calls = calls0 @ new \<and> new \<noteq> [] \<and> length new \<le> Suc (Suc f)
     \<and> (case m of
          Made i False \<Rightarrow> last new = Create Encore name True \<and> set (butlast new) \<subseteq> {Create Encore name False}
            \<and> answered osc name i
        | Made i True \<Rightarrow> set new = {Create Encore name False} \<and> right_shape name i
        | NotMade e \<Rightarrow> set new = {Create Encore name False})"
    if "create_encore osc cfg name (Suc a) f z ?calls = (o1, calls, m)" for z
  proof -
    from Suc.IH [OF that] obtain new where n: "calls = ?calls @ new" "new \<noteq> []" "length new \<le> Suc f"
      "case m of
          Made i False \<Rightarrow> last new = Create Encore name True \<and> set (butlast new) \<subseteq> {Create Encore name False}
            \<and> answered osc name i
        | Made i True \<Rightarrow> set new = {Create Encore name False} \<and> right_shape name i
        | NotMade e \<Rightarrow> set new = {Create Encore name False}" by blast
    then show ?thesis
      by (intro exI [of _ "Create Encore name False # new"]) (auto split: made.splits bool.splits)
  qed
  show ?case
  proof (cases r)
    case (Inr i)
    then show ?thesis using Suc.prems c by (subst (asm) create_encore.simps) (auto intro!: exI [of _ "[_]"] intro: answeredI)
  next
    case (Inl err)
    have "(\<exists>e. takeoverCandidate name got = Some e \<and> (o1, calls, m) = (y, ?calls, Made e True))
       \<or> (\<exists>z. create_encore osc cfg name (Suc a) f z ?calls = (o1, calls, m))
       \<or> (o1, calls, m) = (x, ?calls, NotMade err)"
      using Suc.prems c g Inl
      by (subst (asm) create_encore.simps) (auto simp: Let_def split: option.splits if_splits)
    then show ?thesis
    proof (elim disjE exE conjE)
      fix e assume "takeoverCandidate name got = Some e" "(o1, calls, m) = (y, ?calls, Made e True)"
      then show ?thesis by (intro exI [of _ "[Create Encore name False]"]) (simp add: takeover_right_shape)
    next
      fix z assume "create_encore osc cfg name (Suc a) f z ?calls = (o1, calls, m)"
      then show ?thesis by (rule step)
    next
      assume "(o1, calls, m) = (x, ?calls, NotMade err)"
      then show ?thesis by (intro exI [of _ "[Create Encore name False]"]) simp
    qed
  qed
qed

lemma create_encore_calls:
  assumes "create_encore osc cfg name a f o0 [] = (o1, c, m)"
  shows "length c \<le> Suc f" "set c \<subseteq> {Create Encore name True, Create Encore name False}"
    "case m of
          Made i False \<Rightarrow> Create Encore name True \<in> set c \<and> answered osc name i
        | Made i True \<Rightarrow> Create Encore name True \<notin> set c \<and> right_shape name i
        | NotMade e \<Rightarrow> Create Encore name True \<notin> set c"
proof -
  from create_encore_spec [OF assms] have c: "c \<noteq> []" "length c \<le> Suc f"
    and cm: "case m of
          Made i False \<Rightarrow> last c = Create Encore name True \<and> set (butlast c) \<subseteq> {Create Encore name False}
            \<and> answered osc name i
        | Made i True \<Rightarrow> set c = {Create Encore name False} \<and> right_shape name i
        | NotMade e \<Rightarrow> set c = {Create Encore name False}" by auto
  have s: "set c = insert (last c) (set (butlast c))"
    using arg_cong [OF append_butlast_last_id [OF c(1)], of set] by simp
  show "length c \<le> Suc f" by fact
  show "set c \<subseteq> {Create Encore name True, Create Encore name False}"
    using cm s by (auto split: made.splits bool.splits)
  show "case m of
          Made i False \<Rightarrow> Create Encore name True \<in> set c \<and> answered osc name i
        | Made i True \<Rightarrow> Create Encore name True \<notin> set c \<and> right_shape name i
        | NotMade e \<Rightarrow> Create Encore name True \<notin> set c"
    using cm s by (auto split: made.splits bool.splits)
qed

lemma create_or_adopt_spec:
  "createOrAdoptCallbackListener osc i u o0 calls0 = (o1, calls, r) \<Longrightarrow>
     calls = calls0 @ [Create Listener i (\<exists>li. r = Inr (li, False))]"
  by (auto simp: createOrAdoptCallbackListener_def Let_def split: sum.splits option.splits if_splits prod.splits)

definition listener_outcome :: "string \<Rightarrow> osc_call list \<Rightarrow> osc_error + osc_instance \<times> bool \<Rightarrow> bool" where
  "listener_outcome i new r =
     ((\<forall>c\<in>set new. \<exists>ok. c = Create Listener i ok)
      \<and> (Create Listener i True \<in> set new \<longleftrightarrow> (\<exists>li. r = Inr (li, False))))"

lemma create_listener_spec:
  "create_listener osc i u a f o0 calls0 = (o1, calls, r) \<Longrightarrow>
   \<exists>new. calls = calls0 @ new \<and> length new \<le> Suc f \<and> listener_outcome i new r"
proof (induction f arbitrary: a o0 calls0)
  case 0
  obtain x c' q where c: "createOrAdoptCallbackListener osc i u o0 calls0 = (x, c', q)"
    by (cases "createOrAdoptCallbackListener osc i u o0 calls0")
  have "(calls, r) = (c', q)" using 0 c by (simp add: create_listener.simps split: sum.splits if_splits)
  then show ?case using create_or_adopt_spec [OF c]
    by (intro exI [of _ "[Create Listener i (\<exists>li. q = Inr (li, False))]"]) (simp add: listener_outcome_def)
next
  case (Suc f)
  obtain x c' q where c: "createOrAdoptCallbackListener osc i u o0 calls0 = (x, c', q)"
    by (cases "createOrAdoptCallbackListener osc i u o0 calls0")
  note c' = create_or_adopt_spec [OF c]
  show ?case
  proof (cases "\<exists>e. q = Inl e \<and> isTransientOscError e")
    case True
    then have "create_listener osc i u (Suc a) f (os_sleep osc (int a * 5000) x) c' = (o1, calls, r)"
      using Suc.prems c by (auto simp: create_listener.simps [of osc i u a])
    from Suc.IH [OF this] obtain new where n: "calls = c' @ new" "length new \<le> Suc f" "listener_outcome i new r"
      by blast
    have q: "\<not> (\<exists>li. q = Inr (li, False))" using True by auto
    show ?thesis
      by (rule exI [of _ "Create Listener i False # new"])
        (use n q in \<open>auto simp: c' listener_outcome_def\<close>)
  next
    case False
    then have "(calls, r) = (c', q)"
      using Suc.prems c by (auto simp: create_listener.simps [of osc i u a] split: sum.splits if_splits)
    then show ?thesis using c'
      by (intro exI [of _ "[Create Listener i (\<exists>li. q = Inr (li, False))]"]) (simp add: listener_outcome_def)
  qed
qed

section \<open>What a spawn leaves\<close>

definition removed :: "string \<Rightarrow> osc_call list \<Rightarrow> bool" where
  "removed n calls = (Remove Encore n \<in> set calls)"

definition tracked :: "scaler \<Rightarrow> string \<Rightarrow> bool" where
  "tracked s n = (\<exists>r. map_of (v_pool s) n = Some (Instance r))"

definition listener_calls :: "osc_call list \<Rightarrow> string \<Rightarrow> bool" where
  "listener_calls new i = (\<forall>c\<in>set new. (\<exists>ok. c = Create Listener i ok) \<or> c = Remove Listener i \<or> c = Remove Encore i)"

lemma cleanup_spec:
  assumes "spawn_cleanup osc i url ad up li (o0, s) calls0 = ((o1, s1), calls)"
  shows "\<exists>new. calls = calls0 @ new \<and> filter is_create new = [] \<and> listener_calls new i
    \<and> (if ad \<or> up then new = [] \<and> (\<exists>rec. s1 = updateInstance rec s \<and> i_instanceId rec = i
            \<and> i_pendingReadySince rec \<noteq> None)
       else s1 = s \<and> Remove Encore i \<in> set new)"
proof (cases "ad \<or> up")
  case True
  then show ?thesis using assms
    by (auto simp: spawn_cleanup_def recordPendingSpawn_def fresh_instance_def listener_calls_def)
next
  case False
  obtain a b where r: "os_remove osc Encore i o0 = (a, b)" by (cases "os_remove osc Encore i o0")
  obtain c d where k: "os_token osc Listener a = (c, d)" by (cases "os_token osc Listener a")
  have "s1 = s \<and> (calls = calls0 @ [Remove Encore i] \<or> calls = calls0 @ [Remove Encore i, Remove Listener i])"
    using assms False r k by (auto simp: spawn_cleanup_def Let_def split: if_splits option.splits)
  then show ?thesis using False
    by (elim conjE disjE; intro exI [of _ "drop (length calls0) calls"])
      (simp_all add: listener_calls_def is_create_def)
qed

definition spawn_outcome :: "string \<Rightarrow> scaler \<Rightarrow> bool \<Rightarrow> scaler \<Rightarrow> osc_call list \<Rightarrow> spawn_result \<Rightarrow> bool" where
  "spawn_outcome i s ad s1 new r = (listener_calls new i \<and> (case r of
       SpawnOk rec \<Rightarrow> s1 = updateInstance rec s \<and> i_instanceId rec = i \<and> truthy (i_callbackListenerUrl rec)
         \<and> i_pendingReadySince rec = None \<and> i_activeJobs rec = 0 \<and> \<not> removed i new
     | SpawnThrew e b \<Rightarrow>
         (s1 = s \<and> \<not> ad \<and> removed i new)
         \<or> (\<not> removed i new \<and> (\<exists>rec. s1 = updateInstance rec s \<and> i_instanceId rec = i
              \<and> i_pendingReadySince rec \<noteq> None))))"

lemma listener_new:
  "listener_outcome i new r \<Longrightarrow> listener_calls new i \<and> \<not> removed i new \<and> filter is_create new = new"
  by (auto simp: listener_outcome_def listener_calls_def removed_def is_create_def filter_id_conv)

lemma fails_outcome:
  assumes "spawn_cleanup osc i url ad up li (o', s) (calls0 @ new0) = ((o1, s1), calls)"
    "listener_calls new0 i" "\<not> removed i new0" "length (filter is_create new0) \<le> n"
  shows "\<exists>new. calls = calls0 @ new \<and> length (filter is_create new) \<le> n
    \<and> spawn_outcome i s ad s1 new (SpawnThrew e b)"
proof -
  obtain new where n: "calls = (calls0 @ new0) @ new" "filter is_create new = []" "listener_calls new i"
    "if ad \<or> up then new = [] \<and> (\<exists>rec. s1 = updateInstance rec s \<and> i_instanceId rec = i
            \<and> i_pendingReadySince rec \<noteq> None) else s1 = s \<and> Remove Encore i \<in> set new"
    using cleanup_spec [OF assms(1)] by blast
  show ?thesis
    by (rule exI [of _ "new0 @ new"])
      (use n assms(2-4) in \<open>auto simp: spawn_outcome_def listener_calls_def removed_def split: if_splits\<close>)
qed

lemma spawn_with_instance_spec:
  assumes "spawn_with_instance osc f i url ad (o0, s) calls0 = ((o1, s1), calls, r)"
  shows "\<exists>new. calls = calls0 @ new \<and> length (filter is_create new) \<le> Suc f \<and> spawn_outcome i s ad s1 new r"
proof -
  obtain a t where t: "os_token osc Listener o0 = (a, t)" by (cases "os_token osc Listener o0")
  note d = assms [unfolded spawn_with_instance_def Let_def prod.case t]
  show ?thesis
  proof (cases t)
    case (Some err)
    obtain z c where k: "spawn_cleanup osc i url ad False None (a, s) calls0 = (z, c)"
      by (cases "spawn_cleanup osc i url ad False None (a, s) calls0")
    have "spawn_cleanup osc i url ad False None (a, s) (calls0 @ []) = ((o1, s1), calls)"
      and r: "r = SpawnThrew err False" using d Some k by simp_all
    from fails_outcome [OF this(1), of "Suc f"] show ?thesis
      unfolding r by (simp add: listener_calls_def removed_def)
  next
    case None
    obtain b c2 lr where l: "create_listener osc i url 1 f a calls0 = (b, c2, lr)"
      by (cases "create_listener osc i url 1 f a calls0")
    obtain new where n: "c2 = calls0 @ new" "length new \<le> Suc f" "listener_outcome i new lr"
      using create_listener_spec [OF l] by blast
    note ln = listener_new [OF n(3)]
    have len: "length (filter is_create new) \<le> Suc f" using ln n(2) by simp
    have bad: ?thesis if "\<exists>up li o' e b'. spawn_cleanup osc i url ad up li (o', s) c2 = ((o1, s1), calls)
        \<and> r = SpawnThrew e b'"
    proof -
      from that obtain up li o' e b' where c: "spawn_cleanup osc i url ad up li (o', s) (calls0 @ new) = ((o1, s1), calls)"
        and r: "r = SpawnThrew e b'" unfolding n(1) by blast
      show ?thesis unfolding r using fails_outcome [OF c _ _ len] ln by blast
    qed
    show ?thesis
    proof (cases lr)
      case (Inl err)
      then show ?thesis using d None l by (intro bad) (auto split: prod.splits)
    next
      case (Inr li)
      show ?thesis
      proof (cases "instanceUrl (fst li)")
        case None: None
        then show ?thesis using d \<open>t = None\<close> l Inr by (intro bad) (auto split: prod.splits)
      next
        case (Some lu)
        obtain e ans where rd: "os_ready osc i b = (e, ans)" by (cases "os_ready osc i b")
        show ?thesis
        proof (cases ans)
          case BothReady
          have lu: "truthy (Some lu)" using Some by (auto simp: instanceUrl_def split: if_splits)
          show ?thesis using d \<open>t = None\<close> l Inr Some rd BothReady n(1,2) ln lu
            by (intro exI [of _ new]) (auto simp: spawn_outcome_def fresh_instance_def)
        qed (use d \<open>t = None\<close> l Inr Some rd in \<open>intro bad; auto split: prod.splits\<close>)+
      qed
    qed
  qed
qed

section \<open>Properties\<close>

lemma spawn_name_nonempty [simp]: "spawn_name tag w n \<noteq> []"
  by (simp add: spawn_name_def scalerInstancePrefix_def)


text \<open>A platform whose listener create is refused; its state is the clock.\<close>

definition refusing_osc :: "int osc" where
  "refusing_osc = \<lparr> os_now = (\<lambda>t. t), os_sleep = (\<lambda>d t. t + max d 0), os_token = (\<lambda>v t. (t, None)),
     os_create = (\<lambda>v n u t. (t + 1000, if v = Encore then Inr \<lparr> on_name = Some n, on_url = Some ''https://e'' \<rparr>
        else Inl \<lparr> oe_httpCode = Some 403, oe_message = ''quota'' \<rparr>)),
     os_get = (\<lambda>v n t. (t, None)), os_health = (\<lambda>v n t. (t, Inr ''running'')), os_list = (\<lambda>v t. (t, Some [])),
     os_remove = (\<lambda>v n t. (t, None)), os_ready = (\<lambda>n t. (t, BothReady)) \<rparr>"

definition demo_spawn_config :: spawn_config where
  "demo_spawn_config = \<lparr> sc_workspaceId = ''ws'', sc_tag = (\<lambda>_. ''0a1b2c3d''), sc_probeTimeoutMs = 90000,
     sc_probeIntervalMs = 5000, sc_redact = oe_message \<rparr>"


text \<open>The watch for an instance whose create timed out ends: with a clock that runs and a
  positive interval, it answers (one look per millisecond of its budget is enough), and it
  adopts only an instance of the name asked for that has a URL.\<close>

theorem watch_ends:
  assumes "clock_runs osc" "0 < sc_probeIntervalMs cfg"
  shows "\<exists>o1 t. probeForGatewayTimedOutInstance osc cfg name o0 = Some (o1, t)
    \<and> (\<forall>i. t = Adopt i \<longrightarrow> on_name i = Some name \<and> truthy (on_url i))"
proof -
  have "\<exists>r. probeForGatewayTimedOutInstance osc cfg name o0 = Some r"
    using probe_loop_returns [OF assms, where fuel = "nat (sc_probeTimeoutMs cfg)"]
    by (simp add: probeForGatewayTimedOutInstance_def del: probe_loop.simps)
  then show ?thesis using watch_right_shape by (fastforce simp: right_shape_def)
qed

lemma watch_ends_witness:
  "\<exists>o1 t. probeForGatewayTimedOutInstance refusing_osc demo_spawn_config ''n'' 0 = Some (o1, t)"
proof -
  have "clock_runs refusing_osc" by (simp add: clock_runs_def refusing_osc_def)
  moreover have "0 < sc_probeIntervalMs demo_spawn_config" by (simp add: demo_spawn_config_def)
  ultimately show ?thesis using watch_ends [of refusing_osc demo_spawn_config "''n''" 0] by blast
qed

text \<open>A spawn walks away from an encoder whose create was answered without a URL: it
  fails, removes nothing and records nothing, although the platform has created the
  instance.\<close>

theorem spawn_abandons_instance_without_url:
  assumes "os_token osc Encore o0 = (o1, None)"
    and "os_create osc Encore (spawn_name (sc_tag cfg) (sc_workspaceId cfg) (os_now osc o1)) [] o1 = (o2, Inr inst)"
    and "\<not> truthy (on_url inst)" "truthy (on_name inst)"
  shows "spawnPooledInstance osc cfg f (o0, s) = ((o2, s),
    [Create Encore (spawn_name (sc_tag cfg) (sc_workspaceId cfg) (os_now osc o1)) True],
    SpawnThrew (unusable ''url'') False)"
proof -
  have "create_encore osc cfg (spawn_name (sc_tag cfg) (sc_workspaceId cfg) (os_now osc o1)) 1 f o1 []
      = (o2, [Create Encore (spawn_name (sc_tag cfg) (sc_workspaceId cfg) (os_now osc o1)) True], Made inst False)"
    using assms(2) by (subst create_encore.simps) simp
  moreover obtain i where "on_name inst = Some i" "i \<noteq> []" using assms(4) by (auto simp: truthy_def split: option.splits)
  moreover have "instanceUrl inst = None" using assms(3) by (simp add: instanceUrl_def)
  ultimately show ?thesis using assms(1)
    by (simp add: spawnPooledInstance_def instanceName_def Let_def)
qed

lemma spawn_abandons_instance_without_url_witness:
  "spawnPooledInstance (refusing_osc\<lparr> os_create := (\<lambda>v n u t. (t, Inr \<lparr> on_name = Some n, on_url = None \<rparr>)) \<rparr>)
     demo_spawn_config 2 (0, empty_scaler)
   = ((0, empty_scaler), [Create Encore (spawn_name (\<lambda>_. ''0a1b2c3d'') ''ws'' 0) True],
      SpawnThrew (unusable ''url'') False)"
  by (subst spawn_abandons_instance_without_url [where ?o1.0 = 0 and ?o2.0 = 0
        and inst = "\<lparr> on_name = Some (spawn_name (\<lambda>_. ''0a1b2c3d'') ''ws'' 0), on_url = None \<rparr>"])
    (simp_all add: refusing_osc_def demo_spawn_config_def truthy_def)

end
