(* ===== verification/Spawn_Admission.thy ===== *)
theory Spawn_Admission
  imports Spawn "HOL-Library.List_Lexorder" "HOL-Library.Char_ord"
begin

text \<open>
  When a scale-up may start (\<^verbatim>\<open>src/src/encore-scaler/spawn-admission.ts\<close>, the hold-off of
  \<^verbatim>\<open>spawn-failure.ts\<close> and step 3 of \<^verbatim>\<open>tick\<close> in \<^verbatim>\<open>scaler-loop.ts\<close>): the process-wide limiter of
  spawns in flight, the growing hold-off after failures, the hold while a spawn of the
  workspace has not landed, and the step that joins them with the spawn itself. A slot is a
  handle; its \<^verbatim>\<open>released\<close> flag is kept in the limiter, by the number of the handle.
\<close>

section \<open>The limiter\<close>

record limiter =
  lm_limit :: int
  lm_held :: "(string, int) jsmap"
  lm_slots :: "(string \<times> bool) list"

definition DEFAULT_MAX_CONCURRENT_SPAWNS :: int where "DEFAULT_MAX_CONCURRENT_SPAWNS = 1"

definition new_limiter :: "jsnum \<Rightarrow> limiter" where
  "new_limiter limit = \<lparr> lm_limit = (case limit of
       Fin r \<Rightarrow> if 1 \<le> r then \<lfloor>r\<rfloor> else DEFAULT_MAX_CONCURRENT_SPAWNS
     | _ \<Rightarrow> DEFAULT_MAX_CONCURRENT_SPAWNS), lm_held = [], lm_slots = [] \<rparr>"

definition inFlight :: "limiter \<Rightarrow> int" where
  "inFlight l = (\<Sum>(k, v)\<leftarrow>lm_held l. v)"

definition holders :: "limiter \<Rightarrow> string list" where
  "holders l = sort (keys (lm_held l))"

definition tryAcquire :: "string \<Rightarrow> limiter \<Rightarrow> limiter \<times> nat option" where
  "tryAcquire w l = (if lm_limit l \<le> inFlight l then (l, None)
     else (l\<lparr> lm_held := AList.update w (coalesce (map_of (lm_held l) w) 0 + 1) (lm_held l),
              lm_slots := lm_slots l @ [(w, False)] \<rparr>, Some (length (lm_slots l))))"

definition release :: "nat \<Rightarrow> limiter \<Rightarrow> limiter" where
  "release k l =
     (if length (lm_slots l) \<le> k then l
      else let (w, released) = lm_slots l ! k in
        if released then l
        else let remaining = coalesce (map_of (lm_held l) w) 1 - 1
          in l\<lparr> lm_slots := (lm_slots l)[k := (w, True)],
               lm_held := (if 0 < remaining then AList.update w remaining (lm_held l)
                           else AList.delete w (lm_held l)) \<rparr>)"

section \<open>The hold-off after failed spawns\<close>

definition DEFAULT_SPAWN_GATEWAY_BACKOFF_MS :: int where "DEFAULT_SPAWN_GATEWAY_BACKOFF_MS = 120000"
definition DEFAULT_SPAWN_BACKOFF_MAX_MS :: int where "DEFAULT_SPAWN_BACKOFF_MAX_MS = 1800000"

definition TRANSPORT_FAILURE_MESSAGE_MARKERS :: "string list" where
  "TRANSPORT_FAILURE_MESSAGE_MARKERS = [''fetch failed'']"

definition isSpawnHoldOffFailure :: "spawn_failure_record option \<Rightarrow> bool" where
  "isSpawnHoldOffFailure r = (case r of
       None \<Rightarrow> False
     | Some f \<Rightarrow> if sf_httpCode f \<noteq> None then isGatewayTimeoutStatus (sf_httpCode f)
         else list_ex (str_includes (to_lower (sf_message f))) TRANSPORT_FAILURE_MESSAGE_MARKERS)"

definition spawnBackoffWindowMs :: "int \<Rightarrow> int \<Rightarrow> int \<Rightarrow> int" where
  "spawnBackoffWindowMs consecutiveFailures backoffMs maxMs =
     (if backoffMs \<le> 0 then 0
      else let ceiling' = max backoffMs maxMs; failures = max 1 consecutiveFailures;
               doublings = min (failures - 1) 40
           in min ceiling' (backoffMs * 2 ^ nat doublings))"

definition spawnGatewayBackoffRemainingMs :: "spawn_failure_record option \<Rightarrow> int \<Rightarrow> int \<Rightarrow> int \<Rightarrow> int" where
  "spawnGatewayBackoffRemainingMs r now backoffMs maxBackoffMs = (case r of
       None \<Rightarrow> 0
     | Some f \<Rightarrow> if backoffMs \<le> 0 then 0
         else if \<not> isSpawnHoldOffFailure r then 0
         else let window = spawnBackoffWindowMs (sf_consecutiveFailures f) backoffMs maxBackoffMs;
                  elapsed = max 0 (now - sf_at f)
              in max 0 (window - elapsed))"

section \<open>Spawns that have not landed\<close>

definition isAdoptionPending :: "instance_record \<Rightarrow> bool" where
  "isAdoptionPending inst =
     (i_pendingReadySince inst \<noteq> None \<or> (i_callbackListenerUrl inst = None \<and> i_readyAt inst = None))"

definition adoptionPendingInstance :: "instance_record list \<Rightarrow> instance_record option" where
  "adoptionPendingInstance instances =
     (if instances = [] then None
      else if \<not> list_all isAdoptionPending instances then None
      else Some (hd instances))"

section \<open>The gate\<close>

record gate_config =
  gc_minInstances :: int
  gc_maxInstances :: int
  gc_gatewayBackoffMs :: int
  gc_backoffMaxMs :: int

datatype hold_reason =
    ConcurrencyCap int int "string list"
  | FailureBackoff int int "int option"
  | PendingAdoption string

text \<open>\<^verbatim>\<open>Start\<close> carries the slot, \<^verbatim>\<open>None\<close> when no limiter is wired.\<close>

datatype gate_decision = NotNeeded | Hold hold_reason | Start "nat option"

definition wants_instance :: "gate_config \<Rightarrow> nat \<Rightarrow> instance_record list \<Rightarrow> bool" where
  "wants_instance cfg pending instances =
     (let usable = filter (\<lambda>i. i_pendingReadySince i = None) instances;
          allBusy = list_all (\<lambda>i. JOBS_PER_INSTANCE \<le> i_activeJobs i) usable;
          belowMin = int (length instances) < gc_minInstances cfg
      in int (length instances) < gc_maxInstances cfg \<and> (belowMin \<or> (0 < pending \<and> allBusy)))"

definition scale_up_gate ::
  "gate_config \<Rightarrow> string \<Rightarrow> int \<Rightarrow> nat \<Rightarrow> instance_record list \<Rightarrow> spawn_failure_record option \<Rightarrow> limiter option
   \<Rightarrow> limiter option \<times> gate_decision" where
  "scale_up_gate cfg w now pending instances failure lmt =
     (if \<not> wants_instance cfg pending instances then (lmt, NotNeeded)
      else
        let gatewayBackoffMs = spawnGatewayBackoffRemainingMs failure now
              (gc_gatewayBackoffMs cfg) (gc_backoffMaxMs cfg)
        in case adoptionPendingInstance instances of
             Some i \<Rightarrow> (lmt, Hold (PendingAdoption (i_instanceId i)))
           | None \<Rightarrow>
               if 0 < gatewayBackoffMs
               then (lmt, Hold (FailureBackoff gatewayBackoffMs
                      (coalesce (map_option sf_consecutiveFailures failure) 0)
                      (Option.bind failure sf_httpCode)))
               else (case lmt of
                       None \<Rightarrow> (None, Start None)
                     | Some l \<Rightarrow> (case tryAcquire w l of
                           (l', Some k) \<Rightarrow> (Some l', Start (Some k))
                         | (l', None) \<Rightarrow> (Some l', Hold (ConcurrencyCap (lm_limit l) (inFlight l) (holders l))))))"

text \<open>The step: gate, spawn, and the slot given back, once by the hook of a spawn whose
  creates have settled and again on the way out.\<close>

definition release_slot :: "nat option \<Rightarrow> limiter option \<Rightarrow> limiter option" where
  "release_slot slot lmt = (case slot of None \<Rightarrow> lmt | Some k \<Rightarrow> map_option (release k) lmt)"

definition spawn_settled :: "spawn_result \<Rightarrow> bool" where
  "spawn_settled r = (case r of SpawnOk rec \<Rightarrow> True | SpawnThrew e settled \<Rightarrow> settled)"

definition scale_up ::
  "'o osc \<Rightarrow> spawn_config \<Rightarrow> gate_config \<Rightarrow> nat \<Rightarrow> instance_record list \<Rightarrow> 'o \<times> scaler \<Rightarrow> limiter option
   \<Rightarrow> ('o \<times> scaler) \<times> limiter option \<times> instance_record list \<times> gate_decision \<times> osc_call list" where
  "scale_up osc scfg cfg pending instances st lmt =
     (let (o0, s) = st;
          (lmt1, decision) = scale_up_gate cfg (sc_workspaceId scfg) (os_now osc o0) pending instances
            (readSpawnFailure s) lmt
      in case decision of
           Start slot \<Rightarrow>
             (let (st', calls, r) = spawnInstance osc scfg 2 (o0, s);
                  lmt2 = (if spawn_settled r then release_slot slot lmt1 else lmt1)
              in (st', release_slot slot lmt2,
                  (case r of SpawnOk rec \<Rightarrow> instances @ [rec] | SpawnThrew e b \<Rightarrow> instances), decision, calls))
         | _ \<Rightarrow> ((o0, s), lmt1, instances, decision, []))"

section \<open>What a limiter of slots promises, and what its clients get\<close>

text \<open>\<^verbatim>\<open>live l\<close> are the handles given out and not released.\<close>

locale slot_limiter =
  fixes acquire :: "string \<Rightarrow> 'l \<Rightarrow> 'l \<times> nat option"
    and give_back :: "nat \<Rightarrow> 'l \<Rightarrow> 'l"
    and ok :: "'l \<Rightarrow> bool" and live :: "'l \<Rightarrow> nat set" and cap :: "'l \<Rightarrow> int"
  assumes refused: "ok l \<Longrightarrow> acquire w l = (l', None) \<Longrightarrow> l' = l \<and> cap l \<le> int (card (live l))"
    and granted: "ok l \<Longrightarrow> acquire w l = (l', Some k) \<Longrightarrow> ok l' \<and> k \<notin> live l \<and> live l' = insert k (live l)
      \<and> int (card (live l)) < cap l \<and> cap l' = cap l"
    and given_back: "ok l \<Longrightarrow> ok (give_back k l) \<and> live (give_back k l) = live l - {k} \<and> cap (give_back k l) = cap l"
    and live_finite: "ok l \<Longrightarrow> finite (live l)"

text \<open>The spawns of a process: each asks for a slot, and if it gets one gives it back when its
  creates have settled and again when it ends, or only when it ends.\<close>

datatype spawn_event = Ask string | Settled nat | Ended nat

fun spawn_event_step ::
  "(string \<Rightarrow> 'l \<Rightarrow> 'l \<times> nat option) \<Rightarrow> (nat \<Rightarrow> 'l \<Rightarrow> 'l) \<Rightarrow> spawn_event \<Rightarrow> 'l \<times> nat list \<Rightarrow> 'l \<times> nat list" where
  "spawn_event_step acquire give_back (Ask w) (l, running) = (case acquire w l of
       (l', Some k) \<Rightarrow> (l', k # running) | (l', None) \<Rightarrow> (l', running))"
| "spawn_event_step acquire give_back (Settled k) (l, running) =
     (if k \<in> set running then give_back k l else l, running)"
| "spawn_event_step acquire give_back (Ended k) (l, running) =
     (if k \<in> set running then give_back k l else l, removeAll k running)"

definition spawn_events ::
  "(string \<Rightarrow> 'l \<Rightarrow> 'l \<times> nat option) \<Rightarrow> (nat \<Rightarrow> 'l \<Rightarrow> 'l) \<Rightarrow> spawn_event list \<Rightarrow> 'l \<times> nat list \<Rightarrow> 'l \<times> nat list" where
  "spawn_events acquire give_back es x = List.fold (spawn_event_step acquire give_back) es x"

context slot_limiter
begin

lemma event_ok:
  assumes "ok (fst x)" "live (fst x) \<subseteq> set (snd x)" "int (card (live (fst x))) \<le> cap (fst x)"
  shows "ok (fst (spawn_event_step acquire give_back e x))
    \<and> live (fst (spawn_event_step acquire give_back e x)) \<subseteq> set (snd (spawn_event_step acquire give_back e x))
    \<and> int (card (live (fst (spawn_event_step acquire give_back e x)))) \<le> cap (fst (spawn_event_step acquire give_back e x))
    \<and> cap (fst (spawn_event_step acquire give_back e x)) = cap (fst x)"
proof -
  obtain l running where x: "x = (l, running)" by (cases x)
  have shrink: "int (card (live l - {k})) \<le> cap l" for k
    using assms(3) card_mono [OF live_finite, of l "live l - {k}"] assms(1) by (simp add: x)
  show ?thesis
  proof (cases e)
    case (Ask w)
    obtain l' h where a: "acquire w l = (l', h)" by (cases "acquire w l")
    show ?thesis
    proof (cases h)
      case None
      then show ?thesis using refused [of l w l'] assms a by (simp add: Ask x)
    next
      case (Some k)
      then show ?thesis using granted [of l w l' k] assms a live_finite [of l] by (auto simp: Ask x)
    qed
  next
    case (Settled k)
    then show ?thesis using given_back [of l k] assms shrink [of k] by (auto simp: x)
  next
    case (Ended k)
    then show ?thesis using given_back [of l k] assms shrink [of k] by (auto simp: x)
  qed
qed

lemma events_ok:
  assumes "ok (fst x)" "live (fst x) \<subseteq> set (snd x)" "int (card (live (fst x))) \<le> cap (fst x)"
  shows "ok (fst (spawn_events acquire give_back es x))
    \<and> live (fst (spawn_events acquire give_back es x)) \<subseteq> set (snd (spawn_events acquire give_back es x))
    \<and> int (card (live (fst (spawn_events acquire give_back es x)))) \<le> cap (fst (spawn_events acquire give_back es x))
    \<and> cap (fst (spawn_events acquire give_back es x)) = cap (fst x)"
  using assms
proof (induction es arbitrary: x)
  case (Cons e es)
  from event_ok [OF Cons.prems, of e] Cons.IH [of "spawn_event_step acquire give_back e x"]
  show ?case by (simp add: spawn_events_def)
qed (simp add: spawn_events_def)

text \<open>When every spawn has ended, the next one is let in.\<close>

lemma idle_admits:
  assumes "ok l" "live l = {}" "0 < cap l"
  shows "\<exists>l' k. acquire w l = (l', Some k)"
proof -
  obtain l' h where a: "acquire w l = (l', h)" by (cases "acquire w l")
  show ?thesis using refused [OF assms(1), of w l'] a assms by (cases h) auto
qed

end

section \<open>The limiter keeps the promise\<close>

definition unreleased :: "string \<Rightarrow> (string \<times> bool) list \<Rightarrow> nat" where
  "unreleased w slots = length (filter (\<lambda>(v, r). v = w \<and> \<not> r) slots)"

definition limiter_ok :: "limiter \<Rightarrow> bool" where
  "limiter_ok l = (distinct (List.map fst (lm_held l))
     \<and> (\<forall>w. coalesce (map_of (lm_held l) w) 0 = int (unreleased w (lm_slots l)))
     \<and> inFlight l = int (length (filter (\<lambda>x. \<not> snd x) (lm_slots l))))"

definition live_slots :: "limiter \<Rightarrow> nat set" where
  "live_slots l = {k. k < length (lm_slots l) \<and> \<not> snd (lm_slots l ! k)}"

lemma sum_update:
  "distinct (List.map fst m) \<Longrightarrow>
     (\<Sum>(k, v)\<leftarrow>AList.update w n m. v) = (\<Sum>(k, v)\<leftarrow>m. v) - coalesce (map_of m w) 0 + (n::int)"
proof (induction m)
  case (Cons x m)
  obtain k v where "x = (k, v)" by (cases x)
  then show ?case using Cons by simp
qed simp

lemma sum_delete:
  "distinct (List.map fst m) \<Longrightarrow>
     (\<Sum>(k, v)\<leftarrow>AList.delete w m. v) = (\<Sum>(k, v)\<leftarrow>m. v) - (coalesce (map_of m w) 0 :: int)"
proof (induction m)
  case (Cons x m)
  obtain k v where x: "x = (k, v)" by (cases x)
  have "map_of m w = None" if "k = w" using Cons.prems that x
    by (auto simp: map_of_eq_None_iff)
  then show ?case using Cons x by (auto simp: AList.delete_eq)
qed (simp add: AList.delete_eq)

lemma filter_update_count:
  "k < length xs \<Longrightarrow> P (xs ! k) \<Longrightarrow> \<not> P x \<Longrightarrow> Suc (length (filter P (xs[k := x]))) = length (filter P xs)"
proof (induction xs arbitrary: k)
  case (Cons a xs)
  then show ?case by (cases k) auto
qed simp

lemma filter_update_other:
  "k < length xs \<Longrightarrow> \<not> P (xs ! k) \<Longrightarrow> \<not> P x \<Longrightarrow> length (filter P (xs[k := x])) = length (filter P xs)"
proof (induction xs arbitrary: k)
  case (Cons a xs)
  then show ?case by (cases k) auto
qed simp

lemma live_card: "card (live_slots l) = length (filter (\<lambda>x. \<not> snd x) (lm_slots l))"
  by (simp add: live_slots_def length_filter_conv_card)

lemma acquire_ok:
  assumes "limiter_ok l" "tryAcquire w l = (l', Some k)"
  shows "limiter_ok l'" "k \<notin> live_slots l" "live_slots l' = insert k (live_slots l)" "lm_limit l' = lm_limit l"
    "int (card (live_slots l)) < lm_limit l"
proof -
  let ?held = "AList.update w (coalesce (map_of (lm_held l) w) 0 + 1) (lm_held l)"
  have l': "l' = l\<lparr> lm_held := ?held, lm_slots := lm_slots l @ [(w, False)] \<rparr>" and k: "k = length (lm_slots l)"
    and lt: "inFlight l < lm_limit l" using assms(2) by (auto simp: tryAcquire_def split: if_splits)
  have d: "distinct (List.map fst (lm_held l))" using assms(1) by (simp add: limiter_ok_def)
  show "limiter_ok l'" using assms(1) distinct_update [OF d] sum_update [OF d, of w "coalesce (map_of (lm_held l) w) 0 + 1"]
    by (auto simp: l' limiter_ok_def unreleased_def update_conv inFlight_def)
  show "k \<notin> live_slots l" "live_slots l' = insert k (live_slots l)" "lm_limit l' = lm_limit l"
    by (auto simp: l' k live_slots_def nth_append less_Suc_eq)
  show "int (card (live_slots l)) < lm_limit l" using lt assms(1) by (simp add: live_card limiter_ok_def)
qed

lemma acquire_refused:
  "limiter_ok l \<Longrightarrow> tryAcquire w l = (l', None) \<Longrightarrow> l' = l \<and> lm_limit l \<le> int (card (live_slots l))"
  by (auto simp: tryAcquire_def limiter_ok_def live_card split: if_splits)

lemma release_ok:
  assumes "limiter_ok l"
  shows "limiter_ok (release k l)" "live_slots (release k l) = live_slots l - {k}"
    "lm_limit (release k l) = lm_limit l"
proof -
  have "limiter_ok (release k l) \<and> live_slots (release k l) = live_slots l - {k} \<and> lm_limit (release k l) = lm_limit l"
  proof (cases "k \<in> live_slots l")
    case False
    then have "release k l = l" by (auto simp: release_def live_slots_def Let_def split: prod.splits)
    then show ?thesis using False assms by simp
  next
    case True
    then have k: "k < length (lm_slots l)" "\<not> snd (lm_slots l ! k)" by (simp_all add: live_slots_def)
    obtain w where w: "lm_slots l ! k = (w, False)" using k(2) by (cases "lm_slots l ! k") auto
    let ?slots = "(lm_slots l)[k := (w, True)]"
    let ?c = "coalesce (map_of (lm_held l) w) 0"
    let ?held = "if 0 < ?c - 1 then AList.update w (?c - 1) (lm_held l) else AList.delete w (lm_held l)"
    have d: "distinct (List.map fst (lm_held l))" using assms by (simp add: limiter_ok_def)
    have cw: "?c = int (unreleased w (lm_slots l))" using assms by (simp add: limiter_ok_def)
    have dec: "Suc (unreleased w ?slots) = unreleased w (lm_slots l)"
      unfolding unreleased_def by (rule filter_update_count) (use k w in auto)
    have same: "unreleased v ?slots = unreleased v (lm_slots l)" if "v \<noteq> w" for v
      unfolding unreleased_def by (rule filter_update_other) (use k w that in auto)
    have tot: "Suc (length (filter (\<lambda>x. \<not> snd x) ?slots)) = length (filter (\<lambda>x. \<not> snd x) (lm_slots l))"
      by (rule filter_update_count) (use k in auto)
    have "0 < ?c" using cw dec by simp
    then have c1: "coalesce (map_of (lm_held l) w) 1 = ?c" by (cases "map_of (lm_held l) w") auto
    have r: "release k l = l\<lparr> lm_slots := ?slots, lm_held := ?held \<rparr>"
      using k w by (simp add: release_def Let_def c1)
    have live: "live_slots (release k l) = live_slots l - {k}"
      using k by (auto simp: r live_slots_def nth_list_update)
    have sum: "(\<Sum>(k, v)\<leftarrow>?held. v) = inFlight l - 1" using \<open>0 < ?c\<close> sum_update [OF d, of w "?c - 1"] sum_delete [OF d, of w]
      by (auto simp: inFlight_def)
    have held: "coalesce (map_of ?held v) 0 = int (unreleased v ?slots)" for v
    proof (cases "v = w")
      case True
      show ?thesis using cw dec \<open>0 < ?c\<close> True by (auto simp: update_conv delete_conv)
    next
      case False
      then show ?thesis using assms same [OF False] by (simp add: limiter_ok_def update_conv delete_conv)
    qed
    have "distinct (List.map fst ?held)" using d by (simp add: distinct_update distinct_delete)
    then have "limiter_ok (release k l)"
      using sum held tot assms by (simp add: r limiter_ok_def inFlight_def)
    then show ?thesis using live r by simp
  qed
  then show "limiter_ok (release k l)" "live_slots (release k l) = live_slots l - {k}"
    "lm_limit (release k l) = lm_limit l" by simp_all
qed

interpretation spawn_slots: slot_limiter tryAcquire release limiter_ok live_slots lm_limit
proof
  fix l l' w k
  show "limiter_ok l \<Longrightarrow> tryAcquire w l = (l', None) \<Longrightarrow> l' = l \<and> lm_limit l \<le> int (card (live_slots l))"
    by (rule acquire_refused)
  show "limiter_ok l \<Longrightarrow> tryAcquire w l = (l', Some k) \<Longrightarrow> limiter_ok l' \<and> k \<notin> live_slots l
      \<and> live_slots l' = insert k (live_slots l) \<and> int (card (live_slots l)) < lm_limit l \<and> lm_limit l' = lm_limit l"
    using acquire_ok by blast
  show "limiter_ok l \<Longrightarrow> limiter_ok (release k l) \<and> live_slots (release k l) = live_slots l - {k}
      \<and> lm_limit (release k l) = lm_limit l"
    using release_ok by blast
  show "limiter_ok l \<Longrightarrow> finite (live_slots l)" by (simp add: live_slots_def)
qed

section \<open>Properties\<close>

lemma new_limiter_ok: "limiter_ok (new_limiter c)" "live_slots (new_limiter c) = {}" "1 \<le> lm_limit (new_limiter c)"
  by (auto simp: limiter_ok_def new_limiter_def live_slots_def unreleased_def inFlight_def
      DEFAULT_MAX_CONCURRENT_SPAWNS_def le_floor_iff split: jsnum.splits)



lemma window_mono: "n \<le> m \<Longrightarrow> spawnBackoffWindowMs n b x \<le> spawnBackoffWindowMs m b x"
proof -
  assume nm: "n \<le> m"
  show ?thesis
  proof (cases "b \<le> 0")
    case False
    have "nat (min (max 1 n - 1) 40) \<le> nat (min (max 1 m - 1) 40)" using nm by (intro nat_mono) simp
    then have "(2::int) ^ nat (min (max 1 n - 1) 40) \<le> 2 ^ nat (min (max 1 m - 1) 40)"
      by (rule power_increasing) simp
    then have "b * 2 ^ nat (min (max 1 n - 1) 40) \<le> b * 2 ^ nat (min (max 1 m - 1) 40)"
      using False by (intro mult_left_mono) simp_all
    then show ?thesis using False by (simp add: spawnBackoffWindowMs_def Let_def min_le_iff_disj)
  qed (simp add: spawnBackoffWindowMs_def)
qed

text \<open>The hold-off after failed spawns is bounded and ends: its window lies between the
  configured base and the larger of base and ceiling, is the base after the first failure
  and never shrinks as failures add up; what remains of it never exceeds the window, even for
  a record stamped in the future, and is nothing once that much time has passed; and a
  failure that is neither a gateway timeout nor a failed connection holds nothing off.\<close>

theorem spawn_hold_off_bounds:
  assumes "0 < b"
  shows "b \<le> spawnBackoffWindowMs n b x \<and> spawnBackoffWindowMs n b x \<le> max b x
    \<and> (n \<le> 1 \<longrightarrow> spawnBackoffWindowMs n b x = b)
    \<and> (n \<le> m \<longrightarrow> spawnBackoffWindowMs n b x \<le> spawnBackoffWindowMs m b x)
    \<and> 0 \<le> spawnGatewayBackoffRemainingMs (Some r) now b x
    \<and> spawnGatewayBackoffRemainingMs (Some r) now b x \<le> spawnBackoffWindowMs (sf_consecutiveFailures r) b x
    \<and> (sf_at r + max b x \<le> now \<longrightarrow> spawnGatewayBackoffRemainingMs (Some r) now b x = 0)
    \<and> (\<not> isSpawnHoldOffFailure (Some r) \<longrightarrow> spawnGatewayBackoffRemainingMs (Some r) now b x = 0)"
proof -
  have w: "b \<le> spawnBackoffWindowMs k b x \<and> spawnBackoffWindowMs k b x \<le> max b x" for k
  proof -
    have "b * 1 \<le> b * 2 ^ nat (min (max 1 k - 1) 40)" using assms by (intro mult_left_mono) simp_all
    then show ?thesis using assms by (simp add: spawnBackoffWindowMs_def Let_def)
  qed
  have one: "n \<le> 1 \<longrightarrow> spawnBackoffWindowMs n b x = b"
    using assms by (auto simp: spawnBackoffWindowMs_def Let_def)
  have up: "spawnBackoffWindowMs (sf_consecutiveFailures r) b x \<le> max b x" using w by blast
  have rem: "spawnGatewayBackoffRemainingMs (Some r) now b x = (if \<not> isSpawnHoldOffFailure (Some r) then 0
      else max 0 (spawnBackoffWindowMs (sf_consecutiveFailures r) b x - max 0 (now - sf_at r)))"
    using assms by (simp add: spawnGatewayBackoffRemainingMs_def Let_def)
  have pos: "0 \<le> spawnBackoffWindowMs (sf_consecutiveFailures r) b x"
    using w [of "sf_consecutiveFailures r"] assms by linarith
  have ended: "sf_at r + max b x \<le> now \<longrightarrow> spawnGatewayBackoffRemainingMs (Some r) now b x = 0"
    using up unfolding rem by (auto simp: max_def split: if_splits)
  show ?thesis using w [of n] one window_mono [of n m b x] ended pos unfolding rem by auto
qed

lemma spawn_hold_off_bounds_witness:
  "spawnBackoffWindowMs 3 120000 1800000 = 480000 \<and> (120000::int) \<le> 480000 \<and> (480000::int) \<le> 1800000"
proof -
  have e: "spawnBackoffWindowMs 3 120000 1800000 = 480000" by code_simp
  have "0 < (120000::int)" by simp
  from spawn_hold_off_bounds [OF this, where n = 3 and x = 1800000] show ?thesis unfolding e by auto
qed

lemma release_slot_same:
  assumes "limiter_ok l" "tryAcquire w l = (l1, Some k)"
  shows "live_slots (release k (release k l1)) = live_slots l" "live_slots (release k l1) = live_slots l"
  using acquire_ok [OF assms] release_ok [of l1 k] release_ok [of "release k l1" k] by auto

text \<open>What a scale-up step does: it creates instances only when the pool is below its
  maximum and needs one, no spawn of the workspace is still to land on an otherwise empty
  pool, the hold-off of the last failure has run out and, with a limiter, a slot was free;
  when it holds, nothing changes; the pool it hands on grows by at most one and never past
  the maximum; and whatever the spawn does, the slots in use afterwards are those in use
  before.\<close>

theorem scale_up_contract:
  assumes "scale_up osc scfg cfg pending instances (o0, s) (Some l) = ((o1, s1), lmt', instances', d, calls)"
    and "limiter_ok l"
  shows "(calls \<noteq> [] \<longrightarrow> (\<exists>k. d = Start (Some k)) \<and> wants_instance cfg pending instances
      \<and> adoptionPendingInstance instances = None
      \<and> spawnGatewayBackoffRemainingMs (v_spawnFailure s) (os_now osc o0) (gc_gatewayBackoffMs cfg) (gc_backoffMaxMs cfg) \<le> 0
      \<and> inFlight l < lm_limit l)
    \<and> ((\<forall>k. d \<noteq> Start k) \<longrightarrow> s1 = s \<and> o1 = o0 \<and> instances' = instances)
    \<and> (\<exists>new. instances' = instances @ new \<and> length new \<le> 1
         \<and> (new \<noteq> [] \<longrightarrow> int (length instances') \<le> gc_maxInstances cfg))
    \<and> (\<exists>l'. lmt' = Some l' \<and> live_slots l' = live_slots l)"
proof -
  let ?now = "os_now osc o0"
  obtain lmt1 dec where g: "scale_up_gate cfg (sc_workspaceId scfg) ?now pending instances (v_spawnFailure s) (Some l)
      = (lmt1, dec)" by (cases "scale_up_gate cfg (sc_workspaceId scfg) ?now pending instances (v_spawnFailure s) (Some l)")
  note d0 = assms(1) [unfolded scale_up_def Let_def prod.case readSpawnFailure_def g]
  show ?thesis
  proof (cases "\<exists>slot. dec = Start slot")
    case False
    then have "(o1, s1) = (o0, s) \<and> lmt' = lmt1 \<and> instances' = instances \<and> d = dec \<and> calls = []"
      using d0 by (cases dec) auto
    moreover have "lmt1 = Some l" using g False
      by (auto simp: scale_up_gate_def Let_def tryAcquire_def split: if_splits option.splits prod.splits)
    ultimately show ?thesis using False by simp
  next
    case True
    then obtain slot where dec: "dec = Start slot" by blast
    obtain l1 k where a: "tryAcquire (sc_workspaceId scfg) l = (l1, Some k)" "slot = Some k" "lmt1 = Some l1"
      and c: "wants_instance cfg pending instances" "adoptionPendingInstance instances = None"
        "spawnGatewayBackoffRemainingMs (v_spawnFailure s) ?now (gc_gatewayBackoffMs cfg) (gc_backoffMaxMs cfg) \<le> 0"
      using g unfolding dec scale_up_gate_def Let_def by (auto split: if_splits option.splits prod.splits)
    obtain st' calls' r where sp: "spawnInstance osc scfg 2 (o0, s) = (st', calls', r)"
      by (cases "spawnInstance osc scfg 2 (o0, s)")
    have e: "d = Start slot" "calls = calls'"
      "instances' = (case r of SpawnOk rec \<Rightarrow> instances @ [rec] | SpawnThrew e b \<Rightarrow> instances)"
      "lmt' = release_slot slot (if spawn_settled r then release_slot slot lmt1 else lmt1)"
      using d0 dec sp by auto
    have lt: "inFlight l < lm_limit l" using a(1) by (auto simp: tryAcquire_def split: if_splits)
    have "int (length instances) < gc_maxInstances cfg" using c(1) by (simp add: wants_instance_def Let_def)
    then have grow: "\<exists>new. instances' = instances @ new \<and> length new \<le> 1
         \<and> (new \<noteq> [] \<longrightarrow> int (length instances') \<le> gc_maxInstances cfg)"
      unfolding e(3) by (cases r) simp_all
    have slots: "\<exists>l'. lmt' = Some l' \<and> live_slots l' = live_slots l"
      unfolding e(4) a using release_slot_same [OF assms(2) a(1)] by (simp add: release_slot_def)
    show ?thesis using e(1,2) a(2) c lt grow slots by simp
  qed
qed

definition demo_gate_config :: gate_config where
  "demo_gate_config = \<lparr> gc_minInstances = 0, gc_maxInstances = 2, gc_gatewayBackoffMs = 120000, gc_backoffMaxMs = 1800000 \<rparr>"

lemma scale_up_contract_witness:
  "\<exists>l'. fst (snd (scale_up refusing_osc demo_spawn_config demo_gate_config 1 [] (0, empty_scaler)
        (Some (new_limiter (Fin 1))))) = Some l' \<and> live_slots l' = {}"
proof -
  let ?x = "scale_up refusing_osc demo_spawn_config demo_gate_config 1 [] (0, empty_scaler) (Some (new_limiter (Fin 1)))"
  have e: "?x = ((fst (fst ?x), snd (fst ?x)), fst (snd ?x), fst (snd (snd ?x)), fst (snd (snd (snd ?x))),
      snd (snd (snd (snd ?x))))" by simp
  show ?thesis using scale_up_contract [OF e new_limiter_ok(1)] new_limiter_ok(2) [of "Fin 1"] by auto
qed

end
