(* ===== verification/Pool_Sweeps.thy ===== *)
theory Pool_Sweeps
  imports Spawn Scale_Down
begin

text \<open>
  The sweeps that keep the pool and the platform in step
  (\<^verbatim>\<open>src/src/encore-scaler/instance-pool.ts\<close>): \<^verbatim>\<open>resolvePendingSpawns\<close>, which finishes or
  gives up on a spawn that had not become ready; \<^verbatim>\<open>reapOrphanedInstances\<close>, which removes or
  adopts instances no pool knows; \<^verbatim>\<open>reconcilePoolFromOsc\<close>, which adopts the instances of a
  workspace at start-up. \<^verbatim>\<open>seen\<close> is the hash of first sightings, \<^verbatim>\<open>others\<close> the instances
  tracked by the pools of other workspaces, \<^verbatim>\<open>real\<close> the encoder's answer about its work.
\<close>

section \<open>Pending spawns\<close>

definition PENDING_LISTENER_CREATE_BACKOFF_BASE_MS :: int where "PENDING_LISTENER_CREATE_BACKOFF_BASE_MS = 30000"
definition PENDING_LISTENER_CREATE_BACKOFF_MAX_MS :: int where "PENDING_LISTENER_CREATE_BACKOFF_MAX_MS = 300000"

definition pendingListenerCreateBackoffMs :: "int \<Rightarrow> int" where
  "pendingListenerCreateBackoffMs attempt =
     (let n = max 1 attempt; factor = min (2 ^ nat (min (n - 1) 20)) 9007199254740991
      in min (PENDING_LISTENER_CREATE_BACKOFF_BASE_MS * factor) PENDING_LISTENER_CREATE_BACKOFF_MAX_MS)"

definition health_of :: "'o osc \<Rightarrow> service \<Rightarrow> string \<Rightarrow> 'o \<Rightarrow> 'o \<times> string option" where
  "health_of osc v i o0 = (let (o1, h) = os_health osc v i o0 in
     (o1, case h of Inr x \<Rightarrow> Some x | Inl e \<Rightarrow> None))"

text \<open>The listener a timed-out spawn never got to: the record afterwards.\<close>

definition complete_listener ::
  "'o osc \<Rightarrow> instance_record \<Rightarrow> 'o \<times> scaler \<Rightarrow> ('o \<times> scaler) \<times> osc_call list \<times> instance_record" where
  "complete_listener osc inst st =
     (let (o0, s) = st; now = os_now osc o0 in
      if i_listenerCreateBlockedAt inst \<noteq> None then (st, [], inst)
      else if (case i_listenerCreateNextAttemptAt inst of None \<Rightarrow> False | Some t \<Rightarrow> now < t) then (st, [], inst)
      else
        let (o1, t) = os_token osc Listener o0;
            (o2, calls, r) = (case t of
                Some err \<Rightarrow> (o1, [], Inl err)
              | None \<Rightarrow> createOrAdoptCallbackListener osc (i_instanceId inst) (i_url inst) o1 []);
            outcome = (case r of
                Inl err \<Rightarrow> Inl err
              | Inr li \<Rightarrow> (case instanceUrl (fst li) of None \<Rightarrow> Inl (unusable ''url'') | Some u \<Rightarrow> Inr u));
            attempts = coalesce (i_listenerCreateAttempts inst) 0 + 1;
            inst' = (case outcome of
                Inr u \<Rightarrow> inst\<lparr> i_listenerCreateAttempts := None, i_listenerCreateNextAttemptAt := None,
                    i_callbackListenerUrl := Some u \<rparr>
              | Inl err \<Rightarrow> if isTransientOscError err \<or> isNameAlreadyTakenError err
                  then inst\<lparr> i_listenerCreateAttempts := Some attempts,
                    i_listenerCreateNextAttemptAt := Some (now + pendingListenerCreateBackoffMs attempts) \<rparr>
                  else inst\<lparr> i_listenerCreateAttempts := Some attempts, i_listenerCreateBlockedAt := Some now \<rparr>)
        in ((o2, updateInstance inst' s), calls, inst'))"

datatype resolution = Promoted | StillPending | GaveUp | RemovalFailed | AlreadyGone

text \<open>The end of a pending spawn whose budget is spent.\<close>

definition give_up ::
  "'o osc \<Rightarrow> int \<Rightarrow> instance_record \<Rightarrow> 'o \<times> scaler \<Rightarrow> ('o \<times> scaler) \<times> osc_call list \<times> resolution" where
  "give_up osc graceMs inst st =
     (let (o0, s) = st; i = i_instanceId inst;
          waitedMs = os_now osc o0 - coalesce (i_pendingReadySince inst) 0
      in if waitedMs < graceMs then (st, [], StillPending)
         else if map_of (v_pool s) i = None then (st, [], AlreadyGone)
         else let ((o1, s1), calls, r) = osc_destroyInstance osc i (o0, s\<lparr> v_pool := AList.delete i (v_pool s) \<rparr>)
           in case r of
                None \<Rightarrow> ((o1, s1), calls, GaveUp)
              | Some err \<Rightarrow> ((o1, updateInstance inst s1), calls, RemovalFailed))"

definition resolve_one ::
  "'o osc \<Rightarrow> int \<Rightarrow> instance_record \<Rightarrow> 'o \<times> scaler \<Rightarrow> ('o \<times> scaler) \<times> osc_call list \<times> resolution" where
  "resolve_one osc graceMs inst st =
     (let (o0, s) = st; i = i_instanceId inst; (o1, health) = health_of osc Encore i o0 in
      if health \<noteq> Some ''running'' then give_up osc graceMs inst (o1, s)
      else
        let (st2, calls, inst') = (if truthy (i_callbackListenerUrl inst) then ((o1, s), [], inst)
              else complete_listener osc inst (o1, s))
        in if \<not> truthy (i_callbackListenerUrl inst')
           then (let (st3, c, r) = give_up osc graceMs inst' st2 in (st3, calls @ c, r))
           else
             let (o3, t) = os_token osc Listener (fst st2);
                 (o4, listenerHealth) = (case t of
                     Some err \<Rightarrow> (o3, None) | None \<Rightarrow> health_of osc Listener i o3)
             in if listenerHealth = Some ''running''
                then let now = os_now osc o4 in
                  ((o4, updateInstance (inst'\<lparr> i_pendingReadySince := None,
                      i_lastIdleAt := Some (StampNum (js_of_int now)),
                      i_readyAt := Some (StampNum (js_of_int now)) \<rparr>) (snd st2)), calls, Promoted)
                else (let (st3, c, r) = give_up osc graceMs inst' (o4, snd st2) in (st3, calls @ c, r)))"

fun resolve_loop ::
  "'o osc \<Rightarrow> int \<Rightarrow> instance_record list \<Rightarrow> 'o \<times> scaler
   \<Rightarrow> ('o \<times> scaler) \<times> osc_call list \<times> (string \<times> resolution) list" where
  "resolve_loop osc graceMs [] st = (st, [], [])"
| "resolve_loop osc graceMs (inst # rest) st =
     (let (st1, c1, r) = resolve_one osc graceMs inst st; (st2, c2, rs) = resolve_loop osc graceMs rest st1
      in (st2, c1 @ c2, (i_instanceId inst, r) # rs))"

definition resolvePendingSpawns ::
  "'o osc \<Rightarrow> int \<Rightarrow> 'o \<times> scaler \<Rightarrow> ('o \<times> scaler) \<times> osc_call list \<times> (string \<times> resolution) list" where
  "resolvePendingSpawns osc graceMs st =
     (let (o0, s) = st; pending = filter (\<lambda>i. i_pendingReadySince i \<noteq> None) (listInstances s) in
      if pending = [] then (st, [], [])
      else let (o1, t) = os_token osc Encore o0 in
        case t of Some err \<Rightarrow> ((o1, s), [], []) | None \<Rightarrow> resolve_loop osc graceMs pending (o1, s))"

section \<open>Orphans\<close>

record orphan_candidate =
  oc_encoreUrl :: "string option"
  oc_hasEncore :: bool
  oc_hasListener :: bool

definition DEFAULT_ORPHAN_GRACE_MS :: int where "DEFAULT_ORPHAN_GRACE_MS = 2700000"

definition consider_candidate ::
  "(string \<Rightarrow> string) \<Rightarrow> string \<Rightarrow> service \<Rightarrow> osc_instance \<Rightarrow> (string, orphan_candidate) jsmap
   \<Rightarrow> (string, orphan_candidate) jsmap" where
  "consider_candidate tag w v inst cs =
     (if \<not> truthy (on_name inst) then cs
      else let name = the (on_name inst) in
        if classifyInstanceOwnership tag w name \<noteq> Owned then cs
        else let c = coalesce (map_of cs name) \<lparr> oc_encoreUrl = None, oc_hasEncore = False, oc_hasListener = False \<rparr>
          in AList.update name (case v of
               Encore \<Rightarrow> c\<lparr> oc_hasEncore := True,
                 oc_encoreUrl := (if truthy (on_url inst) then on_url inst else oc_encoreUrl c) \<rparr>
             | Listener \<Rightarrow> c\<lparr> oc_hasListener := True \<rparr>) cs)"

definition orphan_candidates ::
  "(string \<Rightarrow> string) \<Rightarrow> string \<Rightarrow> osc_instance list \<Rightarrow> osc_instance list \<Rightarrow> (string, orphan_candidate) jsmap" where
  "orphan_candidates tag w encores listeners =
     List.fold (consider_candidate tag w Listener) listeners (List.fold (consider_candidate tag w Encore) encores [])"

datatype reap_decision = FirstSight | InGrace | NoUrl | StillRunning | AdoptBusy | Reap

text \<open>What is decided of one orphan; the platform is asked about its health only when the
  encoder itself does not answer.\<close>

definition reap_decide ::
  "'o osc \<Rightarrow> (string \<Rightarrow> active_state option) \<Rightarrow> int \<Rightarrow> int \<Rightarrow> string \<Rightarrow> orphan_candidate \<Rightarrow> int option
   \<Rightarrow> 'o \<times> scaler \<Rightarrow> 'o \<times> reap_decision" where
  "reap_decide osc real' graceMs now i c firstSeen st =
     (let (o0, s) = st in
      case firstSeen of
        None \<Rightarrow> (o0, FirstSight)
      | Some f \<Rightarrow>
          if now - f \<le> graceMs then (o0, InGrace)
          else if \<not> oc_hasEncore c then (o0, Reap)
          else if oc_encoreUrl c = None then (o0, NoUrl)
          else (case real' (the (oc_encoreUrl c)) of
                  None \<Rightarrow>
                    (let (o1, t) = os_token osc Encore o0;
                         (o2, health) = (case t of Some err \<Rightarrow> (o1, None) | None \<Rightarrow> health_of osc Encore i o1)
                     in (o2, if health = Some ''running'' then StillRunning else Reap))
                | Some active \<Rightarrow>
                    (o0, if 0 < ac_count active \<or> hasPendingPackaging i s then AdoptBusy else Reap)))"

definition reap_one ::
  "'o osc \<Rightarrow> (string \<Rightarrow> active_state option) \<Rightarrow> int \<Rightarrow> int \<Rightarrow> string \<times> orphan_candidate
   \<Rightarrow> ('o \<times> scaler) \<times> (string, int) jsmap \<Rightarrow> (('o \<times> scaler) \<times> (string, int) jsmap) \<times> osc_call list \<times> bool" where
  "reap_one osc real' graceMs now entry x =
     (let (i, c) = entry; ((o0, s), seen) = x;
          (o1, decision) = reap_decide osc real' graceMs now i c (map_of seen i) (o0, s)
      in case decision of
           FirstSight \<Rightarrow> (((o1, s), AList.update i now seen), [], False)
         | AdoptBusy \<Rightarrow>
             (((o1, updateInstance ((fresh_instance i (the (oc_encoreUrl c)) None now)\<lparr>
                  i_activeJobs := ac_count (the (real' (the (oc_encoreUrl c)))),
                  i_readyAt := Some (StampNum (js_of_int now)) \<rparr>) s), AList.delete i seen), [], False)
         | Reap \<Rightarrow>
             (let (st', calls, r) = osc_destroyInstance osc i (o1, s) in
              case r of None \<Rightarrow> ((st', AList.delete i seen), calls, True) | Some err \<Rightarrow> ((st', seen), calls, False))
         | _ \<Rightarrow> (((o1, s), seen), [], False))"

fun reap_loop ::
  "'o osc \<Rightarrow> (string \<Rightarrow> active_state option) \<Rightarrow> int \<Rightarrow> int \<Rightarrow> (string \<times> orphan_candidate) list
   \<Rightarrow> ('o \<times> scaler) \<times> (string, int) jsmap
   \<Rightarrow> (('o \<times> scaler) \<times> (string, int) jsmap) \<times> osc_call list \<times> string list" where
  "reap_loop osc real' graceMs now [] x = (x, [], [])"
| "reap_loop osc real' graceMs now (e # es) x =
     (let (x1, c1, reaped) = reap_one osc real' graceMs now e x; (x2, c2, rs) = reap_loop osc real' graceMs now es x1
      in (x2, c1 @ c2, (if reaped then [fst e] else []) @ rs))"

text \<open>The sweep: the listing of the encoders must succeed, the one of the listeners need not.\<close>

definition reapOrphanedInstances ::
  "'o osc \<Rightarrow> (string \<Rightarrow> string) \<Rightarrow> string \<Rightarrow> (string \<Rightarrow> active_state option) \<Rightarrow> string list \<Rightarrow> int
   \<Rightarrow> ('o \<times> scaler) \<times> (string, int) jsmap
   \<Rightarrow> (('o \<times> scaler) \<times> (string, int) jsmap) \<times> osc_call list \<times> string list" where
  "reapOrphanedInstances osc tag w real' others graceMs x =
     (let ((o0, s), seen) = x; (o1, t) = os_token osc Encore o0 in
      case t of
        Some err \<Rightarrow> (((o1, s), seen), [], [])
      | None \<Rightarrow>
          (let (o2, encores) = os_list osc Encore o1 in
           case encores of
             None \<Rightarrow> (((o2, s), seen), [], [])
           | Some es \<Rightarrow>
               let (o3, t') = os_token osc Listener o2;
                   (o4, listeners) = (case t' of Some err \<Rightarrow> (o3, None) | None \<Rightarrow> os_list osc Listener o3);
                   candidates = orphan_candidates tag w es (coalesce listeners []);
                   orphans = filter (\<lambda>(i, c). i \<notin> set (keys (v_pool s)) \<and> i \<notin> set others) candidates;
                   seen' = filter (\<lambda>(i, f). i \<in> set (keys orphans)) seen
               in reap_loop osc real' graceMs (os_now osc o4) orphans ((o4, s), seen')))"

section \<open>Start-up\<close>

fun adopt_loop :: "int \<Rightarrow> string list \<Rightarrow> osc_instance list \<Rightarrow> scaler \<Rightarrow> scaler \<times> nat" where
  "adopt_loop now existing [] s = (s, 0)"
| "adopt_loop now existing (inst # rest) s =
     (case (instanceName inst, instanceUrl inst) of
        (Some i, Some url) \<Rightarrow>
          if i \<in> set existing then adopt_loop now existing rest s
          else (let (s', n) = adopt_loop now existing rest (updateInstance ((fresh_instance i url None now)\<lparr>
                  i_readyAt := Some (StampNum (js_of_int now)) \<rparr>) s)
                in (s', Suc n))
      | _ \<Rightarrow> adopt_loop now existing rest s)"

definition reconcilePoolFromOsc ::
  "'o osc \<Rightarrow> (string \<Rightarrow> string) \<Rightarrow> string \<Rightarrow> 'o \<times> scaler \<Rightarrow> ('o \<times> scaler) \<times> (osc_error + nat)" where
  "reconcilePoolFromOsc osc tag w st =
     (let (o0, s) = st; (o1, t) = os_token osc Encore o0 in
      case t of
        Some err \<Rightarrow> ((o1, s), Inl err)
      | None \<Rightarrow>
          (let (o2, listed) = os_list osc Encore o1 in
           case listed of
             None \<Rightarrow> ((o2, s), Inr 0)
           | Some all_instances \<Rightarrow>
               let ours = filter (\<lambda>i. case on_name i of None \<Rightarrow> False
                     | Some n \<Rightarrow> classifyInstanceOwnership tag w n \<noteq> Foreign) all_instances;
                   (s', n) = adopt_loop (os_now osc o2) (List.map i_instanceId (listInstances s)) ours s
               in ((o2, s'), Inr n)))"

section \<open>One pending spawn\<close>

lemma destroy_spec:
  assumes "osc_destroyInstance osc i (o0, s) = ((o1, s1), calls, r)"
  shows "(r = None \<and> s1 = s\<lparr> v_pool := AList.delete i (v_pool s), l_destroyed := l_destroyed s @ [i] \<rparr>
      \<and> Remove Encore i \<in> set calls \<or> r \<noteq> None \<and> s1 = s)"
    "\<forall>c\<in>set calls. c = Remove Encore i \<or> c = Remove Listener i"
proof -
  obtain a t where t: "os_token osc Encore o0 = (a, t)" by (cases "os_token osc Encore o0")
  obtain b q where q: "os_remove osc Encore i a = (b, q)" by (cases "os_remove osc Encore i a")
  obtain c t' where t': "os_token osc Listener b = (c, t')" by (cases "os_token osc Listener b")
  show "(r = None \<and> s1 = s\<lparr> v_pool := AList.delete i (v_pool s), l_destroyed := l_destroyed s @ [i] \<rparr>
      \<and> Remove Encore i \<in> set calls \<or> r \<noteq> None \<and> s1 = s)"
    "\<forall>c\<in>set calls. c = Remove Encore i \<or> c = Remove Listener i"
    using assms t q t' by (auto simp: osc_destroyInstance_def Let_def split: option.splits if_splits)
qed

definition healthy :: "'o osc \<Rightarrow> string \<Rightarrow> bool" where
  "healthy osc i = ((\<exists>x y. os_health osc Encore i x = (y, Inr ''running''))
     \<and> (\<exists>x y. os_health osc Listener i x = (y, Inr ''running'')))"

text \<open>What may become of a pending record: \<^verbatim>\<open>e\<close> is its pool entry afterwards.\<close>

definition resolved ::
  "'o osc \<Rightarrow> int \<Rightarrow> instance_record \<Rightarrow> pool_entry option \<Rightarrow> osc_call list \<Rightarrow> bool" where
  "resolved osc graceMs inst e calls = (let i = i_instanceId inst in case e of
       None \<Rightarrow> Remove Encore i \<in> set calls
         \<and> (\<exists>x. graceMs \<le> os_now osc x - coalesce (i_pendingReadySince inst) 0)
     | Some p \<Rightarrow> (\<exists>rec. p = Instance rec \<and> i_instanceId rec = i
         \<and> (i_pendingReadySince rec = i_pendingReadySince inst
            \<or> i_pendingReadySince rec = None \<and> truthy (i_callbackListenerUrl rec) \<and> i_readyAt rec \<noteq> None
              \<and> healthy osc i)))"

lemma pool_update [simp]:
  "map_of (v_pool (updateInstance r s)) k = (if k = i_instanceId r then Some (Instance r) else map_of (v_pool s) k)"
  by (simp add: updateInstance_def update_conv)

lemma give_up_spec:
  assumes "give_up osc g inst (o0, s) = ((o1, s1), calls, r)" "map_of (v_pool s) (i_instanceId inst) = Some (Instance inst')"
    "i_pendingReadySince inst' = i_pendingReadySince inst" "i_instanceId inst' = i_instanceId inst"
  shows "resolved osc g inst (map_of (v_pool s1) (i_instanceId inst)) calls"
    "k \<noteq> i_instanceId inst \<Longrightarrow> map_of (v_pool s1) k = map_of (v_pool s) k"
proof -
  let ?i = "i_instanceId inst"
  let ?s0 = "s\<lparr> v_pool := AList.delete ?i (v_pool s) \<rparr>"
  obtain a s2 c q where d: "osc_destroyInstance osc ?i (o0, ?s0) = ((a, s2), c, q)"
    by (cases "osc_destroyInstance osc ?i (o0, ?s0)") auto
  note ds = destroy_spec(1) [OF d]
  have "resolved osc g inst (map_of (v_pool s1) ?i) calls \<and> (k \<noteq> ?i \<longrightarrow> map_of (v_pool s1) k = map_of (v_pool s) k)" for k
  proof (cases "os_now osc o0 - coalesce (i_pendingReadySince inst) 0 < g")
    case True
    then show ?thesis using assms by (simp add: give_up_def Let_def resolved_def)
  next
    case False
    then have e: "((o1, s1), calls, r) = (case q of None \<Rightarrow> ((a, s2), c, GaveUp)
        | Some err \<Rightarrow> ((a, updateInstance inst s2), c, RemovalFailed))"
      using assms(1,2) d by (simp add: give_up_def Let_def)
    have gr: "\<exists>x. g \<le> os_now osc x - coalesce (i_pendingReadySince inst) 0"
      using False by (intro exI [of _ o0]) simp
    show ?thesis
    proof (cases q)
      case None
      then show ?thesis using ds e gr by (simp add: resolved_def delete_conv)
    next
      case (Some err)
      then show ?thesis using ds e by (simp add: resolved_def delete_conv)
    qed
  qed
  then show "resolved osc g inst (map_of (v_pool s1) ?i) calls"
    "k \<noteq> ?i \<Longrightarrow> map_of (v_pool s1) k = map_of (v_pool s) k" by blast+
qed

lemma resolved_more: "resolved osc g inst e calls \<Longrightarrow> set calls \<subseteq> set calls' \<Longrightarrow> resolved osc g inst e calls'"
  by (auto simp: resolved_def Let_def split: option.splits)

lemma resolved_same_since:
  "i_pendingReadySince a = i_pendingReadySince b \<Longrightarrow> i_instanceId a = i_instanceId b \<Longrightarrow>
     resolved osc g a e calls = resolved osc g b e calls"
  unfolding resolved_def Let_def by (simp split: option.splits)

lemma complete_listener_spec:
  assumes "complete_listener osc inst (o0, s) = ((o1, s1), calls, inst')"
  shows "i_instanceId inst' = i_instanceId inst" "i_pendingReadySince inst' = i_pendingReadySince inst"
    "s1 = s \<and> inst' = inst \<or> s1 = updateInstance inst' s"
proof -
  obtain a t where t: "os_token osc Listener o0 = (a, t)" by (cases "os_token osc Listener o0")
  show "i_instanceId inst' = i_instanceId inst" "i_pendingReadySince inst' = i_pendingReadySince inst"
    "s1 = s \<and> inst' = inst \<or> s1 = updateInstance inst' s"
    using assms t by (auto simp: complete_listener_def Let_def split: if_splits option.splits sum.splits prod.splits)
qed

lemma health_of_running:
  "health_of osc v i o0 = (o1, Some ''running'') \<Longrightarrow> os_health osc v i o0 = (o1, Inr ''running'')"
  by (auto simp: health_of_def Let_def split: sum.splits prod.splits)

lemma resolve_one_spec:
  assumes "resolve_one osc g inst (o0, s) = ((o1, s1), calls, r)"
    "map_of (v_pool s) (i_instanceId inst) = Some (Instance inst)"
  shows "resolved osc g inst (map_of (v_pool s1) (i_instanceId inst)) calls
    \<and> (k \<noteq> i_instanceId inst \<longrightarrow> map_of (v_pool s1) k = map_of (v_pool s) k)"
proof -
  let ?i = "i_instanceId inst"
  obtain a h where h: "health_of osc Encore ?i o0 = (a, h)" by (cases "health_of osc Encore ?i o0")
  show ?thesis
  proof (cases "h = Some ''running''")
    case False
    then have "give_up osc g inst (a, s) = ((o1, s1), calls, r)" using assms(1) h by (simp add: resolve_one_def Let_def)
    from give_up_spec [OF this assms(2)] show ?thesis by simp
  next
    case True
    obtain b s2 c inst' where cl: "(if truthy (i_callbackListenerUrl inst) then ((a, s), [], inst)
        else complete_listener osc inst (a, s)) = ((b, s2), c, inst')"
      by (cases "if truthy (i_callbackListenerUrl inst) then ((a, s), [], inst) else complete_listener osc inst (a, s)") auto
    have same: "i_instanceId inst' = ?i" "i_pendingReadySince inst' = i_pendingReadySince inst"
      "s2 = s \<and> inst' = inst \<or> s2 = updateInstance inst' s"
      using cl complete_listener_spec [of osc inst a s b s2 c inst'] by (auto split: if_splits)
    have p2: "map_of (v_pool s2) ?i = Some (Instance inst')" "k \<noteq> ?i \<Longrightarrow> map_of (v_pool s2) k = map_of (v_pool s) k" for k
      using same assms(2) by auto
    note d = assms(1) [unfolded resolve_one_def Let_def prod.case h cl]
    have gives: ?thesis if "give_up osc g inst' (z, s2) = ((o1, s1), c', r)" "calls = c @ c'" for z c'
    proof -
      have "resolved osc g inst' (map_of (v_pool s1) ?i) c'" "k \<noteq> ?i \<Longrightarrow> map_of (v_pool s1) k = map_of (v_pool s2) k" for k
        using give_up_spec [OF that(1), of inst'] p2 same by simp_all
      then show ?thesis using p2(2) that(2) resolved_same_since [OF same(2,1)] resolved_more [of osc g inst _ c' calls]
        by (metis Un_upper2 set_append)
    qed
    show ?thesis
    proof (cases "truthy (i_callbackListenerUrl inst')")
      case False
      obtain st3 c' r' where gu: "give_up osc g inst' (b, s2) = (st3, c', r')" by (cases "give_up osc g inst' (b, s2)")
      show ?thesis by (rule gives [of b c']) (use d True False gu in auto)
    next
      case tr: True
      obtain e t where t: "os_token osc Listener b = (e, t)" by (cases "os_token osc Listener b")
      obtain z lh where lh: "(case t of Some err \<Rightarrow> (e, None) | None \<Rightarrow> health_of osc Listener ?i e) = (z, lh)"
        by (cases "case t of Some err \<Rightarrow> (e, None) | None \<Rightarrow> health_of osc Listener ?i e")
      show ?thesis
      proof (cases "lh = Some ''running''")
        case False
        obtain st3 c' r' where gu: "give_up osc g inst' (z, s2) = (st3, c', r')" by (cases "give_up osc g inst' (z, s2)")
        show ?thesis by (rule gives [of z c']) (use d True tr t lh False gu in \<open>auto simp: Let_def\<close>)
      next
        case lrun: True
        then have "healthy osc ?i"
          using health_of_running [of osc Encore ?i o0 a] health_of_running [of osc Listener ?i e z] h True lh
          unfolding healthy_def by (cases t) auto
        moreover have "s1 = updateInstance (inst'\<lparr> i_pendingReadySince := None,
            i_lastIdleAt := Some (StampNum (js_of_int (os_now osc z))),
            i_readyAt := Some (StampNum (js_of_int (os_now osc z))) \<rparr>) s2"
          using d True tr t lh lrun by (auto simp: Let_def)
        ultimately show ?thesis using tr same(1) p2(2) by (simp add: resolved_def Let_def)
      qed
    qed
  qed
qed

lemma resolve_loop_spec:
  "resolve_loop osc g insts (o0, s) = ((o1, s1), calls, rs) \<Longrightarrow> distinct (List.map i_instanceId insts) \<Longrightarrow>
   \<forall>inst\<in>set insts. map_of (v_pool s) (i_instanceId inst) = Some (Instance inst) \<Longrightarrow>
   (\<forall>inst\<in>set insts. resolved osc g inst (map_of (v_pool s1) (i_instanceId inst)) calls)
   \<and> (\<forall>k. k \<notin> i_instanceId ` set insts \<longrightarrow> map_of (v_pool s1) k = map_of (v_pool s) k)"
proof (induction insts arbitrary: o0 s o1 s1 calls rs)
  case (Cons inst rest)
  obtain a s2 c r where one: "resolve_one osc g inst (o0, s) = ((a, s2), c, r)"
    by (cases "resolve_one osc g inst (o0, s)") auto
  obtain c' rs' where l: "resolve_loop osc g rest (a, s2) = ((o1, s1), c', rs')" "calls = c @ c'"
    using Cons.prems(1) one by (auto simp: Let_def split: prod.splits)
  have p: "map_of (v_pool s) (i_instanceId inst) = Some (Instance inst)" using Cons.prems(3) by simp
  note o = resolve_one_spec [OF one p]
  have "\<forall>x\<in>set rest. map_of (v_pool s2) (i_instanceId x) = Some (Instance x)"
  proof
    fix x assume x: "x \<in> set rest"
    then have "i_instanceId x \<in> i_instanceId ` set rest" by (rule imageI)
    then have "i_instanceId x \<noteq> i_instanceId inst" using Cons.prems(2) by auto
    then show "map_of (v_pool s2) (i_instanceId x) = Some (Instance x)" using o x Cons.prems(3) by simp
  qed
  from Cons.IH [OF l(1) _ this] Cons.prems(2)
  have ih: "\<forall>x\<in>set rest. resolved osc g x (map_of (v_pool s1) (i_instanceId x)) c'"
    "\<forall>k. k \<notin> i_instanceId ` set rest \<longrightarrow> map_of (v_pool s1) k = map_of (v_pool s2) k" by simp_all
  have "map_of (v_pool s1) (i_instanceId inst) = map_of (v_pool s2) (i_instanceId inst)"
    using ih(2) Cons.prems(2) by auto
  moreover have "resolved osc g inst (map_of (v_pool s2) (i_instanceId inst)) calls"
    using o [of "i_instanceId inst"] resolved_more [of osc g inst _ c calls] l(2) by auto
  moreover have "\<forall>x\<in>set rest. resolved osc g x (map_of (v_pool s1) (i_instanceId x)) calls"
    using ih(1) resolved_more [of osc g _ _ c' calls] l(2) by auto
  ultimately show ?case using ih(2) o by simp
qed simp

lemma pool_records_ids:
  "\<forall>(k, p)\<in>set m. \<forall>r. p = Instance r \<longrightarrow> i_instanceId r = k \<Longrightarrow> distinct (List.map fst m) \<Longrightarrow>
     distinct (List.map i_instanceId (pool_records m))
     \<and> (\<forall>r\<in>set (pool_records m). map_of m (i_instanceId r) = Some (Instance r))
     \<and> i_instanceId ` set (pool_records m) \<subseteq> set (List.map fst m)"
proof (induction m rule: pool_records.induct)
  case (2 k i p)
  then have k: "i_instanceId i = k" "k \<notin> fst ` set p" by auto
  have ih: "distinct (List.map i_instanceId (pool_records p))"
    "\<forall>r\<in>set (pool_records p). map_of p (i_instanceId r) = Some (Instance r)"
    "i_instanceId ` set (pool_records p) \<subseteq> fst ` set p" using 2 by auto
  then have fresh: "k \<notin> i_instanceId ` set (pool_records p)" using k(2) by blast
  then have "\<forall>r\<in>set (pool_records p). i_instanceId r \<noteq> k" by auto
  then show ?case using ih k fresh by (auto simp: image_subset_iff)
next
  case (3 k t p)
  then have k: "k \<notin> fst ` set p" by auto
  have ih: "distinct (List.map i_instanceId (pool_records p))"
    "\<forall>r\<in>set (pool_records p). map_of p (i_instanceId r) = Some (Instance r)"
    "i_instanceId ` set (pool_records p) \<subseteq> fst ` set p" using 3 by auto
  then have "\<forall>r\<in>set (pool_records p). i_instanceId r \<noteq> k" using k by auto
  then show ?case using ih by auto
qed simp

section \<open>Properties\<close>

text \<open>The sweep over pending spawns accounts for every instance. On a pool whose records
  sit under their own ids, the record of an instance that is not pending is left as it is; a
  pending instance leaves the pool only if its encoder was removed on the platform and its
  budget was spent; otherwise it still has a record, either still pending since the same
  time, or no longer pending, with a listener, and both halves were reported running.\<close>

theorem pending_spawns_accounted:
  assumes "resolvePendingSpawns osc g (o0, s) = ((o1, s1), calls, rs)"
    and keyed: "\<forall>(k, p)\<in>set (v_pool s). \<forall>r. p = Instance r \<longrightarrow> i_instanceId r = k" "distinct (List.map fst (v_pool s))"
    and "map_of (v_pool s) k = Some e"
  shows "map_of (v_pool s1) k = Some e
    \<or> (\<exists>inst. e = Instance inst \<and> i_pendingReadySince inst \<noteq> None
       \<and> (map_of (v_pool s1) k = None \<and> Remove Encore k \<in> set calls
            \<and> (\<exists>x. g \<le> os_now osc x - the (i_pendingReadySince inst))
          \<or> (\<exists>rec. map_of (v_pool s1) k = Some (Instance rec)
              \<and> (i_pendingReadySince rec = i_pendingReadySince inst
                 \<or> i_pendingReadySince rec = None \<and> truthy (i_callbackListenerUrl rec) \<and> i_readyAt rec \<noteq> None
                   \<and> (\<exists>x y. os_health osc Encore k x = (y, Inr ''running''))
                   \<and> (\<exists>x y. os_health osc Listener k x = (y, Inr ''running''))))))"
proof -
  let ?p = "filter (\<lambda>i. i_pendingReadySince i \<noteq> None) (listInstances s)"
  note ids = pool_records_ids [OF keyed]
  obtain a t where t: "os_token osc Encore o0 = (a, t)" by (cases "os_token osc Encore o0")
  show ?thesis
  proof (cases "?p = [] \<or> t \<noteq> None")
    case True
    then have "s1 = s" using assms(1) t by (auto simp: resolvePendingSpawns_def Let_def split: if_splits)
    then show ?thesis using assms(4) by simp
  next
    case False
    then have l: "resolve_loop osc g ?p (a, s) = ((o1, s1), calls, rs)"
      using assms(1) t by (simp add: resolvePendingSpawns_def Let_def)
    have d: "distinct (List.map i_instanceId ?p)" using ids
      by (simp add: listInstances_def distinct_map inj_on_def)
    have m: "\<forall>inst\<in>set ?p. map_of (v_pool s) (i_instanceId inst) = Some (Instance inst)"
      using ids by (simp add: listInstances_def)
    note r = resolve_loop_spec [OF l d m]
    show ?thesis
    proof (cases "k \<in> i_instanceId ` set ?p")
      case False
      then show ?thesis using r assms(4) by auto
    next
      case True
      then obtain inst where i: "inst \<in> set ?p" "k = i_instanceId inst" by blast
      then have e: "e = Instance inst" "i_pendingReadySince inst \<noteq> None" using m assms(4) by auto
      then obtain since where since: "i_pendingReadySince inst = Some since" by blast
      have "resolved osc g inst (map_of (v_pool s1) k) calls" using r i by blast
      then show ?thesis using e since
        by (cases "map_of (v_pool s1) k") (auto simp: resolved_def Let_def i(2) [symmetric] healthy_def)
    qed
  qed
qed


definition demo_pending :: instance_record where
  "demo_pending = (fresh_instance ''a'' ''https://e'' (Some ''https://l'') 0)\<lparr> i_pendingReadySince := Some 0 \<rparr>"

lemma pending_spawns_accounted_witness:
  "\<exists>rec. map_of (v_pool (snd (fst (resolvePendingSpawns refusing_osc 500 (1000, updateInstance demo_pending empty_scaler))))) ''a''
       = Some (Instance rec)
     \<and> i_pendingReadySince rec = None \<and> truthy (i_callbackListenerUrl rec) \<and> i_readyAt rec \<noteq> None"
proof -
  let ?s = "updateInstance demo_pending empty_scaler"
  let ?r = "resolvePendingSpawns refusing_osc 500 (1000, ?s)"
  have inst: "i_instanceId demo_pending = ''a''" "i_pendingReadySince demo_pending = Some 0"
    by (simp_all add: demo_pending_def fresh_instance_def)
  have keyed: "\<forall>(k, p)\<in>set (v_pool ?s). \<forall>r. p = Instance r \<longrightarrow> i_instanceId r = k" "distinct (List.map fst (v_pool ?s))"
    by (simp_all add: updateInstance_def empty_scaler_def inst)
  have m: "map_of (v_pool ?s) ''a'' = Some (Instance demo_pending)" using inst by simp
  have e: "?r = ((fst (fst ?r), snd (fst ?r)), fst (snd ?r), snd (snd ?r))" by simp
  have c: "fst (snd ?r) = []" by code_simp
  have p: "(case map_of (v_pool (snd (fst ?r))) ''a'' of Some (Instance i) \<Rightarrow> i_pendingReadySince i | _ \<Rightarrow> Some 1) = None"
    by code_simp
  from pending_spawns_accounted [OF e keyed m] p inst(2) c show ?thesis
    by (auto split: option.splits pool_entry.splits)
qed

section \<open>The reaper\<close>

text \<open>What stands for ``no work'' on an orphan: it has no encoder; or the encoder answered
  that it runs nothing and nothing is to be packaged from it; or the encoder did not answer
  and the platform did not report it running.\<close>

definition idle_orphan ::
  "'o osc \<Rightarrow> (string \<Rightarrow> active_state option) \<Rightarrow> scaler \<Rightarrow> string \<Rightarrow> orphan_candidate \<Rightarrow> bool" where
  "idle_orphan osc real' s i c = (\<not> oc_hasEncore c \<or> (\<exists>u. oc_encoreUrl c = Some u \<and> (case real' u of
       Some a \<Rightarrow> ac_count a \<le> 0 \<and> \<not> hasPendingPackaging i s
     | None \<Rightarrow> (\<exists>x y e. os_token osc Encore x = (y, Some e)) \<or> (\<exists>x y h. os_health osc Encore i x = (y, h) \<and> h \<noteq> Inr ''running''))))"

lemma reap_decide_reap:
  assumes "reap_decide osc real' g now i c f (o0, s) = (o1, Reap)"
  shows "\<exists>t. f = Some t \<and> g < now - t" "idle_orphan osc real' s i c"
proof -
  obtain a t where t: "os_token osc Encore o0 = (a, t)" by (cases "os_token osc Encore o0")
  obtain b h where h: "os_health osc Encore i a = (b, h)" by (cases "os_health osc Encore i a")
  note d = assms [unfolded reap_decide_def Let_def prod.case t]
  show "\<exists>t. f = Some t \<and> g < now - t" using d by (auto split: option.splits if_splits)
  show "idle_orphan osc real' s i c"
  proof (cases "oc_hasEncore c")
    case True
    then obtain u where u: "oc_encoreUrl c = Some u" using d by (auto split: option.splits if_splits)
    show ?thesis
    proof (cases "real' u")
      case (Some a)
      then show ?thesis using d u True by (auto simp: idle_orphan_def split: option.splits if_splits)
    next
      case None
      show ?thesis
      proof (cases t)
        case None': None
        then have "h \<noteq> Inr ''running''" using d u True None h
          by (auto simp: health_of_def split: option.splits if_splits sum.splits)
        then show ?thesis using None u h unfolding idle_orphan_def by auto
      next
        case (Some e)
        then show ?thesis using None u t unfolding idle_orphan_def by auto
      qed
    qed
  qed (simp add: idle_orphan_def)
qed

lemma reap_one_spec:
  assumes "reap_one osc real' g now (i, c) ((o0, s), seen) = (((o1, s1), seen1), calls, reaped)"
  shows "Remove Encore k \<in> set calls \<Longrightarrow> k = i \<and> (\<exists>f. map_of seen i = Some f \<and> g < now - f) \<and> idle_orphan osc real' s i c"
    "reaped \<Longrightarrow> Remove Encore i \<in> set calls"
    "k \<noteq> i \<Longrightarrow> map_of (v_pool s1) k = map_of (v_pool s) k \<and> map_of seen1 k = map_of seen k"
    "v_pendingPackaging s1 = v_pendingPackaging s"
proof -
  obtain a d where d: "reap_decide osc real' g now i c (map_of seen i) (o0, s) = (a, d)"
    by (cases "reap_decide osc real' g now i c (map_of seen i) (o0, s)")
  obtain b s2 cs q where x: "osc_destroyInstance osc i (a, s) = ((b, s2), cs, q)"
    by (cases "osc_destroyInstance osc i (a, s)") auto
  note e = assms [unfolded reap_one_def Let_def prod.case d x]
  note ds = destroy_spec [OF x]
  have r: "d = Reap \<Longrightarrow> (\<exists>f. map_of seen i = Some f \<and> g < now - f) \<and> idle_orphan osc real' s i c"
    using reap_decide_reap [of osc real' g now i c "map_of seen i" o0 s a] d by simp
  have all_of: "(Remove Encore k \<in> set calls \<longrightarrow> k = i \<and> d = Reap) \<and> (reaped \<longrightarrow> Remove Encore i \<in> set calls)
    \<and> (k \<noteq> i \<longrightarrow> map_of (v_pool s1) k = map_of (v_pool s) k \<and> map_of seen1 k = map_of seen k)
    \<and> v_pendingPackaging s1 = v_pendingPackaging s" for k
  proof (cases d)
    case Reap
    then show ?thesis
    proof (cases q)
      case None
      with Reap e have "s1 = s2" "seen1 = AList.delete i seen" "calls = cs" "reaped" by auto
      then show ?thesis using ds None Reap by (auto simp: delete_conv)
    next
      case (Some err)
      with Reap e have "s1 = s2" "seen1 = seen" "calls = cs" "\<not> reaped" by auto
      then show ?thesis using ds Some Reap by auto
    qed
  next
    case AdoptBusy
    then obtain r0 where r0: "s1 = updateInstance r0 s" "i_instanceId r0 = i" "seen1 = AList.delete i seen" "calls = []" "\<not> reaped"
      using e by (auto simp: fresh_instance_def)
    then show ?thesis by (simp add: delete_conv)
  next
    case FirstSight
    then show ?thesis using e by (auto simp: update_conv)
  qed (use e in auto)
  show "Remove Encore k \<in> set calls \<Longrightarrow> k = i \<and> (\<exists>f. map_of seen i = Some f \<and> g < now - f) \<and> idle_orphan osc real' s i c"
    using all_of [of k] r by blast
  show "reaped \<Longrightarrow> Remove Encore i \<in> set calls"
    "k \<noteq> i \<Longrightarrow> map_of (v_pool s1) k = map_of (v_pool s) k \<and> map_of seen1 k = map_of seen k"
    "v_pendingPackaging s1 = v_pendingPackaging s" using all_of [of k] by blast+
qed

lemma idle_orphan_pins: "v_pendingPackaging s1 = v_pendingPackaging s \<Longrightarrow> idle_orphan osc f s1 i c = idle_orphan osc f s i c"
  unfolding idle_orphan_def hasPendingPackaging_def by (cases "oc_encoreUrl c") (simp_all split: option.splits)

lemma reap_loop_spec:
  "reap_loop osc real' g now es ((o0, s), seen) = (((o1, s1), seen1), calls, reaped) \<Longrightarrow> distinct (List.map fst es) \<Longrightarrow>
   (\<forall>k. Remove Encore k \<in> set calls \<longrightarrow> (\<exists>c f. (k, c) \<in> set es \<and> map_of seen k = Some f \<and> g < now - f
       \<and> idle_orphan osc real' s k c))
   \<and> (\<forall>k\<in>set reaped. Remove Encore k \<in> set calls)
   \<and> (\<forall>k. k \<notin> fst ` set es \<longrightarrow> map_of (v_pool s1) k = map_of (v_pool s) k)"
proof (induction es arbitrary: o0 s seen o1 s1 seen1 calls reaped)
  case (Cons e es)
  obtain i c where e: "e = (i, c)" by (cases e)
  obtain a s2 seen2 c1 r where one: "reap_one osc real' g now (i, c) ((o0, s), seen) = (((a, s2), seen2), c1, r)"
    by (cases "reap_one osc real' g now (i, c) ((o0, s), seen)") auto
  obtain c2 rs where l: "reap_loop osc real' g now es ((a, s2), seen2) = (((o1, s1), seen1), c2, rs)"
    "calls = c1 @ c2" "reaped = (if r then [i] else []) @ rs"
    using Cons.prems(1) one e by (auto simp: Let_def split: prod.splits)
  note o = reap_one_spec [OF one]
  have i: "i \<notin> fst ` set es" using Cons.prems(2) e by simp
  note ih = Cons.IH [OF l(1)]
  have d: "distinct (List.map fst es)" using Cons.prems(2) by simp
  have removed: "\<exists>c f. (k, c) \<in> set (e # es) \<and> map_of seen k = Some f \<and> g < now - f \<and> idle_orphan osc real' s k c"
    if "Remove Encore k \<in> set calls" for k
  proof (cases "Remove Encore k \<in> set c1")
    case True
    then show ?thesis using o(1) [OF True] e by (intro exI [of _ c]) auto
  next
    case False
    then have "Remove Encore k \<in> set c2" using that l(2) by simp
    then obtain c f where k: "(k, c) \<in> set es" "map_of seen2 k = Some f" "g < now - f" "idle_orphan osc real' s2 k c"
      using ih [OF d] by blast
    then have "k \<noteq> i" using i by (metis fst_conv image_eqI)
    moreover have "idle_orphan osc real' s k c" using k(4) idle_orphan_pins [OF o(4)] by blast
    ultimately show ?thesis using k(1-3) o(3) [of k] by (intro exI [of _ c]) auto
  qed
  have "\<forall>k\<in>set reaped. Remove Encore k \<in> set calls" using o(2) ih [OF d] l(2,3) by auto
  moreover have "\<forall>k. k \<notin> fst ` set (e # es) \<longrightarrow> map_of (v_pool s1) k = map_of (v_pool s) k"
    using ih [OF d] o(3) e by simp
  ultimately show ?case using removed by blast
qed simp

lemma map_of_filter_keys: "k \<in> A \<Longrightarrow> map_of (filter (\<lambda>(i, f). i \<in> A) m) k = map_of m k"
  by (induction m) auto

lemma consider_candidate_inv:
  assumes "distinct (List.map fst cs) \<and> (\<forall>k\<in>fst ` set cs. classifyInstanceOwnership tag w k = Owned)"
  shows "distinct (List.map fst (consider_candidate tag w v x cs))
    \<and> (\<forall>k\<in>fst ` set (consider_candidate tag w v x cs). classifyInstanceOwnership tag w k = Owned)"
proof -
  have upd: "distinct (List.map fst (AList.update k y cs)) \<and>
      (\<forall>k'\<in>fst ` set (AList.update k y cs). classifyInstanceOwnership tag w k' = Owned)"
    if "classifyInstanceOwnership tag w k = Owned" for k y
    using assms that by (simp add: distinct_update dom_update)
  show ?thesis using assms upd by (simp add: consider_candidate_def Let_def split: service.split)
qed

lemma orphan_candidates_inv:
  "distinct (List.map fst (orphan_candidates tag w es ls))
   \<and> (\<forall>k\<in>fst ` set (orphan_candidates tag w es ls). classifyInstanceOwnership tag w k = Owned)"
proof -
  have f: "distinct (List.map fst cs) \<and> (\<forall>k\<in>fst ` set cs. classifyInstanceOwnership tag w k = Owned) \<Longrightarrow>
    distinct (List.map fst (List.fold (consider_candidate tag w v) xs cs))
    \<and> (\<forall>k\<in>fst ` set (List.fold (consider_candidate tag w v) xs cs). classifyInstanceOwnership tag w k = Owned)" for v xs cs
  proof (induction xs arbitrary: cs)
    case (Cons x xs)
    show ?case using Cons.IH [OF consider_candidate_inv [OF Cons.prems]] by simp
  qed simp
  show ?thesis unfolding orphan_candidates_def by (intro f) simp
qed



text \<open>A platform on which one orphan of the workspace is left: its encoder does not answer, and
  the platform, too, fails to say how it is.\<close>

definition dark_osc :: "int osc" where
  "dark_osc = refusing_osc\<lparr> os_health := (\<lambda>v n t. (t, Inl \<lparr> oe_httpCode = Some 500, oe_message = ''fetch failed'' \<rparr>)),
     os_list := (\<lambda>v t. (t, Some (if v = Encore then [\<lparr> on_name = Some ''scalerws0a1b2c3dx'', on_url = Some ''https://e'' \<rparr>] else []))) \<rparr>"


text \<open>An orphan is removed on no confirmation at all: when the encoder does not answer and
  the platform's health lookup fails as well, nothing is known of its work, and past the grace
  period the reaper asks for its removal.\<close>

theorem reaper_removes_unconfirmed_orphan:
  assumes "oc_hasEncore c" "oc_encoreUrl c = Some u" "real' u = None" "map_of seen i = Some f" "g < now - f"
    and "os_token osc Encore o0 = (o1, None)" "os_health osc Encore i o1 = (o2, Inl err)"
    and "os_token osc Encore o2 = (o3, None)" "os_remove osc Encore i o3 = (o4, None)"
  shows "\<exists>x calls. reap_one osc real' g now (i, c) ((o0, s), seen) = (x, calls, True) \<and> Remove Encore i \<in> set calls"
proof -
  obtain a t where t: "os_token osc Listener o4 = (a, t)" by (cases "os_token osc Listener o4")
  obtain a' q where q: "os_remove osc Listener i a = (a', q)" by (cases "os_remove osc Listener i a")
  show ?thesis using assms t q
    by (auto simp: reap_one_def reap_decide_def health_of_def osc_destroyInstance_def Let_def split: option.splits)
qed

lemma reaper_removes_unconfirmed_orphan_witness:
  "\<exists>x calls. reap_one dark_osc (\<lambda>u. None) 1000 5000 (''scalerws0a1b2c3dx'',
       \<lparr> oc_encoreUrl = Some ''https://e'', oc_hasEncore = True, oc_hasListener = False \<rparr>)
       ((5000, empty_scaler), [(''scalerws0a1b2c3dx'', 0)]) = (x, calls, True)
     \<and> Remove Encore ''scalerws0a1b2c3dx'' \<in> set calls"
  by (rule reaper_removes_unconfirmed_orphan [where u = "''https://e''" and f = 0]) (simp_all add: dark_osc_def refusing_osc_def)

end
