(* ===== verification/Packaging_Paths.thy ===== *)
theory Packaging_Paths
  imports Encore_Edge Asset_Model "HOL-Library.List_Lexorder" "HOL-Library.Char_ord"
begin

text \<open>
  Where packaged output is and how it is addressed (\<^verbatim>\<open>src/src/pipeline/packaging.ts\<close>): the prefix
  derived from what the packager reports, the newest package found by listing a bucket, and the
  manifest URLs. The environment of the process is the argument \<open>settings\<close>; the URL parser is an
  argument too.
\<close>

section \<open>Text\<close>

definition js_space :: "char \<Rightarrow> bool" where
  "js_space c = (let n = of_char c :: nat in 9 \<le> n \<and> n \<le> 13 \<or> n = 32 \<or> n = 160)"

definition js_trim :: "string \<Rightarrow> string" where
  "js_trim s = rev (dropWhile js_space (rev (dropWhile js_space s)))"

definition lead_slashes :: "string \<Rightarrow> string" where
  "lead_slashes s = dropWhile (\<lambda>c. c = CHR ''/'') s"

definition both_slashes :: "string \<Rightarrow> string" where
  "both_slashes s = lead_slashes (strip_slashes s)"

definition ends_with :: "string \<Rightarrow> string \<Rightarrow> bool" where
  "ends_with s t = suffix t s"

section \<open>Settings\<close>

record packaging_settings =
  pset_packagedBucket :: "string option"
  pset_publicBaseUrl :: "string option"
  pset_deliveryMode :: "string option"

definition DEFAULT_PACKAGED_BUCKET :: string where "DEFAULT_PACKAGED_BUCKET = ''openvideocore-packaged''"

definition packagedBucket :: "packaging_settings \<Rightarrow> string" where
  "packagedBucket c = coalesce (pset_packagedBucket c) DEFAULT_PACKAGED_BUCKET"

definition packagingPublicBaseUrl :: "packaging_settings \<Rightarrow> string" where
  "packagingPublicBaseUrl c = coalesce (pset_publicBaseUrl c) (''/'' @ packagedBucket c)"

definition parsePackagingId :: "string \<Rightarrow> string option" where
  "parsePackagingId i = (if i = [] then None else Some i)"

section \<open>Manifest URLs\<close>

definition MASTER_HLS_FILENAME :: string where "MASTER_HLS_FILENAME = ''index.m3u8''"
definition MASTER_DASH_FILENAME :: string where "MASTER_DASH_FILENAME = ''manifest.mpd''"

definition manifests_under :: "string \<Rightarrow> manifest_urls" where
  "manifests_under base = \<lparr> mu_hls = Some (base @ ''/index.m3u8''), mu_dash = Some (base @ ''/manifest.mpd'') \<rparr>"

definition manifestUrlsFor :: "string \<Rightarrow> string \<Rightarrow> manifest_urls" where
  "manifestUrlsFor assetId baseUrl = manifests_under (strip_slashes baseUrl @ ''/'' @ outputPrefix assetId)"

fun join_with :: "string \<Rightarrow> string list \<Rightarrow> string" where
  "join_with sep [] = []"
| "join_with sep [x] = x"
| "join_with sep (x # y # xs) = x @ sep @ join_with sep (y # xs)"

definition manifestUrlsForLocation :: "string \<Rightarrow> string \<Rightarrow> string \<Rightarrow> manifest_urls" where
  "manifestUrlsForLocation bucket pre origin =
     manifests_under (join_with ''/'' (filter (\<lambda>s. s \<noteq> []) [strip_slashes origin, bucket, both_slashes pre]))"

definition packagedRelocationOrigin :: "packaging_settings \<Rightarrow> string" where
  "packagedRelocationOrigin c =
     (let base = strip_slashes (packagingPublicBaseUrl c); bucketSuffix = ''/'' @ packagedBucket c in
      if ends_with base bucketSuffix then take (length base - length bucketSuffix) base
      else if base = packagedBucket c \<or> base = ''/'' @ packagedBucket c then [] else base)"

datatype backend_kind = ManagedBackend | ExternalBackend

record storage_backend =
  sb_backend :: backend_kind
  sb_bucket :: string
  sb_endpointUrl :: "string option"
  sb_publicBaseUrl :: "string option"

definition externalPublicBaseUrl :: "storage_backend option \<Rightarrow> string option" where
  "externalPublicBaseUrl backend = (case backend of None \<Rightarrow> None | Some b \<Rightarrow>
     if sb_backend b \<noteq> ExternalBackend then None
     else if truthy (sb_publicBaseUrl b) then Some (strip_slashes (the (sb_publicBaseUrl b)))
     else if truthy (sb_endpointUrl b)
     then Some (strip_slashes (the (sb_endpointUrl b)) @ ''/'' @ both_slashes (sb_bucket b)) else None)"

definition externalObjectUrl :: "string \<Rightarrow> string \<Rightarrow> string" where
  "externalObjectUrl base objectKey = strip_slashes base @ ''/'' @ lead_slashes objectKey"

datatype delivery_mode = PublicDelivery | ProxyDelivery

definition deliveryMode :: "packaging_settings \<Rightarrow> delivery_mode" where
  "deliveryMode c = (if map_option (\<lambda>raw. to_lower (js_trim raw)) (pset_deliveryMode c) = Some ''proxy'' then ProxyDelivery else PublicDelivery)"

definition proxyStreamPrefix :: "string \<Rightarrow> string" where
  "proxyStreamPrefix assetId = assetId @ ''/stream''"

definition proxyManifestUrlsFor :: "string \<Rightarrow> string \<Rightarrow> manifest_urls" where
  "proxyManifestUrlsFor assetId apiBaseUrl = manifests_under (strip_slashes apiBaseUrl @ ''/'' @ proxyStreamPrefix assetId)"

definition outputPathToManifestUrls :: "string option \<Rightarrow> string \<Rightarrow> string \<Rightarrow> manifest_urls" where
  "outputPathToManifestUrls outputPath publicBaseUrl assetId =
     (if truthy outputPath then manifests_under (strip_slashes publicBaseUrl @ strip_slashes (the outputPath))
      else manifestUrlsFor assetId publicBaseUrl)"

section \<open>Public URLs\<close>

record url_parts =
  up_protocol :: string
  up_host :: string
  up_pathname :: string
  up_rest :: string

definition stackPackagedPublicOrigin :: "(string \<Rightarrow> url_parts option) \<Rightarrow> string option \<Rightarrow> string option" where
  "stackPackagedPublicOrigin parse minioEndpoint =
     (let endpoint = map_option js_trim minioEndpoint in
      if \<not> truthy endpoint then None
      else case parse (the endpoint) of
             None \<Rightarrow> None
           | Some u \<Rightarrow> if up_protocol u \<noteq> ''http:'' \<and> up_protocol u \<noteq> ''https:'' then None
               else Some (up_protocol u @ ''//'' @ up_host u @ strip_slashes (up_pathname u)))"

definition packagedPublicOrigin :: "(string \<Rightarrow> url_parts option) \<Rightarrow> packaging_settings \<Rightarrow> string option \<Rightarrow> string option" where
  "packagedPublicOrigin parse c stackMinioEndpoint =
     (if \<not> truthy (pset_publicBaseUrl c) \<or> js_trim (the (pset_publicBaseUrl c)) = [] then stackPackagedPublicOrigin parse stackMinioEndpoint
      else pset_publicBaseUrl c)"

text \<open>\<open>Inl\<close> is the thrown \<^verbatim>\<open>PublicManifestBaseUrlError\<close>; \<open>show_url\<close> is \<^verbatim>\<open>URL.toString\<close>.\<close>

definition show_url :: "url_parts \<Rightarrow> string" where
  "show_url u = up_protocol u @ ''//'' @ up_host u @ up_pathname u @ up_rest u"

definition resolvePublicManifestUrl :: "(string \<Rightarrow> url_parts option) \<Rightarrow> string \<Rightarrow> string option \<Rightarrow> string + string" where
  "resolvePublicManifestUrl parse stored publicOrigin =
     (if \<not> truthy publicOrigin then Inr stored
      else case (parse (the publicOrigin), parse stored) of
             (None, Some p) \<Rightarrow> Inr stored
           | (None, None) \<Rightarrow> Inl (the publicOrigin)
           | (Some q, None) \<Rightarrow> Inr (strip_slashes (the publicOrigin) @ (if prefix ''/'' stored then stored else ''/'' @ stored))
           | (Some q, Some p) \<Rightarrow> if up_host p = up_host q then Inr stored
               else Inr (show_url (p\<lparr> up_protocol := up_protocol q, up_host := up_host q \<rparr>)))"

section \<open>The prefix of the packaged output\<close>

text \<open>\<^verbatim>\<open>/^[a-z][a-z0-9+.-]*:\/\/[^/]+\//i\<close>: what follows a match.\<close>

definition scheme_char :: "char \<Rightarrow> bool" where
  "scheme_char c = (is_lower c \<or> is_upper c \<or> is_digit c \<or> c \<in> set ''+.-'')"

definition scheme_rest :: "string \<Rightarrow> string option" where
  "scheme_rest path =
     (let name = takeWhile scheme_char path; after = drop (length name) path in
      if name = [] \<or> \<not> (is_lower (hd name) \<or> is_upper (hd name)) \<or> \<not> prefix ''://'' after then None
      else let r = drop 3 after; host = takeWhile (\<lambda>c. c \<noteq> CHR ''/'') r in
           if host = [] \<or> length host = length r then None else Some (drop (length host + 1) r))"

definition drop_bucket :: "string \<Rightarrow> string \<Rightarrow> string" where
  "drop_bucket effectiveBucket path =
     (if effectiveBucket \<noteq> [] \<and> prefix (effectiveBucket @ ''/'') path then drop (length effectiveBucket + 1) path else path)"

definition normalizePackagedPrefix :: "string option \<Rightarrow> string \<Rightarrow> string option" where
  "normalizePackagedPrefix outputPath bucket =
     (if \<not> truthy outputPath then None
      else let path = js_trim (the outputPath) in
        if path = [] then None
        else let path1 = (case scheme_rest path of Some r \<Rightarrow> r | None \<Rightarrow> lead_slashes path);
                 path2 = lead_slashes (drop_bucket (both_slashes bucket) path1)
             in if path2 = [] then None else Some (if suffix ''/'' path2 then path2 else path2 @ ''/''))"

definition packaged_under :: "string \<Rightarrow> string \<Rightarrow> packaged_output" where
  "packaged_under bucket pre = \<lparr> po_bucket = Some bucket, po_prefix = Some pre,
     po_masterHlsKey = Some (pre @ MASTER_HLS_FILENAME), po_masterDashKey = Some (pre @ MASTER_DASH_FILENAME) \<rparr>"

definition packagedOutputFromCallback :: "string option \<Rightarrow> string \<Rightarrow> packaged_output option" where
  "packagedOutputFromCallback outputPath bucket = map_option (packaged_under bucket) (normalizePackagedPrefix outputPath bucket)"

text \<open>The newest package found by listing: \<open>keys\<close> are the named objects under the asset's prefix.\<close>

definition newer_job :: "string \<Rightarrow> string option \<Rightarrow> string \<Rightarrow> string option" where
  "newer_job assetPrefix newestJob key =
     (if \<not> prefix assetPrefix key then newestJob
      else let rest = drop (length assetPrefix) key in
        if CHR ''/'' \<notin> set rest then Some (coalesce newestJob [])
        else let job = takeWhile (\<lambda>c. c \<noteq> CHR ''/'') rest in
             (case newestJob of None \<Rightarrow> Some job | Some n \<Rightarrow> if n = [] \<or> n < job then Some job else Some n))"

definition lazyResolvePackagedPrefix :: "string \<Rightarrow> string list \<Rightarrow> string option" where
  "lazyResolvePackagedPrefix assetId ks =
     (let assetPrefix = assetId @ ''/'' in
      case foldl (newer_job assetPrefix) None ks of
        None \<Rightarrow> None | Some n \<Rightarrow> Some (if n = [] then assetPrefix else assetPrefix @ n @ ''/''))"

definition resolvePackagedOutput :: "string \<Rightarrow> packaged_output option \<Rightarrow> string list \<Rightarrow> string \<Rightarrow> packaged_output option" where
  "resolvePackagedOutput assetId persisted ks bucket =
     (if (case persisted of Some p \<Rightarrow> truthy (po_prefix p) | None \<Rightarrow> False) then persisted
      else case lazyResolvePackagedPrefix assetId ks of
             None \<Rightarrow> None | Some pre \<Rightarrow> if pre = [] then None else Some (packaged_under bucket pre))"

section \<open>Lemmas on slashes\<close>

lemma lead_slashes_id: "s = [] \<or> hd s \<noteq> CHR ''/'' \<Longrightarrow> lead_slashes s = s"
  by (cases s) (auto simp: lead_slashes_def)

lemma lead_slashes_Cons [simp]: "lead_slashes (CHR ''/'' # s) = lead_slashes s"
  by (simp add: lead_slashes_def)

lemma strip_slashes_id: "s = [] \<or> last s \<noteq> CHR ''/'' \<Longrightarrow> strip_slashes s = s"
  by (cases "rev s") (auto simp: strip_slashes_def last_rev [symmetric] hd_rev)

lemma js_trim_id:
  assumes "s \<noteq> []" "\<not> js_space (hd s)" "\<not> js_space (last s)"
  shows "js_trim s = s"
proof -
  have "dropWhile js_space s = s" using assms(1,2) by (cases s) auto
  moreover have "dropWhile js_space (rev s) = rev s" using assms(1,3) by (cases "rev s") (auto simp: hd_rev [symmetric])
  ultimately show ?thesis by (simp add: js_trim_def)
qed

section \<open>The newest package\<close>

text \<open>The folder of a key under the asset's prefix; a flat key is in the empty folder.\<close>

definition job_folder :: "string \<Rightarrow> string \<Rightarrow> string" where
  "job_folder assetPrefix key = (let rest = drop (length assetPrefix) key in
     if CHR ''/'' \<in> set rest then takeWhile (\<lambda>c. c \<noteq> CHR ''/'') rest else [])"

definition later :: "string \<Rightarrow> string option \<Rightarrow> string option" where
  "later j n = (case n of None \<Rightarrow> Some j | Some m \<Rightarrow> Some (max m j))"

lemma nil_le: "([] :: string) \<le> s"
  by (cases s) simp_all

lemma newer_job_max: "newer_job p n key = (if prefix p key then later (job_folder p key) n else n)"
proof -
  have "max ([] :: string) j = j" "max n ([] :: string) = n" for j n using nil_le by (simp_all add: max_def antisym)
  then show ?thesis by (auto simp: newer_job_def later_def job_folder_def Let_def max_def not_le split: option.split dest: less_imp_le)
qed

lemma Max_insert_max: "finite S \<Longrightarrow> Max (insert (max a b) S) = Max (insert a (insert b S))" for a b :: string
  by (cases "S = {}") (simp_all add: max.assoc)

lemma foldl_later:
  "foldl (newer_job p) n ks = (let js = List.map (job_folder p) (filter (prefix p) ks) in
     case n of None \<Rightarrow> if js = [] then None else Some (Max (set js)) | Some m \<Rightarrow> Some (Max (insert m (set js))))"
proof (induction ks arbitrary: n)
  case (Cons k ks)
  show ?case
  proof (cases "prefix p k")
    case True
    then show ?thesis using Cons.IH [of "later (job_folder p k) n"]
      by (cases n) (simp_all add: newer_job_max later_def Let_def Max_insert_max del: Max_insert)
  next
    case False
    then show ?thesis using Cons.IH [of n] by (simp add: newer_job_max)
  qed
qed (simp add: Let_def split: option.split)

section \<open>The forms a packager reports\<close>

definition reported_forms :: "string \<Rightarrow> string \<Rightarrow> string list" where
  "reported_forms b q = [''s3://'' @ b @ ''/'' @ q, ''/'' @ b @ ''/'' @ q, b @ ''/'' @ q, ''/'' @ q, q]"

definition plain_text :: "string \<Rightarrow> bool" where
  "plain_text q = (q \<noteq> [] \<and> hd q \<noteq> CHR ''/'' \<and> \<not> js_space (hd q) \<and> \<not> js_space (last q) \<and> CHR '':'' \<notin> set q)"

lemma no_scheme: "CHR '':'' \<notin> set q \<Longrightarrow> scheme_rest q = None"
proof -
  assume n: "CHR '':'' \<notin> set q"
  have "\<not> prefix ''://'' (drop k q)" for k
  proof
    assume "prefix ''://'' (drop k q)"
    then have "CHR '':'' \<in> set (drop k q)" by (auto simp: prefix_def)
    then show False using n in_set_dropD by fast
  qed
  then show ?thesis by (simp add: scheme_rest_def Let_def)
qed

lemma take_host: "CHR ''/'' \<notin> set b \<Longrightarrow> takeWhile (\<lambda>c. c \<noteq> CHR ''/'') (b @ CHR ''/'' # q) = b"
  by (induction b) auto

lemma s3_scheme: "CHR ''/'' \<notin> set b \<Longrightarrow> b \<noteq> [] \<Longrightarrow> scheme_rest (''s3://'' @ b @ ''/'' @ q) = Some q"
proof -
  assume b: "CHR ''/'' \<notin> set b" "b \<noteq> []"
  have s: "scheme_char (CHR ''s'')" "scheme_char (CHR ''3'')" "\<not> scheme_char (CHR '':'')" "is_lower (CHR ''s'')" by code_simp+
  show ?thesis using b s take_host [OF b(1), of q] by (simp add: scheme_rest_def Let_def)
qed

lemma normalize_rest:
  assumes "js_trim f = f" "f \<noteq> []" "(case scheme_rest f of Some r \<Rightarrow> r | None \<Rightarrow> lead_slashes f) = r"
    and "r = q \<or> r = b @ CHR ''/'' # q" "plain_text q" "b \<noteq> []" "CHR ''/'' \<notin> set b" "\<not> prefix (b @ ''/'') q"
  shows "normalizePackagedPrefix (Some f) b = Some (if suffix ''/'' q then q else q @ ''/'')"
proof -
  have "last b \<noteq> CHR ''/''" "hd b \<noteq> CHR ''/''" using assms(6,7) last_in_set hd_in_set by fastforce+
  then have "both_slashes b = b" by (simp add: both_slashes_def strip_slashes_id lead_slashes_id)
  moreover have "lead_slashes q = q" using assms(5) by (intro lead_slashes_id) (simp add: plain_text_def)
  moreover have "drop_bucket b r = q" using assms(4,6,8) by (auto simp: drop_bucket_def)
  ultimately show ?thesis using assms(1-3,5) by (simp add: normalizePackagedPrefix_def truthy_def Let_def plain_text_def)
qed

section \<open>Properties\<close>

text \<open>However the packager reports where it wrote, the recorded prefix is the same: a full s3 URI, a
  path with or without the bucket, absolute or relative, with or without the last slash, all give
  the object-key prefix without the bucket and with one slash at its end, and the two master
  manifests are recorded under it.\<close>

theorem package_prefix_recovered:
  assumes "plain_text q" "b \<noteq> []" "CHR ''/'' \<notin> set b" "CHR '':'' \<notin> set b" "\<not> js_space (hd b)" "\<not> prefix (b @ ''/'') q"
    and "f \<in> set (reported_forms b q)"
  shows "packagedOutputFromCallback (Some f) b = Some \<lparr> po_bucket = Some b,
     po_prefix = Some (if suffix ''/'' q then q else q @ ''/''),
     po_masterHlsKey = Some ((if suffix ''/'' q then q else q @ ''/'') @ ''index.m3u8''),
     po_masterDashKey = Some ((if suffix ''/'' q then q else q @ ''/'') @ ''manifest.mpd'') \<rparr>"
proof -
  have q: "q \<noteq> []" "hd q \<noteq> CHR ''/''" "\<not> js_space (hd q)" "\<not> js_space (last q)" "CHR '':'' \<notin> set q" using assms(1) by (simp_all add: plain_text_def)
  have b: "hd b \<noteq> CHR ''/''" using assms(2,3) hd_in_set by fastforce
  have sp: "\<not> js_space (CHR ''/'')" "\<not> js_space (CHR ''s'')" by code_simp+
  have tr: "js_trim f = f" "f \<noteq> []"
    using assms(2,5,7) q sp by (auto simp: reported_forms_def intro!: js_trim_id)
  have l: "lead_slashes (b @ CHR ''/'' # q) = b @ CHR ''/'' # q" "lead_slashes q = q"
    using b q(2) assms(2) by (simp_all add: lead_slashes_id)
  have sc: "scheme_rest (b @ CHR ''/'' # q) = None" "scheme_rest (CHR ''/'' # b @ CHR ''/'' # q) = None" "scheme_rest (CHR ''/'' # q) = None" "scheme_rest q = None"
    using assms(4) q(5) by (auto intro!: no_scheme)
  have "(case scheme_rest f of Some r \<Rightarrow> r | None \<Rightarrow> lead_slashes f) \<in> {q, b @ CHR ''/'' # q}"
    using assms(7) l sc s3_scheme [OF assms(3,2), of q] by (auto simp: reported_forms_def)
  then have "normalizePackagedPrefix (Some f) b = Some (if suffix ''/'' q then q else q @ ''/'')"
    using normalize_rest [OF tr refl _ assms(1,2,3,6)] by simp
  then show ?thesis by (simp add: packagedOutputFromCallback_def packaged_under_def MASTER_HLS_FILENAME_def MASTER_DASH_FILENAME_def)
qed

theorem package_prefix_recovered_witness:
  "map_option po_prefix (packagedOutputFromCallback (Some ''s3://packed/A/j1'') ''packed'') = Some (Some ''A/j1/'')
   \<and> map_option po_prefix (packagedOutputFromCallback (Some ''A/j1'') ''packed'') = Some (Some ''A/j1/'')"
proof -
  have h: "plain_text ''A/j1''" "\<not> js_space (hd ''packed'')" "\<not> suffix ''/'' ''A/j1''" "\<not> prefix (''packed'' @ ''/'') ''A/j1''" by code_simp+
  have f: "''s3://packed/A/j1'' \<in> set (reported_forms ''packed'' ''A/j1'')" "''A/j1'' \<in> set (reported_forms ''packed'' ''A/j1'')"
    by (simp_all add: reported_forms_def)
  show ?thesis using package_prefix_recovered [OF h(1) _ _ _ h(2,4) f(1)] package_prefix_recovered [OF h(1) _ _ _ h(2,4) f(2)] h(3) by simp
qed

text \<open>C0. The newest package is found whatever the order of the listing: the prefix that is resolved for an
  asset is the greatest of the job folders its keys lie in, the asset's own folder when every key is
  flat, and none when no key is under the asset.\<close>

theorem newest_package_found:
  "lazyResolvePackagedPrefix assetId ks = (let p = assetId @ ''/''; js = List.map (job_folder p) (filter (prefix p) ks) in
     if js = [] then None else Some (if Max (set js) = [] then p else p @ Max (set js) @ ''/''))"
  using foldl_later [of "assetId @ ''/''" None ks] by (simp add: lazyResolvePackagedPrefix_def Let_def)

end
