(* ===== verification/Drm_Config.thy ===== *)
theory Drm_Config
  imports Packaging_Paths
begin

text \<open>
  The DRM coordinates of a stack (\<^verbatim>\<open>src/src/drm/drm-config.ts\<close>): validation of a submitted block, the
  projection to the stored fields, the credential status, and the gated read and write. A block is the
  JSON object that was submitted or stored; \<open>config_of\<close> reads it as the typed record the package step
  uses. The parameter store is a map from workspace and stack to the stored JSON object; the URL parser
  is an argument.
\<close>

section \<open>The typed block\<close>

datatype drm_provider_kind = Cpix | ClearkeyDev
datatype speke_version = Speke1 | Speke2
datatype cpix_auth_mode = AuthBasic | AuthBearer | AuthMtls
datatype drm_credential_status = CredentialConfigured | CredentialMissing

record drm_stack_config =
  dc_enabled :: bool
  dc_providerKind :: drm_provider_kind
  dc_providerId :: string
  dc_label :: "string option"
  dc_keyServerUrl :: "string option"
  dc_spekeVersion :: "speke_version option"
  dc_authMode :: "cpix_auth_mode option"
  dc_scheme :: "protection_scheme option"
  dc_systems :: "string list option"
  dc_licenceUrls :: "(string, string) jsmap option"
  dc_certificateUrls :: "(string, string) jsmap option"
  dc_trackGroups :: "track_type_group list option"

text \<open>The names of the enumerated values.\<close>

definition DRM_PROVIDER_KINDS :: "(string \<times> drm_provider_kind) list" where
  "DRM_PROVIDER_KINDS = [(''cpix'', Cpix), (''clearkey-dev'', ClearkeyDev)]"

definition DRM_SPEKE_VERSIONS :: "(string \<times> speke_version) list" where
  "DRM_SPEKE_VERSIONS = [(''1.0'', Speke1), (''2.0'', Speke2)]"

definition CPIX_AUTH_MODES :: "(string \<times> cpix_auth_mode) list" where
  "CPIX_AUTH_MODES = [(''basic'', AuthBasic), (''bearer'', AuthBearer), (''mtls'', AuthMtls)]"

definition PROTECTION_SCHEMES :: "(string \<times> protection_scheme) list" where
  "PROTECTION_SCHEMES = [(''cenc'', Cenc), (''cbcs'', Cbcs)]"

definition TRACK_TYPE_GROUPS :: "(string \<times> track_type_group) list" where
  "TRACK_TYPE_GROUPS = [(''AUDIO'', AUDIO), (''SD'', SD), (''HD'', HD), (''UHD1'', UHD1)]"

definition DRM_CREDENTIAL_STATUSES :: "(string \<times> drm_credential_status) list" where
  "DRM_CREDENTIAL_STATUSES = [(''configured'', CredentialConfigured), (''missing'', CredentialMissing)]"

fun named :: "(string \<times> 'a) list \<Rightarrow> json \<Rightarrow> 'a option" where
  "named table (JStr s) = map_of table s"
| "named table _ = None"

definition uuid_hex :: "char \<Rightarrow> bool" where
  "uuid_hex c = (c \<in> set ''0123456789abcdefABCDEF'')"

text \<open>\<^verbatim>\<open>DRM_SYSTEM_ID_PATTERN\<close>.\<close>

definition isDrmSystemId :: "string \<Rightarrow> bool" where
  "isDrmSystemId s = (length s = 36 \<and>
     list_all (\<lambda>(i, c). if i \<in> set [8, 13, 18, 23] then c = CHR ''-'' else uuid_hex c) (List.enumerate 0 s))"

definition DRM_STACK_CONFIG_FIELD_NAMES :: "string list" where
  "DRM_STACK_CONFIG_FIELD_NAMES = [''enabled'', ''providerKind'', ''providerId'', ''label'', ''keyServerUrl'',
     ''spekeVersion'', ''authMode'', ''scheme'', ''systems'', ''licenceUrls'', ''certificateUrls'', ''trackGroups'']"

definition DRM_CONFIG_VIEW_ONLY_FIELD_NAMES :: "string list" where
  "DRM_CONFIG_VIEW_ONLY_FIELD_NAMES = [''credentials'']"

definition DRM_CREDENTIAL_FIELD_NAMES :: "string list" where
  "DRM_CREDENTIAL_FIELD_NAMES = [''username'', ''password'', ''pwd'', ''passphrase'', ''token'', ''authToken'', ''secret'',
     ''clientSecret'', ''clientCert'', ''clientKey'', ''certificate'', ''privateKey'', ''apiKey'']"

section \<open>Validation\<close>

record url_credentials =
  uc_protocol :: string
  uc_username :: string
  uc_password :: string

type_synonym field_error = "string \<times> string"

fun isHttpsUrl :: "(string \<Rightarrow> url_credentials option) \<Rightarrow> json \<Rightarrow> bool" where
  "isHttpsUrl parse (JStr s) = (s \<noteq> [] \<and> (case parse s of None \<Rightarrow> False
     | Some u \<Rightarrow> uc_username u = [] \<and> uc_password u = [] \<and> uc_protocol u = ''https:''))"
| "isHttpsUrl parse _ = False"

definition NEVER_STORED :: string where
  "NEVER_STORED = ''credentials are operator environment variables and are never stored in the parameter store''"

definition credential_errors :: "(string, json) jsmap \<Rightarrow> field_error list" where
  "credential_errors ob =
     List.map (\<lambda>k. (k, NEVER_STORED)) (filter (\<lambda>k. k \<in> set DRM_CREDENTIAL_FIELD_NAMES) (keys ob))
     @ (case map_of ob ''credentials'' of None \<Rightarrow> []
        | Some v \<Rightarrow> if named DRM_CREDENTIAL_STATUSES v \<noteq> None then []
            else [(''credentials'', ''is read-only and must be one of '' @ join_with '', '' (keys DRM_CREDENTIAL_STATUSES) @ ''; '' @ NEVER_STORED)])"

definition unknown_errors :: "(string, json) jsmap \<Rightarrow> field_error list" where
  "unknown_errors ob =
     List.map (\<lambda>k. (k, ''is not a DRM configuration field; allowed fields are '' @ join_with '', '' DRM_STACK_CONFIG_FIELD_NAMES))
       (filter (\<lambda>k. k \<notin> set DRM_STACK_CONFIG_FIELD_NAMES \<and> k \<notin> set DRM_CONFIG_VIEW_ONLY_FIELD_NAMES) (keys ob))"

definition one_of :: "(string \<times> 'a) list \<Rightarrow> string" where
  "one_of table = ''must be one of '' @ join_with '', '' (keys table)"

definition enabled_errors :: "(string, json) jsmap \<Rightarrow> field_error list" where
  "enabled_errors ob = (case map_of ob ''enabled'' of Some (JBool b) \<Rightarrow> [] | _ \<Rightarrow> [(''enabled'', ''must be a boolean'')])"

definition kind_of :: "(string, json) jsmap \<Rightarrow> drm_provider_kind option" where
  "kind_of ob = (case map_of ob ''providerKind'' of None \<Rightarrow> None | Some v \<Rightarrow> named DRM_PROVIDER_KINDS v)"

definition provider_errors :: "(string, json) jsmap \<Rightarrow> field_error list" where
  "provider_errors ob =
     (if kind_of ob = None then [(''providerKind'', one_of DRM_PROVIDER_KINDS)] else [])
     @ (case map_of ob ''providerId'' of
          Some (JStr s) \<Rightarrow> if js_trim s = [] then [(''providerId'', ''must be a non-empty string'')] else []
        | _ \<Rightarrow> [(''providerId'', ''must be a non-empty string'')])"

definition label_errors :: "(string, json) jsmap \<Rightarrow> field_error list" where
  "label_errors ob = (case map_of ob ''label'' of None \<Rightarrow> [] | Some (JStr s) \<Rightarrow> [] | Some v \<Rightarrow> [(''label'', ''must be a string'')])"

definition HTTPS_REASON :: string where
  "HTTPS_REASON = ''must be an absolute https:// URL with no embedded credentials''"

definition server_errors :: "(string \<Rightarrow> url_credentials option) \<Rightarrow> (string, json) jsmap \<Rightarrow> field_error list" where
  "server_errors parse ob = (case map_of ob ''keyServerUrl'' of
       None \<Rightarrow> if kind_of ob = Some Cpix then [(''keyServerUrl'', ''is required when providerKind is '' @ [CHR 0x27] @ ''cpix'' @ [CHR 0x27])] else []
     | Some v \<Rightarrow> if isHttpsUrl parse v then [] else [(''keyServerUrl'', HTTPS_REASON)])"

definition enum_errors :: "string \<Rightarrow> (string \<times> 'a) list \<Rightarrow> (string, json) jsmap \<Rightarrow> field_error list" where
  "enum_errors field table ob = (case map_of ob field of
       None \<Rightarrow> [] | Some v \<Rightarrow> if named table v \<noteq> None then [] else [(field, one_of table)])"

text \<open>One message per entry of an array that is not of the type.\<close>

definition entry_errors :: "string \<Rightarrow> (json \<Rightarrow> bool) \<Rightarrow> string \<Rightarrow> json list \<Rightarrow> field_error list" where
  "entry_errors field good reason js =
     List.map (\<lambda>(i, j). (field @ ''['' @ dec i @ '']'', reason)) (filter (\<lambda>(i, j). \<not> good j) (List.enumerate 0 js))"

fun system_id :: "json \<Rightarrow> bool" where
  "system_id (JStr s) = isDrmSystemId s"
| "system_id _ = False"

definition systems_errors :: "(string, json) jsmap \<Rightarrow> field_error list" where
  "systems_errors ob = (case map_of ob ''systems'' of None \<Rightarrow> []
     | Some (JArr js) \<Rightarrow> entry_errors ''systems'' system_id ''must be a registered DRM system id (UUID)'' js
     | Some v \<Rightarrow> [(''systems'', ''must be an array of system ids'')])"

definition groups_errors :: "(string, json) jsmap \<Rightarrow> field_error list" where
  "groups_errors ob = (case map_of ob ''trackGroups'' of None \<Rightarrow> []
     | Some (JArr js) \<Rightarrow> entry_errors ''trackGroups'' (\<lambda>j. named TRACK_TYPE_GROUPS j \<noteq> None) (one_of TRACK_TYPE_GROUPS) js
     | Some v \<Rightarrow> [(''trackGroups'', ''must be an array'')])"

definition url_map_errors :: "(string \<Rightarrow> url_credentials option) \<Rightarrow> string \<Rightarrow> (string, json) jsmap \<Rightarrow> field_error list" where
  "url_map_errors parse field ob = (case map_of ob field of None \<Rightarrow> []
     | Some (JObj m) \<Rightarrow> concat (List.map (\<lambda>(systemId, url).
           (if isDrmSystemId systemId then [] else [(field @ ''.'' @ systemId, ''key must be a registered DRM system id (UUID)'')])
           @ (if isHttpsUrl parse url then [] else [(field @ ''.'' @ systemId, HTTPS_REASON)])) m)
     | Some v \<Rightarrow> [(field, ''must be an object keyed by DRM system id'')])"

fun validateDrmStackConfig :: "(string \<Rightarrow> url_credentials option) \<Rightarrow> json \<Rightarrow> field_error list" where
  "validateDrmStackConfig parse (JObj ob) =
     (if credential_errors ob \<noteq> [] then credential_errors ob
      else unknown_errors ob @ enabled_errors ob @ provider_errors ob @ label_errors ob @ server_errors parse ob
        @ enum_errors ''spekeVersion'' DRM_SPEKE_VERSIONS ob @ enum_errors ''authMode'' CPIX_AUTH_MODES ob
        @ enum_errors ''scheme'' PROTECTION_SCHEMES ob @ systems_errors ob @ groups_errors ob
        @ url_map_errors parse ''licenceUrls'' ob @ url_map_errors parse ''certificateUrls'' ob)"
| "validateDrmStackConfig parse _ = [(''drm'', ''must be an object'')]"

text \<open>\<^verbatim>\<open>undefined\<close> members are absent from a JSON object.\<close>

definition projectDrmStackConfig :: "(string, json) jsmap \<Rightarrow> (string, json) jsmap" where
  "projectDrmStackConfig config = List.concat (List.map (\<lambda>name. case map_of config name of
       None \<Rightarrow> [] | Some v \<Rightarrow> [(name, v)]) DRM_STACK_CONFIG_FIELD_NAMES)"

section \<open>Credentials\<close>

definition DRM_CREDENTIAL_ENV_VARS :: "cpix_auth_mode \<Rightarrow> string list" where
  "DRM_CREDENTIAL_ENV_VARS m = (case m of
       AuthBasic \<Rightarrow> [''DRM_KEY_PROVIDER_USERNAME'', ''DRM_KEY_PROVIDER_PASSWORD'']
     | AuthBearer \<Rightarrow> [''DRM_KEY_PROVIDER_TOKEN'']
     | AuthMtls \<Rightarrow> [''DRM_KEY_PROVIDER_CLIENT_CERT'', ''DRM_KEY_PROVIDER_CLIENT_KEY''])"

definition readDrmCredentialStatus :: "cpix_auth_mode \<Rightarrow> (string \<Rightarrow> string option) \<Rightarrow> drm_credential_status" where
  "readDrmCredentialStatus authMode env =
     (if list_ex (\<lambda>name. case env name of None \<Rightarrow> True | Some v \<Rightarrow> js_trim v = []) (DRM_CREDENTIAL_ENV_VARS authMode)
      then CredentialMissing else CredentialConfigured)"

definition status_name :: "drm_credential_status \<Rightarrow> string" where
  "status_name st = (case st of CredentialConfigured \<Rightarrow> ''configured'' | CredentialMissing \<Rightarrow> ''missing'')"

text \<open>A stored block that names no mode it knows is \<^verbatim>\<open>missing\<close>; no mode at all means \<^verbatim>\<open>basic\<close>.\<close>

definition viewed_status :: "(string, json) jsmap \<Rightarrow> (string \<Rightarrow> string option) \<Rightarrow> drm_credential_status" where
  "viewed_status config env = (case map_of config ''authMode'' of
       None \<Rightarrow> readDrmCredentialStatus AuthBasic env
     | Some JNull \<Rightarrow> readDrmCredentialStatus AuthBasic env
     | Some v \<Rightarrow> (case named CPIX_AUTH_MODES v of None \<Rightarrow> CredentialMissing | Some m \<Rightarrow> readDrmCredentialStatus m env))"

definition toDrmConfigView :: "(string, json) jsmap \<Rightarrow> (string \<Rightarrow> string option) \<Rightarrow> (string, json) jsmap" where
  "toDrmConfigView config env =
     obj_spread (projectDrmStackConfig config) [(''credentials'', JStr (status_name (viewed_status config env)))]"

section \<open>The parameter store\<close>

type_synonym param_store = "string \<times> string \<Rightarrow> (string, json) jsmap option"

definition drmEnabled :: "(string \<Rightarrow> string option) \<Rightarrow> bool" where
  "drmEnabled env = (env ''DRM_ENABLED'' = Some ''true'')"

definition drmGateClosed :: "(string \<Rightarrow> string option) \<Rightarrow> nat option" where
  "drmGateClosed env = (if drmEnabled env then None else Some 501)"

definition loadDrmStackConfig :: "(string \<Rightarrow> string option) \<Rightarrow> param_store \<Rightarrow> string \<Rightarrow> string \<Rightarrow> json option" where
  "loadDrmStackConfig env ps workspaceId stackName =
     (if \<not> drmEnabled env then None
      else case ps (workspaceId, stackName) of None \<Rightarrow> None | Some config \<Rightarrow> map_of config ''drm'')"

datatype drm_store_error = StoreDisabled | StoreInvalid "field_error list" | StoreNoStack string

definition storeDrmStackConfig :: "(string \<Rightarrow> url_credentials option) \<Rightarrow> (string \<Rightarrow> string option) \<Rightarrow> param_store \<Rightarrow> string \<Rightarrow> string
    \<Rightarrow> (string, json) jsmap \<Rightarrow> drm_store_error + param_store" where
  "storeDrmStackConfig parse env ps workspaceId stackName drm =
     (if \<not> drmEnabled env then Inl StoreDisabled
      else if validateDrmStackConfig parse (JObj drm) \<noteq> [] then Inl (StoreInvalid (validateDrmStackConfig parse (JObj drm)))
      else case ps (workspaceId, stackName) of
             None \<Rightarrow> Inl (StoreNoStack stackName)
           | Some existing \<Rightarrow> Inr (ps((workspaceId, stackName) \<mapsto>
               obj_spread existing [(''drm'', JObj (projectDrmStackConfig drm))])))"

section \<open>Reading a block as the typed record\<close>

text \<open>A field that is absent reads as absent, one of another type makes the whole read fail.\<close>

definition opt_field :: "(json \<Rightarrow> 'a option) \<Rightarrow> string \<Rightarrow> (string, json) jsmap \<Rightarrow> 'a option option" where
  "opt_field f name ob = (case map_of ob name of None \<Rightarrow> Some None | Some v \<Rightarrow> map_option Some (f v))"

fun as_string :: "json \<Rightarrow> string option" where
  "as_string (JStr s) = Some s" | "as_string _ = None"

fun as_bool :: "json \<Rightarrow> bool option" where
  "as_bool (JBool b) = Some b" | "as_bool _ = None"

fun all_some :: "'a option list \<Rightarrow> 'a list option" where
  "all_some [] = Some []"
| "all_some (None # xs) = None"
| "all_some (Some x # xs) = map_option (Cons x) (all_some xs)"

fun as_list :: "(json \<Rightarrow> 'a option) \<Rightarrow> json \<Rightarrow> 'a list option" where
  "as_list f (JArr js) = all_some (List.map f js)" | "as_list f _ = None"

fun as_url_map :: "json \<Rightarrow> (string, string) jsmap option" where
  "as_url_map (JObj m) = all_some (List.map (\<lambda>(k, v). map_option (Pair k) (as_string v)) m)"
| "as_url_map _ = None"

fun config_of :: "json \<Rightarrow> drm_stack_config option" where
  "config_of (JObj ob) =
     (case (map_of ob ''enabled'', map_of ob ''providerId'') of
        (Some (JBool en), Some (JStr pid)) \<Rightarrow>
          (case (kind_of ob, opt_field as_string ''label'' ob, opt_field as_string ''keyServerUrl'' ob,
               opt_field (named DRM_SPEKE_VERSIONS) ''spekeVersion'' ob, opt_field (named CPIX_AUTH_MODES) ''authMode'' ob,
               opt_field (named PROTECTION_SCHEMES) ''scheme'' ob) of
             (Some kd, Some lb, Some ks, Some sv, Some am, Some sc) \<Rightarrow>
               (case (opt_field (as_list as_string) ''systems'' ob, opt_field as_url_map ''licenceUrls'' ob,
                    opt_field as_url_map ''certificateUrls'' ob, opt_field (as_list (named TRACK_TYPE_GROUPS)) ''trackGroups'' ob) of
                  (Some sy, Some lu, Some cu, Some tg) \<Rightarrow>
                    Some \<lparr> dc_enabled = en, dc_providerKind = kd, dc_providerId = pid, dc_label = lb, dc_keyServerUrl = ks,
                      dc_spekeVersion = sv, dc_authMode = am, dc_scheme = sc, dc_systems = sy, dc_licenceUrls = lu,
                      dc_certificateUrls = cu, dc_trackGroups = tg \<rparr>
                | _ \<Rightarrow> None)
           | _ \<Rightarrow> None)
      | _ \<Rightarrow> None)"
| "config_of _ = None"

section \<open>What validation leaves\<close>

lemma all_some_total: "\<forall>x \<in> set xs. f x \<noteq> None \<Longrightarrow> all_some (List.map f xs) = Some (List.map (the \<circ> f) xs)"
  by (induction xs) auto

lemma all_snd: "(\<forall>p \<in> set xs. good (snd p)) \<longleftrightarrow> (\<forall>j \<in> set (List.map snd xs). good j)"
  by auto

lemma entry_errors_none: "entry_errors field good reason js = [] \<longleftrightarrow> (\<forall>j \<in> set js. good j)"
  using all_snd [of "List.enumerate 0 js" good] by (simp add: entry_errors_def filter_empty_conv split_beta)

lemma isHttpsUrl_string: "isHttpsUrl parse v \<Longrightarrow> as_string v \<noteq> None \<and> isHttpsUrl parse (JStr (the (as_string v)))" by (cases v) auto
lemma system_id_string: "system_id v \<Longrightarrow> as_string v \<noteq> None \<and> isDrmSystemId (the (as_string v))" by (cases v) auto

declare isHttpsUrl.simps [simp del]

definition checked :: "(string \<Rightarrow> url_credentials option) \<Rightarrow> (string, json) jsmap \<Rightarrow> bool" where
  "checked parse ob = (enabled_errors ob = [] \<and> provider_errors ob = [] \<and> label_errors ob = [] \<and> server_errors parse ob = []
     \<and> enum_errors ''spekeVersion'' DRM_SPEKE_VERSIONS ob = [] \<and> enum_errors ''authMode'' CPIX_AUTH_MODES ob = []
     \<and> enum_errors ''scheme'' PROTECTION_SCHEMES ob = [] \<and> systems_errors ob = [] \<and> groups_errors ob = []
     \<and> url_map_errors parse ''licenceUrls'' ob = [] \<and> url_map_errors parse ''certificateUrls'' ob = [])"

lemma validate_none: "validateDrmStackConfig parse j = [] \<longleftrightarrow>
    (\<exists>ob. j = JObj ob \<and> credential_errors ob = [] \<and> unknown_errors ob = [] \<and> checked parse ob)"
  by (cases j) (auto simp: checked_def)

lemma checked_cong: "\<forall>n \<in> set DRM_STACK_CONFIG_FIELD_NAMES. map_of a n = map_of b n \<Longrightarrow> checked parse a = checked parse b"
  by (simp add: checked_def DRM_STACK_CONFIG_FIELD_NAMES_def enabled_errors_def provider_errors_def label_errors_def server_errors_def
      enum_errors_def systems_errors_def groups_errors_def url_map_errors_def kind_of_def)

lemma config_of_cong:
  assumes "\<forall>n \<in> set DRM_STACK_CONFIG_FIELD_NAMES. map_of a n = map_of b n"
  shows "config_of (JObj a) = config_of (JObj b)"
proof -
  have "kind_of a = kind_of b" "opt_field as_string ''label'' a = opt_field as_string ''label'' b"
    "opt_field as_string ''keyServerUrl'' a = opt_field as_string ''keyServerUrl'' b"
    "opt_field (named DRM_SPEKE_VERSIONS) ''spekeVersion'' a = opt_field (named DRM_SPEKE_VERSIONS) ''spekeVersion'' b"
    "opt_field (named CPIX_AUTH_MODES) ''authMode'' a = opt_field (named CPIX_AUTH_MODES) ''authMode'' b"
    "opt_field (named PROTECTION_SCHEMES) ''scheme'' a = opt_field (named PROTECTION_SCHEMES) ''scheme'' b"
    "opt_field (as_list as_string) ''systems'' a = opt_field (as_list as_string) ''systems'' b"
    "opt_field as_url_map ''licenceUrls'' a = opt_field as_url_map ''licenceUrls'' b"
    "opt_field as_url_map ''certificateUrls'' a = opt_field as_url_map ''certificateUrls'' b"
    "opt_field (as_list (named TRACK_TYPE_GROUPS)) ''trackGroups'' a = opt_field (as_list (named TRACK_TYPE_GROUPS)) ''trackGroups'' b"
    "map_of a ''enabled'' = map_of b ''enabled''" "map_of a ''providerId'' = map_of b ''providerId''"
    using assms by (simp_all add: DRM_STACK_CONFIG_FIELD_NAMES_def opt_field_def kind_of_def)
  then show ?thesis by (simp only: config_of.simps)
qed

lemma enum_read: "enum_errors field table ob = [] \<Longrightarrow> \<exists>x. opt_field (named table) field ob = Some x"
  by (auto simp: enum_errors_def opt_field_def split: option.splits if_splits)

lemma label_read: "label_errors ob = [] \<Longrightarrow> \<exists>x. opt_field as_string ''label'' ob = Some x"
  by (auto simp: label_errors_def opt_field_def split: option.splits json.splits)

lemma server_read:
  assumes "server_errors parse ob = []"
  shows "\<exists>x. opt_field as_string ''keyServerUrl'' ob = Some x \<and> (kind_of ob = Some Cpix \<longrightarrow> x \<noteq> None)
     \<and> (\<forall>u. x = Some u \<longrightarrow> isHttpsUrl parse (JStr u))"
proof (cases "map_of ob ''keyServerUrl''")
  case (Some v)
  then have "isHttpsUrl parse v" using assms by (simp add: server_errors_def split: if_splits)
  then show ?thesis using Some isHttpsUrl_string [of parse v] by (auto simp: opt_field_def)
qed (use assms in \<open>auto simp: server_errors_def opt_field_def split: if_splits\<close>)

lemma systems_read:
  assumes "systems_errors ob = []"
  shows "\<exists>x. opt_field (as_list as_string) ''systems'' ob = Some x \<and> (\<forall>l. x = Some l \<longrightarrow> (\<forall>s \<in> set l. isDrmSystemId s))"
proof (cases "map_of ob ''systems''")
  case (Some v)
  then obtain js where v: "v = JArr js" using assms by (cases v) (auto simp: systems_errors_def)
  have g: "\<forall>j \<in> set js. system_id j" using assms Some v by (simp add: systems_errors_def entry_errors_none)
  then have h: "\<forall>j \<in> set js. as_string j \<noteq> None" "\<forall>j \<in> set js. isDrmSystemId (the (as_string j))" by (blast dest: system_id_string)+
  show ?thesis using Some v h(2) all_some_total [OF h(1)] by (simp add: opt_field_def)
qed (simp add: opt_field_def)

lemma groups_read:
  assumes "groups_errors ob = []"
  shows "\<exists>x. opt_field (as_list (named TRACK_TYPE_GROUPS)) ''trackGroups'' ob = Some x"
proof (cases "map_of ob ''trackGroups''")
  case (Some v)
  then obtain js where v: "v = JArr js" using assms by (cases v) (auto simp: groups_errors_def)
  have g: "\<forall>j \<in> set js. named TRACK_TYPE_GROUPS j \<noteq> None" using assms Some v by (simp add: groups_errors_def entry_errors_none)
  show ?thesis using Some v all_some_total [OF g] by (simp add: opt_field_def)
qed (simp add: opt_field_def)

lemma url_map_read:
  assumes "url_map_errors parse field ob = []"
  shows "\<exists>x. opt_field as_url_map field ob = Some x
    \<and> (\<forall>m. x = Some m \<longrightarrow> (\<forall>(k, u) \<in> set m. isDrmSystemId k \<and> isHttpsUrl parse (JStr u)))"
proof (cases "map_of ob field")
  case (Some v)
  then obtain m where v: "v = JObj m" using assms by (cases v) (auto simp: url_map_errors_def)
  have g: "\<forall>p \<in> set m. isDrmSystemId (fst p) \<and> isHttpsUrl parse (snd p)"
    using assms Some v by (auto simp: url_map_errors_def split: if_splits)
  let ?f = "\<lambda>(k, w). map_option (Pair k) (as_string w)"
  have h: "\<forall>p \<in> set m. ?f p \<noteq> None" "\<forall>p \<in> set m. isDrmSystemId (fst (the (?f p))) \<and> isHttpsUrl parse (JStr (snd (the (?f p))))"
    using g by (fastforce dest: isHttpsUrl_string)+
  show ?thesis using Some v h(2) all_some_total [OF h(1)] by (auto simp: opt_field_def)
qed (simp add: opt_field_def)

lemma view_names: "credential_errors ob = [] \<Longrightarrow> unknown_errors ob = [] \<Longrightarrow>
    set (keys ob) \<subseteq> set DRM_STACK_CONFIG_FIELD_NAMES \<union> {''credentials''} \<and> set (keys ob) \<inter> set DRM_CREDENTIAL_FIELD_NAMES = {}"
  by (auto simp: credential_errors_def unknown_errors_def filter_empty_conv DRM_CONFIG_VIEW_ONLY_FIELD_NAMES_def)

lemma typed_block:
  assumes "validateDrmStackConfig parse j = []"
  shows "\<exists>ob c. j = JObj ob \<and> config_of j = Some c \<and> js_trim (dc_providerId c) \<noteq> []
    \<and> (dc_providerKind c = Cpix \<longrightarrow> dc_keyServerUrl c \<noteq> None)
    \<and> (\<forall>u. dc_keyServerUrl c = Some u \<longrightarrow> isHttpsUrl parse (JStr u))
    \<and> (\<forall>l. dc_systems c = Some l \<longrightarrow> (\<forall>s \<in> set l. isDrmSystemId s))
    \<and> (\<forall>m. dc_licenceUrls c = Some m \<or> dc_certificateUrls c = Some m \<longrightarrow> (\<forall>(k, u) \<in> set m. isDrmSystemId k \<and> isHttpsUrl parse (JStr u)))
    \<and> set (keys ob) \<subseteq> set DRM_STACK_CONFIG_FIELD_NAMES \<union> {''credentials''}
    \<and> set (keys ob) \<inter> set DRM_CREDENTIAL_FIELD_NAMES = {}"
proof -
  obtain ob where j: "j = JObj ob" and ce: "credential_errors ob = []" "unknown_errors ob = []" and ch: "checked parse ob"
    using assms unfolding validate_none by auto
  have e: "enabled_errors ob = []" "provider_errors ob = []" "label_errors ob = []" "server_errors parse ob = []"
    "enum_errors ''spekeVersion'' DRM_SPEKE_VERSIONS ob = []" "enum_errors ''authMode'' CPIX_AUTH_MODES ob = []"
    "enum_errors ''scheme'' PROTECTION_SCHEMES ob = []" "systems_errors ob = []" "groups_errors ob = []"
    "url_map_errors parse ''licenceUrls'' ob = []" "url_map_errors parse ''certificateUrls'' ob = []"
    using ch by (simp_all add: checked_def)
  obtain en where en: "map_of ob ''enabled'' = Some (JBool en)" using e(1) by (auto simp: enabled_errors_def split: option.splits json.splits)
  obtain pid kd where pid: "map_of ob ''providerId'' = Some (JStr pid)" "js_trim pid \<noteq> []" and kd: "kind_of ob = Some kd"
    using e(2) by (auto simp: provider_errors_def split: option.splits json.splits if_splits)
  obtain lb where lb: "opt_field as_string ''label'' ob = Some lb" using label_read [OF e(3)] by auto
  obtain ks where ks: "opt_field as_string ''keyServerUrl'' ob = Some ks" "kind_of ob = Some Cpix \<longrightarrow> ks \<noteq> None"
    "\<forall>u. ks = Some u \<longrightarrow> isHttpsUrl parse (JStr u)" using server_read [OF e(4)] by auto
  obtain sv am sc where em: "opt_field (named DRM_SPEKE_VERSIONS) ''spekeVersion'' ob = Some sv"
    "opt_field (named CPIX_AUTH_MODES) ''authMode'' ob = Some am" "opt_field (named PROTECTION_SCHEMES) ''scheme'' ob = Some sc"
    using enum_read [OF e(5)] enum_read [OF e(6)] enum_read [OF e(7)] by auto
  obtain sy where sy: "opt_field (as_list as_string) ''systems'' ob = Some sy" "\<forall>l. sy = Some l \<longrightarrow> (\<forall>s \<in> set l. isDrmSystemId s)"
    using systems_read [OF e(8)] by auto
  obtain tg where tg: "opt_field (as_list (named TRACK_TYPE_GROUPS)) ''trackGroups'' ob = Some tg" using groups_read [OF e(9)] by auto
  obtain lu where lu: "opt_field as_url_map ''licenceUrls'' ob = Some lu"
    "\<forall>m. lu = Some m \<longrightarrow> (\<forall>(k, u) \<in> set m. isDrmSystemId k \<and> isHttpsUrl parse (JStr u))" using url_map_read [OF e(10)] by auto
  obtain cu where cu: "opt_field as_url_map ''certificateUrls'' ob = Some cu"
    "\<forall>m. cu = Some m \<longrightarrow> (\<forall>(k, u) \<in> set m. isDrmSystemId k \<and> isHttpsUrl parse (JStr u))" using url_map_read [OF e(11)] by auto
  let ?c = "\<lparr> dc_enabled = en, dc_providerKind = kd, dc_providerId = pid, dc_label = lb, dc_keyServerUrl = ks,
     dc_spekeVersion = sv, dc_authMode = am, dc_scheme = sc, dc_systems = sy, dc_licenceUrls = lu,
     dc_certificateUrls = cu, dc_trackGroups = tg \<rparr>"
  have c: "config_of j = Some ?c" by (simp add: j en pid(1) kd lb ks(1) em sy(1) tg lu(1) cu(1))
  show ?thesis
    by (rule exI [of _ ob], rule exI [of _ ?c])
      (use j c pid(2) ks(2,3) kd sy(2) lu(2) cu(2) view_names [OF ce] in auto)
qed

text \<open>C26. A DRM block that passes validation is a typed block: every field reads at the type the package step
  uses it at, the provider has a name, a key server is given when the provider needs one, every URL is an
  https URL without credentials and every key of a URL map and every system is a system id. The only
  fields it carries are the twelve coordinates and the read-only credential status, and none of the
  credential names.\<close>

theorem validated_block_is_typed:
  assumes "validateDrmStackConfig parse j = []"
  shows "\<exists>ob c. j = JObj ob \<and> config_of j = Some c \<and> js_trim (dc_providerId c) \<noteq> []
    \<and> (dc_providerKind c = Cpix \<longrightarrow> dc_keyServerUrl c \<noteq> None)
    \<and> (\<forall>u. dc_keyServerUrl c = Some u \<longrightarrow> isHttpsUrl parse (JStr u))
    \<and> (\<forall>l. dc_systems c = Some l \<longrightarrow> (\<forall>s \<in> set l. isDrmSystemId s))
    \<and> (\<forall>m. dc_licenceUrls c = Some m \<or> dc_certificateUrls c = Some m \<longrightarrow> (\<forall>(k, u) \<in> set m. isDrmSystemId k \<and> isHttpsUrl parse (JStr u)))
    \<and> set (keys ob) \<subseteq> set DRM_STACK_CONFIG_FIELD_NAMES \<union> {''credentials''}
    \<and> set (keys ob) \<inter> set DRM_CREDENTIAL_FIELD_NAMES = {}"
  by (rule typed_block [OF assms])

theorem validated_block_is_typed_witness:
  "\<exists>c. config_of (JObj [(''enabled'', JBool True), (''providerKind'', JStr ''clearkey-dev''), (''providerId'', JStr ''dev''),
     (''credentials'', JStr ''missing'')]) = Some c \<and> dc_enabled c"
proof -
  let ?b = "JObj [(''enabled'', JBool True), (''providerKind'', JStr ''clearkey-dev''), (''providerId'', JStr ''dev''),
     (''credentials'', JStr ''missing'')]"
  have v: "validateDrmStackConfig (\<lambda>u. None) ?b = []" by code_simp
  obtain c where c: "config_of ?b = Some c" using validated_block_is_typed [OF v] by blast
  have "map_option dc_enabled (config_of ?b) = Some True" by code_simp
  with c show ?thesis by (intro exI [of _ c]) simp
qed

section \<open>Storing and reading back\<close>

lemma map_of_pick:
  "map_of (List.concat (List.map (\<lambda>n. case map_of c n of None \<Rightarrow> [] | Some v \<Rightarrow> [(n, v)]) ns)) k
     = (if k \<in> set ns then map_of c k else None)"
  by (induction ns) (auto simp: map_add_def split: option.split)

lemma map_of_project: "map_of (projectDrmStackConfig c) k = (if k \<in> set DRM_STACK_CONFIG_FIELD_NAMES then map_of c k else None)"
  by (simp only: projectDrmStackConfig_def map_of_pick)

lemma project_cong: "\<forall>n \<in> set DRM_STACK_CONFIG_FIELD_NAMES. map_of a n = map_of b n \<Longrightarrow> projectDrmStackConfig a = projectDrmStackConfig b"
  by (simp add: projectDrmStackConfig_def DRM_STACK_CONFIG_FIELD_NAMES_def)

lemma credentials_extra: "''credentials'' \<notin> set DRM_STACK_CONFIG_FIELD_NAMES" by code_simp

lemma map_of_view: "n \<in> set DRM_STACK_CONFIG_FIELD_NAMES \<Longrightarrow> map_of (toDrmConfigView c env) n = map_of c n"
  using credentials_extra by (auto simp: toDrmConfigView_def map_of_project map_add_def)

lemma view_credentials: "\<exists>st. map_of (toDrmConfigView c env) ''credentials'' = Some (JStr (status_name st))"
  by (rule exI [of _ "viewed_status c env"]) (simp add: toDrmConfigView_def map_add_def)

lemma set_keys_project: "set (keys (projectDrmStackConfig c)) \<subseteq> set DRM_STACK_CONFIG_FIELD_NAMES"
proof
  fix k assume "k \<in> set (keys (projectDrmStackConfig c))"
  then have "map_of (projectDrmStackConfig c) k \<noteq> None" by (simp add: map_of_None_iff_keys)
  then show "k \<in> set DRM_STACK_CONFIG_FIELD_NAMES" by (simp add: map_of_project split: if_splits)
qed

lemma set_keys_view: "set (keys (toDrmConfigView c env)) \<subseteq> insert ''credentials'' (set DRM_STACK_CONFIG_FIELD_NAMES)"
  using set_keys_project [of c] by (auto simp: toDrmConfigView_def obj_spread_def)

lemma names_no_secret: "set DRM_CREDENTIAL_FIELD_NAMES \<inter> insert ''credentials'' (set DRM_STACK_CONFIG_FIELD_NAMES) = {}"
  by code_simp

lemma view_credential_errors: "credential_errors (toDrmConfigView c env) = []"
proof -
  have "named DRM_CREDENTIAL_STATUSES (JStr (status_name st)) \<noteq> None" for st
    by (cases st) (simp_all add: status_name_def DRM_CREDENTIAL_STATUSES_def)
  then show ?thesis using set_keys_view [of c env] names_no_secret view_credentials [of c env]
    by (auto simp: credential_errors_def filter_empty_conv)
qed

lemma view_unknown_errors: "unknown_errors (toDrmConfigView c env) = []"
  using set_keys_view [of c env] by (auto simp: unknown_errors_def filter_empty_conv DRM_CONFIG_VIEW_ONLY_FIELD_NAMES_def)

lemma view_valid: "validateDrmStackConfig parse (JObj c) = [] \<Longrightarrow> validateDrmStackConfig parse (JObj (toDrmConfigView (projectDrmStackConfig c) env)) = []"
  using view_credential_errors [of "projectDrmStackConfig c" env] view_unknown_errors [of "projectDrmStackConfig c" env]
    checked_cong [of "toDrmConfigView (projectDrmStackConfig c) env" c parse]
  unfolding validate_none by (simp add: map_of_view map_of_project)

text \<open>C27. What is stored comes back: after a block was stored, reading it gives its twelve coordinates and
  nothing else, typed as it was submitted; the other fields of the stack and the other stacks are as
  before; and submitting the block as it is shown, with the credential status the view adds, is accepted
  and changes nothing.\<close>

theorem stored_block_round_trips:
  assumes "storeDrmStackConfig parse env ps w n drm = Inr ps'"
  shows "loadDrmStackConfig env ps' w n = Some (JObj (projectDrmStackConfig drm))
    \<and> set (keys (projectDrmStackConfig drm)) \<subseteq> set DRM_STACK_CONFIG_FIELD_NAMES
    \<and> config_of (JObj (projectDrmStackConfig drm)) = config_of (JObj drm) \<and> config_of (JObj drm) \<noteq> None
    \<and> (\<forall>k. k \<noteq> ''drm'' \<longrightarrow> map_of (the (ps' (w, n))) k = map_of (the (ps (w, n))) k)
    \<and> (\<forall>q. q \<noteq> (w, n) \<longrightarrow> ps' q = ps q)
    \<and> storeDrmStackConfig parse env ps' w n (toDrmConfigView (projectDrmStackConfig drm) env') = Inr ps'"
proof -
  have on: "drmEnabled env" and v: "validateDrmStackConfig parse (JObj drm) = []"
    using assms by (auto simp: storeDrmStackConfig_def split: if_splits)
  obtain ex where ex: "ps (w, n) = Some ex" using assms on v by (auto simp: storeDrmStackConfig_def split: option.splits)
  let ?new = "AList.update ''drm'' (JObj (projectDrmStackConfig drm)) ex"
  have ps': "ps' = ps((w, n) \<mapsto> ?new)" using assms on v ex by (simp add: storeDrmStackConfig_def obj_spread_def)
  have c: "config_of (JObj drm) \<noteq> None" using typed_block [OF v] by auto
  have same: "config_of (JObj (projectDrmStackConfig drm)) = config_of (JObj drm)"
    by (rule config_of_cong) (simp add: map_of_project)
  have again: "projectDrmStackConfig (toDrmConfigView (projectDrmStackConfig drm) env') = projectDrmStackConfig drm"
    by (rule project_cong) (simp add: map_of_view map_of_project)
  have idem: "storeDrmStackConfig parse env ps' w n (toDrmConfigView (projectDrmStackConfig drm) env') = Inr ps'"
    using on view_valid [OF v, of env'] again by (simp add: storeDrmStackConfig_def ps' obj_spread_def)
  show ?thesis using on c same idem set_keys_project [of drm] ex
    by (auto simp: loadDrmStackConfig_def ps')
qed

theorem stored_block_round_trips_witness:
  "\<exists>ps'. loadDrmStackConfig (\<lambda>k. Some ''true'') ps' ''w'' ''s'' = Some (JObj [(''enabled'', JBool True), (''providerKind'', JStr ''clearkey-dev''), (''providerId'', JStr ''dev'')])"
proof -
  let ?d = "[(''providerId'', JStr ''dev''), (''enabled'', JBool True), (''providerKind'', JStr ''clearkey-dev'')]"
  let ?ps = "[(''w'', ''s'') \<mapsto> [(''services'', JArr [])]] :: param_store"
  have v: "validateDrmStackConfig (\<lambda>u. None) (JObj ?d) = []" by code_simp
  have p: "projectDrmStackConfig ?d = [(''enabled'', JBool True), (''providerKind'', JStr ''clearkey-dev''), (''providerId'', JStr ''dev'')]" by code_simp
  have "storeDrmStackConfig (\<lambda>u. None) (\<lambda>k. Some ''true'') ?ps ''w'' ''s'' ?d =
     Inr (?ps((''w'', ''s'') \<mapsto> obj_spread [(''services'', JArr [])] [(''drm'', JObj (projectDrmStackConfig ?d))]))"
    using v by (simp add: storeDrmStackConfig_def drmEnabled_def del: validateDrmStackConfig.simps)
  from conjunct1 [OF stored_block_round_trips [OF this]] p show ?thesis by auto
qed

end
