(* ===== verification/Packaging_Drm.thy ===== *)
theory Packaging_Drm
  imports Drm_Config Asset_Claims "HOL-Library.Word"
begin

text \<open>
  The package step with its key acquisition (\<^verbatim>\<open>src/src/pipeline/packaging.ts\<close>, \<^verbatim>\<open>src/src/drm/key-provider.ts\<close>):
  the capability gate, the key request, what is recorded on the asset, the job handed to the runner, and
  the zeroing of the keys. The runner, the key provider and whether a repository write is rejected are
  arguments. A call that loses the race with the deadline of the step has an outcome of its own: its
  work may still land.
\<close>

section \<open>Vocabulary\<close>

record packaging_capabilities =
  cap_encryption :: bool
  cap_schemes :: "protection_scheme list"
  cap_systems :: "string list"

definition NO_ENCRYPTION_CAPABILITY :: packaging_capabilities where
  "NO_ENCRYPTION_CAPABILITY = \<lparr> cap_encryption = False, cap_schemes = [], cap_systems = [] \<rparr>"

definition DEFAULT_DRM_SYSTEM_IDS :: "string list" where
  "DEFAULT_DRM_SYSTEM_IDS = [''edef8ba9-79d6-4ace-a3c8-27dcd51d21ed'', ''9a04f079-9840-4286-ab92-e65be0885f95'',
     ''94ce86fb-07ff-4f43-adb8-93d2fa968ca2'']"

definition resolveDrmSystemIds :: "string list option \<Rightarrow> string list" where
  "resolveDrmSystemIds configured = (case configured of Some (x # xs) \<Rightarrow> x # xs | _ \<Rightarrow> DEFAULT_DRM_SYSTEM_IDS)"

record key_request =
  kr_contentId :: string
  kr_systems :: "string list"
  kr_scheme :: protection_scheme
  kr_trackGroups :: "track_type_group list"
  kr_keyIds :: "(track_type_group, string) jsmap option"

record content_key =
  ck_trackGroup :: track_type_group
  ck_keyId :: string
  ck_key :: "8 word list"
  ck_iv :: "string option"

text \<open>The members the step reads.\<close>

record drm_signalling =
  sg_pssh :: "(string, string) jsmap"
  sg_licenceUrls :: "(string, string) jsmap"
  sg_certificateUrl :: "string option"
  sg_hlsKeyUri :: "string option"

record encryption_params =
  en_scheme :: protection_scheme
  en_keys :: "(track_type_group \<times> string \<times> string) list"
  en_pssh :: "(string, string) jsmap"
  en_hlsKeyUri :: "string option"
  en_protectionSystems :: "string list"

record packaging_job =
  pj_jobId :: string
  pj_url :: string
  pj_encryption :: "encryption_params option"

record step_drm_request =
  sr_providerId :: "string option"
  sr_systems :: "string list option"
  sr_scheme :: "protection_scheme option"

record packaging_step_request =
  pr_jobId :: string
  pr_url :: string
  pr_packageJobId :: "string option"
  pr_drm :: "step_drm_request option"

datatype packaging_refusal = UnsupportedRefusal | SystemsRefusal | SchemeRefusal | NotConfiguredRefusal

definition refusal_status :: "packaging_refusal \<Rightarrow> nat" where
  "refusal_status r = (if r = NotConfiguredRefusal then 501 else 409)"

datatype packaging_outcome = Proceeded bool | Refused packaging_refusal

section \<open>The runner, the provider and the asset\<close>

datatype runner_answer = RunnerTakes | RunnerThrows | RunnerTakesLate

datatype acquire_answer = Acquired "content_key list" drm_signalling | AcquireThrows "drm_error_code option"
  | AcquireLate "content_key list"

text \<open>\<open>pd_capabilities\<close> is \<open>None\<close> when the probe throws, \<open>pd_locator\<close> when no locator is wired. A provider is
  its id and its answer to a request.\<close>

record packaging_env =
  pd_capabilities :: "packaging_capabilities option"
  pd_enqueue :: "packaging_job \<Rightarrow> runner_answer"
  pd_keyProvider :: "(string \<times> (key_request \<Rightarrow> acquire_answer)) option"
  pd_locator :: "(param_store \<times> string \<times> string) option"
  pd_paramThrows :: bool
  pd_env :: "string \<Rightarrow> string option"
  pd_hasAssets :: bool
  pd_getThrows :: bool
  pd_updateThrows :: "drm_status \<Rightarrow> bool"
  pd_now :: string

datatype drm_audit = KeysRequested string string "string list" "string list"
  | ProtectedEvent string string "string list"
  | FailedEvent string string "string list" "string list" drm_error_code

record packaging_state =
  pg_assets :: asset_repo
  pg_requests :: "key_request list"
  pg_buffers :: "content_key list"
  pg_enqueued :: "packaging_job list"
  pg_audit :: "drm_audit list"

datatype step_error = ProbeThrew | ConfigThrew | NoKeyProvider | StoreThrew | AcquisitionFailed drm_error_code | EnqueueFailed

section \<open>The runner of the clear queue\<close>

definition clearPackagingRunner :: "(packaging_job \<Rightarrow> runner_answer) \<Rightarrow> packaging_job \<Rightarrow> runner_answer" where
  "clearPackagingRunner queue job =
     (if pj_encryption job \<noteq> None then RunnerThrows
      else queue \<lparr> pj_jobId = pj_jobId job, pj_url = pj_url job, pj_encryption = None \<rparr>)"

definition runner_enqueue :: "packaging_env \<Rightarrow> packaging_job \<Rightarrow> packaging_state \<Rightarrow> packaging_state \<times> bool" where
  "runner_enqueue e job s = (case pd_enqueue e job of
       RunnerTakes \<Rightarrow> (s\<lparr> pg_enqueued := pg_enqueued s @ [job] \<rparr>, True)
     | RunnerThrows \<Rightarrow> (s, False)
     | RunnerTakesLate \<Rightarrow> (s\<lparr> pg_enqueued := pg_enqueued s @ [job] \<rparr>, False))"

section \<open>Steps of the key acquisition\<close>

definition DRM_STEP_ERROR_MESSAGES :: "drm_error_code \<Rightarrow> string option" where
  "DRM_STEP_ERROR_MESSAGES c = (case c of
       KeyProviderUnreachable \<Rightarrow> Some ''the key provider could not be reached within the key-acquisition deadline''
     | KeyProviderRejected \<Rightarrow> Some ''the key provider rejected the key request''
     | KeyProviderInvalidResponse \<Rightarrow> Some ''the key provider returned a response that could not be parsed''
     | DrmNotConfigured \<Rightarrow> Some ''DRM is not configured on this deployment''
     | PackagingFailed \<Rightarrow> Some ''content keys were acquired but the package job could not be enqueued''
     | DrmUnsupportedCode \<Rightarrow> None)"

text \<open>The outer option is the refusal; the stored block is read at the type validation gave it.\<close>

definition resolveDrmStepConfig :: "packaging_env \<Rightarrow> drm_stack_config option option" where
  "resolveDrmStepConfig e = (case pd_locator e of
       None \<Rightarrow> Some None
     | Some (ps, workspaceId, stackName) \<Rightarrow>
         (case loadDrmStackConfig (pd_env e) ps workspaceId stackName of
            None \<Rightarrow> None
          | Some block \<Rightarrow>
              (case config_of block of
                 None \<Rightarrow> None
               | Some config \<Rightarrow>
                   if \<not> dc_enabled config then None
                   else if dc_providerKind config = Cpix
                        \<and> readDrmCredentialStatus (coalesce (dc_authMode config) AuthBasic) (pd_env e) = CredentialMissing then None
                   else Some (Some config))))"

definition DEFAULT_TRACK_GROUP :: track_type_group where "DEFAULT_TRACK_GROUP = SD"

definition resolveTrackGroups :: "track_type_group list option \<Rightarrow> (track_type_group \<times> string) list option \<Rightarrow> track_type_group list" where
  "resolveTrackGroups configured persisted =
     foldl (\<lambda>groups entry. if fst entry \<in> set groups then groups else groups @ [fst entry])
       (case configured of Some (g # gs) \<Rightarrow> g # gs | _ \<Rightarrow> [DEFAULT_TRACK_GROUP]) (coalesce persisted [])"

definition persistedKeyIdMap :: "(track_type_group \<times> string) list option \<Rightarrow> track_type_group list \<Rightarrow> (track_type_group, string) jsmap option" where
  "persistedKeyIdMap persisted trackGroups =
     (let m = foldl (\<lambda>m (g, i). if g \<notin> set trackGroups then m else if map_of m g \<noteq> None then m else m @ [(g, i)]) [] (coalesce persisted [])
      in if m \<noteq> [] then Some m else None)"

definition resolveLicenceUrls :: "string list \<Rightarrow> drm_signalling \<Rightarrow> drm_stack_config option \<Rightarrow> (string, string) jsmap option" where
  "resolveLicenceUrls systems signalling config =
     (let urls = foldl (\<lambda>urls system.
            case (case map_of (sg_licenceUrls signalling) system of Some u \<Rightarrow> Some u
                  | None \<Rightarrow> (case config of None \<Rightarrow> None | Some c \<Rightarrow>
                      (case dc_licenceUrls c of None \<Rightarrow> None | Some m \<Rightarrow> map_of m system))) of
              None \<Rightarrow> urls | Some url \<Rightarrow> AList.update system url urls) [] systems
      in if urls \<noteq> [] then Some urls else None)"

fun first_url :: "(string, string) jsmap option \<Rightarrow> string list \<Rightarrow> string option" where
  "first_url m [] = None"
| "first_url m (system # systems) =
     (case (case m of None \<Rightarrow> None | Some us \<Rightarrow> map_of us system) of Some url \<Rightarrow> Some url | None \<Rightarrow> first_url m systems)"

definition resolveCertificateUrl :: "string list \<Rightarrow> drm_signalling \<Rightarrow> drm_stack_config option \<Rightarrow> string option" where
  "resolveCertificateUrl systems signalling config =
     (case sg_certificateUrl signalling of Some u \<Rightarrow> Some u
      | None \<Rightarrow> first_url (case config of None \<Rightarrow> None | Some c \<Rightarrow> dc_certificateUrls c) systems)"

definition classifyKeyAcquisitionError :: "drm_error_code option \<Rightarrow> drm_error_code" where
  "classifyKeyAcquisitionError err = coalesce err KeyProviderUnreachable"

definition asset_drm_write :: "packaging_env \<Rightarrow> string \<Rightarrow> asset_drm \<Rightarrow> packaging_state \<Rightarrow> packaging_state \<times> bool" where
  "asset_drm_write e assetId drm s =
     (if pd_updateThrows e (drm_status drm) then (s, False)
      else case update_asset assetId (empty_patch\<lparr> u_drm := Some drm \<rparr>) (pd_now e) (pg_assets s) of
             Inl err \<Rightarrow> (s, False) | Inr (r, _) \<Rightarrow> (s\<lparr> pg_assets := r \<rparr>, True))"

text \<open>The flag is whether the call returned.\<close>

definition persistDrmState :: "packaging_env \<Rightarrow> string \<Rightarrow> asset_drm \<Rightarrow> packaging_state \<Rightarrow> packaging_state \<times> bool" where
  "persistDrmState e assetId st s =
     (if \<not> pd_hasAssets e then (s, True)
      else let drm = st\<lparr> drm_error := (case drm_errorCode st of None \<Rightarrow> None | Some c \<Rightarrow> DRM_STEP_ERROR_MESSAGES c) \<rparr>;
               (s', written) = asset_drm_write e assetId drm s
           in (s', written \<or> drm_status st = DrmFailed))"

definition zeroContentKeys :: "content_key list \<Rightarrow> content_key list" where
  "zeroContentKeys = List.map (\<lambda>k. k\<lparr> ck_key := replicate (length (ck_key k)) 0 \<rparr>)"

text \<open>\<^verbatim>\<open>Buffer.from(bytes).toString('base64')\<close>.\<close>

definition base64_char :: "nat \<Rightarrow> char" where
  "base64_char n = ''ABCDEFGHIJKLMNOPQRSTUVWXYZabcdefghijklmnopqrstuvwxyz0123456789+/'' ! (n mod 64)"

fun base64 :: "8 word list \<Rightarrow> string" where
  "base64 [] = []"
| "base64 [a] = [base64_char (unat a div 4), base64_char (unat a mod 4 * 16), CHR ''='', CHR ''='']"
| "base64 [a, b] = [base64_char (unat a div 4), base64_char (unat a mod 4 * 16 + unat b div 16),
     base64_char (unat b mod 16 * 4), CHR ''='']"
| "base64 (a # b # c # r) = [base64_char (unat a div 4), base64_char (unat a mod 4 * 16 + unat b div 16),
     base64_char (unat b mod 16 * 4 + unat c div 64), base64_char (unat c mod 64)] @ base64 r"

definition toEncryptionParams :: "protection_scheme \<Rightarrow> string list \<Rightarrow> content_key list \<Rightarrow> drm_signalling \<Rightarrow> encryption_params" where
  "toEncryptionParams scheme systems ks signalling =
     \<lparr> en_scheme = scheme, en_keys = List.map (\<lambda>k. (ck_trackGroup k, ck_keyId k, base64 (ck_key k))) ks,
       en_pssh = foldl (\<lambda>m system. case map_of (sg_pssh signalling) system of None \<Rightarrow> m | Some v \<Rightarrow> AList.update system v m) [] systems,
       en_hlsKeyUri = sg_hlsKeyUri signalling, en_protectionSystems = systems \<rparr>"

section \<open>The step\<close>

record drm_plan =
  dp_config :: "drm_stack_config option"
  dp_scheme :: protection_scheme
  dp_systems :: "string list"
  dp_providerId :: string
  dp_acquire :: "key_request \<Rightarrow> acquire_answer"

text \<open>Everything before the asset is read: the capability, the configuration, the scheme, the systems, the provider.\<close>

definition plan_encryption :: "packaging_env \<Rightarrow> step_drm_request \<Rightarrow> step_error + (packaging_refusal + drm_plan)" where
  "plan_encryption e drm = (case pd_capabilities e of
       None \<Rightarrow> Inl ProbeThrew
     | Some caps \<Rightarrow>
         if \<not> cap_encryption caps then Inr (Inl UnsupportedRefusal)
         else if pd_locator e \<noteq> None \<and> drmEnabled (pd_env e) \<and> pd_paramThrows e then Inl ConfigThrew
         else (case resolveDrmStepConfig e of
            None \<Rightarrow> Inr (Inl NotConfiguredRefusal)
          | Some config \<Rightarrow>
              (case (case sr_scheme drm of Some sc \<Rightarrow> Some sc
                     | None \<Rightarrow> (case Option.bind config dc_scheme of Some sc \<Rightarrow> Some sc
                        | None \<Rightarrow> (case cap_schemes caps of [] \<Rightarrow> None | sc # scs \<Rightarrow> Some sc))) of
                 None \<Rightarrow> Inr (Inl SchemeRefusal)
               | Some scheme \<Rightarrow>
                   if scheme \<notin> set (cap_schemes caps) then Inr (Inl SchemeRefusal)
                   else let systems = filter (\<lambda>i. i \<in> set (cap_systems caps))
                          (resolveDrmSystemIds (case sr_systems drm of Some l \<Rightarrow> Some l | None \<Rightarrow> Option.bind config dc_systems)) in
                     if systems = [] then Inr (Inl SystemsRefusal)
                     else (case pd_keyProvider e of
                         None \<Rightarrow> Inl NoKeyProvider
                       | Some (pid, acquire) \<Rightarrow> Inr (Inr \<lparr> dp_config = config, dp_scheme = scheme, dp_systems = systems,
                           dp_providerId = (case sr_providerId drm of Some p \<Rightarrow> p
                             | None \<Rightarrow> (case config of Some c \<Rightarrow> dc_providerId c | None \<Rightarrow> pid)), dp_acquire = acquire \<rparr>)))))"

definition key_ids :: "content_key list \<Rightarrow> (track_type_group \<times> string) list" where
  "key_ids = List.map (\<lambda>k. (ck_trackGroup k, ck_keyId k))"

definition drm_block :: "drm_plan \<Rightarrow> drm_status \<Rightarrow> (track_type_group \<times> string) list \<Rightarrow> string \<Rightarrow> drm_error_code option \<Rightarrow> asset_drm" where
  "drm_block p st ks requestedAt code = \<lparr> drm_status = st, drm_providerId = dp_providerId p, drm_scheme = dp_scheme p,
     drm_systems = dp_systems p, drm_keyIds = ks, drm_licenceUrls = None, drm_certificateUrl = None, drm_requestedAt = requestedAt,
     drm_protectedAt = None, drm_error = None, drm_errorCode = code, drm_packageJobId = None \<rparr>"

text \<open>A failure is recorded and audited, then thrown again.\<close>

definition step_fails :: "packaging_env \<Rightarrow> string \<Rightarrow> drm_plan \<Rightarrow> (track_type_group \<times> string) list \<Rightarrow> string \<Rightarrow> drm_error_code
    \<Rightarrow> packaging_state \<Rightarrow> packaging_state" where
  "step_fails e assetId p ks requestedAt code s =
     (let s' = fst (persistDrmState e assetId (drm_block p DrmFailed ks requestedAt (Some code)) s)
      in s'\<lparr> pg_audit := pg_audit s' @ [FailedEvent assetId (dp_providerId p) (dp_systems p) (List.map snd ks) code] \<rparr>)"

text \<open>Steps 4 to 6: the pending block, the enqueue, the zeroing whichever way they end.\<close>

definition hand_over :: "packaging_env \<Rightarrow> packaging_step_request \<Rightarrow> drm_plan \<Rightarrow> string \<Rightarrow> content_key list \<Rightarrow> drm_signalling
    \<Rightarrow> packaging_state \<Rightarrow> packaging_state \<times> (step_error + packaging_outcome)" where
  "hand_over e r p requestedAt ks sig s =
     (let pending = (drm_block p DrmPending (key_ids ks) requestedAt None)\<lparr>
            drm_licenceUrls := resolveLicenceUrls (dp_systems p) sig (dp_config p),
            drm_certificateUrl := resolveCertificateUrl (dp_systems p) sig (dp_config p), drm_packageJobId := pr_packageJobId r \<rparr>;
          (s1, written) = persistDrmState e (pr_jobId r) pending s
      in if \<not> written then (s1, Inl StoreThrew)
         else let s2 = s1\<lparr> pg_audit := pg_audit s1 @ [KeysRequested (pr_jobId r) (dp_providerId p) (dp_systems p) (List.map ck_keyId ks)] \<rparr>;
                  (s3, taken) = runner_enqueue e \<lparr> pj_jobId = pr_jobId r, pj_url = pr_url r,
                     pj_encryption = Some (toEncryptionParams (dp_scheme p) (dp_systems p) ks sig) \<rparr> s2
              in if taken then (s3, Inr (Proceeded True))
                 else (step_fails e (pr_jobId r) p (key_ids ks) requestedAt PackagingFailed s3, Inl EnqueueFailed))"

definition acquire_and_hand_over :: "packaging_env \<Rightarrow> packaging_step_request \<Rightarrow> drm_plan \<Rightarrow> asset_drm option
    \<Rightarrow> packaging_state \<Rightarrow> packaging_state \<times> (step_error + packaging_outcome)" where
  "acquire_and_hand_over e r p persisted s =
     (let persistedIds = map_option drm_keyIds persisted;
          groups = resolveTrackGroups (Option.bind (dp_config p) dc_trackGroups) persistedIds;
          request = \<lparr> kr_contentId = pr_jobId r, kr_systems = dp_systems p, kr_scheme = dp_scheme p,
            kr_trackGroups = groups, kr_keyIds = persistedKeyIdMap persistedIds groups \<rparr>;
          requestedAt = (case persisted of Some d \<Rightarrow> drm_requestedAt d | None \<Rightarrow> pd_now e);
          s1 = s\<lparr> pg_requests := pg_requests s @ [request] \<rparr>;
          failed = (\<lambda>code t. (step_fails e (pr_jobId r) p (coalesce persistedIds []) requestedAt code t, Inl (AcquisitionFailed code)))
      in case dp_acquire p request of
           AcquireThrows err \<Rightarrow> failed (classifyKeyAcquisitionError err) s1
         | AcquireLate ks \<Rightarrow> failed (classifyKeyAcquisitionError None) (s1\<lparr> pg_buffers := pg_buffers s1 @ ks \<rparr>)
         | Acquired ks sig \<Rightarrow>
             let (s2, res) = hand_over e r p requestedAt ks sig s1
             in (s2\<lparr> pg_buffers := pg_buffers s2 @ zeroContentKeys ks \<rparr>, res))"

definition enqueuePackagingStep :: "packaging_env \<Rightarrow> packaging_step_request \<Rightarrow> packaging_state
    \<Rightarrow> packaging_state \<times> (step_error + packaging_outcome)" where
  "enqueuePackagingStep e r s = (case pr_drm r of
       None \<Rightarrow>
         let job = \<lparr> pj_jobId = pr_jobId r, pj_url = pr_url r, pj_encryption = None \<rparr> in
         if pd_enqueue e job = RunnerThrows then (s, Inl EnqueueFailed)
         else (s\<lparr> pg_enqueued := pg_enqueued s @ [job] \<rparr>, Inr (Proceeded False))
     | Some drm \<Rightarrow>
         (case plan_encryption e drm of
            Inl err \<Rightarrow> (s, Inl err)
          | Inr (Inl refusal) \<Rightarrow> (s, Inr (Refused refusal))
          | Inr (Inr p) \<Rightarrow>
              if pd_hasAssets e \<and> pd_getThrows e then (s, Inl StoreThrew)
              else acquire_and_hand_over e r p
                (if pd_hasAssets e then Option.bind (get (pg_assets s) (pr_jobId r)) a_drm else None) s))"

section \<open>What the pieces change\<close>

lemma get_put: "get (put i a r) k = (if k = i then Some a else get r k)"
  by (simp add: get_def put_def)

lemma persist_keeps [simp]:
  "pg_enqueued (fst (persistDrmState e i b s)) = pg_enqueued s" "pg_buffers (fst (persistDrmState e i b s)) = pg_buffers s"
  "pg_requests (fst (persistDrmState e i b s)) = pg_requests s"
  by (simp_all add: persistDrmState_def asset_drm_write_def Let_def split: sum.split prod.split)

lemma step_fails_keeps [simp]:
  "pg_enqueued (step_fails e i p ks t c s) = pg_enqueued s" "pg_buffers (step_fails e i p ks t c s) = pg_buffers s"
  "pg_requests (step_fails e i p ks t c s) = pg_requests s"
  by (simp_all add: step_fails_def Let_def)

lemma runner_keeps [simp]:
  "pg_buffers (fst (runner_enqueue e j s)) = pg_buffers s" "pg_requests (fst (runner_enqueue e j s)) = pg_requests s"
  by (simp_all add: runner_enqueue_def split: runner_answer.split)

lemma runner_enqueued:
  "pg_enqueued (fst (runner_enqueue e j s)) = (if pd_enqueue e j = RunnerThrows then pg_enqueued s else pg_enqueued s @ [j])"
  "snd (runner_enqueue e j s) \<longrightarrow> pd_enqueue e j \<noteq> RunnerThrows"
  by (simp_all add: runner_enqueue_def split: runner_answer.split)

lemma hand_over_keeps [simp]:
  "pg_buffers (fst (hand_over e r p t ks sig s)) = pg_buffers s" "pg_requests (fst (hand_over e r p t ks sig s)) = pg_requests s"
  by (simp_all add: hand_over_def Let_def split_beta)

definition encrypted_job :: "packaging_step_request \<Rightarrow> drm_plan \<Rightarrow> content_key list \<Rightarrow> drm_signalling \<Rightarrow> packaging_job" where
  "encrypted_job r p ks sig = \<lparr> pj_jobId = pr_jobId r, pj_url = pr_url r,
     pj_encryption = Some (toEncryptionParams (dp_scheme p) (dp_systems p) ks sig) \<rparr>"

lemma hand_over_job:
  "pg_enqueued (fst (hand_over e r p t ks sig s)) = pg_enqueued s \<and> snd (hand_over e r p t ks sig s) \<noteq> Inr (Proceeded True)
   \<or> pg_enqueued (fst (hand_over e r p t ks sig s)) = pg_enqueued s @ [encrypted_job r p ks sig]"
  "snd (hand_over e r p t ks sig s) \<in> {Inr (Proceeded True), Inl StoreThrew, Inl EnqueueFailed}"
  using runner_enqueued by (simp_all add: hand_over_def Let_def split_beta encrypted_job_def)

lemma acquire_job:
  obtains (none) "pg_enqueued (fst (acquire_and_hand_over e r p d s)) = pg_enqueued s"
      "snd (acquire_and_hand_over e r p d s) \<noteq> Inr (Proceeded True)"
  | (one) q ks sig where "dp_acquire p q = Acquired ks sig"
      "pg_enqueued (fst (acquire_and_hand_over e r p d s)) = pg_enqueued s @ [encrypted_job r p ks sig]"
proof -
  let ?ids = "map_option drm_keyIds d"
  let ?g = "resolveTrackGroups (Option.bind (dp_config p) dc_trackGroups) ?ids"
  let ?q = "\<lparr> kr_contentId = pr_jobId r, kr_systems = dp_systems p, kr_scheme = dp_scheme p,
            kr_trackGroups = ?g, kr_keyIds = persistedKeyIdMap ?ids ?g \<rparr>"
  show ?thesis
  proof (cases "dp_acquire p ?q")
    case (Acquired ks sig)
    let ?t = "case d of Some d \<Rightarrow> drm_requestedAt d | None \<Rightarrow> pd_now e"
    let ?s = "s\<lparr> pg_requests := pg_requests s @ [?q] \<rparr>"
    have "pg_enqueued (fst (acquire_and_hand_over e r p d s)) = pg_enqueued (fst (hand_over e r p ?t ks sig ?s))"
      "snd (acquire_and_hand_over e r p d s) = snd (hand_over e r p ?t ks sig ?s)"
      using Acquired by (simp_all add: acquire_and_hand_over_def Let_def split_beta)
    then show ?thesis using hand_over_job(1) [of e r p ?t ks sig ?s] Acquired none one [OF Acquired] by auto
  next
    case (AcquireThrows err)
    then show ?thesis using none by (simp add: acquire_and_hand_over_def Let_def)
  next
    case (AcquireLate ks)
    then show ?thesis using none by (simp add: acquire_and_hand_over_def Let_def)
  qed
qed

lemma acquire_result: "snd (acquire_and_hand_over e r p d s) \<notin> range (Inr \<circ> Refused) \<union> {Inr (Proceeded False)}"
proof -
  have "snd (hand_over e r p t ks sig u) \<notin> range (Inr \<circ> Refused) \<union> {Inr (Proceeded False)}" for t ks sig u
    using hand_over_job(2) [of e r p t ks sig u] by auto
  then show ?thesis by (auto simp: acquire_and_hand_over_def Let_def split_beta split: acquire_answer.split)
qed

lemma plan_satisfiable:
  assumes "plan_encryption e drm = Inr (Inr p)"
  obtains caps pid where "pd_capabilities e = Some caps" "cap_encryption caps" "dp_scheme p \<in> set (cap_schemes caps)"
    "dp_systems p \<noteq> []" "set (dp_systems p) \<subseteq> set (cap_systems caps)" "pd_keyProvider e = Some (pid, dp_acquire p)"
proof -
  obtain caps where c: "pd_capabilities e = Some caps" using assms by (cases "pd_capabilities e") (simp_all add: plan_encryption_def)
  have "cap_encryption caps \<and> dp_scheme p \<in> set (cap_schemes caps) \<and> dp_systems p \<noteq> [] \<and> set (dp_systems p) \<subseteq> set (cap_systems caps)
      \<and> (\<exists>pid. pd_keyProvider e = Some (pid, dp_acquire p))"
    using assms c by (auto simp: plan_encryption_def Let_def split: if_splits option.splits)
  then show ?thesis using that c by blast
qed

section \<open>Properties\<close>

text \<open>C28. A package that was asked to be protected is never made clear: the one job that may reach the runner
  carries encryption with a scheme and systems the runner reported, at least one, and the keys the
  provider gave for this request; the step does not say that it went ahead unless that job was handed
  over; and a refusal comes before anything was asked, written or enqueued.\<close>

theorem protected_request_never_clear:
  assumes "pr_drm r = Some drm" "enqueuePackagingStep e r s = (s', res)"
  shows "(pg_enqueued s' = pg_enqueued s \<and> res \<noteq> Inr (Proceeded True)
     \<or> (\<exists>j p caps pid acq q ks sig. pg_enqueued s' = pg_enqueued s @ [j] \<and> pj_jobId j = pr_jobId r \<and> pj_url j = pr_url r
         \<and> pj_encryption j = Some p \<and> pd_capabilities e = Some caps \<and> cap_encryption caps
         \<and> en_scheme p \<in> set (cap_schemes caps) \<and> en_protectionSystems p \<noteq> [] \<and> set (en_protectionSystems p) \<subseteq> set (cap_systems caps)
         \<and> pd_keyProvider e = Some (pid, acq) \<and> acq q = Acquired ks sig
         \<and> en_keys p = List.map (\<lambda>k. (ck_trackGroup k, ck_keyId k, base64 (ck_key k))) ks))
    \<and> res \<noteq> Inr (Proceeded False) \<and> (\<forall>x. res = Inr (Refused x) \<longrightarrow> s' = s)"
proof (cases "plan_encryption e drm")
  case (Inl err)
  then show ?thesis using assms by (auto simp: enqueuePackagingStep_def)
next
  case (Inr b)
  show ?thesis
  proof (cases b)
    case (Inl x)
    then show ?thesis using assms \<open>plan_encryption e drm = Inr b\<close> by (auto simp: enqueuePackagingStep_def)
  next
    case (Inr p)
    have pl: "plan_encryption e drm = Inr (Inr p)" using \<open>plan_encryption e drm = Inr b\<close> Inr by simp
    show ?thesis
    proof (cases "pd_hasAssets e \<and> pd_getThrows e")
      case True
      then show ?thesis using assms pl by (auto simp: enqueuePackagingStep_def)
    next
      case False
      let ?d = "if pd_hasAssets e then Option.bind (get (pg_assets s) (pr_jobId r)) a_drm else None"
      have run: "acquire_and_hand_over e r p ?d s = (s', res)" using assms pl False by (simp add: enqueuePackagingStep_def)
      have res: "res \<noteq> Inr (Proceeded False)" "\<forall>x. res \<noteq> Inr (Refused x)" using acquire_result [of e r p ?d s] unfolding run by auto
      obtain caps pid where c: "pd_capabilities e = Some caps" "cap_encryption caps" "dp_scheme p \<in> set (cap_schemes caps)"
        "dp_systems p \<noteq> []" "set (dp_systems p) \<subseteq> set (cap_systems caps)" "pd_keyProvider e = Some (pid, dp_acquire p)"
        using plan_satisfiable [OF pl] by blast
      show ?thesis
      proof (cases rule: acquire_job [of e r p ?d s])
        case none
        then show ?thesis using res unfolding run by simp
      next
        case (one q ks sig)
        have f: "pj_jobId (encrypted_job r p ks sig) = pr_jobId r" "pj_url (encrypted_job r p ks sig) = pr_url r"
          "pj_encryption (encrypted_job r p ks sig) = Some (toEncryptionParams (dp_scheme p) (dp_systems p) ks sig)"
          by (simp_all add: encrypted_job_def)
        have g: "en_scheme (toEncryptionParams (dp_scheme p) (dp_systems p) ks sig) = dp_scheme p"
          "en_protectionSystems (toEncryptionParams (dp_scheme p) (dp_systems p) ks sig) = dp_systems p"
          "en_keys (toEncryptionParams (dp_scheme p) (dp_systems p) ks sig) = List.map (\<lambda>k. (ck_trackGroup k, ck_keyId k, base64 (ck_key k))) ks"
          by (simp_all add: toEncryptionParams_def)
        have h: "pg_enqueued s' = pg_enqueued s @ [encrypted_job r p ks sig]" using one(2) unfolding run by simp
        have "\<exists>j p caps pid acq q ks sig. pg_enqueued s' = pg_enqueued s @ [j] \<and> pj_jobId j = pr_jobId r \<and> pj_url j = pr_url r
         \<and> pj_encryption j = Some p \<and> pd_capabilities e = Some caps \<and> cap_encryption caps
         \<and> en_scheme p \<in> set (cap_schemes caps) \<and> en_protectionSystems p \<noteq> [] \<and> set (en_protectionSystems p) \<subseteq> set (cap_systems caps)
         \<and> pd_keyProvider e = Some (pid, acq) \<and> acq q = Acquired ks sig
         \<and> en_keys p = List.map (\<lambda>k. (ck_trackGroup k, ck_keyId k, base64 (ck_key k))) ks"
          by (intro exI conjI, rule h, rule f(1), rule f(2), rule f(3), rule c(1), rule c(2), unfold g)
            (rule c(3), rule c(4), rule c(5), rule c(6), rule one(1), rule refl)
        then show ?thesis using res by simp
      qed
    qed
  qed
qed

definition demo_signalling :: drm_signalling where
  "demo_signalling = \<lparr> sg_pssh = [(''sysA'', ''box'')], sg_licenceUrls = [(''sysA'', ''https://lic'')], sg_certificateUrl = None, sg_hlsKeyUri = None \<rparr>"

definition demo_packaging_env :: packaging_env where
  "demo_packaging_env = \<lparr> pd_capabilities = Some \<lparr> cap_encryption = True, cap_schemes = [Cbcs], cap_systems = [''sysA''] \<rparr>,
     pd_enqueue = (\<lambda>j. RunnerTakes),
     pd_keyProvider = Some (''kp'', \<lambda>q. Acquired [\<lparr> ck_trackGroup = SD, ck_keyId = ''k1'', ck_key = [1, 2], ck_iv = None \<rparr>] demo_signalling),
     pd_locator = None, pd_paramThrows = False, pd_env = (\<lambda>k. None), pd_hasAssets = False, pd_getThrows = False,
     pd_updateThrows = (\<lambda>st. False), pd_now = ''t'' \<rparr>"

definition demo_step_request :: packaging_step_request where
  "demo_step_request = \<lparr> pr_jobId = ''A'', pr_url = ''u'', pr_packageJobId = None,
     pr_drm = Some \<lparr> sr_providerId = None, sr_systems = Some [''sysA'', ''sysB''], sr_scheme = None \<rparr> \<rparr>"

definition demo_packaging_state :: packaging_state where
  "demo_packaging_state = \<lparr> pg_assets = \<lparr> store = [], tombstones = [] \<rparr>, pg_requests = [], pg_buffers = [], pg_enqueued = [], pg_audit = [] \<rparr>"

theorem protected_request_never_clear_witness:
  "\<exists>j. pg_enqueued (fst (enqueuePackagingStep demo_packaging_env demo_step_request demo_packaging_state)) = [j] \<and> pj_encryption j \<noteq> None"
proof -
  let ?x = "enqueuePackagingStep demo_packaging_env demo_step_request demo_packaging_state"
  have d: "pr_drm demo_step_request = Some \<lparr> sr_providerId = None, sr_systems = Some [''sysA'', ''sysB''], sr_scheme = None \<rparr>"
    by (simp add: demo_step_request_def)
  have n: "length (pg_enqueued (fst ?x)) = 1" by code_simp
  have z: "pg_enqueued demo_packaging_state = []" by (simp add: demo_packaging_state_def)
  show ?thesis using conjunct1 [OF protected_request_never_clear [OF d, of demo_packaging_env demo_packaging_state "fst ?x" "snd ?x"]] n z by auto
qed

lemma zero_keys: "b \<in> set (zeroContentKeys ks) \<Longrightarrow> set (ck_key b) \<subseteq> {0}"
  by (auto simp: zeroContentKeys_def)


section \<open>A package made again\<close>

lemma set_resolveTrackGroups:
  "set (resolveTrackGroups c persisted) = set (case c of Some (g # gs) \<Rightarrow> g # gs | _ \<Rightarrow> [DEFAULT_TRACK_GROUP]) \<union> fst ` set (coalesce persisted [])"
proof -
  have "set (foldl (\<lambda>groups entry. if fst entry \<in> set groups then groups else groups @ [fst entry]) gs ps) = set gs \<union> fst ` set ps"
    for gs :: "track_type_group list" and ps :: "(track_type_group \<times> string) list"
    by (induction ps arbitrary: gs) auto
  then show ?thesis by (simp add: resolveTrackGroups_def)
qed

lemma persisted_map:
  assumes "fst ` set ps \<subseteq> set gs"
  shows "map_of (coalesce (persistedKeyIdMap (Some ps) gs) []) = map_of ps" "persistedKeyIdMap (Some ps) gs = None \<longleftrightarrow> ps = []"
proof -
  let ?f = "\<lambda>m (g, i). if g \<notin> set gs then m else if map_of m g \<noteq> None then m else m @ [(g, i)]"
  have "map_of (foldl ?f m ps) = map_of ps ++ map_of m" if "fst ` set ps \<subseteq> set gs" for m :: "(track_type_group, string) jsmap"
    using that
  proof (induction ps arbitrary: m)
    case (Cons p ps)
    obtain g i where p: "p = (g, i)" by (cases p)
    have IH: "map_of (foldl ?f m' ps) = map_of ps ++ map_of m'" for m' using Cons by simp
    have g: "g \<in> set gs" using Cons.prems p by simp
    show ?case
    proof (cases "map_of m g")
      case None
      then show ?thesis using IH [of "m @ [(g, i)]"] g p by (auto simp: fun_eq_iff map_add_def split: option.split)
    next
      case (Some v)
      then show ?thesis using IH [of m] g p by (auto simp: fun_eq_iff map_add_def split: option.split)
    qed
  qed simp
  from this [OF assms, of "[]"] have m: "map_of (foldl ?f [] ps) = map_of ps" by simp
  have "foldl ?f [] ps = [] \<longleftrightarrow> map_of (foldl ?f [] ps) = Map.empty" by (rule map_of_eq_empty_iff [symmetric])
  then have e: "foldl ?f [] ps = [] \<longleftrightarrow> ps = []" unfolding m by (simp only: map_of_eq_empty_iff)
  show "map_of (coalesce (persistedKeyIdMap (Some ps) gs) []) = map_of ps"
    using m e by (cases "foldl ?f [] ps = []") (simp_all add: persistedKeyIdMap_def Let_def)
  show "persistedKeyIdMap (Some ps) gs = None \<longleftrightarrow> ps = []" using e by (simp add: persistedKeyIdMap_def Let_def)
qed

lemma acquire_requests:
  "pg_requests (fst (acquire_and_hand_over e r p d s)) = pg_requests s @
     [let persistedIds = map_option drm_keyIds d; groups = resolveTrackGroups (Option.bind (dp_config p) dc_trackGroups) persistedIds
      in \<lparr> kr_contentId = pr_jobId r, kr_systems = dp_systems p, kr_scheme = dp_scheme p,
        kr_trackGroups = groups, kr_keyIds = persistedKeyIdMap persistedIds groups \<rparr>]"
  by (simp add: acquire_and_hand_over_def Let_def split_beta split: acquire_answer.split)

text \<open>C0. Packaging an asset again asks for the keys it already has: when the asset carries key identifiers the
  provider is asked at most once, for every track group that has a key, with exactly the recorded
  identifier of each, so a manifest that is out there keeps its keys.\<close>

theorem repackage_asks_for_same_keys:
  assumes "pr_drm r = Some drm" "pd_hasAssets e" "get (pg_assets s) (pr_jobId r) = Some a" "a_drm a = Some d"
    and "pg_requests (fst (enqueuePackagingStep e r s)) \<noteq> pg_requests s"
  shows "\<exists>q. pg_requests (fst (enqueuePackagingStep e r s)) = pg_requests s @ [q] \<and> kr_contentId q = pr_jobId r
    \<and> fst ` set (drm_keyIds d) \<subseteq> set (kr_trackGroups q) \<and> map_of (coalesce (kr_keyIds q) []) = map_of (drm_keyIds d)
    \<and> (kr_keyIds q = None \<longleftrightarrow> drm_keyIds d = [])"
proof -
  obtain p where run: "enqueuePackagingStep e r s = acquire_and_hand_over e r p (Some d) s"
    using assms by (auto simp: enqueuePackagingStep_def split: sum.splits if_splits)
  let ?g = "resolveTrackGroups (Option.bind (dp_config p) dc_trackGroups) (Some (drm_keyIds d))"
  have g: "fst ` set (drm_keyIds d) \<subseteq> set ?g" by (simp add: set_resolveTrackGroups)
  show ?thesis unfolding run acquire_requests Let_def
    by (intro exI conjI, rule refl) (simp_all add: g persisted_map [OF g])
qed

definition demo_block :: "drm_status \<Rightarrow> asset_drm" where
  "demo_block st = \<lparr> drm_status = st, drm_providerId = ''kp'', drm_scheme = Cbcs, drm_systems = [''sysA''], drm_keyIds = [(HD, ''k0'')],
     drm_licenceUrls = Some [(''sysA'', ''https://lic'')], drm_certificateUrl = None, drm_requestedAt = ''t0'', drm_protectedAt = Some ''t1'',
     drm_error = None, drm_errorCode = None, drm_packageJobId = Some ''J'' \<rparr>"

definition demo_drm_repo :: "drm_status \<Rightarrow> asset_repo" where
  "demo_drm_repo st = put ''A'' (demo_asset\<lparr> a_drm := Some (demo_block st) \<rparr>) demo_repo"

lemma demo_drm_get: "get (demo_drm_repo st) ''A'' = Some (demo_asset\<lparr> a_drm := Some (demo_block st) \<rparr>)"
  by (simp add: demo_drm_repo_def get_put)

definition demo_stored_env :: "acquire_answer \<Rightarrow> packaging_env" where
  "demo_stored_env answer = demo_packaging_env\<lparr> pd_hasAssets := True, pd_env := (\<lambda>k. Some ''true''), pd_keyProvider := Some (''kp'', \<lambda>q. answer) \<rparr>"

definition demo_plan :: "acquire_answer \<Rightarrow> drm_plan" where
  "demo_plan answer = \<lparr> dp_config = None, dp_scheme = Cbcs, dp_systems = [''sysA''], dp_providerId = ''kp'', dp_acquire = (\<lambda>q. answer) \<rparr>"

lemma demo_planned: "plan_encryption (demo_stored_env answer) \<lparr> sr_providerId = None, sr_systems = Some [''sysA'', ''sysB''], sr_scheme = None \<rparr>
    = Inr (Inr (demo_plan answer))"
  by (simp add: plan_encryption_def demo_stored_env_def demo_packaging_env_def demo_plan_def resolveDrmStepConfig_def resolveDrmSystemIds_def Let_def)

lemma demo_drm_wanted: "pr_drm demo_step_request = Some \<lparr> sr_providerId = None, sr_systems = Some [''sysA'', ''sysB''], sr_scheme = None \<rparr>"
  "pr_jobId demo_step_request = ''A''"
  by (simp_all add: demo_step_request_def)

theorem repackage_asks_for_same_keys_witness:
  "\<exists>q. pg_requests (fst (enqueuePackagingStep (demo_stored_env (AcquireThrows None)) demo_step_request
      (demo_packaging_state\<lparr> pg_assets := demo_drm_repo DrmProtected \<rparr>))) = [q] \<and> map_of (coalesce (kr_keyIds q) []) = [HD \<mapsto> ''k0'']"
proof -
  let ?e = "demo_stored_env (AcquireThrows None)" and ?s = "demo_packaging_state\<lparr> pg_assets := demo_drm_repo DrmProtected \<rparr>"
  have h: "pd_hasAssets ?e" "\<not> pd_getThrows ?e" by (simp_all add: demo_stored_env_def demo_packaging_env_def)
  have g: "get (pg_assets ?s) (pr_jobId demo_step_request) = Some (demo_asset\<lparr> a_drm := Some (demo_block DrmProtected) \<rparr>)"
    using demo_drm_get by (simp add: demo_drm_wanted)
  have d: "a_drm (demo_asset\<lparr> a_drm := Some (demo_block DrmProtected) \<rparr>) = Some (demo_block DrmProtected)" by simp
  have run: "enqueuePackagingStep ?e demo_step_request ?s
      = acquire_and_hand_over ?e demo_step_request (demo_plan (AcquireThrows None)) (Some (demo_block DrmProtected)) ?s"
    using g h by (simp add: enqueuePackagingStep_def demo_drm_wanted demo_planned)
  have n: "pg_requests (fst (enqueuePackagingStep ?e demo_step_request ?s)) \<noteq> pg_requests ?s" unfolding run acquire_requests by simp
  have z: "pg_requests ?s = []" "drm_keyIds (demo_block DrmProtected) = [(HD, ''k0'')]" by (simp_all add: demo_packaging_state_def demo_block_def)
  show ?thesis using repackage_asks_for_same_keys [OF demo_drm_wanted(1) h(1) g d n] z by auto
qed

section \<open>The delivery block\<close>

record delivery_system =
  ds_system :: string
  ds_licenceUrl :: "string option"
  ds_certificateUrl :: "string option"

record delivery_drm =
  dd_scheme :: protection_scheme
  dd_systems :: "delivery_system list"
  dd_keyIds :: "string list"

definition first_seen :: "string list \<Rightarrow> string list" where
  "first_seen xs = rev (foldl (\<lambda>seen x. if x \<in> set seen then seen else x # seen) [] xs)"

definition deliveryDrmFor :: "(string \<Rightarrow> string option) \<Rightarrow> asset_drm option \<Rightarrow> delivery_drm option" where
  "deliveryDrmFor env block =
     (if \<not> drmEnabled env then None
      else case block of None \<Rightarrow> None | Some drm \<Rightarrow>
        if drm_status drm \<noteq> DrmProtected then None
        else Some \<lparr> dd_scheme = drm_scheme drm,
          dd_systems = List.map (\<lambda>system. \<lparr> ds_system = system,
             ds_licenceUrl = (case drm_licenceUrls drm of None \<Rightarrow> None | Some m \<Rightarrow> map_of m system),
             ds_certificateUrl = drm_certificateUrl drm \<rparr>) (drm_systems drm),
          dd_keyIds = first_seen (List.map snd (drm_keyIds drm)) \<rparr>)"

text \<open>A DRM patch sets the block and nothing of the lifecycle.\<close>

lemma drm_patch:
  "patch_asset a (empty_patch\<lparr> u_drm := Some d \<rparr>) now = Inr (a\<lparr> a_updatedAt := now, a_drm := Some d \<rparr>)"
  by (simp add: patch_asset_def Let_def empty_patch_def patch_fields_def patch_links_def patch_scenes_def patch_descriptive_def
      patch_media_def patch_packaging_def patch_technical_def patch_source_def patch_identity_def patch_provenance_def
      provenanceForPatch_def pv_entry_def opt_set_def)

text \<open>C30. A protected asset loses its protection when a new package cannot get its keys: the asset stays, no job
  is made and the published output is the same, but the block becomes failed, the licence and certificate
  addresses are gone, and the delivery answer, which gave the key systems before, gives none. The
  identifiers and the time of the first request are kept.\<close>

theorem failed_repackage_hides_protection:
  assumes "pr_drm r = Some drm" "pd_hasAssets e" "\<not> pd_getThrows e" "\<not> pd_updateThrows e DrmFailed"
    and "plan_encryption e drm = Inr (Inr p)" "\<forall>q. dp_acquire p q = AcquireThrows err"
    and "get (pg_assets s) (pr_jobId r) = Some a" "a_drm a = Some d" "drm_status d = DrmProtected" "drmEnabled (pd_env e)"
  shows "snd (enqueuePackagingStep e r s) = Inl (AcquisitionFailed (classifyKeyAcquisitionError err))
    \<and> pg_enqueued (fst (enqueuePackagingStep e r s)) = pg_enqueued s
    \<and> deliveryDrmFor (pd_env e) (a_drm a) \<noteq> None
    \<and> (\<exists>a' d'. get (pg_assets (fst (enqueuePackagingStep e r s))) (pr_jobId r) = Some a' \<and> a_drm a' = Some d'
        \<and> a_status a' = a_status a \<and> a_manifestUrls a' = a_manifestUrls a
        \<and> drm_status d' = DrmFailed \<and> drm_licenceUrls d' = None \<and> drm_certificateUrl d' = None
        \<and> drm_keyIds d' = drm_keyIds d \<and> drm_requestedAt d' = drm_requestedAt d
        \<and> deliveryDrmFor (pd_env e) (a_drm a') = None)"
proof -
  let ?g = "resolveTrackGroups (Option.bind (dp_config p) dc_trackGroups) (Some (drm_keyIds d))"
  let ?q = "\<lparr> kr_contentId = pr_jobId r, kr_systems = dp_systems p, kr_scheme = dp_scheme p, kr_trackGroups = ?g,
     kr_keyIds = persistedKeyIdMap (Some (drm_keyIds d)) ?g \<rparr>"
  let ?s1 = "s\<lparr> pg_requests := pg_requests s @ [?q] \<rparr>"
  let ?code = "classifyKeyAcquisitionError err"
  let ?b = "(drm_block p DrmFailed (drm_keyIds d) (drm_requestedAt d) (Some ?code))\<lparr> drm_error := DRM_STEP_ERROR_MESSAGES ?code \<rparr>"
  let ?a = "a\<lparr> a_updatedAt := pd_now e, a_drm := Some ?b \<rparr>"
  have run: "enqueuePackagingStep e r s = acquire_and_hand_over e r p (Some d) s"
    using assms by (auto simp: enqueuePackagingStep_def)
  have out: "acquire_and_hand_over e r p (Some d) s = (step_fails e (pr_jobId r) p (drm_keyIds d) (drm_requestedAt d) ?code ?s1, Inl (AcquisitionFailed ?code))"
    using assms(6) by (simp add: acquire_and_hand_over_def Let_def)
  have st: "drm_status ?b = DrmFailed" by (simp add: drm_block_def)
  have "update_asset (pr_jobId r) (empty_patch\<lparr> u_drm := Some ?b \<rparr>) (pd_now e) (pg_assets ?s1) = Inr (put (pr_jobId r) ?a (pg_assets s), Some ?a)"
    using assms(7) unfolding get_def by (simp add: update_asset_def drm_patch)
  then have "asset_drm_write e (pr_jobId r) ?b ?s1 = (?s1\<lparr> pg_assets := put (pr_jobId r) ?a (pg_assets s) \<rparr>, True)"
    using assms(4) st by (simp add: asset_drm_write_def)
  then have "pg_assets (fst (persistDrmState e (pr_jobId r) (drm_block p DrmFailed (drm_keyIds d) (drm_requestedAt d) (Some ?code)) ?s1))
      = put (pr_jobId r) ?a (pg_assets s)"
    using assms(2) by (simp add: persistDrmState_def drm_block_def Let_def)
  then have pa: "pg_assets (step_fails e (pr_jobId r) p (drm_keyIds d) (drm_requestedAt d) ?code ?s1) = put (pr_jobId r) ?a (pg_assets s)"
    by (simp add: step_fails_def Let_def)
  have g: "get (pg_assets (fst (enqueuePackagingStep e r s))) (pr_jobId r) = Some ?a"
    unfolding run out using pa by (simp add: get_put)
  have before: "deliveryDrmFor (pd_env e) (a_drm a) \<noteq> None" using assms(8-10) by (simp add: deliveryDrmFor_def)
  have eq: "pg_enqueued (fst (enqueuePackagingStep e r s)) = pg_enqueued s" "snd (enqueuePackagingStep e r s) = Inl (AcquisitionFailed ?code)"
    unfolding run out by simp_all
  have "\<exists>a' d'. get (pg_assets (fst (enqueuePackagingStep e r s))) (pr_jobId r) = Some a' \<and> a_drm a' = Some d'
        \<and> a_status a' = a_status a \<and> a_manifestUrls a' = a_manifestUrls a
        \<and> drm_status d' = DrmFailed \<and> drm_licenceUrls d' = None \<and> drm_certificateUrl d' = None
        \<and> drm_keyIds d' = drm_keyIds d \<and> drm_requestedAt d' = drm_requestedAt d
        \<and> deliveryDrmFor (pd_env e) (a_drm a') = None"
    by (rule exI [of _ ?a], rule exI [of _ ?b]) (simp add: g drm_block_def deliveryDrmFor_def)
  with eq before show ?thesis by simp
qed

theorem failed_repackage_hides_protection_witness:
  "\<exists>a'. get (pg_assets (fst (enqueuePackagingStep (demo_stored_env (AcquireThrows None)) demo_step_request
      (demo_packaging_state\<lparr> pg_assets := demo_drm_repo DrmProtected \<rparr>)))) ''A'' = Some a'
     \<and> deliveryDrmFor (\<lambda>k. Some ''true'') (a_drm a') = None"
proof -
  let ?e = "demo_stored_env (AcquireThrows None)" and ?s = "demo_packaging_state\<lparr> pg_assets := demo_drm_repo DrmProtected \<rparr>"
  have h: "pd_hasAssets ?e" "\<not> pd_getThrows ?e" "\<not> pd_updateThrows ?e DrmFailed" "drmEnabled (pd_env ?e)" "pd_env ?e = (\<lambda>k. Some ''true'')"
    by (simp_all add: demo_stored_env_def demo_packaging_env_def drmEnabled_def)
  have q: "\<forall>q. dp_acquire (demo_plan (AcquireThrows None)) q = AcquireThrows None" by (simp add: demo_plan_def)
  have g: "get (pg_assets ?s) (pr_jobId demo_step_request) = Some (demo_asset\<lparr> a_drm := Some (demo_block DrmProtected) \<rparr>)"
    using demo_drm_get by (simp add: demo_drm_wanted)
  have d: "a_drm (demo_asset\<lparr> a_drm := Some (demo_block DrmProtected) \<rparr>) = Some (demo_block DrmProtected)"
    "drm_status (demo_block DrmProtected) = DrmProtected" by (simp_all add: demo_block_def)
  show ?thesis
    using failed_repackage_hides_protection [OF demo_drm_wanted(1) h(1-3) demo_planned q g d h(4)] h(5) by (auto simp: demo_drm_wanted)
qed

end
