(* ===== verification/Packaging_Service.thy ===== *)
theory Packaging_Service
  imports Packaging_Drm Pipeline_Repo
begin

text \<open>
  The packaging service (\<^verbatim>\<open>PackagingService\<close> in \<^verbatim>\<open>src/src/pipeline/packaging.ts\<close>): the enqueue of a package
  without protection, the callbacks of the packager, and what they settle of the protection that is
  pending on the asset. The state is the asset repository, the jobs and runs, and the packager's queue.
\<close>

section \<open>Settling a pending protection\<close>

definition DRM_PACKAGER_FAILED_MESSAGE :: string where
  "DRM_PACKAGER_FAILED_MESSAGE = ''the packager reported a failure for this asset, so no protected package was produced''"

definition correlatesWithRun :: "asset_drm \<Rightarrow> string option \<Rightarrow> bool" where
  "correlatesWithRun drm completingPackageJobId = (drm_packageJobId drm = completingPackageJobId)"

definition settleDrmOnPackagerSuccess :: "asset_drm option \<Rightarrow> string \<Rightarrow> string option \<Rightarrow> asset_drm option" where
  "settleDrmOnPackagerSuccess drm protectedAt jobId = (case drm of
       None \<Rightarrow> None
     | Some d \<Rightarrow>
         if drm_status d \<noteq> DrmPending then None
         else if \<not> correlatesWithRun d jobId then None
         else Some \<lparr> drm_status = DrmProtected, drm_providerId = drm_providerId d, drm_scheme = drm_scheme d,
           drm_systems = drm_systems d, drm_keyIds = drm_keyIds d, drm_licenceUrls = drm_licenceUrls d,
           drm_certificateUrl = drm_certificateUrl d, drm_requestedAt = drm_requestedAt d, drm_protectedAt = Some protectedAt,
           drm_error = None, drm_errorCode = None, drm_packageJobId = drm_packageJobId d \<rparr>)"

definition settleDrmOnPackagerFailure :: "asset_drm option \<Rightarrow> string option \<Rightarrow> asset_drm option" where
  "settleDrmOnPackagerFailure drm jobId = (case drm of
       None \<Rightarrow> None
     | Some d \<Rightarrow>
         if drm_status d \<noteq> DrmPending then None
         else if \<not> correlatesWithRun d jobId then None
         else Some (d\<lparr> drm_status := DrmFailed, drm_errorCode := Some PackagingFailed, drm_error := Some DRM_PACKAGER_FAILED_MESSAGE \<rparr>))"

text \<open>The first component of the result is the state, the second whether a block was settled, \<open>None\<close> for a throw.\<close>

definition markDrmProtected :: "packaging_env \<Rightarrow> string \<Rightarrow> packaging_state \<Rightarrow> packaging_state \<times> bool option" where
  "markDrmProtected e assetId s =
     (if \<not> pd_hasAssets e then (s, Some False)
      else if pd_getThrows e then (s, None)
      else case Option.bind (get (pg_assets s) assetId) a_drm of
             None \<Rightarrow> (s, Some False)
           | Some d \<Rightarrow>
               if drm_status d = DrmProtected then (s, Some False)
               else let drm = d\<lparr> drm_status := DrmProtected, drm_protectedAt := Some (coalesce (drm_protectedAt d) (pd_now e)),
                          drm_error := None, drm_errorCode := None, drm_packageJobId := None \<rparr>;
                        (s', written) = asset_drm_write e assetId drm s
                    in if \<not> written then (s', None)
                       else (s'\<lparr> pg_audit := pg_audit s' @ [ProtectedEvent assetId (drm_providerId drm) (List.map snd (drm_keyIds drm))] \<rparr>, Some True))"

section \<open>The service\<close>

text \<open>\<open>sv_queueError\<close> is what the queue rejects an enqueue with.\<close>

record service_env =
  vx_package :: package_env
  vx_settings :: packaging_settings
  vx_publicBaseUrl :: "string option"
  vx_queueError :: "string option"
  vx_getThrows :: bool
  vx_updateThrows :: bool
  vx_now :: string

datatype package_audit = PackageSubmitted string string | PackageCompleted string string | PackageFailed string string string

record service_state =
  vs_assets :: asset_repo
  vs_repos :: run_repos
  vs_queue :: "packaging_job list"
  vs_audit :: "package_audit list"

definition patch_service :: "service_env \<Rightarrow> string \<Rightarrow> update_asset_input \<Rightarrow> service_state \<Rightarrow> service_state \<times> bool" where
  "patch_service e i p s =
     (if vx_updateThrows e then (s, False)
      else case update_asset i p (vx_now e) (vs_assets s) of
             Inl err \<Rightarrow> (s, False) | Inr (r, _) \<Rightarrow> (s\<lparr> vs_assets := r \<rparr>, True))"

definition set_jobs :: "job_repo \<Rightarrow> service_state \<Rightarrow> service_state" where
  "set_jobs r s = s\<lparr> vs_repos := (vs_repos s)\<lparr> rr_jobs := r \<rparr> \<rparr>"

definition triggerPackaging :: "service_env \<Rightarrow> string \<Rightarrow> string \<Rightarrow> service_state \<Rightarrow> service_state \<times> string option" where
  "triggerPackaging e assetId encoreJobUrl s =
     (let (repos, packageJobId) = startPackageJob (vx_package e) assetId (vs_repos s);
          s1 = s\<lparr> vs_repos := repos \<rparr>
      in case vx_queueError e of
           None \<Rightarrow> (s1\<lparr> vs_queue := vs_queue s1 @ [\<lparr> pj_jobId = assetId, pj_url = encoreJobUrl, pj_encryption = None \<rparr>],
              vs_audit := vs_audit s1 @ [PackageSubmitted (coalesce packageJobId assetId) assetId] \<rparr>, packageJobId)
         | Some message \<Rightarrow>
             let reason = ''failed to enqueue packaging job: '' @ message;
                 s2 = set_jobs (fst (failPackageJob (vx_package e) packageJobId assetId reason (rr_jobs (vs_repos s1)))) s1
             in (fst (patch_service e assetId (empty_patch\<lparr> u_packagingError := Some reason \<rparr>) s2), packageJobId))"

definition completing_job :: "service_env \<Rightarrow> string \<Rightarrow> asset \<Rightarrow> service_state \<Rightarrow> string option" where
  "completing_job e assetId a s =
     (if map_option drm_status (a_drm a) = Some DrmPending
      then resolvePackageJobId (vx_package e) None assetId (rr_jobs (vs_repos s)) else None)"

definition success_patch :: "service_env \<Rightarrow> string \<Rightarrow> string option \<Rightarrow> asset_drm option \<Rightarrow> update_asset_input" where
  "success_patch e assetId outputPath settledDrm = empty_patch\<lparr>
     u_manifestUrls := Some (outputPathToManifestUrls outputPath (coalesce (vx_publicBaseUrl e) (packagingPublicBaseUrl (vx_settings e))) assetId),
     u_packagedOutput := packagedOutputFromCallback outputPath (packagedBucket (vx_settings e)),
     u_drm := settledDrm, u_packagedOutputStale := Some False \<rparr>"

text \<open>\<open>None\<close> is a throw of the repository; \<open>settleJob\<close> is \<open>False\<close> when the caller settles the job itself.\<close>

definition handleSuccess :: "service_env \<Rightarrow> string \<Rightarrow> string option \<Rightarrow> bool \<Rightarrow> service_state \<Rightarrow> service_state \<times> bool option" where
  "handleSuccess e assetId outputPath settleJob s =
     (if vx_getThrows e then (s, None)
      else case get (vs_assets s) assetId of
             None \<Rightarrow> (s, Some False)
           | Some a \<Rightarrow>
               let settledDrm = settleDrmOnPackagerSuccess (a_drm a) (vx_now e) (completing_job e assetId a s);
                   (s1, written) = patch_service e assetId (success_patch e assetId outputPath settledDrm) s
               in if \<not> written then (s1, None)
                  else if \<not> settleJob then (s1, Some True)
                  else let (r, packageJobId) = completePackageJob (vx_package e) None assetId (rr_jobs (vs_repos s1))
                       in ((set_jobs r s1)\<lparr> vs_audit := vs_audit s1 @ [PackageCompleted (coalesce packageJobId assetId) assetId] \<rparr>, Some True))"

definition handleFailure :: "service_env \<Rightarrow> string \<Rightarrow> string \<Rightarrow> service_state \<Rightarrow> service_state \<times> bool option" where
  "handleFailure e assetId message s =
     (if vx_getThrows e then (s, None)
      else case get (vs_assets s) assetId of
             None \<Rightarrow> (s, Some False)
           | Some a \<Rightarrow>
               let settledDrm = settleDrmOnPackagerFailure (a_drm a) (completing_job e assetId a s);
                   (s1, written) = patch_service e assetId (empty_patch\<lparr> u_packagingError := Some message, u_drm := settledDrm \<rparr>) s
               in if \<not> written then (s1, None)
                  else let (r, packageJobId) = failPackageJob (vx_package e) None assetId message (rr_jobs (vs_repos s1))
                       in ((set_jobs r s1)\<lparr> vs_audit := vs_audit s1 @ [PackageFailed (coalesce packageJobId assetId) assetId message] \<rparr>, Some True))"

definition settleProtectionFailure :: "service_env \<Rightarrow> string \<Rightarrow> string option \<Rightarrow> service_state \<Rightarrow> service_state \<times> bool" where
  "settleProtectionFailure e assetId failingPackageJobId s =
     (if vx_getThrows e then (s, False)
      else case get (vs_assets s) assetId of
             None \<Rightarrow> (s, False)
           | Some a \<Rightarrow>
               if map_option drm_status (a_drm a) \<noteq> Some DrmPending then (s, False)
               else (case settleDrmOnPackagerFailure (a_drm a) failingPackageJobId of
                       None \<Rightarrow> (s, False)
                     | Some d \<Rightarrow> patch_service e assetId (empty_patch\<lparr> u_drm := Some d \<rparr>) s))"

section \<open>What a patch does to the block\<close>

lemma drm_frame [simp]:
  "a_drm (patch_identity p n) = a_drm n" "a_drm (patch_source e p n) = a_drm n" "a_drm (patch_technical p n) = a_drm n"
  "a_drm (patch_packaging p n) = a_drm n" "a_drm (patch_media p n) = a_drm n" "a_drm (patch_descriptive e p n) = a_drm n"
  "a_drm (patch_scenes p n) = a_drm n" "a_drm (patch_provenance e p now n) = a_drm n"
  by (simp_all add: patch_defs patch_provenance_def Let_def split: option.splits)

lemma drm_links [simp]: "a_drm (patch_links p n) = (if u_drm p = None then a_drm n else u_drm p)"
  by (simp add: patch_links_def opt_set_def split: option.splits)

lemma manifest_frame [simp]:
  "a_manifestUrls (patch_identity p n) = a_manifestUrls n" "a_manifestUrls (patch_source e p n) = a_manifestUrls n"
  "a_manifestUrls (patch_technical p n) = a_manifestUrls n" "a_manifestUrls (patch_links p n) = a_manifestUrls n"
  "a_manifestUrls (patch_media p n) = a_manifestUrls n" "a_manifestUrls (patch_descriptive e p n) = a_manifestUrls n"
  "a_manifestUrls (patch_scenes p n) = a_manifestUrls n" "a_manifestUrls (patch_provenance e p now n) = a_manifestUrls n"
  by (simp_all add: patch_defs patch_provenance_def Let_def split: option.splits)

lemma manifest_packaging [simp]: "a_manifestUrls (patch_packaging p n) = (if u_manifestUrls p = None then a_manifestUrls n else u_manifestUrls p)"
  by (simp add: patch_packaging_def opt_set_def Let_def split: option.splits)

lemma patched:
  assumes "u_status p = None"
  obtains n where "patch_asset a p now = Inr n" "a_status n = a_status a"
    "a_drm n = (if u_drm p = None then a_drm a else u_drm p)"
    "a_manifestUrls n = (if u_manifestUrls p = None then a_manifestUrls a else u_manifestUrls p)"
  by (rule that [of "patch_provenance a p now (patch_fields a p (a\<lparr> a_updatedAt := now \<rparr>))"])
    (use assms in \<open>simp_all add: patch_asset_def patch_fields_def Let_def\<close>)

lemma patch_service_asset:
  assumes "u_status p = None" "get (vs_assets s) k = Some a"
  obtains a' where "get (vs_assets (fst (patch_service e i p s))) k = Some a'" "a_status a' = a_status a"
    "a_drm a' = (if k = i \<and> \<not> vx_updateThrows e \<and> u_drm p \<noteq> None then u_drm p else a_drm a)"
    "a_manifestUrls a' = (if k = i \<and> \<not> vx_updateThrows e \<and> u_manifestUrls p \<noteq> None then u_manifestUrls p else a_manifestUrls a)"
proof (cases "k = i \<and> \<not> vx_updateThrows e")
  case True
  obtain n where n: "patch_asset a p (vx_now e) = Inr n" "a_status n = a_status a"
    "a_drm n = (if u_drm p = None then a_drm a else u_drm p)"
    "a_manifestUrls n = (if u_manifestUrls p = None then a_manifestUrls a else u_manifestUrls p)" using patched [OF assms(1)] by blast
  have "update_asset i p (vx_now e) (vs_assets s) = Inr (put i n (vs_assets s), Some n)"
    using assms(2) True n(1) unfolding get_def by (simp add: update_asset_def)
  then have "fst (patch_service e i p s) = s\<lparr> vs_assets := put i n (vs_assets s) \<rparr>" using True by (simp add: patch_service_def)
  then show ?thesis using True n by (intro that [of n]) (simp_all add: get_put)
next
  case False
  then have "get (vs_assets (fst (patch_service e i p s))) k = get (vs_assets s) k"
    by (auto simp: patch_service_def update_asset_def get_put split: option.split sum.split prod.split)
  then show ?thesis using False assms(2) by (intro that [of a]) auto
qed

lemma set_jobs_assets [simp]: "vs_assets (set_jobs r s) = vs_assets s" by (simp add: set_jobs_def)

section \<open>Runs of callbacks\<close>

datatype packager_event = EvTrigger service_env string string | EvSuccess service_env string "string option" bool
  | EvFailure service_env string string | EvSettle service_env string "string option"

fun packager_event_step :: "packager_event \<Rightarrow> service_state \<Rightarrow> service_state" where
  "packager_event_step (EvTrigger e i url) s = fst (triggerPackaging e i url s)"
| "packager_event_step (EvSuccess e i out settle) s = fst (handleSuccess e i out settle s)"
| "packager_event_step (EvFailure e i m) s = fst (handleFailure e i m s)"
| "packager_event_step (EvSettle e i j) s = fst (settleProtectionFailure e i j s)"

definition packager_run :: "packager_event list \<Rightarrow> service_state \<Rightarrow> service_state" where
  "packager_run evs s = fold packager_event_step evs s"

definition same_keys :: "asset_drm \<Rightarrow> asset_drm \<Rightarrow> bool" where
  "same_keys d d' = (drm_providerId d' = drm_providerId d \<and> drm_scheme d' = drm_scheme d \<and> drm_systems d' = drm_systems d
     \<and> drm_keyIds d' = drm_keyIds d \<and> drm_licenceUrls d' = drm_licenceUrls d \<and> drm_requestedAt d' = drm_requestedAt d
     \<and> drm_packageJobId d' = drm_packageJobId d)"

definition settled_from :: "asset_drm option \<Rightarrow> asset_drm option \<Rightarrow> bool" where
  "settled_from b b' = (b' = b \<or> (\<exists>d d'. b = Some d \<and> b' = Some d' \<and> drm_status d = DrmPending
     \<and> drm_status d' \<in> {DrmProtected, DrmFailed} \<and> same_keys d d'))"

lemma settled_refl [simp]: "settled_from b b" by (simp add: settled_from_def)

lemma settled_trans: "settled_from a b \<Longrightarrow> settled_from b c \<Longrightarrow> settled_from a c"
  by (auto simp: settled_from_def)

lemma settle_success: "settleDrmOnPackagerSuccess b t j = Some d' \<Longrightarrow> settled_from b (Some d')
    \<and> (\<exists>d. b = Some d \<and> drm_status d = DrmPending \<and> drm_packageJobId d = j \<and> drm_status d' = DrmProtected \<and> drm_protectedAt d' = Some t)"
  by (auto simp: settleDrmOnPackagerSuccess_def settled_from_def same_keys_def correlatesWithRun_def split: option.splits if_splits)

lemma settle_failure: "settleDrmOnPackagerFailure b j = Some d' \<Longrightarrow> settled_from b (Some d') \<and> drm_status d' = DrmFailed"
  by (auto simp: settleDrmOnPackagerFailure_def settled_from_def same_keys_def correlatesWithRun_def split: option.splits if_splits)

text \<open>What every event leaves of an asset: its status, and its block up to one settlement.\<close>

definition block_kept :: "string \<Rightarrow> service_state \<Rightarrow> service_state \<Rightarrow> bool" where
  "block_kept k s t = (\<forall>a. get (vs_assets s) k = Some a \<longrightarrow> (\<exists>a'. get (vs_assets t) k = Some a' \<and> a_status a' = a_status a
     \<and> settled_from (a_drm a) (a_drm a')))"

lemma kept_refl: "vs_assets t = vs_assets s \<Longrightarrow> block_kept k s t" by (simp add: block_kept_def)

lemma kept_trans: "block_kept k s t \<Longrightarrow> block_kept k t u \<Longrightarrow> block_kept k s u"
  unfolding block_kept_def using settled_trans by fastforce

lemma kept_patch:
  assumes "u_status p = None" "\<And>a d'. get (vs_assets s) i = Some a \<Longrightarrow> u_drm p = Some d' \<Longrightarrow> settled_from (a_drm a) (Some d')"
  shows "block_kept k s (fst (patch_service e i p s))"
  unfolding block_kept_def
proof (intro allI impI)
  fix a assume g: "get (vs_assets s) k = Some a"
  obtain a' where a': "get (vs_assets (fst (patch_service e i p s))) k = Some a'" "a_status a' = a_status a"
    "a_drm a' = (if k = i \<and> \<not> vx_updateThrows e \<and> u_drm p \<noteq> None then u_drm p else a_drm a)"
    using patch_service_asset [OF assms(1) g] by blast
  have "settled_from (a_drm a) (a_drm a')" using a'(3) assms(2) [of a] g by auto
  then show "\<exists>a'. get (vs_assets (fst (patch_service e i p s))) k = Some a' \<and> a_status a' = a_status a \<and> settled_from (a_drm a) (a_drm a')"
    using a'(1,2) by blast
qed

lemma success_assets:
  "vs_assets (fst (handleSuccess e i out st s)) = (if vx_getThrows e then vs_assets s else case get (vs_assets s) i of None \<Rightarrow> vs_assets s
     | Some a \<Rightarrow> vs_assets (fst (patch_service e i (success_patch e i out
         (settleDrmOnPackagerSuccess (a_drm a) (vx_now e) (completing_job e i a s))) s)))"
  by (simp add: handleSuccess_def Let_def split_beta split: option.split)

lemma failure_assets:
  "vs_assets (fst (handleFailure e i m s)) = (if vx_getThrows e then vs_assets s else case get (vs_assets s) i of None \<Rightarrow> vs_assets s
     | Some a \<Rightarrow> vs_assets (fst (patch_service e i (empty_patch\<lparr> u_packagingError := Some m,
         u_drm := settleDrmOnPackagerFailure (a_drm a) (completing_job e i a s) \<rparr>) s)))"
  by (simp add: handleFailure_def Let_def split_beta split: option.split)

lemma success_patch_fields [simp]:
  "u_status (success_patch e i out d) = None" "u_drm (success_patch e i out d) = d" "u_manifestUrls (success_patch e i out d) \<noteq> None"
  by (simp_all add: success_patch_def empty_patch_def)

lemma kept_event: "block_kept k s (packager_event_step ev s)"
proof (cases ev)
  case (EvTrigger e i url)
  let ?s1 = "s\<lparr> vs_repos := fst (startPackageJob (vx_package e) i (vs_repos s)) \<rparr>"
  let ?j = "snd (startPackageJob (vx_package e) i (vs_repos s))"
  show ?thesis
  proof (cases "vx_queueError e")
    case None
    then show ?thesis unfolding EvTrigger by (intro kept_refl) (simp add: triggerPackaging_def Let_def split_beta)
  next
    case (Some m)
    let ?r = "''failed to enqueue packaging job: '' @ m"
    let ?s2 = "set_jobs (fst (failPackageJob (vx_package e) ?j i ?r (rr_jobs (vs_repos ?s1)))) ?s1"
    have p1: "packager_event_step ev s = fst (patch_service e i (empty_patch\<lparr> u_packagingError := Some ?r \<rparr>) ?s2)"
      using Some unfolding EvTrigger by (simp add: triggerPackaging_def Let_def split_beta)
    have p2: "block_kept k ?s2 (fst (patch_service e i (empty_patch\<lparr> u_packagingError := Some ?r \<rparr>) ?s2))"
      by (rule kept_patch) (simp_all add: empty_patch_def)
    have p3: "block_kept k s ?s2" by (rule kept_refl) simp
    show ?thesis unfolding p1 by (rule kept_trans [OF p3 p2])
  qed
next
  case (EvSuccess e i out st)
  have f: "block_kept k s (fst (patch_service e i (success_patch e i out (settleDrmOnPackagerSuccess (a_drm a) (vx_now e) (completing_job e i a s))) s))"
    if "get (vs_assets s) i = Some a" for a
    by (rule kept_patch) (use that settle_success in \<open>force+\<close>)
  then show ?thesis unfolding EvSuccess using success_assets [of e i out st s] by (auto simp: block_kept_def split: option.splits)
next
  case (EvFailure e i m)
  have f: "block_kept k s (fst (patch_service e i (empty_patch\<lparr> u_packagingError := Some m,
      u_drm := settleDrmOnPackagerFailure (a_drm a) (completing_job e i a s) \<rparr>) s))"
    if "get (vs_assets s) i = Some a" for a
    by (rule kept_patch) (use that settle_failure in \<open>auto simp: empty_patch_def\<close>)
  then show ?thesis unfolding EvFailure using failure_assets [of e i m s] by (auto simp: block_kept_def split: option.splits)
next
  case (EvSettle e i j)
  have f: "block_kept k s (fst (patch_service e i (empty_patch\<lparr> u_drm := Some d \<rparr>) s))"
    if "get (vs_assets s) i = Some a" "settleDrmOnPackagerFailure (a_drm a) j = Some d" for a d
    by (rule kept_patch) (use that settle_failure in \<open>auto simp: empty_patch_def\<close>)
  show ?thesis
  proof (cases "packager_event_step ev s = s")
    case False
    then obtain a d where a: "get (vs_assets s) i = Some a" "settleDrmOnPackagerFailure (a_drm a) j = Some d"
      "packager_event_step ev s = fst (patch_service e i (empty_patch\<lparr> u_drm := Some d \<rparr>) s)"
      unfolding EvSettle by (auto simp: settleProtectionFailure_def split: option.splits if_splits)
    show ?thesis unfolding a(3) by (rule f [OF a(1,2)])
  qed (simp add: kept_refl)
qed

lemma kept_run: "block_kept k s (packager_run evs s)"
proof (induction evs arbitrary: s)
  case (Cons ev evs)
  show ?case using kept_trans [OF kept_event [of k s ev] Cons.IH [of "packager_event_step ev s"]] by (simp add: packager_run_def)
qed (simp add: packager_run_def kept_refl)

text \<open>C31. Whatever the packager reports, and however often, the protection of an asset is settled at most once:
  over any run of enqueues, success and failure callbacks and settlements the block is the one the asset
  had or, where that was pending, one that is protected or failed; a settled block and an asset without
  one stay as they are, the keys, the systems and the run it belongs to are kept, and the status of the
  asset does not move.\<close>

theorem protection_settles_once:
  assumes "get (vs_assets s) i = Some a"
  shows "\<exists>a'. get (vs_assets (packager_run evs s)) i = Some a' \<and> a_status a' = a_status a
    \<and> (a_drm a' = a_drm a \<or> (\<exists>d d'. a_drm a = Some d \<and> a_drm a' = Some d' \<and> drm_status d = DrmPending
        \<and> drm_status d' \<in> {DrmProtected, DrmFailed} \<and> drm_scheme d' = drm_scheme d \<and> drm_systems d' = drm_systems d
        \<and> drm_keyIds d' = drm_keyIds d \<and> drm_licenceUrls d' = drm_licenceUrls d \<and> drm_packageJobId d' = drm_packageJobId d))"
  using kept_run [of i s evs] assms unfolding block_kept_def settled_from_def same_keys_def by blast

text \<open>C0. Only the run that carried the encryption makes an asset protected: when a success callback turns a block
  into a protected one, the block was pending and the package job the callback completes is the job the
  block was stamped with, or neither exists.\<close>

theorem protection_needs_its_run:
  assumes "get (vs_assets s) i = Some a" "a_drm a = Some d" "drm_status d \<noteq> DrmProtected"
    and "get (vs_assets (fst (handleSuccess e i out settleJob s))) i = Some a'" "map_option drm_status (a_drm a') = Some DrmProtected"
  shows "drm_status d = DrmPending \<and> resolvePackageJobId (vx_package e) None i (rr_jobs (vs_repos s)) = drm_packageJobId d
    \<and> a_drm a' = Some (d\<lparr> drm_status := DrmProtected, drm_protectedAt := Some (vx_now e), drm_error := None, drm_errorCode := None \<rparr>)"
proof -
  let ?j = "completing_job e i a s"
  let ?d = "settleDrmOnPackagerSuccess (a_drm a) (vx_now e) ?j"
  have ne: "a_drm a' \<noteq> a_drm a" using assms(2,3,5) by auto
  have g: "\<not> vx_getThrows e" using ne assms(1,4) success_assets [of e i out settleJob s] by (auto split: if_splits)
  obtain b where b: "get (vs_assets (fst (patch_service e i (success_patch e i out ?d) s))) i = Some b"
    "a_drm b = (if i = i \<and> \<not> vx_updateThrows e \<and> u_drm (success_patch e i out ?d) \<noteq> None then u_drm (success_patch e i out ?d) else a_drm a)"
    using patch_service_asset [OF _ assms(1), of "success_patch e i out ?d" e i] by (metis success_patch_fields(1))
  have "a' = b" using b(1) assms(1,4) g success_assets [of e i out settleJob s] by simp
  then have d: "a_drm a' = ?d" "?d \<noteq> None" using b(2) ne by (auto split: if_splits)
  then have p: "drm_status d = DrmPending" "drm_packageJobId d = ?j" using assms(2)
    by (auto simp: settleDrmOnPackagerSuccess_def correlatesWithRun_def split: if_splits)
  have "?j = resolvePackageJobId (vx_package e) None i (rr_jobs (vs_repos s))" using p(1) assms(2) by (simp add: completing_job_def)
  moreover have "?d = Some (d\<lparr> drm_status := DrmProtected, drm_protectedAt := Some (vx_now e), drm_error := None, drm_errorCode := None \<rparr>)"
    using p assms(2) by (simp add: settleDrmOnPackagerSuccess_def correlatesWithRun_def)
  ultimately show ?thesis using p d(1) by simp
qed

definition demo_service_env :: service_env where
  "demo_service_env = \<lparr> vx_package = \<lparr> pk_nowText = ''t5'', pk_currentStack = None, pk_jobsThrow = False, pk_pipelineThrows = False,
       pk_hasJobs = False, pk_hasPipeline = False \<rparr>,
     vx_settings = \<lparr> pset_packagedBucket = None, pset_publicBaseUrl = None, pset_deliveryMode = None \<rparr>, vx_publicBaseUrl = Some ''https://m'',
     vx_queueError = None, vx_getThrows = False, vx_updateThrows = False, vx_now = ''t5'' \<rparr>"

definition demo_pending_repo :: asset_repo where
  "demo_pending_repo = put ''A'' (demo_asset\<lparr> a_drm := Some ((demo_block DrmPending)\<lparr> drm_packageJobId := None \<rparr>) \<rparr>) demo_repo"

definition demo_service_state :: "asset_repo \<Rightarrow> service_state" where
  "demo_service_state r = \<lparr> vs_assets = r, vs_repos = \<lparr> rr_jobs = empty_job_repo, rr_pipes = [] \<rparr>, vs_queue = [], vs_audit = [] \<rparr>"

lemma demo_pending_get: "get (vs_assets (demo_service_state demo_pending_repo)) ''A''
    = Some (demo_asset\<lparr> a_drm := Some ((demo_block DrmPending)\<lparr> drm_packageJobId := None \<rparr>) \<rparr>)"
  by (simp add: demo_service_state_def demo_pending_repo_def get_put)

theorem protection_settles_once_witness:
  "\<exists>a'. get (vs_assets (packager_run [EvTrigger demo_service_env ''A'' ''u'', EvSuccess demo_service_env ''A'' None True,
      EvFailure demo_service_env ''A'' ''late''] (demo_service_state demo_pending_repo))) ''A'' = Some a'
    \<and> a_status a' = a_status demo_asset"
  using protection_settles_once [OF demo_pending_get, of "[EvTrigger demo_service_env ''A'' ''u'', EvSuccess demo_service_env ''A'' None True,
      EvFailure demo_service_env ''A'' ''late'']"] by auto

theorem protection_needs_its_run_witness:
  "resolvePackageJobId (vx_package demo_service_env) None ''A'' (rr_jobs (vs_repos (demo_service_state demo_pending_repo))) = None"
proof -
  let ?s = "demo_service_state demo_pending_repo"
  let ?a = "demo_asset\<lparr> a_drm := Some ((demo_block DrmPending)\<lparr> drm_packageJobId := None \<rparr>) \<rparr>"
  let ?d = "settleDrmOnPackagerSuccess (a_drm ?a) (vx_now demo_service_env) (completing_job demo_service_env ''A'' ?a ?s)"
  have j: "completing_job demo_service_env ''A'' ?a ?s = None"
    by (simp add: completing_job_def resolvePackageJobId_def demo_service_env_def)
  have d: "map_option drm_status ?d = Some DrmProtected" unfolding j
    by (simp add: settleDrmOnPackagerSuccess_def correlatesWithRun_def demo_block_def)
  have b: "drm_status ((demo_block DrmPending)\<lparr> drm_packageJobId := None \<rparr>) \<noteq> DrmProtected" by (simp add: demo_block_def)
  obtain a' where a': "get (vs_assets (fst (patch_service demo_service_env ''A'' (success_patch demo_service_env ''A'' None ?d) ?s))) ''A'' = Some a'"
    "a_drm a' = (if ''A'' = ''A'' \<and> \<not> vx_updateThrows demo_service_env \<and> u_drm (success_patch demo_service_env ''A'' None ?d) \<noteq> None
       then u_drm (success_patch demo_service_env ''A'' None ?d) else a_drm ?a)"
    using patch_service_asset [OF success_patch_fields(1) demo_pending_get] by blast
  have e: "\<not> vx_getThrows demo_service_env" "\<not> vx_updateThrows demo_service_env" by (simp_all add: demo_service_env_def)
  have g: "get (vs_assets (fst (handleSuccess demo_service_env ''A'' None True ?s))) ''A'' = Some a'"
    using a'(1) e success_assets [of demo_service_env "''A''" None True ?s] demo_pending_get by simp
  have s: "map_option drm_status (a_drm a') = Some DrmProtected" using a'(2) d e by (cases ?d) simp_all
  show ?thesis using protection_needs_its_run [OF demo_pending_get _ b g s] by simp
qed

section \<open>A job the runner takes too late\<close>

lemma persist_block:
  assumes "pd_hasAssets e" "\<not> pd_updateThrows e (drm_status b)" "get (pg_assets s) i = Some a"
  shows "persistDrmState e i b s = (s\<lparr> pg_assets := put i (a\<lparr> a_updatedAt := pd_now e,
     a_drm := Some (b\<lparr> drm_error := (case drm_errorCode b of None \<Rightarrow> None | Some c \<Rightarrow> DRM_STEP_ERROR_MESSAGES c) \<rparr>) \<rparr>) (pg_assets s) \<rparr>, True)"
  using assms by (simp add: persistDrmState_def asset_drm_write_def update_asset_def drm_patch get_def Let_def)

lemma late_hand_over:
  assumes "pd_hasAssets e" "\<forall>st. \<not> pd_updateThrows e st" "\<forall>j. pd_enqueue e j = RunnerTakesLate" "get (pg_assets s) (pr_jobId r) = Some a"
  shows "pg_enqueued (fst (hand_over e r p t ks sig s)) = pg_enqueued s @ [encrypted_job r p ks sig]"
    "snd (hand_over e r p t ks sig s) = Inl EnqueueFailed"
    "\<exists>a'. get (pg_assets (fst (hand_over e r p t ks sig s))) (pr_jobId r) = Some a' \<and> map_option drm_status (a_drm a') = Some DrmFailed
       \<and> map_option drm_errorCode (a_drm a') = Some (Some PackagingFailed)"
proof -
  let ?i = "pr_jobId r"
  let ?pending = "(drm_block p DrmPending (key_ids ks) t None)\<lparr>
            drm_licenceUrls := resolveLicenceUrls (dp_systems p) sig (dp_config p),
            drm_certificateUrl := resolveCertificateUrl (dp_systems p) sig (dp_config p), drm_packageJobId := pr_packageJobId r \<rparr>"
  let ?a1 = "a\<lparr> a_updatedAt := pd_now e, a_drm := Some (?pending\<lparr> drm_error := None \<rparr>) \<rparr>"
  let ?s1 = "s\<lparr> pg_assets := put ?i ?a1 (pg_assets s) \<rparr>"
  let ?s2 = "?s1\<lparr> pg_audit := pg_audit ?s1 @ [KeysRequested ?i (dp_providerId p) (dp_systems p) (List.map ck_keyId ks)] \<rparr>"
  let ?s3 = "?s2\<lparr> pg_enqueued := pg_enqueued ?s2 @ [encrypted_job r p ks sig] \<rparr>"
  have 1: "persistDrmState e ?i ?pending s = (?s1, True)"
    using persist_block [OF assms(1) _ assms(4), of ?pending] assms(2) by (simp add: drm_block_def)
  have 2: "runner_enqueue e (encrypted_job r p ks sig) ?s2 = (?s3, False)"
    using assms(3) by (simp add: runner_enqueue_def)
  have h: "hand_over e r p t ks sig s = (step_fails e ?i p (key_ids ks) t PackagingFailed ?s3, Inl EnqueueFailed)"
    unfolding hand_over_def Let_def 1 prod.case encrypted_job_def [symmetric] 2 by simp
  have g: "get (pg_assets ?s3) ?i = Some ?a1" by (simp add: get_put)
  let ?b = "drm_block p DrmFailed (key_ids ks) t (Some PackagingFailed)"
  have f: "pg_assets (step_fails e ?i p (key_ids ks) t PackagingFailed ?s3) = pg_assets (fst (persistDrmState e ?i ?b ?s3))"
    by (simp add: step_fails_def Let_def)
  have w: "\<exists>a'. get (pg_assets (fst (persistDrmState e ?i ?b ?s3))) ?i = Some a' \<and> map_option drm_status (a_drm a') = Some DrmFailed
       \<and> map_option drm_errorCode (a_drm a') = Some (Some PackagingFailed)"
    using persist_block [OF assms(1) _ g, of ?b] assms(2) by (simp add: get_put drm_block_def)
  show "pg_enqueued (fst (hand_over e r p t ks sig s)) = pg_enqueued s @ [encrypted_job r p ks sig]"
    "snd (hand_over e r p t ks sig s) = Inl EnqueueFailed" unfolding h by simp_all
  show "\<exists>a'. get (pg_assets (fst (hand_over e r p t ks sig s))) ?i = Some a' \<and> map_option drm_status (a_drm a') = Some DrmFailed
       \<and> map_option drm_errorCode (a_drm a') = Some (Some PackagingFailed)" unfolding h fst_conv f by (rule w)
qed

text \<open>A job the runner takes after the deadline of the step publishes encrypted output no player is told how
  to open: the step fails and records the protection as failed, but the encrypted job is on the runner's
  side, and when the packager reports it the manifests are recorded on the asset while the block stays
  failed, so the delivery answer carries no key systems.\<close>

theorem late_enqueue_is_unsignalled:
  assumes "pr_drm r = Some drm" "pd_hasAssets e" "\<not> pd_getThrows e" "\<forall>st. \<not> pd_updateThrows e st"
    and "plan_encryption e drm = Inr (Inr p)" "\<forall>q. dp_acquire p q = Acquired ks sig" "\<forall>j. pd_enqueue e j = RunnerTakesLate"
    and "get (pg_assets s) (pr_jobId r) = Some a" "vs_assets t = pg_assets (fst (enqueuePackagingStep e r s))"
    and "\<not> vx_getThrows v" "\<not> vx_updateThrows v"
  shows "snd (enqueuePackagingStep e r s) = Inl EnqueueFailed
    \<and> pg_enqueued (fst (enqueuePackagingStep e r s)) = pg_enqueued s @ [encrypted_job r p ks sig]
    \<and> (\<exists>a'. get (vs_assets (fst (handleSuccess v (pr_jobId r) out settleJob t))) (pr_jobId r) = Some a'
        \<and> a_manifestUrls a' = Some (outputPathToManifestUrls out (coalesce (vx_publicBaseUrl v) (packagingPublicBaseUrl (vx_settings v))) (pr_jobId r))
        \<and> map_option drm_status (a_drm a') = Some DrmFailed \<and> deliveryDrmFor env (a_drm a') = None)"
proof -
  let ?i = "pr_jobId r"
  obtain u tm where run: "pg_assets u = pg_assets s" "pg_enqueued u = pg_enqueued s"
    "pg_assets (fst (enqueuePackagingStep e r s)) = pg_assets (fst (hand_over e r p tm ks sig u))"
    "pg_enqueued (fst (enqueuePackagingStep e r s)) = pg_enqueued (fst (hand_over e r p tm ks sig u))"
    "snd (enqueuePackagingStep e r s) = snd (hand_over e r p tm ks sig u)"
  proof -
    let ?g = "resolveTrackGroups (Option.bind (dp_config p) dc_trackGroups) (map_option drm_keyIds (a_drm a))"
    let ?q = "\<lparr> kr_contentId = pr_jobId r, kr_systems = dp_systems p, kr_scheme = dp_scheme p, kr_trackGroups = ?g,
       kr_keyIds = persistedKeyIdMap (map_option drm_keyIds (a_drm a)) ?g \<rparr>"
    let ?u = "s\<lparr> pg_requests := pg_requests s @ [?q] \<rparr>"
    let ?tm = "case a_drm a of Some d \<Rightarrow> drm_requestedAt d | None \<Rightarrow> pd_now e"
    have x: "enqueuePackagingStep e r s = acquire_and_hand_over e r p (a_drm a) s"
      using assms(1-3,5,8) by (auto simp: enqueuePackagingStep_def)
    show ?thesis by (rule that [of ?u ?tm]) (use assms(6) in \<open>simp_all add: x acquire_and_hand_over_def Let_def split_beta\<close>)
  qed
  have g: "get (pg_assets u) ?i = Some a" using assms(8) run(1) by simp
  note L = late_hand_over [OF assms(2,4,7) g, of p tm ks sig]
  obtain b where b: "get (vs_assets t) ?i = Some b" "map_option drm_status (a_drm b) = Some DrmFailed"
    using L(3) assms(9) run(3) by auto
  let ?d = "settleDrmOnPackagerSuccess (a_drm b) (vx_now v) (completing_job v ?i b t)"
  have d: "?d = None" using b(2) by (auto simp: settleDrmOnPackagerSuccess_def)
  obtain c where c: "get (vs_assets (fst (patch_service v ?i (success_patch v ?i out ?d) t))) ?i = Some c"
    "a_drm c = (if ?i = ?i \<and> \<not> vx_updateThrows v \<and> u_drm (success_patch v ?i out ?d) \<noteq> None then u_drm (success_patch v ?i out ?d) else a_drm b)"
    "a_manifestUrls c = (if ?i = ?i \<and> \<not> vx_updateThrows v \<and> u_manifestUrls (success_patch v ?i out ?d) \<noteq> None
       then u_manifestUrls (success_patch v ?i out ?d) else a_manifestUrls b)"
    using patch_service_asset [OF success_patch_fields(1) b(1)] by blast
  have h: "get (vs_assets (fst (handleSuccess v ?i out settleJob t))) ?i = Some c"
    using c(1) assms(10) b(1) success_assets [of v ?i out settleJob t] by simp
  have m: "a_manifestUrls c = Some (outputPathToManifestUrls out (coalesce (vx_publicBaseUrl v) (packagingPublicBaseUrl (vx_settings v))) ?i)"
    using c(3) assms(11) by (simp add: success_patch_def)
  have s: "map_option drm_status (a_drm c) = Some DrmFailed" using c(2) d b(2) by simp
  then have n: "deliveryDrmFor env (a_drm c) = None" by (auto simp: deliveryDrmFor_def)
  show ?thesis using h m s n L(1,2) run by auto
qed

lemma plan_ignores_runner: "plan_encryption (e\<lparr> pd_enqueue := f \<rparr>) d = plan_encryption e d"
  by (simp add: plan_encryption_def resolveDrmStepConfig_def Let_def cong: option.case_cong if_cong prod.case_cong)

theorem late_enqueue_is_unsignalled_witness:
  "\<exists>(t :: service_state) a'. get (vs_assets t) ''A'' = Some a' \<and> a_manifestUrls a' \<noteq> None \<and> deliveryDrmFor (\<lambda>k. Some ''true'') (a_drm a') = None"
proof -
  let ?ks = "[\<lparr> ck_trackGroup = SD, ck_keyId = ''k1'', ck_key = [1, 2], ck_iv = None \<rparr>] :: content_key list"
  let ?e = "(demo_stored_env (Acquired ?ks demo_signalling))\<lparr> pd_enqueue := (\<lambda>j. RunnerTakesLate) \<rparr>"
  let ?s = "demo_packaging_state\<lparr> pg_assets := demo_drm_repo DrmFailed \<rparr>"
  let ?t = "demo_service_state (pg_assets (fst (enqueuePackagingStep ?e demo_step_request ?s)))"
  have h: "pd_hasAssets ?e" "\<not> pd_getThrows ?e" "\<forall>st. \<not> pd_updateThrows ?e st" "\<forall>j. pd_enqueue ?e j = RunnerTakesLate"
    by (simp_all add: demo_stored_env_def demo_packaging_env_def)
  have p: "plan_encryption ?e \<lparr> sr_providerId = None, sr_systems = Some [''sysA'', ''sysB''], sr_scheme = None \<rparr>
      = Inr (Inr (demo_plan (Acquired ?ks demo_signalling)))"
    unfolding plan_ignores_runner by (rule demo_planned)
  have q: "\<forall>q. dp_acquire (demo_plan (Acquired ?ks demo_signalling)) q = Acquired ?ks demo_signalling" by (simp add: demo_plan_def)
  have g: "get (pg_assets ?s) (pr_jobId demo_step_request) = Some (demo_asset\<lparr> a_drm := Some (demo_block DrmFailed) \<rparr>)"
    using demo_drm_get by (simp add: demo_drm_wanted)
  have t: "vs_assets ?t = pg_assets (fst (enqueuePackagingStep ?e demo_step_request ?s))" by (simp add: demo_service_state_def)
  have v: "\<not> vx_getThrows demo_service_env" "\<not> vx_updateThrows demo_service_env" by (simp_all add: demo_service_env_def)
  obtain a' where r: "get (vs_assets (fst (handleSuccess demo_service_env ''A'' (Some ''A/j1'') True ?t))) ''A'' = Some a'"
    "a_manifestUrls a' \<noteq> None" "deliveryDrmFor (\<lambda>k. Some ''true'') (a_drm a') = None"
    using late_enqueue_is_unsignalled [OF demo_drm_wanted(1) h(1-3) p q h(4) g t v, of "Some ''A/j1''" True "\<lambda>k. Some ''true''"]
    unfolding demo_drm_wanted by blast
  show ?thesis by (rule exI, rule exI, intro conjI, rule r(1), rule r(2), rule r(3))
qed

end
