(* ===== verification/Archive_Tier.thy ===== *)
theory Archive_Tier
  imports Asset_Purge Asset_Claims Packaging_Paths
begin

text \<open>
  The archive tier of the bytes of an asset (\<^verbatim>\<open>src/src/pipeline/archive-tier-relocation.ts\<close>,
  \<^verbatim>\<open>archive-tier-rehydrate.ts\<close>): moving the source and the renditions to the archive backend and back
  by copy, verification and deletion. The object store maps a bucket and key to its bytes. What the
  client does with its \<open>n\<close>-th call is \<open>tv_fault n\<close>: it works, it throws with or without its effect
  having happened, or it resolves without an effect.
\<close>

section \<open>The client\<close>

type_synonym object_loc = "string \<times> string"

datatype client_fault = CallWorks | CallThrows | CallThrowsAfter | CallLost

record object_store =
  os_objects :: "object_loc \<Rightarrow> string option"
  os_calls :: nat

record archive_destination =
  ad_bucket :: string
  ad_prefix :: string

record tier_env =
  tv_fault :: "nat \<Rightarrow> client_fault"
  tv_sourceBucket :: string
  tv_destination :: archive_destination
  tv_writeThrows :: bool
  tv_now :: string

definition called :: "object_store \<Rightarrow> object_store" where
  "called s = s\<lparr> os_calls := Suc (os_calls s) \<rparr>"

text \<open>\<open>None\<close> is a throw other than the not-found answers.\<close>

definition statOrUndefined :: "tier_env \<Rightarrow> object_loc \<Rightarrow> object_store \<Rightarrow> object_store \<times> bool option" where
  "statOrUndefined e l s = (called s, if tv_fault e (os_calls s) = CallWorks then Some (os_objects s l \<noteq> None) else None)"

definition copyObject :: "tier_env \<Rightarrow> object_loc \<Rightarrow> object_loc \<Rightarrow> object_store \<Rightarrow> object_store \<times> bool" where
  "copyObject e target source s =
     (let copied = (called s)\<lparr> os_objects := (os_objects s)(target := os_objects s source) \<rparr>
      in if os_objects s source = None then (called s, False)
         else case tv_fault e (os_calls s) of
                CallWorks \<Rightarrow> (copied, True) | CallThrows \<Rightarrow> (called s, False)
              | CallThrowsAfter \<Rightarrow> (copied, False) | CallLost \<Rightarrow> (called s, True))"

definition removeObject :: "tier_env \<Rightarrow> object_loc \<Rightarrow> object_store \<Rightarrow> object_store \<times> bool" where
  "removeObject e l s =
     (let removed = (called s)\<lparr> os_objects := (os_objects s)(l := None) \<rparr>
      in case tv_fault e (os_calls s) of
           CallWorks \<Rightarrow> (removed, True) | CallThrows \<Rightarrow> (called s, False)
         | CallThrowsAfter \<Rightarrow> (removed, False) | CallLost \<Rightarrow> (called s, True))"

section \<open>What is moved\<close>

definition ARCHIVABLE_BYTE_CLASSES :: "byte_class list" where
  "ARCHIVABLE_BYTE_CLASSES = [Source, Renditions]"

definition isArchivableByteClass :: "byte_class \<Rightarrow> bool" where
  "isArchivableByteClass cls = (cls \<in> set ARCHIVABLE_BYTE_CLASSES)"

definition archiveKeyFor :: "string \<Rightarrow> string \<Rightarrow> string" where
  "archiveKeyFor sourceKey destPrefix =
     (let base = strip_slashes destPrefix; rel = lead_slashes sourceKey
      in if base \<noteq> [] then base @ ''/'' @ rel else rel)"

definition objectsForClass :: "asset \<Rightarrow> byte_class \<Rightarrow> string \<Rightarrow> object_loc list" where
  "objectsForClass a cls sourceBucket =
     (if cls = Source then (if truthy (a_objectKey a) then [(sourceBucket, the (a_objectKey a))] else [])
      else List.map (\<lambda>r. case parseS3Uri (rn_objectKey r) of Some (b, k) \<Rightarrow> (b, k) | None \<Rightarrow> (sourceBucket, rn_objectKey r))
             (coalesce (a_renditions a) []))"

definition archive_loc :: "tier_env \<Rightarrow> object_loc \<Rightarrow> object_loc" where
  "archive_loc e l = (ad_bucket (tv_destination e), archiveKeyFor (snd l) (ad_prefix (tv_destination e)))"

definition isAgeEligible :: "(string \<Rightarrow> int option) \<Rightarrow> asset \<Rightarrow> int option \<Rightarrow> int \<Rightarrow> bool" where
  "isAgeEligible parse a minAgeMs now =
     (case minAgeMs of None \<Rightarrow> True
      | Some m \<Rightarrow> m \<le> 0 \<or> (case parse (a_createdAt a) of None \<Rightarrow> False | Some created \<Rightarrow> m \<le> now - created))"

section \<open>Relocation\<close>

text \<open>The answer is the store, whether the object is done, and how many were copied and deleted.\<close>

definition relocate_object :: "tier_env \<Rightarrow> object_loc \<Rightarrow> object_store \<Rightarrow> object_store \<times> bool \<times> nat \<times> nat" where
  "relocate_object e l s =
     (let dest = archive_loc e l; (s1, sourcePresent) = statOrUndefined e l s
      in case sourcePresent of
           None \<Rightarrow> (s1, False, 0, 0)
         | Some False \<Rightarrow>
             let (s2, archivePresent) = statOrUndefined e dest s1 in (s2, archivePresent = Some True, 0, 0)
         | Some True \<Rightarrow>
             let (s2, copied) = copyObject e dest l s1
             in if \<not> copied then (s2, False, 0, 0)
                else let (s3, verified) = statOrUndefined e dest s2
                     in if verified \<noteq> Some True then (s3, False, 1, 0)
                        else let (s4, deleted) = removeObject e l s3
                             in if deleted then (s4, True, 1, 1) else (s4, False, 1, 0))"

fun each_object :: "(object_loc \<Rightarrow> object_store \<Rightarrow> object_store \<times> bool \<times> nat \<times> nat) \<Rightarrow> object_loc list \<Rightarrow> object_store
    \<Rightarrow> object_store \<times> bool \<times> nat \<times> nat" where
  "each_object f [] s = (s, True, 0, 0)"
| "each_object f (l # ls) s =
     (let (s1, ok, c, d) = f l s; (s2, ok', c', d') = each_object f ls s1 in (s2, ok \<and> ok', c + c', d + d'))"

record tier_progress =
  tp_store :: object_store
  tp_tiers :: "(byte_class, storage_tier) jsmap"
  tp_done :: "byte_class list"
  tp_copied :: nat
  tp_deleted :: nat

definition relocate_class :: "tier_env \<Rightarrow> asset \<Rightarrow> (byte_class, storage_tier) jsmap \<Rightarrow> byte_class \<Rightarrow> tier_progress \<Rightarrow> tier_progress" where
  "relocate_class e a currentTiers cls p =
     (if map_of currentTiers cls = Some Archive then p\<lparr> tp_done := tp_done p @ [cls] \<rparr>
      else let (s, full, c, d) = each_object (relocate_object e) (objectsForClass a cls (tv_sourceBucket e)) (tp_store p);
               p1 = p\<lparr> tp_store := s, tp_copied := tp_copied p + c, tp_deleted := tp_deleted p + d \<rparr>
           in if full then p1\<lparr> tp_tiers := AList.update cls Archive (tp_tiers p), tp_done := tp_done p @ [cls] \<rparr> else p1)"

definition current_tiers :: "asset \<Rightarrow> (byte_class, storage_tier) jsmap" where
  "current_tiers a = (case a_storageTiering a of None \<Rightarrow> [] | Some t \<Rightarrow> tiers t)"

datatype tier_error = NonArchivableByteClass byte_class | TierWriteThrew

record tier_result =
  tr_done :: "byte_class list"
  tr_copied :: nat
  tr_deleted :: nat

definition relocateAssetToArchive :: "tier_env \<Rightarrow> string \<Rightarrow> byte_class list \<Rightarrow> object_store \<Rightarrow> asset_repo
    \<Rightarrow> object_store \<times> asset_repo \<times> (tier_error + tier_result option)" where
  "relocateAssetToArchive e i classes s r =
     (case find (\<lambda>cls. \<not> isArchivableByteClass cls) classes of
        Some cls \<Rightarrow> (s, r, Inl (NonArchivableByteClass cls))
      | None \<Rightarrow>
          (case get r i of
             None \<Rightarrow> (s, r, Inr None)
           | Some a \<Rightarrow>
               let cur = current_tiers a;
                   p = fold (relocate_class e a cur) classes
                     \<lparr> tp_store = s, tp_tiers = cur, tp_done = [], tp_copied = 0, tp_deleted = 0 \<rparr>;
                   answer = Inr (Some \<lparr> tr_done = tp_done p, tr_copied = tp_copied p, tr_deleted = tp_deleted p \<rparr>)
               in if list_ex (\<lambda>cls. map_of cur cls \<noteq> Some Archive) (tp_done p)
                  then if tv_writeThrows e then (tp_store p, r, Inl TierWriteThrew)
                       else (tp_store p, fst (setStorageTier i (tp_tiers p) (tv_now e) r), answer)
                  else (tp_store p, r, answer)))"

section \<open>Rehydration\<close>

definition rehydrate_object :: "tier_env \<Rightarrow> object_loc \<Rightarrow> object_store \<Rightarrow> object_store \<times> bool \<times> nat \<times> nat" where
  "rehydrate_object e hot s =
     (let archive = archive_loc e hot; (s1, hotPresent) = statOrUndefined e hot s
      in case hotPresent of
           None \<Rightarrow> (s1, False, 0, 0)
         | Some h \<Rightarrow>
             let (s2, archivePresent) = statOrUndefined e archive s1
             in (case archivePresent of
                   None \<Rightarrow> (s2, False, 0, 0)
                 | Some False \<Rightarrow> (s2, h, 0, 0)
                 | Some True \<Rightarrow>
                     let (s3, copied) = copyObject e hot archive s2
                     in if \<not> copied then (s3, False, 0, 0)
                        else let (s4, verified) = statOrUndefined e hot s3
                             in if verified \<noteq> Some True then (s4, False, 1, 0)
                                else let (s5, deleted) = removeObject e archive s4
                                     in if deleted then (s5, True, 1, 1) else (s5, False, 1, 0)))"

record rehydrate_progress =
  rp_store :: object_store
  rp_repo :: asset_repo
  rp_done :: "byte_class list"
  rp_copied :: nat
  rp_deleted :: nat
  rp_threw :: bool

definition rehydrate_class :: "tier_env \<Rightarrow> string \<Rightarrow> asset \<Rightarrow> (byte_class, storage_tier) jsmap \<Rightarrow> byte_class
    \<Rightarrow> rehydrate_progress \<Rightarrow> rehydrate_progress" where
  "rehydrate_class e i a currentTiers cls p =
     (if rp_threw p then p
      else if map_of currentTiers cls \<noteq> Some Archive then p\<lparr> rp_done := rp_done p @ [cls] \<rparr>
      else if tv_writeThrows e then p\<lparr> rp_threw := True \<rparr>
      else let r1 = fst (setRehydrateState i cls Begin (tv_now e) (rp_repo p));
               (s, full, c, d) = each_object (rehydrate_object e) (objectsForClass a cls (tv_sourceBucket e)) (rp_store p);
               p1 = p\<lparr> rp_store := s, rp_repo := r1, rp_copied := rp_copied p + c, rp_deleted := rp_deleted p + d \<rparr>
           in if full then p1\<lparr> rp_repo := fst (setRehydrateState i cls Complete (tv_now e) r1), rp_done := rp_done p @ [cls] \<rparr> else p1)"

definition rehydrateAssetFromArchive :: "tier_env \<Rightarrow> string \<Rightarrow> byte_class list \<Rightarrow> object_store \<Rightarrow> asset_repo
    \<Rightarrow> object_store \<times> asset_repo \<times> (tier_error + tier_result option)" where
  "rehydrateAssetFromArchive e i classes s r =
     (case find (\<lambda>cls. \<not> isArchivableByteClass cls) classes of
        Some cls \<Rightarrow> (s, r, Inl (NonArchivableByteClass cls))
      | None \<Rightarrow>
          (case get r i of
             None \<Rightarrow> (s, r, Inr None)
           | Some a \<Rightarrow>
               let p = fold (rehydrate_class e i a (current_tiers a)) classes
                     \<lparr> rp_store = s, rp_repo = r, rp_done = [], rp_copied = 0, rp_deleted = 0, rp_threw = False \<rparr>
               in (rp_store p, rp_repo p, if rp_threw p then Inl TierWriteThrew
                    else Inr (Some \<lparr> tr_done = rp_done p, tr_copied = rp_copied p, tr_deleted = rp_deleted p \<rparr>))))"

definition classesNeedingRehydrate :: "asset \<Rightarrow> byte_class list \<Rightarrow> byte_class list" where
  "classesNeedingRehydrate a needed = filter (\<lambda>cls. map_of (current_tiers a) cls = Some Archive) needed"

section \<open>One object\<close>

lemma called_objects [simp]: "os_objects (called s) = os_objects s" by (simp add: called_def)

lemma stat_objects [simp]: "os_objects (fst (statOrUndefined e l s)) = os_objects s" by (simp add: statOrUndefined_def)

lemma stat_answer: "snd (statOrUndefined e l s) = Some b \<Longrightarrow> b = (os_objects s l \<noteq> None)"
  by (auto simp: statOrUndefined_def split: if_splits)

lemma copy_cases:
  "os_objects (fst (copyObject e t l s)) \<in> {os_objects s, (os_objects s)(t := os_objects s l)}"
  by (auto simp: copyObject_def Let_def split: client_fault.split)

lemma copy_source: "os_objects (fst (copyObject e t l s)) \<noteq> os_objects s \<Longrightarrow> os_objects s l \<noteq> None"
  by (auto simp: copyObject_def Let_def split: client_fault.splits if_splits)

lemma remove_cases: "os_objects (fst (removeObject e l s)) \<in> {os_objects s, (os_objects s)(l := None)}"
  by (auto simp: removeObject_def Let_def split: client_fault.split)

text \<open>An object is where it was, or its bytes are at its archive location.\<close>

lemma relocate_object_store:
  assumes "archive_loc e l \<noteq> l"
  obtains m where "m \<in> {os_objects s, (os_objects s)(archive_loc e l := os_objects s l)}"
    "m = (os_objects s)(archive_loc e l := os_objects s l) \<Longrightarrow> m \<noteq> os_objects s \<Longrightarrow> os_objects s l \<noteq> None"
    "os_objects (fst (relocate_object e l s)) = m
      \<or> os_objects (fst (relocate_object e l s)) = m(l := None) \<and> m (archive_loc e l) \<noteq> None"
    "fst (snd (relocate_object e l s)) \<Longrightarrow> m (archive_loc e l) \<noteq> None"
proof -
  let ?d = "archive_loc e l"
  let ?s1 = "fst (statOrUndefined e l s)"
  let ?s2 = "fst (copyObject e ?d l ?s1)"
  let ?s3 = "fst (statOrUndefined e ?d ?s2)"
  let ?s4 = "fst (removeObject e l ?s3)"
  consider (none) "snd (statOrUndefined e l s) = None" | (gone) "snd (statOrUndefined e l s) = Some False"
    | (there) "snd (statOrUndefined e l s) = Some True" by (cases "snd (statOrUndefined e l s)") auto
  then show ?thesis
  proof cases
    case none
    then show ?thesis by (intro that [of "os_objects s"]) (simp_all add: relocate_object_def Let_def split_beta)
  next
    case gone
    have "snd (statOrUndefined e ?d ?s1) = Some True \<Longrightarrow> os_objects s ?d \<noteq> None" using stat_answer [of e ?d ?s1 True] by simp
    then show ?thesis using gone by (intro that [of "os_objects s"]) (simp_all add: relocate_object_def Let_def split_beta)
  next
    case there
    have c: "os_objects ?s2 \<in> {os_objects s, (os_objects s)(?d := os_objects s l)}" using copy_cases [of e ?d l ?s1] by simp
    have c': "os_objects ?s2 \<noteq> os_objects s \<Longrightarrow> os_objects s l \<noteq> None" using copy_source [of e ?d l ?s1] by simp
    have v: "snd (statOrUndefined e ?d ?s2) = Some True \<Longrightarrow> os_objects ?s2 ?d \<noteq> None" using stat_answer [of e ?d ?s2 True] by simp
    have r: "os_objects ?s4 = os_objects ?s2 \<or> os_objects ?s4 = (os_objects ?s2)(l := None)" using remove_cases [of e l ?s3] by auto
    have run: "relocate_object e l s = (if \<not> snd (copyObject e ?d l ?s1) then (?s2, False, 0, 0)
        else if snd (statOrUndefined e ?d ?s2) \<noteq> Some True then (?s3, False, 1, 0)
        else if snd (removeObject e l ?s3) then (?s4, True, 1, 1) else (?s4, False, 1, 0))"
      using there by (simp add: relocate_object_def Let_def split_beta)
    show ?thesis
      by (rule that [of "os_objects ?s2"]) (use c c' v r in \<open>auto simp: run split: if_splits\<close>)
  qed
qed

definition kept_at :: "tier_env \<Rightarrow> object_store \<Rightarrow> object_store \<Rightarrow> object_loc \<Rightarrow> bool" where
  "kept_at e s0 s l = ((os_objects s l = os_objects s0 l \<or> os_objects s l = None)
     \<and> (os_objects s (archive_loc e l) = os_objects s0 (archive_loc e l) \<or> os_objects s0 l \<noteq> None \<and> os_objects s (archive_loc e l) = os_objects s0 l)
     \<and> (os_objects s0 l \<noteq> None \<longrightarrow> os_objects s l = os_objects s0 l \<or> os_objects s (archive_loc e l) = os_objects s0 l))"

definition clean_archive :: "tier_env \<Rightarrow> object_store \<Rightarrow> object_loc set \<Rightarrow> bool" where
  "clean_archive e s L = (\<forall>l \<in> L. os_objects s l \<noteq> None \<longrightarrow> os_objects s (archive_loc e l) = None \<or> os_objects s (archive_loc e l) = os_objects s l)"

definition separate :: "tier_env \<Rightarrow> object_loc set \<Rightarrow> bool" where
  "separate e L = (inj_on (archive_loc e) L \<and> archive_loc e ` L \<inter> L = {})"

definition archived_at :: "tier_env \<Rightarrow> object_store \<Rightarrow> object_store \<Rightarrow> object_loc \<Rightarrow> bool" where
  "archived_at e s0 s l = (os_objects s0 l \<noteq> None \<longrightarrow> os_objects s (archive_loc e l) = os_objects s0 l)"

definition store_step :: "tier_env \<Rightarrow> object_loc set \<Rightarrow> object_store \<Rightarrow> object_store \<Rightarrow> object_store \<Rightarrow> bool" where
  "store_step e L s0 s s' = ((\<forall>l \<in> L. kept_at e s0 s l \<longrightarrow> kept_at e s0 s' l \<and> (archived_at e s0 s l \<longrightarrow> archived_at e s0 s' l))
     \<and> (\<forall>k. k \<notin> L \<union> archive_loc e ` L \<longrightarrow> os_objects s' k = os_objects s k))"

lemma store_step_refl [simp]: "os_objects s' = os_objects s \<Longrightarrow> store_step e L s0 s s'"
  by (simp add: store_step_def kept_at_def archived_at_def)

lemma store_step_trans: "store_step e L s0 s t \<Longrightarrow> store_step e L s0 t u \<Longrightarrow> store_step e L s0 s u"
  by (simp add: store_step_def)

lemma relocate_object_step:
  assumes "separate e L" "clean_archive e s0 L" "l \<in> L" "kept_at e s0 s l"
  shows "store_step e L s0 s (fst (relocate_object e l s))"
    "fst (snd (relocate_object e l s)) \<Longrightarrow> archived_at e s0 (fst (relocate_object e l s)) l"
proof -
  let ?d = "archive_loc e l" and ?s' = "fst (relocate_object e l s)"
  have dl: "?d \<noteq> l" "?d \<notin> L" using assms(1,3) by (auto simp: separate_def)
  obtain m where m: "m \<in> {os_objects s, (os_objects s)(?d := os_objects s l)}"
    "m = (os_objects s)(?d := os_objects s l) \<Longrightarrow> m \<noteq> os_objects s \<Longrightarrow> os_objects s l \<noteq> None"
    "os_objects ?s' = m \<or> os_objects ?s' = m(l := None) \<and> m ?d \<noteq> None"
    "fst (snd (relocate_object e l s)) \<Longrightarrow> m ?d \<noteq> None"
    using relocate_object_store [OF dl(1), of s] by blast
  have other: "os_objects ?s' k = os_objects s k" if "k \<noteq> l" "k \<noteq> ?d" for k using m(1,3) that by auto
  have d': "os_objects ?s' ?d = m ?d" using m(3) dl(1) by auto
  have md: "m ?d = os_objects s ?d \<or> os_objects s l \<noteq> None \<and> m ?d = os_objects s l"
  proof (cases "m = os_objects s")
    case False
    then have "m = (os_objects s)(?d := os_objects s l)" using m(1) by auto
    then show ?thesis using m(2) False by auto
  qed simp
  have ml: "m l = os_objects s l" using m(1) dl(1) by auto
  have c: "os_objects s0 l \<noteq> None \<Longrightarrow> os_objects s0 ?d = None \<or> os_objects s0 ?d = os_objects s0 l"
    using assms(2,3) by (simp add: clean_archive_def)
  have k: "os_objects s l = os_objects s0 l \<or> os_objects s l = None"
    "os_objects s ?d = os_objects s0 ?d \<or> os_objects s0 l \<noteq> None \<and> os_objects s ?d = os_objects s0 l"
    "os_objects s0 l \<noteq> None \<Longrightarrow> os_objects s l = os_objects s0 l \<or> os_objects s ?d = os_objects s0 l"
    using assms(4) by (auto simp: kept_at_def)
  have full: "m ?d = os_objects s0 l" if "m ?d \<noteq> None" "os_objects s0 l \<noteq> None"
    using md k c that by metis
  have at_l: "kept_at e s0 ?s' l"
    using m(3) d' md ml k c full unfolding kept_at_def by (metis fun_upd_same)
  show "fst (snd (relocate_object e l s)) \<Longrightarrow> archived_at e s0 ?s' l" using m(4) d' full by (simp add: archived_at_def)
  have a_l: "archived_at e s0 s l \<Longrightarrow> archived_at e s0 ?s' l" using d' md k by (auto simp: archived_at_def)
  have oth: "kept_at e s0 s x \<longrightarrow> kept_at e s0 ?s' x \<and> (archived_at e s0 s x \<longrightarrow> archived_at e s0 ?s' x)" if "x \<in> L" "x \<noteq> l" for x
  proof -
    have "archive_loc e x \<noteq> ?d" "archive_loc e x \<noteq> l" "x \<noteq> ?d" using assms(1,3) that dl(2) by (auto simp: separate_def inj_on_def)
    then show ?thesis using other that(2) by (simp add: kept_at_def archived_at_def)
  qed
  show "store_step e L s0 s ?s'" unfolding store_step_def
  proof (intro conjI ballI allI impI)
    fix x assume "x \<in> L" "kept_at e s0 s x"
    then show "kept_at e s0 ?s' x" using at_l oth by (cases "x = l") auto
  next
    fix x assume "x \<in> L" "kept_at e s0 s x" "archived_at e s0 s x"
    then show "archived_at e s0 ?s' x" using a_l oth by (cases "x = l") auto
  next
    fix k assume "k \<notin> L \<union> archive_loc e ` L"
    then have "k \<noteq> l" "k \<noteq> ?d" using assms(3) by auto
    then show "os_objects ?s' k = os_objects s k" by (rule other)
  qed
qed

section \<open>All objects of the classes\<close>

lemma each_object_Cons:
  "fst (each_object f (l # ls) s) = fst (each_object f ls (fst (f l s)))"
  "fst (snd (each_object f (l # ls) s)) \<longleftrightarrow> fst (snd (f l s)) \<and> fst (snd (each_object f ls (fst (f l s))))"
  by (simp_all add: split_beta Let_def)

lemma each_object_step:
  assumes "separate e L" "clean_archive e s0 L" "set ls \<subseteq> L" "\<forall>l \<in> L. kept_at e s0 s l"
  shows "store_step e L s0 s (fst (each_object (relocate_object e) ls s))
    \<and> (fst (snd (each_object (relocate_object e) ls s)) \<longrightarrow> (\<forall>l \<in> set ls. archived_at e s0 (fst (each_object (relocate_object e) ls s)) l))"
  using assms(3,4)
proof (induction ls arbitrary: s)
  case (Cons l ls)
  let ?s1 = "fst (relocate_object e l s)"
  let ?s2 = "fst (each_object (relocate_object e) ls ?s1)"
  have l: "l \<in> L" "kept_at e s0 s l" using Cons.prems by auto
  have st: "store_step e L s0 s ?s1" by (rule relocate_object_step(1) [OF assms(1,2) l])
  have kept: "\<forall>l \<in> L. kept_at e s0 ?s1 l" using st Cons.prems(2) by (auto simp: store_step_def)
  have IH: "store_step e L s0 ?s1 ?s2" "fst (snd (each_object (relocate_object e) ls ?s1)) \<Longrightarrow> \<forall>l \<in> set ls. archived_at e s0 ?s2 l"
    using Cons.IH [OF _ kept] Cons.prems(1) by auto
  have "archived_at e s0 ?s2 l" if "fst (snd (relocate_object e l s))"
    using relocate_object_step(2) [OF assms(1,2) l that] IH(1) kept l(1) by (simp add: store_step_def)
  then show ?case unfolding each_object_Cons using store_step_trans [OF st IH(1)] IH(2) by auto
qed simp

definition asset_locs :: "tier_env \<Rightarrow> asset \<Rightarrow> byte_class list \<Rightarrow> object_loc set" where
  "asset_locs e a classes = (\<Union>cls \<in> set classes. set (objectsForClass a cls (tv_sourceBucket e)))"

text \<open>The state of a run: nothing lost, nothing else touched, and what was newly marked is archived.\<close>

definition progress_ok :: "tier_env \<Rightarrow> asset \<Rightarrow> object_loc set \<Rightarrow> object_store \<Rightarrow> tier_progress \<Rightarrow> bool" where
  "progress_ok e a L s0 p =
     ((\<forall>l \<in> L. kept_at e s0 (tp_store p) l) \<and> (\<forall>k. k \<notin> L \<union> archive_loc e ` L \<longrightarrow> os_objects (tp_store p) k = os_objects s0 k)
      \<and> (\<forall>cls. map_of (tp_tiers p) cls \<noteq> map_of (current_tiers a) cls \<longrightarrow>
           (\<forall>l \<in> set (objectsForClass a cls (tv_sourceBucket e)) \<inter> L. archived_at e s0 (tp_store p) l))
      \<and> (distinct (keys (current_tiers a)) \<longrightarrow> distinct (keys (tp_tiers p))))"

lemma progress_step:
  assumes "separate e L" "clean_archive e s0 L" "set (objectsForClass a cls (tv_sourceBucket e)) \<subseteq> L" "progress_ok e a L s0 p"
  shows "progress_ok e a L s0 (relocate_class e a (current_tiers a) cls p)"
proof (cases "map_of (current_tiers a) cls = Some Archive")
  case True
  then show ?thesis using assms(4) by (simp add: relocate_class_def progress_ok_def)
next
  case False
  let ?ls = "objectsForClass a cls (tv_sourceBucket e)"
  let ?x = "each_object (relocate_object e) ?ls (tp_store p)"
  let ?p = "relocate_class e a (current_tiers a) cls p"
  have k: "\<forall>l \<in> L. kept_at e s0 (tp_store p) l" using assms(4) by (simp add: progress_ok_def)
  note st = each_object_step [OF assms(1,2,3) k, THEN conjunct1]
  have ar: "fst (snd ?x) \<Longrightarrow> \<forall>l \<in> set ?ls. archived_at e s0 (fst ?x) l" using each_object_step [OF assms(1,2,3) k] by simp
  have s: "tp_store ?p = fst ?x" using False by (simp add: relocate_class_def Let_def split_beta)
  have t: "tp_tiers ?p = (if fst (snd ?x) then AList.update cls Archive (tp_tiers p) else tp_tiers p)"
    using False by (simp add: relocate_class_def Let_def split_beta)
  have kept: "\<forall>l \<in> L. kept_at e s0 (fst ?x) l" using st k by (simp add: store_step_def)
  have arch: "archived_at e s0 (fst ?x) l" if "l \<in> L" "archived_at e s0 (tp_store p) l" for l using st k that by (simp add: store_step_def)
  show ?thesis unfolding progress_ok_def s t
  proof (intro conjI allI impI)
    fix c assume ne: "map_of (if fst (snd ?x) then AList.update cls Archive (tp_tiers p) else tp_tiers p) c \<noteq> map_of (current_tiers a) c"
    show "\<forall>l \<in> set (objectsForClass a c (tv_sourceBucket e)) \<inter> L. archived_at e s0 (fst ?x) l"
    proof (cases "c = cls \<and> fst (snd ?x)")
      case True
      then show ?thesis using ar by auto
    next
      case c: False
      then have "map_of (tp_tiers p) c \<noteq> map_of (current_tiers a) c" using ne by (auto split: if_splits)
      then show ?thesis using assms(4) arch by (simp add: progress_ok_def)
    qed
  qed (use kept st assms(4) in \<open>auto simp: progress_ok_def store_step_def\<close>)
qed

lemma progress_fold:
  assumes "separate e L" "clean_archive e s0 L"
  shows "asset_locs e a classes \<subseteq> L \<Longrightarrow> progress_ok e a L s0 p \<Longrightarrow> progress_ok e a L s0 (fold (relocate_class e a (current_tiers a)) classes p)"
proof (induction classes arbitrary: p)
  case (Cons cls classes)
  have "set (objectsForClass a cls (tv_sourceBucket e)) \<subseteq> L" "asset_locs e a classes \<subseteq> L" using Cons.prems(1) by (auto simp: asset_locs_def)
  then show ?case using Cons.IH [OF _ progress_step [OF assms _ Cons.prems(2)]] by simp
qed simp

lemma tier_written:
  assumes "get r i = Some a" "get (fst (setStorageTier i ov now r)) i = Some a'"
  shows "a' = a\<lparr> a_storageTiering := Some (applyStorageTier (a_storageTiering a) ov), a_updatedAt := now \<rparr>"
  using assms by (auto simp: setStorageTier_def get_def put_def Let_def)

lemma new_archive_tier:
  assumes "distinct (keys m)" "map_of (tiers (applyStorageTier t m)) cls = Some Archive" "map_of m cls \<noteq> Some Archive"
  shows "map_of (case t of None \<Rightarrow> [] | Some t \<Rightarrow> tiers t) cls = Some Archive"
proof -
  have "distinct (List.map fst (rev m))" using assms(1) by (simp add: keys_def rev_map [symmetric])
  then have r: "map_of (rev m) = map_of m" using assms(1) by (intro map_of_inject_set [THEN iffD2]) (simp_all add: keys_def)
  have d: "map_of (tiers defaultStorageTiering) c \<noteq> Some Archive" for c
    by (cases c) (simp_all add: defaultStorageTiering_def)
  show ?thesis using assms(2,3) d [of cls]
    by (cases t) (auto simp: applyStorageTier_def Let_def r map_add_def split: option.splits)
qed

section \<open>Properties\<close>

text \<open>C32. Moving an asset to the archive loses no bytes, whatever its calls do: when the objects go to
  archive keys of their own, and none of those keys holds other bytes, then whichever call throws,
  lands late or has no effect, the bytes of every object are afterwards where they were or at its
  archive key; no other object is touched; a class that became archived has all its bytes in the
  archive; and the lifecycle of the asset does not move.\<close>

theorem archiving_loses_no_bytes:
  assumes "get r i = Some a" "relocateAssetToArchive e i classes s r = (s', r', res)"
    and "separate e (asset_locs e a classes)" "clean_archive e s (asset_locs e a classes)" "distinct (keys (current_tiers a))"
  shows "(\<forall>l \<in> asset_locs e a classes. os_objects s l \<noteq> None \<longrightarrow>
        os_objects s' l = os_objects s l \<or> os_objects s' (archive_loc e l) = os_objects s l)
    \<and> (\<forall>k. k \<notin> asset_locs e a classes \<union> archive_loc e ` asset_locs e a classes \<longrightarrow> os_objects s' k = os_objects s k)
    \<and> (\<exists>a'. get r' i = Some a' \<and> a_status a' = a_status a \<and> a_statusHistory a' = a_statusHistory a
        \<and> (\<forall>cls. cls \<in> set classes \<longrightarrow> map_of (current_tiers a') cls = Some Archive \<longrightarrow> map_of (current_tiers a) cls \<noteq> Some Archive \<longrightarrow>
            (\<forall>l \<in> set (objectsForClass a cls (tv_sourceBucket e)). os_objects s l \<noteq> None \<longrightarrow> os_objects s' (archive_loc e l) = os_objects s l)))"
proof -
  let ?L = "asset_locs e a classes" and ?cur = "current_tiers a"
  let ?init = "\<lparr> tp_store = s, tp_tiers = ?cur, tp_done = [], tp_copied = 0, tp_deleted = 0 \<rparr>"
  let ?p = "fold (relocate_class e a ?cur) classes ?init"
  have start: "progress_ok e a ?L s ?init" by (simp add: progress_ok_def kept_at_def)
  have ok: "progress_ok e a ?L s ?p" by (rule progress_fold [OF assms(3,4) order_refl start])
  show ?thesis
  proof (cases "find (\<lambda>cls. \<not> isArchivableByteClass cls) classes")
    case (Some c)
    then have "s' = s" "r' = r" using assms(2) by (simp_all add: relocateAssetToArchive_def)
    then show ?thesis using assms(1) by auto
  next
    case None
    have run: "s' = tp_store ?p" "r' = r \<or> r' = fst (setStorageTier i (tp_tiers ?p) (tv_now e) r)"
      using assms(1,2) None by (auto simp: relocateAssetToArchive_def Let_def split: if_splits)
    note parts = ok [unfolded progress_ok_def run(1) [symmetric]]
    have kept: "\<forall>l \<in> ?L. kept_at e s s' l" "\<forall>k. k \<notin> ?L \<union> archive_loc e ` ?L \<longrightarrow> os_objects s' k = os_objects s k"
      by (rule parts [THEN conjunct1], rule parts [THEN conjunct2, THEN conjunct1])
    have new: "\<And>cls. map_of (tp_tiers ?p) cls \<noteq> map_of ?cur cls \<Longrightarrow>
        \<forall>l \<in> set (objectsForClass a cls (tv_sourceBucket e)) \<inter> ?L. archived_at e s s' l"
      by (rule parts [THEN conjunct2, THEN conjunct2, THEN conjunct1, THEN spec, THEN mp])
    have dk: "distinct (keys (tp_tiers ?p))" using parts assms(5) by (elim conjE) (rule mp)
    have one: "\<forall>l \<in> ?L. os_objects s l \<noteq> None \<longrightarrow> os_objects s' l = os_objects s l \<or> os_objects s' (archive_loc e l) = os_objects s l"
      using kept(1) by (simp add: kept_at_def)
    have "\<exists>a'. get r' i = Some a' \<and> a_status a' = a_status a \<and> a_statusHistory a' = a_statusHistory a
        \<and> (\<forall>cls. cls \<in> set classes \<longrightarrow> map_of (current_tiers a') cls = Some Archive \<longrightarrow> map_of ?cur cls \<noteq> Some Archive \<longrightarrow>
            (\<forall>l \<in> set (objectsForClass a cls (tv_sourceBucket e)). os_objects s l \<noteq> None \<longrightarrow> os_objects s' (archive_loc e l) = os_objects s l))"
    proof (cases "r' = r")
      case True
      then show ?thesis using assms(1) by auto
    next
      case False
      then have r': "r' = fst (setStorageTier i (tp_tiers ?p) (tv_now e) r)" using run(2) by simp
      then obtain a' where a': "get r' i = Some a'" using assms(1) by (auto simp: setStorageTier_def get_def put_def Let_def)
      have eq: "a' = a\<lparr> a_storageTiering := Some (applyStorageTier (a_storageTiering a) (tp_tiers ?p)), a_updatedAt := tv_now e \<rparr>"
        using tier_written [OF assms(1)] a' r' by simp
      have "\<forall>l \<in> set (objectsForClass a cls (tv_sourceBucket e)). os_objects s l \<noteq> None \<longrightarrow> os_objects s' (archive_loc e l) = os_objects s l"
        if c: "cls \<in> set classes" "map_of (current_tiers a') cls = Some Archive" "map_of ?cur cls \<noteq> Some Archive" for cls
      proof -
        have "map_of (tiers (applyStorageTier (a_storageTiering a) (tp_tiers ?p))) cls = Some Archive"
          using c(2) by (simp add: eq current_tiers_def)
        then have "map_of (tp_tiers ?p) cls = Some Archive"
          using new_archive_tier [OF dk] c(3) unfolding current_tiers_def by blast
        then have "map_of (tp_tiers ?p) cls \<noteq> map_of ?cur cls" using c(3) by simp
        then show ?thesis using new [of cls] c(1) by (auto simp: archived_at_def asset_locs_def)
      qed
      then show ?thesis using a' by (intro exI [of _ a']) (simp add: eq)
    qed
    with one kept(2) show ?thesis by (intro conjI)
  qed
qed

section \<open>When every call works\<close>

text \<open>Two ways of moving objects share this: an object waits or is moved, moving one leaves the others,
  so after a pass over a list all of it is moved.\<close>

locale object_mover =
  fixes move :: "object_loc \<Rightarrow> object_store \<Rightarrow> object_store \<times> bool \<times> nat \<times> nat"
    and L :: "object_loc set" and waiting moved :: "object_loc \<Rightarrow> object_store \<Rightarrow> bool"
  assumes moves: "\<lbrakk>l \<in> L; waiting l s \<or> moved l s\<rbrakk> \<Longrightarrow> moved l (fst (move l s)) \<and> fst (snd (move l s))"
    and others: "\<lbrakk>l \<in> L; x \<in> L; x \<noteq> l; waiting l s \<or> moved l s\<rbrakk> \<Longrightarrow>
      (waiting x s \<longrightarrow> waiting x (fst (move l s))) \<and> (moved x s \<longrightarrow> moved x (fst (move l s)))"
begin

lemma all_moved:
  assumes "set ls \<subseteq> L" "\<forall>x \<in> L. waiting x s \<or> moved x s"
  shows "(\<forall>x \<in> set ls. moved x (fst (each_object move ls s))) \<and> fst (snd (each_object move ls s))
    \<and> (\<forall>x \<in> L. moved x s \<longrightarrow> moved x (fst (each_object move ls s)))"
  using assms
proof (induction ls arbitrary: s)
  case (Cons l ls)
  let ?s = "fst (move l s)"
  have l: "l \<in> L" "waiting l s \<or> moved l s" using Cons.prems by auto
  have m: "moved l ?s" "fst (snd (move l s))" using moves [OF l] by auto
  have o: "(waiting x s \<longrightarrow> waiting x ?s \<or> x = l) \<and> (moved x s \<longrightarrow> moved x ?s)" if "x \<in> L" for x
    using others [OF l(1) that _ l(2)] m(1) by (cases "x = l") auto
  then have "\<forall>x \<in> L. waiting x ?s \<or> moved x ?s" using Cons.prems(2) m(1) by metis
  then have IH: "\<forall>x \<in> set ls. moved x (fst (each_object move ls ?s))" "fst (snd (each_object move ls ?s))"
    "\<forall>x \<in> L. moved x ?s \<longrightarrow> moved x (fst (each_object move ls ?s))"
    using Cons.IH [of ?s] Cons.prems(1) by auto
  show ?case unfolding each_object_Cons using IH m o l(1) by auto
qed simp

end

definition works :: "tier_env \<Rightarrow> bool" where
  "works e = ((\<forall>n. tv_fault e n = CallWorks) \<and> \<not> tv_writeThrows e)"

definition hot_only :: "tier_env \<Rightarrow> (object_loc \<Rightarrow> string option) \<Rightarrow> object_loc \<Rightarrow> object_store \<Rightarrow> bool" where
  "hot_only e \<sigma> l s = (\<sigma> l \<noteq> None \<and> os_objects s l = \<sigma> l \<and> os_objects s (archive_loc e l) = None)"

definition cold_only :: "tier_env \<Rightarrow> (object_loc \<Rightarrow> string option) \<Rightarrow> object_loc \<Rightarrow> object_store \<Rightarrow> bool" where
  "cold_only e \<sigma> l s = (\<sigma> l \<noteq> None \<and> os_objects s l = None \<and> os_objects s (archive_loc e l) = \<sigma> l)"

lemma stat_works: "works e \<Longrightarrow> statOrUndefined e l s = (called s, Some (os_objects s l \<noteq> None))"
  by (simp add: statOrUndefined_def works_def)

lemma copy_works: "works e \<Longrightarrow> os_objects s l \<noteq> None \<Longrightarrow>
    copyObject e t l s = ((called s)\<lparr> os_objects := (os_objects s)(t := os_objects s l) \<rparr>, True)"
  by (simp add: copyObject_def works_def Let_def)

lemma remove_works: "works e \<Longrightarrow> removeObject e l s = ((called s)\<lparr> os_objects := (os_objects s)(l := None) \<rparr>, True)"
  by (simp add: removeObject_def works_def Let_def)

lemma relocate_works:
  assumes "works e" "archive_loc e l \<noteq> l" "os_objects s l \<noteq> None"
  shows "os_objects (fst (relocate_object e l s)) = (os_objects s)(archive_loc e l := os_objects s l, l := None)"
    "fst (snd (relocate_object e l s))"
  using assms by (simp_all add: relocate_object_def Let_def stat_works copy_works remove_works)

lemma relocate_done:
  assumes "works e" "os_objects s l = None" "os_objects s (archive_loc e l) \<noteq> None"
  shows "os_objects (fst (relocate_object e l s)) = os_objects s" "fst (snd (relocate_object e l s))"
  using assms by (simp_all add: relocate_object_def Let_def stat_works)

lemma rehydrate_works:
  assumes "works e" "archive_loc e l \<noteq> l" "os_objects s (archive_loc e l) \<noteq> None"
  shows "os_objects (fst (rehydrate_object e l s)) = (os_objects s)(l := os_objects s (archive_loc e l), archive_loc e l := None)"
    "fst (snd (rehydrate_object e l s))"
  using assms by (simp_all add: rehydrate_object_def Let_def stat_works copy_works remove_works)

lemma rehydrate_done:
  assumes "works e" "os_objects s l \<noteq> None" "os_objects s (archive_loc e l) = None"
  shows "os_objects (fst (rehydrate_object e l s)) = os_objects s" "fst (snd (rehydrate_object e l s))"
  using assms by (simp_all add: rehydrate_object_def Let_def stat_works)

lemma separateD: "separate e L \<Longrightarrow> l \<in> L \<Longrightarrow> x \<in> L \<Longrightarrow> archive_loc e l \<noteq> x"
  "separate e L \<Longrightarrow> l \<in> L \<Longrightarrow> x \<in> L \<Longrightarrow> x \<noteq> l \<Longrightarrow> archive_loc e x \<noteq> archive_loc e l"
  by (auto simp: separate_def inj_on_def)

lemma relocate_object_moves:
  assumes "works e" "separate e L" "l \<in> L" "hot_only e \<sigma> l s \<or> cold_only e \<sigma> l s"
  shows "cold_only e \<sigma> l (fst (relocate_object e l s)) \<and> fst (snd (relocate_object e l s))"
    "x \<in> L \<Longrightarrow> x \<noteq> l \<Longrightarrow> os_objects (fst (relocate_object e l s)) x = os_objects s x
      \<and> os_objects (fst (relocate_object e l s)) (archive_loc e x) = os_objects s (archive_loc e x)"
proof -
  have d: "archive_loc e l \<noteq> l" using separateD(1) [OF assms(2,3,3)] .
  have o: "x \<noteq> archive_loc e l" "archive_loc e x \<noteq> l" "archive_loc e x \<noteq> archive_loc e l" if "x \<in> L" "x \<noteq> l"
    using separateD [OF assms(2)] assms(3) that by blast+
  have "os_objects (fst (relocate_object e l s)) = (os_objects s)(archive_loc e l := \<sigma> l, l := None) \<and> fst (snd (relocate_object e l s)) \<and> \<sigma> l \<noteq> None"
    using assms(4)
  proof
    assume "hot_only e \<sigma> l s"
    then show ?thesis using relocate_works [OF assms(1) d, of s] by (simp add: hot_only_def)
  next
    assume "cold_only e \<sigma> l s"
    then show ?thesis using relocate_done [OF assms(1), of s l] by (auto simp: cold_only_def fun_eq_iff)
  qed
  then show "cold_only e \<sigma> l (fst (relocate_object e l s)) \<and> fst (snd (relocate_object e l s))"
    "x \<in> L \<Longrightarrow> x \<noteq> l \<Longrightarrow> os_objects (fst (relocate_object e l s)) x = os_objects s x
      \<and> os_objects (fst (relocate_object e l s)) (archive_loc e x) = os_objects s (archive_loc e x)"
    using d o by (simp_all add: cold_only_def)
qed

lemma rehydrate_object_moves:
  assumes "works e" "separate e L" "l \<in> L" "hot_only e \<sigma> l s \<or> cold_only e \<sigma> l s"
  shows "hot_only e \<sigma> l (fst (rehydrate_object e l s)) \<and> fst (snd (rehydrate_object e l s))"
    "x \<in> L \<Longrightarrow> x \<noteq> l \<Longrightarrow> os_objects (fst (rehydrate_object e l s)) x = os_objects s x
      \<and> os_objects (fst (rehydrate_object e l s)) (archive_loc e x) = os_objects s (archive_loc e x)"
proof -
  have d: "archive_loc e l \<noteq> l" using separateD(1) [OF assms(2,3,3)] .
  have o: "x \<noteq> archive_loc e l" "archive_loc e x \<noteq> l" "archive_loc e x \<noteq> archive_loc e l" if "x \<in> L" "x \<noteq> l"
    using separateD [OF assms(2)] assms(3) that by blast+
  have "os_objects (fst (rehydrate_object e l s)) = (os_objects s)(l := \<sigma> l, archive_loc e l := None) \<and> fst (snd (rehydrate_object e l s)) \<and> \<sigma> l \<noteq> None"
    using assms(4)
  proof
    assume "cold_only e \<sigma> l s"
    then show ?thesis using rehydrate_works [OF assms(1) d, of s] by (simp add: cold_only_def)
  next
    assume "hot_only e \<sigma> l s"
    then show ?thesis using rehydrate_done [OF assms(1), of s l] by (auto simp: hot_only_def fun_eq_iff)
  qed
  then show "hot_only e \<sigma> l (fst (rehydrate_object e l s)) \<and> fst (snd (rehydrate_object e l s))"
    "x \<in> L \<Longrightarrow> x \<noteq> l \<Longrightarrow> os_objects (fst (rehydrate_object e l s)) x = os_objects s x
      \<and> os_objects (fst (rehydrate_object e l s)) (archive_loc e x) = os_objects s (archive_loc e x)"
    using d o by (simp_all add: hot_only_def)
qed

interpretation relocating: object_mover "relocate_object e" "{l \<in> L. works e \<and> separate e L}" "hot_only e \<sigma>" "cold_only e \<sigma>" for e L \<sigma>
proof unfold_locales
  fix l s assume "l \<in> {l \<in> L. works e \<and> separate e L}" "hot_only e \<sigma> l s \<or> cold_only e \<sigma> l s"
  then show "cold_only e \<sigma> l (fst (relocate_object e l s)) \<and> fst (snd (relocate_object e l s))"
    using relocate_object_moves(1) [of e L l \<sigma> s] by simp
next
  fix l x s
  assume "l \<in> {l \<in> L. works e \<and> separate e L}" "x \<in> {l \<in> L. works e \<and> separate e L}" "x \<noteq> l" "hot_only e \<sigma> l s \<or> cold_only e \<sigma> l s"
  then have "os_objects (fst (relocate_object e l s)) x = os_objects s x
      \<and> os_objects (fst (relocate_object e l s)) (archive_loc e x) = os_objects s (archive_loc e x)"
    using relocate_object_moves(2) [of e L l \<sigma> s x] by simp
  then show "(hot_only e \<sigma> x s \<longrightarrow> hot_only e \<sigma> x (fst (relocate_object e l s))) \<and> (cold_only e \<sigma> x s \<longrightarrow> cold_only e \<sigma> x (fst (relocate_object e l s)))"
    by (simp add: hot_only_def cold_only_def)
qed

interpretation rehydrating: object_mover "rehydrate_object e" "{l \<in> L. works e \<and> separate e L}" "cold_only e \<sigma>" "hot_only e \<sigma>" for e L \<sigma>
proof unfold_locales
  fix l s assume "l \<in> {l \<in> L. works e \<and> separate e L}" "cold_only e \<sigma> l s \<or> hot_only e \<sigma> l s"
  then show "hot_only e \<sigma> l (fst (rehydrate_object e l s)) \<and> fst (snd (rehydrate_object e l s))"
    using rehydrate_object_moves(1) [of e L l \<sigma> s] by auto
next
  fix l x s
  assume "l \<in> {l \<in> L. works e \<and> separate e L}" "x \<in> {l \<in> L. works e \<and> separate e L}" "x \<noteq> l" "cold_only e \<sigma> l s \<or> hot_only e \<sigma> l s"
  then have "os_objects (fst (rehydrate_object e l s)) x = os_objects s x
      \<and> os_objects (fst (rehydrate_object e l s)) (archive_loc e x) = os_objects s (archive_loc e x)"
    using rehydrate_object_moves(2) [of e L l \<sigma> s x] by auto
  then show "(cold_only e \<sigma> x s \<longrightarrow> cold_only e \<sigma> x (fst (rehydrate_object e l s))) \<and> (hot_only e \<sigma> x s \<longrightarrow> hot_only e \<sigma> x (fst (rehydrate_object e l s)))"
    by (simp add: hot_only_def cold_only_def)
qed

lemma each_object_frame:
  assumes "\<And>l s k. k \<noteq> l \<Longrightarrow> k \<noteq> archive_loc e l \<Longrightarrow> os_objects (fst (f l s)) k = os_objects s k"
  shows "k \<notin> set ls \<union> archive_loc e ` set ls \<Longrightarrow> os_objects (fst (each_object f ls s)) k = os_objects s k"
proof (induction ls arbitrary: s)
  case (Cons l ls)
  then have "k \<noteq> l" "k \<noteq> archive_loc e l" "k \<notin> set ls \<union> archive_loc e ` set ls" by auto
  then show ?case unfolding each_object_Cons using Cons.IH [of "fst (f l s)"] assms by simp
qed simp

lemma relocate_frame: "k \<noteq> l \<Longrightarrow> k \<noteq> archive_loc e l \<Longrightarrow> os_objects (fst (relocate_object e l s)) k = os_objects s k"
proof -
  assume k: "k \<noteq> l" "k \<noteq> archive_loc e l"
  have c: "os_objects (fst (copyObject e (archive_loc e l) l t)) k = os_objects t k" for t using copy_cases [of e "archive_loc e l" l t] k by auto
  have r: "os_objects (fst (removeObject e l t)) k = os_objects t k" for t using remove_cases [of e l t] k by auto
  show ?thesis by (simp add: relocate_object_def Let_def split_beta c r split: option.split bool.split)
qed

lemma rehydrate_frame: "k \<noteq> l \<Longrightarrow> k \<noteq> archive_loc e l \<Longrightarrow> os_objects (fst (rehydrate_object e l s)) k = os_objects s k"
proof -
  assume k: "k \<noteq> l" "k \<noteq> archive_loc e l"
  have c: "os_objects (fst (copyObject e l (archive_loc e l) t)) k = os_objects t k" for t using copy_cases [of e l "archive_loc e l" t] k by auto
  have r: "os_objects (fst (removeObject e (archive_loc e l) t)) k = os_objects t k" for t using remove_cases [of e "archive_loc e l" t] k by auto
  show ?thesis by (simp add: rehydrate_object_def Let_def split_beta c r split: option.split bool.split)
qed

lemma objects_of_same_asset:
  "objectsForClass (a\<lparr> a_storageTiering := t, a_updatedAt := n \<rparr>) cls b = objectsForClass a cls b"
  by (simp add: objectsForClass_def)

lemma relocate_one_class:
  assumes "works e" "get r i = Some a" "isArchivableByteClass cls" "map_of (current_tiers a) cls \<noteq> Some Archive"
    and "fst (snd (each_object (relocate_object e) (objectsForClass a cls (tv_sourceBucket e)) s))"
  shows "\<exists>res. relocateAssetToArchive e i [cls] s r = (fst (each_object (relocate_object e) (objectsForClass a cls (tv_sourceBucket e)) s),
     put i (a\<lparr> a_storageTiering := Some (applyStorageTier (a_storageTiering a) (AList.update cls Archive (current_tiers a))), a_updatedAt := tv_now e \<rparr>) r, res)"
proof -
  have w: "\<not> tv_writeThrows e" using assms(1) by (simp add: works_def)
  have m: "map_of (store r) i = Some a" using assms(2) by (simp add: get_def)
  show ?thesis using assms(2-5) w m
    by (simp add: relocateAssetToArchive_def relocate_class_def Let_def split_beta setStorageTier_def)
qed

lemma rehydrate_one_class:
  assumes "works e" "get r i = Some a" "isArchivableByteClass cls" "map_of (current_tiers a) cls = Some Archive"
    and "fst (snd (each_object (rehydrate_object e) (objectsForClass a cls (tv_sourceBucket e)) s))"
  shows "\<exists>c d. rehydrateAssetFromArchive e i [cls] s r = (fst (each_object (rehydrate_object e) (objectsForClass a cls (tv_sourceBucket e)) s),
     fst (setRehydrateState i cls Complete (tv_now e) (fst (setRehydrateState i cls Begin (tv_now e) r))),
     Inr (Some \<lparr> tr_done = [cls], tr_copied = c, tr_deleted = d \<rparr>))"
  using assms by (simp add: rehydrateAssetFromArchive_def rehydrate_class_def works_def Let_def split_beta)


text \<open>C0. The archive key forgets the bucket: when two renditions lie under the same key of two buckets, archiving
  them with every call working leaves the bytes of the first one nowhere, and the class is still
  marked as archived.\<close>

theorem shared_archive_key_loses_bytes:
  assumes "works e" "get r i = Some a" "a_renditions a = Some [x, y]" "map_of (current_tiers a) Renditions \<noteq> Some Archive"
    and "parseS3Uri (rn_objectKey x) = Some (b1, k)" "parseS3Uri (rn_objectKey y) = Some (b2, k)" "b1 \<noteq> b2"
    and "ad_bucket (tv_destination e) \<notin> {b1, b2}" "os_objects s (b1, k) = Some c1" "os_objects s (b2, k) = Some c2" "c1 \<noteq> c2"
    and "\<forall>l. l \<noteq> (b1, k) \<longrightarrow> os_objects s l \<noteq> Some c1" "distinct (keys (current_tiers a))"
    and "relocateAssetToArchive e i [Renditions] s r = (s', r', res)"
  shows "(\<forall>l. os_objects s' l \<noteq> Some c1) \<and> (\<exists>a'. get r' i = Some a' \<and> map_of (current_tiers a') Renditions = Some Archive)"
proof -
  let ?d = "archive_loc e (b1, k)"
  have d: "archive_loc e (b2, k) = ?d" "?d \<noteq> (b1, k)" "?d \<noteq> (b2, k)" "fst ?d = ad_bucket (tv_destination e)"
    using assms(8) by (auto simp: archive_loc_def)
  have ls: "objectsForClass a Renditions (tv_sourceBucket e) = [(b1, k), (b2, k)]" using assms(3,5,6) by (simp add: objectsForClass_def)
  let ?s1 = "fst (relocate_object e (b1, k) s)"
  have s1: "os_objects ?s1 = (os_objects s)(?d := Some c1, (b1, k) := None)" "fst (snd (relocate_object e (b1, k) s))"
    using relocate_works [OF assms(1) d(2), of s] assms(9) by simp_all
  have p: "os_objects ?s1 (b2, k) = Some c2" using s1(1) d(3) assms(7,10) by simp
  let ?s2 = "fst (relocate_object e (b2, k) ?s1)"
  have s2: "os_objects ?s2 = (os_objects ?s1)(?d := Some c2, (b2, k) := None)" "fst (snd (relocate_object e (b2, k) ?s1))"
    using relocate_works [OF assms(1), of "(b2, k)" ?s1] d p by simp_all
  let ?x = "each_object (relocate_object e) (objectsForClass a Renditions (tv_sourceBucket e)) s"
  have x: "fst ?x = ?s2" "fst (snd ?x)" unfolding ls each_object_Cons using s1(2) s2(2) by simp_all
  let ?a1 = "a\<lparr> a_storageTiering := Some (applyStorageTier (a_storageTiering a) (AList.update Renditions Archive (current_tiers a))), a_updatedAt := tv_now e \<rparr>"
  have ar: "isArchivableByteClass Renditions" by (simp add: isArchivableByteClass_def ARCHIVABLE_BYTE_CLASSES_def)
  have run: "s' = ?s2" "r' = put i ?a1 r" using relocate_one_class [OF assms(1,2) ar assms(4) x(2)] assms(14) x(1) by auto
  have "map_of (rev (AList.update Renditions Archive (current_tiers a))) = map_of (AList.update Renditions Archive (current_tiers a))"
    using assms(13) by (intro map_of_inject_set [THEN iffD2]) (simp_all add: keys_def rev_map [symmetric] distinct_update)
  then have t: "map_of (current_tiers ?a1) Renditions = Some Archive" by (simp add: current_tiers_def applyStorageTier_def Let_def map_add_def)
  have "get r' i = Some ?a1" by (simp add: run(2) get_def put_def)
  moreover have "\<forall>l. os_objects s' l \<noteq> Some c1" using assms(11,12) by (auto simp: run(1) s2(1) s1(1))
  ultimately show ?thesis using t by blast
qed

section \<open>Example runs\<close>

definition demo_tier_env :: "(nat \<Rightarrow> client_fault) \<Rightarrow> tier_env" where
  "demo_tier_env f = \<lparr> tv_fault = f, tv_sourceBucket = ''src'', tv_destination = \<lparr> ad_bucket = ''arc'', ad_prefix = ''p'' \<rparr>,
     tv_writeThrows = False, tv_now = ''t9'' \<rparr>"

definition demo_objects :: object_store where
  "demo_objects = \<lparr> os_objects = [(''src'', ''k'') \<mapsto> ''SRC'', (''b1'', ''r'') \<mapsto> ''ONE'', (''b2'', ''r'') \<mapsto> ''TWO''], os_calls = 0 \<rparr>"

definition demo_rendition :: "string \<Rightarrow> rendition" where
  "demo_rendition key = \<lparr> rn_id = key, rn_label = ''r'', rn_width = Fin 1, rn_height = Fin 1, rn_objectKey = key, rn_codec = None, rn_bitrateBps = None \<rparr>"

lemma demo_source_locs: "objectsForClass demo_asset Source ''src'' = [(''src'', ''k'')]" "current_tiers demo_asset = []"
  by code_simp+

lemma demo_archive_loc: "archive_loc (demo_tier_env f) (''src'', ''k'') = (''arc'', ''p/k'')"
  by (simp add: archive_loc_def demo_tier_env_def archiveKeyFor_def strip_slashes_def lead_slashes_def)

lemma demo_tier_get: "get demo_repo ''A'' = Some demo_asset" using demo_lookup by (simp add: get_def)

lemma demo_tier_side:
  "separate (demo_tier_env f) (asset_locs (demo_tier_env f) demo_asset [Source])"
  "clean_archive (demo_tier_env f) demo_objects (asset_locs (demo_tier_env f) demo_asset [Source])"
  "separate (demo_tier_env f) (set (objectsForClass demo_asset Source (tv_sourceBucket (demo_tier_env f))))"
  using demo_source_locs(1) demo_archive_loc
  by (simp_all add: separate_def clean_archive_def asset_locs_def demo_tier_env_def demo_objects_def)

theorem archiving_loses_no_bytes_witness:
  "let s' = fst (relocateAssetToArchive (demo_tier_env (\<lambda>n. if n = 3 then CallThrowsAfter else CallWorks)) ''A'' [Source] demo_objects demo_repo)
   in os_objects s' (''src'', ''k'') = Some ''SRC'' \<or> os_objects s' (''arc'', ''p/k'') = Some ''SRC''"
proof -
  let ?f = "\<lambda>n. if n = 3 then CallThrowsAfter else CallWorks"
  let ?x = "relocateAssetToArchive (demo_tier_env ?f) ''A'' [Source] demo_objects demo_repo"
  have x: "?x = (fst ?x, fst (snd ?x), snd (snd ?x))" by simp
  have d: "distinct (keys (current_tiers demo_asset))" by (simp add: demo_source_locs)
  have m: "(''src'', ''k'') \<in> asset_locs (demo_tier_env ?f) demo_asset [Source]"
    using demo_source_locs(1) by (simp add: asset_locs_def demo_tier_env_def)
  have o: "os_objects demo_objects (''src'', ''k'') = Some ''SRC''" by (simp add: demo_objects_def)
  show ?thesis
    using conjunct1 [OF archiving_loses_no_bytes [OF demo_tier_get x demo_tier_side(1,2) d]] m o demo_archive_loc [of ?f]
    by (auto simp: Let_def)
qed


theorem shared_archive_key_loses_bytes_witness:
  "\<exists>s' :: object_store. \<forall>l. os_objects s' l \<noteq> Some ''ONE''"
proof -
  let ?e = "demo_tier_env (\<lambda>n. CallWorks)"
  let ?a = "demo_asset\<lparr> a_renditions := Some [demo_rendition ''s3://b1/r'', demo_rendition ''s3://b2/r''] \<rparr>"
  let ?r = "put ''A'' ?a demo_repo"
  let ?x = "relocateAssetToArchive ?e ''A'' [Renditions] demo_objects ?r"
  have x: "?x = (fst ?x, fst (snd ?x), snd (snd ?x))" by simp
  have w: "works ?e" by (simp add: works_def demo_tier_env_def)
  have g: "get ?r ''A'' = Some ?a" by (simp add: get_def put_def)
  have c: "current_tiers ?a = []" using demo_source_locs(2) by (simp add: current_tiers_def)
  have p: "parseS3Uri (rn_objectKey (demo_rendition ''s3://b1/r'')) = Some (''b1'', ''r'')" "parseS3Uri (rn_objectKey (demo_rendition ''s3://b2/r'')) = Some (''b2'', ''r'')"
    by code_simp+
  have rs: "a_renditions ?a = Some [demo_rendition ''s3://b1/r'', demo_rendition ''s3://b2/r'']" by simp
  have o: "os_objects demo_objects (''b1'', ''r'') = Some ''ONE''" "os_objects demo_objects (''b2'', ''r'') = Some ''TWO''"
    "\<forall>l. l \<noteq> (''b1'', ''r'') \<longrightarrow> os_objects demo_objects l \<noteq> Some ''ONE''" by (auto simp: demo_objects_def)
  have q: "map_of (current_tiers ?a) Renditions \<noteq> Some Archive" "distinct (keys (current_tiers ?a))" unfolding c by simp_all
  have n: "''b1'' \<noteq> ''b2''" "''ONE'' \<noteq> ''TWO''" by simp_all
  have v: "ad_bucket (tv_destination ?e) \<notin> {''b1'', ''b2''}" by (simp add: demo_tier_env_def)
  have "\<forall>l. os_objects (fst ?x) l \<noteq> Some ''ONE''"
    by (rule conjunct1 [OF shared_archive_key_loses_bytes [OF w g rs q(1) p n(1) v o(1,2) n(2) o(3) q(2) x]])
  then show ?thesis by (rule exI [where P = "\<lambda>t. \<forall>l. os_objects t l \<noteq> Some ''ONE''" and x = "fst ?x"])
qed

end
