(* ===== verification/Source_Guard.thy ===== *)
theory Source_Guard
  imports Retry_Policy Encore_Edge "HOL-Library.Word"
begin

text \<open>
  Opening the source of a URL pull (\<^verbatim>\<open>src/src/pipeline/source.ts\<close>): which addresses count as
  public, the check of a host before and after the request, and the two readers. The URL parser, the
  name lookup, the HTTP client and the S3 client are arguments. \<^verbatim>\<open>isIP\<close> of \<^verbatim>\<open>node:net\<close> is written
  out: dotted quads without leading zeros, and the colon form with at most one gap, an optional
  dotted tail and an optional zone.
\<close>

section \<open>Address literals\<close>

definition split_on :: "char \<Rightarrow> string \<Rightarrow> string list" where
  "split_on c s = foldr (\<lambda>x acc. if x = c then [] # acc else (x # hd acc) # tl acc) s [[]]"

definition v4_segment :: "string \<Rightarrow> nat option" where
  "v4_segment s = (if s \<noteq> [] \<and> length s \<le> 3 \<and> list_all is_digit s \<and> (length s = 1 \<or> hd s \<noteq> CHR ''0'') \<and> digits_value s \<le> 255
     then Some (digits_value s) else None)"

definition parse_v4 :: "string \<Rightarrow> (nat \<times> nat \<times> nat \<times> nat) option" where
  "parse_v4 s = (case List.map v4_segment (split_on (CHR ''.'') s) of
     [Some a, Some b, Some c, Some d] \<Rightarrow> Some (a, b, c, d) | _ \<Rightarrow> None)"

definition is_hex_digit :: "char \<Rightarrow> bool" where
  "is_hex_digit c = (is_digit c \<or> c \<in> set ''abcdefABCDEF'')"

definition v6_group :: "string \<Rightarrow> bool" where
  "v6_group s = (s \<noteq> [] \<and> length s \<le> 4 \<and> list_all is_hex_digit s)"

text \<open>The 16-bit groups a run of groups stands for; only its last may be a dotted quad, and only
  where the address ends.\<close>

definition hex_value :: "string \<Rightarrow> nat" where
  "hex_value s = fold (\<lambda>c n. n * 16 + (if is_digit c then of_char c - 48 else if is_lower c then of_char c - 87 else of_char c - 55)) s 0"

definition quad_groups :: "nat \<times> nat \<times> nat \<times> nat \<Rightarrow> nat list" where
  "quad_groups = (\<lambda>(a, b, c, d). [a * 256 + b, c * 256 + d])"

definition v6_groups :: "bool \<Rightarrow> string \<Rightarrow> nat list option" where
  "v6_groups final s =
     (if s = [] then Some []
      else let gs = split_on (CHR '':'') s
           in if list_all v6_group gs then Some (List.map hex_value gs)
              else if final \<and> list_all v6_group (butlast gs)
              then map_option (\<lambda>q. List.map hex_value (butlast gs) @ quad_groups q) (parse_v4 (last gs)) else None)"

definition strip_zone :: "string \<Rightarrow> string option" where
  "strip_zone s =
     (case index_of s ''%'' of None \<Rightarrow> Some s
      | Some i \<Rightarrow> if drop (Suc i) s \<noteq> [] \<and> list_all (\<lambda>c. is_digit c \<or> is_lower c \<or> is_upper c \<or> c \<in> set ''-.:'') (drop (Suc i) s)
                  then Some (take i s) else None)"

definition v6_value :: "string \<Rightarrow> nat list option" where
  "v6_value s0 =
     (case strip_zone s0 of None \<Rightarrow> None
      | Some s \<Rightarrow>
          (case index_of s ''::'' of
             None \<Rightarrow> (case v6_groups True s of Some gs \<Rightarrow> if length gs = 8 then Some gs else None | None \<Rightarrow> None)
           | Some i \<Rightarrow>
               (case (v6_groups False (take i s), v6_groups True (drop (i + 2) s)) of
                  (Some l, Some r) \<Rightarrow> if length l + length r \<le> 7 then Some (l @ replicate (8 - length l - length r) 0 @ r) else None
                | _ \<Rightarrow> None)))"

definition isIP :: "string \<Rightarrow> nat" where
  "isIP s = (if parse_v4 s \<noteq> None then 4 else if v6_value s \<noteq> None then 6 else 0)"

section \<open>Blocked addresses\<close>

fun blocked_quad :: "nat \<times> nat \<times> nat \<times> nat \<Rightarrow> bool" where
  "blocked_quad (a, b, c, d) =
     (a = 10 \<or> a = 127 \<or> a = 0 \<or> a = 169 \<and> b = 254 \<or> a = 172 \<and> 16 \<le> b \<and> b \<le> 31 \<or> a = 192 \<and> b = 168
      \<or> a = 100 \<and> 64 \<le> b \<and> b \<le> 127 \<or> 224 \<le> a)"

text \<open>The first dotted quad of digits after \<open>::ffff:\<close>, as the regular expression finds it.\<close>

definition take_digits :: "string \<Rightarrow> (string \<times> string) option" where
  "take_digits s = (let ds = takeWhile is_digit s in if ds = [] then None else Some (ds, dropWhile is_digit s))"

definition take_dot :: "string \<Rightarrow> string option" where
  "take_dot s = (case s of c # r \<Rightarrow> if c = CHR ''.'' then Some r else None | [] \<Rightarrow> None)"

fun dotted_prefix :: "nat \<Rightarrow> string \<Rightarrow> string option" where
  "dotted_prefix 0 s = map_option fst (take_digits s)"
| "dotted_prefix (Suc n) s =
     (case take_digits s of None \<Rightarrow> None
      | Some (ds, r) \<Rightarrow> (case take_dot r of None \<Rightarrow> None | Some r' \<Rightarrow> map_option (\<lambda>t. ds @ ''.'' @ t) (dotted_prefix n r')))"

fun mapped_v4 :: "string \<Rightarrow> string option" where
  "mapped_v4 [] = None"
| "mapped_v4 (c # s) =
     (if prefix ''::ffff:'' (c # s) then
        (case dotted_prefix 3 (drop 7 (c # s)) of Some t \<Rightarrow> Some t | None \<Rightarrow> mapped_v4 s)
      else mapped_v4 s)"

definition blocked_v4 :: "string \<Rightarrow> bool" where
  "blocked_v4 ip = (case parse_v4 ip of Some q \<Rightarrow> blocked_quad q | None \<Rightarrow> False)"

text \<open>A quad found in the colon form is never in the colon form itself, so the call on it takes the first branch
  or the last.\<close>

definition isBlockedIp :: "string \<Rightarrow> bool" where
  "isBlockedIp ip =
     (if isIP ip = 4 then blocked_v4 ip
      else if isIP ip = 6 then
        (let lower = to_lower ip
         in lower = ''::1'' \<or> lower = ''::'' \<or> prefix ''fe80'' lower \<or> prefix ''fc'' lower \<or> prefix ''fd'' lower
            \<or> (case mapped_v4 lower of Some t \<Rightarrow> blocked_v4 t | None \<Rightarrow> False))
      else False)"

section \<open>Hosts and sources\<close>

datatype source_error = SourceValidationError string | SourceFailed string

definition bare_host :: "string \<Rightarrow> string" where
  "bare_host host = (if prefix ''['' host \<and> suffix '']'' host then butlast (tl host) else host)"

definition assertPublicHost :: "(string \<Rightarrow> string list option) \<Rightarrow> string \<Rightarrow> source_error option" where
  "assertPublicHost dns host =
     (if host = [] then Some (SourceValidationError ''source url has no host'')
      else let bare = bare_host host
           in if isIP bare \<noteq> 0 then
                (if isBlockedIp bare then Some (SourceValidationError ''source host resolves to a non-public address'') else None)
              else case dns bare of
                     None \<Rightarrow> Some (SourceValidationError (''cannot resolve source host: '' @ bare))
                   | Some records \<Rightarrow>
                       if records = [] then Some (SourceValidationError (''source host has no DNS records: '' @ bare))
                       else if list_ex isBlockedIp records
                       then Some (SourceValidationError ''source host resolves to a non-public address'') else None)"

record parsed_url =
  pu_protocol :: string
  pu_hostname :: string
  pu_pathname :: string
  pu_text :: string

datatype source_scheme = HttpSource | HttpsSource | S3Source

definition parseSource :: "(string \<Rightarrow> parsed_url option) \<Rightarrow> string \<Rightarrow> source_error + (source_scheme \<times> parsed_url)" where
  "parseSource url_of raw =
     (case url_of raw of
        None \<Rightarrow> Inl (SourceValidationError ''source url is not a valid URL'')
      | Some u \<Rightarrow>
          if pu_protocol u = ''http:'' then Inr (HttpSource, u)
          else if pu_protocol u = ''https:'' then Inr (HttpsSource, u)
          else if pu_protocol u = ''s3:'' then Inr (S3Source, u)
          else Inl (SourceValidationError (''unsupported source scheme: '' @ pu_protocol u @ '' (allowed: http, https, s3)'')))"

text \<open>A stream is its chunks, and whether it ends in an error.\<close>

record source_stream =
  sm_chunks :: "string list"
  sm_fails :: bool

record opened_source =
  op_stream :: source_stream
  op_totalBytes :: "jsnum option"

record source_response =
  rs_status :: nat
  rs_url :: string
  rs_contentLength :: "string option"
  rs_body :: "source_stream option"

record source_env =
  sv_urlOf :: "string \<Rightarrow> parsed_url option"
  sv_dns :: "string \<Rightarrow> string list option"
  sv_fetch :: "parsed_url \<Rightarrow> source_response option"
  sv_openS3 :: "(parsed_url \<Rightarrow> source_error + opened_source) option"
  sv_number :: "string \<Rightarrow> jsnum"

definition stated_length :: "source_env \<Rightarrow> source_response \<Rightarrow> jsnum option" where
  "stated_length e res =
     (case rs_contentLength res of
        None \<Rightarrow> None
      | Some len \<Rightarrow> if len \<noteq> [] \<and> js_finite (sv_number e len) then Some (sv_number e len) else None)"

definition openSource :: "source_env \<Rightarrow> source_scheme \<times> parsed_url \<Rightarrow> source_error + opened_source" where
  "openSource e parsed =
     (if fst parsed = S3Source then
        (case sv_openS3 e of
           None \<Rightarrow> Inl (SourceValidationError ''s3 sources are not configured on this deployment'')
         | Some open_s3 \<Rightarrow> open_s3 (snd parsed))
      else case sv_fetch e (snd parsed) of
             None \<Rightarrow> Inl (SourceFailed ''fetch failed'')
           | Some res \<Rightarrow>
               if \<not> (200 \<le> rs_status res \<and> rs_status res \<le> 299)
               then Inl (SourceFailed (''source responded with HTTP '' @ dec (rs_status res)))
               else (case sv_urlOf e (if rs_url res \<noteq> [] then rs_url res else pu_text (snd parsed)) of
                       None \<Rightarrow> Inl (SourceFailed ''Invalid URL'')
                     | Some final \<Rightarrow>
                         (case assertPublicHost (sv_dns e) (pu_hostname final) of
                            Some err \<Rightarrow> Inl err
                          | None \<Rightarrow>
                              (case rs_body res of
                                 None \<Rightarrow> Inl (SourceFailed ''source response has no body'')
                               | Some body \<Rightarrow> Inr \<lparr> op_stream = body, op_totalBytes = stated_length e res \<rparr>))))"

text \<open>What one attempt of the pull worker does before it streams: parse, check the host of an HTTP source, open.\<close>

definition resolve_source :: "source_env \<Rightarrow> string \<Rightarrow> source_error + opened_source" where
  "resolve_source e raw =
     (case parseSource (sv_urlOf e) raw of
        Inl err \<Rightarrow> Inl err
      | Inr parsed \<Rightarrow>
          (case (if fst parsed = S3Source then None else assertPublicHost (sv_dns e) (pu_hostname (snd parsed))) of
             Some err \<Rightarrow> Inl err
           | None \<Rightarrow> openSource e parsed))"

record s3_reader =
  sr_decode :: "string \<Rightarrow> string option"
  sr_stat :: "string \<Rightarrow> string \<Rightarrow> nat option"
  sr_get :: "string \<Rightarrow> string \<Rightarrow> source_stream option"

definition makeS3Reader :: "s3_reader \<Rightarrow> parsed_url \<Rightarrow> source_error + opened_source" where
  "makeS3Reader c url =
     (case sr_decode c (dropWhile (\<lambda>x. x = CHR ''/'') (pu_pathname url)) of
        None \<Rightarrow> Inl (SourceFailed ''URI malformed'')
      | Some key \<Rightarrow>
          if pu_hostname url = [] \<or> key = [] then Inl (SourceValidationError ''s3 url must be s3://<bucket>/<key>'')
          else (case sr_stat c (pu_hostname url) key of
                  None \<Rightarrow> Inl (SourceValidationError (''s3 source not found: '' @ pu_hostname url @ ''/'' @ key))
                | Some len \<Rightarrow>
                    (case sr_get c (pu_hostname url) key of
                       None \<Rightarrow> Inl (SourceFailed ''get failed'')
                     | Some stream \<Rightarrow> Inr \<lparr> op_stream = stream, op_totalBytes = Some (js_of_int (int len)) \<rparr>)))"

section \<open>Dotted quads\<close>

lemma split_on_none [simp]: "c \<notin> set s \<Longrightarrow> split_on c s = [s]"
  by (induction s) (auto simp: split_on_def)

lemma split_on_step [simp]: "c \<notin> set s \<Longrightarrow> split_on c (s @ c # r) = s # split_on c r"
  by (induction s) (auto simp: split_on_def)

definition dotted :: "nat \<times> nat \<times> nat \<times> nat \<Rightarrow> string" where
  "dotted = (\<lambda>(a, b, c, d). dec a @ ''.'' @ dec b @ ''.'' @ dec c @ ''.'' @ dec d)"

fun octets :: "nat \<times> nat \<times> nat \<times> nat \<Rightarrow> bool" where
  "octets (a, b, c, d) = (a < 256 \<and> b < 256 \<and> c < 256 \<and> d < 256)"

lemma dec_chars: "x \<in> set (dec n) \<Longrightarrow> is_digit x"
  using dec_digits [of x n] by (simp add: is_digit_def char_le_def)

lemma digits_value_snoc: "digits_value (s @ [c]) = digits_value s * 10 + (of_char c - 48)"
  by (simp add: digits_value_def)

lemma digits_value_dec [simp]: "digits_value (dec n) = n"
proof (induction n rule: dec.induct)
  case (1 n)
  show ?case
  proof (cases "n < 10")
    case True
    then show ?thesis by (simp add: dec.simps [of n] digits_value_def of_digit)
  next
    case False
    then show ?thesis using 1 [OF False] by (simp add: dec.simps [of n] digits_value_snoc of_digit)
  qed
qed

lemma dec_length: "n < 10 ^ Suc k \<Longrightarrow> length (dec n) \<le> Suc k"
proof (induction k arbitrary: n)
  case (Suc k)
  then have "n div 10 < 10 ^ Suc k" by (simp add: less_mult_imp_div_less mult.commute)
  from Suc.IH [OF this] show ?case by (subst dec.simps) auto
qed (simp add: dec.simps)

lemma dec_hd: "0 < n \<Longrightarrow> hd (dec n) \<noteq> CHR ''0''"
proof (induction n rule: dec.induct)
  case (1 n)
  show ?case
  proof (cases "n < 10")
    case True
    show ?thesis using True 1(2) of_digit [OF True] by (auto simp: dec.simps [of n])
  next
    case False
    then show ?thesis using 1(1) [OF False] by (simp add: dec.simps [of n])
  qed
qed

lemma v4_segment_dec: "n < 256 \<Longrightarrow> v4_segment (dec n) = Some n"
  using dec_chars [of _ n] dec_length [of n 2] dec_hd [of n] digits_value_dec [of 0, unfolded dec.simps [of 0], simplified]
  by (cases "n = 0") (auto simp: v4_segment_def list_all_iff dec.simps [of 0])

lemma dec_no_mark [simp]: "CHR ''.'' \<notin> set (dec n)" "CHR '':'' \<notin> set (dec n)" "CHR ''%'' \<notin> set (dec n)"
  using dec_chars by (fastforce simp: is_digit_def char_le_def)+

lemma parse_dotted: "octets q \<Longrightarrow> parse_v4 (dotted q) = Some q"
  by (cases q) (simp add: dotted_def parse_v4_def v4_segment_dec)

lemma blocked_dotted: "octets q \<Longrightarrow> isBlockedIp (dotted q) = blocked_quad q"
  by (simp add: isBlockedIp_def isIP_def parse_dotted blocked_v4_def)

text \<open>An address as a 32-bit word, and a block as its network and prefix length.\<close>

fun quad_word :: "nat \<times> nat \<times> nat \<times> nat \<Rightarrow> 32 word" where
  "quad_word (a, b, c, d) = of_nat (a * 2 ^ 24 + b * 2 ^ 16 + c * 2 ^ 8 + d)"

definition in_block :: "32 word \<Rightarrow> (nat \<times> nat \<times> nat \<times> nat) \<times> nat \<Rightarrow> bool" where
  "in_block w blk = (drop_bit (32 - snd blk) w = drop_bit (32 - snd blk) (quad_word (fst blk)))"

definition NON_PUBLIC_BLOCKS :: "((nat \<times> nat \<times> nat \<times> nat) \<times> nat) list" where
  "NON_PUBLIC_BLOCKS = [((10, 0, 0, 0), 8), ((127, 0, 0, 0), 8), ((0, 0, 0, 0), 8), ((169, 254, 0, 0), 16), ((172, 16, 0, 0), 12),
     ((192, 168, 0, 0), 16), ((100, 64, 0, 0), 10), ((224, 0, 0, 0), 4), ((240, 0, 0, 0), 4)]"

lemma drop_of_nat: "N < 2 ^ 32 \<Longrightarrow> unat (drop_bit n (of_nat N :: 32 word)) = N div 2 ^ n"
  unfolding unat_drop_bit_eq by (simp add: drop_bit_eq_div unat_of_nat)

lemma drop_quad:
  assumes "octets (a, b, c, d)"
  shows "unat (drop_bit n (quad_word (a, b, c, d))) = (a * 2 ^ 24 + b * 2 ^ 16 + c * 2 ^ 8 + d) div 2 ^ n"
  unfolding quad_word.simps by (rule drop_of_nat) (use assms in simp)

lemma in_block_iff:
  assumes "octets q" "octets (fst blk)"
  shows "in_block (quad_word q) blk \<longleftrightarrow> (\<lambda>(a, b, c, d). (a * 2 ^ 24 + b * 2 ^ 16 + c * 2 ^ 8 + d) div 2 ^ (32 - snd blk)) q
    = (\<lambda>(a, b, c, d). (a * 2 ^ 24 + b * 2 ^ 16 + c * 2 ^ 8 + d) div 2 ^ (32 - snd blk)) (fst blk)"
  using assms unfolding in_block_def by (cases q, cases "fst blk") (simp add: word_unat_eq_iff drop_quad del: quad_word.simps)

section \<open>Properties\<close>

text \<open>C34. For dotted addresses the check is exactly the list of non-public blocks: an address is blocked if and
  only if its 32-bit word lies in one of them, for all four billion addresses.\<close>

theorem ipv4_block_exact:
  assumes "octets q"
  shows "isBlockedIp (dotted q) \<longleftrightarrow> list_ex (in_block (quad_word q)) NON_PUBLIC_BLOCKS"
proof -
  obtain a b c d where q: "q = (a, b, c, d)" by (cases q) auto
  have o: "a < 256" "b < 256" "c < 256" "d < 256" using assms q by simp_all
  have n: "(a * 16777216 + b * 65536 + c * 256 + d) div 16777216 = a" using o by simp
  have n16: "(a * 16777216 + b * 65536 + c * 256 + d) div 65536 = a * 256 + b" using o by simp
  have n20: "(a * 16777216 + b * 65536 + c * 256 + d) div 1048576 = a * 16 + b div 16" using o by simp
  have n22: "(a * 16777216 + b * 65536 + c * 256 + d) div 4194304 = a * 4 + b div 64" using o by simp
  have n28: "(a * 16777216 + b * 65536 + c * 256 + d) div 268435456 = a div 16" using o by simp
  have pair: "(x * m + k = y * m + l) = (x = y \<and> k = l)" if "k < m" "l < m" for x y k l m :: nat
    using that by (metis add.commute div_mult_self1 div_less add_0 mod_mult_self1 mod_less mult_eq_0_iff not_less_zero add_left_cancel)
  have e16: "(a * 256 + b = 169 * 256 + 254) = (a = 169 \<and> b = 254)" "(a * 256 + b = 192 * 256 + 168) = (a = 192 \<and> b = 168)"
    using o by (intro pair; simp)+
  have "(a * 16 + b div 16 = 172 * 16 + 1) = (a = 172 \<and> b div 16 = 1)" using o by (intro pair) (simp_all add: less_mult_imp_div_less)
  moreover have "(b div 16 = 1) = (16 \<le> b \<and> b \<le> 31)"
    using div_less_iff_less_mult [of 16 b 1] div_less_iff_less_mult [of 16 b 2] by linarith
  ultimately have e20: "(a * 16 + b div 16 = 172 * 16 + 1) = (a = 172 \<and> 16 \<le> b \<and> b \<le> 31)" by (simp only:)
  have "(a * 4 + b div 64 = 100 * 4 + 1) = (a = 100 \<and> b div 64 = 1)" using o by (intro pair) (simp_all add: less_mult_imp_div_less)
  moreover have "(b div 64 = 1) = (64 \<le> b \<and> b \<le> 127)"
    using div_less_iff_less_mult [of 64 b 1] div_less_iff_less_mult [of 64 b 2] by linarith
  ultimately have e22: "(a * 4 + b div 64 = 100 * 4 + 1) = (a = 100 \<and> 64 \<le> b \<and> b \<le> 127)" by (simp only:)
  have e28: "(a div 16 = 14 \<or> a div 16 = 15) = (224 \<le> a)"
    using o(1) div_less_iff_less_mult [of 16 a 14] div_less_iff_less_mult [of 16 a 16] by linarith
  have cs: "169 * 256 + 254 = (43518::nat)" "192 * 256 + 168 = (49320::nat)" "172 * 16 + 1 = (2753::nat)" "100 * 4 + 1 = (401::nat)" by simp_all
  note es = e16 [unfolded cs] e20 [unfolded cs] e22 [unfolded cs]
  have "list_ex (in_block (quad_word q)) NON_PUBLIC_BLOCKS \<longleftrightarrow> blocked_quad q"
    unfolding q NON_PUBLIC_BLOCKS_def using e28
    by (simp add: es in_block_iff [OF assms [unfolded q]] n n16 n20 n22 n28 del: quad_word.simps)
  then show ?thesis by (simp add: blocked_dotted [OF assms])
qed

theorem ipv4_block_exact_witness:
  "isBlockedIp ''172.31.255.255'' \<and> \<not> isBlockedIp ''172.32.0.0''"
proof -
  have d: "dotted (172, 31, 255, 255) = ''172.31.255.255''" "dotted (172, 32, 0, 0) = ''172.32.0.0''" by code_simp+
  have "list_ex (in_block (quad_word (172, 31, 255, 255))) NON_PUBLIC_BLOCKS" "\<not> list_ex (in_block (quad_word (172, 32, 0, 0))) NON_PUBLIC_BLOCKS"
    by (simp_all add: NON_PUBLIC_BLOCKS_def in_block_iff del: quad_word.simps)
  then show ?thesis using ipv4_block_exact [of "(172, 31, 255, 255)"] ipv4_block_exact [of "(172, 32, 0, 0)"] by (simp add: d del: quad_word.simps)
qed

text \<open>The addresses a host stands for.\<close>

definition host_addresses :: "(string \<Rightarrow> string list option) \<Rightarrow> string \<Rightarrow> string list" where
  "host_addresses dns host = (let bare = bare_host host in if isIP bare \<noteq> 0 then [bare] else coalesce (dns bare) [])"

lemma public_host: "assertPublicHost dns host = None \<Longrightarrow> host \<noteq> [] \<and> host_addresses dns host \<noteq> [] \<and> list_all (\<lambda>x. \<not> isBlockedIp x) (host_addresses dns host)"
  by (auto simp: assertPublicHost_def host_addresses_def Let_def list_all_iff list_ex_iff split: if_splits option.splits)


definition demo_url :: "string \<Rightarrow> parsed_url" where
  "demo_url host = \<lparr> pu_protocol = ''http:'', pu_hostname = host, pu_pathname = ''/a'', pu_text = host \<rparr>"

definition demo_source_env :: source_env where
  "demo_source_env = \<lparr> sv_urlOf = (\<lambda>s. Some (demo_url s)), sv_dns = (\<lambda>h. Some [''93.184.216.34'']),
     sv_fetch = (\<lambda>u. Some \<lparr> rs_status = 200, rs_url = [], rs_contentLength = None, rs_body = Some \<lparr> sm_chunks = [''AB''], sm_fails = False \<rparr> \<rparr>),
     sv_openS3 = None, sv_number = (\<lambda>s. NaN) \<rparr>"


section \<open>Mapped addresses\<close>

definition hex_char :: "nat \<Rightarrow> char" where "hex_char n = ''0123456789abcdef'' ! n"

fun hex_text :: "nat \<Rightarrow> string" where
  "hex_text n = (if n < 16 then [hex_char n] else hex_text (n div 16) @ [hex_char (n mod 16)])"
declare hex_text.simps [simp del]

lemma hex_char_ok:
  assumes "n < 16"
  shows "is_hex_digit (hex_char n)" "hex_char n \<notin> {CHR ''.'', CHR '':'', CHR ''%''}" "to_lower [hex_char n] = [hex_char n]" "hex_value [hex_char n] = n"
proof -
  have n: "n \<in> {0, 1, 2, 3, 4, 5, 6, 7, 8, 9, 10, 11, 12, 13, 14, 15}" using assms by simp presburger
  have "is_hex_digit (hex_char n) \<and> hex_char n \<notin> {CHR ''.'', CHR '':'', CHR ''%''} \<and> to_lower [hex_char n] = [hex_char n] \<and> hex_value [hex_char n] = n"
    using n by (elim insertE emptyE) (simp_all add: hex_char_def is_hex_digit_def is_digit_def char_le_def to_lower_def is_upper_def is_lower_def hex_value_def)
  then show "is_hex_digit (hex_char n)" "hex_char n \<notin> {CHR ''.'', CHR '':'', CHR ''%''}" "to_lower [hex_char n] = [hex_char n]" "hex_value [hex_char n] = n"
    by blast+
qed

lemma hex_value_snoc: "hex_value (s @ [c]) = hex_value s * 16 + hex_value [c]"
  by (simp add: hex_value_def)

lemma hex_ok: "list_all is_hex_digit (hex_text n) \<and> CHR ''.'' \<notin> set (hex_text n) \<and> CHR '':'' \<notin> set (hex_text n) \<and> CHR ''%'' \<notin> set (hex_text n)
    \<and> to_lower (hex_text n) = hex_text n \<and> hex_value (hex_text n) = n \<and> hex_text n \<noteq> []"
proof (induction n rule: hex_text.induct)
  case (1 n)
  show ?case
  proof (cases "n < 16")
    case True
    then show ?thesis using hex_char_ok [OF True] by (auto simp: hex_text.simps [of n])
  next
    case False
    have m: "n mod 16 < 16" by simp
    show ?thesis using 1 [OF False] False hex_char_ok [OF m] by (auto simp: hex_text.simps [of n] hex_value_snoc to_lower_def)
  qed
qed

lemma hex_length: "n < 16 ^ Suc k \<Longrightarrow> length (hex_text n) \<le> Suc k"
proof (induction k arbitrary: n)
  case (Suc k)
  then have "n div 16 < 16 ^ Suc k" by (simp add: less_mult_imp_div_less mult.commute)
  from Suc.IH [OF this] show ?case by (subst hex_text.simps) auto
qed (simp add: hex_text.simps)

text \<open>A dotted address in the IPv6 form that keeps the quad, and in the form a URL parser prints.\<close>

definition mapped_dotted :: "nat \<times> nat \<times> nat \<times> nat \<Rightarrow> string" where "mapped_dotted q = ''::ffff:'' @ dotted q"

definition mapped_hex :: "nat \<times> nat \<times> nat \<times> nat \<Rightarrow> string" where
  "mapped_hex = (\<lambda>(a, b, c, d). ''::ffff:'' @ hex_text (a * 256 + b) @ '':'' @ hex_text (c * 256 + d))"

lemma index_of_absent: "c \<notin> set s \<Longrightarrow> index_of s [c] = None"
  by (auto simp: index_of_None_iff str_includes_iff dest: set_mono_sublist)

lemma no_dot: "CHR ''.'' \<notin> set s \<Longrightarrow> dotted_prefix (Suc n) s = None" "CHR ''.'' \<notin> set s \<Longrightarrow> mapped_v4 s = None"
proof -
  have d: "dotted_prefix (Suc n) t = None" if "CHR ''.'' \<notin> set t" for n and t :: string
    using that by (auto simp: take_digits_def take_dot_def Let_def split: option.splits list.splits dest: set_dropWhileD) (metis list.set_intros(1) set_dropWhileD)
  then show "CHR ''.'' \<notin> set s \<Longrightarrow> dotted_prefix (Suc n) s = None" .
  show "CHR ''.'' \<notin> set s \<Longrightarrow> mapped_v4 s = None"
  proof (induction s)
    case (Cons c s)
    have "CHR ''.'' \<notin> set (drop 7 (c # s))" using Cons.prems by (meson in_set_dropD)
    then show ?case using Cons d [of "drop 7 (c # s)" 2] by (simp add: numeral_3_eq_3 numeral_2_eq_2 del: drop_Cons_numeral)
  qed simp
qed

lemma take_digits_dec [simp]: "take_digits (dec n @ CHR ''.'' # r) = Some (dec n, CHR ''.'' # r)" "take_digits (dec n) = Some (dec n, [])"
proof -
  have a: "\<forall>x \<in> set (dec n). is_digit x" using dec_chars by blast
  have n: "\<not> is_digit (CHR ''.'')" by code_simp
  show "take_digits (dec n @ CHR ''.'' # r) = Some (dec n, CHR ''.'' # r)" "take_digits (dec n) = Some (dec n, [])"
    using a n by (simp_all add: take_digits_def takeWhile_append2 dropWhile_append2)
      (simp_all add: takeWhile_eq_all_conv [THEN iffD2] dropWhile_eq_Nil_conv [THEN iffD2])
qed

lemma dotted_prefix_dotted: "dotted_prefix 3 (dotted q) = Some (dotted q)"
  by (cases q) (simp add: dotted_def numeral_3_eq_3 take_dot_def)

lemma to_lower_dec [simp]: "to_lower (dec n) = dec n"
proof -
  have "\<not> is_upper c" if "c \<in> set (dec n)" for c using dec_digits [OF that] by (simp add: is_upper_def char_le_def)
  then show ?thesis by (simp add: to_lower_def map_idI)
qed

lemma to_lower_mapped: "to_lower (mapped_dotted q) = mapped_dotted q" "to_lower (mapped_hex q) = mapped_hex q"
proof -
  have p: "to_lower ''::ffff:'' = ''::ffff:''" "to_lower ''.'' = ''.''" "to_lower '':'' = '':''" by code_simp+
  have a: "to_lower (x @ y) = to_lower x @ to_lower y" for x y by (simp add: to_lower_def)
  show "to_lower (mapped_dotted q) = mapped_dotted q" unfolding mapped_dotted_def dotted_def by (cases q) (simp only: prod.case a p to_lower_dec)
  show "to_lower (mapped_hex q) = mapped_hex q" unfolding mapped_hex_def using hex_ok by (cases q) (simp only: prod.case a p)
qed

lemma mapped_value:
  assumes "octets q"
  shows "v6_value (mapped_hex q) = Some ([0, 0, 0, 0, 0, 65535] @ quad_groups q)" "v6_value (mapped_dotted q) = Some ([0, 0, 0, 0, 0, 65535] @ quad_groups q)"
proof -
  obtain a b c d where q: "q = (a, b, c, d)" by (cases q) auto
  let ?x = "a * 256 + b" and ?y = "c * 256 + d"
  have len: "length (hex_text ?x) \<le> 4" "length (hex_text ?y) \<le> 4" using assms q hex_length [of ?x 3] hex_length [of ?y 3] by simp_all
  have r5: "replicate 5 (0::nat) = [0, 0, 0, 0, 0]" by (simp add: numeral_eq_Suc)
  have f: "hex_value ''ffff'' = 65535" "v6_group ''ffff''"
    by (simp_all add: hex_value_def v6_group_def is_hex_digit_def is_digit_def is_lower_def char_le_def)
  have g: "v6_group (hex_text ?x)" "v6_group (hex_text ?y)" using len hex_ok by (simp_all add: v6_group_def)
  have v: "hex_value (hex_text ?x) = ?x" "hex_value (hex_text ?y) = ?y" using hex_ok by blast+
  have s1: "split_on (CHR '':'') (''ffff:'' @ hex_text ?x @ CHR '':'' # hex_text ?y) = [''ffff'', hex_text ?x, hex_text ?y]"
    using hex_ok [of ?x] hex_ok [of ?y] split_on_step [of "CHR '':''" "''ffff''" "hex_text ?x @ CHR '':'' # hex_text ?y"] by simp
  have nz: "CHR ''%'' \<notin> set (mapped_hex q)" "CHR ''%'' \<notin> set (mapped_dotted q)"
    using hex_ok by (auto simp: mapped_hex_def mapped_dotted_def dotted_def q)
  have z: "strip_zone (mapped_hex q) = Some (mapped_hex q)" "strip_zone (mapped_dotted q) = Some (mapped_dotted q)"
    using nz by (simp_all add: strip_zone_def index_of_absent)
  have m: "mapped_hex q = CHR '':'' # CHR '':'' # (''ffff:'' @ hex_text ?x @ CHR '':'' # hex_text ?y)" by (simp add: mapped_hex_def q)
  have g1: "v6_groups True (''ffff:'' @ hex_text ?x @ CHR '':'' # hex_text ?y) = Some [65535, ?x, ?y]"
    using s1 f g v by (simp add: v6_groups_def)
  show "v6_value (mapped_hex q) = Some ([0, 0, 0, 0, 0, 65535] @ quad_groups q)"
    unfolding m v6_value_def z(1) [unfolded m] using g1 by (simp add: v6_groups_def [of False] quad_groups_def q r5)
  have nc: "CHR '':'' \<notin> set (dotted q)" "CHR ''.'' \<in> set (dotted q)" by (simp_all add: dotted_def q)
  have s2: "split_on (CHR '':'') (''ffff:'' @ dotted q) = [''ffff'', dotted q]"
    using nc split_on_step [of "CHR '':''" "''ffff''" "dotted q"] by simp
  have ng: "\<not> v6_group (dotted q)"
  proof -
    have "\<not> is_hex_digit (CHR ''.'')" by code_simp
    then show ?thesis using nc(2) by (auto simp: v6_group_def list_all_iff)
  qed
  have m2: "mapped_dotted q = CHR '':'' # CHR '':'' # (''ffff:'' @ dotted q)" by (simp add: mapped_dotted_def)
  have g2: "v6_groups True (''ffff:'' @ dotted q) = Some (65535 # quad_groups q)"
    using s2 f ng parse_dotted [OF assms] by (simp add: v6_groups_def)
  show "v6_value (mapped_dotted q) = Some ([0, 0, 0, 0, 0, 65535] @ quad_groups q)"
    unfolding m2 v6_value_def z(2) [unfolded m2] using g2 by (simp add: v6_groups_def [of False] quad_groups_def q r5)
qed

lemma mapped_not_v4: "parse_v4 (mapped_hex q) = None" "parse_v4 (mapped_dotted q) = None"
proof -
  obtain a b c d where q: "q = (a, b, c, d)" by (cases q) auto
  have "CHR ''.'' \<notin> set (mapped_hex q)" using hex_ok by (auto simp: mapped_hex_def q)
  then show "parse_v4 (mapped_hex q) = None" by (simp add: parse_v4_def split: option.split)
  have m: "mapped_dotted q = (''::ffff:'' @ dec a) @ CHR ''.'' # (dec b @ CHR ''.'' # dec c @ CHR ''.'' # dec d)" by (simp add: mapped_dotted_def dotted_def q)
  have n: "\<not> is_digit (CHR '':'')" by code_simp
  have "v4_segment (''::ffff:'' @ dec a) = None" using n by (simp add: v4_segment_def)
  then show "parse_v4 (mapped_dotted q) = None" unfolding m parse_v4_def
    by (subst split_on_step) (simp_all add: split: option.split list.split)
qed

text \<open>C36. One address, two answers: every IPv4 address has the mapped form that a URL parser prints, in
  hexadecimal groups, and that form passes the check of a host whatever the address is, the loopback
  and the metadata address included, although the same address in the dotted form is blocked exactly when its
  quad is.\<close>

theorem mapped_address_slips_through:
  assumes "octets q"
  shows "v6_value (mapped_hex q) = v6_value (mapped_dotted q) \<and> v6_value (mapped_hex q) \<noteq> None
    \<and> isBlockedIp (mapped_dotted q) = isBlockedIp (dotted q)
    \<and> assertPublicHost dns (''['' @ mapped_hex q @ '']'') = None"
proof -
  obtain a b c d where q: "q = (a, b, c, d)" by (cases q) auto
  have ip: "isIP (mapped_hex q) = 6" "isIP (mapped_dotted q) = 6" using mapped_not_v4 mapped_value [OF assms] by (simp_all add: isIP_def)
  have nd: "CHR ''.'' \<notin> set (mapped_hex q)" using hex_ok by (auto simp: mapped_hex_def q)
  have h: "\<not> isBlockedIp (mapped_hex q)" using ip(1) no_dot(2) [OF nd]
    by (simp add: isBlockedIp_def Let_def to_lower_mapped) (simp add: mapped_hex_def q)
  have m: "mapped_v4 (mapped_dotted q) = Some (dotted q)" using dotted_prefix_dotted [of q] by (simp add: mapped_dotted_def)
  have b: "isBlockedIp (mapped_dotted q) = blocked_v4 (dotted q)" using ip(2) m
    by (simp add: isBlockedIp_def Let_def to_lower_mapped) (simp add: mapped_dotted_def)
  have o: "isBlockedIp (dotted q) = blocked_v4 (dotted q)" using parse_dotted [OF assms] by (simp add: isBlockedIp_def isIP_def)
  have "suffix '']'' (CHR ''['' # mapped_hex q @ '']'')" unfolding suffix_def by (rule exI [of _ "CHR ''['' # mapped_hex q"]) simp
  then have "bare_host (''['' @ mapped_hex q @ '']'') = mapped_hex q" by (simp add: bare_host_def)
  then have "assertPublicHost dns (''['' @ mapped_hex q @ '']'') = None" using ip(1) h by (simp add: assertPublicHost_def)
  then show ?thesis using mapped_value [OF assms] b o by simp
qed

theorem mapped_address_slips_through_witness:
  "assertPublicHost (\<lambda>h. None) ''[::ffff:7f00:1]'' = None \<and> isBlockedIp ''127.0.0.1''"
proof -
  have m: "mapped_hex (127, 0, 0, 1) = ''::ffff:7f00:1''" by (simp add: mapped_hex_def hex_text.simps hex_char_def)
  have d: "dotted (127, 0, 0, 1) = ''127.0.0.1''" by code_simp
  show ?thesis using mapped_address_slips_through [of "(127, 0, 0, 1)" "\<lambda>h. None"] blocked_dotted [of "(127, 0, 0, 1)"] by (simp add: m d del: One_nat_def)
qed

end
