(* ===== verification/Workspace_Storage.thy ===== *)
theory Workspace_Storage
  imports Packaging_Paths
begin

text \<open>
  The object storage of a stack (\<^verbatim>\<open>src/src/data/storage.ts\<close>): scoped keys, multipart uploads with
  their abort, the streaming write with its byte cap, and the listings. A bucket is its objects and the
  multipart uploads open in it, oldest first, each with its staged parts. What the client does with its
  \<open>n\<close>-th call is \<open>st_fault n\<close>: it works, it throws, or (a removal or an abort) it answers without an effect. Presigned URLs are
  strings of the client and have no counterpart.
\<close>

section \<open>The bucket and its client\<close>

record open_upload =
  ou_id :: nat
  ou_key :: string
  ou_parts :: "(nat, string) jsmap"

record bucket =
  bk_objects :: "(string, string) jsmap"
  bk_uploads :: "open_upload list"
  bk_nextUpload :: nat
  bk_calls :: nat

datatype storage_fault = StWorks | StThrows | StNoEffect

record storage_env =
  st_fault :: "nat \<Rightarrow> storage_fault"
  st_etag :: "string \<Rightarrow> string"
  st_partSize :: nat

definition fault_now :: "storage_env \<Rightarrow> bucket \<Rightarrow> storage_fault" where
  "fault_now e b = st_fault e (bk_calls b)"

definition counted :: "bucket \<Rightarrow> bucket" where
  "counted b = b\<lparr> bk_calls := Suc (bk_calls b) \<rparr>"

definition find_upload :: "string \<Rightarrow> bucket \<Rightarrow> nat option" where
  "find_upload key b = map_option ou_id (find (\<lambda>u. ou_key u = key) (rev (bk_uploads b)))"

definition drop_upload :: "string \<Rightarrow> nat \<Rightarrow> bucket \<Rightarrow> bucket" where
  "drop_upload key i b = b\<lparr> bk_uploads := filter (\<lambda>u. \<not> (ou_key u = key \<and> ou_id u = i)) (bk_uploads b) \<rparr>"

definition put_part :: "string \<Rightarrow> nat \<Rightarrow> nat \<Rightarrow> string \<Rightarrow> bucket \<Rightarrow> bucket" where
  "put_part key i n bytes b = b\<lparr> bk_uploads := List.map (\<lambda>u. if ou_key u = key \<and> ou_id u = i
     then u\<lparr> ou_parts := AList.update n bytes (ou_parts u) \<rparr> else u) (bk_uploads b) \<rparr>"

section \<open>Configuration\<close>

text \<open>\<^verbatim>\<open>Number.parseInt(raw, 10)\<close>: leading white space, a sign, then the digits; \<open>None\<close> is not a number.\<close>

definition parseInt :: "string \<Rightarrow> int option" where
  "parseInt raw =
     (let s = dropWhile js_space raw;
          (sign, r) = (case s of [] \<Rightarrow> (1, s) | c # cs \<Rightarrow> if c = CHR ''-'' then (-1, cs) else if c = CHR ''+'' then (1, cs) else (1, s));
          ds = takeWhile is_digit r
      in if ds = [] then None else Some (sign * int (digits_value ds)))"

definition positive_setting :: "string option \<Rightarrow> int \<Rightarrow> int" where
  "positive_setting raw d = (if \<not> truthy raw then d else case parseInt (the raw) of None \<Rightarrow> d | Some n \<Rightarrow> if n \<le> 0 then d else n)"

definition uploadUrlTtlSeconds :: "string option \<Rightarrow> int" where "uploadUrlTtlSeconds raw = positive_setting raw 900"
definition deliveryUrlTtlSeconds :: "string option \<Rightarrow> int" where "deliveryUrlTtlSeconds raw = positive_setting raw 3600"
definition thumbnailUrlTtlSeconds :: "string option \<Rightarrow> int" where "thumbnailUrlTtlSeconds raw = positive_setting raw 300"
definition uploadLivenessIntervalMs :: "string option \<Rightarrow> int" where "uploadLivenessIntervalMs raw = positive_setting raw 30000"

section \<open>Objects\<close>

definition scopedKey :: "string \<Rightarrow> string option" where
  "scopedKey localKey = (let normalized = lead_slashes localKey in if str_includes normalized ''..'' then None else Some normalized)"

datatype 'a answer = Answer 'a | Throws string

definition statObject :: "storage_env \<Rightarrow> string \<Rightarrow> bucket \<Rightarrow> bucket \<times> (nat \<times> string) option answer" where
  "statObject e localKey b =
     (case scopedKey localKey of
        None \<Rightarrow> (b, Throws ''invalid object key'')
      | Some key \<Rightarrow> (counted b, if fault_now e b = StThrows then Throws ''stat failed''
                      else Answer (map_option (\<lambda>c. (length c, st_etag e c)) (map_of (bk_objects b) key))))"

definition remove_object :: "storage_env \<Rightarrow> string \<Rightarrow> bucket \<Rightarrow> bucket \<times> unit answer" where
  "remove_object e localKey b =
     (case scopedKey localKey of
        None \<Rightarrow> (b, Throws ''invalid object key'')
      | Some key \<Rightarrow>
          (case fault_now e b of
             StThrows \<Rightarrow> (counted b, Throws ''remove failed'')
           | StNoEffect \<Rightarrow> (counted b, Answer ())
           | StWorks \<Rightarrow> (counted (b\<lparr> bk_objects := AList.delete key (bk_objects b) \<rparr>), Answer ())))"

definition getPartialObject :: "storage_env \<Rightarrow> string \<Rightarrow> nat \<Rightarrow> nat option \<Rightarrow> bucket \<Rightarrow> bucket \<times> string answer" where
  "getPartialObject e localKey offset len b =
     (case scopedKey localKey of
        None \<Rightarrow> (b, Throws ''invalid object key'')
      | Some key \<Rightarrow>
          (counted b, if fault_now e b = StThrows then Throws ''get failed''
             else case map_of (bk_objects b) key of
                    None \<Rightarrow> Throws ''NoSuchKey''
                  | Some c \<Rightarrow> Answer (case len of None \<Rightarrow> drop offset c | Some n \<Rightarrow> take n (drop offset c))))"

section \<open>Multipart uploads\<close>

definition initiateMultipartUpload :: "storage_env \<Rightarrow> string \<Rightarrow> bucket \<Rightarrow> bucket \<times> nat answer" where
  "initiateMultipartUpload e localKey b =
     (case scopedKey localKey of
        None \<Rightarrow> (b, Throws ''invalid object key'')
      | Some key \<Rightarrow>
          if fault_now e b = StThrows then (counted b, Throws ''initiate failed'')
          else (counted (b\<lparr> bk_uploads := bk_uploads b @ [\<lparr> ou_id = bk_nextUpload b, ou_key = key, ou_parts = [] \<rparr>],
                            bk_nextUpload := Suc (bk_nextUpload b) \<rparr>), Answer (bk_nextUpload b)))"

record completed_part =
  cp_number :: nat
  cp_etag :: string

text \<open>The server accepts part numbers in ascending order, each staged with the tag the client states.\<close>

definition assemble :: "storage_env \<Rightarrow> (nat, string) jsmap \<Rightarrow> completed_part list \<Rightarrow> string option" where
  "assemble e staged parts =
     (if parts \<noteq> [] \<and> sorted (List.map cp_number parts) \<and> distinct (List.map cp_number parts)
         \<and> list_all (\<lambda>p. map_option (st_etag e) (map_of staged (cp_number p)) = Some (cp_etag p)) parts
      then Some (concat (List.map (\<lambda>p. the (map_of staged (cp_number p))) parts)) else None)"

definition completeMultipartUpload :: "storage_env \<Rightarrow> string \<Rightarrow> nat \<Rightarrow> completed_part list \<Rightarrow> bucket \<Rightarrow> bucket \<times> string answer" where
  "completeMultipartUpload e localKey uploadId parts b =
     (case scopedKey localKey of
        None \<Rightarrow> (b, Throws ''invalid object key'')
      | Some key \<Rightarrow>
          if fault_now e b = StThrows then (counted b, Throws ''complete failed'')
          else case find (\<lambda>u. ou_key u = key \<and> ou_id u = uploadId) (bk_uploads b) of
                 None \<Rightarrow> (counted b, Throws ''NoSuchUpload'')
               | Some u \<Rightarrow>
                   (case assemble e (ou_parts u) (sort_key cp_number parts) of
                      None \<Rightarrow> (counted b, Throws ''InvalidPart'')
                    | Some c \<Rightarrow> (counted ((drop_upload key uploadId b)\<lparr> bk_objects := AList.update key c (bk_objects b) \<rparr>), Answer (st_etag e c))))"

definition abortMultipartUpload :: "storage_env \<Rightarrow> string \<Rightarrow> nat \<Rightarrow> bucket \<Rightarrow> bucket \<times> unit answer" where
  "abortMultipartUpload e localKey uploadId b =
     (case scopedKey localKey of
        None \<Rightarrow> (b, Throws ''invalid object key'')
      | Some key \<Rightarrow>
          (case fault_now e b of
             StThrows \<Rightarrow> (counted b, Throws ''abort failed'')
           | StNoEffect \<Rightarrow> (counted b, Answer ())
           | StWorks \<Rightarrow> (counted (drop_upload key uploadId b), Answer ())))"

definition MAX_INCOMPLETE_UPLOAD_ABORTS :: nat where "MAX_INCOMPLETE_UPLOAD_ABORTS = 10"

fun abort_loop :: "storage_env \<Rightarrow> string \<Rightarrow> nat \<Rightarrow> nat \<Rightarrow> bucket \<Rightarrow> bucket \<times> nat answer" where
  "abort_loop e key 0 aborted b = (b, Answer aborted)"
| "abort_loop e key (Suc n) aborted b =
     (if fault_now e b = StThrows then (counted b, Throws ''lookup failed'')
      else case find_upload key b of
             None \<Rightarrow> (counted b, Answer aborted)
           | Some i \<Rightarrow>
               (case abortMultipartUpload e key i (counted b) of
                  (b1, Throws m) \<Rightarrow> (b1, Throws m)
                | (b1, Answer u) \<Rightarrow> abort_loop e key n (Suc aborted) b1))"

definition abortIncompleteMultipartUploads :: "storage_env \<Rightarrow> string \<Rightarrow> bucket \<Rightarrow> bucket \<times> nat answer" where
  "abortIncompleteMultipartUploads e localKey b =
     (case scopedKey localKey of
        None \<Rightarrow> (b, Throws ''invalid object key'')
      | Some key \<Rightarrow> abort_loop e key MAX_INCOMPLETE_UPLOAD_ABORTS 0 b)"

section \<open>The streaming write\<close>

datatype put_error = SourceTooLarge nat | SourceBroke | WriteRefused

text \<open>The chunks that arrive before the cap is passed, with the counts the progress callback sees.\<close>

fun stream_chunks :: "nat \<Rightarrow> nat \<Rightarrow> string list \<Rightarrow> string \<times> nat list \<times> bool" where
  "stream_chunks cap n [] = ([], [], True)"
| "stream_chunks cap n (c # cs) =
     (if n + length c > cap then ([], [], False)
      else let (bytes, ticks, ok) = stream_chunks cap (n + length c) cs in (c @ bytes, (n + length c) # ticks, ok))"

text \<open>A write that dies after a part was staged leaves its multipart upload open.\<close>

definition leave_upload :: "storage_env \<Rightarrow> string \<Rightarrow> string \<Rightarrow> bucket \<Rightarrow> bucket" where
  "leave_upload e key bytes b =
     (if length bytes > st_partSize e
      then b\<lparr> bk_uploads := bk_uploads b @ [\<lparr> ou_id = bk_nextUpload b, ou_key = key, ou_parts = [(1, take (st_partSize e) bytes)] \<rparr>],
              bk_nextUpload := Suc (bk_nextUpload b) \<rparr>
      else b)"

definition putStream :: "storage_env \<Rightarrow> string \<Rightarrow> string list \<Rightarrow> bool \<Rightarrow> nat \<Rightarrow> bucket \<Rightarrow> bucket \<times> nat list \<times> (put_error + nat)" where
  "putStream e localKey chunks breaks maxBytes b =
     (case scopedKey localKey of
        None \<Rightarrow> (b, [], Inl WriteRefused)
      | Some key \<Rightarrow>
          let (bytes, ticks, under) = stream_chunks maxBytes 0 chunks
          in if \<not> under then (counted (leave_upload e key bytes b), ticks, Inl (SourceTooLarge maxBytes))
             else if breaks then (counted (leave_upload e key bytes b), ticks, Inl SourceBroke)
             else if fault_now e b = StThrows then (counted (leave_upload e key bytes b), ticks, Inl WriteRefused)
             else (counted (b\<lparr> bk_objects := AList.update key bytes (bk_objects b) \<rparr>), ticks, Inr (length bytes)))"

section \<open>Listings\<close>

definition sumObjectSizes :: "bucket \<Rightarrow> nat" where
  "sumObjectSizes b = sum_list (List.map (\<lambda>(k, c). length c) (bk_objects b))"

definition under_prefix :: "string \<Rightarrow> bucket \<Rightarrow> (string, string) jsmap" where
  "under_prefix key b = filter (\<lambda>(k, c). prefix key k) (bk_objects b)"

definition sumObjectSizesUnderPrefix :: "string \<Rightarrow> bucket \<Rightarrow> (nat \<times> nat) answer" where
  "sumObjectSizesUnderPrefix p b =
     (case scopedKey p of
        None \<Rightarrow> Throws ''invalid object key''
      | Some key \<Rightarrow>
          let xs = filter (\<lambda>(k, c). k \<noteq> []) (under_prefix key b) in Answer (length xs, sum_list (List.map (\<lambda>(k, c). length c) xs)))"

definition listUnderPrefix :: "string \<Rightarrow> bucket \<Rightarrow> string list answer" where
  "listUnderPrefix p b =
     (case scopedKey p of
        None \<Rightarrow> Throws ''invalid object key''
      | Some key \<Rightarrow> Answer (filter (\<lambda>k. k \<noteq> []) (keys (under_prefix key b))))"

text \<open>The bulk removal reports the keys it could not remove.\<close>

definition removeObjectsUnderPrefix :: "(string \<Rightarrow> bool) \<Rightarrow> string \<Rightarrow> bucket \<Rightarrow> bucket \<times> unit answer" where
  "removeObjectsUnderPrefix refuses p b =
     (case listUnderPrefix p b of
        Throws m \<Rightarrow> (b, Throws m)
      | Answer ks \<Rightarrow>
          if ks = [] then (b, Answer ())
          else let failures = filter refuses ks;
                   b' = b\<lparr> bk_objects := filter (\<lambda>(k, c). k \<notin> set ks \<or> refuses k) (bk_objects b) \<rparr>
               in if failures \<noteq> [] then (b', Throws (''failed to delete '' @ dec (length failures) @ '' object(s) under prefix '' @ p))
                  else (b', Answer ()))"

section \<open>What the calls keep\<close>

definition wf_bucket :: "bucket \<Rightarrow> bool" where
  "wf_bucket b = (distinct (List.map ou_id (bk_uploads b)) \<and> (\<forall>u \<in> set (bk_uploads b). ou_id u < bk_nextUpload b) \<and> distinct (keys (bk_objects b)))"

definition storage_works :: "storage_env \<Rightarrow> bool" where
  "storage_works e = (\<forall>n. st_fault e n = StWorks)"

definition uploads_of :: "string \<Rightarrow> bucket \<Rightarrow> open_upload list" where
  "uploads_of key b = filter (\<lambda>u. ou_key u = key) (bk_uploads b)"

definition other_uploads :: "string \<Rightarrow> bucket \<Rightarrow> open_upload list" where
  "other_uploads key b = filter (\<lambda>u. ou_key u \<noteq> key) (bk_uploads b)"

lemma counted_simps [simp]:
  "bk_objects (counted b) = bk_objects b" "bk_uploads (counted b) = bk_uploads b" "bk_nextUpload (counted b) = bk_nextUpload b"
  "bk_calls (counted b) = Suc (bk_calls b)"
  by (simp_all add: counted_def)

lemma drop_upload_simps [simp]:
  "bk_objects (drop_upload key i b) = bk_objects b" "bk_nextUpload (drop_upload key i b) = bk_nextUpload b"
  "bk_calls (drop_upload key i b) = bk_calls b" "set (bk_uploads (drop_upload key i b)) \<subseteq> set (bk_uploads b)"
  by (auto simp: drop_upload_def)

lemma uploads_counted [simp]: "uploads_of key (counted b) = uploads_of key b" "other_uploads key (counted b) = other_uploads key b"
  "find_upload key (counted b) = find_upload key b"
  by (simp_all add: uploads_of_def other_uploads_def find_upload_def)

lemma drop_upload_others [simp]: "other_uploads key (drop_upload key i b) = other_uploads key b"
  by (auto simp: other_uploads_def drop_upload_def intro!: filter_cong)

lemma scopedKey_idem: "scopedKey k = Some k' \<Longrightarrow> scopedKey k' = Some k'"
  by (auto simp: scopedKey_def Let_def lead_slashes_def dropWhile_idem split: if_splits)

lemma abort_upload_frame:
  assumes "abortMultipartUpload e key i b = (b', r)" "scopedKey key = Some key"
  shows "bk_objects b' = bk_objects b \<and> other_uploads key b' = other_uploads key b \<and> bk_nextUpload b' = bk_nextUpload b
    \<and> set (bk_uploads b') \<subseteq> set (bk_uploads b) \<and> bk_calls b' = Suc (bk_calls b)"
  using assms by (auto simp: abortMultipartUpload_def split: storage_fault.splits) (auto simp: drop_upload_def)

lemma abort_loop_frame:
  assumes "scopedKey key = Some key"
  shows "abort_loop e key n k b = (b', r) \<Longrightarrow> bk_objects b' = bk_objects b \<and> other_uploads key b' = other_uploads key b
    \<and> bk_nextUpload b' = bk_nextUpload b \<and> set (bk_uploads b') \<subseteq> set (bk_uploads b) \<and> bk_calls b' \<le> bk_calls b + 2 * n"
proof (induction n arbitrary: k b)
  case (Suc n)
  show ?case
  proof (cases "fault_now e b = StThrows \<or> find_upload key b = None")
    case True
    then show ?thesis using Suc.prems by (auto split: option.splits if_splits)
  next
    case False
    then obtain i where i: "find_upload key b = Some i" "fault_now e b \<noteq> StThrows" by auto
    obtain b1 r1 where a: "abortMultipartUpload e key i (counted b) = (b1, r1)" by fastforce
    note f = abort_upload_frame [OF a assms]
    show ?thesis
    proof (cases r1)
      case (Answer u)
      then have "abort_loop e key n (Suc k) b1 = (b', r)" using Suc.prems i a by simp
      from Suc.IH [OF this] show ?thesis using f by auto
    next
      case (Throws m)
      then show ?thesis using Suc.prems i a f by auto
    qed
  qed
qed simp

lemma abort_frame:
  assumes "abortIncompleteMultipartUploads e localKey b = (b', r)"
  shows "bk_objects b' = bk_objects b \<and> bk_nextUpload b' = bk_nextUpload b \<and> set (bk_uploads b') \<subseteq> set (bk_uploads b) \<and> bk_calls b' \<le> bk_calls b + 20
    \<and> (\<forall>key. scopedKey localKey = Some key \<longrightarrow> other_uploads key b' = other_uploads key b)"
proof (cases "scopedKey localKey")
  case None
  then show ?thesis using assms by (simp add: abortIncompleteMultipartUploads_def)
next
  case (Some key)
  have "abort_loop e key MAX_INCOMPLETE_UPLOAD_ABORTS 0 b = (b', r)" using assms Some by (simp add: abortIncompleteMultipartUploads_def)
  from abort_loop_frame [OF scopedKey_idem [OF Some] this] show ?thesis using Some by (simp add: MAX_INCOMPLETE_UPLOAD_ABORTS_def)
qed

lemma find_upload_Some:
  assumes "find_upload key b = Some i"
  shows "\<exists>u \<in> set (bk_uploads b). ou_key u = key \<and> ou_id u = i"
  using assms by (auto simp: find_upload_def find_Some_iff) (metis nth_mem set_rev length_rev)

lemma find_upload_None: "find_upload key b = None \<longleftrightarrow> uploads_of key b = []"
  by (auto simp: find_upload_def find_None_iff uploads_of_def filter_empty_conv)

lemma dropped_one:
  assumes "wf_bucket b" "find_upload key b = Some i"
  shows "length (uploads_of key b) = Suc (length (uploads_of key (drop_upload key i b)))"
proof -
  obtain u where u: "u \<in> set (bk_uploads b)" "ou_key u = key" "ou_id u = i" using find_upload_Some [OF assms(2)] by blast
  have one: "length (filter (\<lambda>v. ou_key v = key \<and> ou_id v = i) us) = 1" if "distinct (List.map ou_id us)" "u \<in> set us" for us
    using that u(2,3)
  proof (induction us)
    case (Cons v us)
    show ?case
    proof (cases "v = u")
      case True
      then have "filter (\<lambda>v. ou_key v = key \<and> ou_id v = i) us = []" using Cons.prems by (auto simp: filter_empty_conv image_iff)
      then show ?thesis using True u by simp
    next
      case False
      then have "ou_id v \<noteq> i" using Cons.prems u(3) by (auto simp: image_iff)
      then show ?thesis using Cons False by simp
    qed
  qed simp
  have d: "distinct (List.map ou_id (bk_uploads b))" using assms(1) by (simp add: wf_bucket_def)
  have "uploads_of key (drop_upload key i b) = filter (\<lambda>v. \<not> (ou_key v = key \<and> ou_id v = i)) (uploads_of key b)"
    by (auto simp: uploads_of_def drop_upload_def intro!: filter_cong)
  moreover have "filter (\<lambda>v. ou_key v = key \<and> ou_id v = i) (uploads_of key b) = filter (\<lambda>v. ou_key v = key \<and> ou_id v = i) (bk_uploads b)"
    by (auto simp: uploads_of_def intro!: filter_cong)
  ultimately show ?thesis using one [OF d u(1)] sum_length_filter_compl [of "\<lambda>v. ou_key v = key \<and> ou_id v = i" "uploads_of key b"] by simp
qed

lemma wf_drop: "wf_bucket b \<Longrightarrow> wf_bucket (drop_upload key i b)" "wf_bucket b \<Longrightarrow> wf_bucket (counted b)"
  by (auto simp: wf_bucket_def drop_upload_def distinct_map_filter)

lemma abort_loop_clears:
  assumes "storage_works e" "scopedKey key = Some key"
  shows "wf_bucket b \<Longrightarrow> length (uploads_of key b) \<le> n \<Longrightarrow> \<exists>b'. abort_loop e key n k b = (b', Answer (k + length (uploads_of key b)))
    \<and> uploads_of key b' = [] \<and> wf_bucket b'"
proof (induction n arbitrary: k b)
  case (Suc n)
  have w: "fault_now e b = StWorks" "fault_now e (counted b) = StWorks" using assms(1) by (simp_all add: fault_now_def storage_works_def)
  show ?case
  proof (cases "find_upload key b")
    case None
    then show ?thesis using w Suc.prems(1) wf_drop(2) find_upload_None [THEN iffD1, OF None] by simp
  next
    case (Some i)
    let ?b1 = "counted (drop_upload key i (counted b))"
    have a: "abortMultipartUpload e key i (counted b) = (?b1, Answer ())" using assms(2) w by (simp add: abortMultipartUpload_def)
    have l: "length (uploads_of key b) = Suc (length (uploads_of key ?b1))"
      using dropped_one [OF wf_drop(2) [OF Suc.prems(1)]] Some by simp
    have "\<exists>b'. abort_loop e key n (Suc k) ?b1 = (b', Answer (Suc k + length (uploads_of key ?b1))) \<and> uploads_of key b' = [] \<and> wf_bucket b'"
      using Suc.IH [of ?b1 "Suc k"] Suc.prems wf_drop l by simp
    then show ?thesis using w Some a l by simp
  qed
qed simp

lemma abort_clears:
  assumes "storage_works e" "scopedKey localKey = Some key" "wf_bucket b" "length (uploads_of key b) \<le> 10"
  shows "\<exists>b'. abortIncompleteMultipartUploads e localKey b = (b', Answer (length (uploads_of key b))) \<and> uploads_of key b' = [] \<and> wf_bucket b'"
  using abort_loop_clears [OF assms(1) scopedKey_idem [OF assms(2)] assms(3), of MAX_INCOMPLETE_UPLOAD_ABORTS 0] assms(2,4)
  by (simp add: abortIncompleteMultipartUploads_def MAX_INCOMPLETE_UPLOAD_ABORTS_def)

lemma abort_loop_wf:
  assumes "scopedKey key = Some key"
  shows "abort_loop e key n k b = (b', r) \<Longrightarrow> wf_bucket b \<Longrightarrow> wf_bucket b'"
proof (induction n arbitrary: k b)
  case (Suc n)
  show ?case
  proof (cases "fault_now e b = StThrows \<or> find_upload key b = None")
    case True
    then show ?thesis using Suc.prems wf_drop(2) by (auto split: option.splits if_splits)
  next
    case False
    then obtain i where i: "find_upload key b = Some i" "fault_now e b \<noteq> StThrows" by auto
    obtain b1 r1 where a: "abortMultipartUpload e key i (counted b) = (b1, r1)" by fastforce
    have w: "wf_bucket b1" using a assms Suc.prems(2) wf_drop by (auto simp: abortMultipartUpload_def split: storage_fault.splits)
    show ?thesis using Suc.IH [of "Suc k" b1] Suc.prems(1) i a w by (cases r1) auto
  qed
qed simp

lemma abort_wf: "wf_bucket b \<Longrightarrow> wf_bucket (fst (abortIncompleteMultipartUploads e localKey b))"
  using abort_loop_wf [OF scopedKey_idem] by (fastforce simp: abortIncompleteMultipartUploads_def split: option.splits intro: prod.collapse [symmetric])

lemma stream_all: "stream_chunks cap n cs = (bytes, ticks, True) \<Longrightarrow> bytes = concat cs \<and> (n \<le> cap \<longrightarrow> n + length bytes \<le> cap)"
proof (induction cs arbitrary: n bytes ticks)
  case (Cons c cs)
  then obtain bs ts where s: "stream_chunks cap (n + length c) cs = (bs, ts, True)" "bytes = c @ bs" "\<not> n + length c > cap"
    by (auto simp: Let_def split: if_splits prod.splits)
  from Cons.IH [OF s(1)] show ?case using s by auto
qed simp

lemma stream_fits: "n + length (concat cs) \<le> cap \<Longrightarrow> \<exists>ticks. stream_chunks cap n cs = (concat cs, ticks, True)"
proof (induction cs arbitrary: n)
  case (Cons c cs)
  then obtain ts where "stream_chunks cap (n + length c) cs = (concat cs, ts, True)" by (metis add.assoc concat.simps(2) length_append)
  then show ?case using Cons.prems by simp
qed simp

lemma leave_upload_keeps:
  "bk_objects (leave_upload e key bytes b) = bk_objects b" "wf_bucket b \<Longrightarrow> wf_bucket (leave_upload e key bytes b)"
  "length (uploads_of key (leave_upload e key bytes b)) \<le> Suc (length (uploads_of key b))"
  by (auto simp: leave_upload_def wf_bucket_def uploads_of_def)

lemma putStream_cases:
  assumes "putStream e localKey chunks breaks maxBytes b = (b', ticks, r)" "scopedKey localKey = Some key" "wf_bucket b"
  shows "wf_bucket b' \<and> ((\<exists>err. r = Inl err \<and> bk_objects b' = bk_objects b \<and> length (uploads_of key b') \<le> Suc (length (uploads_of key b)))
    \<or> (r = Inr (length (concat chunks)) \<and> \<not> breaks \<and> length (concat chunks) \<le> maxBytes
        \<and> map_of (bk_objects b') = (map_of (bk_objects b))(key \<mapsto> concat chunks) \<and> bk_uploads b' = bk_uploads b))"
proof -
  obtain bytes ts under where st: "stream_chunks maxBytes 0 chunks = (bytes, ts, under)" by (metis prod_cases3)
  have left: "bk_objects (counted (leave_upload e key bytes b)) = bk_objects b \<and> wf_bucket (counted (leave_upload e key bytes b))
      \<and> length (uploads_of key (counted (leave_upload e key bytes b))) \<le> Suc (length (uploads_of key b))"
    using leave_upload_keeps [where e = e and key = key and bytes = bytes and b = b] assms(3) wf_drop(2) by simp
  show ?thesis
  proof (cases "under \<and> \<not> breaks \<and> fault_now e b \<noteq> StThrows")
    case True
    then have "bytes = concat chunks" "length bytes \<le> maxBytes" using stream_all [of maxBytes 0 chunks bytes ts] st by auto
    moreover have "wf_bucket (counted (b\<lparr> bk_objects := AList.update key bytes (bk_objects b) \<rparr>))" using assms(3) by (simp add: wf_bucket_def)
    ultimately show ?thesis using assms(1,2) st True by (auto simp: putStream_def)
  next
    case False
    then show ?thesis using assms(1,2) st left by (auto simp: putStream_def split: if_splits)
  qed
qed

section \<open>Properties\<close>

lemma insort_map: "(\<And>n. cp_number (f n) = n) \<Longrightarrow> insort_key cp_number (f x) (List.map f xs) = List.map f (insort x xs)"
  by (induction xs) simp_all

lemma sort_map: "(\<And>n. cp_number (f n) = n) \<Longrightarrow> sort_key cp_number (List.map f q) = List.map f (sort q)"
  by (induction q) (simp_all add: insort_map)

lemma sort_numbers:
  assumes "distinct q" "set q = {1..n}"
  shows "sort q = [1..<Suc n]"
  using sorted_distinct_set_unique [of "sort q" "[1..<Suc n]"] assms by (simp add: atLeastLessThanSuc_atLeastAtMost del: upt_Suc)

lemma map_of_staged: "map_of (fold (\<lambda>n. AList.update n (f n)) p m) k = (if k \<in> set p then Some (f k) else map_of m k)"
  by (induction p arbitrary: m) auto

lemma put_parts_last:
  assumes "ou_id u = i" "ou_key u = key" "\<forall>v \<in> set us. ou_id v \<noteq> i" "bk_uploads b = us @ [u]"
  shows "bk_uploads (fold (\<lambda>n. put_part key i n (f n)) p b) = us @ [u\<lparr> ou_parts := fold (\<lambda>n. AList.update n (f n)) p (ou_parts u) \<rparr>]
    \<and> bk_objects (fold (\<lambda>n. put_part key i n (f n)) p b) = bk_objects b"
  using assms
proof (induction p arbitrary: b u)
  case (Cons n p)
  let ?u = "u\<lparr> ou_parts := AList.update n (f n) (ou_parts u) \<rparr>"
  have "List.map (\<lambda>u. if ou_key u = key \<and> ou_id u = i then u\<lparr> ou_parts := AList.update n (f n) (ou_parts u) \<rparr> else u) us = us"
    using Cons.prems(3) by (intro map_idI) auto
  then have b: "bk_uploads (put_part key i n (f n) b) = us @ [?u]" "bk_objects (put_part key i n (f n) b) = bk_objects b"
    using Cons.prems by (simp_all add: put_part_def)
  show ?case using Cons.IH [of ?u "put_part key i n (f n) b"] Cons.prems b by simp
qed simp

lemma concat_numbered: "concat (List.map (\<lambda>n. bs ! (n - 1)) [1..<Suc (length bs)]) = concat bs"
proof -
  have "List.map (\<lambda>n. bs ! (n - 1)) [1..<Suc (length bs)] = bs" by (rule nth_equalityI) (simp_all del: upt_Suc)
  then show ?thesis by simp
qed

text \<open>An upload in parts is the object: whatever order the client sends the numbered parts in, and however often
  it sends one again, and whatever order it lists them in at the end, completing the upload stores the
  parts in their order, closes that upload and leaves every other object and upload as it was.\<close>

theorem multipart_round_trip:
  assumes "storage_works e" "wf_bucket b" "scopedKey localKey = Some key" "initiateMultipartUpload e localKey b = (b0, Answer i)"
    and "bs \<noteq> []" "set sent = {1..length bs}" "distinct listed" "set listed = {1..length bs}"
  shows "\<exists>b2 tag. completeMultipartUpload e localKey i (List.map (\<lambda>n. \<lparr> cp_number = n, cp_etag = st_etag e (bs ! (n - 1)) \<rparr>) listed)
      (fold (\<lambda>n. put_part key i n (bs ! (n - 1))) sent b0) = (b2, Answer tag)
    \<and> map_of (bk_objects b2) = (map_of (bk_objects b))(key \<mapsto> concat bs) \<and> bk_uploads b2 = bk_uploads b"
proof -
  let ?f = "\<lambda>n. bs ! (n - 1)" and ?g = "\<lambda>n. \<lparr> cp_number = n, cp_etag = st_etag e (bs ! (n - 1)) \<rparr>"
  let ?u = "\<lparr> ou_id = i, ou_key = key, ou_parts = [] \<rparr>"
  have w: "fault_now e x = StWorks" for x using assms(1) by (simp add: fault_now_def storage_works_def)
  have b0: "bk_uploads b0 = bk_uploads b @ [?u]" "bk_objects b0 = bk_objects b" "i = bk_nextUpload b"
    using assms(3,4) w by (auto simp: initiateMultipartUpload_def)
  have fresh: "\<forall>v \<in> set (bk_uploads b). ou_id v \<noteq> i" using assms(2) b0(3) by (auto simp: wf_bucket_def)
  let ?b1 = "fold (\<lambda>n. put_part key i n (?f n)) sent b0"
  let ?m = "fold (\<lambda>n. AList.update n (?f n)) sent []"
  have b1: "bk_uploads ?b1 = bk_uploads b @ [?u\<lparr> ou_parts := ?m \<rparr>]" "bk_objects ?b1 = bk_objects b"
    using put_parts_last [of ?u i key "bk_uploads b" b0 ?f sent] b0 fresh by simp_all
  have find: "find (\<lambda>u. ou_key u = key \<and> ou_id u = i) (bk_uploads ?b1) = Some (?u\<lparr> ou_parts := ?m \<rparr>)"
  proof -
    have "find (\<lambda>u. ou_key u = key \<and> ou_id u = i) (bk_uploads b) = None" using fresh by (auto simp: find_None_iff)
    moreover have "find P (us @ [u]) = (case find P us of None \<Rightarrow> if P u then Some u else None | Some v \<Rightarrow> Some v)" for P us and u :: open_upload
      by (induction us) simp_all
    ultimately show ?thesis unfolding b1(1) by simp
  qed
  have sorted: "sort_key cp_number (List.map ?g listed) = List.map ?g [1..<Suc (length bs)]"
    using sort_map [of ?g listed] sort_numbers [OF assms(7,8)] by simp
  have staged: "map_of ?m n = Some (?f n)" if "n \<in> {1..length bs}" for n using that assms(6) by (simp add: map_of_staged)
  have nums: "List.map cp_number (List.map ?g [1..<Suc (length bs)]) = [1..<Suc (length bs)]" by (simp add: comp_def del: upt_Suc)
  have eq: "concat (List.map (\<lambda>p. the (map_of ?m (cp_number p))) (List.map ?g [1..<Suc (length bs)])) = concat bs"
  proof -
    have "List.map (\<lambda>p. the (map_of ?m (cp_number p))) (List.map ?g [1..<Suc (length bs)]) = List.map ?f [1..<Suc (length bs)]"
      using staged by (auto simp del: upt_Suc)
    then show ?thesis using concat_numbered [of bs] by (simp only:)
  qed
  have "assemble e ?m (List.map ?g [1..<Suc (length bs)]) = Some (concat bs)"
    unfolding assemble_def nums eq using assms(5) staged by (auto simp: list_all_iff simp del: upt_Suc)
  moreover have "filter (\<lambda>u. \<not> (ou_key u = key \<and> ou_id u = i)) (bk_uploads ?b1) = bk_uploads b"
    using fresh unfolding b1(1) by (auto intro: filter_True)
  ultimately show ?thesis using find sorted w assms(3) b1(2) by (simp add: completeMultipartUpload_def drop_upload_def del: upt_Suc)
qed

definition demo_storage :: storage_env where
  "demo_storage = \<lparr> st_fault = (\<lambda>n. StWorks), st_etag = rev, st_partSize = 4 \<rparr>"

definition demo_bucket :: bucket where
  "demo_bucket = \<lparr> bk_objects = [], bk_uploads = [], bk_nextUpload = 0, bk_calls = 0 \<rparr>"

theorem multipart_round_trip_witness:
  "\<exists>b2 tag. completeMultipartUpload demo_storage ''k'' 0 [\<lparr> cp_number = 2, cp_etag = ''DC'' \<rparr>, \<lparr> cp_number = 1, cp_etag = ''BA'' \<rparr>]
      (put_part ''k'' 0 1 ''AB'' (put_part ''k'' 0 2 ''CD'' (fst (initiateMultipartUpload demo_storage ''k'' demo_bucket)))) = (b2, Answer tag)
    \<and> map_of (bk_objects b2) ''k'' = Some ''ABCD''"
proof -
  have h: "storage_works demo_storage" "wf_bucket demo_bucket" by (simp_all add: storage_works_def demo_storage_def wf_bucket_def demo_bucket_def)
  have k: "scopedKey ''k'' = Some ''k''" by code_simp
  have i: "initiateMultipartUpload demo_storage ''k'' demo_bucket = (fst (initiateMultipartUpload demo_storage ''k'' demo_bucket), Answer 0)"
    using k by (simp add: initiateMultipartUpload_def fault_now_def demo_storage_def demo_bucket_def)
  have s: "set [2, 1] = {1..length [''AB'', ''CD'']}" "distinct [2, 1 :: nat]" by auto
  show ?thesis using multipart_round_trip [OF h k i, of "[''AB'', ''CD'']" "[2, 1]" "[2, 1]"] s by (auto simp: demo_storage_def)
qed

end
