(* ===== verification/Url_Pull.thy ===== *)
theory Url_Pull
  imports Completion Source_Guard Workspace_Storage Storage_Quota
begin

text \<open>
  The worker that pulls a remote source into the object store (\<^verbatim>\<open>src/src/pipeline/url-pull-worker.ts\<close>)
  and the cancel of a job by an operator (the \<^verbatim>\<open>DELETE\<close> handler of \<^verbatim>\<open>src/src/routes/jobs.ts\<close>), which can run
  while a source streams. The source of each attempt, the storage client and the clock are arguments;
  \<open>pv_other n\<close> is what other writers do to the records during the transfer of attempt \<open>n\<close>. The pipeline log
  has no counterpart; audit entries and waits are lists in the state.
\<close>

section \<open>The worker's records\<close>

definition DEFAULT_MAX_SOURCE_BYTES :: int where "DEFAULT_MAX_SOURCE_BYTES = 50 * 1024 * 1024 * 1024"

definition maxSourceBytes :: "string option \<Rightarrow> int" where
  "maxSourceBytes raw =
     (if \<not> truthy raw then DEFAULT_MAX_SOURCE_BYTES
      else case parseInt (the raw) of
             None \<Rightarrow> DEFAULT_MAX_SOURCE_BYTES
           | Some parsed \<Rightarrow> if 0 < parsed then parsed else DEFAULT_MAX_SOURCE_BYTES)"

definition MAX_ATTEMPTS :: nat where "MAX_ATTEMPTS = 3"
definition BASE_BACKOFF_MS :: int where "BASE_BACKOFF_MS = 500"
definition PROGRESS_INTERVAL_MS :: int where "PROGRESS_INTERVAL_MS = 1000"

datatype ingest_audit = IngestCompleted string string nat | IngestFailed string string string

datatype pull_error =
    PullSource source_error
  | PullQuota quota_error
  | PullPut put_error
  | PullJob job_error
  | PullAsset asset_error

definition isPermanent :: "pull_error \<Rightarrow> bool" where
  "isPermanent err =
     (case err of
        PullPut (SourceTooLarge n) \<Rightarrow> True
      | PullSource (SourceValidationError m) \<Rightarrow> True
      | PullQuota q \<Rightarrow> True
      | _ \<Rightarrow> False)"

definition pull_message :: "pull_error \<Rightarrow> string" where
  "pull_message err =
     (case err of
        PullSource (SourceValidationError m) \<Rightarrow> m
      | PullSource (SourceFailed m) \<Rightarrow> m
      | PullQuota (QuotaExceeded cap consumed requested) \<Rightarrow>
          ''storage quota exceeded: cap is '' @ dec (nat cap) @ '' bytes, '' @ dec (nat consumed) @ '' already reserved/consumed, request of ''
          @ dec (nat requested) @ '' bytes would exceed it''
      | PullPut (SourceTooLarge n) \<Rightarrow> ''source exceeds maximum allowed size of '' @ dec n @ '' bytes''
      | PullPut SourceBroke \<Rightarrow> ''source stream failed''
      | PullPut WriteRefused \<Rightarrow> ''write failed''
      | PullJob (InvalidJobTransition a b) \<Rightarrow> ''invalid job status transition: '' @ job_status_text a @ '' -> '' @ job_status_text b
      | PullAsset x \<Rightarrow> ''invalid status transition'')"

record pull_params =
  pp_jobId :: string
  pp_assetId :: string
  pp_objectKey :: string
  pp_sourceUrl :: string

record pull_env =
  pv_source :: "nat \<Rightarrow> source_env"
  pv_storage :: storage_env
  pv_quota :: "int option option"
  pv_maxBytes :: nat
  pv_now :: string
  pv_clock :: "nat \<Rightarrow> nat \<Rightarrow> int"
  pv_baseBackoff :: int
  pv_other :: "nat \<Rightarrow> job_repo \<times> asset_repo \<Rightarrow> job_repo \<times> asset_repo"

record pull_state =
  ps_jobs :: job_repo
  ps_assets :: asset_repo
  ps_bucket :: bucket
  ps_counter :: quota_counter
  ps_audit :: "ingest_audit list"
  ps_sleeps :: "int list"

section \<open>One attempt\<close>

definition discardOrphanedUpload :: "pull_env \<Rightarrow> string \<Rightarrow> pull_state \<Rightarrow> pull_state" where
  "discardOrphanedUpload e key s = s\<lparr> ps_bucket := fst (abortIncompleteMultipartUploads (pv_storage e) key (ps_bucket s)) \<rparr>"

definition job_update :: "string \<Rightarrow> update_job_input \<Rightarrow> string \<Rightarrow> pull_state \<Rightarrow> pull_state \<times> (pull_error + unit)" where
  "job_update i p now s =
     (case update_job i p now (ps_jobs s) of
        Inl err \<Rightarrow> (s, Inl (PullJob err)) | Inr (r, _) \<Rightarrow> (s\<lparr> ps_jobs := r \<rparr>, Inr ()))"

definition asset_update :: "string \<Rightarrow> update_asset_input \<Rightarrow> string \<Rightarrow> pull_state \<Rightarrow> pull_state \<times> (pull_error + unit)" where
  "asset_update i p now s =
     (case update_asset i p now (ps_assets s) of
        Inl err \<Rightarrow> (s, Inl (PullAsset err)) | Inr (r, _) \<Rightarrow> (s\<lparr> ps_assets := r \<rparr>, Inr ()))"

definition progress_of :: "nat \<Rightarrow> jsnum option \<Rightarrow> jsnum" where
  "progress_of transferred totalBytes =
     (case totalBytes of
        Some (Fin t) \<Rightarrow> if 0 < t then Fin (of_nat transferred / t * 100) else Fin 0
      | _ \<Rightarrow> Fin 0)"

text \<open>The progress callback: a write at most once in the interval, started and not awaited.\<close>

fun write_progress :: "pull_env \<Rightarrow> string \<Rightarrow> nat \<Rightarrow> jsnum option \<Rightarrow> int \<Rightarrow> nat \<Rightarrow> nat list \<Rightarrow> pull_state \<Rightarrow> pull_state" where
  "write_progress e i n totalBytes lastWrite k [] s = s"
| "write_progress e i n totalBytes lastWrite k (transferred # ticks) s =
     (let now = pv_clock e n k
      in if now - lastWrite < PROGRESS_INTERVAL_MS then write_progress e i n totalBytes lastWrite (Suc k) ticks s
         else write_progress e i n totalBytes now (Suc k) ticks
                (fst (job_update i (blank_job_patch\<lparr> uj_bytesTransferred := Some (js_of_int (int transferred)), uj_totalBytes := totalBytes,
                   uj_progress := Some (progress_of transferred totalBytes) \<rparr>) (pv_now e) s)))"

definition commit_reservation :: "nat \<Rightarrow> reservation option \<Rightarrow> pull_state \<Rightarrow> pull_state \<times> reservation option" where
  "commit_reservation n rv s =
     (case rv of None \<Rightarrow> (s, None)
      | Some h \<Rightarrow> let (c, h') = reservation_commit mem_ops (Some (of_nat n)) h (ps_counter s) in (s\<lparr> ps_counter := c \<rparr>, Some h'))"

definition release_reservation :: "reservation option \<Rightarrow> pull_state \<Rightarrow> pull_state" where
  "release_reservation rv s =
     (case rv of None \<Rightarrow> s | Some h \<Rightarrow> s\<lparr> ps_counter := fst (reservation_release mem_ops h (ps_counter s)) \<rparr>)"

definition finish_pull :: "pull_env \<Rightarrow> pull_params \<Rightarrow> opened_source \<Rightarrow> nat \<Rightarrow> pull_state \<Rightarrow> pull_state \<times> (pull_error + nat)" where
  "finish_pull e p opened n s =
     then_do (job_update (pp_jobId p) (blank_job_patch\<lparr> uj_status := Some JDone, uj_bytesTransferred := Some (js_of_int (int n)),
         uj_totalBytes := Some (coalesce (op_totalBytes opened) (js_of_int (int n))), uj_progress := Some (Fin 100) \<rparr>) (pv_now e) s)
       (\<lambda>s1 _. then_do (asset_update (pp_assetId p) (empty_patch\<lparr> u_status := Some Processing,
           u_sourceSizeBytes := Some (js_of_int (int n)) \<rparr>) (pv_now e) s1)
         (\<lambda>s2 _. (s2\<lparr> ps_audit := ps_audit s2 @ [IngestCompleted (pp_jobId p) (pp_assetId p) n] \<rparr>, Inr n)))"

definition transfer :: "pull_env \<Rightarrow> pull_params \<Rightarrow> nat \<Rightarrow> opened_source \<Rightarrow> reservation option \<Rightarrow> pull_state \<Rightarrow> pull_state \<times> (pull_error + nat)" where
  "transfer e p n opened rv s0 =
     (let s = discardOrphanedUpload e (pp_objectKey p) s0;
          (b, ticks, out) = putStream (pv_storage e) (pp_objectKey p) (sm_chunks (op_stream opened)) (sm_fails (op_stream opened)) (pv_maxBytes e) (ps_bucket s);
          s1 = write_progress e (pp_jobId p) n (op_totalBytes opened) 0 0 ticks (s\<lparr> ps_bucket := b \<rparr>);
          (js, as) = pv_other e n (ps_jobs s1, ps_assets s1);
          s2 = s1\<lparr> ps_jobs := js, ps_assets := as \<rparr>
      in case out of
           Inl err \<Rightarrow> (release_reservation rv s2, Inl (PullPut err))
         | Inr bytes \<Rightarrow>
             let (s3, rv') = commit_reservation bytes rv s2
             in (case finish_pull e p opened bytes s3 of
                   (s4, Inl err) \<Rightarrow> (release_reservation rv' s4, Inl err)
                 | (s4, Inr n) \<Rightarrow> (s4, Inr n)))"

definition stated_size :: "opened_source \<Rightarrow> rat option" where
  "stated_size opened = (case op_totalBytes opened of Some (Fin r) \<Rightarrow> Some r | Some x \<Rightarrow> None | None \<Rightarrow> Some 0)"

definition pull_attempt :: "pull_env \<Rightarrow> pull_params \<Rightarrow> nat \<Rightarrow> pull_state \<Rightarrow> pull_state \<times> (pull_error + nat)" where
  "pull_attempt e p n s =
     (case resolve_source (pv_source e n) (pp_sourceUrl p) of
        Inl err \<Rightarrow> (s, Inl (PullSource err))
      | Inr opened \<Rightarrow>
          (case pv_quota e of
             None \<Rightarrow> transfer e p n opened None s
           | Some cap \<Rightarrow>
               (case admit mem_ops cap (stated_size opened) (ps_counter s) of
                  (c, Inl q) \<Rightarrow> (s\<lparr> ps_counter := c \<rparr>, Inl (PullQuota q))
                | (c, Inr h) \<Rightarrow> transfer e p n opened (Some h) (s\<lparr> ps_counter := c \<rparr>))))"

section \<open>The run\<close>

text \<open>\<open>Some\<close> is the error the attempts ended with.\<close>

fun pull_attempts :: "pull_env \<Rightarrow> pull_params \<Rightarrow> nat \<Rightarrow> nat \<Rightarrow> pull_state \<Rightarrow> pull_state \<times> pull_error option" where
  "pull_attempts e p attempt 0 s = (s, None)"
| "pull_attempts e p attempt (Suc left) s =
     (let s1 = fst (job_update (pp_jobId p) (blank_job_patch\<lparr> uj_attempts := Some (int attempt) \<rparr>) (pv_now e) s)
      in case pull_attempt e p attempt s1 of
           (s2, Inr n) \<Rightarrow> (s2, None)
         | (s2, Inl err) \<Rightarrow>
             if isPermanent err \<or> attempt = MAX_ATTEMPTS then (s2, Some err)
             else pull_attempts e p (Suc attempt) left
                    (s2\<lparr> ps_sleeps := ps_sleeps s2 @ [pv_baseBackoff e * 2 ^ (attempt - 1)] \<rparr>))"

definition fail_pull :: "pull_env \<Rightarrow> pull_params \<Rightarrow> pull_error \<Rightarrow> pull_state \<Rightarrow> pull_state \<times> (pull_error + unit)" where
  "fail_pull e p err s =
     then_do (job_update (pp_jobId p) (blank_job_patch\<lparr> uj_status := Some JFailed, uj_error := Some (pull_message err) \<rparr>) (pv_now e)
         (discardOrphanedUpload e (pp_objectKey p) s))
       (\<lambda>s1 _. then_do (asset_update (pp_assetId p) (empty_patch\<lparr> u_status := Some Failed \<rparr>) (pv_now e) s1)
         (\<lambda>s2 _. (s2\<lparr> ps_audit := ps_audit s2 @ [IngestFailed (pp_jobId p) (pp_assetId p) (pull_message err)] \<rparr>, Inr ())))"

text \<open>The left of the answer is a rejection of the detached promise.\<close>

definition runPull :: "pull_env \<Rightarrow> pull_params \<Rightarrow> pull_state \<Rightarrow> pull_state \<times> (pull_error + unit)" where
  "runPull e p s =
     then_do (job_update (pp_jobId p) (blank_job_patch\<lparr> uj_status := Some JRunning \<rparr>) (pv_now e) s)
       (\<lambda>s1 _. case pull_attempts e p 1 MAX_ATTEMPTS s1 of
                 (s2, None) \<Rightarrow> (s2, Inr ())
               | (s2, Some err) \<Rightarrow> fail_pull e p err s2)"

section \<open>Cancelling a job\<close>

record cancel_state =
  cl_jobs :: job_repo
  cl_assets :: asset_repo
  cl_pipes :: pipeline_repo
  cl_encoderCancels :: "string list"

record cancel_env =
  ce_now :: string
  ce_hasEncoder :: bool
  ce_hasPipelines :: bool
  ce_hasAssets :: bool

definition fail_cancelled_run :: "string \<Rightarrow> string \<Rightarrow> pipeline_repo \<Rightarrow> pipeline_repo" where
  "fail_cancelled_run now assetId r =
     (case findRunningByAssetAndStep r assetId StepTranscode of
        None \<Rightarrow> r
      | Some execution \<Rightarrow>
          (case find_index (\<lambda>s. sp_name s = StepTranscode) (xn_steps execution) of
             None \<Rightarrow> r
           | Some tIdx \<Rightarrow>
               let step = xn_steps execution ! tIdx;
                   steps = (xn_steps execution)[tIdx := step\<lparr> sp_status := StepFailed, sp_error := Some ''cancelled by operator'',
                     sp_completedAt := Some now \<rparr>]
               in fst (update_execution (xn_id execution) (steps_patch steps (Some ExecFailed)) now r)))"

datatype cancel_reply = CancelNotFound | CancelOk job | CancelRejected job_error

definition cancelJob :: "cancel_env \<Rightarrow> string \<Rightarrow> cancel_state \<Rightarrow> cancel_state \<times> cancel_reply" where
  "cancelJob e i s =
     (case get_job (cl_jobs s) i of
        None \<Rightarrow> (s, CancelNotFound)
      | Some job \<Rightarrow>
          if j_status job = JDone \<or> j_status job = JFailed \<or> j_status job = JCancelled then (s, CancelOk job)
          else
            let handle = (if j_encoreInternalJobId job \<noteq> None then j_encoreInternalJobId job else j_encoreJobId job);
                s1 = (if truthy handle \<and> ce_hasEncoder e then s\<lparr> cl_encoderCancels := cl_encoderCancels s @ [the handle] \<rparr> else s)
            in (case update_job i (blank_job_patch\<lparr> uj_status := Some JCancelled, uj_error := Some ''cancelled by operator'' \<rparr>) (ce_now e) (cl_jobs s1) of
                  Inl err \<Rightarrow> (s1, CancelRejected err)
                | Inr (r, updated) \<Rightarrow>
                    let s2 = s1\<lparr> cl_jobs := r \<rparr>;
                        s3 = (if ce_hasPipelines e then s2\<lparr> cl_pipes := fail_cancelled_run (ce_now e) (j_assetId job) (cl_pipes s2) \<rparr> else s2);
                        final = coalesce updated (job\<lparr> j_status := JCancelled \<rparr>);
                        s4 = (if ce_hasAssets e
                              then s3\<lparr> cl_assets := fst (recomputeAssetStateAfterTerminalJob final (cl_assets s3) (cl_jobs s3) (j_assetId final) (ce_now e)) \<rparr>
                              else s3)
                    in (s4, CancelOk (coalesce updated job))))"

section \<open>What the steps keep\<close>

lemma job_update_fields:
  assumes "get_job (ps_jobs s) i = Some j" "uj_status q = None"
  shows "\<exists>j'. job_update i q now s = (s\<lparr> ps_jobs := put_job i j' (ps_jobs s) \<rparr>, Inr ()) \<and> j_status j' = j_status j \<and> j_assetId j' = j_assetId j"
proof -
  obtain j' where j': "applyJobPatch j q now = Inr j'" using assms(2) by (auto simp: applyJobPatch_def Let_def)
  have "j_status j' = j_status j \<and> j_assetId j' = j_assetId j" using j' assms(2) by (auto simp: applyJobPatch_def Let_def jset_def split: if_splits option.splits)
  then show ?thesis using j' assms(1) by (auto simp: job_update_def update_job_def get_job_def)
qed

lemma job_update_status:
  assumes "get_job (ps_jobs s) i = Some j" "uj_status q = Some st"
  shows "isValidJobTransition (j_status j) st \<Longrightarrow> uj_clearError q \<noteq> Some True \<Longrightarrow> \<exists>j'. job_update i q now s = (s\<lparr> ps_jobs := put_job i j' (ps_jobs s) \<rparr>, Inr ())
      \<and> j_status j' = st \<and> j_assetId j' = j_assetId j \<and> (uj_error q \<noteq> None \<longrightarrow> j_error j' = uj_error q)"
    "\<not> isValidJobTransition (j_status j) st \<Longrightarrow> job_update i q now s = (s, Inl (PullJob (InvalidJobTransition (j_status j) st)))"
proof -
  assume v: "isValidJobTransition (j_status j) st" and c: "uj_clearError q \<noteq> Some True"
  obtain j' where j': "applyJobPatch j q now = Inr j'" using v assms(2) by (auto simp: applyJobPatch_def Let_def)
  have "j_status j' = st \<and> j_assetId j' = j_assetId j \<and> (uj_error q \<noteq> None \<longrightarrow> j_error j' = uj_error q)"
    using j' assms(2) v c by (auto simp: applyJobPatch_def Let_def jset_def job_patch_fields_error split: if_splits option.splits)
  then show "\<exists>j'. job_update i q now s = (s\<lparr> ps_jobs := put_job i j' (ps_jobs s) \<rparr>, Inr ())
      \<and> j_status j' = st \<and> j_assetId j' = j_assetId j \<and> (uj_error q \<noteq> None \<longrightarrow> j_error j' = uj_error q)"
    using j' assms(1) by (auto simp: job_update_def update_job_def get_job_def)
next
  assume "\<not> isValidJobTransition (j_status j) st"
  then show "job_update i q now s = (s, Inl (PullJob (InvalidJobTransition (j_status j) st)))"
    using assms by (simp add: job_update_def update_job_def get_job_def applyJobPatch_def)
qed

lemma write_progress_frame:
  assumes "get_job (ps_jobs s) i = Some j"
  shows "\<exists>js j'. write_progress e i n t l k ticks s = s\<lparr> ps_jobs := js \<rparr> \<and> get_job js i = Some j' \<and> j_status j' = j_status j \<and> j_assetId j' = j_assetId j"
  using assms
proof (induction ticks arbitrary: l k s j)
  case Nil
  then show ?case by (intro exI [of _ "ps_jobs s"] exI [of _ j]) simp
next
  case (Cons x ticks)
  let ?q = "blank_job_patch\<lparr> uj_bytesTransferred := Some (js_of_int (int x)), uj_totalBytes := t, uj_progress := Some (progress_of x t) \<rparr>"
  obtain j1 where j1: "job_update i ?q (pv_now e) s = (s\<lparr> ps_jobs := put_job i j1 (ps_jobs s) \<rparr>, Inr ())" "j_status j1 = j_status j" "j_assetId j1 = j_assetId j"
    using job_update_fields [OF Cons.prems, of ?q "pv_now e"] by (auto simp: blank_job_patch_def)
  let ?s = "s\<lparr> ps_jobs := put_job i j1 (ps_jobs s) \<rparr>"
  show ?case
  proof (cases "pv_clock e n k - l < PROGRESS_INTERVAL_MS")
    case True
    then show ?thesis using Cons.IH [OF Cons.prems] by (simp add: Let_def)
  next
    case False
    have "get_job (ps_jobs ?s) i = Some j1" by simp
    from Cons.IH [OF this, of "pv_clock e n k" "Suc k"] show ?thesis using False j1 by (auto simp: Let_def)
  qed
qed

lemma pulled_patch:
  assumes "isValidTransition (a_status a) Processing"
  shows "\<exists>a'. patch_asset a (empty_patch\<lparr> u_status := Some Processing, u_sourceSizeBytes := Some (js_of_int n) \<rparr>) now = Inr a'
    \<and> a_status a' = Processing \<and> (0 < n \<longrightarrow> a_sourceSizeBytes a' = Some (js_of_int n)) \<and> a_objectKey a' = a_objectKey a \<and> a_id a' = a_id a"
  using assms by (auto simp: patch_asset_def applyStatus_def empty_patch_def patch_fields_def patch_defs opt_set_def
      patch_provenance_def provenanceForPatch_def pv_entry_def Let_def js_of_int_def)

lemma asset_update_Inr:
  "get (ps_assets s) i = Some a \<Longrightarrow> patch_asset a q now = Inr a' \<Longrightarrow> asset_update i q now s = (s\<lparr> ps_assets := put i a' (ps_assets s) \<rparr>, Inr ())"
  by (simp add: asset_update_def update_asset_def get_def)

text \<open>The quota: a reservation that is released leaves the counter as it was, one that is committed adds the bytes.\<close>

definition counter_ok :: "quota_counter \<Rightarrow> bool" where
  "counter_ok c = (0 \<le> consumedBytes c \<and> 0 \<le> reservedBytes c)"

lemma admit_mem:
  assumes "admit mem_ops cap n c = (c', r)" "counter_ok c"
  shows "(\<exists>q. r = Inl q \<and> c' = c) \<or> (\<exists>h. r = Inr h \<and> \<not> rv_settled h \<and> 0 \<le> rv_reserved h \<and> rv_reserved h = guard_amount n
    \<and> c' = c\<lparr> reservedBytes := reservedBytes c + rv_reserved h \<rparr>)"
  using assms by (auto simp: admit_def mem_ops_def mem_reserve_def Let_def clampNonNegative_def guard_amount_def split: option.splits if_splits)

lemma release_mem:
  assumes "counter_ok c" "\<not> rv_settled h" "0 \<le> rv_reserved h"
  shows "fst (reservation_release mem_ops h (c\<lparr> reservedBytes := reservedBytes c + rv_reserved h \<rparr>)) = c"
  using assms by (simp add: reservation_release_def mem_ops_def mem_release_def Let_def clampNonNegative_def counter_ok_def)

lemma commit_mem:
  assumes "counter_ok c" "\<not> rv_settled h" "0 \<le> rv_reserved h"
  shows "reservation_commit mem_ops (Some (of_nat n)) h (c\<lparr> reservedBytes := reservedBytes c + rv_reserved h \<rparr>)
    = (c\<lparr> consumedBytes := consumedBytes c + int n \<rparr>, h\<lparr> rv_settled := True \<rparr>)"
  using assms by (simp add: reservation_commit_def mem_ops_def mem_commit_def Let_def clampNonNegative_def counter_ok_def guard_amount_def)

section \<open>A run without interference\<close>

definition undisturbed :: "pull_env \<Rightarrow> bool" where
  "undisturbed e = (\<forall>n x. pv_other e n x = x)"

definition pulling :: "pull_env \<Rightarrow> pull_params \<Rightarrow> string \<Rightarrow> pull_state \<Rightarrow> quota_counter \<Rightarrow> pull_state \<Rightarrow> bool" where
  "pulling e p key s0 c s =
     ((\<exists>j. get_job (ps_jobs s) (pp_jobId p) = Some j \<and> j_status j = JRunning) \<and> ps_assets s = ps_assets s0 \<and> ps_counter s = c
      \<and> ps_audit s = ps_audit s0 \<and> bk_objects (ps_bucket s) = bk_objects (ps_bucket s0) \<and> wf_bucket (ps_bucket s)
      \<and> (storage_works (pv_storage e) \<longrightarrow> length (uploads_of key (ps_bucket s)) \<le> 10))"

definition pulled :: "pull_env \<Rightarrow> pull_params \<Rightarrow> string \<Rightarrow> pull_state \<Rightarrow> nat \<Rightarrow> pull_state \<Rightarrow> bool" where
  "pulled e p key s0 n s =
     ((\<exists>j. get_job (ps_jobs s) (pp_jobId p) = Some j \<and> j_status j = JDone)
      \<and> (\<exists>a. get (ps_assets s) (pp_assetId p) = Some a \<and> a_status a = Processing \<and> (0 < n \<longrightarrow> a_sourceSizeBytes a = Some (js_of_int (int n))))
      \<and> (\<exists>c. map_of (bk_objects (ps_bucket s)) = (map_of (bk_objects (ps_bucket s0)))(key \<mapsto> c) \<and> length c = n \<and> n \<le> pv_maxBytes e)
      \<and> ps_counter s = (if pv_quota e = None then ps_counter s0 else (ps_counter s0)\<lparr> consumedBytes := consumedBytes (ps_counter s0) + int n \<rparr>)
      \<and> ps_audit s = ps_audit s0 @ [IngestCompleted (pp_jobId p) (pp_assetId p) n]
      \<and> (storage_works (pv_storage e) \<longrightarrow> uploads_of key (ps_bucket s) = []))"

definition held :: "quota_counter \<Rightarrow> reservation option \<Rightarrow> quota_counter" where
  "held c rv = (case rv of None \<Rightarrow> c | Some h \<Rightarrow> c\<lparr> reservedBytes := reservedBytes c + rv_reserved h \<rparr>)"

lemma discarded:
  assumes "pulling e p key s0 c s" "scopedKey (pp_objectKey p) = Some key"
  shows "pulling e p key s0 c (discardOrphanedUpload e (pp_objectKey p) s)"
    "storage_works (pv_storage e) \<Longrightarrow> uploads_of key (ps_bucket (discardOrphanedUpload e (pp_objectKey p) s)) = []"
    "ps_sleeps (discardOrphanedUpload e (pp_objectKey p) s) = ps_sleeps s"
proof -
  obtain b r where b: "abortIncompleteMultipartUploads (pv_storage e) (pp_objectKey p) (ps_bucket s) = (b, r)" by fastforce
  have d: "discardOrphanedUpload e (pp_objectKey p) s = s\<lparr> ps_bucket := b \<rparr>" using b by (simp add: discardOrphanedUpload_def)
  have w: "wf_bucket (ps_bucket s)" using assms(1) by (simp add: pulling_def)
  have "uploads_of key b = []" if "storage_works (pv_storage e)"
  proof -
    have "length (uploads_of key (ps_bucket s)) \<le> 10" using assms(1) that by (simp add: pulling_def)
    from abort_clears [OF that assms(2) w this] show ?thesis using b by auto
  qed
  then show "storage_works (pv_storage e) \<Longrightarrow> uploads_of key (ps_bucket (discardOrphanedUpload e (pp_objectKey p) s)) = []"
    "pulling e p key s0 c (discardOrphanedUpload e (pp_objectKey p) s)"
    using assms(1) abort_frame [OF b] abort_wf [OF w, of "pv_storage e" "pp_objectKey p"] b by (simp_all add: d pulling_def)
  show "ps_sleeps (discardOrphanedUpload e (pp_objectKey p) s) = ps_sleeps s" by (simp add: d)
qed

lemma transfer_cases:
  assumes inv: "pulling e p key s0 (held (ps_counter s0) rv) s" and undisturbed: "undisturbed e" and key: "scopedKey (pp_objectKey p) = Some key"
    and c: "counter_ok (ps_counter s0)" and rv: "\<forall>h. rv = Some h \<longrightarrow> \<not> rv_settled h \<and> 0 \<le> rv_reserved h" "(rv = None) = (pv_quota e = None)"
    and a: "get (ps_assets s0) (pp_assetId p) = Some a" "a_status a = Uploading"
  shows "(\<exists>s' err. transfer e p n opened rv s = (s', Inl err) \<and> pulling e p key s0 (ps_counter s0) s' \<and> ps_sleeps s' = ps_sleeps s)
    \<or> (\<exists>s' k. transfer e p n opened rv s = (s', Inr k) \<and> pulled e p key s0 k s' \<and> ps_sleeps s' = ps_sleeps s)"
proof -
  let ?d = "discardOrphanedUpload e (pp_objectKey p) s"
  note d = discarded [OF inv key]
  obtain b ticks out where put: "putStream (pv_storage e) (pp_objectKey p) (sm_chunks (op_stream opened)) (sm_fails (op_stream opened)) (pv_maxBytes e)
      (ps_bucket ?d) = (b, ticks, out)" by (metis prod_cases3)
  have wf: "wf_bucket (ps_bucket ?d)" using d(1) by (simp add: pulling_def)
  note pc = putStream_cases [OF put key wf]
  obtain j where j: "get_job (ps_jobs ?d) (pp_jobId p) = Some j" "j_status j = JRunning" using d(1) by (auto simp: pulling_def)
  let ?s0 = "?d\<lparr> ps_bucket := b \<rparr>"
  obtain js j1 where w: "write_progress e (pp_jobId p) n (op_totalBytes opened) 0 0 ticks ?s0 = ?s0\<lparr> ps_jobs := js \<rparr>"
      "get_job js (pp_jobId p) = Some j1" "j_status j1 = JRunning"
    using write_progress_frame [of ?s0 "pp_jobId p" j e n "op_totalBytes opened" 0 0 ticks] j by auto
  let ?s2 = "?s0\<lparr> ps_jobs := js \<rparr>"
  have ot: "pv_other e n x = x" for x using undisturbed unfolding undisturbed_def by blast
  have keep: "t\<lparr> ps_jobs := ps_jobs t, ps_assets := ps_assets t \<rparr> = t" for t :: pull_state by (cases t) simp
  have run: "transfer e p n opened rv s = (case out of
           Inl err \<Rightarrow> (release_reservation rv ?s2, Inl (PullPut err))
         | Inr bytes \<Rightarrow>
             let (s3, rv') = commit_reservation bytes rv ?s2
             in (case finish_pull e p opened bytes s3 of
                   (s4, Inl err) \<Rightarrow> (release_reservation rv' s4, Inl err)
                 | (s4, Inr n) \<Rightarrow> (s4, Inr n)))"
    unfolding transfer_def Let_def put prod.case w(1) ot keep by (rule refl)
  have cnt: "ps_counter ?s2 = held (ps_counter s0) rv" using d(1) by (simp add: pulling_def)
  show ?thesis
  proof (cases out)
    case (Inl err)
    then have o: "bk_objects b = bk_objects (ps_bucket ?d)" "length (uploads_of key b) \<le> Suc (length (uploads_of key (ps_bucket ?d)))" "wf_bucket b" using pc by auto
    have rel: "release_reservation rv ?s2 = ?s2\<lparr> ps_counter := ps_counter s0 \<rparr>"
      using cnt rv(1) release_mem [OF c] by (cases rv) (auto simp: release_reservation_def held_def)
    have "pulling e p key s0 (ps_counter s0) (release_reservation rv ?s2)"
      using d(1,2) o w by (auto simp: rel pulling_def)
    then show ?thesis using run Inl d(3) by (auto simp: rel)
  next
    case (Inr k)
    have o: "map_of (bk_objects b) = (map_of (bk_objects (ps_bucket ?d)))(key \<mapsto> concat (sm_chunks (op_stream opened)))"
      "k = length (concat (sm_chunks (op_stream opened)))" "k \<le> pv_maxBytes e" "bk_uploads b = bk_uploads (ps_bucket ?d)" using pc Inr by auto
    let ?c = "if pv_quota e = None then ps_counter s0 else (ps_counter s0)\<lparr> consumedBytes := consumedBytes (ps_counter s0) + int k \<rparr>"
    obtain rv' where com: "commit_reservation k rv ?s2 = (?s2\<lparr> ps_counter := ?c \<rparr>, rv')"
      using cnt rv commit_mem [OF c] by (cases rv) (auto simp: commit_reservation_def held_def)
    let ?s3 = "?s2\<lparr> ps_counter := ?c \<rparr>"
    let ?q = "blank_job_patch\<lparr> uj_status := Some JDone, uj_bytesTransferred := Some (js_of_int (int k)),
         uj_totalBytes := Some (coalesce (op_totalBytes opened) (js_of_int (int k))), uj_progress := Some (Fin 100) \<rparr>"
    have v: "isValidJobTransition (j_status j1) JDone" using w(3) by (simp add: isValidJobTransition_def)
    obtain j2 where j2: "job_update (pp_jobId p) ?q (pv_now e) ?s3 = (?s3\<lparr> ps_jobs := put_job (pp_jobId p) j2 js \<rparr>, Inr ())" "j_status j2 = JDone"
      using job_update_status(1) [of ?s3 "pp_jobId p" j1 ?q JDone "pv_now e"] v w(2) by (auto simp: blank_job_patch_def)
    let ?s4 = "?s3\<lparr> ps_jobs := put_job (pp_jobId p) j2 js \<rparr>"
    have ga: "get (ps_assets ?s4) (pp_assetId p) = Some a" using d(1) a(1) by (simp add: pulling_def)
    have va: "isValidTransition (a_status a) Processing" using a(2) by (simp add: isValidTransition_def)
    obtain a' where a': "patch_asset a (empty_patch\<lparr> u_status := Some Processing, u_sourceSizeBytes := Some (js_of_int (int k)) \<rparr>) (pv_now e) = Inr a'"
      "a_status a' = Processing" "0 < k \<longrightarrow> a_sourceSizeBytes a' = Some (js_of_int (int k))"
      using pulled_patch [OF va, of "int k" "pv_now e"] by auto
    note au = asset_update_Inr [OF ga a'(1)]
    have fin: "finish_pull e p opened k ?s3 = (?s4\<lparr> ps_assets := put (pp_assetId p) a' (ps_assets ?s4),
        ps_audit := ps_audit ?s4 @ [IngestCompleted (pp_jobId p) (pp_assetId p) k] \<rparr>, Inr k)"
      unfolding finish_pull_def j2(1) then_do_simps au by simp
    have "pulled e p key s0 k (?s4\<lparr> ps_assets := put (pp_assetId p) a' (ps_assets ?s4),
        ps_audit := ps_audit ?s4 @ [IngestCompleted (pp_jobId p) (pp_assetId p) k] \<rparr>)"
      using d(1,2) o a' j2(2) by (auto simp: pulled_def pulling_def uploads_of_def)
    then show ?thesis using run Inr com fin d(3) by auto
  qed
qed

lemma attempt_cases:
  assumes inv: "pulling e p key s0 (ps_counter s0) s" and undisturbed: "undisturbed e" and key: "scopedKey (pp_objectKey p) = Some key"
    and c: "counter_ok (ps_counter s0)" and a: "get (ps_assets s0) (pp_assetId p) = Some a" "a_status a = Uploading"
  shows "(\<exists>s' err. pull_attempt e p n s = (s', Inl err) \<and> pulling e p key s0 (ps_counter s0) s' \<and> ps_sleeps s' = ps_sleeps s)
    \<or> (\<exists>s' k. pull_attempt e p n s = (s', Inr k) \<and> pulled e p key s0 k s' \<and> ps_sleeps s' = ps_sleeps s)"
proof (cases "resolve_source (pv_source e n) (pp_sourceUrl p)")
  case (Inl err)
  then show ?thesis using inv by (simp add: pull_attempt_def)
next
  case (Inr opened)
  show ?thesis
  proof (cases "pv_quota e")
    case None
    then show ?thesis using transfer_cases [of e p key s0 None s a n opened, OF _ undisturbed key c _ _ a] inv Inr
      by (simp add: pull_attempt_def held_def)
  next
    case (Some cap)
    obtain c' r where ad: "admit mem_ops cap (stated_size opened) (ps_counter s) = (c', r)" by fastforce
    have cs: "ps_counter s = ps_counter s0" using inv by (simp add: pulling_def)
    have cok: "counter_ok (ps_counter s)" using c cs by simp
    show ?thesis
    proof (cases r)
      case (Inl q)
      then have "c' = ps_counter s" using admit_mem [OF ad cok] by auto
      then show ?thesis using inv ad Inl Some Inr by (simp add: pull_attempt_def)
    next
      case (Inr h)
      then have h: "\<not> rv_settled h" "0 \<le> rv_reserved h" "c' = held (ps_counter s0) (Some h)" using admit_mem [OF ad cok] cs by (auto simp: held_def)
      let ?s = "s\<lparr> ps_counter := c' \<rparr>"
      have "pulling e p key s0 (held (ps_counter s0) (Some h)) ?s" using inv h(3) by (simp add: pulling_def)
      from transfer_cases [OF this undisturbed key c _ _ a, of n opened] show ?thesis
        using h Some ad Inr \<open>resolve_source (pv_source e n) (pp_sourceUrl p) = Inr opened\<close> by (simp add: pull_attempt_def)
    qed
  qed
qed

definition waits :: "pull_env \<Rightarrow> nat \<Rightarrow> int list" where
  "waits e k = List.map (\<lambda>i. pv_baseBackoff e * 2 ^ i) [0..<k]"

lemma attempts_cases:
  assumes undisturbed: "undisturbed e" and key: "scopedKey (pp_objectKey p) = Some key"
    and c: "counter_ok (ps_counter s0)" and a: "get (ps_assets s0) (pp_assetId p) = Some a" "a_status a = Uploading"
  shows "pulling e p key s0 (ps_counter s0) s \<Longrightarrow> 1 \<le> attempt \<Longrightarrow> attempt + left = 4 \<Longrightarrow> 0 < left \<Longrightarrow> ps_sleeps s = ps_sleeps s0 @ waits e (attempt - 1)
    \<Longrightarrow> \<exists>s' r. pull_attempts e p attempt left s = (s', r) \<and> (\<exists>k \<le> 2. ps_sleeps s' = ps_sleeps s0 @ waits e k)
      \<and> ((\<exists>err. r = Some err \<and> pulling e p key s0 (ps_counter s0) s') \<or> (r = None \<and> (\<exists>n. pulled e p key s0 n s')))"
proof (induction left arbitrary: attempt s)
  case (Suc left)
  let ?q = "blank_job_patch\<lparr> uj_attempts := Some (int attempt) \<rparr>"
  obtain j where j: "get_job (ps_jobs s) (pp_jobId p) = Some j" "j_status j = JRunning" using Suc.prems(1) by (auto simp: pulling_def)
  obtain j1 where j1: "job_update (pp_jobId p) ?q (pv_now e) s = (s\<lparr> ps_jobs := put_job (pp_jobId p) j1 (ps_jobs s) \<rparr>, Inr ())" "j_status j1 = JRunning"
    using job_update_fields [OF j(1), of ?q "pv_now e"] j(2) by (auto simp: blank_job_patch_def)
  let ?s = "s\<lparr> ps_jobs := put_job (pp_jobId p) j1 (ps_jobs s) \<rparr>"
  have inv: "pulling e p key s0 (ps_counter s0) ?s" using Suc.prems(1) j1(2) by (simp add: pulling_def)
  have at2: "attempt - 1 \<le> 2" using Suc.prems by simp
  consider (ok) s' k where "pull_attempt e p attempt ?s = (s', Inr k)" "pulled e p key s0 k s'" "ps_sleeps s' = ps_sleeps s"
    | (bad) s' err where "pull_attempt e p attempt ?s = (s', Inl err)" "pulling e p key s0 (ps_counter s0) s'" "ps_sleeps s' = ps_sleeps s"
    using attempt_cases [OF inv undisturbed key c a, of attempt] by auto
  then show ?case
  proof cases
    case ok
    then show ?thesis using j1(1) Suc.prems(5) at2 by (auto simp: Let_def)
  next
    case bad
    show ?thesis
    proof (cases "isPermanent err \<or> attempt = MAX_ATTEMPTS")
      case True
      then show ?thesis using bad j1(1) Suc.prems(5) at2 by (auto simp: Let_def)
    next
      case False
      let ?t = "s'\<lparr> ps_sleeps := ps_sleeps s' @ [pv_baseBackoff e * 2 ^ (attempt - 1)] \<rparr>"
      have l: "0 < left" "Suc attempt + left = 4" using False Suc.prems by (auto simp: MAX_ATTEMPTS_def)
      have "waits e attempt = waits e (attempt - 1) @ [pv_baseBackoff e * 2 ^ (attempt - 1)]"
        using Suc.prems(2) by (cases attempt) (simp_all add: waits_def)
      then have "ps_sleeps ?t = ps_sleeps s0 @ waits e (Suc attempt - 1)" using bad(3) Suc.prems(5) by simp
      moreover have "pulling e p key s0 (ps_counter s0) ?t" using bad(2) by (simp add: pulling_def)
      ultimately have "\<exists>s' r. pull_attempts e p (Suc attempt) left ?t = (s', r) \<and> (\<exists>k \<le> 2. ps_sleeps s' = ps_sleeps s0 @ waits e k)
        \<and> ((\<exists>err. r = Some err \<and> pulling e p key s0 (ps_counter s0) s') \<or> (r = None \<and> (\<exists>n. pulled e p key s0 n s')))"
        using Suc.IH [of ?t "Suc attempt"] l by simp
      then show ?thesis using False bad(1) j1(1) by (simp add: Let_def)
    qed
  qed
qed simp

section \<open>Properties\<close>


text \<open>A source that delivers its bytes, and an operator's cancel during the first transfer.\<close>

definition delivers :: "pull_env \<Rightarrow> pull_params \<Rightarrow> string \<Rightarrow> nat \<Rightarrow> bool" where
  "delivers e p bytes n = (\<exists>opened. resolve_source (pv_source e n) (pp_sourceUrl p) = Inr opened \<and> \<not> sm_fails (op_stream opened)
     \<and> concat (sm_chunks (op_stream opened)) = bytes \<and> stated_size opened = Some (of_nat (length bytes)))"

definition cancelled_during_first :: "cancel_env \<Rightarrow> pull_env \<Rightarrow> pull_params \<Rightarrow> bool" where
  "cancelled_during_first ce e p =
     ((\<forall>js as. pv_other e 1 (js, as) =
        (let c = fst (cancelJob ce (pp_jobId p) \<lparr> cl_jobs = js, cl_assets = as, cl_pipes = [], cl_encoderCancels = [] \<rparr>) in (cl_jobs c, cl_assets c)))
      \<and> (\<forall>n x. n \<noteq> 1 \<longrightarrow> pv_other e n x = x))"

lemma cancel_active:
  assumes "get_job js i = Some j" "isActiveJobStatus (j_status j)" "get as (j_assetId j) = Some a" "a_status a \<noteq> Processing"
  shows "\<exists>js' j' c. fst (cancelJob ce i \<lparr> cl_jobs = js, cl_assets = as, cl_pipes = ps, cl_encoderCancels = ec \<rparr>) = c
    \<and> cl_jobs c = js' \<and> cl_assets c = as \<and> get_job js' i = Some j' \<and> j_status j' = JCancelled \<and> j_assetId j' = j_assetId j"
proof -
  let ?q = "blank_job_patch\<lparr> uj_status := Some JCancelled, uj_error := Some ''cancelled by operator'' \<rparr>"
  have act: "j_status j \<noteq> JDone" "j_status j \<noteq> JFailed" "j_status j \<noteq> JCancelled" using assms(2) by auto
  have v: "isValidJobTransition (j_status j) JCancelled" using act by (cases "j_status j") (simp_all add: isValidJobTransition_def)
  obtain j' where j': "applyJobPatch j ?q (ce_now ce) = Inr j'" "j_status j' = JCancelled" "j_assetId j' = j_assetId j" "j_id j' = j_id j"
    using v by (auto simp: applyJobPatch_def blank_job_patch_def Let_def jset_def)
  have u: "update_job i ?q (ce_now ce) js = Inr (put_job i j' js, Some j')" using assms(1) j'(1) by (simp add: update_job_def get_job_def)
  have rc: "fst (recomputeAssetStateAfterTerminalJob j' as js'' (j_assetId j') now) = as" for js'' now
    using assms(3,4) j'(3) by (simp add: recomputeAssetStateAfterTerminalJob_def)
  show ?thesis using assms(1) act u rc j' by (simp add: cancelJob_def Let_def)
qed

lemma spent_attempt:
  assumes "storage_works (pv_storage e)" "cancelled_during_first ce e p" "delivers e p bytes n" "length bytes \<le> pv_maxBytes e" "pv_quota e = Some cap"
    and "case cap of None \<Rightarrow> True | Some k \<Rightarrow> consumedBytes (ps_counter s) + reservedBytes (ps_counter s) + int (length bytes) \<le> k"
    and "counter_ok (ps_counter s)" "wf_bucket (ps_bucket s)" "scopedKey (pp_objectKey p) = Some key"
    and "get_job (ps_jobs s) (pp_jobId p) = Some j" "n = 1 \<and> isActiveJobStatus (j_status j) \<or> n \<noteq> 1 \<and> j_status j = JCancelled"
    and "j_assetId j = pp_assetId p" "get (ps_assets s) (pp_assetId p) = Some a" "a_status a = Uploading"
  shows "\<exists>s' j'. pull_attempt e p n s = (s', Inl (PullJob (InvalidJobTransition JCancelled JDone)))
    \<and> get_job (ps_jobs s') (pp_jobId p) = Some j' \<and> j_status j' = JCancelled \<and> j_assetId j' = pp_assetId p \<and> ps_assets s' = ps_assets s
    \<and> ps_counter s' = (ps_counter s)\<lparr> consumedBytes := consumedBytes (ps_counter s) + int (length bytes) \<rparr> \<and> wf_bucket (ps_bucket s')
    \<and> map_of (bk_objects (ps_bucket s')) key = Some bytes \<and> ps_audit s' = ps_audit s \<and> ps_sleeps s' = ps_sleeps s"
proof -
  obtain opened where o: "resolve_source (pv_source e n) (pp_sourceUrl p) = Inr opened" "\<not> sm_fails (op_stream opened)"
    "concat (sm_chunks (op_stream opened)) = bytes" "stated_size opened = Some (of_nat (length bytes))" using assms(3) by (auto simp: delivers_def)
  let ?N = "int (length bytes)"
  let ?h = "\<lparr> rv_reserved = ?N, rv_settled = False \<rparr>"
  let ?c = "(ps_counter s)\<lparr> reservedBytes := reservedBytes (ps_counter s) + ?N \<rparr>"
  have ad: "admit mem_ops cap (stated_size opened) (ps_counter s) = (?c, Inr ?h)"
    using assms(6) o(4) by (auto simp: admit_def mem_ops_def mem_reserve_def Let_def clampNonNegative_def guard_amount_def split: option.splits)
  let ?s = "s\<lparr> ps_counter := ?c \<rparr>"
  let ?d = "discardOrphanedUpload e (pp_objectKey p) ?s"
  obtain b0 where b0: "?d = ?s\<lparr> ps_bucket := b0 \<rparr>" "wf_bucket b0"
    using abort_wf [OF assms(8), of "pv_storage e" "pp_objectKey p"] by (simp add: discardOrphanedUpload_def)
  have fits: "length (concat (sm_chunks (op_stream opened))) \<le> pv_maxBytes e" using o(3) assms(4) by simp
  obtain ts where ts: "stream_chunks (pv_maxBytes e) 0 (sm_chunks (op_stream opened)) = (bytes, ts, True)"
    using stream_fits [of 0 "sm_chunks (op_stream opened)" "pv_maxBytes e"] fits o(3) by auto
  let ?b = "counted (b0\<lparr> bk_objects := AList.update key bytes (bk_objects b0) \<rparr>)"
  have put: "putStream (pv_storage e) (pp_objectKey p) (sm_chunks (op_stream opened)) (sm_fails (op_stream opened)) (pv_maxBytes e) b0
    = (?b, ts, Inr (length bytes))"
    using assms(1,9) o(2) ts by (simp add: putStream_def fault_now_def storage_works_def)
  let ?begun = "?d\<lparr> ps_bucket := ?b \<rparr>"
  have gj: "get_job (ps_jobs ?begun) (pp_jobId p) = Some j" using assms(10) by (simp add: b0)
  obtain js j1 where w: "write_progress e (pp_jobId p) n (op_totalBytes opened) 0 0 ts ?begun = ?begun\<lparr> ps_jobs := js \<rparr>"
      "get_job js (pp_jobId p) = Some j1" "j_status j1 = j_status j" "j_assetId j1 = j_assetId j"
    using write_progress_frame [OF gj] by blast
  have as: "ps_assets ?begun = ps_assets s" by (simp add: b0)
  obtain js2 j2 where ot: "pv_other e n (js, ps_assets s) = (js2, ps_assets s)" "get_job js2 (pp_jobId p) = Some j2" "j_status j2 = JCancelled" "j_assetId j2 = pp_assetId p"
  proof (cases "n = 1")
    case True
    then have act: "isActiveJobStatus (j_status j1)" using assms(11) w(3) by auto
    have ga: "get (ps_assets s) (j_assetId j1) = Some a" using assms(12,13) w(4) by simp
    have np: "a_status a \<noteq> Processing" using assms(14) by simp
    obtain js' j' c where c: "fst (cancelJob ce (pp_jobId p) \<lparr> cl_jobs = js, cl_assets = ps_assets s, cl_pipes = [], cl_encoderCancels = [] \<rparr>) = c"
      "cl_jobs c = js'" "cl_assets c = ps_assets s" "get_job js' (pp_jobId p) = Some j'" "j_status j' = JCancelled" "j_assetId j' = j_assetId j1"
      using cancel_active [OF w(2) act ga np, of ce "[]" "[]"] by blast
    have "pv_other e n (js, ps_assets s) = (js', ps_assets s)" using assms(2) True c(1-3) by (simp add: cancelled_during_first_def Let_def)
    then show thesis using that c(4-6) w(4) assms(12) by simp
  next
    case False
    then have "pv_other e n (js, ps_assets s) = (js, ps_assets s)" using assms(2) by (simp add: cancelled_during_first_def)
    then show thesis using that w assms(11,12) False by simp
  qed
  let ?seen = "?begun\<lparr> ps_jobs := js2, ps_assets := ps_assets s \<rparr>"
  have com: "commit_reservation (length bytes) (Some ?h) ?seen
    = (?seen\<lparr> ps_counter := (ps_counter s)\<lparr> consumedBytes := consumedBytes (ps_counter s) + ?N \<rparr> \<rparr>, Some (?h\<lparr> rv_settled := True \<rparr>))"
    using commit_mem [OF assms(7), of ?h "length bytes"] by (simp add: commit_reservation_def b0)
  let ?paid = "?seen\<lparr> ps_counter := (ps_counter s)\<lparr> consumedBytes := consumedBytes (ps_counter s) + ?N \<rparr> \<rparr>"
  let ?q = "blank_job_patch\<lparr> uj_status := Some JDone, uj_bytesTransferred := Some (js_of_int ?N),
       uj_totalBytes := Some (coalesce (op_totalBytes opened) (js_of_int ?N)), uj_progress := Some (Fin 100) \<rparr>"
  have nv: "\<not> isValidJobTransition (j_status j2) JDone" using ot(3) by (simp add: isValidJobTransition_def)
  have g3: "get_job (ps_jobs ?paid) (pp_jobId p) = Some j2" using ot(2) by simp
  have st: "uj_status ?q = Some JDone" by simp
  have fin: "finish_pull e p opened (length bytes) ?paid = (?paid, Inl (PullJob (InvalidJobTransition JCancelled JDone)))"
    unfolding finish_pull_def job_update_status(2) [OF g3 st nv] then_do_simps ot(3) ..
  have rel: "release_reservation (Some (?h\<lparr> rv_settled := True \<rparr>)) ?paid = ?paid" by (simp add: release_reservation_def reservation_release_def)
  have run: "transfer e p n opened (Some ?h) ?s = (?paid, Inl (PullJob (InvalidJobTransition JCancelled JDone)))"
  proof -
    have pb: "ps_bucket ?d = b0" by (simp add: b0)
    have j0: "ps_jobs (?begun\<lparr> ps_jobs := js \<rparr>) = js" "ps_assets (?begun\<lparr> ps_jobs := js \<rparr>) = ps_assets s" using as by simp_all
    have u: "?begun\<lparr> ps_jobs := js \<rparr>\<lparr> ps_jobs := js2, ps_assets := ps_assets s \<rparr> = ?seen" by simp
    show ?thesis unfolding transfer_def Let_def pb put prod.case w(1) j0 ot(1) u sum.case com fin rel by (rule refl)
  qed
  have "pull_attempt e p n s = (?paid, Inl (PullJob (InvalidJobTransition JCancelled JDone)))"
    unfolding pull_attempt_def o(1) assms(5) sum.case option.case ad prod.case run ..
  moreover have "wf_bucket ?b" using b0(2) by (simp add: wf_bucket_def)
  ultimately show ?thesis using ot(2-4) by (intro exI [of _ ?paid] exI [of _ j2]) (simp add: b0)
qed

definition spending :: "pull_params \<Rightarrow> asset \<Rightarrow> string \<Rightarrow> string \<Rightarrow> pull_state \<Rightarrow> nat \<Rightarrow> pull_state \<Rightarrow> bool" where
  "spending p a key bytes s0 n s =
     ((\<exists>j. get_job (ps_jobs s) (pp_jobId p) = Some j \<and> (if n = 0 then isActiveJobStatus (j_status j) else j_status j = JCancelled) \<and> j_assetId j = pp_assetId p)
      \<and> ps_assets s = ps_assets s0 \<and> wf_bucket (ps_bucket s) \<and> ps_audit s = ps_audit s0
      \<and> ps_counter s = (ps_counter s0)\<lparr> consumedBytes := consumedBytes (ps_counter s0) + int n * int (length bytes) \<rparr>
      \<and> (0 < n \<longrightarrow> map_of (bk_objects (ps_bucket s)) key = Some bytes))"

lemma spent_round:
  assumes "storage_works (pv_storage e)" "cancelled_during_first ce e p" "\<forall>n \<in> {1, 2, 3}. delivers e p bytes n" "length bytes \<le> pv_maxBytes e" "pv_quota e = Some cap"
    and "case cap of None \<Rightarrow> True | Some k \<Rightarrow> consumedBytes (ps_counter s0) + reservedBytes (ps_counter s0) + 3 * int (length bytes) \<le> k"
    and "counter_ok (ps_counter s0)" "scopedKey (pp_objectKey p) = Some key" "get (ps_assets s0) (pp_assetId p) = Some a" "a_status a = Uploading"
    and "n < 3" "spending p a key bytes s0 n s"
  shows "\<exists>s2. spending p a key bytes s0 (Suc n) s2 \<and> pull_attempts e p (Suc n) (Suc left) s
    = (if n = 2 then (s2, Some (PullJob (InvalidJobTransition JCancelled JDone))) else pull_attempts e p (Suc (Suc n)) left s2)"
proof -
  let ?q = "blank_job_patch\<lparr> uj_attempts := Some (int (Suc n)) \<rparr>"
  obtain j where j: "get_job (ps_jobs s) (pp_jobId p) = Some j" "if n = 0 then isActiveJobStatus (j_status j) else j_status j = JCancelled" "j_assetId j = pp_assetId p"
    using assms(12) by (auto simp: spending_def)
  obtain j1 where j1: "job_update (pp_jobId p) ?q (pv_now e) s = (s\<lparr> ps_jobs := put_job (pp_jobId p) j1 (ps_jobs s) \<rparr>, Inr ())"
      "j_status j1 = j_status j" "j_assetId j1 = pp_assetId p"
    using job_update_fields [OF j(1), of ?q "pv_now e"] j(3) by (auto simp: blank_job_patch_def)
  let ?s = "s\<lparr> ps_jobs := put_job (pp_jobId p) j1 (ps_jobs s) \<rparr>"
  have cnt: "ps_counter ?s = (ps_counter s0)\<lparr> consumedBytes := consumedBytes (ps_counter s0) + int n * int (length bytes) \<rparr>"
    and rest: "ps_assets ?s = ps_assets s0" "wf_bucket (ps_bucket ?s)" "ps_audit ?s = ps_audit s0" using assms(12) by (simp_all add: spending_def)
  have le: "int n * int (length bytes) + int (length bytes) \<le> 3 * int (length bytes)"
  proof -
    have "int (Suc n) * int (length bytes) \<le> 3 * int (length bytes)" using assms(11) by (intro mult_right_mono) auto
    then show ?thesis by (simp add: algebra_simps)
  qed
  have room: "case cap of None \<Rightarrow> True | Some k \<Rightarrow> consumedBytes (ps_counter ?s) + reservedBytes (ps_counter ?s) + int (length bytes) \<le> k"
    using assms(6) le unfolding cnt by (simp split: option.splits)
  have cok: "counter_ok (ps_counter ?s)" using assms(7) unfolding cnt by (simp add: counter_ok_def)
  have del: "delivers e p bytes (Suc n)" using assms(3,11) by (cases n) (auto simp: numeral_2_eq_2 numeral_3_eq_3 less_Suc_eq)
  have gj: "get_job (ps_jobs ?s) (pp_jobId p) = Some j1" by simp
  have st: "Suc n = 1 \<and> isActiveJobStatus (j_status j1) \<or> Suc n \<noteq> 1 \<and> j_status j1 = JCancelled" using j(2) j1(2) by (auto split: if_splits)
  have ga: "get (ps_assets ?s) (pp_assetId p) = Some a" using rest(1) assms(9) by simp
  obtain s2 j2 where r: "pull_attempt e p (Suc n) ?s = (s2, Inl (PullJob (InvalidJobTransition JCancelled JDone)))"
      "get_job (ps_jobs s2) (pp_jobId p) = Some j2" "j_status j2 = JCancelled" "j_assetId j2 = pp_assetId p" "ps_assets s2 = ps_assets ?s"
      "ps_counter s2 = (ps_counter ?s)\<lparr> consumedBytes := consumedBytes (ps_counter ?s) + int (length bytes) \<rparr>" "wf_bucket (ps_bucket s2)"
      "map_of (bk_objects (ps_bucket s2)) key = Some bytes" "ps_audit s2 = ps_audit ?s"
    using spent_attempt [OF assms(1,2) del assms(4,5) room cok rest(2) assms(8) gj st j1(3) ga assms(10)] by blast
  have inv: "spending p a key bytes s0 (Suc n) s2" using r(2-9) rest unfolding spending_def cnt by (simp add: algebra_simps)
  have np: "\<not> isPermanent (PullJob (InvalidJobTransition JCancelled JDone))" by (simp add: isPermanent_def)
  have runs: "pull_attempts e p (Suc n) (Suc left) s
      = (if Suc n = MAX_ATTEMPTS then (s2, Some (PullJob (InvalidJobTransition JCancelled JDone)))
         else pull_attempts e p (Suc (Suc n)) left (s2\<lparr> ps_sleeps := ps_sleeps s2 @ [pv_baseBackoff e * 2 ^ n] \<rparr>))"
    using j1(1) r(1) np by (simp add: Let_def)
  show ?thesis
  proof (cases "n = 2")
    case True
    then show ?thesis using runs inv by (intro exI [of _ s2]) (simp add: MAX_ATTEMPTS_def)
  next
    case False
    then have "Suc n \<noteq> MAX_ATTEMPTS" by (simp add: MAX_ATTEMPTS_def)
    then show ?thesis using runs inv False by (intro exI [of _ "s2\<lparr> ps_sleeps := ps_sleeps s2 @ [pv_baseBackoff e * 2 ^ n] \<rparr>"]) (simp add: spending_def)
  qed
qed

text \<open>C38. A pull that is cancelled while it streams is never settled: the transfer goes on, the write of the job as done is
  refused and taken for a transfer that failed, so the source is pulled three times and its bytes are counted three
  times; then the write of the job as failed is refused too, and the promise that never throws is rejected,
  with the asset still uploading, the object stored and no audit entry.\<close>

theorem cancelled_pull_never_settles:
  assumes "get_job (ps_jobs s) (pp_jobId p) = Some j" "j_status j \<in> {JPending, JQueued, JRunning}" "j_assetId j = pp_assetId p"
    and "get (ps_assets s) (pp_assetId p) = Some a" "a_status a = Uploading" "counter_ok (ps_counter s)" "wf_bucket (ps_bucket s)"
    and "scopedKey (pp_objectKey p) = Some key" "storage_works (pv_storage e)" "cancelled_during_first ce e p"
    and "\<forall>n \<in> {1, 2, 3}. delivers e p bytes n" "length bytes \<le> pv_maxBytes e" "pv_quota e = Some cap"
    and "case cap of None \<Rightarrow> True | Some k \<Rightarrow> consumedBytes (ps_counter s) + reservedBytes (ps_counter s) + 3 * int (length bytes) \<le> k"
  shows "\<exists>s' j'. runPull e p s = (s', Inl (PullJob (InvalidJobTransition JCancelled JFailed)))
    \<and> get_job (ps_jobs s') (pp_jobId p) = Some j' \<and> j_status j' = JCancelled \<and> get (ps_assets s') (pp_assetId p) = Some a
    \<and> map_of (bk_objects (ps_bucket s')) key = Some bytes
    \<and> consumedBytes (ps_counter s') = consumedBytes (ps_counter s) + 3 * int (length bytes) \<and> ps_audit s' = ps_audit s"
proof -
  let ?q = "blank_job_patch\<lparr> uj_status := Some JRunning \<rparr>"
  have v: "isValidJobTransition (j_status j) JRunning" using assms(2) by (auto simp: isValidJobTransition_def)
  obtain j1 where j1: "job_update (pp_jobId p) ?q (pv_now e) s = (s\<lparr> ps_jobs := put_job (pp_jobId p) j1 (ps_jobs s) \<rparr>, Inr ())"
      "j_status j1 = JRunning" "j_assetId j1 = pp_assetId p"
    using job_update_status(1) [OF assms(1), of ?q JRunning "pv_now e"] v assms(3) by (auto simp: blank_job_patch_def)
  let ?t = "s\<lparr> ps_jobs := put_job (pp_jobId p) j1 (ps_jobs s) \<rparr>"
  have start: "spending p a key bytes s 0 ?t" using assms j1 by (simp add: spending_def)
  note round = spent_round [OF assms(9-14,6,8,4,5)]
  obtain t1 where t1: "spending p a key bytes s 1 t1" "pull_attempts e p 1 3 ?t = pull_attempts e p 2 2 t1"
    using round [OF _ start, of 2] by (auto simp: numeral_2_eq_2 numeral_3_eq_3)
  obtain t2 where t2: "spending p a key bytes s 2 t2" "pull_attempts e p 2 2 t1 = pull_attempts e p 3 1 t2"
    using round [OF _ t1(1), of 1] by (auto simp: numeral_2_eq_2 numeral_3_eq_3)
  obtain t3 where t3: "spending p a key bytes s 3 t3" "pull_attempts e p 3 1 t2 = (t3, Some (PullJob (InvalidJobTransition JCancelled JDone)))"
    using round [OF _ t2(1), of 0] by (auto simp: numeral_2_eq_2 numeral_3_eq_3)
  have att: "pull_attempts e p 1 MAX_ATTEMPTS ?t = (t3, Some (PullJob (InvalidJobTransition JCancelled JDone)))"
    unfolding MAX_ATTEMPTS_def t1(2) t2(2) t3(2) ..
  let ?d = "discardOrphanedUpload e (pp_objectKey p) t3"
  obtain b r where b: "abortIncompleteMultipartUploads (pv_storage e) (pp_objectKey p) (ps_bucket t3) = (b, r)" by fastforce
  have d: "?d = t3\<lparr> ps_bucket := b \<rparr>" "bk_objects b = bk_objects (ps_bucket t3)" using b abort_frame [OF b] by (simp_all add: discardOrphanedUpload_def)
  obtain j3 where j3: "get_job (ps_jobs ?d) (pp_jobId p) = Some j3" "j_status j3 = JCancelled" using t3(1) by (auto simp: spending_def d)
  have nv: "\<not> isValidJobTransition (j_status j3) JFailed" using j3(2) by (simp add: isValidJobTransition_def)
  let ?err = "PullJob (InvalidJobTransition JCancelled JDone)"
  have st: "uj_status (blank_job_patch\<lparr> uj_status := Some JFailed, uj_error := Some (pull_message ?err) \<rparr>) = Some JFailed" by simp
  have fin: "fail_pull e p ?err t3 = (?d, Inl (PullJob (InvalidJobTransition JCancelled JFailed)))"
    unfolding fail_pull_def job_update_status(2) [OF j3(1) st nv] then_do_simps j3(2) ..
  have "runPull e p s = (?d, Inl (PullJob (InvalidJobTransition JCancelled JFailed)))"
    unfolding runPull_def j1(1) then_do_simps att using fin by simp
  then show ?thesis using j3 t3(1) d assms(4) by (intro exI [of _ ?d] exI [of _ j3]) (simp add: spending_def)
qed

section \<open>Example runs\<close>

definition demo_pull_source :: source_env where
  "demo_pull_source = \<lparr> sv_urlOf = (\<lambda>s. Some \<lparr> pu_protocol = ''s3:'', pu_hostname = ''b'', pu_pathname = ''/k'', pu_text = s \<rparr>),
     sv_dns = (\<lambda>h. None), sv_fetch = (\<lambda>u. None),
     sv_openS3 = Some (\<lambda>u. Inr \<lparr> op_stream = \<lparr> sm_chunks = [''AB'', ''C''], sm_fails = False \<rparr>, op_totalBytes = Some (Fin 3) \<rparr>), sv_number = (\<lambda>s. NaN) \<rparr>"

definition demo_cancel_env :: cancel_env where
  "demo_cancel_env = \<lparr> ce_now = ''t5'', ce_hasEncoder = True, ce_hasPipelines = True, ce_hasAssets = True \<rparr>"

definition cancel_once :: "nat \<Rightarrow> job_repo \<times> asset_repo \<Rightarrow> job_repo \<times> asset_repo" where
  "cancel_once n x = (if n = 1 then let c = fst (cancelJob demo_cancel_env ''job-1'' \<lparr> cl_jobs = fst x, cl_assets = snd x, cl_pipes = [], cl_encoderCancels = [] \<rparr>)
     in (cl_jobs c, cl_assets c) else x)"

definition demo_pull_env :: "(nat \<Rightarrow> job_repo \<times> asset_repo \<Rightarrow> job_repo \<times> asset_repo) \<Rightarrow> pull_env" where
  "demo_pull_env other = \<lparr> pv_source = (\<lambda>n. demo_pull_source), pv_storage = demo_storage, pv_quota = Some None, pv_maxBytes = 10, pv_now = ''t4'',
     pv_clock = (\<lambda>n k. 5000), pv_baseBackoff = 500, pv_other = other \<rparr>"

definition demo_params :: pull_params where
  "demo_params = \<lparr> pp_jobId = ''job-1'', pp_assetId = ''A'', pp_objectKey = ''ingest/A'', pp_sourceUrl = ''s3://b/k'' \<rparr>"

definition demo_ingest_job :: job where
  "demo_ingest_job = new_job ''t1'' None ''job-1'' \<lparr> cj_type = IngestUrl, cj_assetId = ''A'', cj_sourceUrl = Some ''s3://b/k'', cj_encoreJobId = None,
     cj_encoreInternalJobId = None, cj_profile = None, cj_packagingId = None, cj_outputPrefix = None, cj_stackName = None \<rparr>"

definition demo_uploading :: asset where "demo_uploading = demo_settle_asset\<lparr> a_status := Uploading \<rparr>"

definition demo_pull_state :: pull_state where
  "demo_pull_state = \<lparr> ps_jobs = put_job ''job-1'' demo_ingest_job empty_job_repo, ps_assets = \<lparr> store = [(''A'', demo_uploading)], tombstones = [] \<rparr>,
     ps_bucket = demo_bucket, ps_counter = \<lparr> consumedBytes = 0, reservedBytes = 0 \<rparr>, ps_audit = [], ps_sleeps = [] \<rparr>"

lemma demo_pull_facts:
  "get_job (ps_jobs demo_pull_state) (pp_jobId demo_params) = Some demo_ingest_job" "j_status demo_ingest_job \<in> {JPending, JQueued, JRunning}"
  "j_assetId demo_ingest_job = pp_assetId demo_params" "get (ps_assets demo_pull_state) (pp_assetId demo_params) = Some demo_uploading"
  "a_status demo_uploading = Uploading" "counter_ok (ps_counter demo_pull_state)" "wf_bucket (ps_bucket demo_pull_state)"
  "storage_works (pv_storage (demo_pull_env f))"
  by (simp_all add: demo_pull_state_def demo_params_def demo_ingest_job_def new_job_def get_def demo_uploading_def counter_ok_def wf_bucket_def demo_bucket_def
      storage_works_def demo_pull_env_def demo_storage_def)

lemma demo_pull_key: "scopedKey (pp_objectKey demo_params) = Some ''ingest/A''" by code_simp

lemma demo_delivers: "delivers (demo_pull_env f) demo_params ''ABC'' n"
  by (simp add: delivers_def demo_pull_env_def demo_params_def resolve_source_def parseSource_def openSource_def demo_pull_source_def stated_size_def)


theorem cancelled_pull_never_settles_witness:
  "\<exists>s'. runPull (demo_pull_env cancel_once) demo_params demo_pull_state = (s', Inl (PullJob (InvalidJobTransition JCancelled JFailed)))
    \<and> consumedBytes (ps_counter s') = 9"
proof -
  have c: "cancelled_during_first demo_cancel_env (demo_pull_env cancel_once) demo_params"
    by (simp add: cancelled_during_first_def demo_pull_env_def cancel_once_def demo_params_def Let_def)
  have d: "\<forall>n \<in> {1, 2, 3}. delivers (demo_pull_env cancel_once) demo_params ''ABC'' n" using demo_delivers by blast
  have m: "length ''ABC'' \<le> pv_maxBytes (demo_pull_env cancel_once)" "pv_quota (demo_pull_env cancel_once) = Some None" by (simp_all add: demo_pull_env_def)
  have z: "consumedBytes (ps_counter demo_pull_state) = 0" by (simp add: demo_pull_state_def)
  show ?thesis
    using cancelled_pull_never_settles [OF demo_pull_facts(1-7) demo_pull_key demo_pull_facts(8) c d m] z by auto
qed

end
