(* ===== verification/Interrupted_Ingest.thy ===== *)
theory Interrupted_Ingest
  imports Url_Pull Asset_Purge
begin

text \<open>
  What becomes of uploads that nobody will finish: the pass at boot over URL pulls whose process died
  (\<^verbatim>\<open>src/src/pipeline/interrupted-ingest-reconciler.ts\<close>) and the sweep over abandoned uploads
  (\<^verbatim>\<open>src/src/pipeline/abandoned-upload-sweep.ts\<close>). Each reads a snapshot of the records, then takes every
  candidate in turn; \<open>ie_other k\<close> is what other writers do before the turn of the \<open>k\<close>-th.
\<close>

section \<open>The pass over interrupted pulls\<close>

definition INTERRUPTED_PULL_ERROR :: string where "INTERRUPTED_PULL_ERROR = ''pull interrupted by process restart''"
definition INTERRUPTED_PULL_ASSET_REASON :: string where "INTERRUPTED_PULL_ASSET_REASON = ''pull interrupted''"
definition EXTERNAL_OBJECT_KEY_PREFIX :: string where "EXTERNAL_OBJECT_KEY_PREFIX = ''s3://''"
definition MAX_SCAN_PAGES :: nat where "MAX_SCAN_PAGES = 50"

definition processStartTimeMs :: "int \<Rightarrow> rat \<Rightarrow> int" where
  "processStartTimeMs now uptimeSeconds = now - \<lfloor>uptimeSeconds * 1000 + 1 / 2\<rfloor>"

record ingest_state =
  is_jobs :: job_repo
  is_assets :: asset_repo
  is_bucket :: bucket
  is_audit :: "ingest_audit list"

datatype cleanup_storage = CleanupNotWired | CleanupThrows | CleanupNone | CleanupStorage storage_env

record ingest_env =
  ie_parse :: "string \<Rightarrow> jsnum"
  ie_startedAt :: int
  ie_reason :: string
  ie_assetReason :: string
  ie_now :: string
  ie_hasAssets :: bool
  ie_storage :: cleanup_storage
  ie_jobThrows :: "string \<Rightarrow> bool"
  ie_assetThrows :: "string \<Rightarrow> bool"
  ie_other :: "nat \<Rightarrow> ingest_state \<Rightarrow> ingest_state"

definition isStampedBefore :: "ingest_env \<Rightarrow> job \<Rightarrow> bool" where
  "isStampedBefore e j = js_lt (ie_parse e (j_updatedAt j)) (js_of_int (ie_startedAt e))"

definition interrupted :: "ingest_env \<Rightarrow> job \<Rightarrow> bool" where
  "interrupted e j = (j_type j = IngestUrl \<and> j_status j = JRunning \<and> isStampedBefore e j)"

fun candidates_from :: "ingest_env \<Rightarrow> job_repo \<Rightarrow> nat \<Rightarrow> nat \<Rightarrow> job list" where
  "candidates_from e r offset 0 = []"
| "candidates_from e r offset (Suc pages) =
     (let (items, n) = list_jobs r (Some SCAN_PAGE_SIZE) (Some offset); out = filter (interrupted e) items
      in if length items < SCAN_PAGE_SIZE then out
         else if offset + length items \<ge> n then out
         else out @ candidates_from e r (offset + length items) pages)"

definition listInterruptedCandidates :: "ingest_env \<Rightarrow> job_repo \<Rightarrow> job list" where
  "listInterruptedCandidates e r = candidates_from e r 0 MAX_SCAN_PAGES"

text \<open>\<open>None\<close> is a throw; the answer is the asset as written, when it was written.\<close>

definition settleAssetForInterruptedPull :: "ingest_env \<Rightarrow> job \<Rightarrow> ingest_state \<Rightarrow> ingest_state \<times> asset option option" where
  "settleAssetForInterruptedPull e job s =
     (if \<not> ie_hasAssets e then (s, Some None)
      else if ie_assetThrows e (j_assetId job) then (s, None)
      else case get (is_assets s) (j_assetId job) of
             None \<Rightarrow> (s, Some None)
           | Some asset \<Rightarrow>
               if a_status asset \<noteq> Uploading then (s, Some None)
               else (case update_asset (j_assetId job) (empty_patch\<lparr> u_status := Some Failed, u_statusReason := Some (ie_assetReason e) \<rparr>) (ie_now e) (is_assets s) of
                       Inl err \<Rightarrow> (s, None)
                     | Inr (r, updated) \<Rightarrow> (s\<lparr> is_assets := r \<rparr>, Some updated)))"

definition discardPartialPullBytes :: "ingest_env \<Rightarrow> asset \<Rightarrow> ingest_state \<Rightarrow> ingest_state" where
  "discardPartialPullBytes e asset s =
     (if ie_storage e = CleanupNotWired then s
      else if \<not> truthy (a_objectKey asset) then s
      else let key = the (a_objectKey asset)
           in if prefix EXTERNAL_OBJECT_KEY_PREFIX (to_lower key) then s
              else case ie_storage e of
                     CleanupStorage c \<Rightarrow>
                       let b1 = fst (abortIncompleteMultipartUploads c key (is_bucket s)) in s\<lparr> is_bucket := fst (remove_object c key b1) \<rparr>
                   | _ \<Rightarrow> s)"

definition settle_interrupted :: "ingest_env \<Rightarrow> job \<Rightarrow> ingest_state \<Rightarrow> ingest_state \<times> bool" where
  "settle_interrupted e job s =
     (if ie_jobThrows e (j_id job) then (s, False)
      else case get_job (is_jobs s) (j_id job) of
             None \<Rightarrow> (s, False)
           | Some fresh \<Rightarrow>
               if \<not> interrupted e fresh then (s, False)
               else (case update_job (j_id job) (blank_job_patch\<lparr> uj_status := Some JFailed, uj_error := Some (ie_reason e) \<rparr>) (ie_now e) (is_jobs s) of
                       Inl err \<Rightarrow> (s, False)
                     | Inr (r, None) \<Rightarrow> (s\<lparr> is_jobs := r \<rparr>, False)
                     | Inr (r, Some result) \<Rightarrow>
                         let s1 = s\<lparr> is_jobs := r, is_audit := is_audit s @ [IngestFailed (j_id job) (j_assetId job) (ie_reason e)] \<rparr>
                         in (case settleAssetForInterruptedPull e job s1 of
                               (s2, Some (Some asset)) \<Rightarrow> (discardPartialPullBytes e asset s2, True)
                             | (s2, _) \<Rightarrow> (s2, True))))"

fun settle_candidates :: "ingest_env \<Rightarrow> nat \<Rightarrow> job list \<Rightarrow> ingest_state \<Rightarrow> ingest_state \<times> nat \<times> nat" where
  "settle_candidates e k [] s = (s, 0, 0)"
| "settle_candidates e k (job # js) s =
     (let (s1, done) = settle_interrupted e job (ie_other e k s); (s2, scanned, settled) = settle_candidates e (Suc k) js s1
      in (s2, Suc scanned, if done then Suc settled else settled))"

definition settleInterruptedIngestsInCurrentStack :: "ingest_env \<Rightarrow> ingest_state \<Rightarrow> ingest_state \<times> nat \<times> nat" where
  "settleInterruptedIngestsInCurrentStack e s = settle_candidates e 0 (listInterruptedCandidates e (is_jobs s)) s"

text \<open>Every provisioned stack in turn, or the default one; \<open>unreachable\<close> are the stacks whose jobs cannot be listed.\<close>

type_synonym deployment = "string option \<Rightarrow> ingest_state"

fun reconcile_stacks :: "ingest_env \<Rightarrow> (string option \<Rightarrow> bool) \<Rightarrow> string option list \<Rightarrow> deployment \<Rightarrow> deployment \<times> nat \<times> nat" where
  "reconcile_stacks e unreachable [] d = (d, 0, 0)"
| "reconcile_stacks e unreachable (c # cs) d =
     (if unreachable c then reconcile_stacks e unreachable cs d
      else let (s, m, n) = settleInterruptedIngestsInCurrentStack e (d c); (d', m', n') = reconcile_stacks e unreachable cs (d(c := s))
           in (d', m + m', n + n'))"

definition reconcileInterruptedIngests :: "ingest_env \<Rightarrow> string list option \<Rightarrow> (string option \<Rightarrow> bool) \<Rightarrow> deployment
    \<Rightarrow> deployment \<times> (nat \<times> nat) option" where
  "reconcileInterruptedIngests e names unreachable d =
     (case names of
        None \<Rightarrow> if unreachable None then (d, None)
                else let (s, m, n) = settleInterruptedIngestsInCurrentStack e (d None) in (d(None := s), Some (m, n))
      | Some ns \<Rightarrow>
          let (d', m, n) = reconcile_stacks e unreachable (if ns \<noteq> [] then List.map Some ns else [None]) d in (d', Some (m, n)))"

section \<open>The sweep over abandoned uploads\<close>

definition ABANDONED_UPLOAD_REASON :: string where "ABANDONED_UPLOAD_REASON = ''upload abandoned''"

definition listAllUploading :: "(string \<Rightarrow> jsnum) \<Rightarrow> asset_repo \<Rightarrow> asset list" where
  "listAllUploading parse r = list_from parse r (no_options\<lparr> lo_status := Some Uploading \<rparr>) 0"

text \<open>Past the cutoff: the stamp is a number and not above it.\<close>

definition past_cutoff :: "(string \<Rightarrow> jsnum) \<Rightarrow> jsnum \<Rightarrow> asset \<Rightarrow> bool" where
  "past_cutoff parse cutoff a = (parse (a_updatedAt a) \<noteq> NaN \<and> \<not> js_lt cutoff (parse (a_updatedAt a)))"

definition settle_abandoned :: "(string \<Rightarrow> jsnum) \<Rightarrow> (string \<Rightarrow> bool) \<Rightarrow> jsnum \<Rightarrow> string \<Rightarrow> asset \<Rightarrow> asset_repo \<Rightarrow> asset_repo \<times> bool" where
  "settle_abandoned parse throws cutoff now asset r =
     (if \<not> past_cutoff parse cutoff asset then (r, False)
      else if throws (a_id asset) then (r, False)
      else case get r (a_id asset) of
             None \<Rightarrow> (r, False)
           | Some fresh \<Rightarrow>
               if a_status fresh \<noteq> Uploading then (r, False)
               else if \<not> past_cutoff parse cutoff fresh then (r, False)
               else (case update_asset (a_id asset) (empty_patch\<lparr> u_status := Some Failed, u_statusReason := Some ABANDONED_UPLOAD_REASON \<rparr>) now r of
                       Inl err \<Rightarrow> (r, False)
                     | Inr (r', None) \<Rightarrow> (r', False)
                     | Inr (r', Some a) \<Rightarrow> (r', True)))"

fun abandoned_loop :: "(string \<Rightarrow> jsnum) \<Rightarrow> (string \<Rightarrow> bool) \<Rightarrow> (nat \<Rightarrow> asset_repo \<Rightarrow> asset_repo) \<Rightarrow> jsnum \<Rightarrow> string \<Rightarrow> nat \<Rightarrow> asset list
    \<Rightarrow> asset_repo \<Rightarrow> asset_repo \<times> nat \<times> nat" where
  "abandoned_loop parse throws other cutoff now k [] r = (r, 0, 0)"
| "abandoned_loop parse throws other cutoff now k (a # as) r =
     (let (r1, done) = settle_abandoned parse throws cutoff now a (other k r);
          (r2, scanned, settled) = abandoned_loop parse throws other cutoff now (Suc k) as r1
      in (r2, Suc scanned, if done then Suc settled else settled))"

definition settleAbandonedUploads :: "(string \<Rightarrow> jsnum) \<Rightarrow> (string \<Rightarrow> bool) \<Rightarrow> (nat \<Rightarrow> asset_repo \<Rightarrow> asset_repo) \<Rightarrow> jsnum \<Rightarrow> jsnum \<Rightarrow> string
    \<Rightarrow> asset_repo \<Rightarrow> asset_repo \<times> nat \<times> nat" where
  "settleAbandonedUploads parse throws other thresholdMs nowMs now r =
     (if \<not> js_finite thresholdMs \<or> \<not> js_lt (Fin 0) thresholdMs then (r, 0, 0)
      else abandoned_loop parse throws other (js_sub nowMs thresholdMs) now 0 (listAllUploading parse r) r)"

section \<open>One candidate\<close>

definition failed_pull :: "ingest_env \<Rightarrow> job \<Rightarrow> job" where
  "failed_pull e j = j\<lparr> j_updatedAt := ie_now e, j_status := JFailed, j_error := Some (ie_reason e) \<rparr>"

lemma failed_pull_patch:
  assumes "j_status j = JRunning"
  shows "applyJobPatch j (blank_job_patch\<lparr> uj_status := Some JFailed, uj_error := Some (ie_reason e) \<rparr>) (ie_now e) = Inr (failed_pull e j)"
  using assms by (simp add: applyJobPatch_def blank_job_patch_def job_patch_fields_def jset_def Let_def isValidJobTransition_def failed_pull_def)

lemma reason_patch_only:
  assumes "a_status a = Uploading"
  shows "\<exists>pv. patch_asset a (empty_patch\<lparr> u_status := Some Failed, u_statusReason := Some why \<rparr>) now
    = Inr (a\<lparr> a_updatedAt := now, a_status := Failed, a_statusHistory := a_statusHistory a @ [\<lparr> st_at = now, st_from = Some Uploading,
        st_to = Failed, st_reason = (if why \<noteq> [] then Some why else None) \<rparr>], a_provenance := pv \<rparr>)"
  using assms by (auto simp: patch_asset_def applyStatus_def empty_patch_def patch_fields_def patch_defs opt_set_def
      patch_provenance_def provenanceForPatch_def pv_entry_def Let_def isValidTransition_def)

lemma settle_asset_cases:
  obtains (kept) r where "settleAssetForInterruptedPull e job s = (s, r)" "r = None \<or> r = Some None"
  | (written) a a' where "get (is_assets s) (j_assetId job) = Some a" "a_status a = Uploading" "ie_hasAssets e" "\<not> ie_assetThrows e (j_assetId job)"
      "settleAssetForInterruptedPull e job s = (s\<lparr> is_assets := put (j_assetId job) a' (is_assets s) \<rparr>, Some (Some a'))"
      "a_status a' = Failed" "a_objectKey a' = a_objectKey a" "a_id a' = a_id a"
      "a_statusHistory a' = a_statusHistory a @ [\<lparr> st_at = ie_now e, st_from = Some Uploading, st_to = Failed,
         st_reason = (if ie_assetReason e \<noteq> [] then Some (ie_assetReason e) else None) \<rparr>]"
proof (cases "ie_hasAssets e \<and> \<not> ie_assetThrows e (j_assetId job) \<and> (\<exists>a. get (is_assets s) (j_assetId job) = Some a \<and> a_status a = Uploading)")
  case True
  then obtain a where a: "get (is_assets s) (j_assetId job) = Some a" "a_status a = Uploading" "ie_hasAssets e" "\<not> ie_assetThrows e (j_assetId job)" by blast
  obtain a' where pv: "patch_asset a (empty_patch\<lparr> u_status := Some Failed, u_statusReason := Some (ie_assetReason e) \<rparr>) (ie_now e) = Inr a'"
    "a_status a' = Failed" "a_objectKey a' = a_objectKey a" "a_id a' = a_id a"
    "a_statusHistory a' = a_statusHistory a @ [\<lparr> st_at = ie_now e, st_from = Some Uploading, st_to = Failed,
         st_reason = (if ie_assetReason e \<noteq> [] then Some (ie_assetReason e) else None) \<rparr>]"
    using reason_patch_only [OF a(2), of "ie_assetReason e" "ie_now e"] by auto
  have "settleAssetForInterruptedPull e job s = (s\<lparr> is_assets := put (j_assetId job) a' (is_assets s) \<rparr>, Some (Some a'))"
    using a pv(1) by (simp add: settleAssetForInterruptedPull_def update_asset_def get_def)
  from written [OF a this pv(2-5)] show thesis .
next
  case False
  then have "settleAssetForInterruptedPull e job s = (s, None) \<or> settleAssetForInterruptedPull e job s = (s, Some None)"
    by (auto simp: settleAssetForInterruptedPull_def split: option.splits)
  then show thesis using kept by blast
qed

lemma discard_frame:
  "is_jobs (discardPartialPullBytes e a s) = is_jobs s \<and> is_assets (discardPartialPullBytes e a s) = is_assets s \<and> is_audit (discardPartialPullBytes e a s) = is_audit s"
  by (auto simp: discardPartialPullBytes_def Let_def split: cleanup_storage.splits)

lemma remove_objects:
  "map_of (bk_objects (fst (remove_object c k b))) x = map_of (bk_objects b) x \<or> scopedKey k = Some x"
  by (auto simp: remove_object_def split: option.splits storage_fault.splits)

lemma discard_objects:
  "map_of (bk_objects (is_bucket (discardPartialPullBytes e a s))) x = map_of (bk_objects (is_bucket s)) x
    \<or> (\<exists>k. a_objectKey a = Some k \<and> scopedKey k = Some x \<and> \<not> prefix EXTERNAL_OBJECT_KEY_PREFIX (to_lower k))"
proof (cases "\<exists>c. ie_storage e = CleanupStorage c \<and> truthy (a_objectKey a) \<and> \<not> prefix EXTERNAL_OBJECT_KEY_PREFIX (to_lower (the (a_objectKey a)))")
  case True
  then obtain c k where c: "ie_storage e = CleanupStorage c" "a_objectKey a = Some k" "k \<noteq> []" "\<not> prefix EXTERNAL_OBJECT_KEY_PREFIX (to_lower k)"
    by (cases "a_objectKey a") auto
  obtain b r where b: "abortIncompleteMultipartUploads c k (is_bucket s) = (b, r)" by fastforce
  have "is_bucket (discardPartialPullBytes e a s) = fst (remove_object c k b)" using c b by (simp add: discardPartialPullBytes_def Let_def)
  then show ?thesis using remove_objects [of c k b x] abort_frame [OF b] c by auto
next
  case False
  then have "discardPartialPullBytes e a s = s" by (auto simp: discardPartialPullBytes_def Let_def split: cleanup_storage.splits)
  then show ?thesis by simp
qed

lemma settle_refuses:
  assumes "\<not> (\<exists>fresh. get_job (is_jobs s) (j_id job) = Some fresh \<and> interrupted e fresh) \<or> ie_jobThrows e (j_id job)"
  shows "settle_interrupted e job s = (s, False)"
  using assms by (auto simp: settle_interrupted_def split: option.splits)

lemma settle_acts:
  assumes "get_job (is_jobs s) (j_id job) = Some fresh" "interrupted e fresh" "\<not> ie_jobThrows e (j_id job)"
  shows "settle_interrupted e job s =
    (let s1 = s\<lparr> is_jobs := put_job (j_id job) (failed_pull e fresh) (is_jobs s), is_audit := is_audit s @ [IngestFailed (j_id job) (j_assetId job) (ie_reason e)] \<rparr>
     in case settleAssetForInterruptedPull e job s1 of (s2, Some (Some asset)) \<Rightarrow> (discardPartialPullBytes e asset s2, True) | (s2, _) \<Rightarrow> (s2, True))"
proof -
  have "j_status fresh = JRunning" using assms(2) by (simp add: interrupted_def)
  from failed_pull_patch [OF this, of e] show ?thesis using assms by (simp add: settle_interrupted_def update_job_def get_job_def Let_def)
qed

lemma settle_turn:
  "settle_interrupted e job s = (s, False) \<or>
   (\<exists>fresh s'. settle_interrupted e job s = (s', True) \<and> get_job (is_jobs s) (j_id job) = Some fresh \<and> interrupted e fresh
      \<and> is_jobs s' = put_job (j_id job) (failed_pull e fresh) (is_jobs s)
      \<and> is_audit s' = is_audit s @ [IngestFailed (j_id job) (j_assetId job) (ie_reason e)]
      \<and> (is_assets s' = is_assets s \<and> is_bucket s' = is_bucket s
         \<or> (\<exists>a a'. get (is_assets s) (j_assetId job) = Some a \<and> a_status a = Uploading \<and> a_status a' = Failed \<and> a_objectKey a' = a_objectKey a
            \<and> is_assets s' = put (j_assetId job) a' (is_assets s)
            \<and> (\<forall>x. map_of (bk_objects (is_bucket s')) x = map_of (bk_objects (is_bucket s)) x
                 \<or> (\<exists>k. a_objectKey a = Some k \<and> scopedKey k = Some x \<and> \<not> prefix EXTERNAL_OBJECT_KEY_PREFIX (to_lower k))))))"
proof (cases "(\<exists>fresh. get_job (is_jobs s) (j_id job) = Some fresh \<and> interrupted e fresh) \<and> \<not> ie_jobThrows e (j_id job)")
  case False
  then show ?thesis using settle_refuses [of s job e] by blast
next
  case True
  then obtain fresh where f: "get_job (is_jobs s) (j_id job) = Some fresh" "interrupted e fresh" "\<not> ie_jobThrows e (j_id job)" by blast
  let ?t = "s\<lparr> is_jobs := put_job (j_id job) (failed_pull e fresh) (is_jobs s), is_audit := is_audit s @ [IngestFailed (j_id job) (j_assetId job) (ie_reason e)] \<rparr>"
  note acts = settle_acts [OF f, unfolded Let_def]
  show ?thesis
  proof (cases rule: settle_asset_cases [of e job ?t])
    case (kept r)
    then have "settle_interrupted e job s = (?t, True)" using acts by auto
    then show ?thesis using f by simp
  next
    case (written a a')
    have run: "settle_interrupted e job s = (discardPartialPullBytes e a' (?t\<lparr> is_assets := put (j_assetId job) a' (is_assets ?t) \<rparr>), True)"
      using acts written(5) by simp
    let ?u = "?t\<lparr> is_assets := put (j_assetId job) a' (is_assets ?t) \<rparr>"
    have "map_of (bk_objects (is_bucket (discardPartialPullBytes e a' ?u))) x = map_of (bk_objects (is_bucket s)) x
      \<or> (\<exists>k. a_objectKey a = Some k \<and> scopedKey k = Some x \<and> \<not> prefix EXTERNAL_OBJECT_KEY_PREFIX (to_lower k))" for x
      using discard_objects [of e a' ?u x] written(7) by simp
    moreover have "is_jobs (discardPartialPullBytes e a' ?u) = put_job (j_id job) (failed_pull e fresh) (is_jobs s)"
      "is_assets (discardPartialPullBytes e a' ?u) = put (j_assetId job) a' (is_assets s)"
      "is_audit (discardPartialPullBytes e a' ?u) = is_audit s @ [IngestFailed (j_id job) (j_assetId job) (ie_reason e)]"
      using discard_frame [of e a' ?u] by simp_all
    ultimately show ?thesis using run f written by auto
  qed
qed

section \<open>The whole pass\<close>

lemma candidates_eq:
  "candidates_from e r offset pages = filter (interrupted e) (take (pages * 200) (drop offset (rev (sort_key j_createdAt (rev (vals (jobs r)))))))"
proof (induction pages arbitrary: offset)
  case (Suc pages)
  let ?all = "rev (sort_key j_createdAt (rev (vals (jobs r))))"
  let ?items = "take 200 (drop offset ?all)"
  have l: "list_jobs r (Some SCAN_PAGE_SIZE) (Some offset) = (?items, length ?all)" by (simp add: list_jobs_def SCAN_PAGE_SIZE_def)
  have split: "take (200 + pages * 200) (drop offset ?all) = ?items @ take (pages * 200) (drop (offset + 200) ?all)"
    by (simp only: take_add drop_drop add.commute)
  show ?case
  proof (cases "length ?all \<le> offset + 200")
    case True
    then have "take (pages * 200) (drop (offset + 200) ?all) = []" by simp
    then show ?thesis using l split True by (simp add: SCAN_PAGE_SIZE_def Let_def)
  next
    case False
    then have "length ?items = 200" by simp
    then show ?thesis using l split False Suc.IH [of "offset + 200"] by (simp add: SCAN_PAGE_SIZE_def Let_def)
  qed
qed simp

lemma candidates_all:
  assumes "length (jobs r) \<le> 10000"
  shows "listInterruptedCandidates e r = filter (interrupted e) (rev (sort_key j_createdAt (rev (vals (jobs r)))))"
  using assms by (simp add: listInterruptedCandidates_def candidates_eq MAX_SCAN_PAGES_def vals_def)

lemma settle_jobs:
  "is_jobs (fst (settle_interrupted e job s)) = (case get_job (is_jobs s) (j_id job) of
     Some fresh \<Rightarrow> if interrupted e fresh \<and> \<not> ie_jobThrows e (j_id job) then put_job (j_id job) (failed_pull e fresh) (is_jobs s) else is_jobs s
   | None \<Rightarrow> is_jobs s)"
proof (cases "(\<exists>fresh. get_job (is_jobs s) (j_id job) = Some fresh \<and> interrupted e fresh) \<and> \<not> ie_jobThrows e (j_id job)")
  case True
  then obtain fresh where f: "get_job (is_jobs s) (j_id job) = Some fresh" "interrupted e fresh" "\<not> ie_jobThrows e (j_id job)" by blast
  have ns: "snd (settle_interrupted e job s) = True"
    using settle_acts [OF f] by (auto simp: Let_def split: prod.splits option.splits)
  then show ?thesis using settle_turn [of e job s] f by auto
next
  case False
  then show ?thesis using settle_refuses [of s job e] by (auto split: option.split)
qed

lemma pass_jobs:
  assumes "\<forall>k t. ie_other e k t = t" "\<forall>i. \<not> ie_jobThrows e i" "distinct (List.map j_id cs)"
  shows "get_job (is_jobs (fst (settle_candidates e k cs s))) i =
    (case get_job (is_jobs s) i of Some j \<Rightarrow> if i \<in> j_id ` set cs \<and> interrupted e j then Some (failed_pull e j) else Some j | None \<Rightarrow> None)"
  using assms(3)
proof (induction cs arbitrary: k s)
  case (Cons c cs)
  let ?s1 = "fst (settle_interrupted e c s)"
  have o: "ie_other e k s = s" using assms(1) by blast
  have r: "fst (settle_candidates e k (c # cs) s) = fst (settle_candidates e (Suc k) cs ?s1)" by (simp add: o split_beta Let_def)
  have nf: "\<not> interrupted e (failed_pull e j)" for j by (simp add: interrupted_def failed_pull_def)
  show ?case unfolding r using Cons assms(2) nf by (auto simp: settle_jobs split: option.splits if_splits)
qed (simp split: option.split)

lemma candidates_distinct:
  assumes "jobs_ok r" "length (jobs r) \<le> 10000"
  shows "distinct (List.map j_id (listInterruptedCandidates e r))"
proof -
  let ?all = "rev (sort_key j_createdAt (rev (vals (jobs r))))"
  have dk: "distinct (keys (jobs r))" and ids: "\<And>i j. map_of (jobs r) i = Some j \<Longrightarrow> j_id j = i"
    using assms(1) by (auto simp: jobs_ok_def)
  have ik: "(k, j) \<in> set (jobs r) \<Longrightarrow> j_id j = k" for k j using ids dk by (simp add: keys_def)
  have "List.map j_id (vals (jobs r)) = keys (jobs r)" using ik by (auto simp: vals_def keys_def)
  then have "distinct (List.map j_id (vals (jobs r)))" using dk by simp
  moreover have "mset ?all = mset (vals (jobs r))" by simp
  ultimately have da: "distinct (List.map j_id ?all)" by (metis mset_map mset_eq_imp_distinct_iff)
  then show ?thesis unfolding candidates_all [OF assms(2)] by (rule distinct_map_filter)
qed

lemma candidates_member:
  assumes "jobs_ok r" "length (jobs r) \<le> 10000" "get_job r i = Some j" "interrupted e j"
  shows "j \<in> set (listInterruptedCandidates e r) \<and> j_id j = i"
proof -
  have "j \<in> set (vals (jobs r))" using assms(1,3) by (auto simp: get_job_def in_vals_lookup jobs_ok_def)
  moreover have "j_id j = i" using assms(1,3) by (auto simp: get_job_def jobs_ok_def)
  ultimately show ?thesis unfolding candidates_all [OF assms(2)] using assms(4) by auto
qed

lemma pass_no_longer_interrupted:
  assumes "jobs_ok (is_jobs s)" "length (jobs (is_jobs s)) \<le> 10000" "\<forall>k t. ie_other e k t = t" "\<forall>i. \<not> ie_jobThrows e i"
  shows "get_job (is_jobs (fst (settleInterruptedIngestsInCurrentStack e s))) i =
    (case get_job (is_jobs s) i of Some j \<Rightarrow> Some (if interrupted e j then failed_pull e j else j) | None \<Rightarrow> None)"
proof -
  have "i \<in> j_id ` set (listInterruptedCandidates e (is_jobs s))" if "get_job (is_jobs s) i = Some j" "interrupted e j" for j
    using candidates_member [OF assms(1,2) that] by (auto intro!: image_eqI [of _ _ j])
  then show ?thesis unfolding settleInterruptedIngestsInCurrentStack_def pass_jobs [OF assms(3,4) candidates_distinct [OF assms(1,2)]]
    by (auto split: option.split)
qed

section \<open>The bytes of one asset\<close>

lemma abort_filters: "\<exists>P. bk_uploads (fst (abortIncompleteMultipartUploads e lk b)) = filter P (bk_uploads b)"
proof -
  have loop: "\<exists>P. bk_uploads (fst (abort_loop e key n k b)) = filter P (bk_uploads b)" for key n k and b :: bucket
  proof (induction n arbitrary: k b)
    case 0
    show ?case by (rule exI [of _ "\<lambda>u. True"]) simp
  next
    case (Suc n)
    have same: "\<exists>P. bk_uploads b = filter P (bk_uploads b)" by (rule exI [of _ "\<lambda>u. True"]) simp
    show ?case
    proof (cases "fault_now e b = StThrows \<or> find_upload key b = None")
      case True
      then show ?thesis using same by (auto split: option.splits)
    next
      case False
      then obtain i where i: "find_upload key b = Some i" "fault_now e b \<noteq> StThrows" by auto
      obtain b1 r1 where a: "abortMultipartUpload e key i (counted b) = (b1, r1)" by fastforce
      have one: "\<exists>P. bk_uploads b1 = filter P (bk_uploads b)"
        using a same by (auto simp: abortMultipartUpload_def drop_upload_def split: option.splits storage_fault.splits)
      show ?thesis
      proof (cases r1)
        case (Answer u)
        obtain P where P: "bk_uploads b1 = filter P (bk_uploads b)" using one by blast
        obtain P' where P': "bk_uploads (fst (abort_loop e key n (Suc k) b1)) = filter P' (bk_uploads b1)" using Suc.IH by blast
        show ?thesis using Answer a i P P' by (intro exI [of _ "\<lambda>u. P u \<and> P' u"]) simp
      next
        case (Throws m)
        then show ?thesis using a i one by simp
      qed
    qed
  qed
  have "\<exists>P. bk_uploads b = filter P (bk_uploads b)" by (rule exI [of _ "\<lambda>u. True"]) simp
  then show ?thesis using loop by (simp add: abortIncompleteMultipartUploads_def split: option.split)
qed

definition smaller_bucket :: "bucket \<Rightarrow> bucket \<Rightarrow> bool" where
  "smaller_bucket b' b = ((wf_bucket b \<longrightarrow> wf_bucket b') \<and> (\<exists>P. bk_uploads b' = filter P (bk_uploads b))
     \<and> (\<forall>x. map_of (bk_objects b') x = map_of (bk_objects b) x \<or> map_of (bk_objects b') x = None))"

lemma smaller_refl: "smaller_bucket b b"
  by (auto simp: smaller_bucket_def intro: exI [of _ "\<lambda>u. True"])

lemma smaller_uploads: "smaller_bucket b' b \<Longrightarrow> length (uploads_of key b') \<le> length (uploads_of key b)"
proof -
  assume "smaller_bucket b' b"
  then obtain P where "bk_uploads b' = filter P (bk_uploads b)" unfolding smaller_bucket_def by blast
  then have "uploads_of key b' = filter P (uploads_of key b)" by (simp add: uploads_of_def conj_commute)
  then show ?thesis by simp
qed

lemma smaller_removed: "smaller_bucket (fst (remove_object c k (fst (abortIncompleteMultipartUploads c k b)))) b"
proof -
  let ?b1 = "fst (abortIncompleteMultipartUploads c k b)"
  obtain r where b1: "abortIncompleteMultipartUploads c k b = (?b1, r)" by (metis surjective_pairing)
  have up: "bk_uploads (fst (remove_object c k ?b1)) = bk_uploads ?b1" by (simp add: remove_object_def split: option.split storage_fault.split)
  have ob: "map_of (bk_objects (fst (remove_object c k ?b1))) x = map_of (bk_objects b) x \<or> map_of (bk_objects (fst (remove_object c k ?b1))) x = None" for x
    using abort_frame [OF b1] by (simp add: remove_object_def split: option.split storage_fault.split)
  have "wf_bucket (fst (remove_object c k ?b1))" if "wf_bucket b"
    using abort_wf [OF that, of c k] by (auto simp: remove_object_def wf_bucket_def split: option.splits storage_fault.splits)
  then show ?thesis using ob abort_filters [of c k b] unfolding smaller_bucket_def up by blast
qed

lemma settle_bucket: "smaller_bucket (is_bucket (fst (settle_interrupted e job s))) (is_bucket s)"
proof (cases "(\<exists>fresh. get_job (is_jobs s) (j_id job) = Some fresh \<and> interrupted e fresh) \<and> \<not> ie_jobThrows e (j_id job)")
  case False
  then show ?thesis using settle_refuses [of s job e] smaller_refl by auto
next
  case True
  then obtain fresh where f: "get_job (is_jobs s) (j_id job) = Some fresh" "interrupted e fresh" "\<not> ie_jobThrows e (j_id job)" by blast
  let ?t = "s\<lparr> is_jobs := put_job (j_id job) (failed_pull e fresh) (is_jobs s), is_audit := is_audit s @ [IngestFailed (j_id job) (j_assetId job) (ie_reason e)] \<rparr>"
  have d: "smaller_bucket (is_bucket (discardPartialPullBytes e a u)) (is_bucket u)" for a u
    using smaller_removed smaller_refl by (auto simp: discardPartialPullBytes_def Let_def split: cleanup_storage.split)
  note acts = settle_acts [OF f, unfolded Let_def]
  show ?thesis
  proof (cases rule: settle_asset_cases [of e job ?t])
    case (kept r)
    then show ?thesis using acts smaller_refl by auto
  next
    case (written a a')
    then show ?thesis using acts d [of a' "?t\<lparr> is_assets := put (j_assetId job) a' (is_assets ?t) \<rparr>"] by simp
  qed
qed

text \<open>Waiting for its settling, and settled.\<close>

definition awaiting :: "string \<Rightarrow> string \<Rightarrow> string \<Rightarrow> ingest_state \<Rightarrow> bool" where
  "awaiting x k key s = ((\<exists>a. get (is_assets s) x = Some a \<and> a_status a = Uploading \<and> a_objectKey a = Some k)
     \<and> wf_bucket (is_bucket s) \<and> length (uploads_of key (is_bucket s)) \<le> 10)"

definition cleaned :: "string \<Rightarrow> string \<Rightarrow> ingest_state \<Rightarrow> bool" where
  "cleaned x key s = ((\<exists>a. get (is_assets s) x = Some a \<and> a_status a = Failed) \<and> map_of (bk_objects (is_bucket s)) key = None
     \<and> uploads_of key (is_bucket s) = [])"

lemma settle_assets:
  "is_assets (fst (settle_interrupted e job s)) = is_assets s \<or> (\<exists>a a'. get (is_assets s) (j_assetId job) = Some a \<and> a_status a = Uploading
     \<and> a_status a' = Failed \<and> a_objectKey a' = a_objectKey a \<and> is_assets (fst (settle_interrupted e job s)) = put (j_assetId job) a' (is_assets s))"
  using settle_turn [of e job s] by (elim disjE exE conjE) auto

lemma cleaned_stays: "cleaned x key s \<Longrightarrow> cleaned x key (fst (settle_interrupted e job s))"
proof -
  assume c: "cleaned x key s"
  let ?s = "fst (settle_interrupted e job s)"
  have b: "smaller_bucket (is_bucket ?s) (is_bucket s)" by (rule settle_bucket)
  have "uploads_of key (is_bucket ?s) = []" using smaller_uploads [OF b, of key] c by (simp add: cleaned_def)
  moreover have "map_of (bk_objects (is_bucket ?s)) key = map_of (bk_objects (is_bucket s)) key \<or> map_of (bk_objects (is_bucket ?s)) key = None"
    using conjunct2 [OF conjunct2 [OF b [unfolded smaller_bucket_def]]] by (rule spec)
  then have "map_of (bk_objects (is_bucket ?s)) key = None" using c by (simp add: cleaned_def)
  moreover have "\<exists>a. get (is_assets ?s) x = Some a \<and> a_status a = Failed"
    using settle_assets [of e job s] c by (auto simp: cleaned_def)
  ultimately show ?thesis by (simp add: cleaned_def)
qed

lemma turn_cleans:
  assumes "awaiting x k key s" "scopedKey k = Some key" "\<not> prefix EXTERNAL_OBJECT_KEY_PREFIX (to_lower k)" "k \<noteq> []"
    and "ie_hasAssets e" "\<forall>i. \<not> ie_assetThrows e i" "\<forall>i. \<not> ie_jobThrows e i" "ie_storage e = CleanupStorage c" "storage_works c"
  shows "awaiting x k key (fst (settle_interrupted e job s)) \<or> cleaned x key (fst (settle_interrupted e job s))"
    "get_job (is_jobs s) (j_id job) = Some fresh \<Longrightarrow> interrupted e fresh \<Longrightarrow> j_assetId job = x \<Longrightarrow> cleaned x key (fst (settle_interrupted e job s))"
proof -
  let ?s = "fst (settle_interrupted e job s)"
  obtain a where a: "get (is_assets s) x = Some a" "a_status a = Uploading" "a_objectKey a = Some k" "wf_bucket (is_bucket s)"
    "length (uploads_of key (is_bucket s)) \<le> 10" using assms(1) by (auto simp: awaiting_def)
  have cl: "cleaned x key ?s" if f: "get_job (is_jobs s) (j_id job) = Some fresh" "interrupted e fresh" and x: "j_assetId job = x" for fresh
  proof -
    let ?t = "s\<lparr> is_jobs := put_job (j_id job) (failed_pull e fresh) (is_jobs s), is_audit := is_audit s @ [IngestFailed (j_id job) (j_assetId job) (ie_reason e)] \<rparr>"
    have nt: "\<not> ie_jobThrows e (j_id job)" using assms(7) by blast
    note acts = settle_acts [OF f nt, unfolded Let_def]
    show ?thesis
    proof (cases rule: settle_asset_cases [of e job ?t])
      case (kept r)
      have gt: "get (is_assets ?t) (j_assetId job) = Some a" using a(1) x by simp
      obtain pv where "patch_asset a (empty_patch\<lparr> u_status := Some Failed, u_statusReason := Some (ie_assetReason e) \<rparr>) (ie_now e) = Inr pv"
        using reason_patch_only [OF a(2)] by blast
      then have "snd (settleAssetForInterruptedPull e job ?t) = Some (Some pv)"
        using gt a(2) assms(5,6) by (simp add: settleAssetForInterruptedPull_def update_asset_def get_def)
      then show ?thesis using kept by auto
    next
      case (written b a')
      have b: "b = a" using written(1) a(1) x by simp
      let ?u = "?t\<lparr> is_assets := put (j_assetId job) a' (is_assets ?t) \<rparr>"
      have run: "?s = discardPartialPullBytes e a' ?u" using acts written(5) by simp
      obtain b1 where b1: "abortIncompleteMultipartUploads c k (is_bucket s) = (b1, Answer (length (uploads_of key (is_bucket s))))" "uploads_of key b1 = []" "wf_bucket b1"
        using abort_clears [OF assms(9,2) a(4,5)] by auto
      have ok: "a_objectKey a' = Some k" using written(7) b a(3) by simp
      have "?s = ?u\<lparr> is_bucket := counted (b1\<lparr> bk_objects := AList.delete key (bk_objects b1) \<rparr>) \<rparr>"
        unfolding run using assms(2-4,8,9) ok b1(1)
        by (simp add: discardPartialPullBytes_def Let_def remove_object_def fault_now_def storage_works_def)
      then show ?thesis using written(6) x b1(2) by (simp add: cleaned_def) (simp add: uploads_of_def)
    qed
  qed
  then show "get_job (is_jobs s) (j_id job) = Some fresh \<Longrightarrow> interrupted e fresh \<Longrightarrow> j_assetId job = x \<Longrightarrow> cleaned x key ?s" by blast
  show "awaiting x k key ?s \<or> cleaned x key ?s"
  proof (cases "\<exists>fresh. get_job (is_jobs s) (j_id job) = Some fresh \<and> interrupted e fresh")
    case False
    then show ?thesis using settle_refuses [of s job e] assms(1) by auto
  next
    case True
    then obtain fresh where f: "get_job (is_jobs s) (j_id job) = Some fresh" "interrupted e fresh" by blast
    show ?thesis
    proof (cases "j_assetId job = x")
      case True
      then show ?thesis using cl f by blast
    next
      case False
      have "get (is_assets ?s) x = Some a" using settle_assets [of e job s] False a(1) by auto
      moreover have "wf_bucket (is_bucket ?s)" "length (uploads_of key (is_bucket ?s)) \<le> 10"
        using settle_bucket [of e job s] smaller_uploads [OF settle_bucket [of e job s], of key] a(4,5) by (auto simp: smaller_bucket_def)
      ultimately show ?thesis using a(2,3) by (simp add: awaiting_def)
    qed
  qed
qed

lemma pass_cleans:
  assumes "scopedKey k = Some key" "\<not> prefix EXTERNAL_OBJECT_KEY_PREFIX (to_lower k)" "k \<noteq> []"
    and "ie_hasAssets e" "\<forall>i. \<not> ie_assetThrows e i" "\<forall>i. \<not> ie_jobThrows e i" "ie_storage e = CleanupStorage c" "storage_works c"
    and "\<forall>k t. ie_other e k t = t" "distinct (List.map j_id cs)"
  shows "cleaned x key s \<Longrightarrow> cleaned x key (fst (settle_candidates e n cs s))"
    "awaiting x k key s \<Longrightarrow> j \<in> set cs \<Longrightarrow> j_assetId j = x \<Longrightarrow> get_job (is_jobs s) (j_id j) = Some fresh \<Longrightarrow> interrupted e fresh
      \<Longrightarrow> cleaned x key (fst (settle_candidates e n cs s))"
proof -
  have step: "fst (settle_candidates e n (c # cs) s) = fst (settle_candidates e (Suc n) cs (fst (settle_interrupted e c s)))" for n c cs s
  proof -
    have "ie_other e n s = s" using assms(9) by blast
    then show ?thesis by (simp add: split_beta Let_def)
  qed
  have stay: "cleaned x key s \<Longrightarrow> cleaned x key (fst (settle_candidates e n cs s))" for n cs s
  proof (induction cs arbitrary: n s)
    case (Cons d cs)
    then show ?case unfolding step using cleaned_stays by blast
  qed simp
  then show "cleaned x key s \<Longrightarrow> cleaned x key (fst (settle_candidates e n cs s))" .
  show "awaiting x k key s \<Longrightarrow> j \<in> set cs \<Longrightarrow> j_assetId j = x \<Longrightarrow> get_job (is_jobs s) (j_id j) = Some fresh \<Longrightarrow> interrupted e fresh
      \<Longrightarrow> cleaned x key (fst (settle_candidates e n cs s))"
    using assms(10)
  proof (induction cs arbitrary: n s)
    case (Cons d cs)
    note turn = turn_cleans [OF Cons.prems(1) assms(1-8), of d]
    show ?case
    proof (cases "d = j")
      case True
      then have "cleaned x key (fst (settle_interrupted e d s))" using turn(2) Cons.prems(3-5) by blast
      then show ?thesis unfolding step by (rule stay)
    next
      case False
      then have j: "j \<in> set cs" using Cons.prems(2) by simp
      then have "j_id j \<noteq> j_id d" using Cons.prems(6) by (metis distinct.simps(2) imageI list.simps(9) list.set_map)
      then have same: "get_job (is_jobs (fst (settle_interrupted e d s))) (j_id j) = Some fresh"
        using Cons.prems(4) \<open>j_id j \<noteq> j_id d\<close> by (auto simp: settle_jobs split: option.split)
      from turn(1) show ?thesis
      proof
        assume "awaiting x k key (fst (settle_interrupted e d s))"
        from Cons.IH [OF this j Cons.prems(3) same Cons.prems(5)] show ?thesis unfolding step using Cons.prems(6) by simp
      next
        assume "cleaned x key (fst (settle_interrupted e d s))"
        then show ?thesis unfolding step by (rule stay)
      qed
    qed
  qed simp
qed

lemma pass_distinct:
  assumes "\<forall>k t. ie_other e k t = t"
  shows "distinct (keys (jobs (is_jobs s))) \<Longrightarrow> distinct (keys (jobs (is_jobs (fst (settle_candidates e k cs s)))))"
proof (induction cs arbitrary: k s)
  case (Cons c cs)
  have o: "ie_other e k s = s" using assms by blast
  have "distinct (keys (jobs (is_jobs (fst (settle_interrupted e c s)))))"
    using Cons.prems by (auto simp: settle_jobs put_job_def split: option.split)
  from Cons.IH [OF this] show ?case by (simp add: o split_beta Let_def)
qed simp

lemma second_pass_idle:
  assumes "jobs_ok (is_jobs s)" "length (jobs (is_jobs s)) \<le> 10000" "\<forall>k t. ie_other e k t = t" "\<forall>i. \<not> ie_jobThrows e i"
  defines "s' \<equiv> fst (settleInterruptedIngestsInCurrentStack e s)"
  shows "settleInterruptedIngestsInCurrentStack e s' = (s', 0, 0)"
proof -
  have d: "distinct (keys (jobs (is_jobs s')))"
    unfolding s'_def settleInterruptedIngestsInCurrentStack_def using assms(1) by (intro pass_distinct [OF assms(3)]) (simp add: jobs_ok_def)
  have "\<not> interrupted e j" if "j \<in> set (vals (jobs (is_jobs s')))" for j
  proof -
    from that obtain i where "get_job (is_jobs s') i = Some j" using d by (auto simp: get_job_def in_vals_lookup)
    then show ?thesis unfolding s'_def pass_no_longer_interrupted [OF assms(1-4)]
      by (auto simp: interrupted_def failed_pull_def split: option.splits if_splits)
  qed
  then have "listInterruptedCandidates e (is_jobs s') = []"
    unfolding listInterruptedCandidates_def candidates_eq by (auto simp: filter_empty_conv dest!: in_set_takeD)
  then show ?thesis by (simp add: settleInterruptedIngestsInCurrentStack_def)
qed

section \<open>Properties\<close>

text \<open>C39. A live pull is never mistaken for a dead one. Whatever the snapshot said and whatever was written since, the turn of
  a candidate changes nothing unless the job is, at that moment, a running URL pull stamped before the process
  started; then the job fails with the reason and one audit entry, no other job changes, at most its own asset
  moves, from uploading to failed, and the only object that can go is that asset's, in the stack's own bucket,
  and only when the asset was still uploading.\<close>

theorem live_pull_untouched:
  "settle_interrupted e job s = (s, False) \<or>
   (\<exists>fresh s'. settle_interrupted e job s = (s', True) \<and> get_job (is_jobs s) (j_id job) = Some fresh \<and> interrupted e fresh
      \<and> is_jobs s' = put_job (j_id job) (failed_pull e fresh) (is_jobs s)
      \<and> is_audit s' = is_audit s @ [IngestFailed (j_id job) (j_assetId job) (ie_reason e)]
      \<and> (is_assets s' = is_assets s \<and> is_bucket s' = is_bucket s
         \<or> (\<exists>a a'. get (is_assets s) (j_assetId job) = Some a \<and> a_status a = Uploading \<and> a_status a' = Failed \<and> a_objectKey a' = a_objectKey a
            \<and> is_assets s' = put (j_assetId job) a' (is_assets s)
            \<and> (\<forall>x. map_of (bk_objects (is_bucket s')) x = map_of (bk_objects (is_bucket s)) x
                 \<or> (\<exists>k. a_objectKey a = Some k \<and> scopedKey k = Some x \<and> \<not> prefix EXTERNAL_OBJECT_KEY_PREFIX (to_lower k))))))"
  by (rule settle_turn)

text \<open>C40. One boot is enough. A URL pull that was running when the process died is, after the pass over its stack (at most
  ten thousand jobs, nobody else writing, stores that answer), failed with the reason, its asset is failed, and
  neither an object nor an open multipart upload is left under the asset's key; a second pass finds no
  candidate and changes nothing.\<close>

theorem interrupted_pull_settled:
  assumes "jobs_ok (is_jobs s)" "length (jobs (is_jobs s)) \<le> 10000" "get_job (is_jobs s) i = Some j" "interrupted e j"
    and "awaiting (j_assetId j) k key s" "scopedKey k = Some key" "k \<noteq> []" "\<not> prefix EXTERNAL_OBJECT_KEY_PREFIX (to_lower k)"
    and "\<forall>k t. ie_other e k t = t" "\<forall>i. \<not> ie_jobThrows e i" "\<forall>i. \<not> ie_assetThrows e i" "ie_hasAssets e"
    and "ie_storage e = CleanupStorage c" "storage_works c"
  shows "\<exists>s' m n. settleInterruptedIngestsInCurrentStack e s = (s', m, n)
    \<and> get_job (is_jobs s') i = Some (failed_pull e j)
    \<and> (\<exists>a. get (is_assets s') (j_assetId j) = Some a \<and> a_status a = Failed)
    \<and> map_of (bk_objects (is_bucket s')) key = None \<and> uploads_of key (is_bucket s') = []
    \<and> settleInterruptedIngestsInCurrentStack e s' = (s', 0, 0)"
proof -
  let ?s = "fst (settleInterruptedIngestsInCurrentStack e s)"
  let ?cs = "listInterruptedCandidates e (is_jobs s)"
  have job: "get_job (is_jobs ?s) i = Some (failed_pull e j)"
    using pass_no_longer_interrupted [OF assms(1,2,9,10)] assms(3,4) by simp
  have cs: "distinct (List.map j_id ?cs)" "j \<in> set ?cs" "j_id j = i"
    using candidates_distinct [OF assms(1,2)] candidates_member [OF assms(1-4)] by auto
  have "cleaned (j_assetId j) key ?s" unfolding settleInterruptedIngestsInCurrentStack_def
    by (rule pass_cleans(2) [OF assms(6,8,7,12,11,10,13,14,9) cs(1) assms(5) cs(2) refl _ assms(4)]) (use assms(3) cs(3) in simp)
  then show ?thesis using job second_pass_idle [OF assms(1,2,9,10)]
    by (cases "settleInterruptedIngestsInCurrentStack e s") (auto simp: cleaned_def)
qed

section \<open>Witnesses\<close>

definition demo_dead_pull :: ingest_state where
  "demo_dead_pull = \<lparr> is_jobs = put_job ''job-1'' (demo_ingest_job\<lparr> j_status := JRunning \<rparr>) \<lparr> jobs = [], counter = 1 \<rparr>,
     is_assets = \<lparr> store = [(''A'', demo_uploading\<lparr> a_objectKey := Some ''ingest/A'' \<rparr>)], tombstones = [] \<rparr>,
     is_bucket = \<lparr> bk_objects = [(''ingest/A'', ''half'')], bk_uploads = [\<lparr> ou_id = 0, ou_key = ''ingest/A'', ou_parts = [] \<rparr>], bk_nextUpload = 1, bk_calls = 0 \<rparr>,
     is_audit = [] \<rparr>"

definition demo_boot_env :: ingest_env where
  "demo_boot_env = \<lparr> ie_parse = (\<lambda>t. Fin 1000), ie_startedAt = 2000, ie_reason = INTERRUPTED_PULL_ERROR, ie_assetReason = INTERRUPTED_PULL_ASSET_REASON,
     ie_now = ''t9'', ie_hasAssets = True, ie_storage = CleanupStorage demo_storage, ie_jobThrows = (\<lambda>i. False), ie_assetThrows = (\<lambda>i. False), ie_other = (\<lambda>k t. t) \<rparr>"

lemma demo_boot_job: "interrupted demo_boot_env (demo_ingest_job\<lparr> j_status := JRunning \<rparr>)"
  by (simp add: interrupted_def isStampedBefore_def demo_boot_env_def demo_ingest_job_def new_job_def js_of_int_def)

lemma demo_boot_state:
  "jobs_ok (is_jobs demo_dead_pull)" "length (jobs (is_jobs demo_dead_pull)) \<le> 10000"
  "get_job (is_jobs demo_dead_pull) ''job-1'' = Some (demo_ingest_job\<lparr> j_status := JRunning \<rparr>)"
  "awaiting (j_assetId (demo_ingest_job\<lparr> j_status := JRunning \<rparr>)) ''ingest/A'' ''ingest/A'' demo_dead_pull"
proof -
  have d: "''1'' = dec (Suc 0)" by code_simp
  show "jobs_ok (is_jobs demo_dead_pull)"
    by (auto simp: demo_dead_pull_def jobs_ok_def demo_ingest_job_def new_job_def put_job_def keys_def intro!: exI [of _ 1] d)
qed (simp_all add: demo_dead_pull_def demo_ingest_job_def new_job_def put_job_def get_job_def awaiting_def get_def wf_bucket_def uploads_of_def demo_uploading_def)

theorem interrupted_pull_settled_witness:
  "\<exists>s' m n. settleInterruptedIngestsInCurrentStack demo_boot_env demo_dead_pull = (s', m, n) \<and> bk_objects (is_bucket demo_dead_pull) \<noteq> []
    \<and> map_of (bk_objects (is_bucket s')) ''ingest/A'' = None \<and> uploads_of ''ingest/A'' (is_bucket s') = []"
proof -
  have k: "scopedKey ''ingest/A'' = Some ''ingest/A''" "\<not> prefix EXTERNAL_OBJECT_KEY_PREFIX (to_lower ''ingest/A'')" by code_simp+
  have e: "\<forall>k t. ie_other demo_boot_env k t = t" "\<forall>i. \<not> ie_jobThrows demo_boot_env i" "\<forall>i. \<not> ie_assetThrows demo_boot_env i" "ie_hasAssets demo_boot_env"
    "ie_storage demo_boot_env = CleanupStorage demo_storage" "storage_works demo_storage" "''ingest/A'' \<noteq> []"
    by (simp_all add: demo_boot_env_def storage_works_def demo_storage_def)
  have n: "bk_objects (is_bucket demo_dead_pull) \<noteq> []" by (simp add: demo_dead_pull_def)
  from interrupted_pull_settled [OF demo_boot_state(1-3) demo_boot_job demo_boot_state(4) k(1) e(7) k(2) e(1-6)] show ?thesis using n by blast
qed

end
