(* ===== verification/Spec2Isabelle.thy ===== *)
theory Spec2Isabelle
  imports Asset_Claims Job_Claims Asset_Settle Asset_Purge Dispatch Reconcile Storage_Quota Progress_Sweep
    Handler_Handoff Package_Claims
    Scaling_Client Spawn_Admission Pool_Sweeps Packaging_Service Archive_Tier
    Interrupted_Ingest
begin

text \<open>
  A verification development for open-videocore, the media asset server under \<^verbatim>\<open>src/\<close>.

  \<^bold>\<open>The program.\<close> A server keeps \<^emph>\<open>assets\<close> (a media file with its lifecycle, metadata, renditions and
  packaged output) and \<^emph>\<open>jobs\<close> on them. A transcode is queued in a Valkey store per workspace; the
  \<^emph>\<open>scaler\<close>, a control loop, spawns and destroys encoder instances on a platform, dispatches queued
  jobs to them and reconciles its own records with what the encoders report. An encoder's end is
  a message on a \<^emph>\<open>completion queue\<close>, which a poller drains; a sweep over the encoders repairs
  completions that never arrived and raises encodes that froze. Archived assets are purged after
  a retention window, and a per-stack quota is reserved before bytes are written. The parts
  share state: the repositories, and the Valkey keys one record \<^verbatim>\<open>scaler\<close> holds.

  \<^bold>\<open>The theories\<close>, in the order they build on each other.

  \<^item> \<^verbatim>\<open>OVC_Prelude\<close>: JavaScript numbers, strings, maps in insertion order, and their lemmas.
  \<^item> \<^verbatim>\<open>Asset_Model\<close>, \<^verbatim>\<open>Asset_Apply\<close>, \<^verbatim>\<open>Asset_Slug\<close>, \<^verbatim>\<open>Asset_Repo\<close> (\<^verbatim>\<open>data/asset-repo.ts\<close>): the asset record,
    the lifecycle and review tables, the patch rules in the order of the code, slugs, and every
    method of the in-memory repository. \<^verbatim>\<open>Asset_Repo_Inv\<close> and \<^verbatim>\<open>Asset_Repo_Run\<close> prove that every call
    keeps \<^verbatim>\<open>repo_ok\<close>; \<^verbatim>\<open>Asset_Props\<close> and \<^verbatim>\<open>Asset_Claims\<close> state what follows for runs: legal
    histories, unique external ids, exact paging, archived left only by restore.
  \<^item> \<^verbatim>\<open>Job_Repo\<close>, \<^verbatim>\<open>Job_Claims\<close> (\<^verbatim>\<open>data/job-repo.ts\<close>): the job table, patches, the attempt log, the
    encoder id and its round trip, the in-memory repository and its runs.
  \<^item> \<^verbatim>\<open>Asset_Settle\<close> (\<^verbatim>\<open>pipeline/asset-state-after-terminal-job.ts\<close>): what an asset becomes when its
    last job ends. \<^verbatim>\<open>Asset_Purge\<close> (\<^verbatim>\<open>data/asset-retention.ts\<close>, \<^verbatim>\<open>asset-tombstone.ts\<close>,
    \<^verbatim>\<open>pipeline/archived-asset-purge-sweep.ts\<close>): the retention window and the sweep.
  \<^item> \<^verbatim>\<open>Storage_Quota\<close> (\<^verbatim>\<open>services/storage-quota-guard.ts\<close> and the counter stores): reservations, their
    commit and release, and the read-modify-write over CouchDB with five attempts.
  \<^item> \<^verbatim>\<open>Retry_Policy\<close>, \<^verbatim>\<open>Valkey\<close>, \<^verbatim>\<open>Retry_Store\<close> (\<^verbatim>\<open>encore-scaler/retry-policy.ts\<close>, \<^verbatim>\<open>types.ts\<close>,
    \<^verbatim>\<open>retry-store.ts\<close>): failure classes, the shared store, and the decision to retry.
  \<^item> \<^verbatim>\<open>Encore_Edge\<close> (\<^verbatim>\<open>callback-trust-probe.ts\<close>, \<^verbatim>\<open>encore-active-state.ts\<close>, \<^verbatim>\<open>encore-paging-contract.ts\<close>):
    what the scaler asks of an encoder or listener and how it reads the answer.
  \<^item> \<^verbatim>\<open>Reconcile\<close>, \<^verbatim>\<open>Scale_Down\<close>, \<^verbatim>\<open>Dispatch\<close> (\<^verbatim>\<open>scaler-loop.ts\<close>): three steps of a tick.
  \<^item> \<^verbatim>\<open>Osc_Api\<close>, \<^verbatim>\<open>Spawn\<close>, \<^verbatim>\<open>Pool_Sweeps\<close>, \<^verbatim>\<open>Spawn_Admission\<close> (\<^verbatim>\<open>osc-error.ts\<close>, \<^verbatim>\<open>instance-pool.ts\<close>,
    \<^verbatim>\<open>spawn-admission.ts\<close>, \<^verbatim>\<open>spawn-failure.ts\<close>): the platform's calls, the spawn with its adoption and
    cleanup, pending spawns, the orphan reaper, and the concurrency limit of a tick.
  \<^item> \<^verbatim>\<open>Scaling_Client\<close> (\<^verbatim>\<open>encore-scaler/index.ts\<close>, \<^verbatim>\<open>encore-scaler-router.ts\<close> and its helpers): submit,
    status and cancel against the store.
  \<^item> \<^verbatim>\<open>Callback_Queue\<close>, \<^verbatim>\<open>Progress_Sweep\<close> (\<^verbatim>\<open>pipeline/encore-callback-poller.ts\<close>,
    \<^verbatim>\<open>transcode-stall-detector.ts\<close>): the completion queue with retries, dead letters and recovery; the
    sweep, the progress writes and the stall detector.

  \<^item> \<^verbatim>\<open>Pipeline_Repo\<close> (\<^verbatim>\<open>data/pipeline-repo.ts\<close>, \<^verbatim>\<open>pipeline/package-job.ts\<close>,
    \<^verbatim>\<open>stalled-package-reconciler.ts\<close>): executions with their steps, the package job of a run, and the
    sweep over stalled packages, whose exact effect is proved in \<^verbatim>\<open>Package_Claims\<close>.
  \<^item> \<^verbatim>\<open>Completion\<close>, \<^verbatim>\<open>Settle_Failed\<close> (\<^verbatim>\<open>pipeline/transcode.ts\<close>, \<^verbatim>\<open>cancelled-transcode-completion.ts\<close>,
    \<^verbatim>\<open>failed-transcode-reconciler.ts\<close>): what the end of a transcode writes, the late end of a cancelled
    one, and the settling of failed ones.
  \<^item> \<^verbatim>\<open>Completion_Handler\<close>, \<^verbatim>\<open>Handler_Claims\<close>, \<^verbatim>\<open>Handler_Success\<close>, \<^verbatim>\<open>Handler_Handoff\<close>
    (\<^verbatim>\<open>pipeline/encore-callback-poller.ts\<close>): what the poller does with one message, from the fetch of the
    document (three attempts) over the retry gate and the settling of job, asset and run to the
    hand-off to the packager, and what follows for failures, successes and redeliveries.
  \<^item> \<^verbatim>\<open>Packaging_Paths\<close>, \<^verbatim>\<open>Packaging_Drm\<close>, \<^verbatim>\<open>Packaging_Service\<close> (\<^verbatim>\<open>pipeline/packaging.ts\<close>,
    \<^verbatim>\<open>drm/key-provider.ts\<close>): where packaged output is and how it is addressed; the package step with its
    key acquisition, which never makes a protected package clear and zeroes the keys; the callbacks of
    the packager and the settling of a pending protection. \<^verbatim>\<open>Drm_Config\<close> (\<^verbatim>\<open>drm/drm-config.ts\<close>): the
    stored DRM coordinates of a stack, their validation, projection and round trip.
  \<^item> \<^verbatim>\<open>Archive_Tier\<close> (\<^verbatim>\<open>pipeline/archive-tier-relocation.ts\<close>, \<^verbatim>\<open>archive-tier-rehydrate.ts\<close>): the bytes of
    an asset moved to the archive backend and back, with every call of the client allowed to fail.
  \<^item> \<^verbatim>\<open>Source_Guard\<close> (\<^verbatim>\<open>pipeline/source.ts\<close>): which hosts a URL pull may read from, before and after
    redirects, and the opening of HTTP and S3 sources. \<^verbatim>\<open>Workspace_Storage\<close> (\<^verbatim>\<open>data/storage.ts\<close>): the
    object store of a stack, with multipart uploads and the capped streaming write.
    \<^verbatim>\<open>Url_Pull\<close> (\<^verbatim>\<open>pipeline/url-pull-worker.ts\<close>, the cancel handler of \<^verbatim>\<open>routes/jobs.ts\<close>): a pull runs its
    three attempts to a whole end, unless an operator cancels it while it streams.
    \<^verbatim>\<open>Interrupted_Ingest\<close> (\<^verbatim>\<open>pipeline/interrupted-ingest-reconciler.ts\<close>, \<^verbatim>\<open>abandoned-upload-sweep.ts\<close>): the
    pass at boot over pulls whose process died, which never touches a live pull and settles a dead one
    in one pass, and the sweep over abandoned uploads.

  \<^bold>\<open>How the code is read.\<close> State is passed explicitly and returned; an asynchronous call is a step.
  A throw is the left of a sum, or a flag of the environment where the code catches it. Code that
  is not in the repository (the platform, the encoder's HTTP answers, the clock, random ids, the
  URL parser, SHA-256) is an argument. The client of the object store is a bucket, a map from keys to
  bytes with its open uploads, and a fault for each call. A log line has no counterpart.

  \<^bold>\<open>Interfaces.\<close> A locale states what one part relies on, and is interpreted on the code's model:
  \<^verbatim>\<open>lifecycle_table\<close> (asset, review and job tables), \<^verbatim>\<open>quota_store\<close> (the in-memory and the CouchDB
  counter), \<^verbatim>\<open>slot_limiter\<close> (the spawn limit), \<^verbatim>\<open>conserving_steps\<close> (the completion queue and the
  scaler's queue), \<^verbatim>\<open>sweep_order\<close> (the completion sweep), \<^verbatim>\<open>object_mover\<close> (relocation and
  restore of one object).

  \<^bold>\<open>Bounds.\<close> A loop that counts is structural recursion. \<^verbatim>\<open>probe_loop\<close> runs on fuel, and
  \<^verbatim>\<open>watch_ends\<close> shows that the fuel the model gives it is enough. The CouchDB write gives up after
  five attempts and a queued message after eight, as in the code.

  \<^bold>\<open>Not modelled.\<close> The HTTP routes (but for the cancel of a job, the protected package
  and the purge), authentication, the web pages and the scripts: they validate, call the parts above and
  render. The CouchDB document mappers other than the quota counter; the XML
  and HTTP of the key provider adapters, whose answer the package step takes as an argument;
  provisioning of stacks; TAMS; webhooks and logs. The redaction of secrets in messages (regular
  expressions) is an argument.
\<close>

end
